(* ===== verification/AFM_Prelude.thy ===== *)
theory AFM_Prelude
  imports Main "HOL-Library.Word"
begin

text \<open>
  Shared vocabulary of the development: the error numbers the code returns, C strings as
  character lists, the allocator, and the generic list lemmas the components share.

  A C string is the list of its characters up to (and without) the terminating NUL.
  Every call of \<^verbatim>\<open>malloc\<close>, \<^verbatim>\<open>calloc\<close>, \<^verbatim>\<open>realloc\<close> or \<^verbatim>\<open>strdup\<close> of the code may
  fail; the model threads an allocation script \<open>mem\<close> through the operations that allocate.
  The head of the script tells whether the next allocation succeeds; an exhausted script
  means that memory is available from there on. Quantifying over the script covers every
  pattern of failures.
\<close>

section \<open>Collections of rewrite rules\<close>

named_theorems perm_laws \<open>characteristic equations of permission sets\<close>
named_theorems entry_laws \<open>characteristic equations of path entries\<close>
named_theorems domain_laws \<open>characteristic equations of domain specifications\<close>
named_theorems text_laws \<open>equations of the text scanners\<close>

section \<open>Error numbers\<close>

text \<open>The values of errno.h on Linux; the code returns them negated.\<close>

definition ENOENT :: int where [simp]: "ENOENT = 2"
definition ESRCH :: int where [simp]: "ESRCH = 3"
definition E2BIG :: int where [simp]: "E2BIG = 7"
definition EBADF :: int where [simp]: "EBADF = 9"
definition ENOMEM :: int where [simp]: "ENOMEM = 12"
definition EEXIST :: int where [simp]: "EEXIST = 17"
definition EINVAL :: int where [simp]: "EINVAL = 22"
definition ENAMETOOLONG :: int where [simp]: "ENAMETOOLONG = 36"
definition ENOTEMPTY :: int where [simp]: "ENOTEMPTY = 39"
definition ENODATA :: int where [simp]: "ENODATA = 61"
definition EBADMSG :: int where [simp]: "EBADMSG = 74"
definition ENOTSUP :: int where [simp]: "ENOTSUP = 95"
definition EADDRNOTAVAIL :: int where [simp]: "EADDRNOTAVAIL = 99"
definition ENOKEY :: int where [simp]: "ENOKEY = 126"

section \<open>Allocation\<close>

type_synonym mem = "bool list"

definition c_alloc :: "mem \<Rightarrow> bool \<times> mem" where
  "c_alloc m = (case m of [] \<Rightarrow> (True, []) | b # m' \<Rightarrow> (b, m'))"

lemma c_alloc_simps [simp]:
  "c_alloc [] = (True, [])"
  "c_alloc (b # m) = (b, m)"
  by (simp_all add: c_alloc_def)

section \<open>C strings\<close>

text \<open>
  \<open>strspn\<close> and \<open>strcspn\<close> of the C library, as the prefixes they measure, and the
  unsigned comparison made by \<open>strcmp\<close> (only its sign is used by the code).
\<close>

definition c_skip :: "string \<Rightarrow> string \<Rightarrow> string" where
  "c_skip cs s = dropWhile (\<lambda>c. c \<in> List.set cs) s"

definition c_word :: "string \<Rightarrow> string \<Rightarrow> string" where
  "c_word cs s = takeWhile (\<lambda>c. c \<notin> List.set cs) s"

definition c_after :: "string \<Rightarrow> string \<Rightarrow> string" where
  "c_after cs s = dropWhile (\<lambda>c. c \<notin> List.set cs) s"

fun strcmp_less :: "string \<Rightarrow> string \<Rightarrow> bool" where
  "strcmp_less [] [] = False"
| "strcmp_less [] (_ # _) = True"
| "strcmp_less (_ # _) [] = False"
| "strcmp_less (a # as) (b # bs) =
     (if a = b then strcmp_less as bs else (of_char a :: nat) < of_char b)"

text \<open>Conversion of a \<open>size_t\<close> to \<open>unsigned\<close>.\<close>

definition to_unsigned :: "nat \<Rightarrow> nat" where
  "to_unsigned n = n mod 2 ^ 32"

lemma to_unsigned_small [simp]: "n < 2 ^ 32 \<Longrightarrow> to_unsigned n = n"
  by (simp add: to_unsigned_def)

lemma c_word_after [simp]: "c_word cs s @ c_after cs s = s"
  by (simp add: c_word_def c_after_def)

lemma length_c_skip: "length (c_skip cs s) \<le> length s"
  by (simp add: c_skip_def length_dropWhile_le)

lemma length_c_after: "length (c_after cs s) \<le> length s"
  by (simp add: c_after_def length_dropWhile_le)

lemma c_skip_after_shorter:
  assumes "s \<noteq> []"
  shows "length (c_skip cs (c_after cs s)) < length s"
proof (cases s)
  case (Cons c t)
  show ?thesis
  proof (cases "c \<in> List.set cs")
    case True
    with Cons have "c_skip cs (c_after cs s) = c_skip cs t"
      by (simp add: c_after_def c_skip_def)
    with Cons show ?thesis using length_c_skip [of cs t] by simp
  next
    case False
    with Cons have "c_after cs s = c_after cs t"
      by (simp add: c_after_def)
    with Cons show ?thesis
      using length_c_skip [of cs "c_after cs t"] length_c_after [of cs t] by simp
  qed
qed (use assms in simp)

lemma skip_component_shorter:
  fixes seg :: string
  assumes "seg \<noteq> []"
  shows "length (dropWhile (\<lambda>c. c = x) (dropWhile (\<lambda>c. c \<noteq> x) seg)) < length seg"
proof -
  have "length (c_skip [x] (c_after [x] seg)) < length seg"
    using assms by (rule c_skip_after_shorter)
  then show ?thesis by (simp add: c_skip_def c_after_def)
qed

section \<open>Lists\<close>

lemma find_index_Some:
  "List.find P (zip [0..<length xs] xs) = Some (i, x) \<Longrightarrow> i < length xs \<and> x = xs ! i \<and> P (i, x)"
  by (auto simp: find_Some_iff)

lemma list_update_map_key:
  assumes "i < length xs" "k (xs ! i) = k x"
  shows "map k (xs[i := x]) = map k xs"
  using assms by (metis list_update_id map_update)

lemma map_add_fresh:
  "m k = None \<Longrightarrow> [k \<mapsto> v] ++ m = m(k \<mapsto> v)"
  by (auto simp: map_add_def fun_eq_iff split: option.split)

text \<open>
  The shape of the code's loops over a sequence that stop at the first negative status.
\<close>

fun fold_until :: "('s \<Rightarrow> 'a \<Rightarrow> int \<times> 's) \<Rightarrow> 'a list \<Rightarrow> 's \<Rightarrow> int \<times> 's" where
  "fold_until f [] s = (0, s)"
| "fold_until f (x # xs) s =
     (let (rc, s') = f s x in if rc < 0 then (rc, s') else fold_until f xs s')"

text \<open>The same for the loops that stop at the first status that is not zero.\<close>

fun fold_nonzero :: "('s \<Rightarrow> 'a \<Rightarrow> int \<times> 's) \<Rightarrow> 'a list \<Rightarrow> 's \<Rightarrow> int \<times> 's" where
  "fold_nonzero f [] s = (0, s)"
| "fold_nonzero f (x # xs) s =
     (let (rc, s') = f s x in if rc \<noteq> 0 then (rc, s') else fold_nonzero f xs s')"

lemma fold_nonzero_append:
  "fold_nonzero f (xs @ ys) s =
     (let (rc, s') = fold_nonzero f xs s in if rc \<noteq> 0 then (rc, s') else fold_nonzero f ys s')"
  by (induction xs arbitrary: s) (auto simp: Let_def split: prod.splits)

section \<open>Character classes of the C library (C locale)\<close>

abbreviation newline :: char where "newline \<equiv> CHR 0x0A"

definition c_isspace :: "char \<Rightarrow> bool" where
  "c_isspace c \<longleftrightarrow> c \<in> {CHR '' '', CHR 0x09, CHR 0x0A, CHR 0x0B, CHR 0x0C, CHR 0x0D}"

definition c_tolower :: "char \<Rightarrow> char" where
  "c_tolower c = (if 65 \<le> (of_char c :: nat) \<and> (of_char c :: nat) \<le> 90
                  then char_of (of_char c + 32 :: nat) else c)"

definition c_strcasecmp_eq :: "string \<Rightarrow> string \<Rightarrow> bool" where
  "c_strcasecmp_eq a b \<longleftrightarrow> map c_tolower a = map c_tolower b"

section \<open>Numbers in decimal\<close>

text \<open>
  \<open>strtol\<close> in base 10: blanks, a sign, then digits; the value saturates to the range of a
  64 bit \<open>long\<close>. The second component is where \<open>endptr\<close> points to; it is the whole string
  when there is no digit. The third one tells whether \<open>errno\<close> is set to \<open>ERANGE\<close>.
\<close>

definition is_digit :: "char \<Rightarrow> bool" where
  "is_digit c \<longleftrightarrow> 48 \<le> (of_char c :: int) \<and> (of_char c :: int) \<le> 57"

definition digits_value :: "string \<Rightarrow> int" where
  "digits_value ds = foldl (\<lambda>v c. 10 * v + (of_char c - 48)) 0 ds"

definition LONG_MAX :: int where "LONG_MAX = 2 ^ 63 - 1"

definition c_strtol :: "string \<Rightarrow> int \<times> string \<times> bool" where
  "c_strtol s =
     (let s1 = dropWhile c_isspace s;
          neg = (s1 \<noteq> [] \<and> hd s1 = CHR ''-'');
          s2 = (if s1 \<noteq> [] \<and> (hd s1 = CHR ''-'' \<or> hd s1 = CHR ''+'') then tl s1 else s1);
          ds = takeWhile is_digit s2;
          v = (if neg then - digits_value ds else digits_value ds)
      in if ds = [] then (0, s, False)
         else (max (- LONG_MAX - 1) (min LONG_MAX v), drop (length ds) s2, v < - LONG_MAX - 1 \<or> v > LONG_MAX))"

text \<open>The conversion \<^verbatim>\<open>%d\<close> of \<open>printf\<close>.\<close>

definition digit_char :: "nat \<Rightarrow> char" where
  "digit_char d = char_of (48 + d)"

fun nat_digits :: "nat \<Rightarrow> string" where
  "nat_digits n = (if n < 10 then [digit_char n] else nat_digits (n div 10) @ [digit_char (n mod 10)])"

declare nat_digits.simps [simp del]

definition c_decimal :: "int \<Rightarrow> string" where
  "c_decimal i = (if i < 0 then CHR ''-'' # nat_digits (nat (- i)) else nat_digits (nat i))"

lemma of_digit_char: "d < 10 \<Longrightarrow> of_char (digit_char d) = (48 + int d)"
proof -
  assume "d < 10"
  then have "of_char (digit_char d) = 48 + d" by (simp add: digit_char_def take_bit_nat_eq_self)
  then have "int (of_char (digit_char d)) = 48 + int d" by simp
  then show ?thesis by (metis of_nat_of_char)
qed

lemma is_digit_char [simp]: "d < 10 \<Longrightarrow> is_digit (digit_char d)"
  by (simp add: is_digit_def of_digit_char)

lemma nat_digits_ne [simp]: "nat_digits n \<noteq> []"
  by (subst nat_digits.simps) simp

lemma nat_digits_digits: "c \<in> List.set (nat_digits n) \<Longrightarrow> is_digit c"
  by (induction n rule: nat_digits.induct) (subst (asm) nat_digits.simps, auto split: if_splits)

lemma digits_value_nat_digits [simp]: "digits_value (nat_digits n) = int n"
proof (induction n rule: nat_digits.induct)
  case (1 n)
  show ?case
  proof (cases "n < 10")
    case True
    then show ?thesis by (subst nat_digits.simps) (simp add: digits_value_def of_digit_char)
  next
    case False
    then have "digits_value (nat_digits n) = 10 * digits_value (nat_digits (n div 10)) + int (n mod 10)"
      by (subst nat_digits.simps) (simp add: digits_value_def of_digit_char)
    also have "\<dots> = 10 * int (n div 10) + int (n mod 10)" using 1 False by simp
    also have "\<dots> = int (10 * (n div 10) + n mod 10)" by (simp only: of_nat_add of_nat_mult of_nat_numeral)
    also have "\<dots> = int n" by (simp only: mult_div_mod_eq)
    finally show ?thesis .
  qed
qed

lemma digit_not_special:
  assumes "is_digit c"
  shows "\<not> c_isspace c" "c \<noteq> CHR ''-''" "c \<noteq> CHR ''+''"
  using assms by (auto simp: is_digit_def c_isspace_def)

lemma c_strtol_nat_digits:
  assumes "int n \<le> LONG_MAX"
  shows "c_strtol (nat_digits n) = (int n, [], False)"
proof -
  obtain c r where cr: "nat_digits n = c # r" using nat_digits_ne [of n] by (cases "nat_digits n") auto
  have all: "takeWhile is_digit r = r"
    using nat_digits_digits [of _ n] by (simp add: takeWhile_eq_all_conv cr)
  have "is_digit c" using nat_digits_digits [of c n] cr by simp
  then show ?thesis
    using assms digit_not_special [of c] digits_value_nat_digits [of n]
    by (simp add: c_strtol_def Let_def cr all LONG_MAX_def)
qed

end
