(* ===== verification/DomainSpec.thy ===== *)
theory DomainSpec
  imports AFM_Prelude
begin

text \<open>
  Specifications of domains (\<^verbatim>\<open>src/src/utils/domain-spec.c\<close>): what a certificate may grant
  or sign, a linked list of domain names with a permission level, and its text form
  \<^verbatim>\<open>+name,#name,@name\<close> in the extension of the certificates.
\<close>

section \<open>Data\<close>

text \<open>The C enumeration; a value of the type may be any integer.\<close>

type_synonym domain_permission = int

definition domain_permission_none :: domain_permission where [simp]: "domain_permission_none = 0"
definition domain_permission_grants :: domain_permission where [simp]: "domain_permission_grants = 1"
definition domain_permission_auth :: domain_permission where [simp]: "domain_permission_auth = 2"
definition domain_permission_root :: domain_permission where [simp]: "domain_permission_root = 3"
definition domain_permission_count :: domain_permission where [simp]: "domain_permission_count = 4"

definition is_domain_permission_valid :: "domain_permission \<Rightarrow> bool" where
  "is_domain_permission_valid p \<longleftrightarrow> 0 \<le> p \<and> p < domain_permission_count"

record domain =
  d_name :: string
  d_permission :: domain_permission

text \<open>The list from the head of the specification.\<close>

type_synonym domain_spec = "domain list"

definition domain_permission_tags :: string where
  "domain_permission_tags = [CHR 0x00, CHR ''+'', CHR ''#'', CHR ''@'']"

abbreviation comma :: char where "comma \<equiv> CHR '',''"

section \<open>Operations\<close>

definition get_domain_len :: "domain_spec \<Rightarrow> string \<Rightarrow> nat \<Rightarrow> domain option" where
  "get_domain_len spec nm len = List.find (\<lambda>d. d_name d = take len nm) spec"

definition get_domain :: "domain_spec \<Rightarrow> string \<Rightarrow> domain option" where
  "get_domain spec nm = get_domain_len spec nm (length nm)"

definition add_domain_len ::
  "domain_spec \<Rightarrow> mem \<Rightarrow> domain_permission \<Rightarrow> string \<Rightarrow> nat \<Rightarrow> int \<times> domain_spec \<times> mem" where
  "add_domain_len spec m perm nm len =
     (let (ok, m') = c_alloc m
      in if \<not> ok then (- ENOMEM, spec, m')
         else (0, \<lparr>d_name = take len nm, d_permission = perm\<rparr> # spec, m'))"

definition add_domain ::
  "domain_spec \<Rightarrow> mem \<Rightarrow> domain_permission \<Rightarrow> string \<Rightarrow> int \<times> domain_spec \<times> mem" where
  "add_domain spec m perm nm = add_domain_len spec m perm nm (length nm)"

text \<open>
  \<open>domain_spec_set_len\<close>: the first domain of that name is removed or gets the permission;
  a new domain is added with the whole of the string, whatever the length given.
\<close>

fun remove_domain :: "string \<Rightarrow> domain_spec \<Rightarrow> domain_spec" where
  "remove_domain n [] = []"
| "remove_domain n (d # ds) = (if d_name d = n then ds else d # remove_domain n ds)"

fun assign_domain :: "string \<Rightarrow> domain_permission \<Rightarrow> domain_spec \<Rightarrow> domain_spec" where
  "assign_domain n p [] = []"
| "assign_domain n p (d # ds) =
     (if d_name d = n then d\<lparr>d_permission := p\<rparr> # ds else d # assign_domain n p ds)"

definition domain_spec_set_len ::
  "domain_spec \<Rightarrow> mem \<Rightarrow> domain_permission \<Rightarrow> string \<Rightarrow> nat \<Rightarrow> int \<times> domain_spec \<times> mem" where
  "domain_spec_set_len spec m perm nm len =
     (if \<not> is_domain_permission_valid perm then (- EINVAL, spec, m)
      else let found = get_domain_len spec nm len in
        if perm = domain_permission_none then
          (0, if found \<noteq> None then remove_domain (take len nm) spec else spec, m)
        else if found \<noteq> None then (0, assign_domain (take len nm) perm spec, m)
        else add_domain spec m perm nm)"

definition domain_spec_set ::
  "domain_spec \<Rightarrow> mem \<Rightarrow> domain_permission \<Rightarrow> string \<Rightarrow> int \<times> domain_spec \<times> mem" where
  "domain_spec_set spec m perm nm = domain_spec_set_len spec m perm nm (length nm)"

definition is_domain_spec_granting :: "domain_spec \<Rightarrow> string \<Rightarrow> bool" where
  "is_domain_spec_granting spec nm \<longleftrightarrow>
     (case get_domain spec nm of None \<Rightarrow> False | Some d \<Rightarrow> d_permission d = domain_permission_grants)"

definition printable :: "domain \<Rightarrow> bool" where
  "printable d \<longleftrightarrow> domain_permission_none < d_permission d \<and> d_permission d < domain_permission_count"

text \<open>
  \<open>get_string_of_domain_spec\<close>: first the size to allocate, then the text, then its
  terminator. The result is \<open>None\<close> when the terminator is written after the block.
\<close>

fun domain_spec_size :: "domain_spec \<Rightarrow> nat" where
  "domain_spec_size [] = 0"
| "domain_spec_size (d # ds) =
     (if printable d then length (d_name d) + 2 else 0) + domain_spec_size ds"

fun domain_spec_text :: "string \<Rightarrow> domain_spec \<Rightarrow> string" where
  "domain_spec_text str [] = str"
| "domain_spec_text str (d # ds) =
     (if printable d then
        domain_spec_text
          (str @ (if str \<noteq> [] then [comma] else []) @
           domain_permission_tags ! nat (d_permission d) # d_name d) ds
      else domain_spec_text str ds)"

definition get_string_of_domain_spec ::
  "domain_spec \<Rightarrow> mem \<Rightarrow> (int \<times> string option \<times> mem) option" where
  "get_string_of_domain_spec spec m =
     (let sz = domain_spec_size spec; (ok, m') = c_alloc m; str = domain_spec_text [] spec
      in if \<not> ok then Some (- ENOMEM, None, m')
         else if length str < sz then Some (int (length str), Some str, m')
         else None)"

text \<open>\<open>get_domain_spec_of_string\<close>: the loop, from the position where a tag is expected.\<close>

fun tag_permission :: "char \<Rightarrow> domain_permission \<Rightarrow> string \<Rightarrow> domain_permission" where
  "tag_permission c pe [] = pe"
| "tag_permission c pe (t # ts) = (if t = c then pe else tag_permission c (pe + 1) ts)"

function domain_spec_parse :: "string \<Rightarrow> domain_spec \<Rightarrow> mem \<Rightarrow> int \<times> domain_spec \<times> mem" where
  "domain_spec_parse str spec m =
     (case str of
        [] \<Rightarrow> (0, spec, m)
      | c # str' \<Rightarrow>
          (let pe = tag_permission c 0 domain_permission_tags in
           if pe = domain_permission_count then (- ENOKEY, spec, m)
           else let len = length (takeWhile (\<lambda>x. x \<noteq> comma) str') in
             if len = 0 then (- ENODATA, spec, m)
             else if get_domain_len spec str' len \<noteq> None then (- EEXIST, spec, m)
             else let (rc, spec', m') = add_domain_len spec m pe str' len in
               if rc \<noteq> 0 then (rc, spec', m')
               else domain_spec_parse (drop (len + 1) str') spec' m'))"
  by pat_completeness auto
termination
  by (relation "measure (\<lambda>(str, spec, m). length str)") auto

declare domain_spec_parse.simps [simp del]

definition domain_spec_reset :: "domain_spec \<Rightarrow> domain_spec" where
  "domain_spec_reset spec = []"

definition get_domain_spec_of_string ::
  "string \<Rightarrow> domain_spec \<Rightarrow> mem \<Rightarrow> int \<times> domain_spec \<times> mem" where
  "get_domain_spec_of_string str spec m =
     (if spec \<noteq> [] then (- ENOTEMPTY, spec, m)
      else let (rc, spec', m') = domain_spec_parse str spec m
           in if rc \<noteq> 0 then (rc, domain_spec_reset spec', m') else (rc, spec', m'))"

definition is_domain_spec_string_valid :: "string \<Rightarrow> mem \<Rightarrow> bool" where
  "is_domain_spec_string_valid str m \<longleftrightarrow> fst (get_domain_spec_of_string str [] m) = 0"

fun is_domain_spec_able_to_sign :: "domain_spec \<Rightarrow> domain_spec \<Rightarrow> bool" where
  "is_domain_spec_able_to_sign auth [] = True"
| "is_domain_spec_able_to_sign auth (d # ds) =
     ((case get_domain auth (d_name d) of
         None \<Rightarrow> False
       | Some a \<Rightarrow> d_permission a > d_permission d \<or> d_permission a = domain_permission_root) \<and>
      is_domain_spec_able_to_sign auth ds)"

fun domain_spec_add_grantings ::
  "domain_spec \<Rightarrow> mem \<Rightarrow> domain_spec \<Rightarrow> int \<times> domain_spec \<times> mem" where
  "domain_spec_add_grantings to m [] = (0, to, m)"
| "domain_spec_add_grantings to m (d # ds) =
     (if d_permission d = domain_permission_grants then
        (case get_domain to (d_name d) of
           None \<Rightarrow>
             (let (rc, to', m') = add_domain to m domain_permission_grants (d_name d)
              in if rc = 0 then domain_spec_add_grantings to' m' ds else (rc, to', m'))
         | Some _ \<Rightarrow>
             domain_spec_add_grantings (assign_domain (d_name d) domain_permission_grants to) m ds)
      else domain_spec_add_grantings to m ds)"

definition domain_spec_enum :: "domain_spec \<Rightarrow> (string \<Rightarrow> domain_permission \<Rightarrow> 's \<Rightarrow> 's) \<Rightarrow> 's \<Rightarrow> 's" where
  "domain_spec_enum spec func closure = fold (\<lambda>d. func (d_name d) (d_permission d)) spec closure"

section \<open>The abstract specification\<close>

text \<open>
  A specification means a map from names to levels, where the absence of a name is the
  level none.
\<close>

definition level :: "domain_spec \<Rightarrow> string \<Rightarrow> domain_permission" where
  "level spec n = (case get_domain spec n of None \<Rightarrow> domain_permission_none | Some d \<Rightarrow> d_permission d)"

definition spec_inv :: "domain_spec \<Rightarrow> bool" where
  "spec_inv spec \<longleftrightarrow> distinct (map d_name spec) \<and> (\<forall>d \<in> set spec. printable d)"

lemma get_domain_Nil [simp]: "get_domain [] n = None"
  by (simp add: get_domain_def get_domain_len_def)

lemma get_domain_Cons [simp]:
  "get_domain (d # ds) n = (if d_name d = n then Some d else get_domain ds n)"
  by (simp add: get_domain_def get_domain_len_def)

lemma get_domain_len_eq [domain_laws]: "get_domain_len spec s len = get_domain spec (take len s)"
  by (simp add: get_domain_def get_domain_len_def min_def)

lemma get_domain_None: "get_domain spec n = None \<longleftrightarrow> n \<notin> d_name ` set spec"
  by (induction spec) auto

lemma get_domain_Some: "get_domain spec n = Some d \<Longrightarrow> d \<in> set spec \<and> d_name d = n"
  by (induction spec) (auto split: if_splits)

lemma get_domain_member:
  "spec_inv spec \<Longrightarrow> d \<in> set spec \<Longrightarrow> get_domain spec (d_name d) = Some d"
  by (induction spec) (auto simp: spec_inv_def)

lemma spec_inv_Cons [domain_laws]:
  "spec_inv (d # ds) \<longleftrightarrow> d_name d \<notin> d_name ` set ds \<and> printable d \<and> spec_inv ds"
  by (auto simp: spec_inv_def)

lemma spec_inv_Nil [simp]: "spec_inv []"
  by (simp add: spec_inv_def)

lemma level_simps [simp]:
  "level [] n = 0"
  "level (d # ds) n = (if d_name d = n then d_permission d else level ds n)"
  by (simp_all add: level_def)

lemma level_absent: "n \<notin> d_name ` set spec \<Longrightarrow> level spec n = 0"
  by (simp add: level_def get_domain_None [symmetric])

lemma level_range: "spec_inv spec \<Longrightarrow> 0 \<le> level spec n \<and> level spec n \<le> domain_permission_root"
  by (induction spec) (auto simp: domain_laws printable_def)

lemma level_zero: "spec_inv spec \<Longrightarrow> level spec n = 0 \<longleftrightarrow> n \<notin> d_name ` set spec"
  by (induction spec) (auto simp: domain_laws printable_def)

lemma names_assign [simp]: "d_name ` set (assign_domain n p ds) = d_name ` set ds"
  by (induction ds) auto

lemma names_remove: "d_name ` set (remove_domain n ds) \<subseteq> d_name ` set ds"
  by (induction ds) auto

lemma spec_inv_assign:
  "spec_inv ds \<Longrightarrow> domain_permission_none < p \<Longrightarrow> p < domain_permission_count \<Longrightarrow> spec_inv (assign_domain n p ds)"
  by (induction ds) (auto simp: domain_laws printable_def)

lemma spec_inv_remove: "spec_inv ds \<Longrightarrow> spec_inv (remove_domain n ds)"
proof (induction ds)
  case (Cons d ds)
  then show ?case using names_remove [of n ds] by (auto simp: domain_laws)
qed simp

lemma level_assign:
  "n \<in> d_name ` set ds \<Longrightarrow> level (assign_domain n p ds) = (level ds)(n := p)"
  by (induction ds) (auto simp: fun_eq_iff)

lemma level_remove: "spec_inv ds \<Longrightarrow> level (remove_domain n ds) = (level ds)(n := 0)"
  by (induction ds) (auto simp: fun_eq_iff domain_laws level_absent)

lemma add_domain_cases:
  assumes "add_domain spec m p n = (rc, spec', m')"
  shows "rc = 0 \<and> spec' = \<lparr>d_name = n, d_permission = p\<rparr> # spec \<and> (m = [] \<longrightarrow> m' = []) \<or>
         rc = - ENOMEM \<and> spec' = spec \<and> m \<noteq> []"
  using assms by (auto simp: add_domain_def add_domain_len_def c_alloc_def split: list.splits if_splits)

text \<open>setting the permission of a domain is the update of the map of levels, it keeps the
  invariant (no domain twice, only proper levels); an invalid level is refused, and only
  the lack of memory can make it fail otherwise, changing nothing.\<close>

theorem domain_spec_set_updates:
  assumes "spec_inv spec" "domain_spec_set spec m perm nm = (rc, spec', m')"
  shows "spec_inv spec' \<and>
         (rc = 0 \<and> is_domain_permission_valid perm \<and> level spec' = (level spec)(nm := perm) \<or>
          rc = - EINVAL \<and> \<not> is_domain_permission_valid perm \<and> spec' = spec \<or>
          rc = - ENOMEM \<and> m \<noteq> [] \<and> level spec nm = domain_permission_none \<and> spec' = spec)"
proof (cases "is_domain_permission_valid perm")
  case False
  with assms show ?thesis by (auto simp: domain_spec_set_def domain_spec_set_len_def)
next
  case True
  show ?thesis
  proof (cases "get_domain spec nm")
    case None
    then have nin: "nm \<notin> d_name ` set spec" by (simp add: get_domain_None)
    show ?thesis
    proof (cases "perm = 0")
      case True
      with assms None nin \<open>is_domain_permission_valid perm\<close> show ?thesis
        by (auto simp: domain_spec_set_def domain_spec_set_len_def domain_laws Let_def level_absent)
    next
      case nz: False
      then have "add_domain spec m perm nm = (rc, spec', m')"
        using assms(2) None True by (simp add: domain_spec_set_def domain_spec_set_len_def domain_laws)
      from add_domain_cases [OF this] nin nz True assms(1) show ?thesis
        by (auto simp: domain_laws printable_def is_domain_permission_valid_def fun_eq_iff level_absent)
    qed
  next
    case (Some d)
    then have "nm \<in> d_name ` set spec" using get_domain_Some by blast
    with assms Some True show ?thesis
      by (cases "perm = 0")
        (auto simp: domain_spec_set_def domain_spec_set_len_def domain_laws level_assign level_remove
          spec_inv_assign spec_inv_remove is_domain_permission_valid_def)
  qed
qed

definition sample_spec :: domain_spec where
  "sample_spec = [\<lparr>d_name = ''a'', d_permission = 1\<rparr>, \<lparr>d_name = ''b'', d_permission = 3\<rparr>]"

lemma sample_spec_inv: "spec_inv sample_spec"
  by (simp add: sample_spec_def spec_inv_def printable_def)

theorem domain_spec_set_updates_witness:
  "let (rc, spec', m') = domain_spec_set sample_spec [] 2 ''c''
   in rc = 0 \<and> level spec' ''c'' = 2 \<and> level spec' ''a'' = 1 \<and> spec_inv spec'"
proof -
  obtain rc spec' m' where a: "domain_spec_set sample_spec [] 2 ''c'' = (rc, spec', m')"
    by (metis prod_cases3)
  from domain_spec_set_updates [OF sample_spec_inv a] a show ?thesis
    by (auto simp: is_domain_permission_valid_def sample_spec_def)
qed

section \<open>Text form\<close>

text \<open>A name that the text form can carry.\<close>

definition plain_name :: "string \<Rightarrow> bool" where
  "plain_name n \<longleftrightarrow> n \<noteq> [] \<and> comma \<notin> set n"

lemma printable_cases:
  "printable d \<Longrightarrow> d_permission d = 1 \<or> d_permission d = 2 \<or> d_permission d = 3"
  by (auto simp: printable_def)

lemma tag_of_permission:
  "printable d \<Longrightarrow>
   tag_permission (domain_permission_tags ! nat (d_permission d)) 0 domain_permission_tags = d_permission d"
  by (drule printable_cases) (auto simp: domain_permission_tags_def)

lemma domain_spec_text_acc:
  "str \<noteq> [] \<Longrightarrow> \<forall>d \<in> set ds. printable d \<Longrightarrow>
   domain_spec_text str ds =
     str @ concat (map (\<lambda>d. comma # domain_permission_tags ! nat (d_permission d) # d_name d) ds)"
  by (induction ds arbitrary: str) auto

lemma domain_spec_text_Cons:
  assumes "printable d" "\<forall>d \<in> set ds. printable d"
  shows "domain_spec_text [] (d # ds) =
     domain_permission_tags ! nat (d_permission d) # d_name d @
       (if ds = [] then [] else comma # domain_spec_text [] ds)"
proof (cases ds)
  case (Cons e es)
  with assms show ?thesis by (simp add: domain_spec_text_acc)
qed (use assms in simp)

lemma length_domain_spec_text:
  "\<forall>d \<in> set ds. printable d \<Longrightarrow> ds \<noteq> [] \<Longrightarrow> Suc (length (domain_spec_text [] ds)) = domain_spec_size ds"
proof (induction ds)
  case (Cons d ds)
  then show ?case
    using domain_spec_text_Cons [of d ds] by (cases "ds = []") auto
qed simp

lemma domain_eta [simp]: "\<lparr>d_name = d_name d, d_permission = d_permission d\<rparr> = d"
  by (cases d) simp

lemma parse_item:
  assumes "printable d" "plain_name (d_name d)" "d_name d \<notin> d_name ` set acc"
    and "rest = [] \<or> hd rest = comma"
  shows "domain_spec_parse (domain_permission_tags ! nat (d_permission d) # d_name d @ rest) acc [] =
           domain_spec_parse (tl rest) (\<lparr>d_name = d_name d, d_permission = d_permission d\<rparr> # acc) []"
proof -
  have tw: "takeWhile (\<lambda>x. x \<noteq> comma) (d_name d @ rest) = d_name d"
  proof -
    have "takeWhile (\<lambda>x. x \<noteq> comma) (d_name d @ rest) = d_name d @ takeWhile (\<lambda>x. x \<noteq> comma) rest"
      using assms(2) by (intro takeWhile_append2) (auto simp: plain_name_def)
    then show ?thesis using assms(4) by (cases rest) auto
  qed
  have "get_domain acc (d_name d) = None" using assms(3) by (simp add: get_domain_None)
  moreover have "d_permission d \<noteq> domain_permission_count" using printable_cases [OF assms(1)] by auto
  ultimately show ?thesis
    using tw assms(2) tag_of_permission [OF assms(1)]
    by (subst domain_spec_parse.simps)
      (simp add: Let_def domain_laws add_domain_len_def plain_name_def drop_Suc)
qed

lemma parse_text:
  assumes "spec_inv spec" "\<forall>d \<in> set spec. plain_name (d_name d)"
    and "d_name ` set spec \<inter> d_name ` set acc = {}"
  shows "domain_spec_parse (domain_spec_text [] spec) acc [] = (0, rev spec @ acc, [])"
  using assms
proof (induction spec arbitrary: acc)
  case Nil
  then show ?case by (simp add: domain_spec_parse.simps)
next
  case (Cons d ds)
  let ?rest = "if ds = [] then [] else comma # domain_spec_text [] ds"
  have pr: "printable d" "\<forall>d \<in> set ds. printable d" using Cons.prems(1) by (auto simp: spec_inv_def)
  have "domain_spec_parse (domain_spec_text [] (d # ds)) acc [] =
          domain_spec_parse (tl ?rest) (d # acc) []"
    unfolding domain_spec_text_Cons [OF pr]
    using Cons.prems pr by (subst parse_item) auto
  also have "tl ?rest = domain_spec_text [] ds" by simp
  also have "domain_spec_parse (domain_spec_text [] ds) (d # acc) [] = (0, rev ds @ d # acc, [])"
    using Cons.prems by (intro Cons.IH) (auto simp: domain_laws)
  finally show ?case by simp
qed

lemma level_rev: "distinct (map d_name spec) \<Longrightarrow> level (rev spec) = level spec"
proof
  fix n assume dist: "distinct (map d_name spec)"
  have "level (xs @ [d]) n = (if n \<in> d_name ` set xs then level xs n else level [d] n)" for xs d
    by (induction xs) auto
  with dist show "level (rev spec) n = level spec n"
    by (induction spec) (auto simp: level_absent)
qed

text \<open>The text of a specification that names domains without commas is read back as a
  specification with the same levels; the text and its terminator occupy exactly the block
  that is allocated for them.\<close>

theorem domain_spec_text_roundtrip:
  assumes "spec_inv spec" "spec \<noteq> []" "\<forall>d \<in> set spec. plain_name (d_name d)"
  shows "\<exists>str spec'. get_string_of_domain_spec spec [] = Some (int (length str), Some str, []) \<and>
           length str + 1 = domain_spec_size spec \<and>
           get_domain_spec_of_string str [] [] = (0, spec', []) \<and>
           spec_inv spec' \<and> level spec' = level spec"
proof -
  have pr: "\<forall>d \<in> set spec. printable d" using assms(1) by (simp add: spec_inv_def)
  have "domain_spec_parse (domain_spec_text [] spec) [] [] = (0, rev spec, [])"
    using parse_text [OF assms(1,3), of "[]"] by simp
  then show ?thesis
    using assms(1,2) length_domain_spec_text [OF pr assms(2)]
    by (intro exI [of _ "domain_spec_text [] spec"] exI [of _ "rev spec"])
      (auto simp: get_string_of_domain_spec_def get_domain_spec_of_string_def level_rev spec_inv_def
         rev_map [symmetric] Let_def)
qed

theorem domain_spec_text_roundtrip_witness:
  "\<exists>str spec'. get_string_of_domain_spec sample_spec [] = Some (int (length str), Some str, []) \<and>
     get_domain_spec_of_string str [] [] = (0, spec', []) \<and> level spec' ''b'' = 3"
proof -
  have "sample_spec \<noteq> []" "\<forall>d \<in> set sample_spec. plain_name (d_name d)" "level sample_spec ''b'' = 3"
    by (simp_all add: sample_spec_def plain_name_def)
  then show ?thesis
    using domain_spec_text_roundtrip [OF sample_spec_inv] by force
qed

lemma tag_permission_range:
  assumes "c \<noteq> CHR 0x00"
  shows "1 \<le> tag_permission c 0 domain_permission_tags \<and> tag_permission c 0 domain_permission_tags \<le> 4"
  using assms by (simp add: domain_permission_tags_def)

lemma domain_spec_parse_inv:
  assumes "domain_spec_parse str spec m = (rc, spec', m')" "spec_inv spec" "CHR 0x00 \<notin> set str"
  shows "rc \<in> {0, - ENOKEY, - ENODATA, - EEXIST, - ENOMEM} \<and> spec_inv spec'"
  using assms
proof (induction str spec m rule: domain_spec_parse.induct)
  case (1 str spec m)
  show ?case
  proof (cases str)
    case Nil
    with 1 show ?thesis by (simp add: domain_spec_parse.simps)
  next
    case (Cons c s)
    let ?pe = "tag_permission c 0 domain_permission_tags"
    let ?len = "length (takeWhile (\<lambda>x. x \<noteq> comma) s)"
    have pe: "1 \<le> ?pe \<and> ?pe \<le> 4" using Cons 1(4) by (intro tag_permission_range) auto
    show ?thesis
    proof (cases "?pe = 4 \<or> ?len = 0 \<or> get_domain_len spec s ?len \<noteq> None")
      case True
      with 1(2,3) Cons show ?thesis
        by (subst (asm) domain_spec_parse.simps) (auto simp: Let_def split: if_splits)
    next
      case False
      obtain r1 s1 m1 where a: "add_domain_len spec m ?pe s ?len = (r1, s1, m1)"
        by (metis prod_cases3)
      have run: "(if r1 \<noteq> 0 then (r1, s1, m1) else domain_spec_parse (drop (?len + 1) s) s1 m1) = (rc, spec', m')"
        using 1(2) Cons False a by (subst (asm) domain_spec_parse.simps) (simp add: Let_def)
      have s1: "r1 = - ENOMEM \<and> s1 = spec \<or> r1 = 0 \<and> s1 = \<lparr>d_name = take ?len s, d_permission = ?pe\<rparr> # spec"
        using a by (auto simp: add_domain_len_def split: if_splits prod.splits)
      have "spec_inv s1"
        using s1 False pe 1(3) by (auto simp: domain_laws get_domain_None printable_def)
      moreover have "CHR 0x00 \<notin> set (drop (?len + 1) s)"
        using 1(4) Cons by (auto dest: in_set_dropD)
      ultimately show ?thesis
        using 1(1) [OF Cons refl _ refl _ _ a [symmetric]] False run s1
        by (auto split: if_splits)
    qed
  qed
qed

text \<open>Reading any text into an empty specification ends with 0 and a specification without
  repeated names and with proper levels, or with an error and an empty specification; a
  specification that is not empty is left alone.\<close>

theorem get_domain_spec_of_string_inv:
  assumes "CHR 0x00 \<notin> set str" "get_domain_spec_of_string str spec m = (rc, spec', m')"
  shows "spec \<noteq> [] \<and> rc = - ENOTEMPTY \<and> spec' = spec \<or>
         spec = [] \<and> rc = 0 \<and> spec_inv spec' \<or>
         spec = [] \<and> rc \<in> {- ENOKEY, - ENODATA, - EEXIST, - ENOMEM} \<and> spec' = []"
proof -
  obtain r1 s1 m1 where p: "domain_spec_parse str [] m = (r1, s1, m1)" by (metis prod_cases3)
  from domain_spec_parse_inv [OF p] assms p show ?thesis
    by (auto simp: get_domain_spec_of_string_def domain_spec_reset_def split: if_splits)
qed

theorem get_domain_spec_of_string_inv_witness:
  "\<exists>rc spec' m'. get_domain_spec_of_string ''+a,#b,@a'' [] [] = (rc, spec', m') \<and>
     rc \<noteq> - ENOTEMPTY \<and> spec_inv spec'"
proof -
  obtain rc spec' m' where a: "get_domain_spec_of_string ''+a,#b,@a'' [] [] = (rc, spec', m')"
    by (metis prod_cases3)
  have "CHR 0x00 \<notin> set ''+a,#b,@a''" by simp
  from get_domain_spec_of_string_inv [OF this a] a show ?thesis by auto
qed

section \<open>Signing\<close>

lemma able_to_sign_iff:
  "is_domain_spec_able_to_sign auth target \<longleftrightarrow>
     (\<forall>d \<in> set target. \<exists>a. get_domain auth (d_name d) = Some a \<and>
        (d_permission d < d_permission a \<or> d_permission a = domain_permission_root))"
  by (induction target) (auto split: option.splits)

lemma able_to_sign_level:
  assumes "spec_inv auth" "spec_inv target" "is_domain_spec_able_to_sign auth target"
  shows "level target n \<noteq> 0 \<Longrightarrow> level target n < level auth n \<or> level auth n = domain_permission_root"
    and "level target n \<le> level auth n"
proof -
  have "level target n < level auth n \<or> level auth n = domain_permission_root" if "level target n \<noteq> 0"
  proof -
    from that obtain d where d: "get_domain target n = Some d"
      by (cases "get_domain target n") (auto simp: level_def)
    with get_domain_Some [OF d] assms(3) show ?thesis
      by (auto simp: able_to_sign_iff level_def)
  qed
  then show "level target n \<noteq> 0 \<Longrightarrow> level target n < level auth n \<or> level auth n = domain_permission_root"
    "level target n \<le> level auth n"
    using level_range [OF assms(1)] level_range [OF assms(2)] by fastforce+
qed

lemma able_to_sign_trans:
  assumes "spec_inv a" "spec_inv b" "spec_inv c"
    and "is_domain_spec_able_to_sign a b" "is_domain_spec_able_to_sign b c"
  shows "is_domain_spec_able_to_sign a c"
  unfolding able_to_sign_iff
proof
  fix d assume d: "d \<in> set c"
  with assms(5) obtain x where x: "get_domain b (d_name d) = Some x"
    "d_permission d < d_permission x \<or> d_permission x = domain_permission_root"
    by (auto simp: able_to_sign_iff)
  have "x \<in> set b" "d_name x = d_name d" using get_domain_Some [OF x(1)] by auto
  with assms(4) obtain y where y: "get_domain a (d_name d) = Some y"
    "d_permission x < d_permission y \<or> d_permission y = domain_permission_root"
    by (force simp: able_to_sign_iff)
  moreover have "d_permission y \<le> domain_permission_root"
    using assms(1) get_domain_Some [OF y(1)] by (auto simp: spec_inv_def printable_def)
  ultimately show "\<exists>a'. get_domain a (d_name d) = Some a' \<and>
      (d_permission d < d_permission a' \<or> d_permission a' = domain_permission_root)"
    using x(2) by auto
qed

text \<open>Along a chain of certificates each of which is able to sign the next, the first one is
  able to sign the last one and no domain gains a level; a level that the first does not
  have as root is strictly lower at the end: delegation never escalates.\<close>

theorem signing_chain_no_escalation:
  assumes "successively is_domain_spec_able_to_sign (auth # chain @ [target])"
    and "\<forall>s \<in> set (auth # chain @ [target]). spec_inv s"
  shows "is_domain_spec_able_to_sign auth target \<and>
         (\<forall>n. level target n \<le> level auth n \<and>
              (level auth n \<noteq> domain_permission_root \<longrightarrow> level target n \<noteq> domain_permission_none \<longrightarrow>
                 level target n < level auth n))"
proof -
  have "is_domain_spec_able_to_sign auth target"
    using assms
  proof (induction chain arbitrary: auth)
    case (Cons s chain)
    then have "is_domain_spec_able_to_sign s target" by simp
    with Cons.prems show ?case
      by (intro able_to_sign_trans [of auth s target]) auto
  qed simp
  with assms(2) show ?thesis using able_to_sign_level [of auth target] by auto
qed

theorem signing_chain_no_escalation_witness:
  "is_domain_spec_able_to_sign sample_spec [\<lparr>d_name = ''b'', d_permission = 1\<rparr>]"
proof -
  have "successively is_domain_spec_able_to_sign
      (sample_spec # [[\<lparr>d_name = ''b'', d_permission = 2\<rparr>]] @ [[\<lparr>d_name = ''b'', d_permission = 1\<rparr>]])"
    by (simp add: sample_spec_def)
  moreover have "\<forall>s \<in> set (sample_spec # [[\<lparr>d_name = ''b'', d_permission = 2\<rparr>]] @
      [[\<lparr>d_name = ''b'', d_permission = 1\<rparr>]]). spec_inv s"
    using sample_spec_inv by (simp add: spec_inv_def printable_def)
  ultimately show ?thesis by (rule signing_chain_no_escalation [THEN conjunct1])
qed

lemma level_granting:
  "is_domain_spec_granting spec n \<longleftrightarrow> level spec n = domain_permission_grants"
  by (auto simp: is_domain_spec_granting_def level_def split: option.splits)

lemma add_grantings_step:
  assumes "spec_inv to"
  shows "case get_domain to n of
           None \<Rightarrow> spec_inv (\<lparr>d_name = n, d_permission = 1\<rparr> # to) \<and>
             level (\<lparr>d_name = n, d_permission = 1\<rparr> # to) = (level to)(n := 1)
         | Some _ \<Rightarrow> spec_inv (assign_domain n 1 to) \<and> level (assign_domain n 1 to) = (level to)(n := 1)"
proof (cases "get_domain to n")
  case None
  then have "n \<notin> d_name ` set to" by (simp add: get_domain_None)
  with None assms show ?thesis by (auto simp: domain_laws printable_def fun_eq_iff)
next
  case (Some d)
  then have "n \<in> d_name ` set to" using get_domain_Some by blast
  with assms Some show ?thesis by (auto simp: level_assign spec_inv_assign)
qed

lemma domain_spec_add_grantings_level:
  assumes "spec_inv to" "domain_spec_add_grantings to m from = (rc, to', m')"
  shows "spec_inv to' \<and> (m = [] \<longrightarrow> m' = []) \<and>
         (rc = 0 \<and> level to' = (\<lambda>n. if \<exists>d \<in> set from. d_name d = n \<and> d_permission d = 1 then 1 else level to n) \<or>
          rc = - ENOMEM \<and> m \<noteq> [])"
  using assms
proof (induction "to" m "from" rule: domain_spec_add_grantings.induct)
  case (2 "to" m d ds)
  show ?case
  proof (cases "d_permission d = 1")
    case False
    with 2 show ?thesis by simp
  next
    case True
    note step = add_grantings_step [OF 2(4), of "d_name d"]
    show ?thesis
    proof (cases "get_domain to (d_name d)")
      case None
      obtain r1 t1 m1 where a: "add_domain to m 1 (d_name d) = (r1, t1, m1)" by (metis prod_cases3)
      from add_domain_cases [OF a] None step 2(1) [of "(r1, t1, m1)" r1 "(t1, m1)" t1 m1] 2(5) True a
      show ?thesis by (auto simp: fun_eq_iff domain_laws split: if_splits)
    next
      case (Some x)
      with 2(2) [OF _ Some] 2(5) True step show ?thesis
        by (auto simp: fun_eq_iff split: if_splits)
    qed
  qed
qed simp

text \<open>Adding grantings makes granting exactly the domains that the source grants and leaves
  the levels of all the others; the invariant is kept, and the lack of memory is the only
  failure.\<close>

theorem domain_spec_add_grantings_correct:
  assumes "spec_inv to" "spec_inv from" "domain_spec_add_grantings to m from = (rc, to', m')"
  shows "spec_inv to' \<and>
         (rc = 0 \<and>
            (\<forall>n. is_domain_spec_granting to' n \<longleftrightarrow> is_domain_spec_granting to n \<or> is_domain_spec_granting from n) \<and>
            (\<forall>n. \<not> is_domain_spec_granting from n \<longrightarrow> level to' n = level to n) \<or>
          rc = - ENOMEM \<and> m \<noteq> [])"
proof -
  have "(\<exists>d \<in> set from. d_name d = n \<and> d_permission d = 1) \<longleftrightarrow> is_domain_spec_granting from n" for n
    using assms(2)
    by (auto simp: is_domain_spec_granting_def split: option.splits
        dest: get_domain_Some get_domain_member)
  with domain_spec_add_grantings_level [OF assms(1,3)] show ?thesis
    by (auto simp: level_granting)
qed

theorem domain_spec_add_grantings_correct_witness:
  "let (rc, to', m') = domain_spec_add_grantings [\<lparr>d_name = ''c'', d_permission = 2\<rparr>] [] sample_spec
   in rc = 0 \<and> is_domain_spec_granting to' ''a'' \<and> level to' ''c'' = 2"
proof -
  let ?to = "[\<lparr>d_name = ''c'', d_permission = 2\<rparr>]"
  obtain rc to' m' where a: "domain_spec_add_grantings ?to [] sample_spec = (rc, to', m')"
    by (metis prod_cases3)
  have "spec_inv ?to" by (simp add: spec_inv_def printable_def)
  from domain_spec_add_grantings_correct [OF this sample_spec_inv a] a show ?thesis
    by (auto simp: is_domain_spec_granting_def sample_spec_def)
qed

end
