(* ===== verification/Cert.thy ===== *)
theory Cert
  imports DomainSpec "HOL-Library.Multiset"
begin

text \<open>
  Certificates and signatures (\<^verbatim>\<open>src/src/cert/common-cert.c\<close>, \<^verbatim>\<open>src/src/cert/check-signature.c\<close>
  and \<^verbatim>\<open>src/src/cert/make-signature.c\<close>): the chain of trust of a signer, the domains that it gets,
  the check and the making of signatures.

  The library gnutls is a parameter, a record of its functions on certificates \<open>'c\<close>, signatures
  \<open>'p\<close> and private keys \<open>'k\<close>; the functions that fill a buffer get its size. The recursion
  on the issuers has no bound in the code: the model has a fuel, and \<open>None\<close> tells that it is
  exhausted.
\<close>

section \<open>Gnutls\<close>

definition GNUTLS_E_SUCCESS :: int where [simp]: "GNUTLS_E_SUCCESS = 0"
definition EFAULT :: int where [simp]: "EFAULT = 14"
definition EOVERFLOW :: int where [simp]: "EOVERFLOW = 75"

record sig_info =
  si_signer_serial :: string
  si_issuer_keyid :: string
  si_issuer_dn :: string

text \<open>
  \<open>tl_check_issuer\<close>, \<open>tl_crt_verify\<close> get the certificate then the issuer, \<open>tl_crt_verify\<close> gives the
  status and the reasons of a refusal. \<open>tl_dn\<close> is the name of an issuer.
\<close>

record ('p, 'c, 'k) gnutls =
  tl_check_issuer :: "'c \<Rightarrow> 'c \<Rightarrow> bool"
  tl_crt_verify :: "'c \<Rightarrow> 'c \<Rightarrow> int \<times> nat"
  tl_extension_by_oid :: "'c \<Rightarrow> string \<Rightarrow> nat \<Rightarrow> int \<times> string"
  tl_not_available :: int
  tl_get_serial :: "'c \<Rightarrow> nat \<Rightarrow> int \<times> string"
  tl_get_subject_key_id :: "'c \<Rightarrow> nat \<Rightarrow> int \<times> string"
  tl_get_issuer :: "'c \<Rightarrow> int \<times> string"
  tl_dn_export :: "string \<Rightarrow> nat \<Rightarrow> int \<times> string"
  tl_crt_import :: "string \<Rightarrow> int \<times> 'c"
  tl_crt_list_import :: "string \<Rightarrow> nat \<Rightarrow> int \<times> 'c list"
  tl_crt_key_id :: "'c \<Rightarrow> nat \<Rightarrow> int \<times> string"
  tl_signature_count :: "'p \<Rightarrow> int"
  tl_signature_info :: "'p \<Rightarrow> int \<times> sig_info"
  tl_embedded_data :: "'p \<Rightarrow> int \<times> string"
  tl_crt_count :: "'p \<Rightarrow> int"
  tl_crt_raw :: "'p \<Rightarrow> nat \<Rightarrow> int \<times> string"
  tl_verify_direct :: "'p \<Rightarrow> 'c \<Rightarrow> string \<Rightarrow> int"
  tl_pkcs7_import :: "string \<Rightarrow> int \<times> 'p"
  tl_pkcs7_sign :: "'c \<Rightarrow> 'k \<Rightarrow> string \<Rightarrow> int \<times> 'p"
  tl_pkcs7_set_crt :: "'p \<Rightarrow> 'c \<Rightarrow> int \<times> 'p"
  tl_privkey_export :: "'k \<Rightarrow> int"
  tl_privkey_key_id :: "'k \<Rightarrow> nat \<Rightarrow> int \<times> string"
  tl_privkey_import :: "string \<Rightarrow> int \<times> 'k"

section \<open>Certificates\<close>

definition OID_EXT_DOMAIN_SPEC :: string where "OID_EXT_DOMAIN_SPEC = ''1.3.9.812.383.370.36.1''"

definition is_issuer :: "('p, 'c, 'k) gnutls \<Rightarrow> 'c \<Rightarrow> 'c \<Rightarrow> bool \<Rightarrow> bool" where
  "is_issuer gl cert issuer verify \<longleftrightarrow>
     tl_check_issuer gl cert issuer \<and>
     (\<not> verify \<or> (let (rc, verif) = tl_crt_verify gl cert issuer in rc = GNUTLS_E_SUCCESS \<and> verif = 0))"

text \<open>The extension is a C string in a buffer of 128 bytes, with its terminator.\<close>

definition get_domain_spec_of_cert ::
  "('p, 'c, 'k) gnutls \<Rightarrow> 'c \<Rightarrow> domain_spec \<Rightarrow> mem \<Rightarrow> int \<times> domain_spec \<times> mem" where
  "get_domain_spec_of_cert gl cert spec m =
     (let (rc, scratch) = tl_extension_by_oid gl cert OID_EXT_DOMAIN_SPEC 127;
          (rc', spec', m') =
            (if rc = tl_not_available gl then (- ENOENT, spec, m)
             else if rc \<noteq> GNUTLS_E_SUCCESS then (- EINVAL, spec, m)
             else get_domain_spec_of_string (takeWhile (\<lambda>c. c \<noteq> CHR 0x00) scratch) spec m)
      in (rc', if rc' < 0 then domain_spec_reset spec' else spec', m'))"

text \<open>The first of the certificates that issued the target.\<close>

definition find_issuer :: "('p, 'c, 'k) gnutls \<Rightarrow> 'c list \<Rightarrow> nat \<Rightarrow> nat option" where
  "find_issuer gl certs targetidx =
     List.find (\<lambda>idx. idx \<noteq> targetidx \<and> is_issuer gl (certs ! targetidx) (certs ! idx) True) [0..<length certs]"

text \<open>The specification is optional, as the pointer is.\<close>

fun check_crt_chain ::
  "nat \<Rightarrow> ('p, 'c, 'k) gnutls \<Rightarrow> 'c list \<Rightarrow> 'c list \<Rightarrow> nat \<Rightarrow> domain_spec option \<Rightarrow> mem \<Rightarrow>
   (int \<times> domain_spec option \<times> mem) option" where
  "check_crt_chain 0 gl certs trusteds targetidx spec m = None"
| "check_crt_chain (Suc n) gl certs trusteds targetidx spec m =
     (case find_issuer gl certs targetidx of
        Some idx \<Rightarrow>
          (case check_crt_chain n gl certs trusteds idx (map_option (\<lambda>_. []) spec) m of
             None \<Rightarrow> None
           | Some (rc, superspec, m1) \<Rightarrow>
               Some (if rc < 0 then (rc, spec, m1)
                     else case spec of
                            None \<Rightarrow> (0, None, m1)
                          | Some sp \<Rightarrow>
                              let (rc, sp', m2) = get_domain_spec_of_cert gl (certs ! targetidx) sp m1
                              in if rc = - ENOENT then (0, Some sp', m2)
                                 else if rc = 0 \<and> \<not> is_domain_spec_able_to_sign (the superspec) sp'
                                   then (- EINVAL, Some (domain_spec_reset sp'), m2)
                                 else (rc, Some sp', m2)))
      | None \<Rightarrow>
          Some (case List.find (\<lambda>trusted. is_issuer gl (certs ! targetidx) trusted True) trusteds of
                  None \<Rightarrow> (- ENOENT, spec, m)
                | Some trusted \<Rightarrow>
                    (case spec of
                       None \<Rightarrow> (0, None, m)
                     | Some sp \<Rightarrow> let (rc, sp', m') = get_domain_spec_of_cert gl trusted sp m in (rc, Some sp', m'))))"

text \<open>
  The sort that puts the issuers first: from the position \<open>cnt\<close>, the search of an issuer of its
  certificate that restarts after each exchange. It may be endless too.
\<close>

definition swap :: "nat \<Rightarrow> nat \<Rightarrow> 'a list \<Rightarrow> 'a list" where
  "swap i j xs = xs[i := xs ! j, j := xs ! i]"

fun sort_certs_at :: "nat \<Rightarrow> ('p, 'c, 'k) gnutls \<Rightarrow> bool \<Rightarrow> nat \<Rightarrow> nat \<Rightarrow> 'c list \<Rightarrow> 'c list option" where
  "sort_certs_at 0 gl verify cnt idx certs = None"
| "sort_certs_at (Suc n) gl verify cnt idx certs =
     (if cnt \<ge> length certs then Some certs
      else if idx \<ge> length certs then sort_certs_at n gl verify (cnt + 1) (cnt + 2) certs
      else if \<not> is_issuer gl (certs ! cnt) (certs ! idx) verify then sort_certs_at n gl verify cnt (idx + 1) certs
      else sort_certs_at n gl verify cnt (cnt + 1) (swap cnt idx certs))"

definition sort_certs :: "nat \<Rightarrow> ('p, 'c, 'k) gnutls \<Rightarrow> 'c list \<Rightarrow> bool \<Rightarrow> 'c list option" where
  "sort_certs n gl certs verify = sort_certs_at n gl verify 0 1 certs"

section \<open>Files\<close>

text \<open>
  The file is an error number or the chunks that \<^verbatim>\<open>fread\<close> gives. For an empty file the last
  reallocation has the size zero, for which the C library releases the block and gives a null
  pointer: the code reports that memory is missing.
\<close>

fun read_chunks :: "string list \<Rightarrow> string \<Rightarrow> mem \<Rightarrow> int \<times> string \<times> mem" where
  "read_chunks [] buffer m =
     (let (ok, m1) = c_alloc m in
      if \<not> ok then (- ENOMEM, buffer, m1)
      else if buffer = [] then (- ENOMEM, buffer, m1)
      else let (ok, m2) = c_alloc m1 in if ok then (0, buffer, m2) else (- ENOMEM, buffer, m2))"
| "read_chunks (c # cs) buffer m =
     (let (ok, m1) = c_alloc m in if ok then read_chunks cs (buffer @ c) m1 else (- ENOMEM, buffer, m1))"

definition read_file :: "(string \<Rightarrow> int + string list) \<Rightarrow> string \<Rightarrow> mem \<Rightarrow> int \<times> string \<times> mem" where
  "read_file rd path m = (case rd path of Inl e \<Rightarrow> (- e, [], m) | Inr cs \<Rightarrow> read_chunks cs [] m)"

definition read_pkcs7 ::
  "('p, 'c, 'k) gnutls \<Rightarrow> (string \<Rightarrow> int + string list) \<Rightarrow> string \<Rightarrow> mem \<Rightarrow> int \<times> 'p option \<times> mem" where
  "read_pkcs7 gl rd path m =
     (let (rc, data, m1) = read_file rd path m in
      if rc < 0 then (rc, None, m1)
      else let (rc, p) = tl_pkcs7_import gl data in
        if rc \<noteq> GNUTLS_E_SUCCESS then (- EINVAL, None, m1) else (0, Some p, m1))"

definition read_certificates ::
  "('p, 'c, 'k) gnutls \<Rightarrow> (string \<Rightarrow> int + string list) \<Rightarrow> string \<Rightarrow> nat \<Rightarrow> mem \<Rightarrow> int \<times> 'c list \<times> mem" where
  "read_certificates gl rd path maxnr m =
     (let (rc, data, m1) = read_file rd path m in
      if rc < 0 then (rc, [], m1)
      else let (rc, certs) = tl_crt_list_import gl data maxnr in
        if rc < 0 then (- EINVAL, [], m1) else (int (length certs), certs, m1))"

definition read_private_key ::
  "('p, 'c, 'k) gnutls \<Rightarrow> (string \<Rightarrow> int + string list) \<Rightarrow> string \<Rightarrow> mem \<Rightarrow> int \<times> 'k option \<times> mem" where
  "read_private_key gl rd path m =
     (let (rc, data, m1) = read_file rd path m in
      if rc < 0 then (rc, None, m1)
      else let (ok, m2) = c_alloc m1 in
        if \<not> ok then (- ENOMEM, None, m2)
        else let (rc, key) = tl_privkey_import gl data in
          if rc \<noteq> GNUTLS_E_SUCCESS then (- EINVAL, None, m2)
          else let (ok, m3) = c_alloc m2 in if ok then (0, Some key, m3) else (- ENOMEM, None, m3))"

section \<open>Signatures\<close>

record 'c check_pkcs7 =
  ck_info :: sig_info
  ck_data :: string
  ck_certs :: "'c list"

text \<open>The certificates embedded in the signature, from the index of the next one.\<close>

fun embedded_crts :: "('p, 'c, 'k) gnutls \<Rightarrow> 'p \<Rightarrow> nat \<Rightarrow> nat \<Rightarrow> mem \<Rightarrow> 'c list option \<times> mem" where
  "embedded_crts gl p idx 0 m = (Some [], m)"
| "embedded_crts gl p idx (Suc n) m =
     (let (rc, data) = tl_crt_raw gl p idx in
      if rc \<noteq> GNUTLS_E_SUCCESS then (None, m)
      else let (ok, m1) = c_alloc m in
        if \<not> ok then (None, m1)
        else let (rc, c) = tl_crt_import gl data in
          if rc \<noteq> GNUTLS_E_SUCCESS then (None, m1)
          else let (cs, m2) = embedded_crts gl p (idx + 1) n m1 in (map_option ((#) c) cs, m2))"

definition init_check_pkcs7 :: "('p, 'c, 'k) gnutls \<Rightarrow> 'p \<Rightarrow> mem \<Rightarrow> 'c check_pkcs7 option \<times> mem" where
  "init_check_pkcs7 gl p m =
     (if tl_signature_count gl p \<noteq> 1 then (None, m)
      else let (rc, info) = tl_signature_info gl p in
        if rc \<noteq> GNUTLS_E_SUCCESS then (None, m)
        else let (rc, data) = tl_embedded_data gl p in
          if rc \<noteq> GNUTLS_E_SUCCESS then (None, m)
          else if tl_crt_count gl p < 0 then (None, m)
          else if tl_crt_count gl p = 0 then (Some \<lparr>ck_info = info, ck_data = data, ck_certs = []\<rparr>, m)
          else let (ok, m1) = c_alloc m in
            if \<not> ok then (None, m1)
            else let (cs, m2) = embedded_crts gl p 0 (nat (tl_crt_count gl p)) m1
                 in (map_option (\<lambda>cs. \<lparr>ck_info = info, ck_data = data, ck_certs = cs\<rparr>) cs, m2))"

definition is_signer :: "('p, 'c, 'k) gnutls \<Rightarrow> sig_info \<Rightarrow> 'c \<Rightarrow> bool" where
  "is_signer gl info c \<longleftrightarrow>
     (if length (si_signer_serial info) > 0
      then let (rc, scratch) = tl_get_serial gl c 1000 in rc = GNUTLS_E_SUCCESS \<and> scratch = si_signer_serial info
      else if length (si_issuer_keyid info) > 0
      then let (rc, scratch) = tl_get_subject_key_id gl c 1000 in rc = GNUTLS_E_SUCCESS \<and> scratch = si_issuer_keyid info
      else False) \<and>
     (let (rc, idn) = tl_get_issuer gl c in
      rc = GNUTLS_E_SUCCESS \<and>
      (let (rc, scratch) = tl_dn_export gl idn 1000 in rc = GNUTLS_E_SUCCESS \<and> scratch = si_issuer_dn info))"

text \<open>The search goes from the last certificate to the first one.\<close>

fun get_signer_crt_index :: "('p, 'c, 'k) gnutls \<Rightarrow> sig_info \<Rightarrow> 'c list \<Rightarrow> nat \<Rightarrow> nat option" where
  "get_signer_crt_index gl info certs 0 = None"
| "get_signer_crt_index gl info certs (Suc idx) =
     (if is_signer gl info (certs ! idx) then Some idx else get_signer_crt_index gl info certs idx)"

text \<open>The lists of revocations are given but not used by the code.\<close>

definition check_signature_with_crl ::
  "nat \<Rightarrow> ('p, 'c, 'k) gnutls \<Rightarrow> 'p \<Rightarrow> domain_spec option \<Rightarrow> 'c list \<Rightarrow> 'r list \<Rightarrow> mem \<Rightarrow>
   (int \<times> domain_spec option \<times> mem) option" where
  "check_signature_with_crl n gl p spec trusteds crls m =
     (case init_check_pkcs7 gl p m of
        (None, m1) \<Rightarrow> Some (- 1, spec, m1)
      | (Some ck7, m1) \<Rightarrow>
          (case get_signer_crt_index gl (ck_info ck7) (ck_certs ck7) (length (ck_certs ck7)) of
             None \<Rightarrow> Some (- 1, spec, m1)
           | Some signer_idx \<Rightarrow>
               if tl_verify_direct gl p (ck_certs ck7 ! signer_idx) (ck_data ck7) \<noteq> GNUTLS_E_SUCCESS
               then Some (- 1, spec, m1)
               else check_crt_chain n gl (ck_certs ck7) trusteds signer_idx spec m1))"

definition check_signature ::
  "nat \<Rightarrow> ('p, 'c, 'k) gnutls \<Rightarrow> 'p \<Rightarrow> domain_spec option \<Rightarrow> 'c list \<Rightarrow> mem \<Rightarrow>
   (int \<times> domain_spec option \<times> mem) option" where
  "check_signature n gl p spec trusteds m = check_signature_with_crl n gl p spec trusteds ([] :: unit list) m"

text \<open>Making: the certificate of the key signs, the others are embedded, without the one at \<open>idx\<close>.\<close>

fun embed_others :: "('p, 'c, 'k) gnutls \<Rightarrow> nat \<Rightarrow> nat \<Rightarrow> 'c list \<Rightarrow> 'p \<Rightarrow> int \<times> 'p" where
  "embed_others gl idx jdx [] p = (GNUTLS_E_SUCCESS, p)"
| "embed_others gl idx jdx (c # cs) p =
     (if jdx = idx then embed_others gl idx (jdx + 1) cs p
      else let (rc, p') = tl_pkcs7_set_crt gl p c in
        if rc = GNUTLS_E_SUCCESS then embed_others gl idx (jdx + 1) cs p' else (rc, p'))"

fun sign_from :: "('p, 'c, 'k) gnutls \<Rightarrow> string \<Rightarrow> 'k \<Rightarrow> string \<Rightarrow> 'c list \<Rightarrow> nat \<Rightarrow> mem \<Rightarrow> int \<times> 'p option \<times> mem" where
  "sign_from gl data key keyid certs 0 m = (- EINVAL, None, m)"
| "sign_from gl data key keyid certs (Suc idx) m =
     (let (rc, certid) = tl_crt_key_id gl (certs ! idx) 256 in
      if rc \<noteq> GNUTLS_E_SUCCESS then (- EOVERFLOW, None, m)
      else if certid = keyid then
        (let (ok, m1) = c_alloc m in
         if \<not> ok then (- ENOMEM, None, m1)
         else let (rc, p) = tl_pkcs7_sign gl (certs ! idx) key data in
           if rc \<noteq> GNUTLS_E_SUCCESS then (- EFAULT, None, m1)
           else let (rc, p') = embed_others gl idx 0 certs p in
             if rc = GNUTLS_E_SUCCESS then (0, Some p', m1) else (- ENOMEM, None, m1))
      else sign_from gl data key keyid certs idx m)"

definition make_signature ::
  "('p, 'c, 'k) gnutls \<Rightarrow> string \<Rightarrow> 'k \<Rightarrow> 'c list \<Rightarrow> mem \<Rightarrow> int \<times> 'p option \<times> mem" where
  "make_signature gl data key certs m =
     (if tl_privkey_export gl key \<noteq> GNUTLS_E_SUCCESS then (- EINVAL, None, m)
      else let (rc, keyid) = tl_privkey_key_id gl key 256 in
        if rc \<noteq> GNUTLS_E_SUCCESS then (- EOVERFLOW, None, m)
        else sign_from gl data key keyid certs (length certs) m)"

section \<open>Chains of trust\<close>

text \<open>The issuer that is retained for each certificate.\<close>

definition issued_by :: "('p, 'c, 'k) gnutls \<Rightarrow> 'c list \<Rightarrow> (nat \<times> nat) set" where
  "issued_by gl certs = {(i, j). find_issuer gl certs i = Some j}"

lemma find_issuer_Some:
  "find_issuer gl certs i = Some j \<Longrightarrow> j < length certs \<and> j \<noteq> i \<and> is_issuer gl (certs ! i) (certs ! j) True"
  by (auto simp: find_issuer_def find_Some_iff)

lemma chain_ends:
  assumes "(i, j) \<in> (issued_by gl certs)\<^sup>*" "find_issuer gl certs j = None"
  shows "\<exists>n. check_crt_chain n gl certs trusteds i spec m \<noteq> None"
  using assms
proof (induction arbitrary: spec m rule: converse_rtrancl_induct)
  case base
  then have "check_crt_chain (Suc 0) gl certs trusteds j spec m \<noteq> None" by simp
  then show ?case by blast
next
  case (step i k)
  then have k: "find_issuer gl certs i = Some k" by (simp add: issued_by_def)
  from step.IH [OF step.prems, of "map_option (\<lambda>_. []) spec" m]
  obtain n r where "check_crt_chain n gl certs trusteds k (map_option (\<lambda>_. []) spec) m = Some r" by auto
  then have "check_crt_chain (Suc n) gl certs trusteds i spec m \<noteq> None" using k by (cases r) simp
  then show ?case by blast
qed

lemma chain_result:
  assumes "check_crt_chain n gl certs trusteds i spec m = Some r"
  shows "\<exists>j. (i, j) \<in> (issued_by gl certs)\<^sup>* \<and> find_issuer gl certs j = None"
  using assms
proof (induction n arbitrary: i spec m r)
  case (Suc n)
  show ?case
  proof (cases "find_issuer gl certs i")
    case (Some k)
    with Suc.prems obtain r' where "check_crt_chain n gl certs trusteds k (map_option (\<lambda>_. []) spec) m = Some r'"
      by (auto split: option.splits)
    from Suc.IH [OF this] Some show ?thesis
      by (auto simp: issued_by_def intro: converse_rtrancl_into_rtrancl)
  qed blast
qed simp

text \<open>C28: The check of a chain of certificates returns if and only if following the issuers that it
  retains, from the target, ends at a certificate that no other one of the list issued:
  certificates that issued each other make the recursion endless.\<close>

theorem check_crt_chain_returns:
  "(\<exists>n r. check_crt_chain n gl certs trusteds targetidx spec m = Some r) \<longleftrightarrow>
   (\<exists>top. (targetidx, top) \<in> (issued_by gl certs)\<^sup>* \<and> find_issuer gl certs top = None)"
  using chain_ends [of targetidx _ gl certs trusteds spec m] chain_result [of _ gl certs trusteds targetidx spec m] by blast

lemma domain_spec_of_cert:
  assumes "get_domain_spec_of_cert gl c [] m = (rc, spec, m')"
  shows "rc \<le> 0 \<and> spec_inv spec \<and> (rc < 0 \<longrightarrow> spec = []) \<and>
    (rc = - ENOENT \<longrightarrow> fst (tl_extension_by_oid gl c OID_EXT_DOMAIN_SPEC 127) = tl_not_available gl)"
proof -
  obtain r data where ext: "tl_extension_by_oid gl c OID_EXT_DOMAIN_SPEC 127 = (r, data)" by fastforce
  let ?s = "takeWhile (\<lambda>c. c \<noteq> CHR 0x00) data"
  have nul: "CHR 0x00 \<notin> set ?s" by (auto dest: set_takeWhileD)
  obtain r1 s1 m1 where g: "get_domain_spec_of_string ?s [] m = (r1, s1, m1)" by (metis prod_cases3)
  have "r1 \<le> 0" "spec_inv s1" "r1 \<noteq> - ENOENT"
    using g domain_spec_parse_inv [OF _ _ nul, of "[]" m]
    by (auto simp: get_domain_spec_of_string_def domain_spec_reset_def split: if_splits prod.splits)
  then show ?thesis using assms ext g
    by (auto simp: get_domain_spec_of_cert_def domain_spec_reset_def split: if_splits prod.splits)
qed

text \<open>
  What a certificate declares, and the link of a certificate to its issuer, each with the domains that it gets: those that
  it declares, for which the issuer must have a greater level or be root, or none when it declares nothing.
\<close>

definition declares :: "('p, 'c, 'k) gnutls \<Rightarrow> 'c \<Rightarrow> domain_spec \<Rightarrow> bool" where
  "declares gl c sp \<longleftrightarrow> (\<exists>m m'. get_domain_spec_of_cert gl c [] m = (0, sp, m'))"

definition undeclared :: "('p, 'c, 'k) gnutls \<Rightarrow> 'c \<Rightarrow> bool" where
  "undeclared gl c \<longleftrightarrow> fst (tl_extension_by_oid gl c OID_EXT_DOMAIN_SPEC 127) = tl_not_available gl"

definition delegates :: "domain_spec \<Rightarrow> domain_spec \<Rightarrow> bool" where
  "delegates upper sp \<longleftrightarrow>
     (\<forall>d. level sp d = 0 \<or> level sp d < level upper d \<or> level upper d = domain_permission_root)"

definition trust_link :: "('p, 'c, 'k) gnutls \<Rightarrow> 'c list \<Rightarrow> nat \<times> domain_spec \<Rightarrow> nat \<times> domain_spec \<Rightarrow> bool" where
  "trust_link gl certs a b \<longleftrightarrow> (case (a, b) of ((i, sp), (j, upper)) \<Rightarrow>
     j < length certs \<and> j \<noteq> i \<and> is_issuer gl (certs ! i) (certs ! j) True \<and>
     (undeclared gl (certs ! i) \<and> sp = [] \<or> declares gl (certs ! i) sp \<and> delegates upper sp))"

lemma delegates_level: "spec_inv upper \<Longrightarrow> spec_inv sp \<Longrightarrow> delegates upper sp \<Longrightarrow> level sp d \<le> level upper d"
  using level_range [of upper d] level_range [of sp d] unfolding delegates_def by (metis order.strict_implies_order)

lemma chain_trusted:
  assumes "check_crt_chain n gl certs trusteds i (Some []) m = Some (rc, spec, m')" "rc \<ge> 0"
  shows "\<exists>path sp top trusted auth. spec = Some sp \<and> spec_inv sp \<and> path \<noteq> [] \<and> hd path = (i, sp) \<and>
    successively (trust_link gl certs) path \<and> last path = (top, auth) \<and> (i, top) \<in> (issued_by gl certs)\<^sup>* \<and>
    trusted \<in> set trusteds \<and> is_issuer gl (certs ! top) trusted True \<and> declares gl trusted auth \<and>
    (\<forall>d. level sp d \<le> level auth d)"
  using assms
proof (induction n arbitrary: i rc spec m m')
  case (Suc n)
  show ?case
  proof (cases "find_issuer gl certs i")
    case None
    obtain trusted where t: "List.find (\<lambda>t. is_issuer gl (certs ! i) t True) trusteds = Some trusted"
      using Suc.prems None by (auto split: option.splits)
    obtain r s m1 where g: "get_domain_spec_of_cert gl trusted [] m = (r, s, m1)" by (metis prod_cases3)
    have "rc = r" "spec = Some s" "m' = m1" using Suc.prems(1) None t g by auto
    moreover have "r = 0" "spec_inv s" using domain_spec_of_cert [OF g] Suc.prems(2) calculation by auto
    moreover have "trusted \<in> set trusteds" "is_issuer gl (certs ! i) trusted True" using t by (auto simp: find_Some_iff)
    moreover have "declares gl trusted s" using g calculation by (auto simp: declares_def)
    ultimately show ?thesis by (intro exI [of _ "[(i, s)]"]) auto
  next
    case (Some k)
    obtain r upper m1 where rec: "check_crt_chain n gl certs trusteds k (Some []) m = Some (r, upper, m1)"
      using Suc.prems(1) Some by (auto split: option.splits)
    have "r \<ge> 0" using Suc.prems Some rec by (auto split: if_splits)
    from Suc.IH [OF rec this] obtain path sp top trusted auth where ih: "upper = Some sp" "spec_inv sp"
      "path \<noteq> []" "hd path = (k, sp)" "successively (trust_link gl certs) path" "last path = (top, auth)"
      "trusted \<in> set trusteds" "is_issuer gl (certs ! top) trusted True" "declares gl trusted auth"
      "\<forall>d. level sp d \<le> level auth d" "(k, top) \<in> (issued_by gl certs)\<^sup>*" by blast
    obtain r2 s2 m2 where g: "get_domain_spec_of_cert gl (certs ! i) [] m1 = (r2, s2, m2)" by (metis prod_cases3)
    note g2 = domain_spec_of_cert [OF g]
    have s: "spec = Some s2" "r2 = - ENOENT \<or> r2 = 0 \<and> is_domain_spec_able_to_sign sp s2"
      using Suc.prems Some rec \<open>r \<ge> 0\<close> g ih(1) g2 by (auto split: if_splits)
    then have d: "delegates sp s2" "undeclared gl (certs ! i) \<and> s2 = [] \<or> declares gl (certs ! i) s2"
      using able_to_sign_level(1) [OF ih(2), of s2] g2 g by (auto simp: delegates_def declares_def undeclared_def)
    then have "trust_link gl certs (i, s2) (k, sp)"
      using find_issuer_Some [OF Some] by (auto simp: trust_link_def)
    then have "successively (trust_link gl certs) ((i, s2) # path)"
      using ih(3-5) by (simp add: successively_Cons)
    moreover have "\<forall>d. level s2 d \<le> level auth d"
      using delegates_level [OF ih(2) _ d(1)] g2 ih(10) order_trans by blast
    moreover have "(i, top) \<in> (issued_by gl certs)\<^sup>*"
      using Some ih(11) by (auto simp: issued_by_def intro: converse_rtrancl_into_rtrancl)
    ultimately show ?thesis using s(1) g2 ih(3-9) by (intro exI [of _ "(i, s2) # path"]) auto
  qed
qed simp

text \<open>A certificate that a trusted one issued directly gets the domains of the trusted one, whatever its own ones.\<close>

lemma direct_issue_gets_trusted_domains:
  assumes "find_issuer gl certs i = None" "is_issuer gl (certs ! i) trusted True"
    and "get_domain_spec_of_cert gl trusted [] m = (rc, auth, m')"
  shows "check_crt_chain (Suc n) gl certs [trusted] i (Some []) m = Some (rc, Some auth, m')"
  using assms by simp

lemma signer_index:
  "get_signer_crt_index gl info certs n = Some i \<Longrightarrow> i < n \<and> is_signer gl info (certs ! i)"
  by (induction n) (auto split: if_splits)

lemma signature_trusted:
  assumes "check_signature_with_crl n gl p (Some []) trusteds crls m = Some (rc, spec, m')" "rc \<ge> 0"
  shows "\<exists>ck7 signer sp path top trusted auth.
    fst (init_check_pkcs7 gl p m) = Some ck7 \<and> tl_signature_count gl p = 1 \<and> tl_embedded_data gl p = (0, ck_data ck7) \<and>
    signer < length (ck_certs ck7) \<and> is_signer gl (ck_info ck7) (ck_certs ck7 ! signer) \<and>
    tl_verify_direct gl p (ck_certs ck7 ! signer) (ck_data ck7) = 0 \<and>
    spec = Some sp \<and> path \<noteq> [] \<and> hd path = (signer, sp) \<and> successively (trust_link gl (ck_certs ck7)) path \<and>
    last path = (top, auth) \<and> (signer, top) \<in> (issued_by gl (ck_certs ck7))\<^sup>* \<and>
    trusted \<in> set trusteds \<and> is_issuer gl (ck_certs ck7 ! top) trusted True \<and>
    declares gl trusted auth \<and> (\<forall>d. level sp d \<le> level auth d)"
proof -
  obtain o1 ma where i: "init_check_pkcs7 gl p m = (o1, ma)" by fastforce
  with assms obtain ck7 where o1: "o1 = Some ck7" by (cases o1) (auto simp: check_signature_with_crl_def)
  obtain signer where s: "get_signer_crt_index gl (ck_info ck7) (ck_certs ck7) (length (ck_certs ck7)) = Some signer"
    using assms i o1 by (cases "get_signer_crt_index gl (ck_info ck7) (ck_certs ck7) (length (ck_certs ck7))")
      (auto simp: check_signature_with_crl_def)
  have v: "tl_verify_direct gl p (ck_certs ck7 ! signer) (ck_data ck7) = 0"
    "check_crt_chain n gl (ck_certs ck7) trusteds signer (Some []) ma = Some (rc, spec, m')"
    using assms i o1 s by (auto simp: check_signature_with_crl_def split: if_splits)
  have "tl_signature_count gl p = 1" "tl_embedded_data gl p = (0, ck_data ck7)"
    using i o1 by (auto simp: init_check_pkcs7_def Let_def split: if_splits prod.splits)
  moreover from chain_trusted [OF v(2) assms(2)] obtain path sp top trusted auth where
    "spec = Some sp" "path \<noteq> []" "hd path = (signer, sp)" "successively (trust_link gl (ck_certs ck7)) path" "last path = (top, auth)" "(signer, top) \<in> (issued_by gl (ck_certs ck7))\<^sup>*"
    "trusted \<in> set trusteds" "is_issuer gl (ck_certs ck7 ! top) trusted True" "declares gl trusted auth"
    "\<forall>d. level sp d \<le> level auth d" by blast
  ultimately show ?thesis using signer_index [OF s] v(1) i o1 by (metis fst_conv)
qed

text \<open>C7: A signature that is accepted with domains has exactly one signer and its data were verified with the
  certificate of the signer. A path of certificates leads from it to one that a trusted certificate issued: on each link of the path
  the issuer is verified, and the domains that the issued certificate declares are of a lower level than
  those of its issuer, or those of the issuer are of the level root; a certificate that declares no domain gets
  none. The certificate at the top of the path gets the domains that the trusted one declares, whatever its own
  declaration, which is not read. So no domain that is given has a level above the one that the trusted
  certificate declares.\<close>

theorem check_signature_trusted:
  assumes "check_signature_with_crl n gl p (Some []) trusteds crls m = Some (rc, spec, m')" "rc \<ge> 0"
  shows "\<exists>ck7 signer sp path top trusted auth.
    fst (init_check_pkcs7 gl p m) = Some ck7 \<and> tl_signature_count gl p = 1 \<and> tl_embedded_data gl p = (0, ck_data ck7) \<and>
    signer < length (ck_certs ck7) \<and> is_signer gl (ck_info ck7) (ck_certs ck7 ! signer) \<and>
    tl_verify_direct gl p (ck_certs ck7 ! signer) (ck_data ck7) = 0 \<and>
    spec = Some sp \<and> path \<noteq> [] \<and> hd path = (signer, sp) \<and> successively (trust_link gl (ck_certs ck7)) path \<and>
    last path = (top, auth) \<and> (signer, top) \<in> (issued_by gl (ck_certs ck7))\<^sup>* \<and>
    trusted \<in> set trusteds \<and> is_issuer gl (ck_certs ck7 ! top) trusted True \<and>
    declares gl trusted auth \<and> (\<forall>d. level sp d \<le> level auth d)"
  by (rule signature_trusted [OF assms])

text \<open>
  An instance: a certificate is a text with its name, the name of its issuer and its domains, a signature is the data, the
  certificates and the name of the signer.
\<close>

definition demo_gl :: "(string \<times> string list \<times> string, string, string) gnutls" where
  "demo_gl =
     \<lparr>tl_check_issuer = (\<lambda>c i. c ! 1 = hd i), tl_crt_verify = (\<lambda>c i. (0, 0)),
      tl_extension_by_oid = (\<lambda>c oid sz. if length c = 2 then (- 56, []) else if length c > sz then (- 51, []) else (0, drop 2 c)),
      tl_not_available = - 56, tl_get_serial = (\<lambda>c sz. (0, take 1 c)), tl_get_subject_key_id = (\<lambda>c sz. (0, take 1 c)),
      tl_get_issuer = (\<lambda>c. (0, [c ! 1])), tl_dn_export = (\<lambda>dn sz. (0, dn)), tl_crt_import = (\<lambda>d. (0, d)),
      tl_crt_list_import = (\<lambda>d sz. (0, [d])), tl_crt_key_id = (\<lambda>c sz. (0, take 1 c)), tl_signature_count = (\<lambda>p. 1),
      tl_signature_info = (\<lambda>(d, cs, n). (0, \<lparr>si_signer_serial = take 1 n, si_issuer_keyid = [], si_issuer_dn = drop 1 n\<rparr>)),
      tl_embedded_data = (\<lambda>(d, cs, n). (0, d)), tl_crt_count = (\<lambda>(d, cs, n). int (length cs)),
      tl_crt_raw = (\<lambda>(d, cs, n) i. if i < length cs then (0, cs ! i) else (- 1, [])), tl_verify_direct = (\<lambda>p c d. 0),
      tl_pkcs7_import = (\<lambda>d. (- 1, ([], [], []))), tl_pkcs7_sign = (\<lambda>c k d. (0, (d, [c], take 2 c))),
      tl_pkcs7_set_crt = (\<lambda>(d, cs, n) c. (0, (d, cs @ [c], n))), tl_privkey_export = (\<lambda>k. 0),
      tl_privkey_key_id = (\<lambda>k sz. (0, k)), tl_privkey_import = (\<lambda>d. (0, d))\<rparr>"

theorem check_signature_trusted_witness:
  "\<exists>path auth. length path \<ge> 1 \<and> hd path = (0 :: nat, [\<lparr>d_name = ''d'', d_permission = 1\<rparr>]) \<and>
     successively (trust_link demo_gl [''ba+d'', ''ar'']) path \<and> declares demo_gl ''rr@d'' auth \<and>
     level [\<lparr>d_name = ''d'', d_permission = 1\<rparr>] ''d'' \<le> level auth ''d''"
proof -
  let ?p = "(''data'', [''ba+d'', ''ar''], ''ba'')"
  have "map_option (\<lambda>(rc, spec, m). (rc, spec)) (check_signature_with_crl 9 demo_gl ?p (Some []) [''rr@d''] ([] :: unit list) []) =
      Some (0, Some [\<lparr>d_name = ''d'', d_permission = 1\<rparr>])" by code_simp
  then obtain m' where c: "check_signature_with_crl 9 demo_gl ?p (Some []) [''rr@d''] ([] :: unit list) [] =
      Some (0, Some [\<lparr>d_name = ''d'', d_permission = 1\<rparr>], m')" by auto
  have i: "map_option ck_certs (fst (init_check_pkcs7 demo_gl ?p [])) = Some [''ba+d'', ''ar'']" by code_simp
  have g: "\<not> is_signer demo_gl (ck_info c) ''ar''" if "fst (init_check_pkcs7 demo_gl ?p []) = Some c" for c
  proof -
    have "map_option (\<lambda>c. is_signer demo_gl (ck_info c) ''ar'') (fst (init_check_pkcs7 demo_gl ?p [])) = Some False" by code_simp
    with that show ?thesis by simp
  qed
  obtain ck7 signer sp path top trusted auth where t: "fst (init_check_pkcs7 demo_gl ?p []) = Some ck7"
    "signer < length (ck_certs ck7)" "is_signer demo_gl (ck_info ck7) (ck_certs ck7 ! signer)"
    "Some [\<lparr>d_name = ''d'', d_permission = 1\<rparr>] = Some sp" "path \<noteq> []" "hd path = (signer, sp)"
    "successively (trust_link demo_gl (ck_certs ck7)) path" "trusted \<in> set [''rr@d'']" "declares demo_gl trusted auth"
    "\<forall>d. level sp d \<le> level auth d"
    using check_signature_trusted [OF c] by auto
  have k: "ck_certs ck7 = [''ba+d'', ''ar'']" using i t(1) by simp
  have "signer = 0" using g [OF t(1)] t(2,3) k by (cases signer) auto
  with t k show ?thesis by (intro exI [of _ path] exI [of _ auth]) (auto simp: Suc_le_eq)
qed

section \<open>Sort\<close>

text \<open>Up to the position \<open>cnt\<close> no certificate was issued by a later one, and at \<open>cnt\<close> by none before \<open>idx\<close>.\<close>

definition sorted_to :: "('c \<Rightarrow> 'c \<Rightarrow> bool) \<Rightarrow> nat \<Rightarrow> nat \<Rightarrow> 'c list \<Rightarrow> bool" where
  "sorted_to iss cnt idx cs \<longleftrightarrow>
     (\<forall>i < min cnt (length cs). \<forall>x \<in> set (drop (Suc i) cs). \<not> iss (cs ! i) x) \<and>
     (\<forall>j. cnt < j \<and> j < idx \<and> j < length cs \<longrightarrow> \<not> iss (cs ! cnt) (cs ! j))"

lemma swap_simps [simp]: "length (swap i j xs) = length xs"
  by (simp add: swap_def)

lemma swap_mset: "i < length xs \<Longrightarrow> j < length xs \<Longrightarrow> mset (swap i j xs) = mset xs"
  by (simp add: swap_def mset_swap)

lemma swap_drop:
  assumes "k \<le> i" "i < length xs" "k \<le> j" "j < length xs"
  shows "set (drop k (swap i j xs)) = set (drop k xs)"
proof -
  have "drop k (swap i j xs) = swap (i - k) (j - k) (drop k xs)"
    using assms by (simp add: swap_def drop_update_swap)
  moreover have "mset (swap (i - k) (j - k) (drop k xs)) = mset (drop k xs)" using assms by (intro swap_mset) auto
  ultimately show ?thesis by (metis set_mset_mset)
qed

lemma sorted_to_swap:
  assumes "sorted_to iss cnt idx cs" "cnt < idx" "idx < length cs"
  shows "sorted_to iss cnt (Suc cnt) (swap cnt idx cs)"
proof -
  have "\<not> iss (swap cnt idx cs ! i) x" if "i < cnt" "x \<in> set (drop (Suc i) (swap cnt idx cs))" for i x
  proof -
    have "swap cnt idx cs ! i = cs ! i" using that(1) assms(2) by (simp add: swap_def)
    moreover have "x \<in> set (drop (Suc i) cs)" using that assms swap_drop [of "Suc i" cnt cs idx] by auto
    ultimately show ?thesis using assms that(1) by (auto simp: sorted_to_def)
  qed
  then show ?thesis by (auto simp: sorted_to_def)
qed

lemma sorted_to_next:
  assumes "sorted_to iss cnt idx cs" "length cs \<le> idx" "cnt < length cs"
  shows "sorted_to iss (Suc cnt) (Suc (Suc cnt)) cs"
proof -
  have "\<not> iss (cs ! cnt) x" if "x \<in> set (drop (Suc cnt) cs)" for x
  proof -
    obtain j where "x = drop (Suc cnt) cs ! j" "j < length (drop (Suc cnt) cs)" using \<open>x \<in> _\<close> by (metis in_set_conv_nth)
    then have "x = cs ! (Suc cnt + j)" "Suc cnt + j < length cs" by auto
    with assms show ?thesis by (auto simp: sorted_to_def)
  qed
  then show ?thesis using assms by (auto simp: sorted_to_def less_Suc_eq)
qed

lemma sort_certs_at_sorted:
  assumes "sort_certs_at n gl verify cnt idx certs = Some r" "cnt < idx"
    and "sorted_to (\<lambda>c i. is_issuer gl c i verify) cnt idx certs"
  shows "mset r = mset certs \<and> (\<forall>i < length r. \<forall>x \<in> set (drop (Suc i) r). \<not> is_issuer gl (r ! i) x verify)"
  using assms
proof (induction n arbitrary: cnt idx certs)
  case (Suc n)
  let ?iss = "\<lambda>c i. is_issuer gl c i verify"
  consider (ends) "length certs \<le> cnt" | (row) "cnt < length certs" "length certs \<le> idx"
    | (pass) "cnt < length certs" "idx < length certs" "\<not> ?iss (certs ! cnt) (certs ! idx)"
    | (exchange) "cnt < length certs" "idx < length certs" "?iss (certs ! cnt) (certs ! idx)" by linarith
  then show ?case
  proof cases
    case ends
    then show ?thesis using Suc.prems by (auto simp: sorted_to_def)
  next
    case row
    then have "sort_certs_at n gl verify (Suc cnt) (Suc (Suc cnt)) certs = Some r" using Suc.prems(1) by simp
    from Suc.IH [OF this] show ?thesis using sorted_to_next [OF Suc.prems(3) row(2,1)] by simp
  next
    case pass
    then have "sort_certs_at n gl verify cnt (Suc idx) certs = Some r" using Suc.prems(1) by simp
    moreover have "sorted_to ?iss cnt (Suc idx) certs" using Suc.prems(3) pass by (auto simp: sorted_to_def less_Suc_eq)
    ultimately show ?thesis using Suc.IH [of cnt "Suc idx" certs] Suc.prems(2) by simp
  next
    case exchange
    then have "sort_certs_at n gl verify cnt (Suc cnt) (swap cnt idx certs) = Some r" using Suc.prems(1) by simp
    from Suc.IH [OF this] sorted_to_swap [OF Suc.prems(3,2) exchange(2)] show ?thesis
      using swap_mset [of cnt certs idx] exchange by simp
  qed
qed simp

text \<open>The issuers, of other certificates.\<close>

definition issuers :: "('p, 'c, 'k) gnutls \<Rightarrow> bool \<Rightarrow> 'c list \<Rightarrow> ('c \<times> 'c) set" where
  "issuers gl verify certs = {(i, c). i \<in> set certs \<and> c \<in> set certs \<and> i \<noteq> c \<and> is_issuer gl c i verify}"

lemma finite_issuers: "finite (issuers gl verify certs)"
  by (rule finite_subset [of _ "set certs \<times> set certs"]) (auto simp: issuers_def)

lemma sort_certs_at_ends:
  assumes "wf (issuers gl verify cs0)" "set certs = set cs0" "distinct certs" "cnt < idx"
  shows "\<exists>n. sort_certs_at n gl verify cnt idx certs \<noteq> None"
proof -
  let ?r = "less_than <*lex*> issuers gl verify cs0 <*lex*> less_than"
  let ?f = "\<lambda>(cnt, idx, certs). (length certs - cnt, certs ! cnt, Suc (length certs) - idx)"
  have wf: "wf (inv_image ?r ?f)" using assms(1) by (intro wf_inv_image wf_lex_prod wf_less_than)
  have "set certs = set cs0 \<longrightarrow> distinct certs \<longrightarrow> cnt < idx \<longrightarrow> (\<exists>n. sort_certs_at n gl verify cnt idx certs \<noteq> None)" for cnt idx certs
  proof (induction "(cnt, idx, certs)" arbitrary: cnt idx certs rule: wf_induct_rule [OF wf])
    case (1 cnt idx certs)
    show ?case
    proof (intro impI)
      assume a: "set certs = set cs0" "distinct certs" "cnt < idx"
      consider (ends) "length certs \<le> cnt" | (row) "cnt < length certs" "length certs \<le> idx"
        | (pass) "cnt < length certs" "idx < length certs" "\<not> is_issuer gl (certs ! cnt) (certs ! idx) verify"
        | (exchange) "cnt < length certs" "idx < length certs" "is_issuer gl (certs ! cnt) (certs ! idx) verify" by linarith
      then have "\<exists>n. sort_certs_at (Suc n) gl verify cnt idx certs \<noteq> None"
      proof cases
        case row
        then have "length certs - Suc cnt < length certs - cnt" by simp
        with row show ?thesis using 1 [of "cnt + 1" "cnt + 2" certs] a by auto
      next
        case pass
        then have "length certs - idx < Suc (length certs) - idx" by simp
        with pass show ?thesis using 1 [of cnt "idx + 1" certs] a by auto
      next
        case exchange
        let ?c = "swap cnt idx certs"
        have m: "mset ?c = mset certs" using exchange by (simp add: swap_mset)
        have c: "?c ! cnt = certs ! idx" using exchange a(3) by (simp add: swap_def)
        have "certs ! idx \<noteq> certs ! cnt" using a(2,3) exchange by (simp add: nth_eq_iff_index_eq)
        moreover have "certs ! idx \<in> set cs0" "certs ! cnt \<in> set cs0" using exchange a(1) nth_mem by blast+
        ultimately have "(certs ! idx, certs ! cnt) \<in> issuers gl verify cs0" using exchange by (simp add: issuers_def)
        moreover have "set ?c = set cs0" using mset_eq_setD [OF m] a(1) by (rule trans)
        moreover have "distinct ?c" using a(2) mset_eq_imp_distinct_iff [OF m] by (rule iffD2 [rotated])
        ultimately show ?thesis using 1 [of cnt "cnt + 1" ?c] exchange c by auto
      qed simp
      then show "\<exists>n. sort_certs_at n gl verify cnt idx certs \<noteq> None" by blast
    qed
  qed
  with assms(2-4) show ?thesis by blast
qed

text \<open>For distinct certificates that do not issue each other in a circle, the sort returns; and whenever it returns the result is
  a permutation of the certificates where no certificate was issued by a later one: the issuers come first.\<close>

theorem sort_certs_correct:
  assumes "distinct certs" "acyclic (issuers gl verify certs)"
  shows "\<exists>n r. sort_certs n gl certs verify = Some r \<and> mset r = mset certs \<and>
    (\<forall>i j. i < j \<and> j < length r \<longrightarrow> \<not> is_issuer gl (r ! i) (r ! j) verify)"
proof -
  have "wf (issuers gl verify certs)" using finite_acyclic_wf [OF finite_issuers assms(2)] .
  then obtain n r where r: "sort_certs_at n gl verify 0 1 certs = Some r" using sort_certs_at_ends [of gl verify certs certs 0 1] assms(1) by auto
  have "sorted_to (\<lambda>c i. is_issuer gl c i verify) 0 1 certs" by (simp add: sorted_to_def)
  note s = sort_certs_at_sorted [OF r _ this]
  have "\<not> is_issuer gl (r ! i) (r ! j) verify" if "i < j" "j < length r" for i j
  proof -
    have "r ! j \<in> set (drop (Suc i) r)" using that by (auto simp: in_set_conv_nth intro!: exI [of _ "j - Suc i"])
    with s that show ?thesis by auto
  qed
  with r s show ?thesis by (auto simp: sort_certs_def)
qed

lemma demo_issuer: "is_issuer demo_gl c i verify \<longleftrightarrow> c ! 1 = hd i"
  by (simp add: is_issuer_def demo_gl_def)

theorem sort_certs_correct_witness:
  "\<exists>n r. sort_certs n demo_gl [''ba+d'', ''ar'', ''rr@d''] True = Some r \<and> mset r = mset [''ba+d'', ''ar'', ''rr@d'']"
proof -
  let ?rank = "\<lambda>c. if c = ''rr@d'' then 0 else if c = ''ar'' then 1 else 2 :: nat"
  have "issuers demo_gl True [''ba+d'', ''ar'', ''rr@d''] \<subseteq> measure ?rank"
  proof
    fix x
    assume "x \<in> issuers demo_gl True [''ba+d'', ''ar'', ''rr@d'']"
    then obtain i c where x: "x = (i, c)" "i = ''ba+d'' \<or> i = ''ar'' \<or> i = ''rr@d''" "c = ''ba+d'' \<or> c = ''ar'' \<or> c = ''rr@d''"
      "i \<noteq> c" "c ! 1 = hd i" by (auto simp: issuers_def demo_issuer simp del: One_nat_def)
    then show "x \<in> measure ?rank" by (elim disjE) simp_all
  qed
  then have "acyclic (issuers demo_gl True [''ba+d'', ''ar'', ''rr@d''])" using wf_acyclic wf_subset wf_measure by blast
  then show ?thesis using sort_certs_correct [of "[''ba+d'', ''ar'', ''rr@d'']" demo_gl True] by (simp add: ex_simps) blast
qed

end
