(* ===== verification/PathEntry.thy ===== *)
theory PathEntry
  imports AFM_Prelude "HOL-Library.Sublist"
begin

text \<open>
  The tree of path entries (\<^verbatim>\<open>src/src/utils/path-entry.c\<close>): the set of files of a package,
  one entry per path component, with variables attached to the entries.

  An entry of the C code is a heap cell with a parent, a list of children and a list of
  variables. Here the tree is a value and a pointer to an entry is its position, the list
  of the names on the way from the root; the parent pointer is the position without its
  last name. Positions identify entries because siblings have distinct names, which is the
  invariant \<open>wf_entry\<close> below.
\<close>

unbundle bit_operations_syntax

section \<open>Data\<close>

text \<open>
  A variable is its key, its value and whether it has a dispose function. The names of
  children are what \<open>search_child\<close> compares; the field \<open>length\<close> is the length of the name.
\<close>

type_synonym ('k, 'v) var = "'k \<times> 'v \<times> bool"

datatype ('k, 'v) path_entry =
  Entry (pe_name: string) (pe_flags: "8 word") (pe_vars: "('k, 'v) var list")
        (pe_children: "('k, 'v) path_entry list")

type_synonym pos = "string list"

definition FLAGS_IS_ADDED :: "8 word" where "FLAGS_IS_ADDED = 1"
definition FLAGS_HAS_SLASH :: "8 word" where "FLAGS_HAS_SLASH = 2"

abbreviation slash :: char where "slash \<equiv> CHR ''/''"

fun set_children ::
  "(('k, 'v) path_entry list \<Rightarrow> ('k, 'v) path_entry list) \<Rightarrow> ('k, 'v) path_entry \<Rightarrow> ('k, 'v) path_entry"
  where "set_children f (Entry nm fl vs cs) = Entry nm fl vs (f cs)"

fun set_flags :: "(8 word \<Rightarrow> 8 word) \<Rightarrow> ('k, 'v) path_entry \<Rightarrow> ('k, 'v) path_entry" where
  "set_flags f (Entry nm fl vs cs) = Entry nm (f fl) vs cs"

fun set_vars ::
  "(('k, 'v) var list \<Rightarrow> ('k, 'v) var list) \<Rightarrow> ('k, 'v) path_entry \<Rightarrow> ('k, 'v) path_entry"
  where "set_vars f (Entry nm fl vs cs) = Entry nm fl (f vs) cs"

text \<open>Following and updating through a position.\<close>

definition find_child :: "string \<Rightarrow> ('k, 'v) path_entry list \<Rightarrow> ('k, 'v) path_entry option" where
  "find_child n cs = List.find (\<lambda>c. pe_name c = n) cs"

primrec entry_at :: "pos \<Rightarrow> ('k, 'v) path_entry \<Rightarrow> ('k, 'v) path_entry option" where
  "entry_at [] e = Some e"
| "entry_at (n # ns) e =
     (case find_child n (pe_children e) of None \<Rightarrow> None | Some c \<Rightarrow> entry_at ns c)"

fun upd_child ::
  "string \<Rightarrow> (('k, 'v) path_entry \<Rightarrow> ('k, 'v) path_entry) \<Rightarrow>
   ('k, 'v) path_entry list \<Rightarrow> ('k, 'v) path_entry list" where
  "upd_child n f [] = []"
| "upd_child n f (c # cs) = (if pe_name c = n then f c # cs else c # upd_child n f cs)"

primrec upd_at ::
  "pos \<Rightarrow> (('k, 'v) path_entry \<Rightarrow> ('k, 'v) path_entry) \<Rightarrow> ('k, 'v) path_entry \<Rightarrow> ('k, 'v) path_entry" where
  "upd_at [] f e = f e"
| "upd_at (n # ns) f e = set_children (upd_child n (upd_at ns f)) e"

section \<open>Searching and adding\<close>

text \<open>
  \<open>name\<close> is the rest of the C string the caller points into, of which the first \<open>len\<close>
  characters are the component. \<open>make_child\<close> places the new entry before the first
  sibling whose name is not less, for \<open>strcmp\<close>, than that whole rest.
\<close>

definition search_child ::
  "('k, 'v) path_entry \<Rightarrow> mem \<Rightarrow> pos \<Rightarrow> string \<Rightarrow> nat \<Rightarrow> 8 word \<Rightarrow>
   pos option \<times> ('k, 'v) path_entry \<times> mem" where
  "search_child t m parent name len fl =
     (case entry_at parent t of
        None \<Rightarrow> (None, t, m)
      | Some e \<Rightarrow>
          (case find_child (take len name) (pe_children e) of
             None \<Rightarrow> (None, t, m) | Some _ \<Rightarrow> (Some (parent @ [take len name]), t, m)))"

definition insert_child ::
  "('k, 'v) path_entry \<Rightarrow> string \<Rightarrow> ('k, 'v) path_entry list \<Rightarrow> ('k, 'v) path_entry list" where
  "insert_child e name cs =
     takeWhile (\<lambda>c. strcmp_less (pe_name c) name) cs @ e #
     dropWhile (\<lambda>c. strcmp_less (pe_name c) name) cs"

definition make_child ::
  "('k, 'v) path_entry \<Rightarrow> mem \<Rightarrow> pos \<Rightarrow> string \<Rightarrow> nat \<Rightarrow> 8 word \<Rightarrow>
   pos option \<times> ('k, 'v) path_entry \<times> mem" where
  "make_child t m parent name len fl =
     (let (ok, m') = c_alloc m in
      if \<not> ok then (None, t, m')
      else (Some (parent @ [take len name]),
            upd_at parent (set_children (insert_child (Entry (take len name) fl [] []) name)) t, m'))"

definition get_child ::
  "('k, 'v) path_entry \<Rightarrow> mem \<Rightarrow> pos \<Rightarrow> string \<Rightarrow> nat \<Rightarrow> 8 word \<Rightarrow>
   pos option \<times> ('k, 'v) path_entry \<times> mem" where
  "get_child t m parent name len fl =
     (case search_child t m parent name len fl of
        (Some p, t', m') \<Rightarrow> (Some p, t', m')
      | (None, _, _) \<Rightarrow> make_child t m parent name len fl)"

text \<open>
  \<open>process\<close>: \<open>seg\<close> is what remains of the first \<open>length\<close> characters, \<open>rest\<close> is the
  part of the C string after them, that only \<open>make_child\<close> reads.
\<close>

type_synonym ('k, 'v) getter =
  "('k, 'v) path_entry \<Rightarrow> mem \<Rightarrow> pos \<Rightarrow> string \<Rightarrow> nat \<Rightarrow> 8 word \<Rightarrow>
   pos option \<times> ('k, 'v) path_entry \<times> mem"

function process_loop ::
  "('k, 'v) getter \<Rightarrow> ('k, 'v) path_entry \<Rightarrow> mem \<Rightarrow> pos \<Rightarrow> string \<Rightarrow> string \<Rightarrow> 8 word \<Rightarrow>
   pos option \<times> ('k, 'v) path_entry \<times> mem" where
  "process_loop get t m entry seg rest fl =
     (if seg = [] then (Some entry, t, m)
      else let len = length (takeWhile (\<lambda>c. c \<noteq> slash) seg);
               (r, t', m') = get t m entry (seg @ rest) len fl
           in case r of
                None \<Rightarrow> (None, t', m')
              | Some entry' \<Rightarrow>
                  process_loop get t' m' entry'
                    (dropWhile (\<lambda>c. c = slash) (dropWhile (\<lambda>c. c \<noteq> slash) seg)) rest
                    FLAGS_HAS_SLASH)"
  by pat_completeness auto

termination
  by (relation "measure (\<lambda>(get, t, m, entry, seg, rest, fl). length seg)")
     (simp_all add: skip_component_shorter)

declare process_loop.simps [simp del]

definition process ::
  "('k, 'v) getter \<Rightarrow> ('k, 'v) path_entry \<Rightarrow> mem \<Rightarrow> pos \<Rightarrow> string \<Rightarrow> nat \<Rightarrow>
   pos option \<times> ('k, 'v) path_entry \<times> mem" where
  "process get t m root path len =
     (let seg = take (to_unsigned len) path;
          fl = (if takeWhile (\<lambda>c. c = slash) seg = [] then 0 else FLAGS_HAS_SLASH)
      in process_loop get t m root (dropWhile (\<lambda>c. c = slash) seg)
           (drop (to_unsigned len) path) fl)"

definition path_entry_is_root :: "pos \<Rightarrow> bool" where
  "path_entry_is_root p = (p = [])"

definition path_entry_create_root :: "mem \<Rightarrow> int \<times> ('k, 'v) path_entry option \<times> mem" where
  "path_entry_create_root m =
     (let (ok, m') = c_alloc m
      in if ok then (0, Some (Entry [] 0 [] []), m') else (- ENOMEM, None, m'))"

definition path_entry_add_length ::
  "('k, 'v) path_entry \<Rightarrow> mem \<Rightarrow> pos \<Rightarrow> string \<Rightarrow> nat \<Rightarrow>
   int \<times> pos option \<times> ('k, 'v) path_entry \<times> mem" where
  "path_entry_add_length t m root path len =
     (case process get_child t m root path len of
        (None, t', m') \<Rightarrow> (- ENOMEM, None, t', m')
      | (Some p, t', m') \<Rightarrow> (0, Some p, upd_at p (set_flags (\<lambda>f. f OR FLAGS_IS_ADDED)) t', m'))"

text \<open>A null path is given the length 0.\<close>

definition path_entry_add ::
  "('k, 'v) path_entry \<Rightarrow> mem \<Rightarrow> pos \<Rightarrow> string option \<Rightarrow>
   int \<times> pos option \<times> ('k, 'v) path_entry \<times> mem" where
  "path_entry_add t m root path =
     path_entry_add_length t m root (case path of None \<Rightarrow> [] | Some p \<Rightarrow> p)
       (case path of None \<Rightarrow> 0 | Some p \<Rightarrow> length p)"

definition path_entry_get_length ::
  "('k, 'v) path_entry \<Rightarrow> pos \<Rightarrow> string \<Rightarrow> nat \<Rightarrow> int \<times> pos option" where
  "path_entry_get_length t root path len =
     (case process search_child t [] root path len of
        (None, _, _) \<Rightarrow> (- ENOENT, None) | (Some p, _, _) \<Rightarrow> (0, Some p))"

definition path_entry_get ::
  "('k, 'v) path_entry \<Rightarrow> pos \<Rightarrow> string option \<Rightarrow> int \<times> pos option" where
  "path_entry_get t root path =
     path_entry_get_length t root (case path of None \<Rightarrow> [] | Some p \<Rightarrow> p)
       (case path of None \<Rightarrow> 0 | Some p \<Rightarrow> length p)"

text \<open>
  \<open>path_entry_root_prepend_length\<close>: the children of the root move under the new path; on
  failure the root gets its children back and what was created is lost.
\<close>

definition path_entry_root_prepend_length ::
  "('k, 'v) path_entry \<Rightarrow> mem \<Rightarrow> pos \<Rightarrow> string \<Rightarrow> nat \<Rightarrow>
   int \<times> pos option \<times> ('k, 'v) path_entry \<times> mem" where
  "path_entry_root_prepend_length t m root path len =
     (if root \<noteq> [] then (- EINVAL, None, t, m)
      else let children = pe_children t;
               (tail, t', m') = process get_child (set_children (\<lambda>_. []) t) m root path len
           in case tail of
                None \<Rightarrow> (- ENOMEM, None, set_children (\<lambda>_. children) t', m')
              | Some p \<Rightarrow> (0, Some p, upd_at p (set_children (\<lambda>_. children)) t', m'))"

definition path_entry_root_prepend ::
  "('k, 'v) path_entry \<Rightarrow> mem \<Rightarrow> pos \<Rightarrow> string \<Rightarrow>
   int \<times> pos option \<times> ('k, 'v) path_entry \<times> mem" where
  "path_entry_root_prepend t m root path = path_entry_root_prepend_length t m root path (length path)"

text \<open>
  \<open>path_entry_destroy\<close>: unlinks the entry from its parent and frees it with all that it
  holds; destroying the root leaves nothing. The dispose functions are not called.
\<close>

fun remove_child :: "string \<Rightarrow> ('k, 'v) path_entry list \<Rightarrow> ('k, 'v) path_entry list" where
  "remove_child n [] = []"
| "remove_child n (c # cs) = (if pe_name c = n then cs else c # remove_child n cs)"

definition path_entry_destroy ::
  "('k, 'v) path_entry \<Rightarrow> pos \<Rightarrow> ('k, 'v) path_entry option" where
  "path_entry_destroy t p =
     (if p = [] then None
      else Some (upd_at (butlast p) (set_children (remove_child (last p))) t))"

section \<open>Reading entries\<close>

definition path_entry_was_added :: "('k, 'v) path_entry \<Rightarrow> bool" where
  "path_entry_was_added e \<longleftrightarrow> pe_flags e AND FLAGS_IS_ADDED \<noteq> 0"

definition path_entry_has_child :: "('k, 'v) path_entry \<Rightarrow> bool" where
  "path_entry_has_child e \<longleftrightarrow> pe_children e \<noteq> []"

definition path_entry_length :: "('k, 'v) path_entry \<Rightarrow> nat" where
  "path_entry_length e = length (pe_name e)"

definition path_entry_parent :: "pos \<Rightarrow> pos option" where
  "path_entry_parent p = (if p = [] then None else Some (butlast p))"

section \<open>Paths as component lists\<close>

text \<open>The components of a path: the nonempty pieces between slashes.\<close>

fun split_slash :: "string \<Rightarrow> string list" where
  "split_slash [] = [[]]"
| "split_slash (c # s) =
     (if c = slash then [] # split_slash s
      else (c # hd (split_slash s)) # tl (split_slash s))"

definition comps :: "string \<Rightarrow> string list" where
  "comps s = filter (\<lambda>w. w \<noteq> []) (split_slash s)"

lemma split_slash_ne [simp]: "split_slash s \<noteq> []"
  by (cases s) auto

lemma split_slash_word:
  "split_slash s = takeWhile (\<lambda>c. c \<noteq> slash) s #
     (case dropWhile (\<lambda>c. c \<noteq> slash) s of [] \<Rightarrow> [] | _ # r \<Rightarrow> split_slash r)"
proof (induction s)
  case (Cons c s)
  show ?case
  proof (cases "c = slash")
    case False
    then have "split_slash (c # s) = (c # hd (split_slash s)) # tl (split_slash s)" by simp
    also have "hd (split_slash s) = takeWhile (\<lambda>c. c \<noteq> slash) s"
      by (subst Cons.IH) simp
    also have "tl (split_slash s) = (case dropWhile (\<lambda>c. c \<noteq> slash) s of [] \<Rightarrow> [] | _ # r \<Rightarrow> split_slash r)"
      by (subst Cons.IH) simp
    finally show ?thesis using False by simp
  qed simp
qed simp

lemma comps_slash [simp]: "comps (slash # s) = comps s"
  by (simp add: comps_def)

lemma comps_skip [text_laws]: "comps (dropWhile (\<lambda>c. c = slash) s) = comps s"
proof (induction s)
  case (Cons c s)
  then show ?case by (cases "c = slash") simp_all
qed simp

lemma comps_Nil [simp]: "comps [] = []"
  by (simp add: comps_def)

lemma comps_word:
  assumes "s \<noteq> []" "hd s \<noteq> slash"
  shows "comps s = takeWhile (\<lambda>c. c \<noteq> slash) s # comps (dropWhile (\<lambda>c. c \<noteq> slash) s)"
proof -
  have ne: "takeWhile (\<lambda>c. c \<noteq> slash) s \<noteq> []"
    using assms by (cases s) auto
  have *: "comps s = takeWhile (\<lambda>c. c \<noteq> slash) s #
      filter (\<lambda>w. w \<noteq> []) (case dropWhile (\<lambda>c. c \<noteq> slash) s of [] \<Rightarrow> [] | _ # r \<Rightarrow> split_slash r)"
    unfolding comps_def by (subst split_slash_word) (simp only: ne filter.simps if_True simp_thms)
  show ?thesis
  proof (cases "dropWhile (\<lambda>c. c \<noteq> slash) s")
    case (Cons c r)
    then have "c = slash" by (auto simp: dropWhile_eq_Cons_conv)
    with * Cons show ?thesis by (simp add: comps_def)
  qed (use * in \<open>simp del: dropWhile_eq_Nil_conv\<close>)
qed

lemma split_slash_no_slash: "w \<in> set (split_slash s) \<Longrightarrow> slash \<notin> set w"
proof (induction s arbitrary: w)
  case (Cons c s)
  have "hd (split_slash s) \<in> set (split_slash s)" by simp
  moreover have "v \<in> set (tl (split_slash s)) \<Longrightarrow> v \<in> set (split_slash s)" for v
    by (cases "split_slash s") auto
  ultimately show ?case
    using Cons by (cases "c = slash") auto
qed simp

lemma comps_valid: "w \<in> set (comps s) \<Longrightarrow> w \<noteq> [] \<and> slash \<notin> set w"
  by (auto simp: comps_def dest: split_slash_no_slash)

text \<open>Reduced text: either exhausted or at the start of a component.\<close>

definition at_word :: "string \<Rightarrow> bool" where
  "at_word s \<longleftrightarrow> s = [] \<or> hd s \<noteq> slash"

lemma at_word_skip [simp]: "at_word (dropWhile (\<lambda>c. c = slash) s)"
  using hd_dropWhile [of "\<lambda>c. c = slash" s] by (auto simp: at_word_def)

section \<open>Lookup after update\<close>

lemma set_simps [simp]:
  "pe_name (set_children f e) = pe_name e" "pe_flags (set_children f e) = pe_flags e"
  "pe_vars (set_children f e) = pe_vars e" "pe_children (set_children f e) = f (pe_children e)"
  "pe_name (set_flags g e) = pe_name e" "pe_flags (set_flags g e) = g (pe_flags e)"
  "pe_vars (set_flags g e) = pe_vars e" "pe_children (set_flags g e) = pe_children e"
  "pe_name (set_vars h e) = pe_name e" "pe_flags (set_vars h e) = pe_flags e"
  "pe_vars (set_vars h e) = h (pe_vars e)" "pe_children (set_vars h e) = pe_children e"
  by (cases e; simp)+

lemma find_child_simps [simp]:
  "find_child n [] = None"
  "find_child n (c # cs) = (if pe_name c = n then Some c else find_child n cs)"
  by (simp_all add: find_child_def)

lemma find_child_None: "find_child n cs = None \<longleftrightarrow> n \<notin> pe_name ` set cs"
  by (induction cs) auto

lemma find_child_Some: "find_child n cs = Some c \<Longrightarrow> c \<in> set cs \<and> pe_name c = n"
  by (induction cs) (auto split: if_splits)

lemma find_child_append:
  "find_child n (cs @ ds) = (case find_child n cs of None \<Rightarrow> find_child n ds | Some c \<Rightarrow> Some c)"
  by (induction cs) auto

lemma find_child_upd [entry_laws]:
  assumes "\<And>c. find_child n cs = Some c \<Longrightarrow> pe_name (f c) = n"
  shows "find_child k (upd_child n f cs) =
           (if k = n then map_option f (find_child n cs) else find_child k cs)"
  using assms by (induction cs) (auto split: if_splits)

lemma find_child_insert [entry_laws]:
  assumes "find_child (pe_name e) cs = None"
  shows "find_child k (insert_child e s cs) = (if k = pe_name e then Some e else find_child k cs)"
proof -
  have "find_child k cs =
          find_child k (takeWhile (\<lambda>c. strcmp_less (pe_name c) s) cs @
                        dropWhile (\<lambda>c. strcmp_less (pe_name c) s) cs)"
    by simp
  moreover have "find_child (pe_name e) (takeWhile (\<lambda>c. strcmp_less (pe_name c) s) cs) = None"
    using assms by (auto simp: find_child_None dest: set_takeWhileD)
  ultimately show ?thesis
    unfolding insert_child_def by (simp add: find_child_append split: option.split del: takeWhile_dropWhile_id)
qed

lemma find_child_remove [entry_laws]:
  "distinct (map pe_name cs) \<Longrightarrow>
   find_child k (remove_child n cs) = (if k = n then None else find_child k cs)"
  by (induction cs) (auto simp: find_child_None)

lemma entry_at_append:
  "entry_at (p @ q) t = (case entry_at p t of None \<Rightarrow> None | Some e \<Rightarrow> entry_at q e)"
  by (induction p arbitrary: t) (auto split: option.splits)

lemma pe_name_upd_at:
  "(\<And>e. entry_at p t = Some e \<Longrightarrow> pe_name (f e) = pe_name e) \<Longrightarrow> pe_name (upd_at p f t) = pe_name t"
  by (cases p) auto

text \<open>
  What a client sees of a tree: for each position with an entry, its flags and variables.
  The order of siblings is not part of it.
\<close>

definition entry_view :: "('k, 'v) path_entry \<Rightarrow> pos \<Rightarrow> (8 word \<times> ('k, 'v) var list) option" where
  "entry_view t q = map_option (\<lambda>e. (pe_flags e, pe_vars e)) (entry_at q t)"

lemma entry_view_Nil [simp]: "entry_view t [] = Some (pe_flags t, pe_vars t)"
  by (simp add: entry_view_def)

lemma entry_view_Cons [simp]:
  "entry_view t (n # q) =
     (case find_child n (pe_children t) of None \<Rightarrow> None | Some c \<Rightarrow> entry_view c q)"
  by (simp add: entry_view_def split: option.split)

lemma entry_view_None [simp]: "entry_view t q = None \<longleftrightarrow> entry_at q t = None"
  by (simp add: entry_view_def)

lemma entry_view_append:
  "entry_at p t = Some e \<Longrightarrow> entry_view t (p @ q) = entry_view e q"
  by (simp add: entry_view_def entry_at_append)

lemma entry_view_upd_at [entry_laws]:
  assumes "entry_at p t = Some e" "pe_name (f e) = pe_name e"
  shows "entry_view (upd_at p f t) q =
           (if prefix p q then entry_view (f e) (drop (length p) q) else entry_view t q)"
  using assms
proof (induction p arbitrary: t q)
  case (Cons n ns)
  then obtain c where c: "find_child n (pe_children t) = Some c" "entry_at ns c = Some e"
    by (auto split: option.splits)
  have nm: "pe_name (upd_at ns f c) = n"
    using c Cons.prems(2) find_child_Some [OF c(1)] pe_name_upd_at [of ns c f] by auto
  show ?case
  proof (cases q)
    case Nil
    then show ?thesis by simp
  next
    case (Cons k ks)
    have "find_child k (upd_child n (upd_at ns f) (pe_children t)) =
            (if k = n then Some (upd_at ns f c) else find_child k (pe_children t))"
      using c nm by (subst find_child_upd) auto
    then show ?thesis
      using Cons.IH [OF c(2) Cons.prems(2), of ks] Cons c by auto
  qed
qed simp

section \<open>The invariant\<close>

text \<open>
  Children of an entry have distinct names, each a possible path component, and the keys
  of its variables are distinct.
\<close>

definition comp_name :: "string \<Rightarrow> bool" where
  "comp_name n \<longleftrightarrow> n \<noteq> [] \<and> slash \<notin> set n"

fun wf_entry :: "('k, 'v) path_entry \<Rightarrow> bool" where
  "wf_entry (Entry nm fl vs cs) \<longleftrightarrow>
     distinct (map fst vs) \<and> distinct (map pe_name cs) \<and>
     (\<forall>c \<in> set cs. comp_name (pe_name c) \<and> wf_entry c)"

lemma wf_entryD:
  "wf_entry e \<Longrightarrow> distinct (map pe_name (pe_children e))"
  "wf_entry e \<Longrightarrow> distinct (map fst (pe_vars e))"
  "wf_entry e \<Longrightarrow> c \<in> set (pe_children e) \<Longrightarrow> wf_entry c"
  by (cases e; simp)+

lemma wf_entry_at: "wf_entry t \<Longrightarrow> entry_at p t = Some e \<Longrightarrow> wf_entry e"
  by (induction p arbitrary: t) (auto split: option.splits dest: find_child_Some wf_entryD)

lemma set_upd_child:
  "c \<in> set (upd_child n f cs) \<Longrightarrow> c \<in> set cs \<or> (\<exists>d. find_child n cs = Some d \<and> c = f d)"
  by (induction cs) (auto split: if_splits)

lemma names_upd_child:
  "(\<And>d. find_child n cs = Some d \<Longrightarrow> pe_name (f d) = pe_name d) \<Longrightarrow>
   map pe_name (upd_child n f cs) = map pe_name cs"
  by (induction cs) (auto split: if_splits)

lemma wf_upd_at:
  assumes "wf_entry t"
    and "\<And>e. entry_at p t = Some e \<Longrightarrow> pe_name (f e) = pe_name e"
    and "\<And>e. entry_at p t = Some e \<Longrightarrow> wf_entry e \<Longrightarrow> wf_entry (f e)"
  shows "wf_entry (upd_at p f t)"
  using assms
proof (induction p arbitrary: t)
  case (Cons n ns)
  obtain nm fl vs cs where t: "t = Entry nm fl vs cs" by (cases t)
  have nm: "pe_name (upd_at ns f d) = pe_name d" if "find_child n cs = Some d" for d
    using Cons.prems(2) that t by (intro pe_name_upd_at) simp
  have wf: "wf_entry (upd_at ns f d)" if "find_child n cs = Some d" for d
    using Cons.prems that t find_child_Some [OF that] by (intro Cons.IH) auto
  have "comp_name (pe_name c) \<and> wf_entry c" if "c \<in> set (upd_child n (upd_at ns f) cs)" for c
    using set_upd_child [OF that] nm wf Cons.prems(1) t by (auto dest: find_child_Some)
  moreover have "map pe_name (upd_child n (upd_at ns f) cs) = map pe_name cs"
    using nm by (rule names_upd_child)
  ultimately show ?case
    using Cons.prems(1) t by simp
qed simp

lemma wf_insert_child:
  assumes "wf_entry e" "comp_name w" "find_child w (pe_children e) = None"
  shows "wf_entry (set_children (insert_child (Entry w fl [] []) s) e)"
proof (cases e)
  case (Entry nm fl0 vs cs)
  let ?P = "\<lambda>c. strcmp_less (pe_name c) s"
  have cs: "takeWhile ?P cs @ dropWhile ?P cs = cs" by simp
  have "distinct (map pe_name (takeWhile ?P cs @ dropWhile ?P cs))"
    "w \<notin> pe_name ` set (takeWhile ?P cs @ dropWhile ?P cs)"
    "\<forall>c \<in> set (takeWhile ?P cs @ dropWhile ?P cs). comp_name (pe_name c) \<and> wf_entry c"
    using assms Entry unfolding cs by (auto simp: find_child_None)
  then show ?thesis
    using assms Entry by (simp add: insert_child_def del: takeWhile_dropWhile_id) blast
qed

section \<open>Walking\<close>

text \<open>Searching follows the components of the path.\<close>

lemma process_loop_search:
  assumes "at_word seg" "entry_at p t \<noteq> None"
  shows "process_loop search_child t m p seg rest fl =
           (if entry_at (p @ comps seg) t = None then None else Some (p @ comps seg), t, m)"
  using assms
proof (induction "length seg" arbitrary: seg p fl rule: less_induct)
  case less
  show ?case
  proof (cases "seg = []")
    case True
    with less.prems show ?thesis by (simp add: process_loop.simps)
  next
    case False
    let ?w = "takeWhile (\<lambda>c. c \<noteq> slash) seg"
    let ?r = "dropWhile (\<lambda>c. c = slash) (dropWhile (\<lambda>c. c \<noteq> slash) seg)"
    have seg: "comps seg = ?w # comps ?r"
      using False less.prems(1) comps_word [of seg] by (simp add: at_word_def comps_skip)
    have tk: "take (length ?w) (seg @ rest) = ?w"
      by (metis append.assoc append_eq_conv_conj takeWhile_dropWhile_id)
    obtain e where e: "entry_at p t = Some e" using less.prems(2) by blast
    show ?thesis
    proof (cases "find_child ?w (pe_children e)")
      case None
      then have "entry_at (p @ comps seg) t = None"
        using e by (simp add: entry_at_append seg)
      then show ?thesis
        using False None e by (subst process_loop.simps) (simp add: search_child_def tk Let_def del: take_append)
    next
      case (Some c)
      then have "entry_at (p @ [?w]) t \<noteq> None" using e by (simp add: entry_at_append)
      then have "process_loop search_child t m (p @ [?w]) ?r rest FLAGS_HAS_SLASH =
          (if entry_at ((p @ [?w]) @ comps ?r) t = None then None
           else Some ((p @ [?w]) @ comps ?r), t, m)"
        using False by (intro less.hyps) (simp_all add: skip_component_shorter)
      then show ?thesis
        using False Some e seg
        by (subst process_loop.simps) (simp add: search_child_def tk Let_def del: take_append)
    qed
  qed
qed

definition path_entry_exists :: "('k, 'v) path_entry \<Rightarrow> pos \<Rightarrow> bool" where
  "path_entry_exists t p \<longleftrightarrow> entry_at p t \<noteq> None"

lemma path_entry_get_walks:
  assumes "path_entry_exists t root" "length path < 2 ^ 32"
  shows "path_entry_get t root (Some path) =
           (if path_entry_exists t (root @ comps path) then (0, Some (root @ comps path))
            else (- ENOENT, None))"
  using assms process_loop_search [of "dropWhile (\<lambda>c. c = slash) path" root t "[]" "[]"]
  by (simp add: path_entry_get_def path_entry_get_length_def process_def path_entry_exists_def
      comps_skip Let_def)

text \<open>
  Adding, on the view: each component that is missing is created without variables, with
  the flag that tells whether a slash was before it, and the last one is marked.
\<close>

type_synonym ('k, 'v) view = "pos \<Rightarrow> (8 word \<times> ('k, 'v) var list) option"

definition view_make :: "('k, 'v) view \<Rightarrow> pos \<Rightarrow> 8 word \<Rightarrow> ('k, 'v) view" where
  "view_make v p fl = (if v p = None then v(p \<mapsto> (fl, [])) else v)"

primrec view_walk :: "string list \<Rightarrow> ('k, 'v) view \<Rightarrow> pos \<Rightarrow> 8 word \<Rightarrow> ('k, 'v) view" where
  "view_walk [] v p fl = v"
| "view_walk (w # ws) v p fl = view_walk ws (view_make v (p @ [w]) fl) (p @ [w]) FLAGS_HAS_SLASH"

definition leading_flags :: "string \<Rightarrow> 8 word" where
  "leading_flags path = (if path \<noteq> [] \<and> hd path = slash then FLAGS_HAS_SLASH else 0)"

definition view_add :: "('k, 'v) view \<Rightarrow> pos \<Rightarrow> string \<Rightarrow> ('k, 'v) view" where
  "view_add v root path =
     (let v' = view_walk (comps path) v root (leading_flags path); p = root @ comps path
      in v'(p := map_option (\<lambda>(fl, vs). (fl OR FLAGS_IS_ADDED, vs)) (v' p)))"

lemma entry_view_new_child:
  assumes "entry_at p t = Some e" "find_child w (pe_children e) = None"
  shows "entry_view (upd_at p (set_children (insert_child (Entry w fl [] []) s)) t) =
           (entry_view t)(p @ [w] \<mapsto> (fl, []))"
proof
  fix q
  let ?t = "upd_at p (set_children (insert_child (Entry w fl [] []) s)) t"
  show "entry_view ?t q = ((entry_view t)(p @ [w] \<mapsto> (fl, []))) q"
  proof (cases "prefix p q")
    case True
    then obtain r where q: "q = p @ r" by (auto simp: prefix_def)
    have "entry_view ?t q =
            entry_view (set_children (insert_child (Entry w fl [] []) s) e) r"
      using assms(1) q by (subst entry_view_upd_at) simp_all
    also have "\<dots> = (if r = [w] then Some (fl, []) else entry_view e r)"
      using assms(2) by (cases r) (auto simp: find_child_insert neq_Nil_conv split: option.splits)
    finally show ?thesis
      using assms(1) q by (simp add: entry_view_append)
  next
    case False
    then show ?thesis using assms(1) by (subst entry_view_upd_at) auto
  qed
qed

lemma get_child_cases:
  assumes "get_child t m p name len fl = (r, t', m')"
    and "entry_at p t \<noteq> None" "wf_entry t" "comp_name (take len name)"
  obtains (found) "r = Some (p @ [take len name])" "wf_entry t'" "m = [] \<Longrightarrow> m' = []"
      "entry_view t' = view_make (entry_view t) (p @ [take len name]) fl"
    | (full) "r = None" "t' = t" "m \<noteq> []"
proof -
  obtain e where e: "entry_at p t = Some e" using assms(2) by blast
  show ?thesis
  proof (cases "find_child (take len name) (pe_children e)")
    case None
    then have v: "entry_view t (p @ [take len name]) = None"
      using e by (simp add: entry_at_append)
    have wf: "wf_entry (upd_at p (set_children (insert_child (Entry (take len name) fl [] []) name)) t)"
      using assms(3,4) None e by (intro wf_upd_at) (auto intro: wf_insert_child)
    obtain ok m1 where m1: "c_alloc m = (ok, m1)" by fastforce
    show ?thesis
    proof (cases ok)
      case True
      then show ?thesis
        using assms(1) None e v wf m1 entry_view_new_child [OF e None, of fl name]
        by (intro found)
          (auto simp: get_child_def search_child_def make_child_def view_make_def c_alloc_def
             split: list.splits)
    next
      case False
      then show ?thesis
        using assms(1) None e m1
        by (intro full) (auto simp: get_child_def search_child_def make_child_def c_alloc_def split: list.splits)
    qed
  next
    case (Some c)
    then have "entry_view t (p @ [take len name]) \<noteq> None"
      using e by (simp add: entry_at_append)
    then show ?thesis
      using assms(1,3) Some e
      by (intro found) (auto simp: get_child_def search_child_def view_make_def)
  qed
qed

lemma process_loop_get:
  assumes "process_loop get_child t m p seg rest fl = (r, t', m')"
    and "at_word seg" "entry_at p t \<noteq> None" "wf_entry t"
  shows "wf_entry t' \<and> (m = [] \<longrightarrow> r \<noteq> None \<and> m' = []) \<and>
         (r = None \<longrightarrow> (\<exists>k. entry_view t' = view_walk (take k (comps seg)) (entry_view t) p fl)) \<and>
         (r \<noteq> None \<longrightarrow> r = Some (p @ comps seg) \<and> entry_at (p @ comps seg) t' \<noteq> None \<and>
            entry_view t' = view_walk (comps seg) (entry_view t) p fl)"
  using assms
proof (induction "length seg" arbitrary: seg p fl t m rule: less_induct)
  case less
  show ?case
  proof (cases "seg = []")
    case True
    with less.prems show ?thesis by (auto simp: process_loop.simps)
  next
    case False
    define w where "w = takeWhile (\<lambda>c. c \<noteq> slash) seg"
    define sg where "sg = dropWhile (\<lambda>c. c = slash) (dropWhile (\<lambda>c. c \<noteq> slash) seg)"
    have seg: "comps seg = w # comps sg"
      using False less.prems(2) comps_word [of seg] by (simp add: at_word_def comps_skip w_def sg_def)
    have tk: "take (length w) (seg @ rest) = w"
      unfolding w_def by (metis append.assoc append_eq_conv_conj takeWhile_dropWhile_id)
    have w: "comp_name w" using comps_valid [of w seg] by (simp add: seg comp_name_def)
    obtain r1 t1 m1 where g: "get_child t m p (seg @ rest) (length w) fl = (r1, t1, m1)"
      by (cases "get_child t m p (seg @ rest) (length w) fl")
    have unf: "process_loop get_child t m p seg rest fl =
        (case r1 of None \<Rightarrow> (None, t1, m1)
         | Some e \<Rightarrow> process_loop get_child t1 m1 e sg rest FLAGS_HAS_SLASH)"
      using False g unfolding w_def sg_def by (subst process_loop.simps) (simp add: Let_def)
    have "comp_name (take (length w) (seg @ rest))" using w tk by simp
    with g less.prems(3,4) show ?thesis
    proof (cases rule: get_child_cases)
      case full
      then have "r = None" "t' = t" "m \<noteq> []" using less.prems(1) unf by auto
      then show ?thesis using less.prems(4) by (auto intro: exI [of _ 0])
    next
      case found
      note found = found [unfolded tk]
      have ex: "entry_at (p @ [w]) t1 \<noteq> None"
        using found(4) by (subst entry_view_None [symmetric]) (auto simp: view_make_def simp del: entry_view_None)
      have run: "process_loop get_child t1 m1 (p @ [w]) sg rest FLAGS_HAS_SLASH = (r, t', m')"
        using less.prems(1) unf found(1) by simp
      have "length sg < length seg" using False by (simp add: sg_def skip_component_shorter)
      from less.hyps [OF this run _ ex found(2)]
      have ih: "wf_entry t' \<and> (m1 = [] \<longrightarrow> r \<noteq> None \<and> m' = []) \<and>
         (r = None \<longrightarrow> (\<exists>k. entry_view t' = view_walk (take k (comps sg)) (entry_view t1) (p @ [w]) FLAGS_HAS_SLASH)) \<and>
         (r \<noteq> None \<longrightarrow> r = Some ((p @ [w]) @ comps sg) \<and> entry_at ((p @ [w]) @ comps sg) t' \<noteq> None \<and>
            entry_view t' = view_walk (comps sg) (entry_view t1) (p @ [w]) FLAGS_HAS_SLASH)"
        by (simp add: sg_def)
      have "\<exists>k. entry_view t' = view_walk (take k (comps seg)) (entry_view t) p fl" if "r = None"
      proof -
        from ih that obtain k where
          "entry_view t' = view_walk (take k (comps sg)) (entry_view t1) (p @ [w]) FLAGS_HAS_SLASH"
          by blast
        then show ?thesis using found(4) seg by (intro exI [of _ "Suc k"]) simp
      qed
      with ih found seg show ?thesis by auto
    qed
  qed
qed

lemma process_get:
  assumes "process get_child t m p path0 len = (r, t', m')"
    and "entry_at p t \<noteq> None" "wf_entry t" "len < 2 ^ 32" "path = take len path0"
  shows "wf_entry t' \<and> (m = [] \<longrightarrow> r \<noteq> None \<and> m' = []) \<and>
         (r = None \<longrightarrow>
            (\<exists>k. entry_view t' = view_walk (take k (comps path)) (entry_view t) p (leading_flags path))) \<and>
         (r \<noteq> None \<longrightarrow> r = Some (p @ comps path) \<and> entry_at (p @ comps path) t' \<noteq> None \<and>
            entry_view t' = view_walk (comps path) (entry_view t) p (leading_flags path))"
proof -
  have "(if takeWhile (\<lambda>c. c = slash) path = [] then 0 else FLAGS_HAS_SLASH) = leading_flags path"
    by (cases path) (auto simp: leading_flags_def)
  then have "process_loop get_child t m p (dropWhile (\<lambda>c. c = slash) path) (drop len path0)
      (leading_flags path) = (r, t', m')"
    using assms(1,4,5) by (simp add: process_def Let_def)
  from process_loop_get [OF this _ assms(2,3)] show ?thesis
    by (simp add: comps_skip)
qed

lemma wf_set_flags: "wf_entry e \<Longrightarrow> wf_entry (set_flags f e)"
  by (cases e) simp

lemma entry_view_set_flags:
  assumes "entry_at p t \<noteq> None"
  shows "entry_view (upd_at p (set_flags f) t) =
           (entry_view t)(p := map_option (\<lambda>(fl, vs). (f fl, vs)) (entry_view t p))"
proof -
  obtain e where e: "entry_at p t = Some e" using assms by blast
  have "entry_view (set_flags f e) r = (if r = [] then Some (f (pe_flags e), pe_vars e) else entry_view e r)" for r
    by (cases r) auto
  moreover have "entry_view t (p @ r) = entry_view e r" for r using e by (rule entry_view_append)
  moreover have "entry_view t p = Some (pe_flags e, pe_vars e)"
    using e by (simp add: entry_view_def)
  ultimately show ?thesis
    using e by (auto simp: fun_eq_iff entry_view_upd_at prefix_def)
qed

section \<open>Properties of additions\<close>

lemma path_entry_add_length_refines:
  assumes "wf_entry t" "path_entry_exists t root" "len < 2 ^ 32" "path = take len path0"
    and "path_entry_add_length t m root path0 len = (rc, r, t', m')"
  shows "wf_entry t' \<and> (m = [] \<longrightarrow> m' = []) \<and>
         (rc = 0 \<and> r = Some (root @ comps path) \<and> entry_view t' = view_add (entry_view t) root path \<or>
          rc = - ENOMEM \<and> r = None \<and> m \<noteq> [] \<and>
            (\<exists>k. entry_view t' = view_walk (take k (comps path)) (entry_view t) root (leading_flags path)))"
proof -
  obtain q t1 m1 where q: "process get_child t m root path0 len = (q, t1, m1)"
    by (cases "process get_child t m root path0 len")
  note pr = process_get [OF q _ assms(1,3,4)]
  have ex: "entry_at root t \<noteq> None" using assms(2) by (simp add: path_entry_exists_def)
  show ?thesis
  proof (cases q)
    case None
    then show ?thesis
      using assms(5) q pr ex by (auto simp: path_entry_add_length_def)
  next
    case (Some x)
    have "wf_entry (upd_at x (set_flags (\<lambda>f. f OR FLAGS_IS_ADDED)) t1)"
      using pr ex Some by (intro wf_upd_at) (auto simp: wf_set_flags)
    moreover have "entry_view (upd_at x (set_flags (\<lambda>f. f OR FLAGS_IS_ADDED)) t1) =
        view_add (entry_view t) root path"
      using pr ex Some by (simp add: entry_view_set_flags view_add_def Let_def)
    ultimately show ?thesis
      using assms(5) q pr ex Some by (auto simp: path_entry_add_length_def)
  qed
qed

lemma path_entry_add_refines_lemma:
  assumes "wf_entry t" "path_entry_exists t root" "length path < 2 ^ 32"
    and "path_entry_add t m root (Some path) = (rc, r, t', m')"
  shows "wf_entry t' \<and>
         (rc = 0 \<and> r = Some (root @ comps path) \<and> entry_view t' = view_add (entry_view t) root path \<or>
          rc = - ENOMEM \<and> r = None \<and> m \<noteq> [] \<and>
            (\<exists>k. entry_view t' = view_walk (take k (comps path)) (entry_view t) root (leading_flags path)))"
  using path_entry_add_length_refines [OF assms(1-3), of path path m rc r t' m'] assms(4)
  by (simp add: path_entry_add_def)

text \<open>C35: adding a path to the tree of files implements the addition on the view: exactly the
  missing components of the path are created and the last one is marked as added, every
  other entry keeps its flags and its variables. The answer is 0 with the entry of the
  path, or -ENOMEM with no entry when an allocation failed, and then only missing components
  of the path were created. The invariant is kept.\<close>

theorem path_entry_add_refines:
  assumes "wf_entry t" "path_entry_exists t root" "length path < 2 ^ 32"
    and "path_entry_add t m root (Some path) = (rc, r, t', m')"
  shows "wf_entry t' \<and>
         (rc = 0 \<and> r = Some (root @ comps path) \<and> entry_view t' = view_add (entry_view t) root path \<or>
          rc = - ENOMEM \<and> r = None \<and> m \<noteq> [] \<and>
            (\<exists>k. entry_view t' = view_walk (take k (comps path)) (entry_view t) root (leading_flags path)))"
  using assms by (rule path_entry_add_refines_lemma)

definition sample_tree :: "(nat, string) path_entry" where
  "sample_tree = Entry [] 0 [] [Entry ''etc'' FLAGS_HAS_SLASH [] []]"

theorem path_entry_add_refines_witness:
  "let (rc, r, t', m') = path_entry_add sample_tree [] [] (Some ''/etc//afm/x.json'')
   in rc = 0 \<and> r = Some [''etc'', ''afm'', ''x.json''] \<and>
      entry_view t' = view_add (entry_view sample_tree) [] ''/etc//afm/x.json''"
proof -
  obtain rc r t' m' where a:
    "path_entry_add sample_tree [] [] (Some ''/etc//afm/x.json'') = (rc, r, t', m')"
    by (metis prod_cases4)
  have "wf_entry sample_tree" "path_entry_exists sample_tree []"
    by (simp_all add: sample_tree_def comp_name_def path_entry_exists_def)
  moreover have "comps ''/etc//afm/x.json'' = [''etc'', ''afm'', ''x.json'']"
    by (simp add: comps_def)
  ultimately show ?thesis
    using path_entry_add_refines [OF _ _ _ a] a by (simp add: Let_def)
qed

text \<open>What \<open>view_add\<close> means for the entries of the tree.\<close>

lemma view_walk_dom:
  "(view_walk ws v p fl) q \<noteq> None \<longleftrightarrow>
     v q \<noteq> None \<or> (\<exists>k \<in> {1..length ws}. q = p @ take k ws)"
proof (induction ws arbitrary: v p fl)
  case (Cons w ws)
  have "(\<exists>k \<in> {1..length (w # ws)}. q = p @ take k (w # ws)) \<longleftrightarrow>
        (\<exists>j \<in> {0..length ws}. q = p @ take (Suc j) (w # ws))"
    by (metis (no_types, opaque_lifting) One_nat_def Suc_le_D Suc_le_mono atLeastAtMost_iff le0 length_Cons)
  also have "\<dots> \<longleftrightarrow> q = p @ [w] \<or> (\<exists>j \<in> {1..length ws}. q = (p @ [w]) @ take j ws)"
  proof -
    have "{0..length ws} = insert 0 {1..length ws}" by auto
    then show ?thesis by simp
  qed
  finally show ?case
    using Cons [of "view_make v (p @ [w]) fl" "p @ [w]" FLAGS_HAS_SLASH] by (auto simp: view_make_def)
qed simp

lemma view_walk_keep: "v q = Some x \<Longrightarrow> (view_walk ws v p fl) q = Some x"
proof (induction ws arbitrary: v p fl)
  case (Cons w ws)
  have "view_make v (p @ [w]) fl q = Some x" using Cons.prems by (auto simp: view_make_def)
  then show ?case using Cons.IH by simp
qed simp

lemma view_add_dom:
  assumes "v root \<noteq> None"
  shows "(view_add v root path) (root @ q) \<noteq> None \<longleftrightarrow> v (root @ q) \<noteq> None \<or> prefix q (comps path)"
proof -
  have "(\<exists>k \<in> {1..length ws}. root @ q = root @ take k ws) \<longleftrightarrow> prefix q ws \<and> q \<noteq> []" for ws
  proof
    assume "prefix q ws \<and> q \<noteq> []"
    then have "q = take (length q) ws \<and> length q \<in> {1..length ws}"
      by (auto simp: prefix_def Suc_le_eq)
    then show "\<exists>k \<in> {1..length ws}. root @ q = root @ take k ws" by auto
  qed (auto simp: take_is_prefix)
  moreover have "(view_add v root path) x \<noteq> None \<longleftrightarrow>
      (view_walk (comps path) v root (leading_flags path)) x \<noteq> None" for x
    by (auto simp: view_add_def Let_def)
  ultimately show ?thesis
    using view_walk_dom [of "comps path" v root "leading_flags path" "root @ q"] assms
    by (cases q) auto
qed

text \<open>After a path was added, looking up any path finds exactly what was found before plus
  the entries of the prefixes of the added path, whatever the spelling (repeated or trailing
  slashes); the entry of the path carries the mark of added entries.\<close>

theorem path_entry_add_get:
  assumes "wf_entry t" "path_entry_exists t root" "length path < 2 ^ 32" "length path' < 2 ^ 32"
    and "path_entry_add t m root (Some path) = (0, r, t', m')"
  shows "path_entry_get t' root (Some path') =
           (if prefix (comps path') (comps path) then (0, Some (root @ comps path'))
            else path_entry_get t root (Some path')) \<and>
         (\<exists>e. entry_at (root @ comps path) t' = Some e \<and> path_entry_was_added e)"
proof -
  have v: "entry_view t' = view_add (entry_view t) root path"
    using path_entry_add_refines_lemma [OF assms(1,2,3,5)] by simp
  have ex: "path_entry_exists t' (root @ q) \<longleftrightarrow>
      path_entry_exists t (root @ q) \<or> prefix q (comps path)" for q
    using view_add_dom [of "entry_view t" root path q] v assms(2)
    by (simp add: path_entry_exists_def flip: entry_view_None)
  have "path_entry_exists t' root" using ex [of "[]"] by simp
  moreover have "\<exists>e. entry_at (root @ comps path) t' = Some e \<and> path_entry_was_added e"
  proof -
    obtain e where e: "entry_at (root @ comps path) t' = Some e"
      using ex [of "comps path"] by (auto simp: path_entry_exists_def)
    then have "(view_add (entry_view t) root path) (root @ comps path) = Some (pe_flags e, pe_vars e)"
      using v by (simp add: entry_view_def flip: v)
    then obtain fl where "pe_flags e = fl OR FLAGS_IS_ADDED"
      by (auto simp: view_add_def Let_def dest: sym)
    then have "bit (pe_flags e AND FLAGS_IS_ADDED) 0"
      by (simp add: FLAGS_IS_ADDED_def bit_simps)
    then show ?thesis using e by (auto simp: path_entry_was_added_def)
  qed
  ultimately show ?thesis
    using path_entry_get_walks [of t root path'] path_entry_get_walks [of t' root path'] ex assms(2,4)
    by auto
qed

theorem path_entry_add_get_witness:
  "let (rc, r, t', m') = path_entry_add sample_tree [] [] (Some ''/etc//afm/x.json'')
   in path_entry_get t' [] (Some ''etc/afm/'') = (0, Some [''etc'', ''afm''])"
proof -
  obtain rc r t' m' where a:
    "path_entry_add sample_tree [] [] (Some ''/etc//afm/x.json'') = (rc, r, t', m')"
    by (metis prod_cases4)
  have c: "wf_entry sample_tree" "path_entry_exists sample_tree []"
    by (simp_all add: sample_tree_def comp_name_def path_entry_exists_def)
  then have "rc = 0"
    using path_entry_add_refines_lemma [OF _ _ _ a] by simp
  moreover have "comps ''/etc//afm/x.json'' = [''etc'', ''afm'', ''x.json'']"
    "comps ''etc/afm/'' = [''etc'', ''afm'']"
    by (simp_all add: comps_def)
  ultimately show ?thesis
    using path_entry_add_get [of sample_tree "[]" "''/etc//afm/x.json''" "''etc/afm/''" "[]" r t' m'] a c
    by simp
qed

section \<open>Moving the root and removing entries\<close>

lemma wf_children_root:
  "wf_entry t \<Longrightarrow> wf_entry (set_children (\<lambda>_. []) t)"
  "wf_entry t \<Longrightarrow> wf_entry e \<Longrightarrow> wf_entry (set_children (\<lambda>_. pe_children e) t)"
  by (cases t; cases e; simp)+

definition view_prepend :: "('k, 'v) view \<Rightarrow> string \<Rightarrow> ('k, 'v) view" where
  "view_prepend v path =
     (\<lambda>q. if strict_prefix (comps path) q then v (drop (length (comps path)) q)
          else (view_walk (comps path) (v |` {[]}) [] (leading_flags path)) q)"

lemma entry_view_no_children:
  "entry_view (set_children (\<lambda>_. []) t) = entry_view t |` {[]}"
proof
  fix q
  show "entry_view (set_children (\<lambda>_. []) t) q = (entry_view t |` {[]}) q"
    by (cases q) auto
qed

lemma entry_view_other_children:
  "q \<noteq> [] \<Longrightarrow> entry_view (set_children (\<lambda>_. pe_children t) e) q = entry_view t q"
  by (cases q) auto

lemma entry_view_prepended:
  assumes "entry_view t1 = view_walk (comps path) (entry_view t |` {[]}) [] (leading_flags path)"
    and "entry_at (comps path) t1 = Some e"
  shows "entry_view (upd_at (comps path) (set_children (\<lambda>_. pe_children t)) t1) =
           view_prepend (entry_view t) path"
proof
  fix q
  let ?t = "upd_at (comps path) (set_children (\<lambda>_. pe_children t)) t1"
  show "entry_view ?t q = view_prepend (entry_view t) path q"
  proof (cases "strict_prefix (comps path) q")
    case True
    then have "drop (length (comps path)) q \<noteq> []" "prefix (comps path) q"
      by (auto elim: strict_prefixE')
    then show ?thesis
      using True assms(2)
      by (simp add: entry_view_upd_at view_prepend_def entry_view_other_children)
  next
    case False
    moreover have "entry_view t1 (comps path) = Some (pe_flags e, pe_vars e)"
      using assms(2) by (simp add: entry_view_def)
    ultimately have "entry_view ?t q = entry_view t1 q"
      using assms(2) by (auto simp: entry_view_upd_at strict_prefix_def)
    then show ?thesis using False assms(1) by (simp add: view_prepend_def)
  qed
qed

text \<open>Prepending a path to the root moves the whole content of the tree under that path: what
  was at a position is now at that position under the path, with its flags and variables,
  and besides there are only the root and the entries of the path. When an allocation fails
  the tree is as before.\<close>

theorem path_entry_root_prepend_refines:
  assumes "wf_entry t" "length path < 2 ^ 32"
    and "path_entry_root_prepend t m [] path = (rc, r, t', m')"
  shows "wf_entry t' \<and>
         (rc = 0 \<and> r = Some (comps path) \<and> entry_view t' = view_prepend (entry_view t) path \<or>
          rc = - ENOMEM \<and> r = None \<and> m \<noteq> [] \<and> entry_view t' = entry_view t)"
proof -
  let ?t0 = "set_children (\<lambda>_. []) t"
  obtain q t1 m1 where q: "process get_child ?t0 m [] path (length path) = (q, t1, m1)"
    by (cases "process get_child ?t0 m [] path (length path)")
  have "path = take (length path) path" by simp
  note pr = process_get [OF q _ wf_children_root(1) [OF assms(1)] assms(2) this]
  note run = assms(3) [unfolded path_entry_root_prepend_def path_entry_root_prepend_length_def]
  show ?thesis
  proof (cases q)
    case None
    then have t': "rc = - ENOMEM \<and> r = None \<and> t' = set_children (\<lambda>_. pe_children t) t1"
      using run q by simp
    from pr None obtain k where
      "entry_view t1 = view_walk (take k (comps path)) (entry_view ?t0) [] (leading_flags path)"
      by auto
    moreover have "(entry_view ?t0) [] = Some (pe_flags t, pe_vars t)" by simp
    ultimately have "entry_view t1 [] = Some (pe_flags t, pe_vars t)"
      using view_walk_keep by metis
    then have "entry_view t' x = entry_view t x" for x
      using t' by (cases x) auto
    moreover have "wf_entry t'" using t' pr assms(1) by (simp add: wf_children_root)
    ultimately show ?thesis using t' pr None by (auto simp: fun_eq_iff)
  next
    case (Some x)
    with pr obtain e where e: "entry_at (comps path) t1 = Some e" and x: "x = comps path"
      by auto
    have "wf_entry (upd_at x (set_children (\<lambda>_. pe_children t)) t1)"
      using pr assms(1) by (intro wf_upd_at) (auto simp: wf_children_root)
    moreover have "entry_view (upd_at x (set_children (\<lambda>_. pe_children t)) t1) =
        view_prepend (entry_view t) path"
      using pr Some e unfolding x by (intro entry_view_prepended) (simp_all add: entry_view_no_children)
    ultimately show ?thesis using run q Some x by auto
  qed
qed

theorem path_entry_root_prepend_refines_witness:
  "let (rc, r, t', m') = path_entry_root_prepend sample_tree [] [] ''/opt''
   in rc = 0 \<and> r = Some [''opt''] \<and> entry_view t' = view_prepend (entry_view sample_tree) ''/opt''"
proof -
  obtain rc r t' m' where a: "path_entry_root_prepend sample_tree [] [] ''/opt'' = (rc, r, t', m')"
    by (metis prod_cases4)
  have "wf_entry sample_tree" by (simp add: sample_tree_def comp_name_def)
  moreover have "comps ''/opt'' = [''opt'']" by (simp add: comps_def)
  ultimately show ?thesis
    using path_entry_root_prepend_refines [OF _ _ a] a by (simp add: Let_def)
qed

lemma set_remove_child: "set (remove_child n cs) \<subseteq> set cs"
  by (induction cs) auto

lemma distinct_remove_child:
  "distinct (map pe_name cs) \<Longrightarrow> distinct (map pe_name (remove_child n cs))"
proof (induction cs)
  case (Cons c cs)
  then show ?case using set_remove_child [of n cs] by auto
qed simp

lemma wf_remove_child: "wf_entry e \<Longrightarrow> wf_entry (set_children (remove_child n) e)"
  using set_remove_child [of n "pe_children e"] by (cases e) (auto simp: distinct_remove_child)

text \<open>Destroying an entry that is not the root removes exactly its position and those below
  it; all the other entries keep their flags and variables and the invariant is kept.\<close>

theorem path_entry_destroy_removes:
  assumes "wf_entry t" "path_entry_exists t p" "p \<noteq> []"
  shows "\<exists>t'. path_entry_destroy t p = Some t' \<and> wf_entry t' \<and>
           (\<forall>q. entry_view t' q = (if prefix p q then None else entry_view t q))"
proof -
  obtain d n where p: "p = d @ [n]" using assms(3) by (metis rev_exhaust)
  obtain e where e: "entry_at d t = Some e"
    using assms(2) p by (auto simp: path_entry_exists_def entry_at_append split: option.splits)
  let ?t = "upd_at d (set_children (remove_child n)) t"
  have dist: "distinct (map pe_name (pe_children e))"
    using wf_entryD(1) wf_entry_at [OF assms(1) e] by blast
  have "entry_view ?t q = (if prefix p q then None else entry_view t q)" for q
  proof (cases "prefix d q")
    case True
    then obtain r where q: "q = d @ r" by (auto simp: prefix_def)
    have "entry_view (set_children (remove_child n) e) r =
            (if prefix [n] r then None else entry_view e r)"
      using dist by (cases r) (auto simp: find_child_remove)
    then show ?thesis
      using e q p by (simp add: entry_view_upd_at entry_view_append)
  next
    case False
    moreover from this have "\<not> prefix p q" using p by (auto simp: prefix_def)
    ultimately show ?thesis using e by (simp add: entry_view_upd_at)
  qed
  moreover have "wf_entry ?t"
    using assms(1) by (intro wf_upd_at) (auto simp: wf_remove_child)
  ultimately show ?thesis
    using assms(3) p by (auto simp: path_entry_destroy_def)
qed

theorem path_entry_destroy_removes_witness:
  "\<exists>t'. path_entry_destroy sample_tree [''etc''] = Some t' \<and>
        entry_view t' [''etc'', ''afm''] = None \<and> entry_view t' [] = Some (0, [])"
proof -
  have "wf_entry sample_tree" "path_entry_exists sample_tree [''etc'']"
    by (simp_all add: sample_tree_def comp_name_def path_entry_exists_def)
  from path_entry_destroy_removes [OF this]
  obtain t' where "path_entry_destroy sample_tree [''etc''] = Some t'"
    and v: "\<forall>q. entry_view t' q = (if prefix [''etc''] q then None else entry_view sample_tree q)"
    by auto
  moreover have "entry_view t' [''etc'', ''afm''] = None" "entry_view t' [] = Some (0, [])"
    by (simp_all only: v) (simp_all add: sample_tree_def)
  ultimately show ?thesis by blast
qed

end
