(* ===== verification/PathWalk.thy ===== *)
theory PathWalk
  imports PathEntry
begin

text \<open>
  The rest of \<^verbatim>\<open>src/src/utils/path-entry.c\<close>: paths of entries, iteration over the entries,
  variables attached to entries, filling of a tree from a text file.
\<close>

section \<open>Flags\<close>

definition PATH_ENTRY_NO_LEADING_SLASH :: "32 word" where "PATH_ENTRY_NO_LEADING_SLASH = 1"
definition PATH_ENTRY_FORCE_LEADING_SLASH :: "32 word" where "PATH_ENTRY_FORCE_LEADING_SLASH = 2"
definition PATH_ENTRY_FORALL_ONLY_ADDED :: "32 word" where "PATH_ENTRY_FORALL_ONLY_ADDED = 4"
definition PATH_ENTRY_FORALL_NO_PATH :: "32 word" where "PATH_ENTRY_FORALL_NO_PATH = 8"
definition PATH_ENTRY_FORALL_BEFORE :: "32 word" where "PATH_ENTRY_FORALL_BEFORE = 16"
definition PATH_ENTRY_FORALL_AFTER :: "32 word" where "PATH_ENTRY_FORALL_AFTER = 32"
definition PATH_ENTRY_FORALL_ABSOLUTE :: "32 word" where "PATH_ENTRY_FORALL_ABSOLUTE = 64"
definition PATH_ENTRY_FORALL_SILENT_ROOT :: "32 word" where "PATH_ENTRY_FORALL_SILENT_ROOT = 128"

lemmas path_flag_defs =
  PATH_ENTRY_NO_LEADING_SLASH_def PATH_ENTRY_FORCE_LEADING_SLASH_def
  PATH_ENTRY_FORALL_ONLY_ADDED_def PATH_ENTRY_FORALL_NO_PATH_def PATH_ENTRY_FORALL_BEFORE_def
  PATH_ENTRY_FORALL_AFTER_def PATH_ENTRY_FORALL_ABSOLUTE_def PATH_ENTRY_FORALL_SILENT_ROOT_def

definition has_flag :: "32 word \<Rightarrow> 32 word \<Rightarrow> bool" where
  "has_flag flags f \<longleftrightarrow> flags AND f \<noteq> 0"

section \<open>Paths of entries\<close>

text \<open>
  A buffer is the list of its bytes, its length is the size that the code is given. A null
  pointer is \<open>None\<close>; a result \<open>None\<close> tells that the code dereferences a null pointer or
  writes outside of the buffer.
\<close>

abbreviation NUL :: char where "NUL \<equiv> CHR 0x00"

definition name_at :: "('k, 'v) path_entry \<Rightarrow> pos \<Rightarrow> string" where
  "name_at t p = (case entry_at p t of None \<Rightarrow> [] | Some e \<Rightarrow> pe_name e)"

definition flags_at :: "('k, 'v) path_entry \<Rightarrow> pos \<Rightarrow> 8 word" where
  "flags_at t p = (case entry_at p t of None \<Rightarrow> 0 | Some e \<Rightarrow> pe_flags e)"

definition buf_write :: "string \<Rightarrow> nat \<Rightarrow> string \<Rightarrow> string" where
  "buf_write buf off bytes = take off buf @ bytes @ drop (off + length bytes) buf"

text \<open>The end of \<open>path_entry_relpath\<close>: the slash and the name, as far as there is room.\<close>

definition relpath_write :: "string \<Rightarrow> nat \<Rightarrow> bool \<Rightarrow> string \<Rightarrow> string" where
  "relpath_write buf offset sl nm =
     (let result = offset + length nm + (if sl then 1 else 0);
          buf1 = (if sl \<and> offset < length buf then buf[offset := slash] else buf);
          offset1 = (if sl \<and> offset < length buf then offset + 1 else offset)
      in if offset1 < length buf1 then
           (if result < length buf1 then buf_write buf1 offset1 (nm @ [NUL])
            else buf_write buf1 offset1 (take (length buf1 - offset1) nm))
         else buf1)"

text \<open>The loop over the parents without name.\<close>

function skip_unnamed :: "('k, 'v) path_entry \<Rightarrow> pos option \<Rightarrow> pos option \<Rightarrow> pos option" where
  "skip_unnamed t root parent =
     (case parent of
        None \<Rightarrow> None
      | Some p \<Rightarrow>
          if parent \<noteq> root \<and> name_at t p = [] then skip_unnamed t root (path_entry_parent p)
          else parent)"
  by pat_completeness auto
termination
  by (relation "measure (\<lambda>(t, root, parent). case parent of None \<Rightarrow> 0 | Some p \<Rightarrow> Suc (length p))")
     (auto simp: path_entry_parent_def)

declare skip_unnamed.simps [simp del]

function path_entry_relpath ::
  "('k, 'v) path_entry \<Rightarrow> pos option \<Rightarrow> string \<Rightarrow> pos option \<Rightarrow> 32 word \<Rightarrow> (nat \<times> string) option" where
  "path_entry_relpath t entry buffer root flags =
     (if entry = None \<or> entry = root then
        (if \<not> has_flag flags PATH_ENTRY_FORCE_LEADING_SLASH then Some (0, buffer)
         else case entry of
                None \<Rightarrow> None
              | Some p \<Rightarrow>
                  if length (name_at t p) > 0 then
                    (if buffer = [] then None else Some (1, buffer[0 := slash]))
                  else Some (1, buffer))
      else let p = the entry; nm = name_at t p in
        if length nm = 0 then path_entry_relpath t (path_entry_parent p) buffer root flags
        else
          let parent = skip_unnamed t root (path_entry_parent p);
              top = (parent = None \<or> parent = root);
              sl = (if top then has_flag flags PATH_ENTRY_FORCE_LEADING_SLASH \<or>
                      (\<not> has_flag flags PATH_ENTRY_NO_LEADING_SLASH \<and>
                       flags_at t p AND FLAGS_HAS_SLASH \<noteq> 0)
                    else True)
          in case (if top then Some (0, buffer)
                   else path_entry_relpath t (path_entry_parent p) buffer root flags) of
               None \<Rightarrow> None
             | Some (offset, buf) \<Rightarrow>
                 Some (offset + length nm + (if sl then 1 else 0), relpath_write buf offset sl nm))"
  by pat_completeness auto
termination
  by (relation "measure (\<lambda>(t, entry, b, root, fl). case entry of None \<Rightarrow> 0 | Some p \<Rightarrow> Suc (length p))")
     (auto simp: path_entry_parent_def)

declare path_entry_relpath.simps [simp del]

definition path_entry_path ::
  "('k, 'v) path_entry \<Rightarrow> pos option \<Rightarrow> string \<Rightarrow> 32 word \<Rightarrow> (nat \<times> string) option" where
  "path_entry_path t entry buffer flags = path_entry_relpath t entry buffer None flags"

definition path_entry_get_relpath ::
  "('k, 'v) path_entry \<Rightarrow> pos option \<Rightarrow> string \<Rightarrow> pos option \<Rightarrow> (nat \<times> string) option" where
  "path_entry_get_relpath t entry buffer root = path_entry_relpath t entry buffer root 0"

definition path_entry_get_path ::
  "('k, 'v) path_entry \<Rightarrow> pos option \<Rightarrow> string \<Rightarrow> (nat \<times> string) option" where
  "path_entry_get_path t entry buffer = path_entry_relpath t entry buffer None 0"

section \<open>Iteration\<close>

text \<open>
  The callback gets the state of its closure, the position of the entry and the content of
  the buffer up to the length it is told; the callbacks of the program do not change the
  shape of the tree, so the walk is over the tree as it was. \<open>path\<close> is the content of
  the buffer up to \<open>fe->length\<close>.
\<close>

type_synonym 's foreach_cb = "'s \<Rightarrow> pos \<Rightarrow> string \<Rightarrow> int \<times> 's"

fun do_foreach ::
    "'s foreach_cb \<Rightarrow> nat \<Rightarrow> 32 word \<Rightarrow> string \<Rightarrow> pos \<Rightarrow> ('k, 'v) path_entry \<Rightarrow> 's \<Rightarrow> int \<times> 's"
  and do_children ::
    "'s foreach_cb \<Rightarrow> nat \<Rightarrow> 32 word \<Rightarrow> string \<Rightarrow> pos \<Rightarrow> ('k, 'v) path_entry list \<Rightarrow> 's \<Rightarrow> int \<times> 's"
  where
  "do_foreach fn sz flags path pos (Entry nm fl vs cs) s =
     (let silent = has_flag flags PATH_ENTRY_FORALL_SILENT_ROOT;
          nopath = has_flag flags PATH_ENTRY_FORALL_NO_PATH;
          writes = (\<not> silent \<and> length nm > 0 \<and> \<not> nopath)
      in if writes \<and> length path + length nm + 2 > sz then (- ENAMETOOLONG, s)
         else
           let flags' = (if silent then flags XOR PATH_ENTRY_FORALL_SILENT_ROOT else flags);
               path' = (if \<not> writes then path
                        else path @ (if length path > 0 \<or> fl AND FLAGS_HAS_SLASH \<noteq> 0
                                     then [slash] else []) @ nm);
               emit = (\<not> silent \<and>
                       (\<not> has_flag flags PATH_ENTRY_FORALL_ONLY_ADDED \<or> fl AND FLAGS_IS_ADDED \<noteq> 0));
               (rc, s1) = (if emit \<and> has_flag flags' PATH_ENTRY_FORALL_BEFORE
                           then fn s pos path' else (0, s));
               (rc, s2) = (if rc = 0 then do_children fn sz flags' path' pos cs s1 else (rc, s1))
           in if emit \<and> rc = 0 \<and> has_flag flags' PATH_ENTRY_FORALL_AFTER
              then fn s2 pos path' else (rc, s2))"
| "do_children fn sz flags path pos [] s = (0, s)"
| "do_children fn sz flags path pos (c # cs) s =
     (let (rc, s1) = do_foreach fn sz flags path (pos @ [pe_name c]) c s
      in if rc = 0 then do_children fn sz flags path pos cs s1 else (rc, s1))"

text \<open>
  \<open>path_entry_for_each_in_buffer\<close>: with a path and the flag \<open>ABSOLUTE\<close>, the buffer first
  receives the path of the root of the iteration.
\<close>

definition path_entry_for_each_in_buffer ::
  "32 word \<Rightarrow> ('k, 'v) path_entry \<Rightarrow> pos option \<Rightarrow> 's foreach_cb \<Rightarrow> string \<Rightarrow> 's \<Rightarrow> (int \<times> 's) option" where
  "path_entry_for_each_in_buffer flags0 t root fn buffer s =
     (let flags = (if flags0 AND (PATH_ENTRY_FORALL_BEFORE OR PATH_ENTRY_FORALL_AFTER) = 0
                   then flags0 OR PATH_ENTRY_FORALL_AFTER else flags0)
      in case (if flags AND (PATH_ENTRY_FORALL_ABSOLUTE OR PATH_ENTRY_FORALL_NO_PATH) \<noteq>
                    PATH_ENTRY_FORALL_ABSOLUTE
               then Some (0, buffer) else path_entry_get_path t root buffer) of
           None \<Rightarrow> None
         | Some (len, buf) \<Rightarrow>
             (case root of
                None \<Rightarrow> Some (0, s)
              | Some p \<Rightarrow>
                  (case entry_at p t of
                     None \<Rightarrow> None
                   | Some e \<Rightarrow> Some (do_foreach fn (length buf) flags (take len buf) p e s))))"

definition PATH_MAX :: nat where "PATH_MAX = 4096"

definition for_each_scratch ::
  "32 word \<Rightarrow> ('k, 'v) path_entry \<Rightarrow> pos option \<Rightarrow> 's foreach_cb \<Rightarrow> 's \<Rightarrow> (int \<times> 's) option" where
  "for_each_scratch flags t root fn s =
     path_entry_for_each_in_buffer flags t root fn (replicate PATH_MAX NUL) s"

definition path_entry_for_each ::
  "32 word \<Rightarrow> ('k, 'v) path_entry \<Rightarrow> pos option \<Rightarrow> 's foreach_cb \<Rightarrow> 's \<Rightarrow> (int \<times> 's) option" where
  "path_entry_for_each flags t root fn s =
     (if has_flag flags PATH_ENTRY_FORALL_NO_PATH
      then path_entry_for_each_in_buffer flags t root fn [] s
      else for_each_scratch flags t root fn s)"

section \<open>Variables\<close>

text \<open>
  The operations on the variables of one entry; a value whose dispose function is called
  is returned in the list of the disposed values. \<open>path_entry_var_at\<close> with an index out of
  range dereferences a null pointer when the key is wanted.
\<close>

fun search_var :: "('k, 'v) var list \<Rightarrow> 'k \<Rightarrow> ('k, 'v) var option" where
  "search_var [] k = None"
| "search_var (v # vs) k = (if fst v = k then Some v else search_var vs k)"

definition varval :: "('k, 'v) var option \<Rightarrow> 'v option" where
  "varval v = map_option (\<lambda>(k, x, d). x) v"

definition path_entry_var_exists :: "('k, 'v) path_entry \<Rightarrow> 'k \<Rightarrow> bool" where
  "path_entry_var_exists e k \<longleftrightarrow> search_var (pe_vars e) k \<noteq> None"

definition path_entry_var :: "('k, 'v) path_entry \<Rightarrow> 'k \<Rightarrow> 'v option" where
  "path_entry_var e k = varval (search_var (pe_vars e) k)"

fun update_var :: "('k, 'v) var list \<Rightarrow> 'k \<Rightarrow> 'v \<Rightarrow> bool \<Rightarrow> ('k, 'v) var list" where
  "update_var [] k x d = []"
| "update_var (v # vs) k x d = (if fst v = k then (k, x, d) # vs else v # update_var vs k x d)"

definition path_entry_var_set ::
  "('k, 'v) path_entry \<Rightarrow> mem \<Rightarrow> 'k \<Rightarrow> 'v \<Rightarrow> bool \<Rightarrow> int \<times> ('k, 'v) path_entry \<times> 'v list \<times> mem" where
  "path_entry_var_set e m k x d =
     (case search_var (pe_vars e) k of
        None \<Rightarrow>
          (let (ok, m') = c_alloc m
           in if \<not> ok then (- ENOMEM, e, [], m')
              else (0, set_vars (\<lambda>vs. (k, x, d) # vs) e, [], m'))
      | Some (_, old, disp) \<Rightarrow>
          (0, set_vars (\<lambda>vs. update_var vs k x d) e, if disp then [old] else [], m))"

fun delete_var :: "('k, 'v) var list \<Rightarrow> 'k \<Rightarrow> ('k, 'v) var list \<times> 'v list" where
  "delete_var [] k = ([], [])"
| "delete_var (v # vs) k =
     (if fst v = k then (vs, if snd (snd v) then [fst (snd v)] else [])
      else let (vs', ds) = delete_var vs k in (v # vs', ds))"

definition path_entry_var_del ::
  "('k, 'v) path_entry \<Rightarrow> 'k \<Rightarrow> ('k, 'v) path_entry \<times> 'v list" where
  "path_entry_var_del e k =
     (set_vars (\<lambda>vs. fst (delete_var vs k)) e, snd (delete_var (pe_vars e) k))"

definition path_entry_var_count :: "('k, 'v) path_entry \<Rightarrow> nat" where
  "path_entry_var_count e = to_unsigned (length (pe_vars e))"

definition path_entry_var_at ::
  "('k, 'v) path_entry \<Rightarrow> nat \<Rightarrow> bool \<Rightarrow> ('v option \<times> 'k option) option" where
  "path_entry_var_at e index want_key =
     (if index < length (pe_vars e)
      then Some (varval (Some (pe_vars e ! index)), if want_key then Some (fst (pe_vars e ! index)) else None)
      else if want_key then None else Some (None, None))"

section \<open>Filling from a file\<close>

text \<open>
  \<open>fgets\<close> returns the text up to and with the next newline, or \<open>PATH_MAX - 1\<close> characters
  when the line is longer. The file is the text still to be read and the status that
  \<open>ferror\<close> and \<open>errno\<close> give at its end. A line is handled as the C string that it is, the
  characters before its first NUL.
\<close>

definition fgets_line :: "string \<Rightarrow> string" where
  "fgets_line inp =
     take (PATH_MAX - 1) (takeWhile (\<lambda>c. c \<noteq> CHR 0x0A) inp @
       (if CHR 0x0A \<in> set inp then [CHR 0x0A] else []))"

definition strip_right :: "string \<Rightarrow> string" where
  "strip_right s = rev (dropWhile c_isspace (rev s))"

text \<open>A path is the C string at its first character and the length to use of it.\<close>

datatype file_line = Line_stop | Line_skip | Line_path string nat

definition read_line :: "string \<Rightarrow> file_line" where
  "read_line line =
     (let str = takeWhile (\<lambda>c. c \<noteq> NUL) line; path = strip_right str
      in if path \<noteq> [] \<and> hd path = CHR ''#''
         then (if path = ''#STOP#'' then Line_stop else Line_skip)
         else if dropWhile c_isspace path \<noteq> []
         then Line_path (dropWhile c_isspace str) (length (dropWhile c_isspace path))
         else Line_skip)"

lemma fgets_line_ne: "inp \<noteq> [] \<Longrightarrow> fgets_line inp \<noteq> []"
  by (cases inp) (auto simp: fgets_line_def PATH_MAX_def)

lemma drop_fgets_shorter: "inp \<noteq> [] \<Longrightarrow> length (drop (length (fgets_line inp)) inp) < length inp"
  using fgets_line_ne [of "inp"] by simp

function path_entry_add_from_file ::
  "('k, 'v) path_entry \<Rightarrow> mem \<Rightarrow> pos \<Rightarrow> string \<Rightarrow> int \<Rightarrow> int \<times> ('k, 'v) path_entry \<times> mem" where
  "path_entry_add_from_file t m root inp err =
     (if inp = [] then (- err, t, m)
      else let line = fgets_line inp; inp' = drop (length line) inp
           in case read_line line of
                Line_stop \<Rightarrow> (0, t, m)
              | Line_skip \<Rightarrow> path_entry_add_from_file t m root inp' err
              | Line_path path len \<Rightarrow>
                  (let (rc, _, t', m') = path_entry_add_length t m root path len
                   in if rc = 0 then path_entry_add_from_file t' m' root inp' err else (rc, t', m')))"
  by pat_completeness auto
termination
  by (relation "measure (\<lambda>(t, m, root, inp, err). length inp)")
     (simp_all add: drop_fgets_shorter del: length_drop)

declare path_entry_add_from_file.simps [simp del]

section \<open>Paths: lemmas\<close>

text \<open>What a string looks like in a buffer of a given size: cut when it does not fit.\<close>

definition fill :: "string \<Rightarrow> string \<Rightarrow> string" where
  "fill buf s = (if length s < length buf then s @ NUL # drop (Suc (length s)) buf
                 else take (length buf) s)"

lemma length_fill [simp]: "length (fill buf s) = length buf"
  by (auto simp: fill_def)

lemma relpath_write_fill:
  assumes "length buf = length B" "take (length S) buf = take (length B) S"
    and "drop (Suc (length S)) buf = drop (Suc (length S)) B" "nm \<noteq> []"
  shows "relpath_write buf (length S) sl nm = fill B (S @ (if sl then [slash] else []) @ nm)"
proof (cases "length S < length B")
  case False
  then show ?thesis using assms by (auto simp: relpath_write_def fill_def)
next
  case True
  then have buf: "buf = S @ buf ! length S # drop (Suc (length S)) B"
    using assms by (metis id_take_nth_drop order.strict_implies_order take_all_iff)
  obtain c where c: "buf = S @ c # drop (Suc (length S)) B" using buf by blast
  define X where "X = drop (Suc (length S)) B"
  have B: "length B = Suc (length S + length X)" using True by (simp add: X_def)
  have fX: "drop (Suc (length S + length ys)) B = drop (length ys) X" for ys :: string
    by (simp add: X_def add.commute)
  show ?thesis
  proof (cases sl)
    case True
    then show ?thesis
      using c assms(4) fX [of nm] fX [of "slash # nm"]
      by (auto simp: relpath_write_def fill_def buf_write_def B Let_def X_def [symmetric]
          take_Cons' drop_Cons')
  next
    case False
    then show ?thesis
      using c assms(4) fX [of nm]
      by (auto simp: relpath_write_def fill_def buf_write_def B Let_def X_def [symmetric]
          take_Cons' drop_Cons')
  qed
qed

lemma fill_prefix:
  "take (length S) (fill B S) = take (length B) S"
  "drop (Suc (length S)) (fill B S) = drop (Suc (length S)) B"
  by (auto simp: fill_def)

lemma name_at_last:
  assumes "entry_at p t = Some e" "p \<noteq> []"
  shows "pe_name e = last p"
proof -
  obtain d n where "p = d @ [n]" using assms(2) by (metis rev_exhaust)
  then show ?thesis
    using assms(1) by (auto simp: entry_at_append split: option.splits dest: find_child_Some)
qed

lemma name_at_exists: "path_entry_exists t p \<Longrightarrow> p \<noteq> [] \<Longrightarrow> name_at t p = last p"
  using name_at_last by (fastforce simp: name_at_def path_entry_exists_def)

lemma comp_name_at:
  assumes "wf_entry t" "path_entry_exists t p" "n \<in> set p"
  shows "comp_name n"
  using assms
proof (induction p arbitrary: t)
  case (Cons k ks)
  then obtain c where c: "find_child k (pe_children t) = Some c" "path_entry_exists c ks"
    by (auto simp: path_entry_exists_def split: option.splits)
  then have "c \<in> set (pe_children t)" "pe_name c = k" using find_child_Some by auto
  then have "wf_entry c" "comp_name k" using Cons.prems(1) by (cases t; auto)+
  then show ?case using Cons c by auto
qed simp

lemma path_entry_exists_prefix:
  "path_entry_exists t (p @ q) \<Longrightarrow> path_entry_exists t p"
  by (auto simp: path_entry_exists_def entry_at_append split: option.splits)

text \<open>
  The path of an entry at \<open>q\<close> below \<open>r\<close>: the names between slashes; whether it begins with
  a slash depends on the flags and on how the first component was added.
\<close>

definition leads :: "('k, 'v) path_entry \<Rightarrow> pos \<Rightarrow> 32 word \<Rightarrow> bool" where
  "leads t p flags \<longleftrightarrow> has_flag flags PATH_ENTRY_FORCE_LEADING_SLASH \<or>
     (\<not> has_flag flags PATH_ENTRY_NO_LEADING_SLASH \<and> flags_at t p AND FLAGS_HAS_SLASH \<noteq> 0)"

definition slashed :: "string list \<Rightarrow> string" where
  "slashed q = concat (map (\<lambda>n. slash # n) q)"

definition rel_string :: "('k, 'v) path_entry \<Rightarrow> pos \<Rightarrow> pos \<Rightarrow> 32 word \<Rightarrow> string" where
  "rel_string t r q flags =
     (if q = [] then [] else if leads t (r @ [hd q]) flags then slashed q else tl (slashed q))"

lemma rel_string_snoc:
  "q \<noteq> [] \<Longrightarrow> rel_string t r (q @ [n]) flags = rel_string t r q flags @ slash # n"
  by (cases q) (auto simp: rel_string_def slashed_def)

lemma skip_unnamed_named:
  "Some p = root \<or> name_at t p \<noteq> [] \<Longrightarrow> skip_unnamed t root (Some p) = Some p"
  by (auto simp: skip_unnamed.simps)

lemma path_entry_relpath_string:
  assumes "wf_entry t" "pe_name t = []" "path_entry_exists t (r @ q)" "q \<noteq> []"
    and "root = Some r \<or> root = None \<and> r = []"
  shows "path_entry_relpath t (Some (r @ q)) buf root flags =
           Some (length (rel_string t r q flags), fill buf (rel_string t r q flags))"
  using assms(3,4)
proof (induction q rule: rev_induct)
  case (snoc n q)
  have n: "name_at t (r @ q @ [n]) = n" "n \<noteq> []"
    using name_at_exists [OF snoc.prems(1)] comp_name_at [OF assms(1) snoc.prems(1), of n]
    by (auto simp: comp_name_def)
  have par: "path_entry_parent (r @ q @ [n]) = Some (r @ q)"
    by (simp add: path_entry_parent_def butlast_append)
  have neq: "root \<noteq> Some (r @ q @ [n])" using assms(5) by auto
  show ?case
  proof (cases "q = []")
    case True
    have "skip_unnamed t root (Some r) = root"
      using assms(2,5)
      by (auto simp: skip_unnamed_named)
        (simp add: skip_unnamed.simps name_at_def path_entry_parent_def)
    then show ?thesis
      using True n par neq relpath_write_fill [of buf buf "[]" n "leads t (r @ [n]) flags"]
      by (subst path_entry_relpath.simps)
        (auto simp: Let_def rel_string_def slashed_def leads_def)
  next
    case False
    have ex: "path_entry_exists t (r @ q)"
      using snoc.prems(1) path_entry_exists_prefix [of t "r @ q" "[n]"] by simp
    then have "name_at t (r @ q) \<noteq> []"
      using False comp_name_at [OF assms(1) ex, of "last q"] name_at_exists [OF ex]
      by (auto simp: comp_name_def)
    then have sk: "skip_unnamed t root (Some (r @ q)) = Some (r @ q)"
      by (simp add: skip_unnamed_named)
    have "Some (r @ q) \<noteq> root" using False assms(5) by auto
    then show ?thesis
      using n par neq sk snoc.IH [OF ex False] False
        relpath_write_fill [of "fill buf (rel_string t r q flags)" buf "rel_string t r q flags" n True]
      by (subst path_entry_relpath.simps)
        (auto simp: Let_def rel_string_snoc fill_prefix)
  qed
qed simp

text \<open>The path of an entry relatively to one of its ancestors, or to the root of the tree, is
  made of the names of the entries between them separated by single slashes; the function
  returns the length of that path whatever the size of the buffer, writes no more than the
  buffer holds, and the buffer holds the path and its final NUL exactly when its size
  exceeds the length returned.\<close>

theorem path_entry_relpath_correct:
  assumes "wf_entry t" "pe_name t = []" "path_entry_exists t (r @ q)" "q \<noteq> []"
    and "root = Some r \<or> root = None \<and> r = []"
  shows "path_entry_relpath t (Some (r @ q)) buf root flags =
           Some (length (rel_string t r q flags),
                 if length (rel_string t r q flags) < length buf
                 then rel_string t r q flags @ NUL # drop (Suc (length (rel_string t r q flags))) buf
                 else take (length buf) (rel_string t r q flags))"
  using path_entry_relpath_string [OF assms] by (simp add: fill_def)

definition sample_files :: "(nat, string) path_entry" where
  "sample_files =
     Entry [] 0 []
       [Entry ''etc'' FLAGS_HAS_SLASH []
          [Entry ''afm'' (FLAGS_HAS_SLASH OR FLAGS_IS_ADDED) [] []],
        Entry ''run'' (FLAGS_HAS_SLASH OR FLAGS_IS_ADDED) [] []]"

lemma sample_files_ok: "wf_entry sample_files" "pe_name sample_files = []"
  by (simp_all add: sample_files_def comp_name_def)

theorem path_entry_relpath_correct_witness:
  "path_entry_relpath sample_files (Some [''etc'', ''afm'']) ''abcdefghijk'' None 0 =
     Some (8, ''/etc/afm'' @ NUL # ''jk'')"
proof -
  have "path_entry_exists sample_files ([] @ [''etc'', ''afm''])"
    by (simp add: sample_files_def path_entry_exists_def)
  moreover have "rel_string sample_files [] [''etc'', ''afm''] 0 = ''/etc/afm''"
    by (simp add: rel_string_def slashed_def leads_def has_flag_def flags_at_def sample_files_def
        FLAGS_HAS_SLASH_def)
  ultimately show ?thesis
    using path_entry_relpath_correct [OF sample_files_ok, of "[]" "[''etc'', ''afm'']" None "''abcdefghijk''" 0]
    by simp
qed

section \<open>Iteration: lemmas\<close>

text \<open>
  The calls an iteration makes, in order, for an iteration that neither hides its root nor
  omits the paths: the entry itself before or after (or both) what is below it.
\<close>

definition child_path :: "string \<Rightarrow> ('k, 'v) path_entry \<Rightarrow> string" where
  "child_path path e =
     (if pe_name e = [] then path
      else path @ (if path \<noteq> [] \<or> pe_flags e AND FLAGS_HAS_SLASH \<noteq> 0 then [slash] else []) @ pe_name e)"

fun visits :: "32 word \<Rightarrow> string \<Rightarrow> pos \<Rightarrow> ('k, 'v) path_entry \<Rightarrow> (pos \<times> string) list" where
  "visits flags path pos (Entry nm fl vs cs) =
     (let path' = child_path path (Entry nm fl vs cs);
          here = (if \<not> has_flag flags PATH_ENTRY_FORALL_ONLY_ADDED \<or> fl AND FLAGS_IS_ADDED \<noteq> 0
                  then [(pos, path')] else [])
      in (if has_flag flags PATH_ENTRY_FORALL_BEFORE then here else []) @
         concat (map (\<lambda>c. visits flags path' (pos @ [pe_name c]) c) cs) @
         (if has_flag flags PATH_ENTRY_FORALL_AFTER then here else []))"

text \<open>Every path of the tree fits in the buffer.\<close>

fun fits :: "nat \<Rightarrow> string \<Rightarrow> ('k, 'v) path_entry \<Rightarrow> bool" where
  "fits sz path (Entry nm fl vs cs) \<longleftrightarrow>
     (nm \<noteq> [] \<longrightarrow> length path + length nm + 2 \<le> sz) \<and>
     (\<forall>c \<in> set cs. fits sz (child_path path (Entry nm fl vs cs)) c)"

lemma do_children_visits:
  assumes "\<And>c pos s. c \<in> set cs \<Longrightarrow>
      do_foreach fn sz flags path pos c s =
        fold_nonzero (\<lambda>s (p, x). fn s p x) (visits flags path pos c) s"
  shows "do_children fn sz flags path pos cs s =
           fold_nonzero (\<lambda>s (p, x). fn s p x)
             (concat (map (\<lambda>c. visits flags path (pos @ [pe_name c]) c) cs)) s"
  using assms
  by (induction cs arbitrary: s) (simp_all add: fold_nonzero_append split: prod.split)

lemma do_foreach_visits:
  assumes "\<not> has_flag flags PATH_ENTRY_FORALL_SILENT_ROOT" "\<not> has_flag flags PATH_ENTRY_FORALL_NO_PATH"
    and "fits sz path e"
  shows "do_foreach fn sz flags path pos e s =
           fold_nonzero (\<lambda>s (p, x). fn s p x) (visits flags path pos e) s"
  using assms(3)
proof (induction e arbitrary: path pos s)
  case (Entry nm fl vs cs)
  let ?path = "child_path path (Entry nm fl vs cs)"
  have ch: "do_children fn sz flags ?path pos cs s =
           fold_nonzero (\<lambda>s (p, x). fn s p x)
             (concat (map (\<lambda>c. visits flags ?path (pos @ [pe_name c]) c) cs)) s" for s
    using Entry by (intro do_children_visits) simp
  have fit: "\<not> (nm \<noteq> [] \<and> length path + length nm + 2 > sz)" using Entry.prems by auto
  have path: "(if nm = [] then path
      else path @ (if path \<noteq> [] \<or> fl AND FLAGS_HAS_SLASH \<noteq> 0 then [slash] else []) @ nm) = ?path"
    by (simp add: child_path_def)
  show ?case
    using assms(1,2) fit
    by (simp only: do_foreach.simps Let_def simp_thms if_False if_True length_greater_0_conv
         not_not path ch visits.simps)
       (cases "has_flag flags PATH_ENTRY_FORALL_BEFORE"; cases "has_flag flags PATH_ENTRY_FORALL_AFTER";
        cases "has_flag flags PATH_ENTRY_FORALL_ONLY_ADDED"; cases "fl AND FLAGS_IS_ADDED = 0";
        simp add: fold_nonzero_append split: prod.split)
qed

lemma find_child_distinct:
  "distinct (map pe_name cs) \<Longrightarrow> c \<in> set cs \<Longrightarrow> find_child (pe_name c) cs = Some c"
  by (induction cs) auto

text \<open>The path that the iteration builds on its way to a position.\<close>

fun walk_path :: "string \<Rightarrow> ('k, 'v) path_entry \<Rightarrow> pos \<Rightarrow> string" where
  "walk_path path e [] = child_path path e"
| "walk_path path e (n # q) =
     (case find_child n (pe_children e) of
        None \<Rightarrow> [] | Some c \<Rightarrow> walk_path (child_path path e) c q)"

definition selected :: "32 word \<Rightarrow> ('k, 'v) path_entry \<Rightarrow> bool" where
  "selected flags e \<longleftrightarrow> \<not> has_flag flags PATH_ENTRY_FORALL_ONLY_ADDED \<or> path_entry_was_added e"

definition only_after :: "32 word \<Rightarrow> bool" where
  "only_after flags \<longleftrightarrow> \<not> has_flag flags PATH_ENTRY_FORALL_BEFORE \<and> has_flag flags PATH_ENTRY_FORALL_AFTER"

lemma visits_after:
  "only_after flags \<Longrightarrow>
   visits flags path pos e =
     concat (map (\<lambda>c. visits flags (child_path path e) (pos @ [pe_name c]) c) (pe_children e)) @
     (if selected flags e then [(pos, child_path path e)] else [])"
  by (cases e) (auto simp: only_after_def selected_def path_entry_was_added_def Let_def)

lemma wf_entry_ind [consumes 1, case_names node]:
  assumes "wf_entry e"
    and "\<And>e. wf_entry e \<Longrightarrow> (\<And>c. c \<in> set (pe_children e) \<Longrightarrow> P c) \<Longrightarrow> P e"
  shows "P e"
  using assms(1)
proof (induction e)
  case (Entry nm fl vs cs)
  show ?case
  proof (rule assms(2) [OF Entry.prems])
    fix c assume "c \<in> set (pe_children (Entry nm fl vs cs))"
    with Entry show "P c" by simp
  qed
qed

lemma visits_set:
  assumes "wf_entry e" "only_after flags"
  shows "set (visits flags path pos e) =
           {(pos @ q, walk_path path e q) | q d. entry_at q e = Some d \<and> selected flags d}"
  using assms(1)
proof (induction e arbitrary: path pos rule: wf_entry_ind)
  case (node e)
  have dist: "distinct (map pe_name (pe_children e))" using node(1) by (rule wf_entryD)
  show ?case (is "?L = ?R")
  proof
    show "?L \<subseteq> ?R"
    proof
      fix x assume "x \<in> ?L"
      then consider c where "c \<in> set (pe_children e)"
          "x \<in> set (visits flags (child_path path e) (pos @ [pe_name c]) c)"
        | "selected flags e" "x = (pos, child_path path e)"
        unfolding visits_after [OF assms(2), of path pos e] by (auto split: if_splits)
      then show "x \<in> ?R"
      proof cases
        case 1
        then obtain q d where "x = ((pos @ [pe_name c]) @ q, walk_path (child_path path e) c q)"
          "entry_at q c = Some d" "selected flags d"
          using node(2) by blast
        with find_child_distinct [OF dist 1(1)] show ?thesis
          by (intro CollectI exI [of _ "pe_name c # q"] exI [of _ d]) simp
      qed (auto intro!: exI [of _ "[]"])
    qed
    show "?R \<subseteq> ?L"
    proof
      fix x assume "x \<in> ?R"
      then obtain q d where x: "x = (pos @ q, walk_path path e q)" "entry_at q e = Some d" "selected flags d"
        by blast
      show "x \<in> ?L"
      proof (cases q)
        case Nil
        with x show ?thesis unfolding visits_after [OF assms(2), of path pos e] by simp
      next
        case (Cons n ns)
        then obtain c where c: "find_child n (pe_children e) = Some c" "entry_at ns c = Some d"
          using x(2) by (auto split: option.splits)
        then have m: "c \<in> set (pe_children e)" "pe_name c = n" using find_child_Some by auto
        have "x = ((pos @ [pe_name c]) @ ns, walk_path (child_path path e) c ns)"
          using x(1) Cons c(1) m(2) by simp
        then have "x \<in> set (visits flags (child_path path e) (pos @ [pe_name c]) c)"
          using node(2) [OF m(1)] c(2) x(3) by blast
        then show ?thesis
          using m(1) unfolding visits_after [OF assms(2), of path pos e] by auto
      qed
    qed
  qed
qed

lemma sorted_wrt_concat:
  "(\<And>c. c \<in> set cs \<Longrightarrow> sorted_wrt R (f c)) \<Longrightarrow>
   sorted_wrt (\<lambda>c d. \<forall>x \<in> set (f c). \<forall>y \<in> set (f d). R x y) cs \<Longrightarrow>
   sorted_wrt R (concat (map f cs))"
  by (induction cs) (auto simp: sorted_wrt_append)

lemma visits_order:
  assumes "wf_entry e" "only_after flags"
  shows "sorted_wrt (\<lambda>a b. \<not> prefix (fst a) (fst b)) (visits flags path pos e)"
  using assms(1)
proof (induction e arbitrary: path pos rule: wf_entry_ind)
  case (node e)
  let ?f = "\<lambda>c. visits flags (child_path path e) (pos @ [pe_name c]) c"
  have wf: "c \<in> set (pe_children e) \<Longrightarrow> wf_entry c" for c using node(1) by (rule wf_entryD)
  have "sorted_wrt (\<lambda>c d. pe_name c \<noteq> pe_name d) (pe_children e)"
    using wf_entryD(1) [OF node(1)] by (simp add: distinct_map_filter distinct_conv_nth sorted_wrt_iff_nth_less)
  then have "sorted_wrt (\<lambda>c d. \<forall>x \<in> set (?f c). \<forall>y \<in> set (?f d). \<not> prefix (fst x) (fst y)) (pe_children e)"
    by (rule sorted_wrt_mono_rel [rotated]) (use wf assms(2) in \<open>auto simp: visits_set\<close>)
  then have "sorted_wrt (\<lambda>a b. \<not> prefix (fst a) (fst b)) (concat (map ?f (pe_children e)))"
    using node(2) by (intro sorted_wrt_concat) auto
  moreover have "\<not> prefix (fst x) pos" if "c \<in> set (pe_children e)" "x \<in> set (?f c)" for c x
    using that wf assms(2) by (auto simp: visits_set dest: prefix_length_le)
  ultimately show ?case
    unfolding visits_after [OF assms(2), of path pos e] by (auto simp: sorted_wrt_append)
qed

lemma no_prefix_distinct: "sorted_wrt (\<lambda>a b. \<not> prefix a b) xs \<Longrightarrow> distinct xs"
  by (induction xs) auto

lemma walk_path_below:
  "path \<noteq> [] \<Longrightarrow> wf_entry e \<Longrightarrow> comp_name (pe_name e) \<Longrightarrow> entry_at q e = Some d \<Longrightarrow>
   walk_path path e q = path @ slash # pe_name e @ slashed q"
proof (induction q arbitrary: path e)
  case Nil
  then show ?case by (simp add: child_path_def comp_name_def slashed_def)
next
  case (Cons n q)
  then obtain c where c: "find_child n (pe_children e) = Some c" "entry_at q c = Some d"
    by (auto split: option.splits)
  then have m: "c \<in> set (pe_children e)" "pe_name c = n" using find_child_Some by auto
  have wf: "wf_entry c" "comp_name (pe_name c)"
    using Cons.prems(2) m(1) by (cases e; simp)+
  then show ?case
    using Cons.IH [of "child_path path e" c] Cons.prems c m
    by (simp add: child_path_def comp_name_def slashed_def)
qed

lemma walk_path_root:
  assumes "wf_entry t" "pe_name t = []" "path_entry_exists t q"
  shows "walk_path [] t q = rel_string t [] q 0"
proof (cases q)
  case Nil
  then show ?thesis using assms(2) by (simp add: child_path_def rel_string_def)
next
  case (Cons n ns)
  then obtain c d where c: "find_child n (pe_children t) = Some c" "entry_at ns c = Some d"
    using assms(3) by (auto simp: path_entry_exists_def split: option.splits)
  then have m: "c \<in> set (pe_children t)" "pe_name c = n" using find_child_Some by auto
  then have wf: "wf_entry c" "comp_name n" using assms(1) by (cases t; auto)+
  have lead: "leads t [n] 0 \<longleftrightarrow> pe_flags c AND FLAGS_HAS_SLASH \<noteq> 0"
    using c(1) by (simp add: leads_def has_flag_def flags_at_def)
  show ?thesis
  proof (cases ns)
    case Nil
    with Cons c m wf lead assms(2) show ?thesis
      by (simp add: child_path_def rel_string_def slashed_def comp_name_def)
  next
    case (Cons k ks)
    then obtain b where b: "find_child k (pe_children c) = Some b" "entry_at ks b = Some d"
      using c(2) by (auto split: option.splits)
    then have "b \<in> set (pe_children c)" "pe_name b = k" using find_child_Some by auto
    then have "wf_entry b" "comp_name (pe_name b)" "pe_name b = k" using wf(1) by (cases c; auto)+
    then show ?thesis
      using walk_path_below [of "child_path [] c" b ks d] b \<open>q = n # ns\<close> Cons c m wf lead assms(2)
      by (simp add: child_path_def rel_string_def slashed_def comp_name_def)
  qed
qed

text \<open>C40: iterating from the root of the tree, with the default order and a buffer large enough,
  calls the function exactly once on each entry (with the flag of added entries, on each
  added entry), an entry always after all the entries below it, with its path as
  \<open>path_entry_get_path\<close> gives it, until a call returns something else than 0.\<close>

theorem path_entry_for_each_visits:
  assumes "wf_entry t" "pe_name t = []" "fits (length buf) [] t"
    and "flags = 0 \<or> flags = PATH_ENTRY_FORALL_ONLY_ADDED"
  shows "\<exists>vs. path_entry_for_each_in_buffer flags t (Some []) fn buf s =
                Some (fold_nonzero (\<lambda>s (p, path). fn s p path) vs s) \<and>
              set vs = {(q, rel_string t [] q 0) | q d. entry_at q t = Some d \<and>
                          (flags = PATH_ENTRY_FORALL_ONLY_ADDED \<longrightarrow> path_entry_was_added d)} \<and>
              sorted_wrt (\<lambda>a b. \<not> prefix (fst a) (fst b)) vs"
proof -
  let ?fl = "flags OR PATH_ENTRY_FORALL_AFTER"
  have fl: "\<not> has_flag ?fl PATH_ENTRY_FORALL_SILENT_ROOT" "\<not> has_flag ?fl PATH_ENTRY_FORALL_NO_PATH"
    "only_after ?fl" "?fl AND (PATH_ENTRY_FORALL_ABSOLUTE OR PATH_ENTRY_FORALL_NO_PATH) = 0"
    "flags AND (PATH_ENTRY_FORALL_BEFORE OR PATH_ENTRY_FORALL_AFTER) = 0"
    using assms(4) by (auto simp: has_flag_def only_after_def path_flag_defs)
  have sel: "selected ?fl d \<longleftrightarrow> (flags = PATH_ENTRY_FORALL_ONLY_ADDED \<longrightarrow> path_entry_was_added d)"
    for d :: "('a, 'b) path_entry"
    using assms(4) by (auto simp: selected_def has_flag_def path_flag_defs)
  have run: "path_entry_for_each_in_buffer flags t (Some []) fn buf s =
      Some (fold_nonzero (\<lambda>s (p, path). fn s p path) (visits ?fl [] [] t) s)"
    using fl do_foreach_visits [OF fl(1,2) assms(3)]
    by (simp add: path_entry_for_each_in_buffer_def Let_def) (simp add: path_flag_defs)
  have "set (visits ?fl [] [] t) = {([] @ q, walk_path [] t q) | q d. entry_at q t = Some d \<and> selected ?fl d}"
    using assms(1) fl(3) by (rule visits_set)
  also have "\<dots> = {(q, rel_string t [] q 0) | q d. entry_at q t = Some d \<and> selected ?fl d}"
    using walk_path_root [OF assms(1,2)] by (auto simp: path_entry_exists_def)
  finally show ?thesis
    using run visits_order [OF assms(1) fl(3)] unfolding sel by (intro exI conjI)
qed

theorem path_entry_for_each_visits_witness:
  "\<exists>vs. path_entry_for_each_in_buffer PATH_ENTRY_FORALL_ONLY_ADDED sample_files (Some [])
           (\<lambda>s p path. (0, s @ [path])) (replicate 20 NUL) [] =
        Some (fold_nonzero (\<lambda>s (p, path). (0, s @ [path])) vs []) \<and> ([''run''], ''/run'') \<in> set vs"
proof -
  have "fits (length (replicate 20 NUL)) [] sample_files"
    by (simp add: sample_files_def child_path_def FLAGS_HAS_SLASH_def FLAGS_IS_ADDED_def)
  from path_entry_for_each_visits [OF sample_files_ok this, of PATH_ENTRY_FORALL_ONLY_ADDED
      "\<lambda>s p path. (0, s @ [path])" "[]"]
  obtain vs where vs: "path_entry_for_each_in_buffer PATH_ENTRY_FORALL_ONLY_ADDED sample_files (Some [])
           (\<lambda>s p path. (0, s @ [path])) (replicate 20 NUL) [] =
        Some (fold_nonzero (\<lambda>s (p, path). (0, s @ [path])) vs [])"
    and set: "set vs = {(q, rel_string sample_files [] q 0) | q d. entry_at q sample_files = Some d \<and>
                path_entry_was_added d}"
    by auto
  have "rel_string sample_files [] [''run''] 0 = ''/run''"
    by (simp add: rel_string_def slashed_def leads_def has_flag_def flags_at_def sample_files_def
        FLAGS_HAS_SLASH_def FLAGS_IS_ADDED_def)
  then have "([''run''], ''/run'') \<in> set vs"
    unfolding set by (auto simp: sample_files_def path_entry_was_added_def FLAGS_HAS_SLASH_def FLAGS_IS_ADDED_def
        intro!: exI [of _ "[''run'']"])
  with vs show ?thesis by blast
qed

section \<open>Variables: lemmas\<close>

lemma search_var_map_of: "path_entry_var e k = map_option fst (map_of (pe_vars e) k)"
proof -
  have "varval (search_var vs k) = map_option fst (map_of vs k)" for vs
    by (induction vs) (auto simp: varval_def)
  then show ?thesis by (simp add: path_entry_var_def)
qed

lemma search_var_None: "search_var vs k = None \<longleftrightarrow> k \<notin> fst ` set vs"
  by (induction vs) auto

lemma var_exists_map_of: "path_entry_var_exists e k \<longleftrightarrow> map_of (pe_vars e) k \<noteq> None"
  by (simp add: path_entry_var_exists_def search_var_None map_of_eq_None_iff)

lemma search_var_Some: "search_var vs k = Some v \<longleftrightarrow> map_of vs k = Some (snd v) \<and> fst v = k"
  by (induction vs) auto

lemma names_update_var: "map fst (update_var vs k x d) = map fst vs"
  by (induction vs) auto

lemma update_var_map_of:
  "map_of vs k \<noteq> None \<Longrightarrow> map_of (update_var vs k x d) = (map_of vs)(k \<mapsto> (x, d))"
  by (induction vs) (auto simp: fun_eq_iff)

lemma keys_delete_var: "fst ` set (fst (delete_var vs k)) \<subseteq> fst ` set vs"
  by (induction vs) (auto simp: split_beta)

lemma distinct_delete_var:
  "distinct (map fst vs) \<Longrightarrow> distinct (map fst (fst (delete_var vs k)))"
proof (induction vs)
  case (Cons v vs)
  then show ?case using keys_delete_var [of vs k] by (auto simp: split_beta)
qed simp

lemma delete_var_map_of:
  "distinct (map fst vs) \<Longrightarrow> map_of (fst (delete_var vs k)) = (map_of vs)(k := None)"
  by (induction vs) (auto simp: fun_eq_iff split_beta map_of_eq_None_iff)

lemma delete_var_disposed:
  "snd (delete_var vs k) =
     (case map_of vs k of None \<Rightarrow> [] | Some (x, d) \<Rightarrow> if d then [x] else [])"
  by (induction vs) (auto simp: split_beta)

lemma wf_set_vars:
  "wf_entry e \<Longrightarrow> distinct (map fst (f (pe_vars e))) \<Longrightarrow> wf_entry (set_vars f e)"
  by (cases e) simp

text \<open>
  The contract of the variables of an entry, as their users rely on it: a key has the last
  value set for it, setting or deleting a key changes no other one.
\<close>

locale var_store =
  fixes lookup :: "'e \<Rightarrow> 'k \<Rightarrow> 'v option"
    and assign :: "'e \<Rightarrow> 'k \<Rightarrow> 'v \<Rightarrow> 'e option"
    and remove :: "'e \<Rightarrow> 'k \<Rightarrow> 'e"
    and ok :: "'e \<Rightarrow> bool"
  assumes lookup_assign: "ok e \<Longrightarrow> assign e k x = Some e' \<Longrightarrow> lookup e' j = (if j = k then Some x else lookup e j)"
    and ok_assign: "ok e \<Longrightarrow> assign e k x = Some e' \<Longrightarrow> ok e'"
    and lookup_remove: "ok e \<Longrightarrow> lookup (remove e k) j = (if j = k then None else lookup e j)"
    and ok_remove: "ok e \<Longrightarrow> ok (remove e k)"
begin

lemma assign_assign:
  "ok e \<Longrightarrow> assign e k x = Some e1 \<Longrightarrow> assign e1 k y = Some e2 \<Longrightarrow>
   lookup e2 = (lookup e)(k \<mapsto> y)"
  by (rule ext) (simp add: lookup_assign [of e1 k y e2] lookup_assign [of e k x e1] ok_assign [of e k x e1])

lemma assign_remove:
  "ok e \<Longrightarrow> assign e k x = Some e1 \<Longrightarrow> lookup (remove e1 k) = (lookup e)(k := None)"
  by (rule ext) (simp add: lookup_remove [of e1] lookup_assign [of e k x e1] ok_assign [of e k x e1])

lemma assign_commute:
  "ok e \<Longrightarrow> k \<noteq> l \<Longrightarrow> assign e k x = Some e1 \<Longrightarrow> assign e1 l y = Some e2 \<Longrightarrow>
   assign e l y = Some f1 \<Longrightarrow> assign f1 k x = Some f2 \<Longrightarrow> lookup e2 = lookup f2"
  by (rule ext)
    (simp add: lookup_assign [of e1 l y e2] lookup_assign [of e k x e1] ok_assign [of e k x e1]
       lookup_assign [of f1 k x f2] lookup_assign [of e l y f1] ok_assign [of e l y f1])

end

definition var_assign :: "mem \<Rightarrow> bool \<Rightarrow> ('k, 'v) path_entry \<Rightarrow> 'k \<Rightarrow> 'v \<Rightarrow> ('k, 'v) path_entry option" where
  "var_assign m d e k x = (case path_entry_var_set e m k x d of (rc, e', _) \<Rightarrow> if rc = 0 then Some e' else None)"

lemma path_entry_var_set_cases:
  assumes "path_entry_var_set e m k x d = (rc, e', ds, m')"
  obtains (set) "rc = 0" "map_of (pe_vars e') = (map_of (pe_vars e))(k \<mapsto> (x, d))"
      "wf_entry e \<Longrightarrow> wf_entry e'"
      "ds = (case map_of (pe_vars e) k of None \<Rightarrow> [] | Some (old, dp) \<Rightarrow> if dp then [old] else [])"
    | (full) "rc = - ENOMEM" "e' = e" "ds = []" "m \<noteq> []" "map_of (pe_vars e) k = None"
proof (cases "search_var (pe_vars e) k")
  case None
  then have nk: "k \<notin> fst ` set (pe_vars e)" by (simp add: search_var_None)
  then have mo: "map_of (pe_vars e) k = None" by (simp add: map_of_eq_None_iff)
  obtain ok m1 where c: "c_alloc m = (ok, m1)" by fastforce
  show ?thesis
  proof (cases ok)
    case True
    then have e': "rc = 0" "e' = set_vars (\<lambda>vs. (k, x, d) # vs) e" "ds = []"
      using assms None c by (auto simp: path_entry_var_set_def)
    show ?thesis
    proof (rule set)
      show "wf_entry e'" if "wf_entry e"
        unfolding e' using that wf_entryD(2) [OF that] by (intro wf_set_vars) (simp_all add: nk)
    qed (simp_all add: e' mo)
  next
    case False
    then show ?thesis
      using assms None c mo by (intro full) (auto simp: path_entry_var_set_def c_alloc_def split: list.splits)
  qed
next
  case (Some v)
  obtain k' old dp where v: "v = (k', old, dp)" by (cases v)
  have mo: "map_of (pe_vars e) k = Some (old, dp)" "k' = k" using Some v by (auto simp: search_var_Some)
  then have e': "rc = 0" "e' = set_vars (\<lambda>vs. update_var vs k x d) e" "ds = (if dp then [old] else [])"
    using assms Some v by (auto simp: path_entry_var_set_def)
  show ?thesis
  proof (rule set)
    show "wf_entry e'" if "wf_entry e"
      unfolding e' using that wf_entryD(2) [OF that] by (intro wf_set_vars) (simp_all add: names_update_var)
  qed (simp_all add: e' mo update_var_map_of)
qed

interpretation entry_vars: var_store path_entry_var "var_assign m d"
  "\<lambda>e k. fst (path_entry_var_del e k)" wf_entry
proof
  fix e e' :: "('a, 'b) path_entry" and k j x
  assume wf: "wf_entry e"
  show "path_entry_var (fst (path_entry_var_del e k)) j = (if j = k then None else path_entry_var e j)"
    using wf_entryD(2) [OF wf] by (simp add: path_entry_var_del_def search_var_map_of delete_var_map_of)
  show "wf_entry (fst (path_entry_var_del e k))"
    using wf wf_entryD(2) [OF wf] by (simp add: path_entry_var_del_def distinct_delete_var wf_set_vars)
  assume "var_assign m d e k x = Some e'"
  then obtain ds m' where "path_entry_var_set e m k x d = (0, e', ds, m')"
    by (auto simp: var_assign_def split: prod.splits if_splits)
  then show "path_entry_var e' j = (if j = k then Some x else path_entry_var e j)" "wf_entry e'"
    using wf by (auto elim!: path_entry_var_set_cases simp: search_var_map_of)
qed

text \<open>setting a variable of an entry gives it that value and leaves the other variables,
  the name, the flags and the children as they are; the previous value is disposed exactly
  when it had a dispose function; it fails only when a new variable cannot be allocated,
  and then nothing changes.\<close>

theorem path_entry_var_set_updates:
  assumes "wf_entry e" "path_entry_var_set e m k x d = (rc, e', ds, m')"
  shows "wf_entry e' \<and>
         (rc = 0 \<and> path_entry_var e' = (path_entry_var e)(k \<mapsto> x) \<and> pe_children e' = pe_children e \<and>
            pe_name e' = pe_name e \<and> pe_flags e' = pe_flags e \<and>
            ds = (case map_of (pe_vars e) k of Some (old, True) \<Rightarrow> [old] | _ \<Rightarrow> []) \<or>
          rc = - ENOMEM \<and> e' = e \<and> ds = [] \<and> \<not> path_entry_var_exists e k)"
proof -
  have "pe_children e' = pe_children e" "pe_name e' = pe_name e" "pe_flags e' = pe_flags e"
    using assms(2) by (auto simp: path_entry_var_set_def split: option.splits prod.splits if_splits)
  with assms(2) show ?thesis
    by (elim path_entry_var_set_cases)
      (use assms(1) in \<open>auto simp: search_var_map_of fun_eq_iff var_exists_map_of
         split: option.splits bool.splits\<close>)
qed

theorem path_entry_var_set_updates_witness:
  "let (rc, e', ds, m') =
     path_entry_var_set (Entry ''a'' 0 [(7 :: nat, ''old'', True)] []) [] 7 ''new'' False
   in rc = 0 \<and> path_entry_var e' 7 = Some ''new'' \<and> ds = [''old'']"
proof -
  let ?e = "Entry ''a'' 0 [(7 :: nat, ''old'', True)] []"
  obtain rc e' ds m' where a: "path_entry_var_set ?e [] 7 ''new'' False = (rc, e', ds, m')"
    by (metis prod_cases4)
  have "wf_entry ?e" by simp
  from path_entry_var_set_updates [OF this a] a show ?thesis
    by (auto simp: path_entry_var_exists_def)
qed

section \<open>Filling from a file: lemmas\<close>

text \<open>The paths that a text lists, up to the line \<open>#STOP#\<close>.\<close>

function file_paths :: "string \<Rightarrow> string list" where
  "file_paths inp =
     (if inp = [] then []
      else case read_line (fgets_line inp) of
             Line_stop \<Rightarrow> []
           | Line_skip \<Rightarrow> file_paths (drop (length (fgets_line inp)) inp)
           | Line_path path len \<Rightarrow> take len path # file_paths (drop (length (fgets_line inp)) inp))"
  by pat_completeness auto
termination
  by (relation "measure length") (simp_all add: drop_fgets_shorter del: length_drop)

declare file_paths.simps [simp del]

lemma length_fgets_line: "length (fgets_line inp) < PATH_MAX"
  by (simp add: fgets_line_def PATH_MAX_def)

lemma read_line_len:
  assumes "read_line line = Line_path path len"
  shows "len \<le> length line"
proof -
  let ?str = "takeWhile (\<lambda>c. c \<noteq> NUL) line"
  have "len = length (dropWhile c_isspace (strip_right ?str))"
    using assms by (auto simp: read_line_def Let_def split: if_splits)
  also have "\<dots> \<le> length (strip_right ?str)" by (rule length_dropWhile_le)
  also have "\<dots> \<le> length ?str"
    using length_dropWhile_le [of c_isspace "rev ?str"] by (simp add: strip_right_def)
  also have "\<dots> \<le> length line" by (rule length_takeWhile_le)
  finally show ?thesis .
qed

lemma view_add_exists: "v root \<noteq> None \<Longrightarrow> (view_add v root path) root \<noteq> None"
  using view_add_dom [of v root path "[]"] by simp

text \<open>With memory available, filling a tree from a file adds exactly the paths that the file
  lists before its end or its line \<open>#STOP#\<close>, in their order; comments, empty lines and the
  spaces around the paths do not count.\<close>

theorem path_entry_add_from_file_adds:
  assumes "wf_entry t" "path_entry_exists t root"
    and "path_entry_add_from_file t [] root inp err = (rc, t', m')"
  shows "wf_entry t' \<and> (rc = 0 \<or> rc = - err) \<and>
         entry_view t' = fold (\<lambda>p v. view_add v root p) (file_paths inp) (entry_view t)"
  using assms
proof (induction "length inp" arbitrary: inp t rule: less_induct)
  case less
  show ?case
  proof (cases "inp = []")
    case True
    with less.prems show ?thesis by (auto simp: path_entry_add_from_file.simps file_paths.simps)
  next
    case False
    let ?line = "fgets_line inp"
    let ?rest = "drop (length (fgets_line inp)) inp"
    have short: "length ?rest < length inp" using False by (rule drop_fgets_shorter)
    show ?thesis
    proof (cases "read_line ?line")
      case Line_stop
      with False less.prems show ?thesis
        by (auto simp: path_entry_add_from_file.simps [of _ _ _ inp] file_paths.simps [of inp] Let_def)
    next
      case Line_skip
      with False less.hyps [OF short less.prems(1,2)] less.prems(3) show ?thesis
        by (simp add: path_entry_add_from_file.simps [of _ _ _ inp] file_paths.simps [of inp] Let_def)
    next
      case (Line_path path len)
      obtain rc1 r1 t1 m1 where a: "path_entry_add_length t [] root path len = (rc1, r1, t1, m1)"
        by (metis prod_cases4)
      have "len < 2 ^ 32"
        using read_line_len [OF Line_path] length_fgets_line [of inp] by (simp add: PATH_MAX_def)
      from path_entry_add_length_refines [OF less.prems(1,2) this refl a]
      have r: "wf_entry t1" "m1 = []" "rc1 = 0" "entry_view t1 = view_add (entry_view t) root (take len path)"
        by auto
      have "path_entry_exists t1 root"
        using view_add_exists [of "entry_view t" root "take len path"] less.prems(2) r(4)
        unfolding path_entry_exists_def by (simp flip: entry_view_None)
      from less.hyps [OF short r(1) this] less.prems(3) False Line_path a r(2,3) show ?thesis
        by (simp add: path_entry_add_from_file.simps [of _ _ _ inp] file_paths.simps [of inp] Let_def r(4))
    qed
  qed
qed

theorem path_entry_add_from_file_adds_witness:
  "let (rc, t', m') = path_entry_add_from_file sample_tree [] [] (''#x'' @ [CHR 0x0A] @ '' /a/b '' @ [CHR 0x0A]) 0
   in rc = 0 \<and> entry_view t' = view_add (entry_view sample_tree) [] ''/a/b''"
proof -
  let ?inp = "''#x'' @ [CHR 0x0A] @ '' /a/b '' @ [CHR 0x0A]"
  obtain rc t' m' where a: "path_entry_add_from_file sample_tree [] [] ?inp 0 = (rc, t', m')"
    by (metis prod_cases3)
  have "wf_entry sample_tree" "path_entry_exists sample_tree []"
    by (simp_all add: sample_tree_def comp_name_def path_entry_exists_def)
  moreover have "file_paths ?inp = [''/a/b'']"
    by (simp add: file_paths.simps fgets_line_def PATH_MAX_def read_line_def strip_right_def c_isspace_def)
  ultimately show ?thesis
    using path_entry_add_from_file_adds [OF _ _ a] a by simp
qed

end
