(* ===== verification/SignatureName.thy ===== *)
theory SignatureName
  imports PathWalk
begin

text \<open>
  Names of the signature files of a package (\<^verbatim>\<open>src/src/cert/signature-name.c\<close>):
  \<^verbatim>\<open>signature-NAME.p7\<close>, where the name \<^verbatim>\<open>author\<close> is reserved for the author.
\<close>

section \<open>Recognition\<close>

datatype signature_type = Signature_None | Signature_Author | Signature_distributor

definition signature_extension :: string where "signature_extension = ''.p7''"
definition signature_prefix :: string where "signature_prefix = ''signature-''"
definition author_name :: string where "author_name = ''author''"

definition signature_name_type_length :: "string \<Rightarrow> nat \<Rightarrow> signature_type" where
  "signature_name_type_length path0 len =
     (let path = take len path0 in
      if len \<ge> length signature_extension \<and>
         drop (len - length signature_extension) path = signature_extension then
        (let stem = take (len - length signature_extension) path;
             base = rev (takeWhile (\<lambda>c. c \<noteq> slash) (rev stem))
         in if length base \<ge> length signature_prefix \<and>
               take (length signature_prefix) base = signature_prefix then
              (if drop (length signature_prefix) base = author_name then Signature_Author
               else Signature_distributor)
            else Signature_None)
      else Signature_None)"

definition signature_name_type :: "string \<Rightarrow> signature_type" where
  "signature_name_type path = signature_name_type_length path (length path)"

section \<open>Construction\<close>

definition sig_copy :: "string \<Rightarrow> nat \<Rightarrow> string \<Rightarrow> string \<times> nat" where
  "sig_copy buffer pos value =
     (if pos < length buffer
      then buf_write buffer pos (take (if pos + length value \<le> length buffer then length value
                                       else length buffer - pos) value)
      else buffer, pos + length value)"

definition make_signature_name_length :: "string \<Rightarrow> nat \<Rightarrow> string \<Rightarrow> nat \<times> string" where
  "make_signature_name_length name len buffer =
     (let (b1, pos1) = sig_copy buffer 0 signature_prefix;
          (b2, pos2) = sig_copy b1 pos1 (take len name);
          (b3, pos3) = sig_copy b2 pos2 signature_extension
      in (pos3, if pos3 < length b3 then b3[pos3 := NUL] else b3))"

definition make_signature_name :: "string \<Rightarrow> string \<Rightarrow> nat \<times> string" where
  "make_signature_name name buffer = make_signature_name_length name (length name) buffer"

text \<open>The digits are written from the last to the first; \<open>number\<close> has 32 bits.\<close>

function number_digits :: "nat \<Rightarrow> string \<Rightarrow> string" where
  "number_digits number scratch =
     (let scratch' = char_of (48 + number mod 10) # scratch
      in if number div 10 = 0 then scratch' else number_digits (number div 10) scratch')"
  by pat_completeness auto
termination
  by (relation "measure fst") auto

declare number_digits.simps [simp del]

definition make_signature_name_number :: "32 word \<Rightarrow> string \<Rightarrow> nat \<times> string" where
  "make_signature_name_number number buffer =
     (let digits = number_digits (unat number) []
      in make_signature_name_length digits (length digits) buffer)"

definition make_signature_name_author :: "string \<Rightarrow> nat \<times> string" where
  "make_signature_name_author buffer =
     make_signature_name_length author_name (length author_name) buffer"

section \<open>Lemmas\<close>

text \<open>Successive copies are one copy of the whole text.\<close>

definition put_text :: "string \<Rightarrow> string \<Rightarrow> string" where
  "put_text buf s = take (length buf) s @ drop (length s) buf"

lemma length_put_text [simp]: "length (put_text buf s) = length buf"
  by (simp add: put_text_def)

lemma put_text_Nil [simp]: "put_text buf [] = buf"
  by (simp add: put_text_def)

lemma sig_copy_put:
  "sig_copy (put_text buf s) (length s) v = (put_text buf (s @ v), length (s @ v))"
proof (cases "length s < length buf")
  case True
  then have b: "put_text buf s = s @ drop (length s) buf" by (simp add: put_text_def)
  have "buf_write (s @ drop (length s) buf) (length s) x = s @ x @ drop (length s + length x) buf" for x
    by (simp add: buf_write_def add.commute)
  with True show ?thesis
    unfolding sig_copy_def b by (auto simp: put_text_def min_def)
next
  case False
  then show ?thesis by (simp add: sig_copy_def put_text_def)
qed

lemma put_text_end:
  "(if length s < length buf then (put_text buf s)[length s := NUL] else put_text buf s) = fill buf s"
  by (auto simp: put_text_def fill_def list_update_append Cons_nth_drop_Suc [symmetric])

definition signature_file :: "string \<Rightarrow> string" where
  "signature_file name = signature_prefix @ name @ signature_extension"

lemma make_signature_name_fill:
  "make_signature_name name buffer = (length (signature_file name), fill buffer (signature_file name))"
  using sig_copy_put [of buffer "[]" signature_prefix] sig_copy_put [of buffer signature_prefix name]
    sig_copy_put [of buffer "signature_prefix @ name" signature_extension]
    put_text_end [of "signature_prefix @ name @ signature_extension" buffer]
  by (auto simp: make_signature_name_def make_signature_name_length_def signature_file_def split: if_splits)

lemma take_rev_base:
  assumes "slash \<notin> set base" "dir = [] \<or> last dir = slash"
  shows "rev (takeWhile (\<lambda>c. c \<noteq> slash) (rev (dir @ base))) = base"
proof -
  have "takeWhile (\<lambda>c. c \<noteq> slash) (rev base @ rev dir) = rev base @ takeWhile (\<lambda>c. c \<noteq> slash) (rev dir)"
    using assms(1) by (intro takeWhile_append2) auto
  also have "takeWhile (\<lambda>c. c \<noteq> slash) (rev dir) = []"
    using assms(2) by (cases dir rule: rev_cases) auto
  finally show ?thesis by simp
qed

lemma signature_type_of_file:
  assumes "slash \<notin> set name" "dir = [] \<or> last dir = slash"
  shows "signature_name_type (dir @ signature_file name) =
           (if name = author_name then Signature_Author else Signature_distributor)"
proof -
  let ?path = "dir @ signature_file name"
  have "?path = (dir @ signature_prefix @ name) @ signature_extension"
    by (simp add: signature_file_def)
  then have d: "drop (length ?path - length signature_extension) ?path = signature_extension"
    and t: "take (length ?path - length signature_extension) ?path = dir @ signature_prefix @ name"
    by simp_all
  have base: "rev (takeWhile (\<lambda>c. c \<noteq> slash) (rev (dir @ signature_prefix @ name))) = signature_prefix @ name"
    using assms by (intro take_rev_base) (auto simp: signature_prefix_def)
  have len: "length signature_extension \<le> length ?path" by (simp add: signature_file_def)
  show ?thesis
    unfolding signature_name_type_def signature_name_type_length_def Let_def take_all [OF order_refl] d t base
    using len by simp
qed

section \<open>Properties\<close>

text \<open>The name made for a signature is recognised as a signature wherever the file is, as
  that of the author exactly when it is made for the name author; the buffer receives the
  name and its terminator when it is large enough, and the length needed is always
  returned.\<close>

theorem signature_name_roundtrip:
  assumes "slash \<notin> set name" "dir = [] \<or> last dir = slash"
    and "make_signature_name name buffer = (len, buf)" "len < length buffer"
  shows "buf ! len = NUL \<and> len = length name + 13 \<and> take len buf = signature_file name \<and>
         signature_name_type (dir @ take len buf) =
           (if name = author_name then Signature_Author else Signature_distributor)"
proof -
  have b: "len = length (signature_file name)" "buf = fill buffer (signature_file name)"
    using assms(3) by (simp_all add: make_signature_name_fill)
  then have buf: "buf = signature_file name @ NUL # drop (Suc len) buffer"
    using assms(4) by (simp add: fill_def)
  then have "take len buf = signature_file name" using b by simp
  moreover have "buf ! len = NUL" using buf b(1) by (metis nth_append_length)
  moreover have "len = length name + 13"
    using b(1) by (simp add: signature_file_def signature_prefix_def signature_extension_def)
  ultimately show ?thesis
    using signature_type_of_file [OF assms(1,2)] by simp
qed

theorem signature_name_roundtrip_witness:
  "let (len, buf) = make_signature_name ''1'' (replicate 20 NUL)
   in signature_name_type (''a/'' @ take len buf) = Signature_distributor"
proof -
  obtain len buf where a: "make_signature_name ''1'' (replicate 20 NUL) = (len, buf)" by fastforce
  then have "len < length (replicate 20 NUL)"
    by (simp add: make_signature_name_fill signature_file_def signature_prefix_def signature_extension_def)
  from signature_name_roundtrip [OF _ _ a this, of "''a/''"] a show ?thesis
    by (auto simp: author_name_def)
qed

end
