(* ===== verification/Digest.thy ===== *)
theory Digest
  imports SignatureName
begin

text \<open>
  Digests of the files of a package (\<^verbatim>\<open>src/src/cert/digest.c\<close>): the text with one line per
  file, its hash and its path, that the signatures of a package sign; its creation and its
  check against the files.

  The files and the hash functions of gnutls are parameters: \<open>dg_open\<close> gives the error of
  \<^verbatim>\<open>fopen\<close> or the content of a file, \<open>dg_hash\<close> the bytes of the hash of a content. The
  variables of the entries are keyed in C by the addresses of two functions.
\<close>

section \<open>Data\<close>

datatype dig_alg = GNUTLS_DIG_SHA224 | GNUTLS_DIG_SHA256 | GNUTLS_DIG_SHA384 | GNUTLS_DIG_SHA512
  | GNUTLS_DIG_OTHER nat

datatype digest_key = key_entry_hash | key_reset_idata

text \<open>A list of hash nodes, a null pointer, or the address used as mark.\<close>

datatype digest_val = HashNodes "(dig_alg \<times> string) list" | NullPtr | MarkPtr

type_synonym digest_tree = "(digest_key, digest_val) path_entry"

record digest_env =
  dg_open :: "string \<Rightarrow> int + string"
  dg_hash :: "dig_alg \<Rightarrow> string \<Rightarrow> string"

section \<open>Hash of an entry\<close>

text \<open>
  The hash is computed at the beginning of the value and then expanded in place to its
  hexadecimal form, from its end to its beginning.
\<close>

definition hex_digit :: "nat \<Rightarrow> char" where
  "hex_digit n = char_of (n + (if n \<le> 9 then 48 else 97 - 10))"

fun hex_expand :: "string \<Rightarrow> nat \<Rightarrow> string" where
  "hex_expand value 0 = value"
| "hex_expand value (Suc h) =
     (let b = of_char (value ! h) :: nat
      in hex_expand (value[2 * h + 1 := hex_digit (b mod 16), 2 * h := hex_digit (b div 16)]) h)"

definition hash_string :: "digest_env \<Rightarrow> dig_alg \<Rightarrow> string \<Rightarrow> string" where
  "hash_string env alg content =
     (let bytes = dg_hash env alg content
      in hex_expand (bytes @ replicate (length bytes) NUL) (length bytes))"

definition hash_nodes :: "digest_tree \<Rightarrow> pos \<Rightarrow> (dig_alg \<times> string) list" where
  "hash_nodes t p =
     (case entry_at p t of
        None \<Rightarrow> []
      | Some e \<Rightarrow> (case path_entry_var e key_entry_hash of Some (HashNodes hs) \<Rightarrow> hs | _ \<Rightarrow> []))"

definition tree_var_set ::
  "digest_tree \<Rightarrow> mem \<Rightarrow> pos \<Rightarrow> digest_key \<Rightarrow> digest_val \<Rightarrow> bool \<Rightarrow> int \<times> digest_tree \<times> mem" where
  "tree_var_set t m p k v d =
     (case entry_at p t of
        None \<Rightarrow> (- ENOENT, t, m)
      | Some e \<Rightarrow>
          (let (rc, e', _, m') = path_entry_var_set e m k v d in (rc, upd_at p (\<lambda>_. e') t, m')))"

text \<open>
  A hash node is appended to the list of the entry when there is one, otherwise the list is
  attached to the entry.
\<close>

definition append_node :: "digest_tree \<Rightarrow> pos \<Rightarrow> (dig_alg \<times> string) list \<Rightarrow> digest_tree" where
  "append_node t p hs = upd_at p (set_vars (\<lambda>vs. update_var vs key_entry_hash (HashNodes hs) True)) t"

definition entry_hash ::
  "digest_env \<Rightarrow> digest_tree \<Rightarrow> mem \<Rightarrow> pos \<Rightarrow> dig_alg \<Rightarrow> string \<Rightarrow> int \<times> string \<times> digest_tree \<times> mem" where
  "entry_hash env t m entry alg path =
     (case map_of (hash_nodes t entry) alg of
        Some h \<Rightarrow> (0, h, t, m)
      | None \<Rightarrow>
          (case dg_open env path of
             Inl errno \<Rightarrow> (- errno, [], t, m)
           | Inr content \<Rightarrow>
               (let (ok, m1) = c_alloc m in
                if \<not> ok then (- ENOMEM, [], t, m1)
                else let h = hash_string env alg content; hs = hash_nodes t entry in
                  if hs \<noteq> [] then (0, h, append_node t entry (hs @ [(alg, h)]), m1)
                  else let (rc, t2, m2) = tree_var_set t m1 entry key_entry_hash (HashNodes [(alg, h)]) True
                       in if rc < 0 then (rc, [], t2, m2) else (0, h, t2, m2))))"

section \<open>Creation\<close>

record digest_maker =
  mk_tree :: digest_tree
  mk_mem :: mem
  mk_pos :: nat
  mk_buffer :: string
  mk_rc :: int

definition maker_put :: "string \<Rightarrow> digest_maker \<Rightarrow> digest_maker" where
  "maker_put s mk =
     mk\<lparr>mk_buffer :=
          (if mk_pos mk < length (mk_buffer mk)
           then buf_write (mk_buffer mk) (mk_pos mk) (take (length (mk_buffer mk) - mk_pos mk) s)
           else mk_buffer mk),
        mk_pos := mk_pos mk + length s\<rparr>"

definition FIELD_SEPARATOR :: char where "FIELD_SEPARATOR = CHR '' ''"
definition RECORD_TERMINATOR :: char where "RECORD_TERMINATOR = CHR 0x0A"

definition digest_maker_cb ::
  "digest_env \<Rightarrow> dig_alg \<Rightarrow> nat \<Rightarrow> (string \<Rightarrow> nat \<Rightarrow> bool) \<Rightarrow> digest_maker foreach_cb" where
  "digest_maker_cb env alg pre wants_node mk entry path =
     (if \<not> wants_node path (length path) then (0, mk)
      else let (rc, h, t', m') = entry_hash env (mk_tree mk) (mk_mem mk) entry alg path;
               mk' = mk\<lparr>mk_tree := t', mk_mem := m'\<rparr>
           in if rc < 0 then (0, if mk_rc mk' = 0 then mk'\<lparr>mk_rc := rc\<rparr> else mk')
              else (0, maker_put [RECORD_TERMINATOR] (maker_put (drop pre path)
                         (maker_put [FIELD_SEPARATOR] (maker_put h mk')))))"

definition filter_for_author :: "string \<Rightarrow> nat \<Rightarrow> bool" where
  "filter_for_author path len \<longleftrightarrow> Signature_None = signature_name_type_length path len"

definition filter_for_distributor :: "string \<Rightarrow> nat \<Rightarrow> bool" where
  "filter_for_distributor path len \<longleftrightarrow> Signature_distributor \<noteq> signature_name_type_length path len"

text \<open>
  The value returned is the length of the whole digest, even when the buffer is too small;
  the status in \<open>mk_rc\<close> is not returned by the code.
\<close>

definition make_file_list_digest ::
  "digest_env \<Rightarrow> digest_tree \<Rightarrow> mem \<Rightarrow> pos \<Rightarrow> dig_alg \<Rightarrow> string \<Rightarrow> (string \<Rightarrow> nat \<Rightarrow> bool) \<Rightarrow>
   (nat \<times> digest_maker) option" where
  "make_file_list_digest env t m root alg buffer wants_node =
     (case path_entry_get_path t (Some root) [] of
        None \<Rightarrow> None
      | Some (pre, _) \<Rightarrow>
          (case path_entry_for_each (PATH_ENTRY_FORALL_ONLY_ADDED OR PATH_ENTRY_FORALL_ABSOLUTE) t (Some root)
                  (digest_maker_cb env alg pre wants_node)
                  \<lparr>mk_tree = t, mk_mem = m, mk_pos = 0, mk_buffer = buffer, mk_rc = 0\<rparr> of
             None \<Rightarrow> None | Some (_, mk) \<Rightarrow> Some (mk_pos mk, mk)))"

definition create_author_digest ::
  "digest_env \<Rightarrow> digest_tree \<Rightarrow> mem \<Rightarrow> pos \<Rightarrow> dig_alg \<Rightarrow> string \<Rightarrow> (nat \<times> digest_maker) option" where
  "create_author_digest env t m root alg buffer =
     make_file_list_digest env t m root alg buffer filter_for_author"

definition create_distributor_digest ::
  "digest_env \<Rightarrow> digest_tree \<Rightarrow> mem \<Rightarrow> pos \<Rightarrow> dig_alg \<Rightarrow> string \<Rightarrow> (nat \<times> digest_maker) option" where
  "create_distributor_digest env t m root alg buffer =
     make_file_list_digest env t m root alg buffer filter_for_distributor"

definition create_digest ::
  "digest_env \<Rightarrow> digest_tree \<Rightarrow> mem \<Rightarrow> pos \<Rightarrow> dig_alg \<Rightarrow> string \<Rightarrow> bool \<Rightarrow> (nat \<times> digest_maker) option" where
  "create_digest env t m root alg buffer isdistributor =
     make_file_list_digest env t m root alg buffer
       (if isdistributor then filter_for_distributor else filter_for_author)"

section \<open>Check\<close>

definition reset_idata :: "(digest_tree \<times> mem) foreach_cb" where
  "reset_idata s entry path =
     (let (rc, t', m') = tree_var_set (fst s) (snd s) entry key_reset_idata NullPtr False in (0, (t', m')))"

definition is_marked :: "digest_tree \<Rightarrow> pos \<Rightarrow> bool" where
  "is_marked t p =
     (case entry_at p t of
        None \<Rightarrow> False
      | Some e \<Rightarrow> (case path_entry_var e key_reset_idata of None \<Rightarrow> False | Some v \<Rightarrow> v \<noteq> NullPtr))"

definition check_signed :: "digest_tree \<Rightarrow> bool \<Rightarrow> nat foreach_cb" where
  "check_signed t isdistributor nrerrors entry path =
     (let issigned = is_marked t entry
      in (0, nrerrors +
             (case signature_name_type_length path (length path) of
                Signature_None \<Rightarrow> of_bool (\<not> issigned)
              | Signature_Author \<Rightarrow> of_bool (issigned \<noteq> isdistributor)
              | Signature_distributor \<Rightarrow> of_bool issigned)))"

text \<open>The first line of the text: its hash field, its name field, what follows.\<close>

definition digest_line :: "string \<Rightarrow> string \<times> string \<times> string" where
  "digest_line buf =
     (let h = takeWhile (\<lambda>c. c \<noteq> FIELD_SEPARATOR) buf;
          r = drop (length h + 1) buf;
          n = takeWhile (\<lambda>c. c \<noteq> RECORD_TERMINATOR) r
      in (h, n, drop (length n + 1) r))"

definition hash_algorithm :: "nat \<Rightarrow> dig_alg option" where
  "hash_algorithm lenh =
     (if lenh = 56 then Some GNUTLS_DIG_SHA224 else if lenh = 64 then Some GNUTLS_DIG_SHA256
      else if lenh = 96 then Some GNUTLS_DIG_SHA384 else if lenh = 128 then Some GNUTLS_DIG_SHA512
      else None)"

text \<open>
  \<open>entry_c_path\<close>: the path of the entry as the C string of the buffer of size
  \<open>PATH_MAX + 1\<close>, ended by a NUL in any case.
\<close>

definition entry_c_path :: "digest_tree \<Rightarrow> pos \<Rightarrow> string option" where
  "entry_c_path t p =
     (case path_entry_get_path t (Some p) (replicate (PATH_MAX + 1) NUL) of
        None \<Rightarrow> None
      | Some (_, buf) \<Rightarrow> Some (takeWhile (\<lambda>c. c \<noteq> NUL) (buf[PATH_MAX := NUL])))"

lemma digest_line_shorter:
  "buf \<noteq> [] \<Longrightarrow> length (snd (snd (digest_line buf))) < length buf"
  by (auto simp: digest_line_def Let_def)

text \<open>
  One line of the digest. \<open>rest\<close>, the text after the line, only plays a role in the
  comparisons of \<open>make_child\<close>, that is not called here.
\<close>

definition check_line ::
  "digest_env \<Rightarrow> digest_tree \<Rightarrow> mem \<Rightarrow> pos \<Rightarrow> string \<Rightarrow> string \<Rightarrow> (int \<times> digest_tree \<times> mem) option" where
  "check_line env t m root h n =
     (if length h = 0 \<or> length n = 0 then Some (- EINVAL, t, m)
      else let (rc, entry) = path_entry_get_length t root n (length n) in
        case entry of
          None \<Rightarrow> Some (rc, t, m)
        | Some p \<Rightarrow>
            (case hash_algorithm (length h) of
               None \<Rightarrow> Some (- EINVAL, t, m)
             | Some alg \<Rightarrow>
                 (case entry_c_path t p of
                    None \<Rightarrow> None
                  | Some path \<Rightarrow>
                      Some (let (rc, v, t1, m1) = entry_hash env t m p alg path in
                            if rc < 0 then (rc, t1, m1)
                            else if length h \<noteq> length v \<or> h \<noteq> v then (- EBADF, t1, m1)
                            else let (_, t2, m2) = tree_var_set t1 m1 p key_reset_idata MarkPtr False
                                 in (0, t2, m2)))))"

function check_lines ::
  "digest_env \<Rightarrow> digest_tree \<Rightarrow> mem \<Rightarrow> pos \<Rightarrow> string \<Rightarrow> (int \<times> digest_tree \<times> mem) option" where
  "check_lines env t m root buf =
     (if buf = [] then Some (0, t, m)
      else let (h, n, rest) = digest_line buf in
        case check_line env t m root h n of
          None \<Rightarrow> None
        | Some (rc, t', m') \<Rightarrow> if rc < 0 then Some (rc, t', m') else check_lines env t' m' root rest)"
  by pat_completeness auto
termination
  by (relation "measure (\<lambda>(env, t, m, root, buf). length buf)")
     (auto, metis digest_line_shorter snd_conv)

declare check_lines.simps [simp del]

definition check_digest ::
  "digest_env \<Rightarrow> digest_tree \<Rightarrow> mem \<Rightarrow> pos \<Rightarrow> string \<Rightarrow> bool \<Rightarrow> (int \<times> digest_tree \<times> mem) option" where
  "check_digest env t m root buf isdistributor =
     (case path_entry_for_each (PATH_ENTRY_FORALL_NO_PATH OR PATH_ENTRY_FORALL_ONLY_ADDED) t (Some root)
             reset_idata (t, m) of
        None \<Rightarrow> None
      | Some (_, (t1, m1)) \<Rightarrow>
          (case check_lines env t1 m1 root buf of
             None \<Rightarrow> None
           | Some (rc, t2, m2) \<Rightarrow>
               if rc < 0 then Some (rc, t2, m2)
               else (case path_entry_for_each PATH_ENTRY_FORALL_ONLY_ADDED t2 (Some root)
                            (check_signed t2 isdistributor) 0 of
                       None \<Rightarrow> None
                     | Some (_, nrerrors) \<Rightarrow> Some (if nrerrors = 0 then 0 else - EBADF, t2, m2))))"

definition check_author_digest ::
  "digest_env \<Rightarrow> digest_tree \<Rightarrow> mem \<Rightarrow> pos \<Rightarrow> string \<Rightarrow> (int \<times> digest_tree \<times> mem) option" where
  "check_author_digest env t m root digest = check_digest env t m root digest False"

definition check_distributor_digest ::
  "digest_env \<Rightarrow> digest_tree \<Rightarrow> mem \<Rightarrow> pos \<Rightarrow> string \<Rightarrow> (int \<times> digest_tree \<times> mem) option" where
  "check_distributor_digest env t m root digest = check_digest env t m root digest True"

section \<open>Trees under changes of variables\<close>

definition tree_ok :: "digest_tree \<Rightarrow> bool" where
  "tree_ok t \<longleftrightarrow> wf_entry t \<and> pe_name t = []"

definition same_shape :: "digest_tree \<Rightarrow> digest_tree \<Rightarrow> bool" where
  "same_shape t t' \<longleftrightarrow> (\<forall>q. map_option fst (entry_view t' q) = map_option fst (entry_view t q))"

definition var_at :: "digest_tree \<Rightarrow> pos \<Rightarrow> digest_key \<Rightarrow> digest_val option" where
  "var_at t q k = (case entry_view t q of None \<Rightarrow> None | Some (fl, vs) \<Rightarrow> map_option fst (map_of vs k))"

lemma var_at_entry: "entry_at q t = Some e \<Longrightarrow> var_at t q k = path_entry_var e k"
  by (simp add: var_at_def entry_view_def search_var_map_of)

lemma var_at_none: "entry_at q t = None \<Longrightarrow> var_at t q k = None"
  by (simp add: var_at_def entry_view_def)

lemma hash_nodes_var_at:
  "hash_nodes t q = (case var_at t q key_entry_hash of Some (HashNodes hs) \<Rightarrow> hs | _ \<Rightarrow> [])"
  by (cases "entry_at q t") (simp_all add: hash_nodes_def var_at_entry var_at_none)

lemma is_marked_var_at:
  "is_marked t q \<longleftrightarrow> var_at t q key_reset_idata \<noteq> None \<and> var_at t q key_reset_idata \<noteq> Some NullPtr"
  by (cases "entry_at q t") (auto simp: is_marked_def var_at_entry var_at_none split: option.splits)

lemma entry_view_replace:
  assumes "entry_at p t = Some e" "pe_name e' = pe_name e" "pe_children e' = pe_children e"
  shows "entry_view (upd_at p (\<lambda>_. e') t) = (entry_view t)(p \<mapsto> (pe_flags e', pe_vars e'))"
proof
  fix q
  have r: "entry_view e' r = (if r = [] then Some (pe_flags e', pe_vars e') else entry_view e r)" for r
    using assms(3) by (cases r) auto
  show "entry_view (upd_at p (\<lambda>_. e') t) q = ((entry_view t)(p \<mapsto> (pe_flags e', pe_vars e'))) q"
  proof (cases "prefix p q")
    case True
    then obtain x where "q = p @ x" by (auto simp: prefix_def)
    with assms r show ?thesis by (auto simp: entry_view_upd_at entry_view_append)
  next
    case False
    with assms show ?thesis by (auto simp: entry_view_upd_at)
  qed
qed

lemma tree_var_set_effect:
  assumes "tree_var_set t m p k v d = (rc, t', m')" "tree_ok t" "path_entry_exists t p"
  shows "tree_ok t' \<and> same_shape t t' \<and>
         (rc = 0 \<and> var_at t' = (\<lambda>q j. if q = p \<and> j = k then Some v else var_at t q j) \<or>
          rc = - ENOMEM \<and> t' = t \<and> var_at t p k = None)"
proof -
  obtain e where e: "entry_at p t = Some e" using assms(3) by (auto simp: path_entry_exists_def)
  obtain rc0 e' ds m0 where s: "path_entry_var_set e m k v d = (rc0, e', ds, m0)" by (metis prod_cases4)
  have t': "rc = rc0" "t' = upd_at p (\<lambda>_. e') t" using assms(1) e s by (auto simp: tree_var_set_def)
  have keep: "pe_name e' = pe_name e" "pe_children e' = pe_children e" "pe_flags e' = pe_flags e"
    using s by (auto simp: path_entry_var_set_def split: option.splits prod.splits if_splits)
  have view: "entry_view t' = (entry_view t)(p \<mapsto> (pe_flags e, pe_vars e'))"
    using entry_view_replace [OF e keep(1,2)] t' keep(3) by simp
  have ve: "entry_view t p = Some (pe_flags e, pe_vars e)" using e by (simp add: entry_view_def)
  have wfe: "wf_entry e" using assms(2) e by (auto simp: tree_ok_def intro: wf_entry_at)
  from s show ?thesis
  proof (cases rule: path_entry_var_set_cases)
    case set
    have "wf_entry t'"
      unfolding t' using assms(2) set(3) [OF wfe] keep(1) e
      by (intro wf_upd_at) (auto simp: tree_ok_def)
    moreover have "pe_name t' = []"
      unfolding t' using assms(2) keep(1) e by (subst pe_name_upd_at) (auto simp: tree_ok_def)
    moreover have "same_shape t t'" using view ve by (auto simp: same_shape_def)
    moreover have "var_at t' = (\<lambda>q j. if q = p \<and> j = k then Some v else var_at t q j)"
      using view ve set(2) by (auto simp: fun_eq_iff var_at_def)
    ultimately show ?thesis using t'(1) set(1) by (simp add: tree_ok_def)
  next
    case full
    then have "entry_view t' = entry_view t" using view ve by auto
    have "upd_at p (\<lambda>_. e) t = t" using e
    proof (induction p arbitrary: t)
      case (Cons n ns)
      obtain c where c: "find_child n (pe_children t) = Some c" "entry_at ns c = Some e"
        using Cons.prems by (auto split: option.splits)
      have "upd_child n (upd_at ns (\<lambda>_. e)) cs = cs" if "find_child n cs = Some c" for cs
        using that Cons.IH [OF c(2)] by (induction cs) (auto split: if_splits)
      with c(1) show ?case by (cases t) simp
    qed simp
    with full t' assms(2) ve show ?thesis by (auto simp: same_shape_def var_at_def)
  qed
qed

lemma same_shape_refl: "same_shape t t"
  by (simp add: same_shape_def)

lemma same_shape_trans: "same_shape t u \<Longrightarrow> same_shape u v \<Longrightarrow> same_shape t v"
  by (simp add: same_shape_def)

lemma same_shape_exists: "same_shape t t' \<Longrightarrow> path_entry_exists t' q = path_entry_exists t q"
  unfolding same_shape_def path_entry_exists_def
  by (metis entry_view_None map_option_is_None)

lemma same_shape_flags: "same_shape t t' \<Longrightarrow> flags_at t' q = flags_at t q"
  unfolding same_shape_def flags_at_def
  by (drule spec [of _ q]) (cases "entry_at q t"; cases "entry_at q t'"; auto simp: entry_view_def)

lemma same_shape_string: "same_shape t t' \<Longrightarrow> rel_string t' r q fl = rel_string t r q fl"
  by (simp add: rel_string_def leads_def same_shape_flags)

lemma entry_c_path_eq:
  assumes "tree_ok t" "path_entry_exists t p"
  shows "entry_c_path t p = Some (takeWhile (\<lambda>c. c \<noteq> NUL) ((fill (replicate (PATH_MAX + 1) NUL)
           (rel_string t [] p 0))[PATH_MAX := NUL]))"
proof (cases "p = []")
  case True
  have "path_entry_get_path t (Some []) b = Some (0, b)" for b
    using assms(1) unfolding path_entry_get_path_def
    by (subst path_entry_relpath.simps, subst path_entry_relpath.simps)
      (simp add: tree_ok_def name_at_def path_entry_parent_def has_flag_def)
  moreover have "fill (replicate (PATH_MAX + 1) NUL) [] = replicate (PATH_MAX + 1) NUL"
    by (simp add: fill_def drop_replicate)
  ultimately show ?thesis using True by (simp add: entry_c_path_def rel_string_def)
next
  case False
  have "path_entry_relpath t (Some ([] @ p)) b None 0 =
      Some (length (rel_string t [] p 0), fill b (rel_string t [] p 0))" for b
    using assms False by (intro path_entry_relpath_string) (auto simp: tree_ok_def)
  then show ?thesis by (simp add: entry_c_path_def path_entry_get_path_def)
qed

lemma same_shape_c_path:
  "tree_ok t \<Longrightarrow> tree_ok t' \<Longrightarrow> same_shape t t' \<Longrightarrow> path_entry_exists t p \<Longrightarrow>
   entry_c_path t' p = entry_c_path t p"
  by (simp add: entry_c_path_eq same_shape_exists same_shape_string)

section \<open>Iterations\<close>

definition short_paths :: "('k, 'v) path_entry \<Rightarrow> bool" where
  "short_paths t \<longleftrightarrow> (\<forall>q. path_entry_exists t q \<longrightarrow> length (rel_string t [] q 0) + 2 \<le> PATH_MAX)"

lemma fits_walk:
  assumes "wf_entry e" "\<And>q d. entry_at q e = Some d \<Longrightarrow> length (walk_path path e q) + 2 \<le> sz"
  shows "fits sz path e"
  using assms
proof (induction e arbitrary: path rule: wf_entry_ind)
  case (node e)
  obtain nm fl vs cs where e: "e = Entry nm fl vs cs" by (cases e)
  have "fits sz (child_path path e) c" if c: "c \<in> set cs" for c
  proof (rule node(2))
    show "c \<in> set (pe_children e)" using c e by simp
    fix q d assume d: "entry_at q c = Some d"
    have "find_child (pe_name c) cs = Some c"
      using find_child_distinct wf_entryD(1) [OF node(1)] c e by fastforce
    with d e have "entry_at (pe_name c # q) e = Some d"
      "walk_path path e (pe_name c # q) = walk_path (child_path path e) c q" by simp_all
    with node(3) [of "pe_name c # q" d] show "length (walk_path (child_path path e) c q) + 2 \<le> sz" by simp
  qed
  moreover have "length (child_path path e) + 2 \<le> sz" using node(3) [of "[]"] by simp
  ultimately show ?case using e by (auto simp: child_path_def split: if_splits)
qed

lemma short_paths_fits:
  assumes "wf_entry t" "pe_name t = []" "short_paths t"
  shows "fits PATH_MAX [] t"
proof (rule fits_walk [OF assms(1)])
  fix q d assume "entry_at q t = Some d"
  then have "path_entry_exists t q" by (simp add: path_entry_exists_def)
  with assms walk_path_root [OF assms(1,2), of q] show "length (walk_path [] t q) + 2 \<le> PATH_MAX"
    by (simp add: short_paths_def)
qed

lemma fold_nonzero_zero:
  "(\<And>s x. fst (f s x) = 0) \<Longrightarrow> fold_nonzero f xs s = (0, fold (\<lambda>x s. snd (f s x)) xs s)"
  by (induction xs arbitrary: s) (auto simp: Let_def split_beta)

text \<open>Without paths, the calls are the same but the path given is that of the start.\<close>

lemma do_foreach_no_path:
  assumes "\<not> has_flag flags PATH_ENTRY_FORALL_SILENT_ROOT" "has_flag flags PATH_ENTRY_FORALL_NO_PATH"
  shows "do_foreach fn sz flags path pos e s =
           fold_nonzero (\<lambda>s p. fn s p path) (map fst (visits flags path0 pos e)) s"
proof (induction e arbitrary: path0 pos s)
  case (Entry nm fl vs cs)
  have ch: "do_children fn sz flags path pos cs s =
      fold_nonzero (\<lambda>s p. fn s p path)
        (map fst (concat (map (\<lambda>c. visits flags path1 (pos @ [pe_name c]) c) cs))) s" for s path1
    using Entry
  proof (induction cs arbitrary: s)
    case (Cons c cs)
    then show ?case by (simp add: fold_nonzero_append split: prod.split)
  qed simp
  show ?case
    using assms
    by (simp only: do_foreach.simps Let_def simp_thms if_False if_True visits.simps
         ch [of _ "child_path path0 (Entry nm fl vs cs)"])
       (cases "has_flag flags PATH_ENTRY_FORALL_BEFORE"; cases "has_flag flags PATH_ENTRY_FORALL_AFTER";
        cases "has_flag flags PATH_ENTRY_FORALL_ONLY_ADDED"; cases "fl AND FLAGS_IS_ADDED = 0";
        simp add: fold_nonzero_append split: prod.split)
qed

definition added_at :: "('k, 'v) path_entry \<Rightarrow> pos \<Rightarrow> bool" where
  "added_at t q \<longleftrightarrow> (\<exists>d. entry_at q t = Some d \<and> path_entry_was_added d)"

lemma for_each_added_no_path:
  assumes "wf_entry t"
  shows "\<exists>ps. path_entry_for_each (PATH_ENTRY_FORALL_NO_PATH OR PATH_ENTRY_FORALL_ONLY_ADDED) t (Some []) fn s =
              Some (fold_nonzero (\<lambda>s p. fn s p []) ps s) \<and> set ps = {q. added_at t q}"
proof -
  let ?f0 = "PATH_ENTRY_FORALL_NO_PATH OR PATH_ENTRY_FORALL_ONLY_ADDED"
  let ?fl = "?f0 OR PATH_ENTRY_FORALL_AFTER"
  have fl: "\<not> has_flag ?fl PATH_ENTRY_FORALL_SILENT_ROOT" "has_flag ?fl PATH_ENTRY_FORALL_NO_PATH"
    "only_after ?fl" "has_flag ?f0 PATH_ENTRY_FORALL_NO_PATH"
    "?fl AND (PATH_ENTRY_FORALL_ABSOLUTE OR PATH_ENTRY_FORALL_NO_PATH) \<noteq> PATH_ENTRY_FORALL_ABSOLUTE"
    "?f0 AND (PATH_ENTRY_FORALL_BEFORE OR PATH_ENTRY_FORALL_AFTER) = 0"
    by (simp_all add: has_flag_def only_after_def path_flag_defs)
  have sel: "selected ?fl d \<longleftrightarrow> path_entry_was_added d" for d :: "('a, 'b) path_entry"
    by (simp add: selected_def has_flag_def path_flag_defs)
  have "path_entry_for_each ?f0 t (Some []) fn s =
      Some (fold_nonzero (\<lambda>s p. fn s p []) (map fst (visits ?fl [] [] t)) s)"
    using fl do_foreach_no_path [OF fl(1,2), of fn 0 "[]" "[]" t s "[]"]
    by (simp add: path_entry_for_each_def path_entry_for_each_in_buffer_def Let_def)
  moreover have "set (map fst (visits ?fl [] [] t)) = {q. added_at t q}"
    using visits_set [OF assms fl(3), of "[]" "[]"] sel by (force simp: added_at_def)
  ultimately show ?thesis by blast
qed

lemma for_each_added:
  assumes "wf_entry t" "pe_name t = []" "short_paths t"
  shows "\<exists>vs. path_entry_for_each PATH_ENTRY_FORALL_ONLY_ADDED t (Some []) fn s =
              Some (fold_nonzero (\<lambda>s (p, path). fn s p path) vs s) \<and>
              set vs = {(q, rel_string t [] q 0) | q. added_at t q}"
proof -
  let ?fl = "PATH_ENTRY_FORALL_ONLY_ADDED OR PATH_ENTRY_FORALL_AFTER"
  have fl: "\<not> has_flag ?fl PATH_ENTRY_FORALL_SILENT_ROOT" "\<not> has_flag ?fl PATH_ENTRY_FORALL_NO_PATH"
    "only_after ?fl" "\<not> has_flag PATH_ENTRY_FORALL_ONLY_ADDED PATH_ENTRY_FORALL_NO_PATH"
    "?fl AND (PATH_ENTRY_FORALL_ABSOLUTE OR PATH_ENTRY_FORALL_NO_PATH) \<noteq> PATH_ENTRY_FORALL_ABSOLUTE"
    "PATH_ENTRY_FORALL_ONLY_ADDED AND (PATH_ENTRY_FORALL_BEFORE OR PATH_ENTRY_FORALL_AFTER) = 0"
    by (simp_all add: has_flag_def only_after_def path_flag_defs)
  have sel: "selected ?fl d \<longleftrightarrow> path_entry_was_added d" for d :: "('a, 'b) path_entry"
    by (simp add: selected_def has_flag_def path_flag_defs)
  have "path_entry_for_each PATH_ENTRY_FORALL_ONLY_ADDED t (Some []) fn s =
      Some (fold_nonzero (\<lambda>s (p, path). fn s p path) (visits ?fl [] [] t) s)"
    using fl do_foreach_visits [OF fl(1,2) short_paths_fits [OF assms], of fn "[]" s]
    by (simp add: path_entry_for_each_def for_each_scratch_def path_entry_for_each_in_buffer_def Let_def)
  moreover have "set (visits ?fl [] [] t) = {(q, rel_string t [] q 0) | q. added_at t q}"
    using visits_set [OF assms(1) fl(3), of "[]" "[]"] walk_path_root [OF assms(1,2)] sel
    by (auto simp: added_at_def path_entry_exists_def)
  ultimately show ?thesis by blast
qed

lemma same_shape_added: "same_shape t t' \<Longrightarrow> added_at t' q = added_at t q"
  unfolding same_shape_def added_at_def
  by (drule spec [of _ q])
    (cases "entry_at q t"; cases "entry_at q t'"; auto simp: entry_view_def path_entry_was_added_def)

lemma same_shape_short: "same_shape t t' \<Longrightarrow> short_paths t \<Longrightarrow> short_paths t'"
  by (simp add: short_paths_def same_shape_exists same_shape_string)

section \<open>Integrity\<close>

text \<open>The hash that the file of an entry has, for an algorithm.\<close>

definition file_hash :: "digest_env \<Rightarrow> digest_tree \<Rightarrow> pos \<Rightarrow> dig_alg \<Rightarrow> string \<Rightarrow> bool" where
  "file_hash env t q alg h \<longleftrightarrow>
     (\<exists>path content. entry_c_path t q = Some path \<and> dg_open env path = Inr content \<and>
        h = hash_string env alg content)"

text \<open>The hashes that are kept with the entries are those of their files.\<close>

definition cache_ok :: "digest_env \<Rightarrow> digest_tree \<Rightarrow> bool" where
  "cache_ok env t \<longleftrightarrow>
     (\<forall>q alg h. path_entry_exists t q \<longrightarrow> (alg, h) \<in> set (hash_nodes t q) \<longrightarrow> file_hash env t q alg h)"

definition digest_inv :: "digest_env \<Rightarrow> digest_tree \<Rightarrow> digest_tree \<Rightarrow> bool" where
  "digest_inv env t t' \<longleftrightarrow> tree_ok t \<and> tree_ok t' \<and> same_shape t t' \<and> cache_ok env t'"

lemma file_hash_shape:
  "tree_ok t \<Longrightarrow> tree_ok t' \<Longrightarrow> same_shape t t' \<Longrightarrow> path_entry_exists t q \<Longrightarrow>
   file_hash env t' q alg h = file_hash env t q alg h"
  by (simp add: file_hash_def same_shape_c_path)

text \<open>Setting a variable keeps the invariant when a list of hashes that is set is right.\<close>

lemma digest_inv_var_set:
  assumes "digest_inv env t u" "tree_var_set u m p k v d = (rc, u', m')" "path_entry_exists u p"
    and "k = key_entry_hash \<Longrightarrow> (\<exists>hs. v = HashNodes hs \<and> (\<forall>(alg, h) \<in> set hs. file_hash env u p alg h))"
  shows "digest_inv env t u'"
proof -
  have u: "tree_ok u" "cache_ok env u" "tree_ok t" "same_shape t u"
    using assms(1) by (auto simp: digest_inv_def)
  note eff = tree_var_set_effect [OF assms(2) u(1) assms(3)]
  have "cache_ok env u'"
    unfolding cache_ok_def
  proof (intro allI impI)
    fix q alg h assume q: "path_entry_exists u' q" and h: "(alg, h) \<in> set (hash_nodes u' q)"
    have qu: "path_entry_exists u q" using q eff same_shape_exists by blast
    have "file_hash env u q alg h"
    proof (cases "rc = 0 \<and> q = p \<and> k = key_entry_hash")
      case True
      with assms(4) obtain hs where "v = HashNodes hs" "\<forall>(alg, h) \<in> set hs. file_hash env u p alg h"
        by blast
      with True h eff show ?thesis by (auto simp: hash_nodes_var_at)
    next
      case False
      then have "hash_nodes u' q = hash_nodes u q"
        using eff by (auto simp: hash_nodes_var_at)
      with h qu u(2) show ?thesis by (simp add: cache_ok_def)
    qed
    then show "file_hash env u' q alg h" using file_hash_shape [OF u(1) _ _ qu] eff by blast
  qed
  with u eff show ?thesis by (auto simp: digest_inv_def intro: same_shape_trans)
qed

lemma append_node_var_set:
  assumes "hash_nodes u p \<noteq> []"
  shows "\<exists>m'. tree_var_set u m p key_entry_hash (HashNodes hs) True = (0, append_node u p hs, m')"
proof -
  obtain e where e: "entry_at p u = Some e" using assms by (auto simp: hash_nodes_def split: option.splits)
  then have "path_entry_var e key_entry_hash \<noteq> None"
    using assms by (auto simp: hash_nodes_def split: option.splits)
  then obtain old where o: "search_var (pe_vars e) key_entry_hash = Some old"
    by (auto simp: path_entry_var_def varval_def)
  obtain k0 v0 d0 where old: "old = (k0, v0, d0)" by (cases old)
  have eq: "upd_at p (\<lambda>_. f e) u = upd_at p f u" for f :: "digest_tree \<Rightarrow> digest_tree"
    using e
  proof (induction p arbitrary: u)
    case (Cons n ns)
    obtain c where c: "find_child n (pe_children u) = Some c" "entry_at ns c = Some e"
      using Cons.prems by (auto split: option.splits)
    have "upd_child n (upd_at ns (\<lambda>_. f e)) cs = upd_child n (upd_at ns f) cs"
      if "find_child n cs = Some c" for cs
      using that Cons.IH [OF c(2)] by (induction cs) (auto split: if_splits)
    with c(1) show ?case by (cases u) simp
  qed simp
  show ?thesis
    using e o old by (simp add: tree_var_set_def path_entry_var_set_def append_node_def eq)
qed

lemma entry_hash_correct:
  assumes "entry_hash env u m p alg path = (rc, h, u', m')" "digest_inv env t u" "path_entry_exists u p"
    and "entry_c_path u p = Some path" "\<And>e. dg_open env path = Inl e \<Longrightarrow> 0 < e"
  shows "digest_inv env t u' \<and> (\<forall>q. is_marked u' q = is_marked u q) \<and>
         (rc < 0 \<or> rc = 0 \<and> file_hash env u p alg h)"
proof (cases "map_of (hash_nodes u p) alg")
  case (Some v)
  then have "(alg, v) \<in> set (hash_nodes u p)" by (rule map_of_SomeD)
  with assms(2,3) have "file_hash env u p alg v" by (auto simp: digest_inv_def cache_ok_def)
  with Some assms(1,2) show ?thesis by (simp add: entry_hash_def)
next
  case None
  show ?thesis
  proof (cases "dg_open env path")
    case (Inl e)
    with None assms show ?thesis by (auto simp: entry_hash_def)
  next
    case (Inr content)
    obtain ok m1 where c: "c_alloc m = (ok, m1)" by fastforce
    let ?h = "hash_string env alg content"
    have fh: "file_hash env u p alg ?h" using Inr assms(4) by (auto simp: file_hash_def)
    have old: "\<forall>(a, x) \<in> set (hash_nodes u p @ [(alg, ?h)]). file_hash env u p a x"
      using fh assms(2,3) by (auto simp: digest_inv_def cache_ok_def)
    show ?thesis
    proof (cases "\<not> ok \<or> hash_nodes u p = []")
      case True
      show ?thesis
      proof (cases ok)
        case False
        with None Inr c assms(1,2) show ?thesis by (auto simp: entry_hash_def)
      next
        case True
        with \<open>\<not> ok \<or> hash_nodes u p = []\<close> have hn: "hash_nodes u p = []" by simp
        obtain r2 t2 m2 where s: "tree_var_set u m1 p key_entry_hash (HashNodes [(alg, ?h)]) True = (r2, t2, m2)"
          by (metis prod_cases3)
        have inv: "digest_inv env t t2"
          using digest_inv_var_set [OF assms(2) s assms(3)] fh by simp
        have "tree_ok u" using assms(2) by (simp add: digest_inv_def)
        note eff = tree_var_set_effect [OF s this assms(3)]
        have mk: "is_marked t2 q = is_marked u q" for q
          using eff by (auto simp: is_marked_var_at)
        show ?thesis
          using None Inr c True hn s assms(1) inv mk eff fh
          by (auto simp: entry_hash_def Let_def split: if_splits)
      qed
    next
      case False
      then have hn: "ok" "hash_nodes u p \<noteq> []" by auto
      let ?u = "append_node u p (hash_nodes u p @ [(alg, ?h)])"
      obtain mx where s: "tree_var_set u m p key_entry_hash (HashNodes (hash_nodes u p @ [(alg, ?h)])) True = (0, ?u, mx)"
        using append_node_var_set [OF hn(2)] by blast
      have inv: "digest_inv env t ?u"
        using digest_inv_var_set [OF assms(2) s assms(3)] old by simp
      have "tree_ok u" using assms(2) by (simp add: digest_inv_def)
      note eff = tree_var_set_effect [OF s this assms(3)]
      have "is_marked ?u q = is_marked u q" for q
        using eff by (auto simp: is_marked_var_at)
      then show ?thesis
        using None Inr c hn assms(1) inv fh by (auto simp: entry_hash_def Let_def)
    qed
  qed
qed

text \<open>The records of a digest: its hash fields with their name fields.\<close>

function digest_records :: "string \<Rightarrow> (string \<times> string) list" where
  "digest_records buf =
     (if buf = [] then []
      else let (h, n, rest) = digest_line buf in (h, n) # digest_records rest)"
  by pat_completeness auto
termination
  by (relation "measure length") (auto, metis digest_line_shorter snd_conv)

declare digest_records.simps [simp del]

text \<open>A record vouches for an entry: it names it and holds the hash of its file.\<close>

definition vouches :: "digest_env \<Rightarrow> digest_tree \<Rightarrow> pos \<Rightarrow> pos \<Rightarrow> string \<times> string \<Rightarrow> bool" where
  "vouches env t root q rec \<longleftrightarrow>
     root @ comps (snd rec) = q \<and>
     (\<exists>alg. hash_algorithm (length (fst rec)) = Some alg \<and> file_hash env t q alg (fst rec))"

definition open_errors_positive :: "digest_env \<Rightarrow> bool" where
  "open_errors_positive env \<longleftrightarrow> (\<forall>path e. dg_open env path = Inl e \<longrightarrow> 0 < e)"

lemma check_line_correct:
  assumes "check_line env u m root h n = Some (rc, u', m')" "digest_inv env t u"
    and "path_entry_exists t root" "length n < 2 ^ 32" "open_errors_positive env"
  shows "digest_inv env t u' \<and> rc \<le> 0 \<and>
         (rc = 0 \<longrightarrow> (\<forall>q. is_marked u' q \<longrightarrow> is_marked u q \<or> vouches env t root q (h, n)))"
proof (cases "length h = 0 \<or> length n = 0")
  case True
  with assms(1,2) show ?thesis by (auto simp: check_line_def)
next
  case False
  have u: "tree_ok u" "tree_ok t" "same_shape t u" using assms(2) by (auto simp: digest_inv_def)
  have ex: "path_entry_exists u root" using assms(3) u(3) by (simp add: same_shape_exists)
  have get: "path_entry_get_length u root n (length n) =
      (if path_entry_exists u (root @ comps n) then (0, Some (root @ comps n)) else (- ENOENT, None))"
    using path_entry_get_walks [OF ex assms(4)] by (simp add: path_entry_get_def)
  show ?thesis
  proof (cases "path_entry_exists u (root @ comps n)")
    case nx: False
    with assms(1,2) False get show ?thesis by (auto simp: check_line_def)
  next
    case True
    let ?p = "root @ comps n"
    note run = assms(1) [unfolded check_line_def get]
    show ?thesis
    proof (cases "hash_algorithm (length h)")
      case None
      with run assms(2) False True show ?thesis by auto
    next
      case (Some alg)
      obtain path where path: "entry_c_path u ?p = Some path" using entry_c_path_eq [OF u(1) True] by simp
      obtain r1 v u1 m1 where e: "entry_hash env u m ?p alg path = (r1, v, u1, m1)" by (metis prod_cases4)
      have c: "digest_inv env t u1" "\<forall>q. is_marked u1 q = is_marked u q" "r1 < 0 \<or> r1 = 0 \<and> file_hash env u ?p alg v"
        using entry_hash_correct [OF e assms(2) True path] assms(5) by (auto simp: open_errors_positive_def)
      show ?thesis
      proof (cases "r1 < 0 \<or> h \<noteq> v")
        case True
        with run False \<open>path_entry_exists u ?p\<close> Some path e c(1) show ?thesis
          by (auto split: if_splits)
      next
        case hv: False
        obtain r2 u2 m2 where s: "tree_var_set u1 m1 ?p key_reset_idata MarkPtr False = (r2, u2, m2)"
          by (metis prod_cases3)
        have res: "rc = 0" "u' = u2" using run False True Some path e hv s by auto
        have ex1: "path_entry_exists u1 ?p"
          using c(1) True u(3) same_shape_exists unfolding digest_inv_def by blast
        have "digest_inv env t u2" using digest_inv_var_set [OF c(1) s ex1] by simp
        moreover have "is_marked u2 q \<longrightarrow> is_marked u1 q \<or> q = ?p" for q
          using tree_var_set_effect [OF s _ ex1] c(1) by (auto simp: digest_inv_def is_marked_var_at split: if_splits)
        moreover have "vouches env t root ?p (h, n)"
          using Some hv c(3) file_hash_shape [OF u(2,1,3)] True u(3)
          by (auto simp: vouches_def same_shape_exists)
        ultimately show ?thesis using res c(2) by auto
      qed
    qed
  qed
qed

lemma check_lines_correct:
  assumes "check_lines env u m root buf = Some (rc, u', m')" "digest_inv env t u"
    and "path_entry_exists t root" "length buf < 2 ^ 32" "open_errors_positive env" "0 \<le> rc"
  shows "rc = 0 \<and> digest_inv env t u' \<and>
         (\<forall>q. is_marked u' q \<longrightarrow> is_marked u q \<or> (\<exists>rec \<in> set (digest_records buf). vouches env t root q rec))"
  using assms
proof (induction "length buf" arbitrary: buf u m rule: less_induct)
  case less
  show ?case
  proof (cases "buf = []")
    case True
    with less.prems show ?thesis by (auto simp: check_lines.simps)
  next
    case False
    obtain h n rest where l: "digest_line buf = (h, n, rest)" by (metis prod_cases3)
    have short: "length rest < length buf" using digest_line_shorter [OF False] l by simp
    have "length n \<le> length buf"
    proof -
      have "length n \<le> length (drop (length h + 1) buf)"
        using l length_takeWhile_le [of "\<lambda>c. c \<noteq> RECORD_TERMINATOR" "drop (length h + 1) buf"]
        by (auto simp: digest_line_def Let_def)
      then show ?thesis by simp
    qed
    then have ln: "length n < 2 ^ 32" using less.prems(4) by simp
    obtain r1 u1 m1 where c: "check_line env u m root h n = Some (r1, u1, m1)"
      using less.prems(1) False l
      by (cases "check_line env u m root h n") (auto simp: check_lines.simps [of _ _ _ _ buf])
    have cl: "digest_inv env t u1 \<and> r1 \<le> 0 \<and>
         (r1 = 0 \<longrightarrow> (\<forall>q. is_marked u1 q \<longrightarrow> is_marked u q \<or> vouches env t root q (h, n)))"
      using check_line_correct [OF c less.prems(2,3) ln less.prems(5)] .
    have "\<not> r1 < 0" using less.prems(1,6) False l c by (auto simp: check_lines.simps [of _ _ _ _ buf])
    then have r1: "r1 = 0" using cl by simp
    have run: "check_lines env u1 m1 root rest = Some (rc, u', m')"
      using less.prems(1) False l c r1 by (simp add: check_lines.simps [of _ _ _ _ buf])
    have "length rest < 2 ^ 32" using short less.prems(4) by simp
    from less.hyps [OF short run _ less.prems(3) this less.prems(5,6)] cl r1 show ?thesis
      using False l by (auto simp: digest_records.simps [of buf])
  qed
qed

text \<open>The reset of the marks, over a list of positions.\<close>

lemma fold_reset:
  assumes "digest_inv env t u" "\<forall>p \<in> set ps. path_entry_exists t p"
    and "fold (\<lambda>p s. snd (reset_idata s p [])) ps (u, m) = (u', m')"
  shows "digest_inv env t u' \<and> (\<forall>q. is_marked u' q \<longrightarrow> is_marked u q \<and> q \<notin> set ps)"
  using assms
proof (induction ps arbitrary: u m)
  case (Cons p ps)
  obtain rc u1 m1 where s: "tree_var_set u m p key_reset_idata NullPtr False = (rc, u1, m1)"
    by (metis prod_cases3)
  have ex: "path_entry_exists u p"
    using Cons.prems(1,2) same_shape_exists unfolding digest_inv_def by (metis list.set_intros(1))
  have inv: "digest_inv env t u1" using digest_inv_var_set [OF Cons.prems(1) s ex] by simp
  have mk: "is_marked u1 q \<longrightarrow> is_marked u q \<and> q \<noteq> p" for q
    using tree_var_set_effect [OF s _ ex] Cons.prems(1)
    by (auto simp: digest_inv_def is_marked_var_at split: if_splits)
  have "fold (\<lambda>p s. snd (reset_idata s p [])) ps (u1, m1) = (u', m')"
    using Cons.prems(3) s by (simp add: reset_idata_def)
  from Cons.IH [OF inv _ this] Cons.prems(2) mk show ?case by auto
qed simp

lemma fold_check_signed:
  "fold (\<lambda>x s. snd (case x of (p, path) \<Rightarrow> check_signed t d s p path)) vs n =
     n + sum_list (map (\<lambda>(p, path). snd (check_signed t d 0 p path)) vs)"
  by (induction vs arbitrary: n) (auto simp: check_signed_def Let_def)

lemma check_signed_sum:
  "fold_nonzero (\<lambda>s (p, path). check_signed t d s p path) vs 0 =
     (0, sum_list (map (\<lambda>(p, path). snd (check_signed t d 0 p path)) vs))"
proof -
  have "fst (case x of (p, path) \<Rightarrow> check_signed t d s p path) = 0" for s x
    by (cases x) (simp add: check_signed_def Let_def)
  then show ?thesis
    using fold_check_signed [of t d vs 0] by (subst fold_nonzero_zero) simp_all
qed

lemma check_digest_marks:
  assumes "check_digest env t m [] buf isdist = Some (0, t', m')" "tree_ok t" "short_paths t" "cache_ok env t"
    and "length buf < 2 ^ 32" "open_errors_positive env" "added_at t q"
  shows "(\<exists>u. same_shape t u \<and> snd (check_signed u isdist 0 q (rel_string t [] q 0)) = 0 \<and>
          (is_marked u q \<longrightarrow> (\<exists>rec \<in> set (digest_records buf). vouches env t [] q rec)))"
proof -
  have inv: "digest_inv env t t" using assms(2,4) by (simp add: digest_inv_def same_shape_refl)
  have wf: "wf_entry t" "pe_name t = []" using assms(2) by (auto simp: tree_ok_def)
  obtain ps where ps: "path_entry_for_each (PATH_ENTRY_FORALL_NO_PATH OR PATH_ENTRY_FORALL_ONLY_ADDED) t (Some [])
      reset_idata (t, m) = Some (fold_nonzero (\<lambda>s p. reset_idata s p []) ps (t, m))" "set ps = {q. added_at t q}"
    using for_each_added_no_path [OF wf(1), of reset_idata "(t, m)"] by blast
  obtain u1 m1 where f: "fold (\<lambda>p s. snd (reset_idata s p [])) ps (t, m) = (u1, m1)" by fastforce
  have fz: "fold_nonzero (\<lambda>s p. reset_idata s p []) ps (t, m) = (0, (u1, m1))"
    using f by (subst fold_nonzero_zero) (auto simp: reset_idata_def split_beta)
  have "\<forall>p \<in> set ps. path_entry_exists t p" using ps(2) by (auto simp: added_at_def path_entry_exists_def)
  from fold_reset [OF inv this f] ps(2)
  have r: "digest_inv env t u1" "\<forall>q. added_at t q \<longrightarrow> \<not> is_marked u1 q" by auto
  obtain rc u2 m2 where cl: "check_lines env u1 m1 [] buf = Some (rc, u2, m2)"
    using assms(1) ps(1) fz by (cases "check_lines env u1 m1 [] buf") (auto simp: check_digest_def)
  have rc: "\<not> rc < 0" using assms(1) ps(1) fz cl by (auto simp: check_digest_def split: if_splits)
  have "path_entry_exists t []" by (simp add: path_entry_exists_def)
  from check_lines_correct [OF cl r(1) this assms(5,6)] rc
  have c: "digest_inv env t u2"
    "\<forall>q. is_marked u2 q \<longrightarrow> is_marked u1 q \<or> (\<exists>rec \<in> set (digest_records buf). vouches env t [] q rec)"
    by auto
  have sh: "same_shape t u2" "wf_entry u2" "pe_name u2 = []" using c(1) by (auto simp: digest_inv_def tree_ok_def)
  obtain vs where vs: "path_entry_for_each PATH_ENTRY_FORALL_ONLY_ADDED u2 (Some []) (check_signed u2 isdist) 0 =
      Some (fold_nonzero (\<lambda>s (p, path). check_signed u2 isdist s p path) vs 0)"
    "set vs = {(q, rel_string u2 [] q 0) | q. added_at u2 q}"
    using for_each_added [OF sh(2,3) same_shape_short [OF sh(1) assms(3)], of "check_signed u2 isdist" 0]
    by blast
  note sum = check_signed_sum [of u2 isdist vs]
  have "sum_list (map (\<lambda>(p, path). snd (check_signed u2 isdist 0 p path)) vs) = 0"
    using assms(1) ps(1) fz cl rc vs(1) sum by (auto simp: check_digest_def split: if_splits)
  then have "\<forall>(p, path) \<in> set vs. snd (check_signed u2 isdist 0 p path) = 0"
    by (auto simp: sum_list_eq_0_iff)
  moreover have "(q, rel_string t [] q 0) \<in> set vs"
    using vs(2) assms(7) sh(1) by (auto simp: same_shape_added same_shape_string)
  ultimately have "snd (check_signed u2 isdist 0 q (rel_string t [] q 0)) = 0" by blast
  with c(2) r(2) assms(7) sh(1) show ?thesis by blast
qed

lemma check_digest_vouches:
  assumes "check_digest env t m [] buf isdist = Some (0, t', m')"
    and "tree_ok t" "short_paths t" "cache_ok env t" "length buf < 2 ^ 32" "open_errors_positive env"
    and "added_at t q"
    and "signature_name_type (rel_string t [] q 0) = Signature_None \<or>
         isdist \<and> signature_name_type (rel_string t [] q 0) = Signature_Author"
  shows "\<exists>rec \<in> set (digest_records buf). vouches env t [] q rec"
proof -
  from check_digest_marks [OF assms(1-7)] obtain u where
    "snd (check_signed u isdist 0 q (rel_string t [] q 0)) = 0"
    "is_marked u q \<longrightarrow> (\<exists>rec \<in> set (digest_records buf). vouches env t [] q rec)" by blast
  with assms(8) show ?thesis
    by (auto simp: check_signed_def signature_name_type_def Let_def)
qed


text \<open>The expansion in place gives two digits per byte.\<close>

definition hex_pair :: "char \<Rightarrow> string" where
  "hex_pair c = [hex_digit (of_char c div 16), hex_digit (of_char c mod 16)]"

lemma hex_expand_correct:
  assumes "length val = 2 * length bytes" "h \<le> length bytes" "take h val = take h bytes"
    and "drop (2 * h) val = concat (map hex_pair (drop h bytes))"
  shows "hex_expand val h = concat (map hex_pair bytes)"
  using assms
proof (induction h arbitrary: val)
  case (Suc h)
  have vh: "val ! h = bytes ! h"
    using Suc.prems(2,3) by (metis lessI nth_take)
  let ?b = "of_char (val ! h) :: nat"
  let ?v = "val[2 * h + 1 := hex_digit (?b mod 16), 2 * h := hex_digit (?b div 16)]"
  have len: "2 * h + 1 < length val" using Suc.prems(1,2) by simp
  have "take h ?v = take h bytes"
  proof -
    have "take h ?v = take h val" by (simp add: take_update_cancel)
    also have "\<dots> = take h bytes" using Suc.prems(3) by (metis lessI less_imp_le_nat min.absorb1 take_take)
    finally show ?thesis .
  qed
  moreover have "drop (2 * h) ?v = concat (map hex_pair (drop h bytes))"
  proof -
    have "drop (2 * h) ?v = hex_digit (?b div 16) # hex_digit (?b mod 16) # drop (2 * Suc h) val"
      using len by (simp add: drop_update_swap Cons_nth_drop_Suc [symmetric])
    also have "\<dots> = hex_pair (bytes ! h) @ concat (map hex_pair (drop (Suc h) bytes))"
      using Suc.prems(4) vh by (simp add: hex_pair_def [of "bytes ! h"])
    also have "\<dots> = concat (map hex_pair (drop h bytes))"
      using Suc.prems(2) by (simp add: Cons_nth_drop_Suc [symmetric])
    finally show ?thesis .
  qed
  ultimately show ?case
    using Suc.IH [of ?v] Suc.prems(1,2) by (simp add: Let_def)
qed simp

lemma hash_string_hex: "hash_string env alg content = concat (map hex_pair (dg_hash env alg content))"
  unfolding hash_string_def Let_def by (rule hex_expand_correct) simp_all

definition sample_denv :: digest_env where
  "sample_denv = \<lparr>dg_open = (\<lambda>path. Inr ''x''), dg_hash = (\<lambda>alg c. replicate 32 (CHR ''A''))\<rparr>"

definition sample_package :: digest_tree where
  "sample_package = Entry [] 0 [] [Entry ''a'' FLAGS_IS_ADDED [] []]"

definition sample_digest :: string where
  "sample_digest = concat (replicate 32 ''41'') @ '' a'' @ [CHR 0x0A]"

lemma sample_package_ok: "tree_ok sample_package" "added_at sample_package [''a'']"
  by (simp_all add: sample_package_def tree_ok_def comp_name_def added_at_def path_entry_was_added_def
      FLAGS_IS_ADDED_def)

lemma sample_package_exists: "path_entry_exists sample_package q \<longleftrightarrow> q = [] \<or> q = [''a'']"
  by (cases q; cases "tl q") (auto simp: sample_package_def path_entry_exists_def)

lemma sample_package_strings:
  "rel_string sample_package [] [''a''] 0 = ''a''" "rel_string sample_package [] [] 0 = []"
  by (simp_all add: rel_string_def leads_def slashed_def has_flag_def flags_at_def sample_package_def
      FLAGS_IS_ADDED_def FLAGS_HAS_SLASH_def)

lemma sample_package_short: "short_paths sample_package"
  unfolding short_paths_def sample_package_exists
  by (auto simp: sample_package_strings PATH_MAX_def)

lemma sample_package_cache: "cache_ok env sample_package"
proof -
  have "hash_nodes sample_package q = []" for q
    by (cases q; cases "tl q")
      (auto simp: hash_nodes_def sample_package_def path_entry_var_def varval_def split: option.splits)
  then show ?thesis by (simp add: cache_ok_def)
qed

text \<open>The sample digest is accepted for the sample package.\<close>

lemma sample_hash: "hash_string sample_denv alg c = concat (replicate 32 ''41'')"
proof -
  have "hex_pair (CHR ''A'') = ''41''" by code_simp
  then show ?thesis by (simp add: hash_string_hex sample_denv_def map_replicate)
qed

lemma sample_line: "digest_line sample_digest = (concat (replicate 32 ''41''), ''a'', [])"
proof -
  have tw: "takeWhile (\<lambda>c. c \<noteq> FIELD_SEPARATOR) (concat (replicate k ''41'') @ '' '' @ r) = concat (replicate k ''41'')" for k r
    by (induction k) (simp_all add: FIELD_SEPARATOR_def)
  from tw [of 32 "''a'' @ [CHR 0x0A]"] show ?thesis
    unfolding sample_digest_def digest_line_def Let_def
    by (simp add: RECORD_TERMINATOR_def length_concat sum_list_replicate)
qed

lemma sample_reset:
  "path_entry_for_each (PATH_ENTRY_FORALL_NO_PATH OR PATH_ENTRY_FORALL_ONLY_ADDED) sample_package (Some [])
     reset_idata (sample_package, []) =
   Some (0, (Entry [] 0 [] [Entry ''a'' FLAGS_IS_ADDED [(key_reset_idata, NullPtr, False)] []], []))"
  by (simp add: path_entry_for_each_def path_entry_for_each_in_buffer_def has_flag_def path_flag_defs
      sample_package_def FLAGS_IS_ADDED_def reset_idata_def tree_var_set_def path_entry_var_set_def)

abbreviation (input) sample_marked :: "digest_val \<Rightarrow> (digest_key, digest_val) var list \<Rightarrow> digest_tree" where
  "sample_marked v vs \<equiv> Entry [] 0 [] [Entry ''a'' FLAGS_IS_ADDED (vs @ [(key_reset_idata, v, False)]) []]"

lemma sample_marked_shape: "same_shape sample_package (sample_marked v vs)"
  unfolding same_shape_def
proof
  fix q
  show "map_option fst (entry_view (sample_marked v vs) q) = map_option fst (entry_view sample_package q)"
    by (cases q; cases "tl q") (auto simp: sample_package_def split: option.splits)
qed

lemma sample_marked_ok: "distinct (map fst (vs @ [(key_reset_idata, v, False)])) \<Longrightarrow> tree_ok (sample_marked v vs)"
  by (simp add: tree_ok_def comp_name_def)

lemma sample_lines:
  "check_lines sample_denv (sample_marked NullPtr []) [] [] sample_digest =
     Some (0, sample_marked MarkPtr [(key_entry_hash, HashNodes [(GNUTLS_DIG_SHA256, concat (replicate 32 ''41''))], True)], [])"
proof -
  let ?u = "sample_marked NullPtr []"
  let ?H = "concat (replicate 32 ''41'')"
  have ex: "path_entry_exists ?u [''a'']" by (simp add: path_entry_exists_def)
  have "path_entry_get_length ?u [] ''a'' (length ''a'') = (0, Some [''a''])"
    using path_entry_get_walks [of ?u "[]" "''a''"] ex
    by (simp add: path_entry_get_def path_entry_exists_def comps_def)
  moreover obtain path where "entry_c_path ?u [''a''] = Some path"
    using entry_c_path_eq [OF sample_marked_ok ex] by simp
  moreover have "length ?H = 64" by (simp add: length_concat sum_list_replicate)
  moreover have "?H \<noteq> []" "sample_digest \<noteq> []" by (simp_all add: sample_digest_def)
  moreover have "hash_algorithm 64 = Some GNUTLS_DIG_SHA256" by (simp add: hash_algorithm_def)
  moreover have "dg_open sample_denv path = Inr ''x''" for path by (simp add: sample_denv_def)
  ultimately have "check_line sample_denv ?u [] [] ?H ''a'' =
     Some (0, sample_marked MarkPtr [(key_entry_hash, HashNodes [(GNUTLS_DIG_SHA256, ?H)], True)], [])"
    by (simp add: check_line_def entry_hash_def hash_nodes_def path_entry_var_def varval_def sample_hash
        tree_var_set_def path_entry_var_set_def Let_def)
  with \<open>sample_digest \<noteq> []\<close> show ?thesis
    by (simp add: check_lines.simps [of _ _ _ _ sample_digest] sample_line check_lines.simps [of _ _ _ _ "[]"])
qed

lemma sample_check:
  "\<exists>t'. check_digest sample_denv sample_package [] [] sample_digest False = Some (0, t', [])"
proof -
  let ?vs = "[(key_entry_hash, HashNodes [(GNUTLS_DIG_SHA256, concat (replicate 32 ''41''))], True)]"
  let ?u = "sample_marked MarkPtr ?vs"
  have u: "wf_entry ?u" "pe_name ?u = []" "short_paths ?u"
    using sample_marked_ok [of ?vs MarkPtr]
      same_shape_short [OF sample_marked_shape [of ?vs MarkPtr] sample_package_short]
    by (auto simp: tree_ok_def)
  obtain vs where vs: "path_entry_for_each PATH_ENTRY_FORALL_ONLY_ADDED ?u (Some []) (check_signed ?u False) 0 =
      Some (fold_nonzero (\<lambda>s (p, path). check_signed ?u False s p path) vs 0)"
    "set vs = {(q, rel_string ?u [] q 0) | q. added_at ?u q}"
    using for_each_added [OF u, of "check_signed ?u False" 0] by blast
  have "q = [''a'']" if "added_at ?u q" for q
    using that by (cases q; cases "tl q") (auto simp: added_at_def path_entry_was_added_def split: if_splits option.splits)
  then have single: "p = [''a'']" "path = ''a''" if "(p, path) \<in> set vs" for p path
    using that vs(2) same_shape_string [OF sample_marked_shape [of ?vs MarkPtr], of "[]" "[''a'']" 0]
    by (auto simp: sample_package_strings)
  have "is_marked ?u [''a'']"
    by (simp add: is_marked_def path_entry_var_def varval_def)
  moreover have "signature_name_type_length ''a'' (length ''a'') = Signature_None"
    by (simp add: signature_name_type_length_def signature_extension_def)
  ultimately have "snd (check_signed ?u False 0 [''a''] ''a'') = 0"
    by (simp add: check_signed_def)
  with single have "snd (check_signed ?u False 0 p path) = 0" if "(p, path) \<in> set vs" for p path
    using that by metis
  then have "\<forall>x \<in> set vs. (case x of (p, path) \<Rightarrow> snd (check_signed ?u False 0 p path)) = 0"
    by (simp only: Ball_def split_paired_All split_conv) blast
  then have "sum_list (map (\<lambda>(p, path). snd (check_signed ?u False 0 p path)) vs) = 0"
    by (simp only: sum_list_eq_0_iff set_map ball_simps)
  then have "fold_nonzero (\<lambda>s (p, path). check_signed ?u False s p path) vs 0 = (0, 0)"
    by (simp only: check_signed_sum)
  then show ?thesis
    using sample_reset sample_lines vs(1) by (simp add: check_digest_def)
qed


end
