(* ===== verification/SignedDigest.thy ===== *)
theory SignedDigest
  imports Cert Digest
begin

text \<open>
  Signed digests of packages (\<^verbatim>\<open>src/src/cert/signed-digest.c\<close>): a signature whose content is the
  digest of the files of the package, its making, its check, and the check of all the signatures
  that a package holds.

  \<open>None\<close> stands for the endless search of issuers and for the undefined behaviours of the walks.
\<close>

section \<open>Operations\<close>

definition make_signed_digest ::
  "digest_env \<Rightarrow> ('p, 'c, 'k) gnutls \<Rightarrow> digest_tree \<Rightarrow> pos \<Rightarrow> bool \<Rightarrow> dig_alg \<Rightarrow> 'k \<Rightarrow> 'c list \<Rightarrow> mem \<Rightarrow>
   (int \<times> 'p option \<times> digest_tree \<times> mem) option" where
  "make_signed_digest env gl t root isdistributor alg key certs m =
     (case create_digest env t m root alg [] isdistributor of
        None \<Rightarrow> None
      | Some (size1, mk1) \<Rightarrow>
          let (ok, m1) = c_alloc (mk_mem mk1) in
          if \<not> ok then Some (- ENOMEM, None, mk_tree mk1, m1)
          else case create_digest env (mk_tree mk1) m1 root alg (replicate size1 NUL) isdistributor of
                 None \<Rightarrow> None
               | Some (_, mk2) \<Rightarrow>
                   let (rc, p, m2) = make_signature gl (mk_buffer mk2) key certs (mk_mem mk2)
                   in Some (rc, p, mk_tree mk2, m2))"

definition check_signed_digest ::
  "nat \<Rightarrow> digest_env \<Rightarrow> ('p, 'c, 'k) gnutls \<Rightarrow> 'p \<Rightarrow> digest_tree \<Rightarrow> pos \<Rightarrow> bool \<Rightarrow> 'c list \<Rightarrow> domain_spec option \<Rightarrow> mem \<Rightarrow>
   (int \<times> domain_spec option \<times> digest_tree \<times> mem) option" where
  "check_signed_digest n env gl p t root isdistributor trustcerts spec m =
     (let (rc, data) = tl_embedded_data gl p in
      if rc \<noteq> GNUTLS_E_SUCCESS then Some (- EINVAL, spec, t, m)
      else case check_digest env t m root data isdistributor of
             None \<Rightarrow> None
           | Some (rc, t1, m1) \<Rightarrow>
               if rc < 0 then Some (rc, spec, t1, m1)
               else map_option (\<lambda>(rc, spec', m2). (rc, spec', t1, m2)) (check_signature n gl p spec trustcerts m1))"

text \<open>The closure of the walk, with the tree and the memory that the checks change.\<close>

record check_all =
  ca_spec :: "domain_spec option"
  ca_rc :: int
  ca_tree :: digest_tree
  ca_mem :: mem

definition get_domains_cb :: "string \<Rightarrow> domain_permission \<Rightarrow> check_all \<Rightarrow> check_all" where
  "get_domains_cb name perm ca =
     (if perm = domain_permission_grants
      then let (rc, spec, m) = domain_spec_set (the (ca_spec ca)) (ca_mem ca) perm name
           in ca\<lparr>ca_spec := Some spec, ca_rc := rc, ca_mem := m\<rparr>
      else ca)"

record ('p, 'c, 'k) check_env =
  ce_fuel :: nat
  ce_digest :: digest_env
  ce_gl :: "('p, 'c, 'k) gnutls"
  ce_read :: "string \<Rightarrow> int + string list"
  ce_root :: pos
  ce_trusts :: "'c list"

definition check_one_of_all :: "('p, 'c, 'k) check_env \<Rightarrow> check_all \<Rightarrow> string \<Rightarrow> bool \<Rightarrow> (bool \<times> check_all) option" where
  "check_one_of_all ce ca path isdistributor =
     (let (rc, p, m1) = read_pkcs7 (ce_gl ce) (ce_read ce) path (ca_mem ca);
          done = (\<lambda>rc ca. Some (rc = 0, ca\<lparr>ca_rc := rc\<rparr>)) in
      if rc \<noteq> 0 then done rc (ca\<lparr>ca_mem := m1\<rparr>)
      else case check_signed_digest (ce_fuel ce) (ce_digest ce) (ce_gl ce) (the p) (ca_tree ca) (ce_root ce) isdistributor
                  (ce_trusts ce) (Some []) m1 of
             None \<Rightarrow> None
           | Some (rc, specs, t2, m2) \<Rightarrow>
               let ca1 = ca\<lparr>ca_tree := t2, ca_mem := m2\<rparr> in
               if rc \<ge> 0 \<and> ca_spec ca \<noteq> None
               then let ca2 = domain_spec_enum (the specs) get_domains_cb ca1 in done (ca_rc ca2) ca2
               else done rc ca1)"

definition check_all_cb :: "('p, 'c, 'k) check_env \<Rightarrow> check_all option foreach_cb" where
  "check_all_cb ce ca entry path =
     (0, case ca of
           None \<Rightarrow> None
         | Some a \<Rightarrow>
             (case signature_name_type_length path (length path) of
                Signature_None \<Rightarrow> Some a
              | st \<Rightarrow> map_option snd (check_one_of_all ce a path (st = Signature_distributor))))"

definition check_signed_digest_of_files ::
  "('p, 'c, 'k) check_env \<Rightarrow> digest_tree \<Rightarrow> domain_spec option \<Rightarrow> mem \<Rightarrow> (int \<times> check_all) option" where
  "check_signed_digest_of_files ce t spec m =
     (case path_entry_for_each (PATH_ENTRY_FORALL_ONLY_ADDED OR PATH_ENTRY_FORALL_ABSOLUTE) t (Some (ce_root ce))
             (check_all_cb ce) (Some \<lparr>ca_spec = spec, ca_rc = 0, ca_tree = t, ca_mem = m\<rparr>) of
        Some (_, Some ca) \<Rightarrow> Some (ca_rc ca, ca)
      | _ \<Rightarrow> None)"

section \<open>Trust\<close>


definition demo_p7 :: "string \<times> string list \<times> string" where
  "demo_p7 = (sample_digest, [''ba+d'', ''ar''], ''ba'')"

definition signing_gl :: "(string \<times> string list \<times> string, string, string) gnutls" where
  "signing_gl = demo_gl\<lparr>tl_pkcs7_import := (\<lambda>d. (0, demo_p7))\<rparr>"

lemma demo_signed_digest:
  "\<exists>t. check_signed_digest 9 sample_denv signing_gl demo_p7 sample_package [] False [''rr@d''] (Some []) [] =
     Some (0, Some [\<lparr>d_name = ''d'', d_permission = 1\<rparr>], t, [])"
proof -
  obtain t where "check_digest sample_denv sample_package [] [] sample_digest False = Some (0, t, [])"
    using sample_check by blast
  moreover have "check_signature 9 signing_gl demo_p7 (Some []) [''rr@d''] [] = Some (0, Some [\<lparr>d_name = ''d'', d_permission = 1\<rparr>], [])"
    by code_simp
  moreover have "tl_embedded_data signing_gl demo_p7 = (0, sample_digest)" by (simp add: signing_gl_def demo_gl_def demo_p7_def)
  ultimately show ?thesis by (simp add: check_signed_digest_def)
qed


section \<open>All the signatures\<close>

text \<open>
  The outcome of the check of one signature of a package, from a state of the walk to the next: the error of the one that
  is rejected, nothing for one that is accepted and grants no domain, otherwise the
  status of the recording of the domains that it grants. A signature that is rejected grants nothing.
\<close>

definition outcome ::
  "('p, 'c, 'k) check_env \<Rightarrow> string \<Rightarrow> check_all \<Rightarrow> int option \<Rightarrow> check_all \<Rightarrow> bool" where
  "outcome ce path a v a' \<longleftrightarrow>
     (case read_pkcs7 (ce_gl ce) (ce_read ce) path (ca_mem a) of
        (r, p, m1) \<Rightarrow>
          if r \<noteq> 0 then v = Some r \<and> ca_tree a' = ca_tree a \<and> ca_spec a' = ca_spec a
          else case check_signed_digest (ce_fuel ce) (ce_digest ce) (ce_gl ce) (the p) (ca_tree a) (ce_root ce)
                      (signature_name_type path = Signature_distributor) (ce_trusts ce) (Some []) m1 of
                 None \<Rightarrow> False
               | Some (r, specs, t2, m2) \<Rightarrow>
                   ca_tree a' = t2 \<and>
                   (if r < 0 then v = Some r \<and> ca_spec a' = ca_spec a
                    else if list_ex (\<lambda>d. d_permission d = domain_permission_grants) (the specs)
                    then v = Some 0 \<or> v = Some (- ENOMEM)
                    else v = None \<and> ca_spec a' = ca_spec a))"

fun outcomes ::
  "('p, 'c, 'k) check_env \<Rightarrow> string list \<Rightarrow> check_all \<Rightarrow> int option list \<Rightarrow> check_all \<Rightarrow> bool" where
  "outcomes ce [] a vs a' \<longleftrightarrow> vs = [] \<and> a' = a"
| "outcomes ce (path # paths) a vs a' \<longleftrightarrow>
     (\<exists>v ws a1. vs = v # ws \<and> outcome ce path a v a1 \<and> outcomes ce paths a1 ws a')"

lemma domain_spec_set_grants:
  "domain_spec_set sp m domain_permission_grants n = (r, s, m') \<Longrightarrow> r = 0 \<or> r = - ENOMEM"
  by (auto simp: domain_spec_set_def domain_spec_set_len_def is_domain_permission_valid_def add_domain_def add_domain_len_def Let_def
       split: if_splits prod.splits)

lemma get_domains_granted:
  assumes "ca_spec ca = Some sp" and "fold (\<lambda>d. get_domains_cb (d_name d) (d_permission d)) specs ca = ca'"
  shows "ca_spec ca' \<noteq> None \<and> ca_tree ca' = ca_tree ca \<and>
    (if list_ex (\<lambda>d. d_permission d = domain_permission_grants) specs then ca_rc ca' = 0 \<or> ca_rc ca' = - ENOMEM else ca' = ca)"
  using assms
proof (induction specs arbitrary: ca sp)
  case (Cons d specs)
  show ?case
  proof (cases "d_permission d = domain_permission_grants")
    case True
    obtain r s1 m1 where set: "domain_spec_set sp (ca_mem ca) (d_permission d) (d_name d) = (r, s1, m1)" by (metis prod_cases3)
    have r: "r = 0 \<or> r = - ENOMEM" using domain_spec_set_grants set True by metis
    let ?ca = "ca\<lparr>ca_spec := Some s1, ca_rc := r, ca_mem := m1\<rparr>"
    have "get_domains_cb (d_name d) (d_permission d) ca = ?ca"
      using set True Cons.prems(1) by (simp add: get_domains_cb_def)
    then have "fold (\<lambda>d. get_domains_cb (d_name d) (d_permission d)) specs ?ca = ca'" using Cons.prems(2) by simp
    from Cons.IH [OF _ this, of s1] r True show ?thesis
      by (cases "list_ex (\<lambda>d. d_permission d = domain_permission_grants) specs") auto
  next
    case False
    then have "get_domains_cb (d_name d) (d_permission d) ca = ca" by (simp add: get_domains_cb_def)
    then show ?thesis using Cons.IH [OF Cons.prems(1)] Cons.prems(2) False
      by (cases "list_ex (\<lambda>d. d_permission d = domain_permission_grants) specs") auto
  qed
qed auto

definition latest :: "int \<Rightarrow> int option list \<Rightarrow> int" where
  "latest d vs = last (d # List.map_filter (\<lambda>v. v) vs)"

lemma latest_simps [simp]:
  "latest d [] = d" "latest d (v # vs) = latest (case v of None \<Rightarrow> d | Some r \<Rightarrow> r) vs"
  by (simp_all add: latest_def List.map_filter_def split: option.split)

lemma check_all_cb_outcome:
  assumes "signature_name_type path \<noteq> Signature_None" "ca_spec a \<noteq> None"
    and "snd (check_all_cb ce (Some a) q path) = Some a'"
  shows "\<exists>v. outcome ce path a v a' \<and> ca_spec a' \<noteq> None \<and> ca_rc a' = latest (ca_rc a) [v]"
proof -
  let ?dist = "signature_name_type path = Signature_distributor"
  obtain b where one: "check_one_of_all ce a path ?dist = Some (b, a')"
    using assms(1,3) by (cases "signature_name_type path") (auto simp: check_all_cb_def signature_name_type_def)
  obtain r p m1 where rd: "read_pkcs7 (ce_gl ce) (ce_read ce) path (ca_mem a) = (r, p, m1)" by (metis prod_cases3)
  show ?thesis
  proof (cases "r = 0")
    case False
    with one rd assms(2) show ?thesis by (auto simp: check_one_of_all_def outcome_def Let_def)
  next
    case True
    obtain r2 specs t2 m2 where ck: "check_signed_digest (ce_fuel ce) (ce_digest ce) (ce_gl ce) (the p) (ca_tree a) (ce_root ce)
        ?dist (ce_trusts ce) (Some []) m1 = Some (r2, specs, t2, m2)"
      using one rd True by (auto simp: check_one_of_all_def Let_def split: option.splits)
    let ?ca = "a\<lparr>ca_tree := t2, ca_mem := m2\<rparr>"
    obtain sp where sp: "ca_spec ?ca = Some sp" using assms(2) by auto
    note g = get_domains_granted [OF sp refl, of "the specs"]
    show ?thesis
    proof (cases "r2 < 0")
      case True
      with one rd ck \<open>r = 0\<close> assms(2) show ?thesis by (auto simp: check_one_of_all_def outcome_def Let_def)
    next
      case False
      let ?ca2 = "domain_spec_enum (the specs) get_domains_cb ?ca"
      have "a' = ?ca2\<lparr>ca_rc := ca_rc ?ca2\<rparr>"
        using one rd ck \<open>r = 0\<close> False assms(2) by (simp add: check_one_of_all_def Let_def)
      then have "a' = ?ca2" by simp
      with g rd ck \<open>r = 0\<close> False show ?thesis
        by (cases "list_ex (\<lambda>d. d_permission d = domain_permission_grants) (the specs)")
          (auto simp: outcome_def domain_spec_enum_def)
    qed
  qed
qed

lemma check_all_fold:
  assumes "fold (\<lambda>(q, path) s. snd (check_all_cb ce s q path)) fs (Some a) = Some a'" "ca_spec a \<noteq> None"
  shows "\<exists>vs. outcomes ce (filter (\<lambda>path. signature_name_type path \<noteq> Signature_None) (map snd fs)) a vs a' \<and>
    ca_rc a' = latest (ca_rc a) vs"
  using assms
proof (induction fs arbitrary: a)
  case (Cons f fs)
  obtain q path where f: "f = (q, path)" by fastforce
  show ?case
  proof (cases "signature_name_type path = Signature_None")
    case True
    then have "snd (check_all_cb ce (Some a) q path) = Some a" by (simp add: check_all_cb_def signature_name_type_def)
    with Cons True f show ?thesis by simp
  next
    case False
    have none: "fold (\<lambda>(q, path) s. snd (check_all_cb ce s q path)) fs None = None" for fs :: "(pos \<times> string) list"
      by (induction fs) (auto simp: check_all_cb_def)
    then obtain a1 where a1: "snd (check_all_cb ce (Some a) q path) = Some a1"
      using Cons.prems(1) f by (cases "snd (check_all_cb ce (Some a) q path)") auto
    from check_all_cb_outcome [OF False Cons.prems(2) a1] obtain v where
      v: "outcome ce path a v a1" "ca_spec a1 \<noteq> None" "ca_rc a1 = latest (ca_rc a) [v]" by blast
    obtain vs where "outcomes ce (filter (\<lambda>path. signature_name_type path \<noteq> Signature_None) (map snd fs)) a1 vs a'"
      "ca_rc a' = latest (ca_rc a1) vs" using Cons.IH [OF _ v(2)] Cons.prems(1) f a1 by auto
    with v f False show ?thesis by (intro exI [of _ "v # vs"]) auto
  qed
qed simp

lemma for_each_added_visits:
  assumes "wf_entry t" "pe_name t = []" "short_paths t"
    and f0: "f0 = PATH_ENTRY_FORALL_ONLY_ADDED \<or> f0 = PATH_ENTRY_FORALL_ONLY_ADDED OR PATH_ENTRY_FORALL_ABSOLUTE"
  shows "path_entry_for_each f0 t (Some []) fn s =
      Some (fold_nonzero (\<lambda>s (p, path). fn s p path) (visits (f0 OR PATH_ENTRY_FORALL_AFTER) [] [] t) s)"
    "set (visits (f0 OR PATH_ENTRY_FORALL_AFTER) [] [] t) = {(q, rel_string t [] q 0) | q. added_at t q}"
    "distinct (map fst (visits (f0 OR PATH_ENTRY_FORALL_AFTER) [] [] t))"
proof -
  let ?fl = "f0 OR PATH_ENTRY_FORALL_AFTER"
  have fl: "\<not> has_flag ?fl PATH_ENTRY_FORALL_SILENT_ROOT" "\<not> has_flag ?fl PATH_ENTRY_FORALL_NO_PATH"
    "only_after ?fl" "\<not> has_flag f0 PATH_ENTRY_FORALL_NO_PATH" "f0 AND (PATH_ENTRY_FORALL_BEFORE OR PATH_ENTRY_FORALL_AFTER) = 0"
    using f0 by (auto simp: has_flag_def only_after_def path_flag_defs)
  have sel: "selected ?fl d \<longleftrightarrow> path_entry_was_added d" for d :: "('a, 'b) path_entry"
    using f0 by (auto simp: selected_def has_flag_def path_flag_defs)
  have gp: "path_entry_get_path t (Some []) (replicate PATH_MAX NUL) = Some (0, replicate PATH_MAX NUL)"
    using assms(2)
    by (simp add: path_entry_get_path_def path_entry_relpath.simps [of t "Some []"] path_entry_relpath.simps [of t None]
        name_at_def path_entry_parent_def has_flag_def)
  show "path_entry_for_each f0 t (Some []) fn s = Some (fold_nonzero (\<lambda>s (p, path). fn s p path) (visits ?fl [] [] t) s)"
    using fl gp do_foreach_visits [OF fl(1,2) short_paths_fits [OF assms(1-3)], of fn "[]" s]
    by (simp add: path_entry_for_each_def for_each_scratch_def path_entry_for_each_in_buffer_def Let_def)
  show "set (visits ?fl [] [] t) = {(q, rel_string t [] q 0) | q. added_at t q}"
    using visits_set [OF assms(1) fl(3), of "[]" "[]"] walk_path_root [OF assms(1,2)] sel
    by (auto simp: added_at_def path_entry_exists_def)
  have "sorted_wrt (\<lambda>a b. \<not> prefix a b) (map fst (visits ?fl [] [] t))"
    using visits_order [OF assms(1) fl(3), of "[]" "[]"] by (simp add: sorted_wrt_map)
  then show "distinct (map fst (visits ?fl [] [] t))" by (rule no_prefix_distinct)
qed


text \<open>
  A package of two signatures: the first one, of a distributor, does not cover the signature of the author and is
  rejected, the second one, of the author, is accepted.
\<close>

abbreviation two_tree :: "(digest_key, digest_val) var list \<Rightarrow> digest_tree" where
  "two_tree vs \<equiv> Entry [] 0 [] [Entry ''signature-d.p7'' FLAGS_IS_ADDED vs [], Entry ''signature-author.p7'' FLAGS_IS_ADDED vs []]"

definition two_env :: "(string \<times> string list \<times> string, string, string) check_env" where
  "two_env =
     \<lparr>ce_fuel = 9, ce_digest = sample_denv,
      ce_gl = demo_gl\<lparr>tl_pkcs7_import := (\<lambda>d. (0, ([], [''ba+d'', ''ar''], ''ba'')))\<rparr>,
      ce_read = (\<lambda>path. Inr [path]), ce_root = [], ce_trusts = [''rr@d'']\<rparr>"

lemma two_tree_ok: "distinct (map fst vs) \<Longrightarrow> wf_entry (two_tree vs)"
  by (simp add: comp_name_def)

lemma two_tree_paths:
  "path_entry_exists (two_tree vs) q \<longleftrightarrow> q \<in> {[], [''signature-d.p7''], [''signature-author.p7'']}"
  "rel_string (two_tree vs) [] [] 0 = []" "rel_string (two_tree vs) [] [''signature-d.p7''] 0 = ''signature-d.p7''"
  "rel_string (two_tree vs) [] [''signature-author.p7''] 0 = ''signature-author.p7''"
  by (cases q; cases "tl q"; auto simp: path_entry_exists_def)
    (simp_all add: rel_string_def leads_def slashed_def has_flag_def flags_at_def FLAGS_IS_ADDED_def FLAGS_HAS_SLASH_def)

lemma two_tree_short: "short_paths (two_tree vs)"
  unfolding short_paths_def two_tree_paths(1) by (auto simp: two_tree_paths PATH_MAX_def)

lemma two_tree_visits:
  assumes "f0 = PATH_ENTRY_FORALL_ONLY_ADDED \<or> f0 = PATH_ENTRY_FORALL_ONLY_ADDED OR PATH_ENTRY_FORALL_ABSOLUTE" "distinct (map fst vs)"
  shows "path_entry_for_each f0 (two_tree vs) (Some []) fn s =
    Some (fold_nonzero (\<lambda>s (p, path). fn s p path)
      [([''signature-d.p7''], ''signature-d.p7''), ([''signature-author.p7''], ''signature-author.p7'')] s)"
proof -
  have "visits (f0 OR PATH_ENTRY_FORALL_AFTER) [] [] (two_tree vs) =
     [([''signature-d.p7''], ''signature-d.p7''), ([''signature-author.p7''], ''signature-author.p7'')]"
    using assms(1) by (auto simp: has_flag_def path_flag_defs child_path_def FLAGS_IS_ADDED_def FLAGS_HAS_SLASH_def)
  with for_each_added_visits(1) [OF two_tree_ok [OF assms(2)] _ two_tree_short assms(1), of fn s] show ?thesis by simp
qed

lemma two_tree_digest:
  assumes "vs = [] \<or> vs = [(key_reset_idata, NullPtr, False)]"
  shows "check_digest sample_denv (two_tree vs) [] [] [] d =
    Some (if d then - EBADF else 0, two_tree [(key_reset_idata, NullPtr, False)], [])"
proof -
  have "path_entry_for_each (PATH_ENTRY_FORALL_NO_PATH OR PATH_ENTRY_FORALL_ONLY_ADDED) (two_tree vs) (Some [])
      reset_idata (two_tree vs, []) = Some (0, (two_tree [(key_reset_idata, NullPtr, False)], []))"
    using assms by (elim disjE; hypsubst; code_simp)
  moreover have "fold_nonzero (\<lambda>s (p, path). check_signed (two_tree [(key_reset_idata, NullPtr, False)]) d s p path)
      [([''signature-d.p7''], ''signature-d.p7''), ([''signature-author.p7''], ''signature-author.p7'')] 0 = (0, of_bool d)"
    by (cases d; simp only:) code_simp+
  ultimately show ?thesis
    by (simp add: check_digest_def check_lines.simps [of _ _ _ _ "[]"] two_tree_visits)
qed

lemma two_signatures_accepted:
  "\<exists>ca. check_signed_digest_of_files two_env (two_tree []) (Some []) [] = Some (0, ca) \<and> ca_spec ca = Some [\<lparr>d_name = ''d'', d_permission = 1\<rparr>]"
proof -
  let ?u = "two_tree [(key_reset_idata, NullPtr, False)]" and ?p = "([] :: string, [''ba+d'', ''ar''], ''ba'')"
  have s: "check_signature 9 (ce_gl two_env) ?p (Some []) [''rr@d''] [] = Some (0, Some [\<lparr>d_name = ''d'', d_permission = 1\<rparr>], [])"
    by code_simp
  have e: "tl_embedded_data (ce_gl two_env) ?p = (0, [])" "ce_trusts two_env = [''rr@d'']" "ce_fuel two_env = 9"
    "ce_digest two_env = sample_denv" "ce_root two_env = []"
    by (simp_all add: two_env_def demo_gl_def)
  have rd: "read_pkcs7 (ce_gl two_env) (ce_read two_env) path [] = (0, Some ?p, [])" if "path \<noteq> []" for path
    using that by (simp add: two_env_def read_pkcs7_def read_file_def)
  have sn: "signature_name_type ''signature-d.p7'' = Signature_distributor"
    "signature_name_type ''signature-author.p7'' = Signature_Author" by code_simp+
  have one: "check_all_cb two_env (Some \<lparr>ca_spec = Some [], ca_rc = 0, ca_tree = two_tree [], ca_mem = []\<rparr>) [''signature-d.p7''] ''signature-d.p7'' =
      (0, Some \<lparr>ca_spec = Some [], ca_rc = - EBADF, ca_tree = ?u, ca_mem = []\<rparr>)"
    by (simp add: check_all_cb_def signature_name_type_def [symmetric] sn del: length_Cons list.size add: check_one_of_all_def rd e check_signed_digest_def two_tree_digest)
  have two: "check_all_cb two_env (Some \<lparr>ca_spec = Some [], ca_rc = - 9, ca_tree = ?u, ca_mem = []\<rparr>) [''signature-author.p7''] ''signature-author.p7'' =
      (0, Some \<lparr>ca_spec = Some [\<lparr>d_name = ''d'', d_permission = 1\<rparr>], ca_rc = 0, ca_tree = ?u, ca_mem = []\<rparr>)"
    by (simp add: check_all_cb_def signature_name_type_def [symmetric] sn del: length_Cons list.size add: check_one_of_all_def rd e check_signed_digest_def two_tree_digest s domain_spec_enum_def
        get_domains_cb_def domain_spec_set_def domain_spec_set_len_def is_domain_permission_valid_def get_domain_len_eq
        add_domain_def add_domain_len_def)
  show ?thesis
    by (simp add: check_signed_digest_of_files_def e two_tree_visits one two)
qed


end
