(* ===== verification/UtilsDir.thy ===== *)
theory UtilsDir
  imports PathEntry
begin

text \<open>
  Removal and creation of directories (\<^verbatim>\<open>src/src/utils/utils-dir.c\<close>).

  A directory is the list of what \<^verbatim>\<open>readdir\<close> gives, with its two entries \<^verbatim>\<open>.\<close> and \<^verbatim>\<open>..\<close>, which lead to
  directories again (\<open>Loop\<close>). The system calls may fail: the record \<open>dir_sys\<close> gives the error
  number of each call, 0 for a call that does what it has to. The number of open descriptors
  is followed.
\<close>

section \<open>Removal\<close>

datatype dnode = Reg | Loop | Dir "(string \<times> dnode) list"

record dir_sys =
  ds_fdopendir :: "string list \<Rightarrow> int"
  ds_readdir :: "string list \<Rightarrow> nat \<Rightarrow> int"
  ds_unlink :: "string list \<Rightarrow> int"
  ds_open :: "string list \<Rightarrow> int"
  ds_rmdir :: "string list \<Rightarrow> int"
  ds_dup :: "string list \<Rightarrow> int"

definition is_dots :: "string \<Rightarrow> bool" where
  "is_dots n \<longleftrightarrow> n = ''.'' \<or> n = ''..''"

text \<open>
  \<open>clean_dirfd\<close> gets the path of the directory and its content, \<open>clean_loop\<close> the position of the next entry
  to read. The descriptor is closed in any case. To remove \<open>Loop\<close> would be endless.
\<close>

fun clean_dirfd :: "dir_sys \<Rightarrow> string list \<Rightarrow> dnode \<Rightarrow> nat \<Rightarrow> (int \<times> dnode \<times> nat) option"
and clean_loop :: "dir_sys \<Rightarrow> string list \<Rightarrow> nat \<Rightarrow> (string \<times> dnode) list \<Rightarrow> nat \<Rightarrow> (int \<times> (string \<times> dnode) list \<times> nat) option" where
  "clean_dirfd sys path (Dir es) fds =
     (if ds_fdopendir sys path \<noteq> 0 then Some (- 1, Dir es, fds - 1)
      else map_option (\<lambda>(rc, es', fds'). (rc, Dir es', fds' - 1)) (clean_loop sys path 0 es fds))"
| "clean_dirfd sys path Reg fds = Some (- 1, Reg, fds - 1)"
| "clean_dirfd sys path Loop fds = None"
| "clean_loop sys path k [] fds = Some (if ds_readdir sys path k \<noteq> 0 then - 1 else 0, [], fds)"
| "clean_loop sys path k ((n, d) # es) fds =
     (if ds_readdir sys path k \<noteq> 0 then Some (- 1, (n, d) # es, fds)
      else if is_dots n then map_option (\<lambda>(rc, es', fds'). (rc, (n, d) # es', fds')) (clean_loop sys path (Suc k) es fds)
      else if ds_unlink sys (path @ [n]) \<noteq> 0 then Some (- 1, (n, d) # es, fds)
      else if d = Reg then clean_loop sys path (Suc k) es fds
      else if ds_open sys (path @ [n]) \<noteq> 0 then Some (- 1, (n, d) # es, fds)
      else case clean_dirfd sys (path @ [n]) d (Suc fds) of
             None \<Rightarrow> None
           | Some (rc, d', fds') \<Rightarrow>
               if rc \<noteq> 0 then Some (rc, (n, d') # es, fds')
               else if ds_rmdir sys (path @ [n]) \<noteq> 0 then Some (- 1, (n, d') # es, fds')
               else clean_loop sys path (Suc k) es fds')"

definition remove_directory_content_fd :: "dir_sys \<Rightarrow> string list \<Rightarrow> dnode \<Rightarrow> nat \<Rightarrow> (int \<times> dnode \<times> nat) option" where
  "remove_directory_content_fd sys path d fds =
     (if ds_dup sys path \<noteq> 0 then Some (- 1, d, fds) else clean_dirfd sys path d (Suc fds))"

text \<open>The directory of the path is that of the tree; the descriptor that is opened is duplicated, never closed.\<close>

fun lookup :: "dnode \<Rightarrow> string list \<Rightarrow> dnode option" where
  "lookup d [] = Some d"
| "lookup (Dir es) (n # p) = Option.bind (map_of es n) (\<lambda>d. lookup d p)"
| "lookup _ (n # p) = None"

fun replace :: "dnode \<Rightarrow> string list \<Rightarrow> dnode option \<Rightarrow> dnode" where
  "replace d [] x = (case x of None \<Rightarrow> d | Some y \<Rightarrow> y)"
| "replace (Dir es) [n] x =
     Dir (case x of None \<Rightarrow> filter (\<lambda>(m, d). m \<noteq> n) es | Some y \<Rightarrow> map (\<lambda>(m, d). if m = n then (m, y) else (m, d)) es)"
| "replace (Dir es) (n # p) x = Dir (map (\<lambda>(m, d). if m = n then (m, replace d p x) else (m, d)) es)"
| "replace d (n # p) x = d"

definition remove_directory_content_at :: "dir_sys \<Rightarrow> dnode \<Rightarrow> string list \<Rightarrow> nat \<Rightarrow> (int \<times> dnode \<times> nat) option" where
  "remove_directory_content_at sys root path fds =
     (case lookup root path of
        Some (Dir es) \<Rightarrow>
          if ds_open sys path \<noteq> 0 then Some (- 1, root, fds)
          else map_option (\<lambda>(rc, d, fds'). (rc, replace root path (Some d), fds'))
                 (remove_directory_content_fd sys path (Dir es) (Suc fds))
      | Some Loop \<Rightarrow> None
      | _ \<Rightarrow> Some (- 1, root, fds))"

text \<open>A directory is removed by the system only when it has nothing but its two entries.\<close>

definition rmdir :: "dir_sys \<Rightarrow> dnode \<Rightarrow> string list \<Rightarrow> int \<times> dnode" where
  "rmdir sys root path =
     (case lookup root path of
        Some (Dir es) \<Rightarrow>
          if ds_rmdir sys path \<noteq> 0 \<or> path = [] \<or> list_ex (\<lambda>(n, d). \<not> is_dots n) es then (- 1, root) else (0, replace root path None)
      | _ \<Rightarrow> (- 1, root))"

definition remove_directory_at :: "dir_sys \<Rightarrow> dnode \<Rightarrow> string list \<Rightarrow> bool \<Rightarrow> nat \<Rightarrow> (int \<times> dnode \<times> nat) option" where
  "remove_directory_at sys root path force fds =
     (case (if force then remove_directory_content_at sys root path fds else Some (0, root, fds)) of
        None \<Rightarrow> None
      | Some (rc, root', fds') \<Rightarrow>
          if rc \<noteq> 0 then Some (rc, root', fds')
          else let (rc, root'') = rmdir sys root' path in Some (rc, root'', fds'))"

section \<open>Creation\<close>

text \<open>
  The directories, as the lists of their components, and the creation of one of them, with the error number or 0;
  other errors are given by \<open>err\<close>.
\<close>

definition mkdirat :: "(string \<Rightarrow> int) \<Rightarrow> string list list \<Rightarrow> string \<Rightarrow> int \<times> string list list" where
  "mkdirat err dirs path =
     (let cs = comps path in
      if err path \<noteq> 0 then (err path, dirs)
      else if path = [] then (ENOENT, dirs)
      else if cs \<in> set dirs then (EEXIST, dirs)
      else if butlast cs \<notin> set dirs then (ENOENT, dirs)
      else (0, cs # dirs))"

text \<open>The position of the slash at or before a position, or 0.\<close>

fun prev_slash :: "string \<Rightarrow> nat \<Rightarrow> nat" where
  "prev_slash copy 0 = 0"
| "prev_slash copy (Suc l) = (if copy ! Suc l = slash then Suc l else prev_slash copy l)"

fun forward_loop :: "(string \<Rightarrow> int) \<Rightarrow> string list list \<Rightarrow> string \<Rightarrow> nat list \<Rightarrow> int \<times> string list list" where
  "forward_loop err dirs copy [] = (0, dirs)"
| "forward_loop err dirs copy (l # ls) =
     (let (rc, dirs') = mkdirat err dirs (take l copy) in
      if rc \<noteq> 0 then (rc, dirs') else forward_loop err dirs' copy ls)"

text \<open>
  The backward loop cuts the copy at its slashes; the cuts, last first, are those that the
  forward loop restores.
\<close>

lemma prev_slash_le: "prev_slash copy l \<le> l"
  by (induction l) auto

function backward_loop :: "(string \<Rightarrow> int) \<Rightarrow> string list list \<Rightarrow> string \<Rightarrow> nat \<Rightarrow> nat list \<Rightarrow> int \<times> string list list" where
  "backward_loop err dirs copy l cuts =
     (let (rc, dirs') = mkdirat err dirs (take l copy) in
      if rc = 0 then forward_loop err dirs' copy cuts
      else if rc \<noteq> ENOENT then (rc, dirs')
      else if prev_slash copy (l - 1) = 0 \<or> l = 0 then (rc, dirs')
      else backward_loop err dirs' copy (prev_slash copy (l - 1)) (l # cuts))"
  by pat_completeness auto
termination
proof (relation "measure (\<lambda>(err, dirs, copy, l, cuts). l)")
  fix dirs' l copy
  assume "\<not> (prev_slash copy (l - 1) = 0 \<or> l = 0)"
  then show "((err, dirs', copy, prev_slash copy (l - 1), l # cuts), (err, dirs, copy, l, cuts)) \<in> measure (\<lambda>(err, dirs, copy, l, cuts). l)"
    for err dirs and cuts :: "nat list" using prev_slash_le [of copy "l - 1"] by auto
qed simp

declare backward_loop.simps [simp del]

text \<open>The mode is given to the system; \<open>mkparents\<close> is not used by the code.\<close>

definition create_directory_at :: "(string \<Rightarrow> int) \<Rightarrow> string list list \<Rightarrow> string \<Rightarrow> bool \<Rightarrow> int \<times> string list list" where
  "create_directory_at err dirs directory mkparents =
     (let (rc, dirs') = mkdirat err dirs directory;
          len = length (dropWhile (\<lambda>c. c \<noteq> slash) (rev directory)) - 1 in
      if rc = 0 \<or> rc \<noteq> ENOENT then (rc, dirs')
      else if len = 0 then (rc, dirs')
      else let (rc, dirs'') = backward_loop err dirs' (take len directory) len [] in
        if rc \<noteq> 0 then (rc, dirs'') else mkdirat err dirs'' directory)"

section \<open>Removal is complete\<close>

text \<open>In a directory only the two special entries lead to directories again.\<close>

fun dnode_ok :: "dnode \<Rightarrow> bool" where
  "dnode_ok (Dir es) = list_all (\<lambda>(n, d). if is_dots n then d = Loop else dnode_ok d) es"
| "dnode_ok Reg = True"
| "dnode_ok Loop = False"

definition dots :: "(string \<times> dnode) list \<Rightarrow> (string \<times> dnode) list" where
  "dots es = filter (\<lambda>(n, d). is_dots n) es"

text \<open>What remains after an interrupted removal: some entries are gone, some are partly emptied.\<close>

inductive pruned :: "dnode \<Rightarrow> dnode \<Rightarrow> bool" and pruned_list :: "(string \<times> dnode) list \<Rightarrow> (string \<times> dnode) list \<Rightarrow> bool" where
  same: "pruned d d"
| inside: "pruned_list es es' \<Longrightarrow> pruned (Dir es) (Dir es')"
| nil: "pruned_list [] []"
| kept: "pruned d d' \<Longrightarrow> pruned_list es es' \<Longrightarrow> pruned_list ((n, d) # es) ((n, d') # es')"
| gone: "\<not> is_dots n \<Longrightarrow> pruned_list es es' \<Longrightarrow> pruned_list ((n, d) # es) es'"

lemma pruned_list_same: "pruned_list es es"
  by (induction es) (auto intro: pruned_pruned_list.intros)

lemma clean_correct:
  "dnode_ok d \<Longrightarrow> fds > 0 \<Longrightarrow> \<exists>rc d'. clean_dirfd sys path d fds = Some (rc, d', fds - 1) \<and> pruned d d' \<and>
     (rc = 0 \<longrightarrow> (\<exists>es. d = Dir es \<and> d' = Dir (dots es)))"
  "dnode_ok (Dir es) \<Longrightarrow> fds > 0 \<Longrightarrow> \<exists>rc es'. clean_loop sys path k es fds = Some (rc, es', fds) \<and> pruned_list es es' \<and>
     (rc = 0 \<longrightarrow> es' = dots es)"
proof (induction sys path d fds and sys path k es fds rule: clean_dirfd_clean_loop.induct)
  case (1 sys path es fds)
  show ?case
  proof (cases "ds_fdopendir sys path = 0")
    case True
    with 1 obtain rc es' where "clean_loop sys path 0 es fds = Some (rc, es', fds)" "pruned_list es es'" "rc = 0 \<longrightarrow> es' = dots es"
      by auto
    with True show ?thesis by (auto intro: inside)
  qed (auto intro: same)
next
  case (5 sys path k n d es fds)
  have ok: "dnode_ok (Dir es)" using "5.prems"(1) by simp
  have stop: ?case if "clean_loop sys path k ((n, d) # es) fds = Some (rc, (n, d') # es, fds)" "rc \<noteq> 0" "pruned d d'" for rc d'
    using that pruned_list_same [of es] by (auto intro: kept)
  consider (err) "ds_readdir sys path k \<noteq> 0" | (dot) "ds_readdir sys path k = 0" "is_dots n"
    | (err2) "ds_readdir sys path k = 0" "\<not> is_dots n" "ds_unlink sys (path @ [n]) \<noteq> 0 \<or> d \<noteq> Reg \<and> ds_open sys (path @ [n]) \<noteq> 0"
    | (reg) "ds_readdir sys path k = 0" "\<not> is_dots n" "ds_unlink sys (path @ [n]) = 0" "d = Reg"
    | (sub) "ds_readdir sys path k = 0" "\<not> is_dots n" "ds_unlink sys (path @ [n]) = 0" "d \<noteq> Reg" "ds_open sys (path @ [n]) = 0"
    by blast
  then show ?case
  proof cases
    case err
    then show ?thesis by (intro stop [of "- 1" d]) (auto intro: same)
  next
    case dot
    then obtain rc es' where "clean_loop sys path (Suc k) es fds = Some (rc, es', fds)" "pruned_list es es'" "rc = 0 \<longrightarrow> es' = dots es"
      using "5.IH"(1) ok "5.prems"(2) by auto
    with dot show ?thesis by (auto simp: dots_def intro: kept same)
  next
    case err2
    then show ?thesis by (intro stop [of "- 1" d]) (auto intro: same)
  next
    case reg
    then obtain rc es' where "clean_loop sys path (Suc k) es fds = Some (rc, es', fds)" "pruned_list es es'" "rc = 0 \<longrightarrow> es' = dots es"
      using "5.IH"(2) ok "5.prems"(2) by auto
    with reg show ?thesis by (auto simp: dots_def intro: gone)
  next
    case sub
    have "dnode_ok d" using "5.prems"(1) sub(2) by simp
    then obtain rc d' where c: "clean_dirfd sys (path @ [n]) d (Suc fds) = Some (rc, d', fds)" "pruned d d'"
      using "5.IH"(3) sub by auto
    show ?thesis
    proof (cases "rc = 0 \<and> ds_rmdir sys (path @ [n]) = 0")
      case True
      then obtain rc es' where "clean_loop sys path (Suc k) es fds = Some (rc, es', fds)" "pruned_list es es'" "rc = 0 \<longrightarrow> es' = dots es"
        using "5.IH"(4) [OF _ _ _ _ _ c(1) refl refl] sub ok "5.prems"(2) by auto
      with True sub c show ?thesis by (auto simp: dots_def intro: gone)
    next
      case False
      then show ?thesis using sub c by (intro stop [of "if rc = 0 then - 1 else rc" d']) auto
    qed
  qed
qed (auto intro: same nil simp: dots_def)

definition sys_ok :: "dir_sys \<Rightarrow> bool" where
  "sys_ok sys \<longleftrightarrow> (\<forall>p k. ds_fdopendir sys p = 0 \<and> ds_readdir sys p k = 0 \<and> ds_unlink sys p = 0 \<and> ds_open sys p = 0 \<and>
     ds_rmdir sys p = 0 \<and> ds_dup sys p = 0)"

lemma sys_ok_calls:
  assumes "sys_ok sys"
  shows "ds_fdopendir sys p = 0" "ds_readdir sys p k = 0" "ds_unlink sys p = 0" "ds_open sys p = 0" "ds_rmdir sys p = 0" "ds_dup sys p = 0"
  using assms by (simp_all add: sys_ok_def)

lemma clean_succeeds:
  "dnode_ok d \<Longrightarrow> d \<noteq> Reg \<Longrightarrow> sys_ok sys \<Longrightarrow> clean_dirfd sys path d fds = Some (rc, d', fds') \<Longrightarrow> rc = 0"
  "dnode_ok (Dir es) \<Longrightarrow> sys_ok sys \<Longrightarrow> clean_loop sys path k es fds = Some (rc, es', fds') \<Longrightarrow> rc = 0"
proof (induction sys path d fds and sys path k es fds arbitrary: rc d' fds' and rc es' fds' rule: clean_dirfd_clean_loop.induct)
  case (5 sys path k n d es fds)
  have sys: "ds_readdir sys path k = 0" "ds_unlink sys (path @ [n]) = 0" "ds_open sys (path @ [n]) = 0" "ds_rmdir sys (path @ [n]) = 0"
    using "5.prems"(2) by (simp_all add: sys_ok_calls)
  have ok: "dnode_ok (Dir es)" using "5.prems"(1) by simp
  consider (dot) "is_dots n" | (reg) "\<not> is_dots n" "d = Reg" | (sub) "\<not> is_dots n" "d \<noteq> Reg" by blast
  then show ?case
  proof cases
    case dot
    then obtain r where "clean_loop sys path (Suc k) es fds = Some r" "fst r = rc" using "5.prems"(3) sys by auto
    then show ?thesis using "5.IH"(1) dot sys ok "5.prems"(2) by (cases r) simp
  next
    case reg
    then show ?thesis using "5.IH"(2) sys ok "5.prems"(2,3) by simp
  next
    case sub
    obtain r d1 f1 where c: "clean_dirfd sys (path @ [n]) d (Suc fds) = Some (r, d1, f1)"
      using "5.prems"(3) sub sys by (cases "clean_dirfd sys (path @ [n]) d (Suc fds)") auto
    have "dnode_ok d" using "5.prems"(1) sub by simp
    then have "r = 0" using "5.IH"(3) c sub sys "5.prems"(2) by simp
    then show ?thesis using "5.IH"(4) [OF _ _ _ _ _ c refl refl] c sub sys ok "5.prems"(2,3) by simp
  qed
qed (auto simp: sys_ok_calls)

text \<open>Two paths, none of which is below the other.\<close>

fun apart :: "string list \<Rightarrow> string list \<Rightarrow> bool" where
  "apart (a # p) (b # q) = (a \<noteq> b \<or> apart p q)"
| "apart _ _ = False"

lemma map_of_map_if: "map_of (map (\<lambda>(m, d). if m = n then (m, f d) else (m, d)) es) k = (if k = n then map_option f (map_of es k) else map_of es k)"
  by (induction es) auto

lemma map_of_filter: "map_of (filter (\<lambda>(m, d). m \<noteq> n) es) k = (if k = n then None else map_of es k)"
  by (induction es) auto

lemma lookup_replace_same:
  "lookup root path = Some d \<Longrightarrow> path \<noteq> [] \<Longrightarrow> lookup (replace root path x) path = x"
proof (induction root path x rule: replace.induct)
  case (2 es n x)
  then show ?case by (cases x) (auto simp: map_of_filter map_of_map_if split: Option.bind_splits)
next
  case (3 es n m p x)
  then show ?case by (auto simp: map_of_map_if dest: map_of_SomeD split: Option.bind_splits)
qed auto

lemma lookup_replace_apart: "apart path q \<Longrightarrow> lookup (replace root path x) q = lookup root q"
proof (induction root path x arbitrary: q rule: replace.induct)
  case (2 es n x)
  then show ?case by (cases q; cases x) (auto simp: map_of_filter map_of_map_if)
next
  case (3 es n m p x)
  then show ?case by (cases q) (auto simp: map_of_map_if map_option_case dest: map_of_SomeD split: option.splits)
qed auto

text \<open>C32: The forced removal of a directory returns; when it succeeds the directory is gone, in any case nothing apart
  from it changes, and without error of the system it succeeds. Each call leaves one more
  descriptor open.\<close>

theorem remove_directory_removes:
  assumes "lookup root path = Some (Dir es)" "dnode_ok (Dir es)" "path \<noteq> []"
  shows "\<exists>rc root'. remove_directory_at sys root path True fds = Some (rc, root', if ds_open sys path = 0 then Suc fds else fds) \<and>
    (rc = 0 \<longrightarrow> lookup root' path = None) \<and> (\<forall>q. apart path q \<longrightarrow> lookup root' q = lookup root q) \<and> (sys_ok sys \<longrightarrow> rc = 0)"
proof (cases "ds_open sys path = 0")
  case False
  then show ?thesis using assms by (auto simp: remove_directory_at_def remove_directory_content_at_def sys_ok_def)
next
  case open_ok: True
  obtain rc d where c: "remove_directory_content_fd sys path (Dir es) (Suc fds) = Some (rc, d, Suc fds)" "rc = 0 \<longrightarrow> d = Dir (dots es)"
    "sys_ok sys \<longrightarrow> rc = 0"
  proof (cases "ds_dup sys path = 0")
    case True
    obtain rc d where "clean_dirfd sys path (Dir es) (Suc (Suc fds)) = Some (rc, d, Suc fds)" "rc = 0 \<longrightarrow> d = Dir (dots es)"
      using clean_correct(1) [OF assms(2), of "Suc (Suc fds)" sys path] by auto
    moreover from this(1) have "sys_ok sys \<longrightarrow> rc = 0" using clean_succeeds(1) [OF assms(2)] by blast
    ultimately show ?thesis using True by (intro that) (simp_all only: remove_directory_content_fd_def if_False not_True_eq_False simp_thms)
  qed (use that [of "- 1" "Dir es"] in \<open>auto simp: remove_directory_content_fd_def sys_ok_def\<close>)
  let ?root = "replace root path (Some d)"
  have at: "lookup ?root path = Some d" using lookup_replace_same [OF assms(1,3)] by simp
  have run: "remove_directory_content_at sys root path fds = Some (rc, ?root, Suc fds)"
    using assms(1) open_ok c(1) by (simp add: remove_directory_content_at_def)
  have apart: "lookup ?root q = lookup root q" if "apart path q" for q using lookup_replace_apart [OF that] .
  show ?thesis
  proof (cases "rc = 0")
    case True
    then have d: "d = Dir (dots es)" using c(2) by simp
    have "\<not> list_ex (\<lambda>(n, d). \<not> is_dots n) (dots es)" by (auto simp: dots_def list_ex_iff)
    then have "rmdir sys ?root path = (if ds_rmdir sys path \<noteq> 0 then (- 1, ?root) else (0, replace ?root path None))"
      using at d assms(3) by (simp add: rmdir_def)
    then show ?thesis using True run open_ok apart lookup_replace_apart lookup_replace_same [OF at assms(3)]
      by (auto simp: remove_directory_at_def sys_ok_def)
  qed (use run open_ok apart c(3) in \<open>auto simp: remove_directory_at_def\<close>)
qed

definition demo_sys :: dir_sys where
  "demo_sys = \<lparr>ds_fdopendir = (\<lambda>_. 0), ds_readdir = (\<lambda>_ _. 0), ds_unlink = (\<lambda>_. 0), ds_open = (\<lambda>_. 0), ds_rmdir = (\<lambda>_. 0), ds_dup = (\<lambda>_. 0)\<rparr>"

definition demo_tree :: dnode where
  "demo_tree = Dir [(''a'', Dir [(''.'', Loop), (''f'', Reg), (''..'', Loop), (''s'', Dir [(''.'', Loop)])]), (''b'', Reg)]"

theorem remove_directory_removes_witness:
  "\<exists>root'. remove_directory_at demo_sys demo_tree [''a''] True 3 = Some (0, root', 4) \<and> lookup root' [''a''] = None \<and> lookup root' [''b''] = Some Reg"
proof -
  have "sys_ok demo_sys" "ds_open demo_sys [''a''] = 0" by (simp_all add: sys_ok_def demo_sys_def)
  then show ?thesis
    using remove_directory_removes [of demo_tree "[''a'']" "[(''.'', Loop), (''f'', Reg), (''..'', Loop), (''s'', Dir [(''.'', Loop)])]" demo_sys 3]
    by (auto simp: demo_tree_def is_dots_def)
qed

section \<open>Creation makes the parents\<close>

fun slash_join :: "string list \<Rightarrow> string" where
  "slash_join [] = []"
| "slash_join [c] = c"
| "slash_join (c # cs) = c @ slash # slash_join cs"

lemma slash_join_snoc: "xs \<noteq> [] \<Longrightarrow> slash_join (xs @ [c]) = slash_join xs @ slash # c"
  by (induction xs rule: slash_join.induct) auto

lemma slash_join_take:
  "i \<le> length cs \<Longrightarrow> 0 < i \<Longrightarrow> \<exists>r. slash_join cs = slash_join (take i cs) @ r"
proof (induction cs arbitrary: i rule: rev_induct)
  case (snoc c cs)
  show ?case
  proof (cases "i = Suc (length cs)")
    case False
    then obtain r where r: "slash_join cs = slash_join (take i cs) @ r" "cs \<noteq> []" "i \<le> length cs"
      using snoc.IH [of i] snoc.prems by (cases "cs = []") auto
    then show ?thesis using slash_join_snoc [of cs c] by (intro exI [of _ "r @ slash # c"]) auto
  qed auto
qed simp

lemma take_slash_join: "i \<le> length cs \<Longrightarrow> 0 < i \<Longrightarrow> take (length (slash_join (take i cs))) (slash_join cs) = slash_join (take i cs)"
  using slash_join_take [of i cs] by auto

lemma split_slash_plain: "slash \<notin> set c \<Longrightarrow> split_slash c = [c]" "slash \<notin> set c \<Longrightarrow> split_slash (c @ slash # s) = c # split_slash s"
  by (induction c) auto

lemma comps_join: "\<forall>c \<in> set cs. comp_name c \<Longrightarrow> comps (slash_join cs) = cs"
  by (induction cs rule: slash_join.induct) (auto simp: comps_def comp_name_def split_slash_plain)

lemma take_differ: "i < j \<Longrightarrow> j \<le> length cs \<Longrightarrow> take j cs \<noteq> take i cs"
  by (auto dest: arg_cong [of _ _ length])

lemma prefixes_split: "{take j cs | j. j \<le> length cs} = insert cs {take j cs | j. j < length cs}"
  by (auto simp: le_less intro: exI [of _ "length cs"])

lemma prev_slash_skip:
  "(\<forall>j. i < j \<and> j \<le> l \<longrightarrow> copy ! j \<noteq> slash) \<Longrightarrow> i \<le> l \<Longrightarrow> (i = 0 \<or> copy ! i = slash) \<Longrightarrow> prev_slash copy l = i"
proof (induction l)
  case (Suc l)
  then show ?case by (cases "i = Suc l") auto
qed simp

lemma prev_slash_join:
  assumes "\<forall>c \<in> set cs. comp_name c" "i < length cs"
  shows "prev_slash (slash_join cs) (length (slash_join (take (Suc i) cs)) - 1) = length (slash_join (take i cs))"
proof -
  let ?J = "\<lambda>i. slash_join (take i cs)"
  have c: "comp_name (cs ! i)" using assms by simp
  obtain r where r: "slash_join cs = ?J (Suc i) @ r" using slash_join_take [of "Suc i" cs] assms(2) by auto
  show ?thesis
  proof (cases "i = 0")
    case True
    then have J: "?J (Suc i) = cs ! i" using assms(2) by (cases cs) auto
    have "slash_join cs ! j \<noteq> slash" if "j < length (cs ! i)" for j
      using that c r J by (auto simp: nth_append comp_name_def dest: nth_mem)
    moreover have "length (cs ! i) > 0" using c by (simp add: comp_name_def)
    ultimately show ?thesis using True J by (intro prev_slash_skip) auto
  next
    case False
    then have J: "?J (Suc i) = ?J i @ slash # cs ! i"
      using slash_join_snoc [of "take i cs" "cs ! i"] assms(2) by (cases "take i cs = []") (auto simp: take_Suc_conv_app_nth)
    show ?thesis
    proof (rule prev_slash_skip)
      show "\<forall>j. length (?J i) < j \<and> j \<le> length (?J (Suc i)) - 1 \<longrightarrow> slash_join cs ! j \<noteq> slash"
        using c by (auto simp: r J nth_append nth_Cons' comp_name_def dest: nth_mem)
      show "length (?J i) \<le> length (?J (Suc i)) - 1" by (simp add: J)
      show "length (?J i) = 0 \<or> slash_join cs ! length (?J i) = slash" by (simp add: r J nth_append)
    qed
  qed
qed

text \<open>The parents are present with each directory.\<close>

definition dirs_ok :: "string list list \<Rightarrow> bool" where
  "dirs_ok dirs \<longleftrightarrow> [] \<in> set dirs \<and> (\<forall>cs \<in> set dirs. butlast cs \<in> set dirs)"

lemma dirs_ok_take: "dirs_ok dirs \<Longrightarrow> take i cs \<in> set dirs \<Longrightarrow> j \<le> i \<Longrightarrow> take j cs \<in> set dirs"
proof (induction "i - j" arbitrary: j)
  case (Suc d)
  then have IH: "take (Suc j) cs \<in> set dirs" by (metis Suc_diff_Suc Suc_inject Suc_leI diff_diff_cancel diff_is_0_eq' nat.distinct(1) not_less order_less_imp_le)
  show ?case
  proof (cases "j < length cs")
    case True
    then have "take j cs = butlast (take (Suc j) cs)" by (simp add: take_Suc_conv_app_nth)
    then show ?thesis using Suc.prems(1) IH by (simp add: dirs_ok_def)
  qed (use IH in simp)
qed simp

text \<open>The creation of a prefix whose parent is present, or of one whose parent is missing.\<close>

lemma mkdirat_prefix:
  assumes "\<forall>c \<in> set cs. comp_name c" "0 < i" "i \<le> length cs" "\<forall>p. err p = 0" "take i cs \<notin> set dirs"
  shows "mkdirat err dirs (take (length (slash_join (take i cs))) (slash_join cs)) =
    (if take (i - 1) cs \<in> set dirs then (0, take i cs # dirs) else (ENOENT, dirs))"
proof -
  have t: "take (length (slash_join (take i cs))) (slash_join cs) = slash_join (take i cs)" by (rule take_slash_join [OF assms(3,2)])
  have ok: "\<forall>c \<in> set (take i cs). comp_name c" using assms(1) by (auto dest: in_set_takeD)
  have "slash_join (take i cs) \<noteq> []"
    using comps_join [OF ok] assms(2,3) by (metis comps_Nil length_greater_0_conv length_take min_less_iff_conj order_less_le_trans)
  moreover have "butlast (take i cs) = take (i - 1) cs" using assms(3) by (simp add: butlast_take)
  ultimately show ?thesis using assms(4,5) by (simp add: mkdirat_def t comps_join [OF ok])
qed

lemma forward_loop_makes:
  assumes "\<forall>c \<in> set cs. comp_name c" "\<forall>p. err p = 0"
    and "take i cs \<in> set dirs" "i \<le> length cs" "\<forall>j. i < j \<and> j \<le> length cs \<longrightarrow> take j cs \<notin> set dirs"
  shows "\<exists>dirs'. forward_loop err dirs (slash_join cs) (map (\<lambda>j. length (slash_join (take j cs))) [Suc i..<Suc (length cs)]) = (0, dirs') \<and>
    set dirs' = set dirs \<union> {take j cs | j. i < j \<and> j \<le> length cs}"
  using assms(3-5)
proof (induction "length cs - i" arbitrary: i dirs)
  case 0
  then show ?case by auto
next
  case (Suc d)
  then have i: "Suc i \<le> length cs" and d: "d = length cs - Suc i" by simp_all
  let ?dirs = "take (Suc i) cs # dirs"
  have m: "mkdirat err dirs (take (length (slash_join (take (Suc i) cs))) (slash_join cs)) = (0, ?dirs)"
    using mkdirat_prefix [OF assms(1) _ i assms(2)] Suc.prems i by simp
  have up: "[Suc i..<Suc (length cs)] = Suc i # [Suc (Suc i)..<Suc (length cs)]" using i by (simp add: upt_conv_Cons del: upt_Suc)
  have "\<forall>j. Suc i < j \<and> j \<le> length cs \<longrightarrow> take j cs \<notin> set ?dirs"
  proof (intro allI impI)
    fix j assume j: "Suc i < j \<and> j \<le> length cs"
    with Suc.prems(3) show "take j cs \<notin> set ?dirs" using take_differ [of "Suc i" j cs] by simp
  qed
  then obtain dirs' where "forward_loop err ?dirs (slash_join cs) (map (\<lambda>j. length (slash_join (take j cs))) [Suc (Suc i)..<Suc (length cs)]) = (0, dirs')"
    "set dirs' = set ?dirs \<union> {take j cs | j. Suc i < j \<and> j \<le> length cs}"
    using Suc.hyps(1) [OF d, of ?dirs] i by (auto simp del: upt_Suc)
  moreover have "{take j cs | j. i < j \<and> j \<le> length cs} = insert (take (Suc i) cs) {take j cs | j. Suc i < j \<and> j \<le> length cs}"
    using i by (auto simp: Suc_le_eq) (metis Suc_lessI)
  ultimately show ?case using m unfolding up by (auto simp del: upt_Suc)
qed

lemma backward_loop_makes:
  assumes "\<forall>c \<in> set cs. comp_name c" "\<forall>p. err p = 0" "dirs_ok dirs" "0 < i" "i \<le> length cs" "take i cs \<notin> set dirs"
  shows "\<exists>dirs'. backward_loop err dirs (slash_join cs) (length (slash_join (take i cs)))
      (map (\<lambda>j. length (slash_join (take j cs))) [Suc i..<Suc (length cs)]) = (0, dirs') \<and>
    set dirs' = set dirs \<union> {take j cs | j. j \<le> length cs}"
  using assms(4-6)
proof (induction i)
  case (Suc i)
  let ?l = "\<lambda>j. length (slash_join (take j cs))"
  note m = mkdirat_prefix [OF assms(1) Suc.prems(1,2) assms(2) Suc.prems(3)]
  show ?case
  proof (cases "take i cs \<in> set dirs")
    case True
    let ?dirs = "take (Suc i) cs # dirs"
    have out: "take j cs \<notin> set dirs" if "Suc i \<le> j" for j using dirs_ok_take [OF assms(3) _ that] Suc.prems(3) by blast
    have "take j cs \<notin> set ?dirs" if "Suc i < j" "j \<le> length cs" for j
      using take_differ [OF that] out [of j] that by simp
    then obtain dirs' where f: "forward_loop err ?dirs (slash_join cs) (map ?l [Suc (Suc i)..<Suc (length cs)]) = (0, dirs')"
      "set dirs' = set ?dirs \<union> {take j cs | j. Suc i < j \<and> j \<le> length cs}"
      using forward_loop_makes [OF assms(1,2), of "Suc i" ?dirs] Suc.prems(2) by auto
    have "take j cs \<in> set dirs \<or> j = Suc i \<or> Suc i < j" for j using dirs_ok_take [OF assms(3) True, of j] by (cases "j \<le> i") auto
    then have "set dirs' = set dirs \<union> {take j cs | j. j \<le> length cs}" using f(2) Suc.prems(2) by auto
    moreover have "backward_loop err dirs (slash_join cs) (?l (Suc i)) (map ?l [Suc (Suc i)..<Suc (length cs)]) = (0, dirs')"
      using m f(1) True by (subst backward_loop.simps) (simp del: upt_Suc)
    ultimately show ?thesis by blast
  next
    case False
    then have i: "0 < i" using assms(3) by (cases i) (auto simp: dirs_ok_def)
    have p: "prev_slash (slash_join cs) (?l (Suc i) - 1) = ?l i" using prev_slash_join [OF assms(1), of i] Suc.prems(2) by simp
    have ok: "\<forall>c \<in> set (take i cs). comp_name c" using assms(1) by (auto dest: in_set_takeD)
    have pos: "?l i \<noteq> 0"
      using comps_join [OF ok] i Suc.prems(2) by (metis Suc_leD comps_Nil length_0_conv length_take min.absorb2 not_less_zero)
    have up: "[Suc i..<Suc (length cs)] = Suc i # [Suc (Suc i)..<Suc (length cs)]" using Suc.prems(2) by (simp add: upt_conv_Cons del: upt_Suc)
    have "?l (Suc i) \<noteq> 0" using pos p prev_slash_le [of "slash_join cs" "?l (Suc i) - 1"] by linarith
    then have "backward_loop err dirs (slash_join cs) (?l (Suc i)) (map ?l [Suc (Suc i)..<Suc (length cs)]) =
        backward_loop err dirs (slash_join cs) (?l i) (map ?l [Suc i..<Suc (length cs)])"
      using m False p pos by (subst backward_loop.simps) (simp add: up del: upt_Suc)
    then show ?thesis using Suc.IH [OF i _ False] Suc.prems(2) by simp
  qed
qed simp

text \<open>C33: The creation of a directory that does not exist, under a path without empty components, succeeds when the system
  has no other error and makes exactly the directory and those of its parents that were missing.\<close>

theorem create_directory_makes_parents:
  assumes "\<forall>c \<in> set cs. comp_name c" "\<forall>p. err p = 0" "dirs_ok dirs" "cs \<notin> set dirs"
  shows "\<exists>dirs'. create_directory_at err dirs (slash_join cs) mkparents = (0, dirs') \<and> set dirs' = set dirs \<union> {take j cs | j. j \<le> length cs}"
proof -
  have ne: "cs \<noteq> []" using assms(3,4) by (auto simp: dirs_ok_def)
  have whole: "take (length (slash_join cs)) (slash_join cs) = slash_join cs" by simp
  have fin: "mkdirat err d (slash_join cs) = (if butlast cs \<in> set d then (0, cs # d) else (ENOENT, d))" if "cs \<notin> set d" for d
    using mkdirat_prefix [OF assms(1) _ order_refl assms(2), of d] that ne by (simp add: butlast_conv_take)
  show ?thesis
  proof (cases "butlast cs \<in> set dirs")
    case True
    then have "take j cs \<in> set dirs" if "j < length cs" for j
      using dirs_ok_take [OF assms(3), of "length cs - 1" cs j] that by (simp add: butlast_conv_take)
    then have "set (cs # dirs) = set dirs \<union> {take j cs | j. j \<le> length cs}" by (auto simp: prefixes_split)
    then show ?thesis using fin [OF assms(4)] True by (auto simp: create_directory_at_def)
  next
    case False
    let ?ds = "butlast cs"
    have ds: "?ds \<noteq> []" using False assms(3) by (auto simp: dirs_ok_def)
    have pos: "0 < length ?ds" using ds by (simp only: length_greater_0_conv not_False_eq_True)
    have join: "slash_join cs = slash_join ?ds @ slash # last cs" using slash_join_snoc [OF ds, of "last cs"] ne by simp
    have "comp_name (last cs)" using assms(1) ne by simp
    then have "dropWhile (\<lambda>c. c \<noteq> slash) (rev (last cs) @ slash # rev (slash_join ?ds)) = slash # rev (slash_join ?ds)"
      by (subst dropWhile_append2) (auto simp: comp_name_def)
    then have len: "length (dropWhile (\<lambda>c. c \<noteq> slash) (rev (slash_join cs))) - 1 = length (slash_join ?ds)" by (simp add: join)
    have ok: "\<forall>c \<in> set ?ds. comp_name c" using assms(1) by (auto dest: in_set_butlastD)
    have "slash_join ?ds \<noteq> []" using comps_join [OF ok] ds by (metis comps_Nil)
    moreover obtain dirs' where b: "backward_loop err dirs (slash_join ?ds) (length (slash_join ?ds)) [] = (0, dirs')"
      "set dirs' = set dirs \<union> {take j ?ds | j. j \<le> length ?ds}"
      using backward_loop_makes [OF ok assms(2,3) pos order_refl] False by auto
    moreover have "cs \<notin> set dirs'"
    proof -
      have "take j ?ds \<noteq> cs" for j using ne by (cases cs) (auto dest: arg_cong [of _ _ length])
      then show ?thesis using b(2) assms(4) by auto metis
    qed
    moreover have "butlast cs \<in> set dirs'" unfolding b(2) by (intro UnI2 CollectI exI [of _ "length ?ds"]) simp
    ultimately have "create_directory_at err dirs (slash_join cs) mkparents = (0, cs # dirs')"
      using fin [OF assms(4)] fin [of dirs'] False len by (simp add: create_directory_at_def join)
    moreover have le: "j \<le> length ?ds \<longleftrightarrow> j < length cs" for j using ne by (cases cs) (auto simp: less_Suc_eq_le)
    have "{take j ?ds | j. j \<le> length ?ds} = {take j cs | j. j < length cs}"
      unfolding le by (intro Collect_cong) (metis take_butlast)
    then have "set (cs # dirs') = set dirs \<union> {take j cs | j. j \<le> length cs}"
      using b(2) by (auto simp: prefixes_split)
    ultimately show ?thesis by blast
  qed
qed

theorem create_directory_makes_parents_witness:
  "\<exists>dirs'. create_directory_at (\<lambda>_. 0) [[''a''], []] ''a/b/c'' False = (0, dirs') \<and> [''a'', ''b''] \<in> set dirs' \<and> [''a'', ''b'', ''c''] \<in> set dirs'"
proof -
  have "\<forall>c \<in> set [''a'', ''b'', ''c'']. comp_name c" by (simp add: comp_name_def)
  moreover have "dirs_ok [[''a''], []]" by (simp add: dirs_ok_def)
  ultimately obtain dirs' where d: "create_directory_at (\<lambda>_. 0) [[''a''], []] (slash_join [''a'', ''b'', ''c'']) False = (0, dirs')"
    "set dirs' = set [[''a''], []] \<union> {take j [''a'', ''b'', ''c''] | j. j \<le> length [''a'', ''b'', ''c'']}"
    using create_directory_makes_parents [of "[''a'', ''b'', ''c'']" "\<lambda>_. 0" "[[''a''], []]" False] by auto
  have "take 2 [''a'', ''b'', ''c''] \<in> set dirs'" "take 3 [''a'', ''b'', ''c''] \<in> set dirs'"
    unfolding d(2) by (intro UnI2 CollectI exI [of _ 2] conjI refl; simp) (intro UnI2 CollectI exI [of _ 3] conjI refl; simp)
  with d(1) show ?thesis by simp
qed

text \<open>With empty components the parents can be refused.\<close>

lemma create_directory_empty_component:
  "create_directory_at (\<lambda>_. 0) [[]] ''a//b//c'' True = (EEXIST, [[''a'', ''b''], [''a''], []])"
  by code_simp

end
