(* ===== verification/Manifest.thy ===== *)
theory Manifest
  imports AFM_Prelude
begin

text \<open>
  The manifests of packages (\<^verbatim>\<open>src/src/utils/manifest.c\<close>): their checks and their
  normalisation.

  The JSON values of json-c are a type parameter with the functions that the code calls. A
  value that the code modifies in place is given back modified. The null value is the null
  pointer of C; a null pointer given to a function of the C library, or dereferenced, is the
  result \<open>None\<close>. The laws that are relied on are those of the locale \<open>json_laws\<close>; a plain
  datatype of JSON values satisfies them.
\<close>

section \<open>JSON values\<close>

datatype jtype = jtype_null | jtype_object | jtype_array | jtype_string | jtype_other

text \<open>
  \<open>jl_string\<close> is \<^verbatim>\<open>json_object_get_string\<close>, which prints the values that are not strings and
  gives a null pointer for null. \<open>jl_put_items\<close> is the array whose items have been modified.
\<close>

record 'j json_lib =
  jl_type :: "'j \<Rightarrow> jtype"
  jl_get :: "'j \<Rightarrow> string \<Rightarrow> 'j option"
  jl_string :: "'j \<Rightarrow> string option"
  jl_items :: "'j \<Rightarrow> 'j list"
  jl_fields :: "'j \<Rightarrow> (string \<times> 'j) list"
  jl_add :: "'j \<Rightarrow> string \<Rightarrow> 'j \<Rightarrow> 'j"
  jl_put_items :: "'j \<Rightarrow> 'j list \<Rightarrow> 'j"
  jl_new_object :: 'j
  jl_new_string :: "string \<Rightarrow> 'j"
  jl_pack_error :: int

definition pack_name_value :: "'j json_lib \<Rightarrow> 'j \<Rightarrow> 'j \<Rightarrow> 'j" where
  "pack_name_value jl nm val = jl_add jl (jl_add jl (jl_new_object jl) ''name'' nm) ''value'' val"

section \<open>Identifiers and versions\<close>

definition make_lowercase :: "string \<Rightarrow> string" where
  "make_lowercase s = map c_tolower s"

definition dash_to_underscore :: "string \<Rightarrow> string" where
  "dash_to_underscore s = map (\<lambda>c. if c = CHR ''-'' then CHR ''_'' else c) s"

definition version_field :: "string \<Rightarrow> string" where
  "version_field s = takeWhile (\<lambda>c. c \<noteq> CHR '' '' \<and> c \<noteq> CHR ''.'') s"

definition version_prefix :: "string \<Rightarrow> string" where
  "version_prefix v =
     (let major = version_field v; rest = drop (length major) v
      in case rest of
           c # r \<Rightarrow> if c = CHR ''.'' then major @ c # version_field r else major
         | [] \<Rightarrow> major)"

definition mkver :: "mem \<Rightarrow> string option \<Rightarrow> string option \<times> mem" where
  "mkver m version =
     (case version of
        None \<Rightarrow> (None, m)
      | Some v \<Rightarrow> let (ok, m') = c_alloc m in (if ok then Some (make_lowercase (version_prefix v)) else None, m'))"

text \<open>The option of the build \<^verbatim>\<open>DISTINCT_VERSIONS\<close> is an argument.\<close>

definition mkidaver :: "bool \<Rightarrow> mem \<Rightarrow> string \<Rightarrow> string \<Rightarrow> string option \<times> mem" where
  "mkidaver distinct_versions m idt ver =
     (let (ok, m') = c_alloc m
      in (if ok then Some (if distinct_versions then idt @ ''@'' @ ver else idt) else None, m'))"

text \<open>Two allocations may fail: that of the value and that of the entry.\<close>

definition json_add :: "'j json_lib \<Rightarrow> mem \<Rightarrow> 'j \<Rightarrow> string \<Rightarrow> string \<Rightarrow> int \<times> 'j \<times> mem" where
  "json_add jl m jso key val =
     (let (ok1, m1) = c_alloc m in
      if \<not> ok1 then (- ENOMEM, jso, m1)
      else let (ok2, m2) = c_alloc m1 in
        if \<not> ok2 then (- ENOMEM, jso, m2)
        else (0, jl_add jl jso key (jl_new_string jl val), m2))"

fun json_add_all :: "'j json_lib \<Rightarrow> mem \<Rightarrow> 'j \<Rightarrow> (string \<times> string) list \<Rightarrow> int \<times> 'j \<times> mem" where
  "json_add_all jl m jso [] = (0, jso, m)"
| "json_add_all jl m jso ((k, v) # kvs) =
     (let (rc, jso', m') = json_add jl m jso k v
      in if rc \<noteq> 0 then (rc, jso', m') else json_add_all jl m' jso' kvs)"

text \<open>
  The copies of the identifier and of the version; then what they give, when none failed.
\<close>

definition fulfill_strings :: "bool \<Rightarrow> mem \<Rightarrow> string \<Rightarrow> string option \<Rightarrow> (string \<times> string) list option \<times> mem" where
  "fulfill_strings dv m idt version =
     (let (ver, m1) = mkver m version;
          (ok, m2) = c_alloc m1
      in if \<not> ok then (None, m2)
         else let lowid = make_lowercase idt;
                  (idaver, m3) = (case ver of None \<Rightarrow> (None, m2) | Some v \<Rightarrow> mkidaver dv m2 lowid v);
                  (ok', m4) = c_alloc m3
              in (case (ok', ver, idaver) of
                    (True, Some v, Some iv) \<Rightarrow>
                      Some [(''id'', lowid), (''id-underscore'', dash_to_underscore lowid), (''idaver'', iv), (''ver'', v)]
                  | _ \<Rightarrow> None, m4))"

definition fulfill :: "'j json_lib \<Rightarrow> bool \<Rightarrow> mem \<Rightarrow> 'j \<Rightarrow> (int \<times> 'j \<times> mem) option" where
  "fulfill jl dv m jso =
     (case (jl_get jl jso ''id'', jl_get jl jso ''version'') of
        (Some jid, Some jver) \<Rightarrow>
          (case jl_string jl jid of
             None \<Rightarrow> None
           | Some idt \<Rightarrow>
               (case fulfill_strings dv m idt (jl_string jl jver) of
                  (None, m') \<Rightarrow> Some (- EINVAL, jso, m')
                | (Some kvs, m') \<Rightarrow> Some (json_add_all jl m' jso kvs)))
      | _ \<Rightarrow> Some (- EINVAL, jso, m))"

section \<open>Targets\<close>

definition retarget_item :: "'j json_lib \<Rightarrow> 'j \<Rightarrow> int \<times> 'j" where
  "retarget_item jl item =
     (if jl_type jl item \<noteq> jtype_object then (- EINVAL, item)
      else if jl_get jl item ''#target'' \<noteq> None then (0, item)
      else case jl_get jl item ''target'' of
             None \<Rightarrow> (- EINVAL, item)
           | Some targ \<Rightarrow> (0, jl_add jl item ''#target'' targ))"

definition retargets :: "'j json_lib \<Rightarrow> 'j \<Rightarrow> int \<times> 'j" where
  "retargets jl jso =
     (case jl_get jl jso ''targets'' of
        None \<Rightarrow> (- EINVAL, jso)
      | Some targets \<Rightarrow>
          if jl_type jl targets \<noteq> jtype_array then (- EINVAL, jso)
          else let rs = map (retarget_item jl) (jl_items jl targets)
               in (if \<exists>r \<in> set rs. fst r < 0 then - EINVAL else 0,
                   jl_add jl jso ''targets'' (jl_put_items jl targets (map snd rs))))"

section \<open>Permissions\<close>

definition add_perm_from_string :: "'j json_lib \<Rightarrow> mem \<Rightarrow> 'j \<Rightarrow> 'j \<Rightarrow> (int \<times> 'j \<times> mem) option" where
  "add_perm_from_string jl m perms permstring =
     (let (ok, m1) = c_alloc m in
      if \<not> ok then Some (jl_pack_error jl, perms, m1)
      else case jl_string jl permstring of
             None \<Rightarrow> None
           | Some s \<Rightarrow>
               let (ok2, m2) = c_alloc m1 in
               if ok2 then Some (0, jl_add jl perms s (pack_name_value jl permstring (jl_new_string jl ''required'')), m2)
               else Some (- 1, perms, m2))"

definition add_perm_item :: "'j json_lib \<Rightarrow> mem \<Rightarrow> 'j \<Rightarrow> string \<Rightarrow> 'j \<Rightarrow> (int \<times> 'j \<times> mem) option" where
  "add_perm_item jl m perms key item =
     (let (ok, m') = c_alloc m in if ok then Some (0, jl_add jl perms key item, m') else Some (- 1, perms, m'))"

definition process_array_perm_cb :: "'j json_lib \<Rightarrow> mem \<Rightarrow> 'j \<Rightarrow> 'j \<Rightarrow> (int \<times> 'j \<times> mem) option" where
  "process_array_perm_cb jl m perms item =
     (case jl_type jl item of
        jtype_object \<Rightarrow>
          (case (jl_get jl item ''name'', jl_get jl item ''value'') of
             (Some name, Some _) \<Rightarrow>
               (case jl_string jl name of None \<Rightarrow> None | Some s \<Rightarrow> add_perm_item jl m perms s item)
           | _ \<Rightarrow> Some (- EINVAL, perms, m))
      | jtype_string \<Rightarrow> add_perm_from_string jl m perms item
      | _ \<Rightarrow> Some (- EINVAL, perms, m))"

definition process_object_perm_cb :: "'j json_lib \<Rightarrow> mem \<Rightarrow> 'j \<Rightarrow> string \<times> 'j \<Rightarrow> (int \<times> 'j \<times> mem) option" where
  "process_object_perm_cb jl m perms field =
     (case field of (key, item) \<Rightarrow>
       (case jl_type jl item of
          jtype_object \<Rightarrow>
            (case jl_get jl item ''name'' of
               None \<Rightarrow> Some (- EINVAL, perms, m)
             | Some name \<Rightarrow>
                 (case jl_string jl name of
                    None \<Rightarrow> None
                  | Some s \<Rightarrow>
                      if key = s \<and> jl_get jl item ''value'' \<noteq> None then add_perm_item jl m perms key item
                      else Some (- EINVAL, perms, m)))
        | jtype_string \<Rightarrow>
            (let (ok, m1) = c_alloc m in
             if ok then add_perm_item jl m1 perms key (pack_name_value jl (jl_new_string jl key) item)
             else Some (jl_pack_error jl, perms, m1))
        | _ \<Rightarrow> Some (- EINVAL, perms, m)))"

text \<open>
  \<^verbatim>\<open>rp_jsonc_array_until\<close> and \<^verbatim>\<open>rp_jsonc_object_until\<close>: the callback is called for each item until
  it answers something else than 0, which is then the result.
\<close>

fun json_until :: "(mem \<Rightarrow> 'j \<Rightarrow> 'a \<Rightarrow> (int \<times> 'j \<times> mem) option) \<Rightarrow> mem \<Rightarrow> 'j \<Rightarrow> 'a list \<Rightarrow> (int \<times> 'j \<times> mem) option" where
  "json_until f m j [] = Some (0, j, m)"
| "json_until f m j (x # xs) =
     (case f m j x of
        None \<Rightarrow> None
      | Some (rc, j', m') \<Rightarrow> if rc \<noteq> 0 then Some (rc, j', m') else json_until f m' j' xs)"

definition collect_permissions :: "'j json_lib \<Rightarrow> mem \<Rightarrow> 'j \<Rightarrow> (int \<times> 'j \<times> mem) option" where
  "collect_permissions jl m perms =
     (case jl_type jl perms of
        jtype_array \<Rightarrow> json_until (process_array_perm_cb jl) m (jl_new_object jl) (jl_items jl perms)
      | jtype_object \<Rightarrow> json_until (process_object_perm_cb jl) m (jl_new_object jl) (jl_fields jl perms)
      | jtype_string \<Rightarrow> add_perm_from_string jl m (jl_new_object jl) perms
      | _ \<Rightarrow> Some (- EINVAL, jl_new_object jl, m))"

definition adapt_permissions_of :: "'j json_lib \<Rightarrow> mem \<Rightarrow> 'j \<Rightarrow> (int \<times> 'j \<times> mem) option" where
  "adapt_permissions_of jl m jso =
     (if jl_type jl jso \<noteq> jtype_object then Some (- EINVAL, jso, m)
      else case jl_get jl jso ''required-permission'' of
        None \<Rightarrow> Some (0, jso, m)
      | Some perms \<Rightarrow>
          if jl_type jl perms \<notin> {jtype_array, jtype_object, jtype_string} then Some (- EINVAL, jso, m)
          else let (ok, m1) = c_alloc m in
            if \<not> ok then Some (- ENOMEM, jso, m1)
            else map_option (\<lambda>(rc, out, m2). (rc, if rc < 0 then jso else jl_add jl jso ''required-permission'' out, m2))
                   (collect_permissions jl m1 perms))"

text \<open>The targets adapted so far when the loop stops remain adapted.\<close>

fun adapt_targets :: "'j json_lib \<Rightarrow> mem \<Rightarrow> 'j list \<Rightarrow> (int \<times> 'j list \<times> mem) option" where
  "adapt_targets jl m [] = Some (0, [], m)"
| "adapt_targets jl m (t # ts) =
     (case adapt_permissions_of jl m t of
        None \<Rightarrow> None
      | Some (rc, t', m') \<Rightarrow>
          if rc \<noteq> 0 then Some (rc, t' # ts, m')
          else map_option (\<lambda>(rc, ts', m2). (rc, t' # ts', m2)) (adapt_targets jl m' ts))"

definition adapt_all_permissions :: "'j json_lib \<Rightarrow> mem \<Rightarrow> 'j \<Rightarrow> (int \<times> 'j \<times> mem) option" where
  "adapt_all_permissions jl m jso =
     (case adapt_permissions_of jl m jso of
        None \<Rightarrow> None
      | Some (rc, jso1, m1) \<Rightarrow>
          if rc < 0 then Some (rc, jso1, m1)
          else case jl_get jl jso1 ''targets'' of
            None \<Rightarrow> Some (- EINVAL, jso1, m1)
          | Some targets \<Rightarrow>
              if jl_type jl targets \<noteq> jtype_array then Some (- EINVAL, jso1, m1)
              else map_option (\<lambda>(rc, ts, m2). (rc, jl_add jl jso1 ''targets'' (jl_put_items jl targets ts), m2))
                     (adapt_targets jl m1 (jl_items jl targets)))"

section \<open>Checks and reading\<close>

definition c_isalnum :: "char \<Rightarrow> bool" where
  "c_isalnum c \<longleftrightarrow> is_digit c \<or> (65 \<le> (of_char c :: nat) \<and> (of_char c :: nat) \<le> 90) \<or>
     (97 \<le> (of_char c :: nat) \<and> (of_char c :: nat) \<le> 122)"

definition valid_char :: "char \<Rightarrow> bool" where
  "valid_char c \<longleftrightarrow> c_isalnum c \<or> c \<in> set ''.-_''"

definition check_valid_string :: "'j json_lib \<Rightarrow> 'j \<Rightarrow> string \<Rightarrow> int option" where
  "check_valid_string jl jso key =
     (case jl_get jl jso key of
        None \<Rightarrow> Some (- EINVAL)
      | Some jval \<Rightarrow>
          (case jl_string jl jval of
             None \<Rightarrow> None
           | Some val \<Rightarrow> Some (if val = [] \<or> \<not> list_all valid_char val then - EINVAL else 0)))"

definition manifest_check :: "'j json_lib \<Rightarrow> 'j \<Rightarrow> int option" where
  "manifest_check jl jso =
     (case jl_get jl jso ''rp-manifest'' of
        None \<Rightarrow> Some (- EINVAL)
      | Some jval \<Rightarrow>
          (case jl_string jl jval of
             None \<Rightarrow> None
           | Some s \<Rightarrow>
               if s \<noteq> ''1'' then Some (- EINVAL)
               else (case check_valid_string jl jso ''id'' of
                       Some rc \<Rightarrow> if rc = 0 then check_valid_string jl jso ''version'' else Some rc
                     | None \<Rightarrow> None)))"

definition manifest_normalize :: "'j json_lib \<Rightarrow> bool \<Rightarrow> mem \<Rightarrow> 'j \<Rightarrow> (int \<times> 'j \<times> mem) option" where
  "manifest_normalize jl dv m jso =
     (case fulfill jl dv m jso of
        None \<Rightarrow> None
      | Some (rc, jso1, m1) \<Rightarrow>
          if rc < 0 then Some (rc, jso1, m1)
          else let (rc, jso2) = retargets jl jso1 in
            if rc < 0 then Some (rc, jso2, m1) else adapt_all_permissions jl m1 jso2)"

text \<open>\<open>rd\<close> is \<^verbatim>\<open>rp_yaml_path_to_json_c\<close>; \<open>null\<close> tells the null value, which is a null pointer.\<close>

definition manifest_read :: "'j json_lib \<Rightarrow> (string \<Rightarrow> int \<times> 'j option) \<Rightarrow> string \<Rightarrow> int \<times> 'j option" where
  "manifest_read jl rd path =
     (let (rc, obj) = rd path in
      if rc < 0 then (rc, obj)
      else case obj of
             None \<Rightarrow> (- EBADF, None)
           | Some j \<Rightarrow> if jl_type jl j = jtype_null then (- EBADF, None) else (rc, Some j))"

definition manifest_read_and_check ::
  "'j json_lib \<Rightarrow> bool \<Rightarrow> (string \<Rightarrow> int \<times> 'j option) \<Rightarrow> mem \<Rightarrow> string \<Rightarrow> (int \<times> 'j option \<times> mem) option" where
  "manifest_read_and_check jl dv rd m path =
     (case manifest_read jl rd path of
        (rc, obj) \<Rightarrow>
          if rc < 0 then Some (rc, obj, m)
          else case obj of
                 None \<Rightarrow> None
               | Some j \<Rightarrow>
                   (case manifest_check jl j of
                      None \<Rightarrow> None
                    | Some rc \<Rightarrow>
                        if rc < 0 then Some (rc, None, m)
                        else map_option (\<lambda>(rc, j', m'). (rc, if rc < 0 then None else Some j', m'))
                               (manifest_normalize jl dv m j)))"

section \<open>Canonical manifests\<close>

text \<open>
  The canonical form of permissions: an object whose fields are objects that have a value
  and are named as their keys. What a manifest gives may be less regular; \<open>permission_names\<close>
  are the permissions it tells, in each of the forms that are accepted.
\<close>

definition canonical_permission :: "'j json_lib \<Rightarrow> string \<Rightarrow> 'j \<Rightarrow> bool" where
  "canonical_permission jl k p \<longleftrightarrow> jl_type jl p = jtype_object \<and>
     (\<exists>n. jl_get jl p ''name'' = Some n \<and> jl_string jl n = Some k) \<and> jl_get jl p ''value'' \<noteq> None"

definition canonical_permissions :: "'j json_lib \<Rightarrow> string set \<Rightarrow> 'j \<Rightarrow> bool" where
  "canonical_permissions jl ks ps \<longleftrightarrow> jl_type jl ps = jtype_object \<and> {k. jl_get jl ps k \<noteq> None} = ks \<and>
     (\<forall>k p. jl_get jl ps k = Some p \<longrightarrow> canonical_permission jl k p)"

definition item_name :: "'j json_lib \<Rightarrow> 'j \<Rightarrow> string" where
  "item_name jl item =
     (if jl_type jl item = jtype_string then the (jl_string jl item)
      else the (jl_string jl (the (jl_get jl item ''name''))))"

definition permission_names :: "'j json_lib \<Rightarrow> 'j \<Rightarrow> string list" where
  "permission_names jl perms =
     (case jl_type jl perms of
        jtype_array \<Rightarrow> map (item_name jl) (jl_items jl perms)
      | jtype_object \<Rightarrow> map fst (jl_fields jl perms)
      | _ \<Rightarrow> [item_name jl perms])"

text \<open>The permissions of a part of the manifest, given and canonical.\<close>

definition permissions_adapted :: "'j json_lib \<Rightarrow> 'j \<Rightarrow> 'j \<Rightarrow> bool" where
  "permissions_adapted jl jso jso' \<longleftrightarrow>
     (case jl_get jl jso ''required-permission'' of
        None \<Rightarrow> jl_get jl jso' ''required-permission'' = None
      | Some ps \<Rightarrow> (\<exists>ps'. jl_get jl jso' ''required-permission'' = Some ps' \<and>
                       canonical_permissions jl (set (permission_names jl ps)) ps'))"

definition target_normalized :: "'j json_lib \<Rightarrow> 'j \<Rightarrow> 'j \<Rightarrow> bool" where
  "target_normalized jl t t' \<longleftrightarrow> jl_type jl t' = jtype_object \<and> permissions_adapted jl t t' \<and>
     jl_get jl t' ''#target'' = (case jl_get jl t ''#target'' of Some x \<Rightarrow> Some x | None \<Rightarrow> jl_get jl t ''target'') \<and>
     jl_get jl t' ''#target'' \<noteq> None \<and>
     (\<forall>k. k \<noteq> ''#target'' \<longrightarrow> k \<noteq> ''required-permission'' \<longrightarrow> jl_get jl t' k = jl_get jl t k)"

text \<open>The identifiers that are added, as functions of the identifier and of the version.\<close>

definition identity_fields :: "bool \<Rightarrow> string \<Rightarrow> string \<Rightarrow> (string \<times> string) list" where
  "identity_fields dv idt v =
     (let lowid = make_lowercase idt; ver = make_lowercase (version_prefix v)
      in [(''id'', lowid), (''id-underscore'', dash_to_underscore lowid),
          (''idaver'', if dv then lowid @ ''@'' @ ver else lowid), (''ver'', ver)])"

definition manifest_normalized :: "'j json_lib \<Rightarrow> bool \<Rightarrow> 'j \<Rightarrow> 'j \<Rightarrow> bool" where
  "manifest_normalized jl dv jso jso' \<longleftrightarrow>
     (\<exists>jid jver idt v. jl_get jl jso ''id'' = Some jid \<and> jl_get jl jso ''version'' = Some jver \<and>
        jl_string jl jid = Some idt \<and> jl_string jl jver = Some v \<and>
        (\<forall>(k, s) \<in> set (identity_fields dv idt v). jl_get jl jso' k = Some (jl_new_string jl s)) \<and>
        (\<forall>k. k \<notin> set (map fst (identity_fields dv idt v)) \<union> {''targets'', ''required-permission''} \<longrightarrow>
           jl_get jl jso' k = jl_get jl jso k)) \<and>
     permissions_adapted jl jso jso' \<and>
     (\<exists>ts ts'. jl_get jl jso ''targets'' = Some ts \<and> jl_get jl jso' ''targets'' = Some ts' \<and>
        jl_type jl ts' = jtype_array \<and> list_all2 (target_normalized jl) (jl_items jl ts) (jl_items jl ts'))"

locale json_laws =
  fixes jl :: "'j json_lib"
  assumes get_add: "jl_type jl j = jtype_object \<Longrightarrow> jl_get jl (jl_add jl j k v) k' = (if k' = k then Some v else jl_get jl j k')"
    and type_add: "jl_type jl j = jtype_object \<Longrightarrow> jl_type jl (jl_add jl j k v) = jtype_object"
    and get_object: "jl_get jl j k = Some v \<Longrightarrow> jl_type jl j = jtype_object"
    and new_object: "jl_type jl (jl_new_object jl) = jtype_object" "jl_get jl (jl_new_object jl) k = None"
    and new_string: "jl_type jl (jl_new_string jl s) = jtype_string" "jl_string jl (jl_new_string jl s) = Some s"
    and put_items: "jl_type jl a = jtype_array \<Longrightarrow> jl_items jl (jl_put_items jl a xs) = xs"
      "jl_type jl a = jtype_array \<Longrightarrow> jl_type jl (jl_put_items jl a xs) = jtype_array"
    and pack_error: "jl_pack_error jl < 0"
begin

lemma pack_canonical:
  assumes "jl_string jl nm = Some k"
  shows "canonical_permission jl k (pack_name_value jl nm val)"
  using assms by (simp add: canonical_permission_def pack_name_value_def get_add type_add new_object)

lemma canonical_add:
  assumes "canonical_permissions jl ks ps" "canonical_permission jl k p"
  shows "canonical_permissions jl (insert k ks) (jl_add jl ps k p)"
  using assms by (auto simp: canonical_permissions_def get_add type_add)

lemma canonical_new: "canonical_permissions jl {} (jl_new_object jl)"
  by (simp add: canonical_permissions_def new_object)

lemma add_perm_item_canonical:
  assumes "canonical_permissions jl ks ps" "canonical_permission jl k item" "add_perm_item jl m ps k item = Some (rc, ps', m')"
  shows "rc \<le> 0 \<and> (rc = 0 \<longrightarrow> canonical_permissions jl (insert k ks) ps')"
  using assms canonical_add [OF assms(1,2)] by (auto simp: add_perm_item_def Let_def split: prod.splits if_splits)

lemma add_perm_from_string_canonical:
  assumes "canonical_permissions jl ks ps" "add_perm_from_string jl m ps item = Some (rc, ps', m')"
  shows "rc \<le> 0 \<and> (rc = 0 \<longrightarrow> canonical_permissions jl (insert (the (jl_string jl item)) ks) ps')"
  using assms canonical_add [OF assms(1) pack_canonical] pack_error
  by (auto simp: add_perm_from_string_def Let_def split: prod.splits if_splits option.splits)

lemma array_perm_canonical:
  assumes "canonical_permissions jl ks ps" "process_array_perm_cb jl m ps item = Some (rc, ps', m')"
  shows "rc \<le> 0 \<and> (rc = 0 \<longrightarrow> canonical_permissions jl (insert (item_name jl item) ks) ps')"
proof (cases "jl_type jl item")
  case jtype_object
  show ?thesis
  proof (cases "jl_get jl item ''name'' = None \<or> jl_get jl item ''value'' = None")
    case True
    with jtype_object assms(2) show ?thesis by (auto simp: process_array_perm_cb_def split: option.splits)
  next
    case False
    then obtain n v where nv: "jl_get jl item ''name'' = Some n" "jl_get jl item ''value'' = Some v" by auto
    with jtype_object assms(2) obtain s where "jl_string jl n = Some s" "add_perm_item jl m ps s item = Some (rc, ps', m')"
      by (auto simp: process_array_perm_cb_def split: option.splits)
    moreover have "canonical_permission jl s item"
      using nv jtype_object calculation(1) by (simp add: canonical_permission_def)
    ultimately show ?thesis
      using nv jtype_object add_perm_item_canonical [OF assms(1)] by (simp add: item_name_def)
  qed
next
  case jtype_string
  with add_perm_from_string_canonical [OF assms(1)] assms(2) show ?thesis
    by (simp add: process_array_perm_cb_def item_name_def)
qed (use assms(2) in \<open>auto simp: process_array_perm_cb_def\<close>)

lemma object_perm_canonical:
  assumes "canonical_permissions jl ks ps" "process_object_perm_cb jl m ps f = Some (rc, ps', m')"
  shows "rc \<le> 0 \<and> (rc = 0 \<longrightarrow> canonical_permissions jl (insert (fst f) ks) ps')"
proof (cases f)
  case (Pair k item)
  have str: "canonical_permission jl k (pack_name_value jl (jl_new_string jl k) item)"
    by (rule pack_canonical) (rule new_string)
  show ?thesis
  proof (cases "jl_type jl item")
    case jtype_object
    show ?thesis
    proof (cases "\<exists>n. jl_get jl item ''name'' = Some n \<and> jl_string jl n = Some k \<and> jl_get jl item ''value'' \<noteq> None")
      case True
      with Pair jtype_object assms(2) have "add_perm_item jl m ps k item = Some (rc, ps', m')"
        by (auto simp: process_object_perm_cb_def)
      moreover have "canonical_permission jl k item" using True jtype_object by (auto simp: canonical_permission_def)
      ultimately show ?thesis using add_perm_item_canonical [OF assms(1)] Pair by simp
    next
      case False
      with Pair jtype_object assms(2) show ?thesis
        by (auto simp: process_object_perm_cb_def split: option.splits if_splits)
    qed
  next
    case jtype_string
    obtain ok m1 where "c_alloc m = (ok, m1)" by fastforce
    with Pair jtype_string assms(2) pack_error add_perm_item_canonical [OF assms(1) str, of m1 rc ps' m'] show ?thesis
      by (cases ok) (auto simp: process_object_perm_cb_def)
  qed (use Pair assms(2) in \<open>auto simp: process_object_perm_cb_def\<close>)
qed

lemma json_until_canonical:
  assumes "\<And>m ps x rc ps' m' ks. canonical_permissions jl ks ps \<Longrightarrow> f m ps x = Some (rc, ps', m') \<Longrightarrow>
      rc \<le> 0 \<and> (rc = 0 \<longrightarrow> canonical_permissions jl (insert (nm x) ks) ps')"
    and "canonical_permissions jl ks ps" "json_until f m ps xs = Some (rc, ps', m')"
  shows "rc \<le> 0 \<and> (rc = 0 \<longrightarrow> canonical_permissions jl (ks \<union> set (map nm xs)) ps')"
  using assms(2,3)
proof (induction xs arbitrary: m ps ks)
  case (Cons x xs)
  obtain rc1 ps1 m1 where x: "f m ps x = Some (rc1, ps1, m1)" using Cons.prems(2) by (auto split: option.splits)
  have step: "rc1 \<le> 0 \<and> (rc1 = 0 \<longrightarrow> canonical_permissions jl (insert (nm x) ks) ps1)"
    using assms(1) [OF Cons.prems(1) x] .
  show ?case
  proof (cases "rc1 = 0")
    case True
    with x Cons.prems(2) have "json_until f m1 ps1 xs = Some (rc, ps', m')" by simp
    with Cons.IH [of "insert (nm x) ks" ps1 m1] step True show ?thesis by simp
  next
    case False
    with x Cons.prems(2) step show ?thesis by auto
  qed
qed simp

lemma collect_canonical:
  assumes "collect_permissions jl m perms = Some (rc, out, m')" "jl_type jl perms \<in> {jtype_array, jtype_object, jtype_string}"
  shows "rc \<le> 0 \<and> (rc = 0 \<longrightarrow> canonical_permissions jl (set (permission_names jl perms)) out)"
proof -
  consider "jl_type jl perms = jtype_array" | "jl_type jl perms = jtype_object" | "jl_type jl perms = jtype_string"
    using assms(2) by auto
  then show ?thesis
  proof cases
    case 1
    with assms(1) json_until_canonical [where f = "process_array_perm_cb jl" and nm = "item_name jl", OF array_perm_canonical canonical_new] show ?thesis
      by (auto simp: collect_permissions_def permission_names_def)
  next
    case 2
    with assms(1) json_until_canonical [where f = "process_object_perm_cb jl" and nm = fst, OF object_perm_canonical canonical_new] show ?thesis
      by (auto simp: collect_permissions_def permission_names_def)
  next
    case 3
    with assms(1) add_perm_from_string_canonical [OF canonical_new] show ?thesis
      by (auto simp: collect_permissions_def permission_names_def item_name_def)
  qed
qed

lemma adapt_permissions_canonical:
  assumes "adapt_permissions_of jl m jso = Some (rc, jso', m')"
  shows "rc \<le> 0 \<and> (rc = 0 \<longrightarrow> jl_type jl jso = jtype_object \<and> jl_type jl jso' = jtype_object \<and> permissions_adapted jl jso jso' \<and>
     (\<forall>k. k \<noteq> ''required-permission'' \<longrightarrow> jl_get jl jso' k = jl_get jl jso k))"
proof (cases "jl_type jl jso = jtype_object")
  case obj: True
  show ?thesis
  proof (cases "jl_get jl jso ''required-permission''")
    case None
    with obj assms show ?thesis by (auto simp: adapt_permissions_of_def permissions_adapted_def)
  next
    case (Some perms)
    show ?thesis
    proof (cases "jl_type jl perms \<in> {jtype_array, jtype_object, jtype_string}")
      case True
      obtain ok m1 where al: "c_alloc m = (ok, m1)" by fastforce
      show ?thesis
      proof (cases ok)
        case False
        with obj Some True al assms show ?thesis by (auto simp: adapt_permissions_of_def)
      next
        case ok: True
        with obj Some True al assms obtain out where
          out: "collect_permissions jl m1 perms = Some (rc, out, m')"
            "jso' = (if rc < 0 then jso else jl_add jl jso ''required-permission'' out)"
          by (auto simp: adapt_permissions_of_def)
        from collect_canonical [OF out(1) True] out(2) obj Some show ?thesis
          by (auto simp: permissions_adapted_def get_add type_add)
      qed
    next
      case False
      with obj Some assms show ?thesis by (auto simp: adapt_permissions_of_def)
    qed
  qed
qed (use assms in \<open>auto simp: adapt_permissions_of_def\<close>)

lemma adapt_targets_canonical:
  assumes "adapt_targets jl m ts = Some (rc, ts', m')"
  shows "rc \<le> 0 \<and> (rc = 0 \<longrightarrow> list_all2 (\<lambda>t t'. jl_type jl t' = jtype_object \<and> permissions_adapted jl t t' \<and>
     (\<forall>k. k \<noteq> ''required-permission'' \<longrightarrow> jl_get jl t' k = jl_get jl t k)) ts ts')"
  using assms
proof (induction ts arbitrary: m rc ts' m')
  case (Cons t ts)
  obtain rc1 t1 m1 where t: "adapt_permissions_of jl m t = Some (rc1, t1, m1)"
    using Cons.prems by (auto split: option.splits)
  note a = adapt_permissions_canonical [OF t]
  show ?case
  proof (cases "rc1 = 0")
    case True
    with t Cons.prems obtain ts1 where "adapt_targets jl m1 ts = Some (rc, ts1, m')" "ts' = t1 # ts1" by auto
    with Cons.IH a True show ?thesis by simp
  next
    case False
    with t Cons.prems a show ?thesis by auto
  qed
qed simp

text \<open>The fields that the fulfilment sets.\<close>

lemma json_add_all_effect:
  assumes "jl_type jl jso = jtype_object" "json_add_all jl m jso kvs = (rc, jso', m')" "distinct (map fst kvs)"
  shows "rc \<le> 0 \<and> jl_type jl jso' = jtype_object \<and>
    (rc = 0 \<longrightarrow> (\<forall>k. jl_get jl jso' k = (case map_of kvs k of Some v \<Rightarrow> Some (jl_new_string jl v) | None \<Rightarrow> jl_get jl jso k)))"
  using assms
proof (induction kvs arbitrary: m jso)
  case (Cons kv kvs)
  obtain k v where kv: "kv = (k, v)" by fastforce
  obtain rc1 jso1 m1 where add: "json_add jl m jso k v = (rc1, jso1, m1)" using prod_cases3 by blast
  show ?case
  proof (cases "rc1 = 0")
    case True
    then have jso1: "jso1 = jl_add jl jso k (jl_new_string jl v)"
      using add by (auto simp: json_add_def Let_def split: prod.splits if_splits)
    have "map_of kvs k = None" using Cons.prems(3) kv by (simp add: map_of_eq_None_iff)
    moreover have "jl_get jl jso1 = (jl_get jl jso)(k \<mapsto> jl_new_string jl v)" "jl_type jl jso1 = jtype_object"
      using jso1 Cons.prems(1) by (auto simp: get_add type_add)
    moreover have "json_add_all jl m1 jso1 kvs = (rc, jso', m')" using Cons.prems(2) kv add True by simp
    ultimately show ?thesis using Cons.IH [of jso1 m1] Cons.prems(3) kv by (auto split: option.split)
  next
    case False
    with add Cons.prems kv show ?thesis by (auto simp: json_add_def Let_def split: prod.splits if_splits)
  qed
qed simp

lemma fulfill_effect:
  assumes "fulfill jl dv m jso = Some (rc, jso', m')"
  shows "rc \<le> 0 \<and> (rc = 0 \<longrightarrow> (\<exists>jid jver idt v. jl_get jl jso ''id'' = Some jid \<and> jl_get jl jso ''version'' = Some jver \<and>
     jl_string jl jid = Some idt \<and> jl_string jl jver = Some v \<and> jl_type jl jso = jtype_object \<and> jl_type jl jso' = jtype_object \<and>
     (let lowid = make_lowercase idt; ver = make_lowercase (version_prefix v) in
      jl_get jl jso' = (jl_get jl jso)(''id'' \<mapsto> jl_new_string jl lowid,
        ''id-underscore'' \<mapsto> jl_new_string jl (dash_to_underscore lowid),
        ''idaver'' \<mapsto> jl_new_string jl (if dv then lowid @ ''@'' @ ver else lowid),
        ''ver'' \<mapsto> jl_new_string jl ver))))"
proof -
  show ?thesis
  proof (cases "jl_get jl jso ''id'' = None \<or> jl_get jl jso ''version'' = None")
    case True
    with assms show ?thesis by (auto simp: fulfill_def split: option.splits)
  next
    case False
    then obtain jid jver where g: "jl_get jl jso ''id'' = Some jid" "jl_get jl jso ''version'' = Some jver" by auto
    with assms obtain idt where i: "jl_string jl jid = Some idt" by (auto simp: fulfill_def split: option.splits)
    obtain r m1 where fs: "fulfill_strings dv m idt (jl_string jl jver) = (r, m1)" by fastforce
    show ?thesis
    proof (cases r)
      case None
      with assms g i fs show ?thesis by (auto simp: fulfill_def)
    next
      case (Some kvs)
      with fs obtain v where v: "jl_string jl jver = Some v"
        by (auto simp: fulfill_strings_def mkver_def Let_def split: option.splits prod.splits if_splits bool.splits)
      let ?ver = "make_lowercase (version_prefix v)" and ?low = "make_lowercase idt"
      have kvs: "kvs = [(''id'', ?low), (''id-underscore'', dash_to_underscore ?low),
          (''idaver'', if dv then ?low @ ''@'' @ ?ver else ?low), (''ver'', ?ver)]"
        using fs Some v
        by (auto simp: fulfill_strings_def mkver_def mkidaver_def Let_def split: option.splits prod.splits if_splits bool.splits)
      have add: "json_add_all jl m1 jso kvs = (rc, jso', m')" using assms g i fs Some by (simp add: fulfill_def)
      have obj: "jl_type jl jso = jtype_object" using get_object [OF g(1)] .
      have eff: "rc \<le> 0 \<and> jl_type jl jso' = jtype_object \<and> (rc = 0 \<longrightarrow>
          (\<forall>k. jl_get jl jso' k = (case map_of kvs k of Some v \<Rightarrow> Some (jl_new_string jl v) | None \<Rightarrow> jl_get jl jso k)))"
        using json_add_all_effect [OF obj add] by (simp add: kvs)
      with g i v obj show ?thesis by (auto simp: kvs Let_def fun_eq_iff)
    qed
  qed
qed

lemma retargets_effect:
  assumes "retargets jl jso = (rc, jso')"
  shows "rc \<le> 0 \<and> (rc = 0 \<longrightarrow> (\<exists>ts ts'. jl_get jl jso ''targets'' = Some ts \<and> jl_type jl ts = jtype_array \<and>
     jl_get jl jso' = (jl_get jl jso)(''targets'' \<mapsto> ts') \<and> jl_type jl jso' = jtype_object \<and> jl_type jl ts' = jtype_array \<and>
     list_all2 (\<lambda>t t'. retarget_item jl t = (0, t')) (jl_items jl ts) (jl_items jl ts')))"
proof (cases "\<exists>ts. jl_get jl jso ''targets'' = Some ts \<and> jl_type jl ts = jtype_array")
  case True
  then obtain ts where ts: "jl_get jl jso ''targets'' = Some ts" "jl_type jl ts = jtype_array" by blast
  let ?rs = "map (retarget_item jl) (jl_items jl ts)"
  have obj: "jl_type jl jso = jtype_object" using get_object [OF ts(1)] .
  have run: "rc = (if \<exists>r \<in> set ?rs. fst r < 0 then - EINVAL else 0)"
    "jso' = jl_add jl jso ''targets'' (jl_put_items jl ts (map snd ?rs))"
    using assms ts by (auto simp: retargets_def Let_def)
  have zero: "fst (retarget_item jl t) = 0" if "\<not> fst (retarget_item jl t) < 0" for t
    using that by (auto simp: retarget_item_def split: if_splits option.splits)
  have "list_all2 (\<lambda>t t'. retarget_item jl t = (0, t')) (jl_items jl ts) (map snd ?rs)" if "rc = 0"
    using run(1) that zero by (auto simp: list_all2_conv_all_nth prod_eq_iff split: if_splits)
  moreover have "jl_get jl jso' = (jl_get jl jso)(''targets'' \<mapsto> jl_put_items jl ts (map snd ?rs))" "jl_type jl jso' = jtype_object"
    using run(2) obj by (auto simp: get_add type_add fun_eq_iff)
  ultimately show ?thesis
    using run(1) ts put_items [OF ts(2)] by (auto split: if_splits)
next
  case False
  with assms show ?thesis by (auto simp: retargets_def split: option.splits if_splits)
qed

lemma retarget_item_effect:
  assumes "retarget_item jl t = (0, t')"
  shows "jl_type jl t' = jtype_object \<and> jl_get jl t' ''#target'' \<noteq> None \<and>
     jl_get jl t' ''#target'' = (case jl_get jl t ''#target'' of Some x \<Rightarrow> Some x | None \<Rightarrow> jl_get jl t ''target'') \<and>
     (\<forall>k. k \<noteq> ''#target'' \<longrightarrow> jl_get jl t' k = jl_get jl t k)"
  using assms by (auto simp: retarget_item_def get_add type_add split: if_splits option.splits)

lemma target_normalized_both:
  assumes "retarget_item jl t = (0, t1)" "permissions_adapted jl t1 t'" "jl_type jl t' = jtype_object"
    "\<forall>k. k \<noteq> ''required-permission'' \<longrightarrow> jl_get jl t' k = jl_get jl t1 k"
  shows "target_normalized jl t t'"
  using retarget_item_effect [OF assms(1)] assms(2-4)
  by (auto simp: target_normalized_def permissions_adapted_def split: option.splits; metis)

lemma manifest_normalize_effect:
  assumes "manifest_normalize jl dv m jso = Some (rc, jso', m')"
  shows "rc \<le> 0 \<and> (rc = 0 \<longrightarrow> manifest_normalized jl dv jso jso')"
proof -
  obtain rc1 jso1 m1 where f: "fulfill jl dv m jso = Some (rc1, jso1, m1)"
    using assms by (auto simp: manifest_normalize_def split: option.splits)
  note fe = fulfill_effect [OF f]
  obtain rc2 jso2 where r: "retargets jl jso1 = (rc2, jso2)" by fastforce
  note re = retargets_effect [OF r]
  show ?thesis
  proof (cases "rc1 = 0 \<and> rc2 = 0")
    case False
    moreover have "rc1 \<le> 0" "rc2 \<le> 0" using fe re by blast+
    ultimately show ?thesis using assms f r by (auto simp: manifest_normalize_def split: if_splits)
  next
    case True
    with assms f r have a: "adapt_all_permissions jl m1 jso2 = Some (rc, jso', m')"
      by (simp add: manifest_normalize_def)
    obtain rc3 jso3 m3 where p: "adapt_permissions_of jl m1 jso2 = Some (rc3, jso3, m3)"
      using a by (auto simp: adapt_all_permissions_def split: option.splits)
    note pe = adapt_permissions_canonical [OF p]
    show ?thesis
    proof (cases "rc3 = 0")
      case False
      with a p pe show ?thesis by (auto simp: adapt_all_permissions_def)
    next
      case True3: True
      obtain ts ts1 where ts: "jl_get jl jso1 ''targets'' = Some ts" "jl_get jl jso2 = (jl_get jl jso1)(''targets'' \<mapsto> ts1)"
        "jl_type jl ts1 = jtype_array" "list_all2 (\<lambda>t t'. retarget_item jl t = (0, t')) (jl_items jl ts) (jl_items jl ts1)"
        using re True by blast
      have get3: "jl_get jl jso3 ''targets'' = Some ts1" "jl_type jl jso3 = jtype_object" using pe True3 ts(2) by auto
      obtain ts2 where b: "adapt_targets jl m3 (jl_items jl ts1) = Some (rc, ts2, m')"
        "jso' = jl_add jl jso3 ''targets'' (jl_put_items jl ts1 ts2)"
        using a p True3 get3 ts(3) by (auto simp: adapt_all_permissions_def)
      note be = adapt_targets_canonical [OF b(1)]
      show ?thesis
      proof (cases "rc = 0")
        case True0: True
        have "list_all2 (target_normalized jl) (jl_items jl ts) ts2"
          using ts(4) be True0 target_normalized_both
          by (auto simp: list_all2_conv_all_nth)
        then have t: "\<exists>ts'. jl_get jl jso' ''targets'' = Some ts' \<and> jl_type jl ts' = jtype_array \<and>
            list_all2 (target_normalized jl) (jl_items jl ts) (jl_items jl ts')"
          using b(2) get3 ts(3) by (simp add: get_add put_items)
        have get': "jl_get jl jso' k = jl_get jl jso3 k" if "k \<noteq> ''targets''" for k
          using b(2) get3(2) that by (simp add: get_add)
        obtain jid jver idt v where idv: "jl_get jl jso ''id'' = Some jid" "jl_get jl jso ''version'' = Some jver"
          "jl_string jl jid = Some idt" "jl_string jl jver = Some v"
          "jl_get jl jso1 = (jl_get jl jso)(''id'' \<mapsto> jl_new_string jl (make_lowercase idt),
             ''id-underscore'' \<mapsto> jl_new_string jl (dash_to_underscore (make_lowercase idt)),
             ''idaver'' \<mapsto> jl_new_string jl (if dv then make_lowercase idt @ ''@'' @ make_lowercase (version_prefix v) else make_lowercase idt),
             ''ver'' \<mapsto> jl_new_string jl (make_lowercase (version_prefix v)))"
          using fe True by (auto simp: Let_def)
        have get3': "jl_get jl jso3 k = jl_get jl jso2 k" if "k \<noteq> ''required-permission''" for k
          using pe True3 that by simp
        have perm: "permissions_adapted jl jso jso'"
          using pe True3 get' [of "''required-permission''"] ts(2) idv(5)
          by (auto simp: permissions_adapted_def split: option.splits)
        show ?thesis
          using True0 t perm idv ts(1,2) get' get3'
          by (auto simp: manifest_normalized_def identity_fields_def Let_def)
      qed (use be in simp)
    qed
  qed
qed

lemma read_and_check_effect:
  assumes "manifest_read_and_check jl dv rd m path = Some (rc, obj, m')"
  shows "(rc < 0 \<longrightarrow> obj = None \<or> fst (rd path) < 0 \<and> obj = snd (rd path)) \<and>
    (rc \<ge> 0 \<longrightarrow> (\<exists>j0 j. rd path = (fst (rd path), Some j0) \<and> obj = Some j \<and> manifest_check jl j0 = Some 0 \<and>
       manifest_normalized jl dv j0 j))"
proof -
  obtain r0 o0 where rd: "rd path = (r0, o0)" by fastforce
  show ?thesis
  proof (cases "r0 < 0 \<or> o0 = None \<or> jl_type jl (the o0) = jtype_null")
    case True
    with assms rd show ?thesis
      by (cases "r0 < 0"; cases o0) (auto simp: manifest_read_and_check_def manifest_read_def)
  next
    case False
    then obtain j0 where j0: "o0 = Some j0" "r0 \<ge> 0" "jl_type jl j0 \<noteq> jtype_null" by auto
    with assms rd obtain c where c: "manifest_check jl j0 = Some c"
      by (auto simp: manifest_read_and_check_def manifest_read_def split: option.splits)
    have c0: "c < 0 \<or> c = 0"
      using c by (auto simp: manifest_check_def check_valid_string_def split: option.splits if_splits)
    show ?thesis
    proof (cases "c = 0")
      case True
      with assms rd j0 c obtain j where j: "manifest_normalize jl dv m j0 = Some (rc, j, m')" "obj = (if rc < 0 then None else Some j)"
        by (auto simp: manifest_read_and_check_def manifest_read_def)
      with manifest_normalize_effect [OF j(1)] rd j0 c True show ?thesis by auto
    next
      case False
      with c0 assms rd j0 c show ?thesis
        by (auto simp: manifest_read_and_check_def manifest_read_def)
    qed
  qed
qed

end

section \<open>JSON values as data\<close>

text \<open>
  An instance of the parameter: JSON values as a datatype, with the behaviour that json-c
  documents. Objects keep the order of insertion; a key that is set again keeps its place.
\<close>

datatype json = JNull | JBool bool | JStr string | JNum string | JArr "json list" | JObj "(string \<times> json) list"

fun set_field :: "string \<Rightarrow> json \<Rightarrow> (string \<times> json) list \<Rightarrow> (string \<times> json) list" where
  "set_field k v [] = [(k, v)]"
| "set_field k v ((k', v') # fs) = (if k' = k then (k, v) # fs else (k', v') # set_field k v fs)"

definition json_data :: "json json_lib" where
  "json_data =
     \<lparr>jl_type = (\<lambda>j. case j of JNull \<Rightarrow> jtype_null | JBool _ \<Rightarrow> jtype_other | JStr _ \<Rightarrow> jtype_string | JNum _ \<Rightarrow> jtype_other
                        | JArr _ \<Rightarrow> jtype_array | JObj _ \<Rightarrow> jtype_object),
      jl_get = (\<lambda>j k. case j of JObj fs \<Rightarrow> map_of fs k | _ \<Rightarrow> None),
      jl_string = (\<lambda>j. case j of JStr s \<Rightarrow> Some s | JNum s \<Rightarrow> Some s | JNull \<Rightarrow> None | JBool b \<Rightarrow> Some (if b then ''true'' else ''false'') | JArr _ \<Rightarrow> Some ''[]'' | JObj _ \<Rightarrow> Some ''{}''),
      jl_items = (\<lambda>j. case j of JArr xs \<Rightarrow> xs | _ \<Rightarrow> []),
      jl_fields = (\<lambda>j. case j of JObj fs \<Rightarrow> fs | _ \<Rightarrow> []),
      jl_add = (\<lambda>j k v. case j of JObj fs \<Rightarrow> JObj (set_field k v fs) | _ \<Rightarrow> j),
      jl_put_items = (\<lambda>j xs. case j of JArr _ \<Rightarrow> JArr xs | _ \<Rightarrow> j),
      jl_new_object = JObj [], jl_new_string = JStr, jl_pack_error = - 1\<rparr>"

lemma map_of_set_field: "map_of (set_field k v fs) = (map_of fs)(k \<mapsto> v)"
  by (induction fs) (auto simp: fun_eq_iff)

interpretation data: json_laws json_data
  by unfold_locales (auto simp: json_data_def map_of_set_field split: json.splits)

text \<open>C21: A manifest that is read with success has been checked and is the normal form of what the file
  holds: its identifiers are set from its identifier and its version, every target has its
  field \<open>#target\<close>, its permissions and those of its targets are exactly those that were given,
  in the canonical form whatever the form they had, and nothing else differs. When the
  reading fails no manifest is given, but what the reader itself left.\<close>

theorem manifest_read_and_check_normalizes:
  assumes "json_laws jl" and "manifest_read_and_check jl dv rd m path = Some (rc, obj, m')"
  shows "(rc < 0 \<longrightarrow> obj = None \<or> fst (rd path) < 0 \<and> obj = snd (rd path)) \<and>
    (rc \<ge> 0 \<longrightarrow> (\<exists>j0 j. rd path = (fst (rd path), Some j0) \<and> obj = Some j \<and> manifest_check jl j0 = Some 0 \<and>
       manifest_normalized jl dv j0 j))"
  by (rule json_laws.read_and_check_effect [OF assms])

definition demo_json :: json where
  "demo_json = JObj [(''rp-manifest'', JNum ''1''), (''id'', JStr ''My-App''), (''version'', JStr ''1.2.3''),
     (''required-permission'', JArr [JStr ''p'']), (''targets'', JArr [JObj [(''target'', JStr ''main'')]])]"

definition demo_normal :: json where
  "demo_normal = JObj [(''rp-manifest'', JNum ''1''), (''id'', JStr ''my-app''), (''version'', JStr ''1.2.3''),
     (''required-permission'', JObj [(''p'', JObj [(''name'', JStr ''p''), (''value'', JStr ''required'')])]),
     (''targets'', JArr [JObj [(''target'', JStr ''main''), (''#target'', JStr ''main'')]]),
     (''id-underscore'', JStr ''my_app''), (''idaver'', JStr ''my-app''), (''ver'', JStr ''1.2'')]"

lemma demo_json_read:
  "manifest_read_and_check json_data False (\<lambda>_. (0, Some demo_json)) [] ''m.yml'' = Some (0, Some demo_normal, [])"
  by code_simp

theorem manifest_read_and_check_normalizes_witness:
  "manifest_normalized json_data False demo_json demo_normal"
  using manifest_read_and_check_normalizes [OF data.json_laws_axioms demo_json_read] by simp

text \<open>
  An example of the documentation: the name of a permission given as an object has to be its
  key, otherwise the manifest is refused.
\<close>

lemma documented_permission_refused:
  "map_option fst (manifest_normalize json_data False []
     (JObj [(''id'', JStr ''a''), (''version'', JStr ''1''), (''targets'', JArr []),
            (''required-permission'', JObj [(''urn:redpesk:permission:syscall'',
               JObj [(''name'', JStr ''urn:redpesk:permission:syscall:*''), (''value'', JStr ''required'')])])])) = Some (- EINVAL)"
  by code_simp

text \<open>A manifest whose identifier is null makes the check read a null pointer.\<close>

lemma null_identifier_unchecked:
  "manifest_check json_data (JObj [(''rp-manifest'', JNum ''1''), (''id'', JNull)]) = None"
  by code_simp

end
