(* ===== verification/UnitFs.thy ===== *)
theory UnitFs
  imports AFM_Prelude
begin

text \<open>
  Unit files: their location (\<^verbatim>\<open>src/src/units/unit-fs.c\<close>) and their normalisation
  (\<^verbatim>\<open>src/src/units/normalize-unit-file.c\<close>).
\<close>

section \<open>Paths of unit files\<close>

text \<open>
  \<open>snprintf\<close> returns the length of the whole text and writes what fits with a final NUL;
  the functions below return the length, or -1 with \<open>errno\<close> ENAMETOOLONG, and the
  characters left in the buffer.
\<close>

definition check_snprintf_result :: "string \<Rightarrow> nat \<Rightarrow> int" where
  "check_snprintf_result str buflen = (if length str < buflen then int (length str) else - 1)"

definition snprintf_text :: "string \<Rightarrow> nat \<Rightarrow> string" where
  "snprintf_text str buflen = take (buflen - 1) str"

definition units_dirname :: "bool \<Rightarrow> string" where
  "units_dirname isuser = (if isuser then ''user'' else ''system'')"

text \<open>The text printed by each of the functions.\<close>

definition afm_units_dir :: "string \<Rightarrow> bool \<Rightarrow> string" where
  "afm_units_dir root isuser = root @ ''/'' @ units_dirname isuser"

definition afm_unit_path :: "string \<Rightarrow> bool \<Rightarrow> string \<Rightarrow> string \<Rightarrow> string" where
  "afm_unit_path root isuser unit uext = root @ ''/'' @ units_dirname isuser @ ''/'' @ unit @ ''.'' @ uext"

definition afm_wants_unit_path :: "string \<Rightarrow> bool \<Rightarrow> string \<Rightarrow> string \<Rightarrow> string \<Rightarrow> string" where
  "afm_wants_unit_path root isuser wanter unit uext =
     root @ ''/'' @ units_dirname isuser @ ''/'' @ wanter @ ''.wants/'' @ unit @ ''.'' @ uext"

definition wants_target :: "string \<Rightarrow> string \<Rightarrow> string" where
  "wants_target unit uext = ''../'' @ unit @ ''.'' @ uext"

definition units_fs_get_afm_units_dir :: "string \<Rightarrow> nat \<Rightarrow> bool \<Rightarrow> int \<times> string" where
  "units_fs_get_afm_units_dir root pathlen isuser =
     (let str = afm_units_dir root isuser
      in (check_snprintf_result str pathlen, snprintf_text str pathlen))"

definition units_fs_get_afm_unit_path ::
  "string \<Rightarrow> nat \<Rightarrow> bool \<Rightarrow> string \<Rightarrow> string \<Rightarrow> int \<times> string" where
  "units_fs_get_afm_unit_path root pathlen isuser unit uext =
     (let str = afm_unit_path root isuser unit uext
      in (check_snprintf_result str pathlen, snprintf_text str pathlen))"

definition units_fs_get_afm_wants_unit_path ::
  "string \<Rightarrow> nat \<Rightarrow> bool \<Rightarrow> string \<Rightarrow> string \<Rightarrow> string \<Rightarrow> int \<times> string" where
  "units_fs_get_afm_wants_unit_path root pathlen isuser wanter unit uext =
     (let str = afm_wants_unit_path root isuser wanter unit uext
      in (check_snprintf_result str pathlen, snprintf_text str pathlen))"

definition units_fs_get_wants_target :: "nat \<Rightarrow> string \<Rightarrow> string \<Rightarrow> int \<times> string" where
  "units_fs_get_wants_target pathlen unit uext =
     (let str = wants_target unit uext
      in (check_snprintf_result str pathlen, snprintf_text str pathlen))"

definition units_fs_set_root_dir :: "string \<Rightarrow> string option \<Rightarrow> string \<times> string" where
  "units_fs_set_root_dir prev dir = (prev, case dir of None \<Rightarrow> prev | Some d \<Rightarrow> d)"

section \<open>Listing of unit files\<close>

text \<open>
  What the system gives of a directory: an error of \<open>opendir\<close>, or the entries that
  \<open>readdir\<close> returns and whether it ends with an error. \<open>d_stat\<close> is the answer of
  \<open>fstatat\<close>, asked for entries of unknown type only: the entry is a regular file or not,
  or the call fails.
\<close>

datatype dtype = DT_REG | DT_UNKNOWN | DT_OTHER

record dirent =
  de_name :: string
  de_type :: dtype
  de_stat :: "bool option"

type_synonym dirlist = "int + (dirent list \<times> bool)"

definition UNITS_PATH_MAX :: nat where "UNITS_PATH_MAX = 4096"

definition dirent_isfile :: "dirent \<Rightarrow> bool option" where
  "dirent_isfile d =
     (case de_type d of DT_REG \<Rightarrow> Some True | DT_OTHER \<Rightarrow> Some False | DT_UNKNOWN \<Rightarrow> de_stat d)"

type_synonym 's unit_cb = "'s \<Rightarrow> string \<Rightarrow> string \<Rightarrow> bool \<Rightarrow> int \<times> 's"

text \<open>\<open>prefix\<close> is the path of the directory with its final slash.\<close>

fun units_fs_loop ::
  "'s unit_cb \<Rightarrow> bool \<Rightarrow> string \<Rightarrow> bool \<Rightarrow> dirent list \<Rightarrow> 's \<Rightarrow> int \<times> 's" where
  "units_fs_loop callback isuser pre enderr [] s = (if enderr then - 1 else 0, s)"
| "units_fs_loop callback isuser pre enderr (d # ds) s =
     (case dirent_isfile d of
        None \<Rightarrow> (- 1, s)
      | Some False \<Rightarrow> units_fs_loop callback isuser pre enderr ds s
      | Some True \<Rightarrow>
          if length pre + length (de_name d) \<ge> UNITS_PATH_MAX + 1 then (- 1, s)
          else let (rc, s') = callback s (de_name d) (pre @ de_name d) isuser
               in if rc \<noteq> 0 then (rc, s') else units_fs_loop callback isuser pre enderr ds s')"

definition units_fs_list ::
  "string \<Rightarrow> (string \<Rightarrow> dirlist) \<Rightarrow> bool \<Rightarrow> 's unit_cb \<Rightarrow> 's \<Rightarrow> bool \<Rightarrow> int \<times> 's" where
  "units_fs_list root opendir isuser callback s relax =
     (let (rc, path) = units_fs_get_afm_units_dir root UNITS_PATH_MAX isuser
      in if rc < 0 then (rc, s)
         else case opendir path of
                Inl errno \<Rightarrow> (if relax \<and> errno = ENOENT then 0 else - 1, s)
              | Inr (ds, enderr) \<Rightarrow> units_fs_loop callback isuser (path @ ''/'') enderr ds s)"

definition units_fs_list_all ::
  "string \<Rightarrow> (string \<Rightarrow> dirlist) \<Rightarrow> 's unit_cb \<Rightarrow> 's \<Rightarrow> bool \<Rightarrow> int \<times> 's" where
  "units_fs_list_all root opendir callback s relax =
     (let (rc, s') = units_fs_list root opendir True callback s relax
      in if rc \<noteq> 0 then (rc, s') else units_fs_list root opendir False callback s' relax)"

section \<open>Normalisation\<close>

text \<open>
  The content is normalised in place: the model reads the text that remains and builds the
  text that is written, which never overtakes what is read. A text that does not end with
  a newline makes the final NUL part of what is written; the value returned counts it and
  a last NUL is written after it.
\<close>


definition unit_blank :: "char \<Rightarrow> bool" where
  "unit_blank c \<longleftrightarrow> c = newline \<or> c = CHR '' '' \<or> c = CHR 0x09"

text \<open>The end of a line: the line as it is in the output, \<open>\\\<close> at its end joins it to the next.\<close>

definition close_line :: "string \<Rightarrow> char \<Rightarrow> string" where
  "close_line line c =
     (if last line = CHR 0x5C then butlast line @ '' '' else line @ [c])"

function normalize_loop :: "string \<Rightarrow> string \<Rightarrow> string \<Rightarrow> string" where
  "normalize_loop cmt out rest =
     (case rest of
        [] \<Rightarrow> out
      | c # s \<Rightarrow>
          if unit_blank c then normalize_loop cmt out s
          else if c \<in> set cmt then normalize_loop cmt out (dropWhile (\<lambda>x. x \<noteq> newline) s)
          else let line = c # takeWhile (\<lambda>x. x \<noteq> newline) s;
                   s' = dropWhile (\<lambda>x. x \<noteq> newline) s
               in if s' = [] then out @ close_line line (CHR 0x00)
                  else normalize_loop cmt (out @ close_line line newline) s')"
  by pat_completeness auto
termination
  by (relation "measure (\<lambda>(cmt, out, rest). length rest)")
     (auto simp: le_imp_less_Suc length_dropWhile_le)

declare normalize_loop.simps [simp del]

text \<open>The value returned is the length of the text of the result.\<close>

definition normalize_unit_file_cmtchrs :: "string \<Rightarrow> string option \<Rightarrow> nat \<times> string" where
  "normalize_unit_file_cmtchrs content cmtchrs =
     (let out = normalize_loop (case cmtchrs of None \<Rightarrow> [] | Some c \<Rightarrow> c) [] content
      in (length out, out))"

definition normalize_unit_file :: "string \<Rightarrow> nat \<times> string" where
  "normalize_unit_file content = normalize_unit_file_cmtchrs content (Some '';#'')"

section \<open>Properties of the normalisation\<close>

text \<open>No line of a text starts with one of the characters \<open>bad\<close>.\<close>

fun lines_start :: "string \<Rightarrow> bool \<Rightarrow> string \<Rightarrow> bool" where
  "lines_start bad b [] \<longleftrightarrow> True"
| "lines_start bad b (c # s) \<longleftrightarrow> (b \<longrightarrow> c \<notin> set bad) \<and> lines_start bad (c = newline) s"

lemma lines_start_append:
  "lines_start bad b (s @ t) \<longleftrightarrow>
     lines_start bad b s \<and> lines_start bad (if s = [] then b else last s = newline) t"
  by (induction s arbitrary: b) auto

lemma lines_start_inner: "newline \<notin> set (butlast s) \<Longrightarrow> lines_start bad False s"
  by (induction s) (auto split: if_splits)

lemma lines_start_line:
  "s = [] \<or> hd s \<notin> set bad \<and> newline \<notin> set (butlast s) \<Longrightarrow> lines_start bad b s"
  by (cases s) (auto simp: lines_start_inner split: if_splits)

lemma close_line_start:
  assumes "line \<noteq> []" "newline \<notin> set line" "hd line \<notin> set bad" "CHR '' '' \<notin> set bad"
  shows "lines_start bad b (close_line line c)"
proof -
  have "newline \<notin> set (butlast line)" using assms(2) by (auto dest: in_set_butlastD)
  moreover have "hd (butlast line @ '' '') \<notin> set bad"
    using assms by (cases line) (auto split: if_splits)
  moreover have "hd (line @ [c]) \<notin> set bad" using assms by simp
  ultimately show ?thesis
    using assms(2) by (intro lines_start_line) (auto simp: close_line_def butlast_append)
qed

lemma length_close_line: "line \<noteq> [] \<Longrightarrow> length (close_line line c) \<le> Suc (length line)"
  by (simp add: close_line_def)

lemma length_take_drop: "length (takeWhile P s) + length (dropWhile P s) = length s"
  by (metis length_append takeWhile_dropWhile_id)

text \<open>A text whose last line is complete.\<close>

definition complete_text :: "string \<Rightarrow> bool" where
  "complete_text s \<longleftrightarrow> s = [] \<or> last s = newline"

lemma complete_Cons: "complete_text (c # s) \<Longrightarrow> complete_text s"
  by (auto simp: complete_text_def split: if_splits)

lemma complete_dropWhile: "complete_text s \<Longrightarrow> complete_text (dropWhile P s)"
  by (induction s) (auto simp: complete_text_def split: if_splits)

lemma complete_line_end:
  "complete_text (c # s) \<Longrightarrow> c \<noteq> newline \<Longrightarrow> dropWhile (\<lambda>x. x \<noteq> newline) s \<noteq> []"
  using last_in_set [of s] by (auto simp: complete_text_def split: if_splits) (metis last_in_set)

text \<open>A newline at the head of the text was already written with the line before it.\<close>

lemma normalize_loop_length:
  "length (normalize_loop cmt out rest) \<le>
     length out + (length rest - (if rest \<noteq> [] \<and> hd rest = newline then 1 else 0)) +
     (if complete_text rest then 0 else 1)"
proof (induction cmt out rest rule: normalize_loop.induct)
  case (1 cmt out rest)
  show ?case
  proof (cases rest)
    case Nil
    then show ?thesis by (simp add: normalize_loop.simps)
  next
    case (Cons c s)
    let ?line = "c # takeWhile (\<lambda>x. x \<noteq> newline) s"
    let ?s = "dropWhile (\<lambda>x. x \<noteq> newline) s"
    have len: "length (takeWhile (\<lambda>x. x \<noteq> newline) s) + length ?s = length s"
      by (rule length_take_drop)
    have ct: "complete_text s \<Longrightarrow> complete_text ?s" by (rule complete_dropWhile)
    consider "unit_blank c" | "\<not> unit_blank c" "c \<in> set cmt" | "\<not> unit_blank c" "c \<notin> set cmt" "?s = []"
      | "\<not> unit_blank c" "c \<notin> set cmt" "?s \<noteq> []"
      by blast
    then show ?thesis
    proof cases
      case 1
      with "1.IH"(1) [OF Cons] Cons complete_Cons [of c s] show ?thesis
        by (subst normalize_loop.simps) (auto split: if_splits)
    next
      case 2
      with "1.IH"(2) [OF Cons] Cons complete_Cons [of c s] ct len show ?thesis
        by (subst normalize_loop.simps) (auto split: if_splits)
    next
      case 3
      then have "\<not> complete_text rest"
        using Cons complete_line_end [of c s] by (auto simp: unit_blank_def)
      moreover have "c \<noteq> newline" using 3 by (auto simp: unit_blank_def)
      ultimately show ?thesis
        using 3 Cons len length_close_line [of ?line "CHR 0x00"]
        by (subst normalize_loop.simps) simp
    next
      case 4
      then obtain t where t: "?s = newline # t"
        using hd_dropWhile [of "\<lambda>x. x \<noteq> newline" s] by (cases ?s) auto
      have "c \<noteq> newline" using 4 by (auto simp: unit_blank_def)
      then show ?thesis
        using t 4 "1.IH"(3) [OF Cons 4(1,2) refl refl 4(3)] Cons complete_Cons [of c s] ct len
          length_close_line [of ?line newline] unfolding t
        by (subst normalize_loop.simps) (auto simp: t Let_def split: if_splits simp del: dropWhile_eq_Nil_conv)
    qed
  qed
qed

lemma normalize_loop_start:
  assumes "lines_start bad True out" "CHR '' '' \<notin> set bad" "set bad \<subseteq> {newline, CHR 0x09} \<union> set cmt"
  shows "lines_start bad True (normalize_loop cmt out rest)"
  using assms
proof (induction cmt out rest rule: normalize_loop.induct)
  case (1 cmt out rest)
  show ?case
  proof (cases rest)
    case Nil
    with 1 show ?thesis by (simp add: normalize_loop.simps)
  next
    case (Cons c s)
    let ?line = "c # takeWhile (\<lambda>x. x \<noteq> newline) s"
    let ?s = "dropWhile (\<lambda>x. x \<noteq> newline) s"
    show ?thesis
    proof (cases "unit_blank c \<or> c \<in> set cmt")
      case True
      with "1.IH"(1,2) [OF Cons] 1(4-6) Cons show ?thesis
        by (subst normalize_loop.simps) auto
    next
      case False
      then have c: "c \<notin> set bad" "newline \<noteq> c" using 1(6) by (auto simp: unit_blank_def)
      moreover have "newline \<notin> set (takeWhile (\<lambda>x. x \<noteq> newline) s)" by (auto dest: set_takeWhileD)
      ultimately have cl: "lines_start bad b (close_line ?line x)" for b x
        using 1(5) by (intro close_line_start) auto
      show ?thesis
      proof (cases "?s = []")
        case True
        with False Cons cl 1(4) show ?thesis
          by (subst normalize_loop.simps) (simp add: lines_start_append)
      next
        case ne: False
        with "1.IH"(3) [OF Cons _ _ refl refl ne] False Cons cl 1(4-6) show ?thesis
          by (subst normalize_loop.simps) (auto simp: lines_start_append simp del: dropWhile_eq_Nil_conv)
      qed
    qed
  qed
qed

text \<open>The normalisation of a unit file removes the empty lines and the comment lines: no line
  of its result starts with a newline, a tabulation or a comment character; and for a text
  whose last line is complete the result is not longer than the text, so that it fits in
  place with its terminator.\<close>

theorem normalize_unit_file_lines:
  assumes "normalize_unit_file content = (len, out)"
  shows "len = length out \<and> lines_start [newline, CHR 0x09, CHR '';'', CHR ''#''] True out \<and>
         (complete_text content \<longrightarrow> len \<le> length content)"
proof -
  have out: "out = normalize_loop '';#'' [] content" "len = length out"
    using assms by (auto simp: normalize_unit_file_def normalize_unit_file_cmtchrs_def Let_def)
  have "lines_start [newline, CHR 0x09, CHR '';'', CHR ''#''] True out"
    unfolding out by (rule normalize_loop_start) auto
  with out normalize_loop_length [of "'';#''" "[]" content] show ?thesis
    by (auto split: if_splits)
qed

theorem normalize_unit_file_lines_witness:
  "complete_text (''#x'' @ [newline] @ '' A=1'' @ [newline]) \<and>
   fst (normalize_unit_file (''#x'' @ [newline] @ '' A=1'' @ [newline])) \<le> 8"
proof -
  let ?c = "''#x'' @ [newline] @ '' A=1'' @ [newline]"
  obtain len out where a: "normalize_unit_file ?c = (len, out)" by fastforce
  have "complete_text ?c" by (simp add: complete_text_def)
  with normalize_unit_file_lines [OF a] a show ?thesis by simp
qed

text \<open>Lines that the normalisation keeps as they are.\<close>

definition plain_line :: "string \<Rightarrow> string \<Rightarrow> bool" where
  "plain_line cmt l \<longleftrightarrow> l \<noteq> [] \<and> newline \<notin> set l \<and> \<not> unit_blank (hd l) \<and> hd l \<notin> set cmt \<and> last l \<noteq> CHR 0x5C"

definition unlines :: "string list \<Rightarrow> string" where
  "unlines ls = concat (map (\<lambda>l. l @ [newline]) ls)"

lemma normalize_loop_plain:
  assumes "\<forall>l \<in> set ls. plain_line cmt l"
  shows "normalize_loop cmt out (unlines ls) = out @ unlines ls"
  using assms
proof (induction ls arbitrary: out)
  case Nil
  then show ?case by (simp add: unlines_def normalize_loop.simps)
next
  case (Cons l ls)
  then obtain c s where l: "l = c # s" by (cases l) (auto simp: plain_line_def)
  have pl: "\<not> unit_blank c" "c \<notin> set cmt" "newline \<notin> set s" "last (c # s) \<noteq> CHR 0x5C"
    using Cons.prems l by (auto simp: plain_line_def)
  have tw: "takeWhile (\<lambda>x. x \<noteq> newline) (s @ newline # t) = s"
    and dw: "dropWhile (\<lambda>x. x \<noteq> newline) (s @ newline # t) = newline # t" for t
    using pl(3) by (induction s) auto
  have "normalize_loop cmt out (unlines (l # ls)) =
          normalize_loop cmt (out @ l @ [newline]) (newline # unlines ls)"
    using pl l by (subst normalize_loop.simps) (simp add: unlines_def tw dw close_line_def)
  also have "\<dots> = normalize_loop cmt (out @ l @ [newline]) (unlines ls)"
    by (subst normalize_loop.simps) (simp add: unit_blank_def)
  also have "\<dots> = (out @ l @ [newline]) @ unlines ls"
    using Cons.prems by (intro Cons.IH) simp
  finally show ?case by (simp add: unlines_def)
qed

text \<open>A text made of complete lines that neither start with a blank or a comment character
  nor end with a backslash is left unchanged by the normalisation.\<close>

theorem normalize_unit_file_fixed:
  assumes "\<forall>l \<in> set ls. plain_line '';#'' l"
  shows "normalize_unit_file (unlines ls) = (length (unlines ls), unlines ls)"
  using normalize_loop_plain [OF assms, of "[]"]
  by (simp add: normalize_unit_file_def normalize_unit_file_cmtchrs_def Let_def)

theorem normalize_unit_file_fixed_witness:
  "normalize_unit_file (unlines [''[Unit]'', ''A=1'']) = (11, unlines [''[Unit]'', ''A=1''])"
  using normalize_unit_file_fixed [of "[''[Unit]'', ''A=1'']"]
  by (simp add: plain_line_def unit_blank_def unlines_def)

end
