(* ===== verification/Afid.thy ===== *)
theory Afid
  imports UnitFs
begin

text \<open>
  Allocation of the numeric identifiers of applications (\<^verbatim>\<open>src/src/utils/manage-afid.c\<close>): a
  bitmap of 32-bit words, filled from the unit files of the system, from which free
  identifiers are taken.

  The file system and \<^verbatim>\<open>rp_file_get\<close> of the library rp-utils are parameters: \<open>af_opendir\<close>
  gives the content of a directory and \<open>af_get\<close> the status and the content of a file.
\<close>

unbundle bit_operations_syntax

section \<open>Data\<close>

definition AFID_MIN :: nat where [simp]: "AFID_MIN = 1"
definition AFID_MAX :: nat where [simp]: "AFID_MAX = 1999"
definition AFID_ACNT :: nat where "AFID_ACNT = 63"

definition AFID_IS_VALID :: "int \<Rightarrow> bool" where
  "AFID_IS_VALID p \<longleftrightarrow> int AFID_MIN \<le> p \<and> p \<le> int AFID_MAX"

definition AFID_ASFT :: "nat \<Rightarrow> nat" where "AFID_ASFT afid = (afid - AFID_MIN) mod 32"
definition AFID_AIDX :: "nat \<Rightarrow> nat" where "AFID_AIDX afid = (afid - AFID_MIN) div 32"

type_synonym afids = "32 word list"

definition AFID_TEST :: "afids \<Rightarrow> nat \<Rightarrow> bool" where
  "AFID_TEST array afid \<longleftrightarrow> drop_bit (AFID_ASFT afid) (array ! AFID_AIDX afid) AND 1 \<noteq> 0"

definition AFID_SET :: "afids \<Rightarrow> nat \<Rightarrow> afids" where
  "AFID_SET array afid =
     array[AFID_AIDX afid := array ! AFID_AIDX afid OR push_bit (AFID_ASFT afid) 1]"

record afid_env =
  af_root :: string
  af_opendir :: "string \<Rightarrow> dirlist"
  af_get :: "string \<Rightarrow> int \<times> string"

record afid_state =
  init_done :: bool
  afids_array :: afids

definition afid_initial :: afid_state where
  "afid_initial = \<lparr>init_done = False, afids_array = replicate AFID_ACNT 0\<rparr>"

section \<open>Reading the unit files\<close>

definition key_afm_prefix :: string where "key_afm_prefix = ''X-AFM-''"
definition key_afid :: string where "key_afid = ''ID''"

text \<open>\<open>strstr\<close>, giving the text after the match.\<close>

fun after_sub :: "string \<Rightarrow> string \<Rightarrow> string option" where
  "after_sub pat s =
     (if take (length pat) s = pat then Some (drop (length pat) s)
      else case s of [] \<Rightarrow> None | _ # t \<Rightarrow> after_sub pat t)"

declare after_sub.simps [simp del]

text \<open>\<open>atoi\<close> of the C library: \<open>strtol\<close>, which saturates, then the conversion to \<open>int\<close>.\<close>

definition c_atoi :: "string \<Rightarrow> int" where
  "c_atoi s = sint (word_of_int (fst (c_strtol s)) :: 32 word)"

text \<open>The values that the loop of \<open>get_afid_cb\<close> reads, in their order.\<close>

definition afid_field :: "string \<Rightarrow> (int \<times> string) + string" where
  "afid_field iter0 =
     (let iter1 = (if iter0 \<noteq> [] \<and> hd iter0 = CHR ''-'' then tl iter0 else iter0) in
      if take (length key_afid) iter1 = key_afid then
        (let iter2 = dropWhile (\<lambda>c. c \<noteq> CHR ''='' \<and> c \<noteq> newline) (drop (length key_afid) iter1) in
         if iter2 \<noteq> [] \<and> hd iter2 = CHR ''='' then
           (let iter3 = dropWhile (\<lambda>c. c = CHR '' '') (tl iter2) in Inl (c_atoi iter3, iter3))
         else Inr iter2)
      else Inr iter1)"

lemma after_sub_length:
  "after_sub pat s = Some r \<Longrightarrow> pat \<noteq> [] \<Longrightarrow> length r < length s"
proof (induction s)
  case Nil
  then show ?case by (simp add: after_sub.simps split: if_splits)
next
  case (Cons c s)
  show ?case
  proof (cases "take (length pat) (c # s) = pat")
    case True
    then have "r = drop (length pat) (c # s)"
      using Cons.prems(1) by (simp add: after_sub.simps [of pat "c # s"])
    with Cons.prems(2) show ?thesis by (cases pat) auto
  next
    case False
    with Cons show ?thesis by (auto simp: after_sub.simps [of pat "c # s"])
  qed
qed

lemma afid_field_length:
  "(case afid_field s of Inl (p, r) \<Rightarrow> length r \<le> length s | Inr r \<Rightarrow> length r \<le> length s)"
proof -
  let ?s1 = "if s \<noteq> [] \<and> hd s = CHR ''-'' then tl s else s"
  let ?s2 = "dropWhile (\<lambda>c. c \<noteq> CHR ''='' \<and> c \<noteq> newline) (drop (length key_afid) ?s1)"
  have "length ?s1 \<le> length s" by simp
  moreover have "length ?s2 \<le> length ?s1"
    by (rule order_trans [OF length_dropWhile_le]) simp
  moreover have "length (dropWhile (\<lambda>c. c = CHR '' '') (tl ?s2)) \<le> length ?s2"
    by (rule order_trans [OF length_dropWhile_le]) simp
  ultimately show ?thesis by (simp add: afid_field_def Let_def)
qed

lemma afid_scan_shorter:
  assumes "after_sub key_afm_prefix content = Some iter"
  shows "afid_field iter = Inl (p, iter') \<Longrightarrow> length iter' < length content"
    and "afid_field iter = Inr iter' \<Longrightarrow> length iter' < length content"
  using after_sub_length [OF assms] afid_field_length [of iter] by (auto simp: key_afm_prefix_def)

function afid_values :: "string \<Rightarrow> int list" where
  "afid_values content =
     (case after_sub key_afm_prefix content of
        None \<Rightarrow> []
      | Some iter \<Rightarrow>
          (case afid_field iter of
             Inl (p, iter') \<Rightarrow> p # afid_values iter'
           | Inr iter' \<Rightarrow> afid_values iter'))"
  by pat_completeness auto
termination
  by (relation "measure length") (auto dest: afid_scan_shorter)

declare afid_values.simps [simp del]

definition afid_record :: "int \<Rightarrow> afids \<Rightarrow> afids" where
  "afid_record p array = (if AFID_IS_VALID p then AFID_SET array (nat p) else array)"

definition get_afid_cb :: "afid_env \<Rightarrow> afids unit_cb" where
  "get_afid_cb env array name path isuser =
     (let (rc, content) = af_get env path
      in if rc < 0 then (rc, array)
         else (0, fold afid_record
                    (afid_values (takeWhile (\<lambda>c. c \<noteq> CHR 0x00) (snd (normalize_unit_file content))))
                    array))"

definition update_afids :: "afid_env \<Rightarrow> bool \<Rightarrow> afid_state \<Rightarrow> int \<times> afid_state" where
  "update_afids env strict st =
     (let a0 = replicate AFID_ACNT 0;
          (rcs, a1) = units_fs_list (af_root env) (af_opendir env) False (get_afid_cb env) a0 True;
          (rcu, a2) = units_fs_list (af_root env) (af_opendir env) True (get_afid_cb env) a1 True
      in (if \<not> strict then 0 else if rcs < 0 then rcs else rcu, st\<lparr>afids_array := a2\<rparr>))"

section \<open>Allocation\<close>

text \<open>The two loops of \<open>first_free_afid\<close>.\<close>

function skip_full_words :: "afids \<Rightarrow> nat \<Rightarrow> nat" where
  "skip_full_words array afid =
     (if afid \<le> AFID_MAX \<and> NOT (array ! AFID_AIDX afid) = 0
      then skip_full_words array (afid + 32) else afid)"
  by pat_completeness auto
termination
  by (relation "measure (\<lambda>(array, afid). Suc AFID_MAX - afid)") auto

function skip_used :: "afids \<Rightarrow> nat \<Rightarrow> nat" where
  "skip_used array afid =
     (if afid \<le> AFID_MAX \<and> AFID_TEST array afid then skip_used array (afid + 1) else afid)"
  by pat_completeness auto
termination
  by (relation "measure (\<lambda>(array, afid). Suc AFID_MAX - afid)") auto

declare skip_full_words.simps [simp del] skip_used.simps [simp del]

definition first_free_afid :: "afids \<Rightarrow> int" where
  "first_free_afid array =
     (let afid = skip_used array (skip_full_words array AFID_MIN)
      in if afid > AFID_MAX then - 1 else int afid)"

definition init_afid_manager :: "afid_env \<Rightarrow> bool \<Rightarrow> afid_state \<Rightarrow> int \<times> afid_state" where
  "init_afid_manager env strict st =
     (if init_done st then (0, st) else update_afids env strict (st\<lparr>init_done := True\<rparr>))"

definition get_new_afid :: "afid_env \<Rightarrow> afid_state \<Rightarrow> int \<times> afid_state" where
  "get_new_afid env st =
     (let (rc, st1) = init_afid_manager env True st in
      if rc < 0 then (rc, st1)
      else let afid = first_free_afid (afids_array st1);
               (rc, st2) = (if afid < 0 then update_afids env True st1 else (0, st1))
           in if rc < 0 then (rc, st2)
              else let afid = (if afid < 0 then first_free_afid (afids_array st2) else afid)
                   in (afid, if afid \<ge> 0
                             then st2\<lparr>afids_array := AFID_SET (afids_array st2) (nat afid)\<rparr> else st2))"

section \<open>The set of used identifiers\<close>

definition afid_range :: "nat set" where "afid_range = {AFID_MIN..AFID_MAX}"

definition afids_ok :: "afids \<Rightarrow> bool" where
  "afids_ok array \<longleftrightarrow> length array = AFID_ACNT \<and> (\<forall>n \<in> {AFID_MAX<..2016}. \<not> AFID_TEST array n)"

definition used_afids :: "afids \<Rightarrow> nat set" where
  "used_afids array = {n \<in> afid_range. AFID_TEST array n}"

lemma afid_range_iff: "n \<in> afid_range \<longleftrightarrow> 1 \<le> n \<and> n \<le> 1999"
  by (simp add: afid_range_def)

lemma afid_range_valid: "n \<in> afid_range \<Longrightarrow> AFID_IS_VALID (int n)"
  by (simp add: AFID_IS_VALID_def afid_range_def)

lemma AFID_TEST_bit: "AFID_TEST array n \<longleftrightarrow> bit (array ! AFID_AIDX n) (AFID_ASFT n)"
proof -
  have "drop_bit k w AND 1 \<noteq> 0 \<longleftrightarrow> bit w k" for k and w :: "32 word"
    by (simp add: and_one_eq bit_iff_odd_drop_bit odd_iff_mod_2_eq_one)
  then show ?thesis by (simp add: AFID_TEST_def)
qed

lemma afid_index_split:
  "1 \<le> a \<Longrightarrow> 1 \<le> b \<Longrightarrow> a = b \<longleftrightarrow> AFID_AIDX a = AFID_AIDX b \<and> AFID_ASFT a = AFID_ASFT b"
  unfolding AFID_AIDX_def AFID_ASFT_def
  by (metis AFID_MIN_def div_mult_mod_eq le_add_diff_inverse2)

lemma AFID_SET_test:
  assumes "length array = AFID_ACNT" "a \<in> afid_range" "1 \<le> b" "b \<le> 2016"
  shows "AFID_TEST (AFID_SET array a) b \<longleftrightarrow> a = b \<or> AFID_TEST array b"
proof -
  have "AFID_AIDX a < 63" "AFID_AIDX b < 63" using assms by (auto simp: AFID_AIDX_def afid_range_def)
  moreover have "AFID_ASFT b < 32" "AFID_ASFT a < 32" by (simp_all add: AFID_ASFT_def)
  ultimately show ?thesis
    using assms afid_index_split [of a b]
    by (auto simp: AFID_ACNT_def AFID_TEST_bit AFID_SET_def nth_list_update bit_simps afid_range_def)
qed

lemma AFID_SET_used:
  assumes "afids_ok array" "a \<in> afid_range"
  shows "afids_ok (AFID_SET array a)" "used_afids (AFID_SET array a) = insert a (used_afids array)"
proof -
  have len: "length array = AFID_ACNT" using assms(1) by (simp add: afids_ok_def)
  show "afids_ok (AFID_SET array a)"
    using assms AFID_SET_test [OF len assms(2)] by (auto simp: afids_ok_def AFID_SET_def afid_range_def)
  show "used_afids (AFID_SET array a) = insert a (used_afids array)"
    using assms AFID_SET_test [OF len assms(2)] by (auto simp: used_afids_def afid_range_def)
qed

lemma afids_zero: "afids_ok (replicate AFID_ACNT 0)" "used_afids (replicate AFID_ACNT 0) = {}"
proof -
  have "AFID_AIDX n < AFID_ACNT" if "n \<le> 2016" for n
    using that by (auto simp: AFID_AIDX_def AFID_ACNT_def)
  then show "afids_ok (replicate AFID_ACNT 0)" "used_afids (replicate AFID_ACNT 0) = {}"
    by (auto simp: afids_ok_def used_afids_def AFID_TEST_bit afid_range_iff)
qed

text \<open>A word without zero has all of its 32 identifiers used.\<close>

lemma full_word_test:
  assumes "NOT (array ! AFID_AIDX a) = 0" "a = 32 * k + 1" "a \<le> b" "b < a + 32"
  shows "AFID_TEST array b"
proof -
  have "AFID_AIDX b = AFID_AIDX a" using assms(2-4) by (auto simp: AFID_AIDX_def)
  moreover have "array ! AFID_AIDX a = - 1"
    using assms(1) by (metis bit.compl_zero bit.double_compl)
  ultimately show ?thesis by (simp add: AFID_TEST_bit AFID_ASFT_def)
qed

lemma skip_full_words_used:
  assumes "a = 32 * k + 1" "\<forall>b \<in> {1..<a}. AFID_TEST array b"
  shows "a \<le> skip_full_words array a \<and> (\<forall>b \<in> {1..<skip_full_words array a}. AFID_TEST array b)"
  using assms
proof (induction array a arbitrary: k rule: skip_full_words.induct)
  case (1 array a)
  show ?case
  proof (cases "a \<le> AFID_MAX \<and> NOT (array ! AFID_AIDX a) = 0")
    case True
    have "AFID_TEST array b" if "b \<in> {1..<a + 32}" for b
      using that 1(3) full_word_test [of array a k b] True 1(2) by (cases "b < a") auto
    with 1(1) [of "Suc k"] 1(2) True show ?thesis
      by (subst (1 2) skip_full_words.simps) auto
  next
    case False
    with 1 show ?thesis by (subst (1 2) skip_full_words.simps) auto
  qed
qed

lemma skip_used_first:
  assumes "\<forall>b \<in> {1..<a}. AFID_TEST array b" "1 \<le> a"
  shows "a \<le> skip_used array a \<and> (\<forall>b \<in> {1..<skip_used array a}. AFID_TEST array b) \<and>
         (skip_used array a \<le> AFID_MAX \<longrightarrow> \<not> AFID_TEST array (skip_used array a))"
  using assms
proof (induction array a rule: skip_used.induct)
  case (1 array a)
  show ?case
  proof (cases "a \<le> AFID_MAX \<and> AFID_TEST array a")
    case True
    then have eq: "skip_used array a = skip_used array (a + 1)" by (subst skip_used.simps) simp
    have "\<forall>b \<in> {1..<a + 1}. AFID_TEST array b"
      using 1(2) True by (auto simp: less_Suc_eq)
    from 1(1) [OF True this] show ?thesis unfolding eq by simp
  next
    case False
    then have "skip_used array a = a" by (subst skip_used.simps) auto
    with False 1(2) show ?thesis by simp
  qed
qed

lemma first_free_afid_least:
  "first_free_afid array = (if used_afids array = afid_range then - 1
     else int (LEAST n. n \<in> afid_range - used_afids array))"
proof -
  define a where "a = skip_used array (skip_full_words array 1)"
  have "1 = 32 * 0 + (1 :: nat)" by simp
  from skip_full_words_used [OF this, of array]
  have full: "1 \<le> skip_full_words array 1 \<and> (\<forall>b \<in> {1..<skip_full_words array 1}. AFID_TEST array b)"
    by simp
  from skip_used_first [of "skip_full_words array 1" array] full
  have a: "1 \<le> a" "\<forall>b \<in> {1..<a}. AFID_TEST array b" "a \<le> AFID_MAX \<longrightarrow> \<not> AFID_TEST array a"
    by (auto simp: a_def)
  have ff: "first_free_afid array = (if a > AFID_MAX then - 1 else int a)"
    by (simp add: first_free_afid_def a_def)
  show ?thesis
  proof (cases "a > AFID_MAX")
    case True
    then have "used_afids array = afid_range"
      using a by (auto simp: used_afids_def afid_range_def)
    with True ff show ?thesis by simp
  next
    case False
    then have free: "a \<in> afid_range - used_afids array"
      using a by (auto simp: used_afids_def afid_range_def)
    moreover have "a \<le> b" if "b \<in> afid_range - used_afids array" for b
      using that a by (fastforce simp: used_afids_def afid_range_def)
    ultimately have "(LEAST n. n \<in> afid_range - used_afids array) = a"
      by (rule Least_equality)
    with False ff free show ?thesis by auto
  qed
qed

lemma first_free_afid_cases:
  obtains (none) "first_free_afid array = - 1" "used_afids array = afid_range"
    | (some) a where "first_free_afid array = int a" "a \<in> afid_range" "a \<notin> used_afids array"
proof (cases "used_afids array = afid_range")
  case True
  then show ?thesis by (intro none) (simp_all add: first_free_afid_least)
next
  case False
  then obtain n where "n \<in> afid_range - used_afids array" by (auto simp: used_afids_def)
  then have "(LEAST n. n \<in> afid_range - used_afids array) \<in> afid_range - used_afids array"
    by (rule LeastI)
  with False show ?thesis by (intro some) (auto simp: first_free_afid_least)
qed

section \<open>What the scan collects\<close>

definition declared_in :: "afid_env \<Rightarrow> string \<Rightarrow> nat set" where
  "declared_in env path =
     {nat p | p. p \<in> set (afid_values (takeWhile (\<lambda>c. c \<noteq> CHR 0x00)
                  (snd (normalize_unit_file (snd (af_get env path)))))) \<and> AFID_IS_VALID p}"

definition unit_files :: "afid_env \<Rightarrow> bool \<Rightarrow> string set" where
  "unit_files env isuser =
     (case af_opendir env (afm_units_dir (af_root env) isuser) of
        Inl _ \<Rightarrow> {}
      | Inr (ds, _) \<Rightarrow>
          (\<lambda>d. afm_units_dir (af_root env) isuser @ ''/'' @ de_name d) `
            {d \<in> set ds. dirent_isfile d = Some True})"

definition declared_afids :: "afid_env \<Rightarrow> nat set" where
  "declared_afids env = (\<Union>isuser. \<Union>path \<in> unit_files env isuser. declared_in env path)"

lemma fold_afid_record:
  assumes "afids_ok array"
  shows "afids_ok (fold afid_record ps array) \<and>
         used_afids (fold afid_record ps array) = used_afids array \<union> {nat p | p. p \<in> set ps \<and> AFID_IS_VALID p}"
  using assms
proof (induction ps arbitrary: array)
  case (Cons p ps)
  show ?case
  proof (cases "AFID_IS_VALID p")
    case True
    then have "nat p \<in> afid_range" by (auto simp: AFID_IS_VALID_def afid_range_def)
    with Cons AFID_SET_used [of array "nat p"] True show ?thesis
      by (auto simp: afid_record_def)
  next
    case False
    with Cons show ?thesis by (auto simp: afid_record_def)
  qed
qed simp

lemma units_fs_loop_scan:
  assumes "units_fs_loop (get_afid_cb env) isuser pre enderr ds array = (rc, array')" "afids_ok array"
  shows "afids_ok array' \<and>
         (0 \<le> rc \<longrightarrow> rc = 0 \<and> used_afids array' = used_afids array \<union>
            (\<Union>d \<in> {d \<in> set ds. dirent_isfile d = Some True}. declared_in env (pre @ de_name d)))"
  using assms
proof (induction ds arbitrary: array)
  case Nil
  then show ?case by (auto split: if_splits)
next
  case (Cons d ds)
  show ?case
  proof (cases "dirent_isfile d = Some True \<and> length pre + length (de_name d) < UNITS_PATH_MAX + 1")
    case True
    obtain st content where g: "af_get env (pre @ de_name d) = (st, content)" by fastforce
    let ?vs = "afid_values (takeWhile (\<lambda>c. c \<noteq> CHR 0x00) (snd (normalize_unit_file content)))"
    have d: "declared_in env (pre @ de_name d) = {nat p | p. p \<in> set ?vs \<and> AFID_IS_VALID p}"
      using g by (simp add: declared_in_def)
    show ?thesis
    proof (cases "st < 0")
      case True
      with Cons.prems g \<open>dirent_isfile d = Some True \<and> _\<close> show ?thesis
        by (auto simp: get_afid_cb_def split: if_splits)
    next
      case False
      then have "get_afid_cb env array (de_name d) (pre @ de_name d) isuser = (0, fold afid_record ?vs array)"
        using g by (simp add: get_afid_cb_def)
      with Cons.prems(1) True
      have run: "units_fs_loop (get_afid_cb env) isuser pre enderr ds (fold afid_record ?vs array) = (rc, array')"
        by simp
      have f: "afids_ok (fold afid_record ?vs array)"
        "used_afids (fold afid_record ?vs array) = used_afids array \<union> declared_in env (pre @ de_name d)"
        using fold_afid_record [OF Cons.prems(2), of ?vs] d by simp_all
      have "{x \<in> set (d # ds). dirent_isfile x = Some True} =
            insert d {x \<in> set ds. dirent_isfile x = Some True}" using True by auto
      with Cons.IH [OF run f(1)] f(2) show ?thesis by auto
    qed
  next
    case False
    show ?thesis
    proof (cases "dirent_isfile d = Some False")
      case True
      with Cons have "afids_ok array' \<and>
         (0 \<le> rc \<longrightarrow> rc = 0 \<and> used_afids array' = used_afids array \<union>
            (\<Union>d \<in> {d \<in> set ds. dirent_isfile d = Some True}. declared_in env (pre @ de_name d)))"
        by simp
      moreover have "{x \<in> set (d # ds). dirent_isfile x = Some True} =
            {x \<in> set ds. dirent_isfile x = Some True}" using True by auto
      ultimately show ?thesis by simp
    next
      case nf: False
      with False Cons.prems show ?thesis
        by (cases "dirent_isfile d") (auto split: if_splits bool.splits)
    qed
  qed
qed

lemma units_fs_list_scan:
  assumes "units_fs_list (af_root env) (af_opendir env) isuser (get_afid_cb env) array True = (rc, array')"
    and "afids_ok array"
  shows "afids_ok array' \<and>
         (0 \<le> rc \<longrightarrow> rc = 0 \<and> used_afids array' = used_afids array \<union>
            (\<Union>path \<in> unit_files env isuser. declared_in env path))"
proof -
  let ?dir = "afm_units_dir (af_root env) isuser"
  show ?thesis
  proof (cases "length ?dir < UNITS_PATH_MAX")
    case False
    with assms show ?thesis
      by (auto simp: units_fs_list_def units_fs_get_afm_units_dir_def check_snprintf_result_def Let_def)
  next
    case True
    then have run: "(case af_opendir env ?dir of
        Inl errno \<Rightarrow> (if errno = ENOENT then 0 else - 1, array)
      | Inr (ds, enderr) \<Rightarrow> units_fs_loop (get_afid_cb env) isuser (?dir @ ''/'') enderr ds array) = (rc, array')"
      using assms(1)
      by (simp add: units_fs_list_def units_fs_get_afm_units_dir_def check_snprintf_result_def
          snprintf_text_def Let_def cong: sum.case_cong)
    show ?thesis
    proof (cases "af_opendir env ?dir")
      case (Inl e)
      with run assms(2) show ?thesis by (auto simp: unit_files_def split: if_splits)
    next
      case (Inr b)
      obtain ds enderr where b: "b = (ds, enderr)" by (cases b)
      with Inr run have "units_fs_loop (get_afid_cb env) isuser (?dir @ ''/'') enderr ds array = (rc, array')"
        by simp
      from units_fs_loop_scan [OF this assms(2)] Inr b show ?thesis
        by (auto simp: unit_files_def)
    qed
  qed
qed

lemma update_afids_scan:
  assumes "update_afids env True st = (rc, st')"
  shows "afids_ok (afids_array st') \<and> init_done st' = init_done st \<and>
         (0 \<le> rc \<longrightarrow> rc = 0 \<and> used_afids (afids_array st') = declared_afids env)"
proof -
  obtain rcs a1 where s: "units_fs_list (af_root env) (af_opendir env) False (get_afid_cb env)
      (replicate AFID_ACNT 0) True = (rcs, a1)" by fastforce
  obtain rcu a2 where u: "units_fs_list (af_root env) (af_opendir env) True (get_afid_cb env) a1 True = (rcu, a2)"
    by fastforce
  note S = units_fs_list_scan [OF s afids_zero(1)]
  note U = units_fs_list_scan [OF u S [THEN conjunct1]]
  have "declared_afids env = (\<Union>path \<in> unit_files env False. declared_in env path) \<union>
      (\<Union>path \<in> unit_files env True. declared_in env path)"
    by (auto simp: declared_afids_def) (metis (full_types))+
  with S U s u assms afids_zero(2) show ?thesis
    by (auto simp: update_afids_def Let_def split: if_splits)
qed

lemma get_new_afid_steps:
  assumes "get_new_afid env st = (r, st')" "init_done st \<longrightarrow> afids_ok (afids_array st)" "0 \<le> r"
  defines "used \<equiv> (if init_done st \<and> used_afids (afids_array st) \<noteq> afid_range
                   then used_afids (afids_array st) else declared_afids env)"
  shows "\<exists>a. r = int a \<and> a \<in> afid_range \<and> a \<notin> used \<and> init_done st' \<and> afids_ok (afids_array st') \<and>
             used_afids (afids_array st') = insert a used"
proof -
  obtain rc st1 where i: "init_afid_manager env True st = (rc, st1)" by fastforce
  have rc: "0 \<le> rc" using assms(1,3) i by (auto simp: get_new_afid_def split: if_splits)
  have st1: "afids_ok (afids_array st1)" "init_done st1"
    "used_afids (afids_array st1) = (if init_done st then used_afids (afids_array st) else declared_afids env)"
    using i rc assms(2) update_afids_scan [of env "st\<lparr>init_done := True\<rparr>" rc st1]
    by (auto simp: init_afid_manager_def split: if_splits)
  show ?thesis
  proof (cases "afids_array st1" rule: first_free_afid_cases)
    case (some a)
    then have st': "st' = st1\<lparr>afids_array := AFID_SET (afids_array st1) a\<rparr>" "r = int a"
      using assms(1) i rc by (auto simp: get_new_afid_def)
    have "used_afids (afids_array st1) \<noteq> afid_range" using some by auto
    then have "used_afids (afids_array st1) = used" using st1(3) by (auto simp: used_def)
    with st' st1 some AFID_SET_used [OF st1(1) some(2)] show ?thesis by auto
  next
    case none
    obtain rc2 st2 where u: "update_afids env True st1 = (rc2, st2)" by fastforce
    have rc2: "0 \<le> rc2" using assms(1,3) i rc none u by (auto simp: get_new_afid_def Let_def split: if_splits)
    from update_afids_scan [OF u] rc2 st1 none have st2: "afids_ok (afids_array st2)" "init_done st2"
      "used_afids (afids_array st2) = declared_afids env" by auto
    have used: "used = declared_afids env" using st1(3) none by (auto simp: used_def split: if_splits)
    show ?thesis
    proof (cases "afids_array st2" rule: first_free_afid_cases)
      case none2: none
      with assms(1,3) i rc none u rc2 show ?thesis by (auto simp: get_new_afid_def)
    next
      case (some a)
      then have "st' = st2\<lparr>afids_array := AFID_SET (afids_array st2) a\<rparr>" "r = int a"
        using assms(1) i rc none u rc2 by (auto simp: get_new_afid_def)
      with st2 some used AFID_SET_used [OF st2(1) some(2)] show ?thesis by auto
    qed
  qed
qed

section \<open>Properties\<close>

text \<open>The search by words of 32 identifiers then by single identifiers gives the least free
  identifier, or -1 exactly when all the identifiers from 1 to 1999 are used.\<close>

theorem first_free_afid_correct:
  "first_free_afid array = (if used_afids array = afid_range then - 1
     else int (LEAST n. n \<in> afid_range - used_afids array))"
  by (rule first_free_afid_least)

text \<open>The first allocation gives an identifier between 1 and 1999 that no unit file of the
  system or of the user declares, and records it as used.\<close>

theorem get_new_afid_fresh:
  assumes "get_new_afid env afid_initial = (r, st')" "0 \<le> r"
  shows "AFID_IS_VALID r \<and> nat r \<notin> declared_afids env \<and> init_done st' \<and>
         used_afids (afids_array st') = insert (nat r) (declared_afids env)"
proof -
  have "\<not> init_done afid_initial" by (simp add: afid_initial_def)
  with get_new_afid_steps [OF assms(1) _ assms(2)]
  obtain a where "r = int a" "a \<in> afid_range" "a \<notin> declared_afids env" "init_done st'"
    "used_afids (afids_array st') = insert a (declared_afids env)"
    by (simp only: simp_thms if_False) blast
  then show ?thesis using afid_range_valid by simp
qed

definition sample_env :: afid_env where
  "sample_env = \<lparr>af_root = ''/u'',
     af_opendir = (\<lambda>p. if p = ''/u/system''
                       then Inr ([\<lparr>de_name = ''a.service'', de_type = DT_REG, de_stat = None\<rparr>], False)
                       else Inl ENOENT),
     af_get = (\<lambda>p. (0, ''X-AFM-ID=1'' @ [newline]))\<rparr>"

lemma sample_values: "afid_values (''X-AFM-ID=1'' @ [newline]) = [1]"
  by (simp add: afid_values.simps after_sub.simps afid_field_def key_afm_prefix_def key_afid_def
      c_atoi_def c_strtol_def LONG_MAX_def digits_value_def is_digit_def c_isspace_def)

lemma sample_normal: "snd (normalize_unit_file (''X-AFM-ID=1'' @ [newline])) = ''X-AFM-ID=1'' @ [newline]"
  using normalize_loop_plain [of "[''X-AFM-ID=1'']" "'';#''" "[]"]
  by (simp add: normalize_unit_file_def normalize_unit_file_cmtchrs_def unlines_def plain_line_def unit_blank_def)

lemma sample_update:
  "update_afids sample_env True st = (0, st\<lparr>afids_array := AFID_SET (replicate AFID_ACNT 0) 1\<rparr>)"
  using sample_values sample_normal
  by (simp add: update_afids_def units_fs_list_def units_fs_get_afm_units_dir_def afm_units_dir_def
      units_dirname_def check_snprintf_result_def snprintf_text_def UNITS_PATH_MAX_def sample_env_def
      dirent_isfile_def get_afid_cb_def afid_record_def AFID_IS_VALID_def)

lemma sample_used: "used_afids (AFID_SET (replicate AFID_ACNT 0) 1) = {1}"
proof -
  have "1 \<in> afid_range" by (simp add: afid_range_iff)
  then show ?thesis using AFID_SET_used [OF afids_zero(1)] afids_zero(2) by simp
qed

lemma sample_declared: "declared_afids sample_env = {1}"
  using update_afids_scan [OF sample_update [of undefined]] sample_used by simp

lemma sample_first: "fst (get_new_afid sample_env afid_initial) = 2"
proof -
  have "(LEAST n. n \<in> afid_range - {1}) = 2" by (rule Least_equality) (auto simp: afid_range_iff)
  moreover have "{1} \<noteq> afid_range"
  proof
    assume "{1} = afid_range"
    moreover have "2 \<in> afid_range" by (simp add: afid_range_iff)
    ultimately have "2 \<in> {1 :: nat}" by (simp only:)
    then show False by simp
  qed
  ultimately have "first_free_afid (AFID_SET (replicate AFID_ACNT 0) 1) = 2" unfolding first_free_afid_least sample_used by simp
  then show ?thesis by (simp add: get_new_afid_def init_afid_manager_def afid_initial_def sample_update Let_def)
qed

theorem get_new_afid_fresh_witness:
  "fst (get_new_afid sample_env afid_initial) = 2 \<and> 2 \<notin> declared_afids sample_env"
proof -
  have "get_new_afid sample_env afid_initial = (2, snd (get_new_afid sample_env afid_initial))"
    using sample_first by (metis prod.collapse)
  from get_new_afid_fresh [OF this] sample_first show ?thesis by simp
qed

text \<open>As long as free identifiers remain, a further allocation gives one that was not
  given or declared before: it is valid, not used, and the set of the used identifiers
  grows by exactly it.\<close>

theorem get_new_afid_next:
  assumes "init_done st" "afids_ok (afids_array st)" "used_afids (afids_array st) \<noteq> afid_range"
  shows "\<exists>r st'. get_new_afid env st = (r, st') \<and> AFID_IS_VALID r \<and>
           nat r \<notin> used_afids (afids_array st) \<and> init_done st' \<and> afids_ok (afids_array st') \<and>
           used_afids (afids_array st') = insert (nat r) (used_afids (afids_array st))"
proof (cases "afids_array st" rule: first_free_afid_cases)
  case none
  with assms(3) show ?thesis by simp
next
  case (some a)
  obtain r st' where g: "get_new_afid env st = (r, st')" by fastforce
  with some assms(1) have "r = int a" by (auto simp: get_new_afid_def init_afid_manager_def)
  then have "0 \<le> r" by simp
  from get_new_afid_steps [OF g _ this] assms
  obtain b where "r = int b" "b \<in> afid_range" "b \<notin> used_afids (afids_array st)" "init_done st'"
    "afids_ok (afids_array st')" "used_afids (afids_array st') = insert b (used_afids (afids_array st))"
    by (simp only: simp_thms if_True) blast
  then show ?thesis using g afid_range_valid by simp
qed

theorem get_new_afid_next_witness:
  "\<exists>r st'. get_new_afid sample_env \<lparr>init_done = True, afids_array = replicate AFID_ACNT 0\<rparr> = (r, st') \<and>
     AFID_IS_VALID r \<and> used_afids (afids_array st') = {nat r}"
proof -
  let ?st = "\<lparr>init_done = True, afids_array = replicate AFID_ACNT 0\<rparr> :: afid_state"
  have "used_afids (afids_array ?st) \<noteq> afid_range"
    using afids_zero(2) afid_range_iff [of 2] by auto
  then show ?thesis
    using get_new_afid_next [of ?st sample_env] afids_zero by force
qed

end
