(* ===== verification/AfmUdb.thy ===== *)
theory AfmUdb
  imports Manifest Afid "HOL-Library.Sublist"
begin

text \<open>
  The database of the applications (\<^verbatim>\<open>src/src/binding/afm-udb.c\<close>): the scan of the unit files,
  the reading of the fields \<^verbatim>\<open>X-AFM-\<close>, the public and the private descriptions of applications,
  and the look up by identifier.

  The functions of json-c are parameters, as in the theory of manifests, with arrays and
  integers in addition. A description is modified in place by the code and given back
  modified here; the sharing of values between descriptions is not observable since shared
  values are never modified.
\<close>

record 'j array_lib =
  al_json :: "'j json_lib"
  al_new_array :: 'j
  al_array_add :: "'j \<Rightarrow> 'j \<Rightarrow> 'j"
  al_new_int64 :: "int \<Rightarrow> 'j"

abbreviation obj_get :: "'j array_lib \<Rightarrow> 'j \<Rightarrow> string \<Rightarrow> 'j option" where
  "obj_get al \<equiv> jl_get (al_json al)"

abbreviation obj_add :: "'j array_lib \<Rightarrow> 'j \<Rightarrow> string \<Rightarrow> 'j \<Rightarrow> 'j" where
  "obj_add al \<equiv> jl_add (al_json al)"

section \<open>Content of unit files\<close>

text \<open>
  The states of the loop of \<^verbatim>\<open>crop_and_trim_unit_content\<close>, numbered 0 to 3 in the code: the begin
  of a line, inside a line, after a backslash, inside a comment. The text that is written
  is the value; it may exceed the text that is read by one character.
\<close>

datatype crop_state = At_begin | In_line | After_backslash | In_comment

fun crop :: "crop_state \<Rightarrow> string \<Rightarrow> string" where
  "crop st [] = (if st = In_line then [newline] else [])"
| "crop st (c # cs) =
     (if c = CHR 0x0D then crop st cs
      else let emit = (\<lambda>c. if c = CHR 0x5C then crop After_backslash cs
                           else c # crop (if c = newline then At_begin else In_line) cs)
      in case st of
           At_begin \<Rightarrow>
             if c = CHR '';'' \<or> c = CHR ''#'' then crop In_comment cs
             else if c = newline then crop At_begin cs else emit c
         | In_line \<Rightarrow> emit c
         | After_backslash \<Rightarrow> if c = newline then emit (CHR '' '') else CHR 0x5C # emit c
         | In_comment \<Rightarrow> crop (if c = newline then At_begin else In_comment) cs)"

definition crop_and_trim_unit_content :: "string \<Rightarrow> string" where
  "crop_and_trim_unit_content content = crop At_begin (takeWhile (\<lambda>c. c \<noteq> CHR 0x00) content)"

text \<open>The value of a field: its translation and what follows its line.\<close>

fun field_value :: "string \<Rightarrow> string \<times> string" where
  "field_value [] = ([], [])"
| "field_value (c # r) =
     (if c = newline then ([], r)
      else if c \<noteq> CHR 0x5C then (let (v, rest) = field_value r in (c # v, rest))
      else case r of
             [] \<Rightarrow> ([CHR 0x5C], [])
           | d # r' \<Rightarrow>
               let (v, rest) = field_value r'
               in ((if d = CHR ''n'' then [newline] else if d = newline then [CHR '' ''] else [CHR 0x5C, d]) @ v, rest))"

definition x_afm_prefix :: string where "x_afm_prefix = ''X-AFM-''"

lemma field_value_length: "length (snd (field_value s)) \<le> length s"
proof (induction s rule: field_value.induct)
  case (2 c r)
  show ?case
  proof (cases "c = newline \<or> r = []")
    case True
    then show ?thesis by (auto split: prod.splits)
  next
    case False
    then obtain d r' where r: "r = d # r'" by (cases r) auto
    show ?thesis
      using 2 False r by (cases "c = CHR 0x5C") (auto simp: case_prod_unfold Let_def)
  qed
qed simp

text \<open>The fields that a content declares, in their order.\<close>

definition split_equal :: "string \<Rightarrow> (string \<times> string) option" where
  "split_equal s =
     (case dropWhile (\<lambda>c. c \<noteq> CHR ''='') s of [] \<Rightarrow> None | _ # r \<Rightarrow> Some (takeWhile (\<lambda>c. c \<noteq> CHR ''='') s, r))"

lemma split_equal_length: "split_equal s = Some (n, r) \<Longrightarrow> length r < length s"
  by (auto simp: split_equal_def split: list.splits) (metis Suc_le_lessD length_Cons length_dropWhile_le)

function content_fields :: "string \<Rightarrow> (string \<times> string) list" where
  "content_fields s =
     (case after_sub x_afm_prefix s of
        None \<Rightarrow> []
      | Some n \<Rightarrow>
          (case split_equal n of
             None \<Rightarrow> content_fields n
           | Some (name, v) \<Rightarrow> (name, fst (field_value v)) # content_fields (snd (field_value v))))"
  by pat_completeness auto

termination
proof (relation "measure length", goal_cases)
  case (2 s n)
  then show ?case using after_sub_length [of x_afm_prefix s n] by (simp add: x_afm_prefix_def)
next
  case (3 s n x name v)
  then show ?case
    using after_sub_length [of x_afm_prefix s n] split_equal_length [of n name v] field_value_length [of v]
    by (simp add: x_afm_prefix_def)
qed simp

declare content_fields.simps [simp del]

section \<open>Descriptions of applications\<close>

definition append_field :: "'j array_lib \<Rightarrow> mem \<Rightarrow> 'j \<Rightarrow> string \<Rightarrow> 'j \<Rightarrow> int \<times> 'j \<times> mem" where
  "append_field al m object name data =
     (case obj_get al object name of
        None \<Rightarrow> (0, obj_add al object name data, m)
      | Some item \<Rightarrow>
          if jl_type (al_json al) item = jtype_array
          then (0, obj_add al object name (al_array_add al item data), m)
          else let (ok, m') = c_alloc m in
            if ok then (0, obj_add al object name (al_array_add al (al_array_add al (al_new_array al) item) data), m')
            else (- 1, object, m'))"

definition field_json :: "'j array_lib \<Rightarrow> string \<Rightarrow> 'j" where
  "field_json al val =
     (let (ival, rest, erange) = c_strtol val in
      if val \<noteq> [] \<and> rest = [] \<and> \<not> erange then al_new_int64 al ival else jl_new_string (al_json al) val)"

text \<open>The status of \<^verbatim>\<open>append_field\<close> is not used.\<close>

definition add_field :: "'j array_lib \<Rightarrow> mem \<Rightarrow> 'j \<Rightarrow> 'j \<Rightarrow> string \<Rightarrow> string \<Rightarrow> int \<times> 'j \<times> 'j \<times> mem" where
  "add_field al m priv pub name val =
     (let (ok, m1) = c_alloc m in
      if \<not> ok then (- 1, priv, pub, m1)
      else if take 1 name = ''-'' then
        (let (_, priv', m2) = append_field al m1 priv (tl name) (field_json al val) in (0, priv', pub, m2))
      else
        (let (_, priv', m2) = append_field al m1 priv name (field_json al val);
             (_, pub', m3) = append_field al m2 pub name (field_json al val)
         in (0, priv', pub', m3)))"

fun add_fields :: "'j array_lib \<Rightarrow> mem \<Rightarrow> 'j \<Rightarrow> 'j \<Rightarrow> (string \<times> string) list \<Rightarrow> int \<times> 'j \<times> 'j \<times> mem" where
  "add_fields al m priv pub [] = (0, priv, pub, m)"
| "add_fields al m priv pub ((name, val) # fs) =
     (let (rc, priv', pub', m') = add_field al m priv pub name val
      in if rc < 0 then (rc, priv', pub', m') else add_fields al m' priv' pub' fs)"

definition add_fields_of_content :: "'j array_lib \<Rightarrow> mem \<Rightarrow> 'j \<Rightarrow> 'j \<Rightarrow> string \<Rightarrow> int \<times> 'j \<times> 'j \<times> mem" where
  "add_fields_of_content al m priv pub content = add_fields al m priv pub (content_fields content)"

section \<open>The database\<close>

record 'j app_sets =
  as_visibles :: 'j
  as_all :: 'j
  as_byname :: 'j

record 'j afm_apps =
  privates :: "'j app_sets"
  publics :: "'j app_sets"

record 'j afm_udb =
  applications :: "'j afm_apps option"
  refcount :: int
  ub_system :: bool
  ub_user :: bool
  ub_prefix :: string

text \<open>Six objects are created; all of them have to be.\<close>

fun allocs :: "nat \<Rightarrow> mem \<Rightarrow> bool \<times> mem" where
  "allocs 0 m = (True, m)"
| "allocs (Suc n) m = (let (ok, m1) = c_alloc m; (oks, m2) = allocs n m1 in (ok \<and> oks, m2))"

definition empty_sets :: "'j array_lib \<Rightarrow> 'j app_sets" where
  "empty_sets al = \<lparr>as_visibles = al_new_array al, as_all = al_new_array al, as_byname = jl_new_object (al_json al)\<rparr>"

definition apps_init :: "'j array_lib \<Rightarrow> mem \<Rightarrow> bool \<times> 'j afm_apps \<times> mem" where
  "apps_init al m =
     (let (ok, m') = allocs 6 m in (ok, \<lparr>privates = empty_sets al, publics = empty_sets al\<rparr>, m'))"

definition record_app :: "'j array_lib \<Rightarrow> string \<Rightarrow> bool \<Rightarrow> 'j \<Rightarrow> 'j app_sets \<Rightarrow> 'j app_sets" where
  "record_app al strid visible j s =
     \<lparr>as_visibles = (if visible then al_array_add al (as_visibles s) j else as_visibles s),
      as_all = al_array_add al (as_all s) j,
      as_byname = obj_add al (as_byname s) strid j\<rparr>"

definition is_visible :: "'j array_lib \<Rightarrow> 'j \<Rightarrow> bool" where
  "is_visible al priv =
     (case obj_get al priv ''visibility'' of
        None \<Rightarrow> False
      | Some visi \<Rightarrow> (case jl_string (al_json al) visi of None \<Rightarrow> False | Some s \<Rightarrow> c_strcasecmp_eq s ''visible''))"

definition unit_fields :: "bool \<Rightarrow> string \<Rightarrow> string \<Rightarrow> string \<Rightarrow> (string \<times> string) list" where
  "unit_fields isuser unitpath unitname content =
     content_fields content @
     [(''-unit-path'', unitpath), (''-unit-name'', unitname), (''-unit-scope'', if isuser then ''user'' else ''system'')]"

definition addunit ::
  "'j array_lib \<Rightarrow> mem \<Rightarrow> 'j afm_apps \<Rightarrow> bool \<Rightarrow> string \<Rightarrow> string \<Rightarrow> string \<Rightarrow> int \<times> 'j afm_apps \<times> mem" where
  "addunit al m apps isuser unitpath unitname content =
     (let (ok1, m1) = c_alloc m in
      if \<not> ok1 then (- 1, apps, m1)
      else let (ok2, m2) = c_alloc m1 in
        if \<not> ok2 then (- 1, apps, m2)
        else let (rc, priv, pub, m3) =
                   add_fields al m2 (jl_new_object (al_json al)) (jl_new_object (al_json al))
                     (unit_fields isuser unitpath unitname content)
             in if rc < 0 then (- 1, apps, m3)
                else case obj_get al pub ''id'' of
                  None \<Rightarrow> (- 1, apps, m3)
                | Some jid \<Rightarrow>
                    let strid = the (jl_string (al_json al) jid); visible = is_visible al priv
                    in (0, \<lparr>privates = record_app al strid visible priv (privates apps),
                            publics = record_app al strid visible pub (publics apps)\<rparr>, m3))"

text \<open>
  What the scan uses of the system: the directories, and \<^verbatim>\<open>rp_file_get\<close>. The reallocation that
  shrinks the content is taken to succeed.
\<close>

record udb_env =
  ue_root :: string
  ue_opendir :: "string \<Rightarrow> dirlist"
  ue_get :: "string \<Rightarrow> int \<times> string"

definition read_unit_file :: "udb_env \<Rightarrow> string \<Rightarrow> int \<times> string" where
  "read_unit_file env path =
     (let (rc, content) = ue_get env path
      in (rc, if rc \<ge> 0 then crop_and_trim_unit_content content else content))"

definition is_service :: "string \<Rightarrow> string \<Rightarrow> bool" where
  "is_service pre name \<longleftrightarrow> take (length pre) name = pre \<and> length name \<ge> 8 \<and> drop (length name - 8) name = ''.service''"

definition update_cb :: "'j array_lib \<Rightarrow> udb_env \<Rightarrow> string \<Rightarrow> ('j afm_apps \<times> mem) unit_cb" where
  "update_cb al env pre st name path isuser =
     (if \<not> is_service pre name then (0, st)
      else let (rc, content) = read_unit_file env path in
        if rc < 0 then (0, st)
        else let (_, apps, m) = addunit al (snd st) (fst st) isuser path name content in (0, apps, m))"

text \<open>The references taken around the update are given back.\<close>

definition afm_udb_update :: "'j array_lib \<Rightarrow> udb_env \<Rightarrow> mem \<Rightarrow> 'j afm_udb \<Rightarrow> int \<times> 'j afm_udb \<times> mem" where
  "afm_udb_update al env m db =
     (let (ok, apps, m1) = apps_init al m in
      if \<not> ok then (- 1, db, m1)
      else let (rcu, st1) = (if ub_user db then units_fs_list (ue_root env) (ue_opendir env) True (update_cb al env (ub_prefix db)) (apps, m1) True
                             else (0, (apps, m1)))
           in if rcu < 0 then (- 1, db, snd st1)
              else let (rcs, st2) = (if ub_system db then units_fs_list (ue_root env) (ue_opendir env) False (update_cb al env (ub_prefix db)) st1 True
                                     else (0, st1))
                   in if rcs < 0 then (- 1, db, snd st2)
                      else (0, db\<lparr>applications := Some (fst st2)\<rparr>, snd st2))"

definition afm_udb_addref :: "'j afm_udb \<Rightarrow> 'j afm_udb" where
  "afm_udb_addref db = db\<lparr>refcount := refcount db + 1\<rparr>"

text \<open>\<open>None\<close> when the last reference goes: the object is freed.\<close>

definition afm_udb_unref :: "'j afm_udb \<Rightarrow> 'j afm_udb option" where
  "afm_udb_unref db = (if refcount db - 1 = 0 then None else Some (db\<lparr>refcount := refcount db - 1\<rparr>))"

definition afm_udb_create ::
  "'j array_lib \<Rightarrow> udb_env \<Rightarrow> mem \<Rightarrow> bool \<Rightarrow> bool \<Rightarrow> string option \<Rightarrow> 'j afm_udb option \<times> mem" where
  "afm_udb_create al env m sys usr pre =
     (let (ok, m1) = c_alloc m in
      if \<not> ok then (None, m1)
      else let (rc, db, m2) = afm_udb_update al env m1
                 \<lparr>applications = None, refcount = 1, ub_system = sys, ub_user = usr,
                  ub_prefix = (case pre of None \<Rightarrow> [] | Some p \<Rightarrow> p)\<rparr>
           in (if rc < 0 then afm_udb_unref db else Some db, m2))"

section \<open>Queries\<close>

definition afm_udb_applications_private :: "'j afm_udb \<Rightarrow> bool \<Rightarrow> 'j option" where
  "afm_udb_applications_private db all = map_option (\<lambda>a. (if all then as_all else as_visibles) (privates a)) (applications db)"

definition afm_udb_applications_public :: "'j afm_udb \<Rightarrow> bool \<Rightarrow> 'j option" where
  "afm_udb_applications_public db all = map_option (\<lambda>a. (if all then as_all else as_visibles) (publics a)) (applications db)"

definition get_no_case :: "'j array_lib \<Rightarrow> 'j \<Rightarrow> string \<Rightarrow> 'j option" where
  "get_no_case al object idt =
     (case obj_get al object idt of
        Some j \<Rightarrow> Some j
      | None \<Rightarrow> map_option snd (List.find (\<lambda>(k, j). c_strcasecmp_eq k idt) (jl_fields (al_json al) object)))"

definition afm_udb_get_application_private :: "'j array_lib \<Rightarrow> 'j afm_udb \<Rightarrow> string \<Rightarrow> 'j option" where
  "afm_udb_get_application_private al db idt =
     Option.bind (applications db) (\<lambda>a. get_no_case al (as_byname (privates a)) idt)"

definition afm_udb_get_application_public :: "'j array_lib \<Rightarrow> 'j afm_udb \<Rightarrow> string \<Rightarrow> 'j option" where
  "afm_udb_get_application_public al db idt =
     Option.bind (applications db) (\<lambda>a. get_no_case al (as_byname (publics a)) idt)"

section \<open>Cropped contents\<close>

lemma lines_start_weaken: "lines_start bad True s \<Longrightarrow> lines_start bad b s"
  by (cases s) auto

lemma crop_lines: "lines_start [newline, CHR '';'', CHR ''#''] (st \<noteq> In_line) (crop st s)"
proof (induction s arbitrary: st)
  case (Cons c cs)
  note IH = Cons.IH [of At_begin] Cons.IH [of In_line] Cons.IH [of After_backslash] Cons.IH [of In_comment]
  show ?case using IH Cons.IH [of st] by (cases st) (auto intro: lines_start_weaken)
qed simp

lemma crop_no_return: "CHR 0x0D \<notin> set (crop st s)"
proof (induction s arbitrary: st)
  case (Cons c cs)
  then show ?case by (cases st) auto
qed simp

lemma crop_length: "length (crop st s) \<le> length s + (if st = After_backslash then 2 else 1)"
proof (induction s arbitrary: st)
  case (Cons c cs)
  note IH = Cons.IH [of At_begin] Cons.IH [of In_line] Cons.IH [of After_backslash] Cons.IH [of In_comment]
  show ?case using IH Cons.IH [of st] by (cases st) auto
qed simp

definition no_return :: "string \<Rightarrow> string" where
  "no_return s = filter (\<lambda>c. c \<noteq> CHR 0x0D) s"

lemma crop_complete:
  assumes "if no_return s = [] then st \<noteq> After_backslash else last (no_return s) \<noteq> CHR 0x5C"
  shows "(st \<in> {In_line, After_backslash} \<longrightarrow> crop st s \<noteq> []) \<and> complete_text (crop st s)"
  using assms
proof (induction s arbitrary: st)
  case (Cons c cs)
  note IH = Cons.IH [of At_begin] Cons.IH [of In_line] Cons.IH [of After_backslash] Cons.IH [of In_comment]
  show ?case using IH Cons.prems
    by (cases st; simp add: no_return_def complete_text_def split: if_splits; blast?)
qed (auto simp: complete_text_def no_return_def)

text \<open>
  The content may grow by the newline that ends its last line: then the terminating NUL is
  written past the block that holds the content and its own NUL.
\<close>

lemma crop_may_grow: "length (crop_and_trim_unit_content ''a'') = Suc (length ''a'')"
  by (simp add: crop_and_trim_unit_content_def)

section \<open>Values of fields\<close>

text \<open>The values that a list of fields gives to a name in the public and in the private description.\<close>

definition is_private :: "string \<Rightarrow> bool" where
  "is_private name \<longleftrightarrow> take 1 name = ''-''"

definition public_values :: "(string \<times> string) list \<Rightarrow> string \<Rightarrow> string list" where
  "public_values fs k = map snd (filter (\<lambda>(n, v). \<not> is_private n \<and> n = k) fs)"

definition private_values :: "(string \<times> string) list \<Rightarrow> string \<Rightarrow> string list" where
  "private_values fs k = map snd (filter (\<lambda>(n, v). (if is_private n then tl n else n) = k) fs)"

lemma values_Nil [simp]: "public_values [] = (\<lambda>k. [])" "private_values [] = (\<lambda>k. [])"
  by (auto simp: public_values_def private_values_def)

lemma values_snoc:
  "public_values (fs @ [(n, v)]) =
     (if is_private n then public_values fs else (public_values fs)(n := public_values fs n @ [v]))"
  "private_values (fs @ [(n, v)]) =
     (let n' = if is_private n then tl n else n in (private_values fs)(n' := private_values fs n' @ [v]))"
  by (auto simp: public_values_def private_values_def Let_def fun_eq_iff)

lemma public_values_append: "public_values (fs @ gs) k = public_values fs k @ public_values gs k"
  by (simp add: public_values_def)

text \<open>What an object holds at a name that was given the values \<open>ws\<close>: nothing, the value, or their array.\<close>

definition holds_values :: "'j array_lib \<Rightarrow> 'j \<Rightarrow> string \<Rightarrow> string list \<Rightarrow> bool" where
  "holds_values al j k ws \<longleftrightarrow>
     (case ws of
        [] \<Rightarrow> obj_get al j k = None
      | [w] \<Rightarrow> obj_get al j k = Some (field_json al w)
      | _ \<Rightarrow> (\<exists>a. obj_get al j k = Some a \<and> jl_type (al_json al) a = jtype_array \<and>
                  jl_items (al_json al) a = map (field_json al) ws))"

text \<open>
  An object describes the values of names. When memory lacks, some values may be missing;
  \<open>full\<close> tells that none is.
\<close>

definition describes :: "'j array_lib \<Rightarrow> bool \<Rightarrow> 'j \<Rightarrow> (string \<Rightarrow> string list) \<Rightarrow> bool" where
  "describes al full j vals \<longleftrightarrow>
     jl_type (al_json al) j = jtype_object \<and>
     (\<forall>k. \<exists>ws. subseq ws (vals k) \<and> (full \<longrightarrow> ws = vals k) \<and> holds_values al j k ws)"

lemma subseq_mem: "subseq xs ys \<Longrightarrow> x \<in> set xs \<Longrightarrow> x \<in> set ys"
  by (induction rule: list_emb.induct) auto

definition enough :: "bool \<Rightarrow> mem \<Rightarrow> bool" where
  "enough full m \<longleftrightarrow> (full \<longrightarrow> list_all id m)"

lemma enough_alloc: "c_alloc m = (ok, m') \<Longrightarrow> enough full m \<Longrightarrow> enough full m' \<and> (full \<longrightarrow> ok)"
  by (cases m) (auto simp: enough_def)

section \<open>What a database holds\<close>

text \<open>
  The units of a database: the file that each comes from (its name, its path and whether it
  is a unit of user), its descriptions, its identifier and whether it is visible.
\<close>

record 'j udb_unit =
  uu_file :: "string \<times> string \<times> bool"
  uu_priv :: 'j
  uu_pub :: 'j
  uu_id :: string
  uu_visible :: bool

text \<open>The lists and the index of a sequence of descriptions; the index gives the last one that has an identifier.\<close>

definition sets_hold :: "'j array_lib \<Rightarrow> (string \<times> bool \<times> 'j) list \<Rightarrow> 'j app_sets \<Rightarrow> bool" where
  "sets_hold al ds s \<longleftrightarrow>
     jl_type (al_json al) (as_visibles s) = jtype_array \<and>
     jl_items (al_json al) (as_visibles s) = [j. (_, v, j) \<leftarrow> ds, v] \<and>
     jl_type (al_json al) (as_all s) = jtype_array \<and>
     jl_items (al_json al) (as_all s) = [j. (_, _, j) \<leftarrow> ds] \<and>
     jl_type (al_json al) (as_byname s) = jtype_object \<and>
     obj_get al (as_byname s) = map_of (rev [(i, j). (i, _, j) \<leftarrow> ds]) \<and>
     set (jl_fields (al_json al) (as_byname s)) \<subseteq> set [(i, j). (i, _, j) \<leftarrow> ds] \<and>
     fst ` set ds \<subseteq> fst ` set (jl_fields (al_json al) (as_byname s))"

definition apps_hold :: "'j array_lib \<Rightarrow> 'j udb_unit list \<Rightarrow> 'j afm_apps \<Rightarrow> bool" where
  "apps_hold al us apps \<longleftrightarrow>
     sets_hold al (map (\<lambda>u. (uu_id u, uu_visible u, uu_priv u)) us) (privates apps) \<and>
     sets_hold al (map (\<lambda>u. (uu_id u, uu_visible u, uu_pub u)) us) (publics apps)"

definition unit_content :: "udb_env \<Rightarrow> string \<Rightarrow> string" where
  "unit_content env path = crop_and_trim_unit_content (snd (ue_get env path))"

definition unit_described :: "'j array_lib \<Rightarrow> bool \<Rightarrow> udb_env \<Rightarrow> 'j udb_unit \<Rightarrow> bool" where
  "unit_described al full env u \<longleftrightarrow>
     (case uu_file u of (name, path, isuser) \<Rightarrow>
        let fs = unit_fields isuser path name (unit_content env path) in
        describes al full (uu_priv u) (private_values fs) \<and> describes al full (uu_pub u) (public_values fs)) \<and>
     (\<exists>jid. obj_get al (uu_pub u) ''id'' = Some jid \<and> uu_id u = the (jl_string (al_json al) jid)) \<and>
     uu_visible u = is_visible al (uu_priv u)"

text \<open>The files that a scan visits, and those that declare an application.\<close>

definition scan_files :: "udb_env \<Rightarrow> bool \<Rightarrow> (string \<times> string \<times> bool) list" where
  "scan_files env isuser =
     (let (rc, path) = units_fs_get_afm_units_dir (ue_root env) UNITS_PATH_MAX isuser in
      case ue_opendir env path of
        Inl _ \<Rightarrow> []
      | Inr (ds, _) \<Rightarrow> [(de_name d, path @ ''/'' @ de_name d, isuser). d \<leftarrow> ds, dirent_isfile d = Some True])"

definition declares_app :: "udb_env \<Rightarrow> string \<Rightarrow> string \<times> string \<times> bool \<Rightarrow> bool" where
  "declares_app env pre = (\<lambda>(name, path, isuser).
     is_service pre name \<and> fst (ue_get env path) \<ge> 0 \<and>
     public_values (content_fields (unit_content env path)) ''id'' \<noteq> [])"

definition app_files :: "udb_env \<Rightarrow> 'j afm_udb \<Rightarrow> (string \<times> string \<times> bool) list" where
  "app_files env db =
     filter (declares_app env (ub_prefix db))
       ((if ub_user db then scan_files env True else []) @ (if ub_system db then scan_files env False else []))"

lemma unit_fields_public: "public_values (unit_fields isuser path name content) = public_values (content_fields content)"
  by (simp add: fun_eq_iff unit_fields_def public_values_append public_values_def is_private_def)

lemma units_fs_loop_fold:
  assumes "\<And>s n p. fst (cb s n p isuser) = 0" "units_fs_loop cb isuser pre e ds s = (rc, s')" "rc \<ge> 0"
  shows "s' = fold (\<lambda>d s. snd (cb s (de_name d) (pre @ de_name d) isuser)) (filter (\<lambda>d. dirent_isfile d = Some True) ds) s"
  using assms(2,3)
proof (induction ds arbitrary: s)
  case (Cons d ds)
  have "cb s (de_name d) (pre @ de_name d) isuser = (0, snd (cb s (de_name d) (pre @ de_name d) isuser))"
    using assms(1) by (metis prod.collapse)
  then show ?case using Cons by (auto split: option.splits bool.splits if_splits prod.splits)
qed (auto split: if_splits)

lemma units_fs_list_fold:
  assumes "\<And>s n p. fst (cb s n p isuser) = 0"
    and "units_fs_list (ue_root env) (ue_opendir env) isuser cb s relax = (rc, s')" "rc \<ge> 0"
  shows "s' = fold (\<lambda>(n, p, u) s. snd (cb s n p u)) (scan_files env isuser) s"
proof -
  have *: "fold (\<lambda>(n, p, u) s. snd (cb s n p u)) [(de_name d, path @ ''/'' @ de_name d, isuser). d \<leftarrow> ds, P d] s =
      fold (\<lambda>d s. snd (cb s (de_name d) (path @ ''/'' @ de_name d) isuser)) (filter P ds) s" for path P ds s
    by (induction ds arbitrary: s) auto
  show ?thesis
    using assms(2,3)
    by (auto simp: units_fs_list_def scan_files_def * split: prod.splits sum.splits if_splits
             dest!: units_fs_loop_fold [of cb isuser, OF assms(1)])
qed

locale array_laws = json_laws "al_json al" for al :: "'j array_lib" +
  assumes new_array: "jl_type (al_json al) (al_new_array al) = jtype_array" "jl_items (al_json al) (al_new_array al) = []"
    and array_add: "jl_type (al_json al) a = jtype_array \<Longrightarrow> jl_type (al_json al) (al_array_add al a x) = jtype_array"
      "jl_type (al_json al) a = jtype_array \<Longrightarrow> jl_items (al_json al) (al_array_add al a x) = jl_items (al_json al) a @ [x]"
    and new_int64: "jl_type (al_json al) (al_new_int64 al i) \<noteq> jtype_array"
    and fields_new: "jl_fields (al_json al) (jl_new_object (al_json al)) = []"
    and fields_add: "jl_type (al_json al) j = jtype_object \<Longrightarrow>
        (k, v) \<in> set (jl_fields (al_json al) (jl_add (al_json al) j k v)) \<and>
        set (jl_fields (al_json al) (jl_add (al_json al) j k v)) \<subseteq> insert (k, v) (set (jl_fields (al_json al) j)) \<and>
        fst ` set (jl_fields (al_json al) j) \<subseteq> fst ` set (jl_fields (al_json al) (jl_add (al_json al) j k v))"
begin

lemma field_json_type: "jl_type (al_json al) (field_json al v) \<noteq> jtype_array"
  by (simp add: field_json_def new_int64 new_string split: prod.splits)

lemma holds_append:
  assumes "holds_values al j k ws" "jl_type (al_json al) j = jtype_object"
    and "append_field al m j k (field_json al v) = (rc, j', m')"
  shows "jl_type (al_json al) j' = jtype_object \<and> (\<forall>k'. k' \<noteq> k \<longrightarrow> obj_get al j' k' = obj_get al j k') \<and>
    (rc = 0 \<and> holds_values al j' k (ws @ [v]) \<or> rc < 0 \<and> j' = j) \<and> (enough full m \<longrightarrow> enough full m' \<and> (full \<longrightarrow> rc = 0))"
proof -
  consider "ws = []" | w where "ws = [w]" | w1 w2 ws' where "ws = w1 # w2 # ws'" by (cases ws; cases "tl ws") auto
  then show ?thesis
  proof cases
    case 1
    then show ?thesis using assms by (auto simp: append_field_def holds_values_def get_add type_add)
  next
    case (2 w)
    obtain ok m1 where m: "c_alloc m = (ok, m1)" by fastforce
    show ?thesis using 2 assms m enough_alloc [OF m, of full]
      by (cases ok) (auto simp: append_field_def holds_values_def get_add type_add field_json_type array_add new_array)
  next
    case (3 w1 w2 ws')
    then show ?thesis using assms by (auto simp: append_field_def holds_values_def get_add type_add array_add)
  qed
qed

lemma describes_append:
  assumes "describes al full j vals" "enough full m"
    and "append_field al m j k (field_json al v) = (rc, j', m')"
  shows "describes al full j' (vals(k := vals k @ [v])) \<and> enough full m'"
proof -
  obtain ws where ws: "subseq ws (vals k)" "full \<longrightarrow> ws = vals k" "holds_values al j k ws" and ty: "jl_type (al_json al) j = jtype_object"
    using assms(1) unfolding describes_def by blast
  note a = holds_append [OF ws(3) ty assms(3), of full]
  obtain ws' where ws': "subseq ws' (vals k @ [v])" "full \<longrightarrow> ws' = vals k @ [v]" "holds_values al j' k ws'"
  proof (cases "rc = 0")
    case True
    with a show ?thesis using that [of "ws @ [v]"] ws by auto
  next
    case False
    with a assms(2) have "j' = j" "\<not> full" by auto
    with ws show ?thesis using that [of ws] by (auto intro: list_emb_append2)
  qed
  have "\<exists>us. subseq us ((vals(k := vals k @ [v])) k') \<and> (full \<longrightarrow> us = (vals(k := vals k @ [v])) k') \<and> holds_values al j' k' us" for k'
  proof (cases "k' = k")
    case True
    with ws' show ?thesis by auto
  next
    case False
    moreover have "holds_values al j' k' us \<longleftrightarrow> holds_values al j k' us" for us
    proof -
      from a False have "obj_get al j' k' = obj_get al j k'" by blast
      then show ?thesis unfolding holds_values_def by (simp only:)
    qed
    ultimately show ?thesis using assms(1) by (simp add: describes_def)
  qed
  then show ?thesis using a assms(2) by (simp add: describes_def)
qed

lemma add_field_describes:
  assumes "describes al full priv (private_values fs)" "describes al full pub (public_values fs)" "enough full m"
    and "add_field al m priv pub n v = (rc, priv', pub', m')"
  shows "enough full m' \<and> (full \<longrightarrow> rc = 0) \<and> rc \<le> 0 \<and>
    (rc = 0 \<longrightarrow> describes al full priv' (private_values (fs @ [(n, v)])) \<and> describes al full pub' (public_values (fs @ [(n, v)])))"
proof -
  obtain ok m1 where m: "c_alloc m = (ok, m1)" by fastforce
  note e = enough_alloc [OF m assms(3)]
  let ?n = "if is_private n then tl n else n"
  obtain r2 priv2 m2 where a: "append_field al m1 priv ?n (field_json al v) = (r2, priv2, m2)" by (metis prod_cases3)
  obtain r3 pub3 m3 where b: "append_field al m2 pub n (field_json al v) = (r3, pub3, m3)" by (metis prod_cases3)
  have da: "describes al full priv2 (private_values (fs @ [(n, v)]))" "enough full m2"
    using describes_append [OF assms(1) _ a] e by (auto simp: values_snoc Let_def)
  have db: "describes al full pub3 ((public_values fs)(n := public_values fs n @ [v]))" "enough full m3"
    using describes_append [OF assms(2) da(2) b] by auto
  show ?thesis
    using assms(2,4) m e a b da db by (auto simp: add_field_def values_snoc is_private_def split: if_splits)
qed

lemma add_fields_describes:
  assumes "describes al full priv (private_values ds)" "describes al full pub (public_values ds)" "enough full m"
    and "add_fields al m priv pub fs = (rc, priv', pub', m')"
  shows "enough full m' \<and> (full \<longrightarrow> rc = 0) \<and> rc \<le> 0 \<and>
    (rc = 0 \<longrightarrow> describes al full priv' (private_values (ds @ fs)) \<and> describes al full pub' (public_values (ds @ fs)))"
  using assms
proof (induction fs arbitrary: m priv pub ds)
  case (Cons f fs)
  obtain n v where f: "f = (n, v)" by (cases f)
  obtain r p q m1 where a: "add_field al m priv pub n v = (r, p, q, m1)" by (metis prod_cases4)
  note s = add_field_describes [OF Cons.prems(1,2,3) a]
  show ?case
  proof (cases "r = 0")
    case True
    with s a f Cons.prems(4) have "add_fields al m1 p q fs = (rc, priv', pub', m')" by simp
    with Cons.IH [of p "ds @ [(n, v)]" q m1] s True f show ?thesis by simp
  next
    case False
    with s a f Cons.prems(4) show ?thesis by auto
  qed
qed auto

lemma record_app_holds:
  assumes "sets_hold al ds s"
  shows "sets_hold al (ds @ [(i, v, j)]) (record_app al i v j s)"
proof -
  have ob: "jl_type (al_json al) (as_byname s) = jtype_object" using assms by (simp add: sets_hold_def)
  let ?F = "jl_fields (al_json al) (obj_add al (as_byname s) i j)"
  have "set ?F \<subseteq> set [(i, j). (i, _, j) \<leftarrow> ds @ [(i, v, j)]]"
    using assms fields_add [OF ob, of i j] by (auto simp: sets_hold_def)
  moreover have "fst ` set (ds @ [(i, v, j)]) \<subseteq> fst ` set ?F"
  proof -
    have "fst ` set ds \<subseteq> fst ` set ?F" "(i, j) \<in> set ?F"
      using assms fields_add [OF ob, of i j] unfolding sets_hold_def by blast+
    then show ?thesis by force
  qed
  ultimately show ?thesis
    using assms ob by (simp add: sets_hold_def record_app_def array_add type_add get_add fun_eq_iff)
qed

lemma describes_get_None:
  "describes al full j vals \<Longrightarrow> vals k = [] \<Longrightarrow> obj_get al j k = None"
proof -
  assume "describes al full j vals" "vals k = []"
  then have "holds_values al j k []" unfolding describes_def by (metis list_emb_Nil2)
  then show ?thesis by (simp add: holds_values_def)
qed

lemma describes_get_Some:
  "describes al True j vals \<Longrightarrow> vals k \<noteq> [] \<Longrightarrow> obj_get al j k \<noteq> None"
proof -
  assume "describes al True j vals" "vals k \<noteq> []"
  then have "holds_values al j k (vals k)" unfolding describes_def by metis
  with \<open>vals k \<noteq> []\<close> show ?thesis by (auto simp: holds_values_def split: list.splits)
qed

lemma describes_new: "describes al full (jl_new_object (al_json al)) (\<lambda>k. [])"
  unfolding describes_def
  by (intro conjI allI exI [of _ "[]"]) (simp_all add: holds_values_def new_object)

lemma addunit_holds:
  assumes "apps_hold al us apps" "enough full m"
    and "addunit al m apps isuser path name (unit_content env path) = (rc, apps', m')"
  shows "enough full m' \<and>
    (apps' = apps \<and> (full \<longrightarrow> public_values (content_fields (unit_content env path)) ''id'' = []) \<or>
     (\<exists>u. apps_hold al (us @ [u]) apps' \<and> unit_described al full env u \<and> uu_file u = (name, path, isuser) \<and>
          public_values (content_fields (unit_content env path)) ''id'' \<noteq> []))"
proof -
  let ?fs = "unit_fields isuser path name (unit_content env path)"
  obtain ok1 m1 where m1: "c_alloc m = (ok1, m1)" by fastforce
  obtain ok2 m2 where m2: "c_alloc m1 = (ok2, m2)" by fastforce
  have e1: "enough full m1" "full \<longrightarrow> ok1" using enough_alloc [OF m1 assms(2)] by auto
  have e2: "enough full m2" "full \<longrightarrow> ok2" using enough_alloc [OF m2 e1(1)] by auto
  let ?new = "jl_new_object (al_json al)"
  obtain r priv pub m3 where a: "add_fields al m2 ?new ?new ?fs = (r, priv, pub, m3)" by (metis prod_cases4)
  have d: "enough full m3 \<and> (full \<longrightarrow> r = 0) \<and> r \<le> 0 \<and>
      (r = 0 \<longrightarrow> describes al full priv (private_values ?fs) \<and> describes al full pub (public_values ?fs))"
    using add_fields_describes [of full ?new "[]" ?new m2 ?fs r priv pub m3] describes_new e2 a by simp
  show ?thesis
  proof (cases "ok1 \<and> ok2 \<and> r = 0")
    case False
    with assms(3) m1 m2 a d e1 e2 show ?thesis by (auto simp: addunit_def split: if_splits)
  next
    case True
    with d have desc: "describes al full priv (private_values ?fs)" "describes al full pub (public_values ?fs)" by auto
    show ?thesis
    proof (cases "obj_get al pub ''id''")
      case None
      with True assms(3) m1 m2 a d describes_get_Some [OF _, of pub "public_values ?fs" "''id''"] desc show ?thesis
        by (auto simp: addunit_def unit_fields_public)
    next
      case (Some jid)
      let ?u = "\<lparr>uu_file = (name, path, isuser), uu_priv = priv, uu_pub = pub,
        uu_id = the (jl_string (al_json al) jid), uu_visible = is_visible al priv\<rparr>"
      have "unit_described al full env ?u" using desc Some by (simp add: unit_described_def Let_def)
      moreover have "apps_hold al (us @ [?u]) apps' \<and> m' = m3"
        using True assms(1,3) m1 m2 a Some by (auto simp: addunit_def apps_hold_def Let_def intro: record_app_holds)
      moreover have "public_values (content_fields (unit_content env path)) ''id'' \<noteq> []"
        using describes_get_None [OF desc(2), of "''id''"] Some by (auto simp: unit_fields_public)
      ultimately show ?thesis using d by (metis udb_unit.select_convs(1))
    qed
  qed
qed

lemma update_cb_holds:
  assumes "apps_hold al us (fst st)" "enough full (snd st)" "update_cb al env pre st name path isuser = (rc, st')"
  shows "rc = 0 \<and> enough full (snd st') \<and>
    (fst st' = fst st \<and> (full \<longrightarrow> \<not> declares_app env pre (name, path, isuser)) \<or>
     (\<exists>u. apps_hold al (us @ [u]) (fst st') \<and> unit_described al full env u \<and> uu_file u = (name, path, isuser) \<and>
          declares_app env pre (name, path, isuser)))"
proof (cases "is_service pre name \<and> fst (ue_get env path) \<ge> 0")
  case True
  obtain r apps m where a: "addunit al (snd st) (fst st) isuser path name (unit_content env path) = (r, apps, m)"
    by (metis prod_cases3)
  have "rc = 0" "st' = (apps, m)"
    using assms(3) True a by (auto simp: update_cb_def read_unit_file_def unit_content_def split: prod.splits)
  then show ?thesis using addunit_holds [OF assms(1,2) a] True by (simp add: declares_app_def)
next
  case False
  then show ?thesis using assms
    by (auto simp: update_cb_def read_unit_file_def declares_app_def split: prod.splits if_splits)
qed

lemma scan_holds:
  assumes "apps_hold al us (fst st)" "enough full (snd st)"
    and "st' = fold (\<lambda>(n, p, u) st. snd (update_cb al env pre st n p u)) files st"
  shows "enough full (snd st') \<and> (\<exists>vs. apps_hold al (us @ vs) (fst st') \<and> list_all (unit_described al full env) vs \<and>
    subseq (map uu_file vs) (filter (declares_app env pre) files) \<and>
    (full \<longrightarrow> map uu_file vs = filter (declares_app env pre) files))"
  using assms
proof (induction files arbitrary: us st)
  case Nil
  then show ?case by (intro conjI exI [of _ "[]"]) auto
next
  case (Cons f files)
  obtain n p u where f: "f = (n, p, u)" by (metis prod_cases3)
  obtain rc st1 where c: "update_cb al env pre st n p u = (rc, st1)" by (metis surj_pair)
  have st': "st' = fold (\<lambda>(n, p, u) st. snd (update_cb al env pre st n p u)) files st1"
    using Cons.prems(3) f c by simp
  note h = update_cb_holds [OF Cons.prems(1,2) c]
  then consider (same) "fst st1 = fst st" "full \<longrightarrow> \<not> declares_app env pre f"
    | (new) w where "apps_hold al (us @ [w]) (fst st1)" "unit_described al full env w" "uu_file w = f" "declares_app env pre f"
    using f by blast
  then show ?case
  proof cases
    case same
    with Cons.IH [of us st1] Cons.prems(1) h st' show ?thesis by (auto intro: list_emb.intros)
  next
    case (new w)
    with Cons.IH [of "us @ [w]" st1] h st' obtain vs where
      "enough full (snd st')" "apps_hold al (us @ w # vs) (fst st')" "list_all (unit_described al full env) vs"
      "subseq (map uu_file vs) (filter (declares_app env pre) files)"
      "full \<longrightarrow> map uu_file vs = filter (declares_app env pre) files" by auto
    with new show ?thesis by (intro conjI exI [of _ "w # vs"]) auto
  qed
qed

lemma apps_init_holds:
  assumes "apps_init al m = (ok, apps, m')" "enough full m"
  shows "apps_hold al [] apps \<and> enough full m' \<and> (full \<longrightarrow> ok)"
proof -
  have "enough full m \<Longrightarrow> allocs n m = (ok, m') \<Longrightarrow> enough full m' \<and> (full \<longrightarrow> ok)" for n m ok m'
  proof (induction n arbitrary: m ok)
    case (Suc n)
    obtain ok1 m1 where m1: "c_alloc m = (ok1, m1)" by fastforce
    obtain ok2 m2 where m2: "allocs n m1 = (ok2, m2)" by fastforce
    show ?case using Suc.IH [of m1 ok2] Suc.prems enough_alloc [OF m1 Suc.prems(1)] m1 m2 by auto
  qed simp
  moreover have "sets_hold al [] (empty_sets al)"
    using fields_new new_object(2) by (simp add: sets_hold_def empty_sets_def new_array new_object(1) fun_eq_iff)
  ultimately show ?thesis using assms by (auto simp: apps_init_def apps_hold_def split: prod.splits)
qed

lemma scan_kind_holds:
  assumes "apps_hold al us (fst st)" "enough full (snd st)"
    and "(if wanted then units_fs_list (ue_root env) (ue_opendir env) isuser (update_cb al env pre) st True else (0, st)) = (rc, st')"
    and "rc \<ge> 0"
  shows "enough full (snd st') \<and> (\<exists>vs. apps_hold al (us @ vs) (fst st') \<and> list_all (unit_described al full env) vs \<and>
    subseq (map uu_file vs) (filter (declares_app env pre) (if wanted then scan_files env isuser else [])) \<and>
    (full \<longrightarrow> map uu_file vs = filter (declares_app env pre) (if wanted then scan_files env isuser else [])))"
proof -
  have zero: "fst (update_cb al env pre s n p isuser) = 0" for s n p
    by (auto simp: update_cb_def split: prod.splits)
  have "st' = fold (\<lambda>(n, p, u) st. snd (update_cb al env pre st n p u)) (if wanted then scan_files env isuser else []) st"
    using assms(3,4) units_fs_list_fold [of "update_cb al env pre" isuser env st True rc st', OF zero] by (auto split: if_splits)
  then show ?thesis by (rule scan_holds [OF assms(1,2)])
qed

lemma update_holds:
  assumes "afm_udb_update al env m db = (rc, db', m')"
  shows "(rc < 0 \<longrightarrow> db' = db) \<and>
    (rc \<ge> 0 \<longrightarrow> (\<exists>a us. db' = db\<lparr>applications := Some a\<rparr> \<and> apps_hold al us a \<and>
       list_all (unit_described al (list_all id m) env) us \<and>
       subseq (map uu_file us) (app_files env db) \<and> (list_all id m \<longrightarrow> map uu_file us = app_files env db)))"
proof -
  let ?full = "list_all id m"
  obtain ok apps m1 where i: "apps_init al m = (ok, apps, m1)" by (metis prod_cases3)
  have i': "apps_hold al [] apps" "enough ?full m1"
    using apps_init_holds [OF i, of ?full] by (auto simp: enough_def)
  obtain rcu st1 where u: "(if ub_user db then units_fs_list (ue_root env) (ue_opendir env) True (update_cb al env (ub_prefix db)) (apps, m1) True
                             else (0, (apps, m1))) = (rcu, st1)" by (metis surj_pair)
  obtain rcs st2 where s: "(if ub_system db then units_fs_list (ue_root env) (ue_opendir env) False (update_cb al env (ub_prefix db)) st1 True
                             else (0, st1)) = (rcs, st2)" by (metis surj_pair)
  show ?thesis
  proof (cases "ok \<and> rcu \<ge> 0 \<and> rcs \<ge> 0")
    case False
    then show ?thesis using assms i u s by (auto simp: afm_udb_update_def Let_def split: if_splits)
  next
    case True
    obtain us where us: "enough ?full (snd st1)" "apps_hold al us (fst st1)" "list_all (unit_described al ?full env) us"
      "subseq (map uu_file us) (filter (declares_app env (ub_prefix db)) (if ub_user db then scan_files env True else []))"
      "?full \<longrightarrow> map uu_file us = filter (declares_app env (ub_prefix db)) (if ub_user db then scan_files env True else [])"
      using scan_kind_holds [OF _ _ u, of "[]" ?full] i' True by auto
    obtain vs where vs: "apps_hold al (us @ vs) (fst st2)" "list_all (unit_described al ?full env) vs"
      "subseq (map uu_file vs) (filter (declares_app env (ub_prefix db)) (if ub_system db then scan_files env False else []))"
      "?full \<longrightarrow> map uu_file vs = filter (declares_app env (ub_prefix db)) (if ub_system db then scan_files env False else [])"
      using scan_kind_holds [OF us(2,1) s] True by auto
    have r: "rc = 0 \<and> db' = db\<lparr>applications := Some (fst st2)\<rparr>"
      using assms i u s True by (auto simp: afm_udb_update_def Let_def split: if_splits)
    have "subseq (map uu_file (us @ vs)) (app_files env db)"
      using list_emb_append_mono [OF us(4) vs(3)] by (simp add: app_files_def)
    moreover have "?full \<longrightarrow> map uu_file (us @ vs) = app_files env db"
      using us(5) vs(4) by (simp add: app_files_def)
    moreover have "list_all (unit_described al ?full env) (us @ vs)" using us(3) vs(2) by simp
    ultimately show ?thesis
      using r vs(1) by (intro conjI impI exI [of _ "fst st2"] exI [of _ "us @ vs"]) auto
  qed
qed

lemma get_no_case_holds:
  assumes "sets_hold al ds s"
  shows "(case get_no_case al (as_byname s) idt of
      None \<Rightarrow> list_all (\<lambda>(i, _, _). \<not> c_strcasecmp_eq i idt) ds
    | Some j \<Rightarrow> map_of (rev [(i, j). (i, _, j) \<leftarrow> ds]) idt = Some j \<or>
        idt \<notin> fst ` set ds \<and> (\<exists>i v. (i, v, j) \<in> set ds \<and> c_strcasecmp_eq i idt))"
proof -
  let ?m = "map_of (rev [(i, j). (i, _, j) \<leftarrow> ds])"
  have get: "obj_get al (as_byname s) = ?m" and sub: "set (jl_fields (al_json al) (as_byname s)) \<subseteq> set [(i, j). (i, _, j) \<leftarrow> ds]"
    and sup: "fst ` set ds \<subseteq> fst ` set (jl_fields (al_json al) (as_byname s))"
    using assms by (simp_all add: sets_hold_def)
  show ?thesis
  proof (cases "?m idt")
    case (Some j)
    then show ?thesis by (simp add: get_no_case_def get)
  next
    case None
    then have no: "idt \<notin> fst ` set ds" by (force simp: map_of_eq_None_iff)
    let ?P = "\<lambda>(k, j). c_strcasecmp_eq k idt" and ?F = "jl_fields (al_json al) (as_byname s)"
    show ?thesis
    proof (cases "List.find ?P ?F")
      case (Some x)
      obtain i j where x: "x = (i, j)" by (cases x)
      with Some have "(i, j) \<in> set ?F" "c_strcasecmp_eq i idt" by (auto simp: find_Some_iff set_conv_nth)
      then have "(i, j) \<in> set [(i, j). (i, _, j) \<leftarrow> ds]" using sub by blast
      then have "\<exists>v. (i, v, j) \<in> set ds" by auto
      with Some x no \<open>?m idt = None\<close> \<open>c_strcasecmp_eq i idt\<close> show ?thesis by (auto simp: get_no_case_def get)
    next
      case fNone: None
      have "\<not> c_strcasecmp_eq i idt" if "(i, v, j) \<in> set ds" for i v j
      proof -
        from that have "i \<in> fst ` set ds" by force
        with sup obtain j' where "(i, j') \<in> set ?F" by force
        with fNone show ?thesis by (auto simp: find_None_iff)
      qed
      then show ?thesis using fNone \<open>?m idt = None\<close> by (auto simp: get_no_case_def get list_all_iff)
    qed
  qed
qed

lemma get_no_case_member:
  assumes "sets_hold al ds s" "get_no_case al (as_byname s) idt = Some j"
  shows "\<exists>i v. (i, v, j) \<in> set ds \<and> c_strcasecmp_eq i idt"
proof -
  consider "map_of (rev [(i, j). (i, _, j) \<leftarrow> ds]) idt = Some j" | "\<exists>i v. (i, v, j) \<in> set ds \<and> c_strcasecmp_eq i idt"
    using get_no_case_holds [OF assms(1), of idt] assms(2) by auto
  then show ?thesis
  proof cases
    case 1
    then have "(idt, j) \<in> set [(i, j). (i, _, j) \<leftarrow> ds]" by (metis map_of_SomeD set_rev)
    then show ?thesis by (auto simp: c_strcasecmp_eq_def)
  qed
qed

lemma public_fields_declared:
  assumes "unit_described al full env u" "obj_get al (uu_pub u) k \<noteq> None"
  shows "\<not> is_private k \<and> k \<in> fst ` set (content_fields (unit_content env (fst (snd (uu_file u)))))"
proof -
  let ?c = "content_fields (unit_content env (fst (snd (uu_file u))))"
  have "describes al full (uu_pub u) (public_values ?c)"
    using assms(1) by (auto simp: unit_described_def unit_fields_public Let_def split: prod.splits)
  with assms(2) have "public_values ?c k \<noteq> []" using describes_get_None [of full "uu_pub u" "public_values ?c" k] by auto
  then show ?thesis by (force simp: public_values_def filter_empty_conv)
qed

lemma public_answer_declared:
  assumes "apps_hold al us a" "list_all (unit_described al full env) us"
    and "j \<in> set (jl_items (al_json al) (as_all (publics a))) \<or> j \<in> set (jl_items (al_json al) (as_visibles (publics a))) \<or>
         get_no_case al (as_byname (publics a)) idt = Some j"
    and "obj_get al j k \<noteq> None"
  shows "\<not> is_private k \<and> (\<exists>u \<in> set us. k \<in> fst ` set (content_fields (unit_content env (fst (snd (uu_file u))))))"
proof -
  have s: "sets_hold al (map (\<lambda>u. (uu_id u, uu_visible u, uu_pub u)) us) (publics a)" using assms(1) by (simp add: apps_hold_def)
  have "\<exists>u \<in> set us. uu_pub u = j"
    using assms(3) get_no_case_member [OF s, of idt j] s by (auto simp: sets_hold_def split: if_splits)
  then obtain u where "u \<in> set us" "uu_pub u = j" by blast
  with public_fields_declared [of full env u k] assms(2,4) show ?thesis by (auto simp: list_all_iff)
qed

end

section \<open>Databases of applications\<close>

definition json_array_data :: "json array_lib" where
  "json_array_data =
     \<lparr>al_json = json_data, al_new_array = JArr [],
      al_array_add = (\<lambda>a x. case a of JArr xs \<Rightarrow> JArr (xs @ [x]) | _ \<Rightarrow> a),
      al_new_int64 = (\<lambda>i. JNum (c_decimal i))\<rparr>"

lemma set_set_field:
  "(k, v) \<in> set (set_field k v fs) \<and> set (set_field k v fs) \<subseteq> insert (k, v) (set fs) \<and>
   fst ` set fs \<subseteq> fst ` set (set_field k v fs)"
proof (induction fs)
  case (Cons f fs)
  then show ?case by (cases f; cases "fst f = k") auto
qed simp

lemma json_array_data_sel [simp]:
  "al_json json_array_data = json_data" "al_new_array json_array_data = JArr []"
  "al_array_add json_array_data (JArr xs) x = JArr (xs @ [x])" "al_new_int64 json_array_data i = JNum (c_decimal i)"
  by (simp_all add: json_array_data_def)

interpretation array_data: array_laws json_array_data
proof -
  have obj: "jl_type json_data j = jtype_object \<longleftrightarrow> (\<exists>fs. j = JObj fs)" for j by (cases j) (auto simp: json_data_def)
  have arr: "jl_type json_data j = jtype_array \<longleftrightarrow> (\<exists>xs. j = JArr xs)" for j by (cases j) (auto simp: json_data_def)
  have fields: "jl_fields json_data (JObj fs) = fs" "jl_add json_data (JObj fs) k v = JObj (set_field k v fs)"
    "jl_items json_data (JArr xs) = xs" "jl_type json_data (JNum n) = jtype_other" "jl_new_object json_data = JObj []" for fs k v xs n
    by (simp_all add: json_data_def)
  show "array_laws json_array_data"
  proof (intro array_laws.intro array_laws_axioms.intro)
    show "json_laws (al_json json_array_data)" using data.json_laws_axioms by simp
    fix j k v
    assume "jl_type (al_json json_array_data) j = jtype_object"
    then obtain fs where "j = JObj fs" using obj by auto
    then show "(k, v) \<in> set (jl_fields (al_json json_array_data) (obj_add json_array_data j k v)) \<and>
        set (jl_fields (al_json json_array_data) (obj_add json_array_data j k v)) \<subseteq>
          insert (k, v) (set (jl_fields (al_json json_array_data) j)) \<and>
        fst ` set (jl_fields (al_json json_array_data) j) \<subseteq>
          fst ` set (jl_fields (al_json json_array_data) (obj_add json_array_data j k v))"
      using set_set_field [of k v fs] by (simp add: fields)
  qed (auto simp: arr fields)
qed

text \<open>C19: An update of the database either fails and leaves it unchanged, or makes it hold one
  application for each service file of the scanned directories that can be read and
  declares a public identifier, in the order of the scan; the descriptions hold the values
  of the fields of the file, gathered in arrays when a field is repeated, the lists and the
  index agree. When memory lacks applications or values may miss, but nothing else
  appears.\<close>

theorem afm_udb_update_refines:
  assumes "array_laws al" and "afm_udb_update al env m db = (rc, db', m')"
  shows "(rc < 0 \<longrightarrow> db' = db) \<and>
    (rc \<ge> 0 \<longrightarrow> (\<exists>a us. db' = db\<lparr>applications := Some a\<rparr> \<and> apps_hold al us a \<and>
       list_all (unit_described al (list_all id m) env) us \<and>
       subseq (map uu_file us) (app_files env db) \<and> (list_all id m \<longrightarrow> map uu_file us = app_files env db)))"
  by (rule array_laws.update_holds [OF assms])

definition demo_unit :: string where
  "demo_unit = ''[Unit]'' @ [newline] @ ''X-AFM-id=App'' @ [newline] @ ''X-AFM--secret=7'' @ [newline] @
     ''X-AFM-visibility=visible'' @ [newline]"

definition demo_udb_env :: udb_env where
  "demo_udb_env =
     \<lparr>ue_root = ''/x'',
      ue_opendir = (\<lambda>p. if p = afm_units_dir ''/x'' False
        then Inr ([\<lparr>de_name = ''a.service'', de_type = DT_REG, de_stat = None\<rparr>], False) else Inl ENOENT),
      ue_get = (\<lambda>p. (0, demo_unit))\<rparr>"

definition demo_udb :: "json afm_udb" where
  "demo_udb = \<lparr>applications = None, refcount = 1, ub_system = True, ub_user = True, ub_prefix = []\<rparr>"

definition demo_pub :: json where
  "demo_pub = JObj [(''id'', JStr ''App''), (''visibility'', JStr ''visible'')]"

definition demo_priv :: json where
  "demo_priv = JObj [(''id'', JStr ''App''), (''secret'', JNum ''7''), (''visibility'', JStr ''visible''),
     (''unit-path'', JStr (afm_units_dir ''/x'' False @ ''/a.service'')), (''unit-name'', JStr ''a.service''), (''unit-scope'', JStr ''system'')]"

definition demo_sets :: "json \<Rightarrow> json app_sets" where
  "demo_sets j = \<lparr>as_visibles = JArr [j], as_all = JArr [j], as_byname = JObj [(''App'', j)]\<rparr>"

lemma demo_udb_update:
  "afm_udb_update json_array_data demo_udb_env [] demo_udb =
     (0, demo_udb\<lparr>applications := Some \<lparr>privates = demo_sets demo_priv, publics = demo_sets demo_pub\<rparr>\<rparr>, [])"
  by code_simp

theorem afm_udb_update_refines_witness:
  "\<exists>us. apps_hold json_array_data us \<lparr>privates = demo_sets demo_priv, publics = demo_sets demo_pub\<rparr> \<and>
     map uu_file us = app_files demo_udb_env demo_udb"
  using afm_udb_update_refines [OF array_data.array_laws_axioms demo_udb_update] by (auto simp: demo_udb_def)

lemma public_answers_declared:
  assumes "array_laws al" and "afm_udb_update al env m db = (rc, db', m')" and "rc \<ge> 0"
    and "(\<exists>l. afm_udb_applications_public db' all = Some l \<and> j \<in> set (jl_items (al_json al) l)) \<or>
         afm_udb_get_application_public al db' idt = Some j"
    and "obj_get al j k \<noteq> None"
  shows "\<not> is_private k \<and>
    (\<exists>name path isuser. (name, path, isuser) \<in> set (app_files env db) \<and> k \<in> fst ` set (content_fields (unit_content env path)))"
proof -
  obtain a us where a: "db' = db\<lparr>applications := Some a\<rparr>" "apps_hold al us a"
    "list_all (unit_described al (list_all id m) env) us" "subseq (map uu_file us) (app_files env db)"
    using array_laws.update_holds [OF assms(1,2)] assms(3) by auto
  have "\<not> is_private k \<and> (\<exists>u \<in> set us. k \<in> fst ` set (content_fields (unit_content env (fst (snd (uu_file u))))))"
  proof (rule array_laws.public_answer_declared [OF assms(1) a(2,3) _ assms(5)])
    show "j \<in> set (jl_items (al_json al) (as_all (publics a))) \<or> j \<in> set (jl_items (al_json al) (as_visibles (publics a))) \<or>
        get_no_case al (as_byname (publics a)) idt = Some j"
      using assms(4) a(1)
      by (cases all) (auto simp: afm_udb_applications_public_def afm_udb_get_application_public_def)
  qed
  moreover have "uu_file u \<in> set (app_files env db)" if "u \<in> set us" for u
    using that subseq_mem [OF a(4), of "uu_file u"] by simp
  ultimately obtain u where u: "u \<in> set us" "\<not> is_private k" "uu_file u \<in> set (app_files env db)"
    "k \<in> fst ` set (content_fields (unit_content env (fst (snd (uu_file u)))))" by blast
  obtain name path isuser where "uu_file u = (name, path, isuser)" by (metis prod_cases3)
  with u show ?thesis by auto
qed

text \<open>C20: What the public queries answer after an update holds only fields that some application file
  declares without the private mark: neither the private fields nor the path, name and
  scope of units are given.\<close>

theorem udb_public_answers:
  assumes "array_laws al" and "afm_udb_update al env m db = (rc, db', m')" and "rc \<ge> 0"
    and "(\<exists>l. afm_udb_applications_public db' all = Some l \<and> j \<in> set (jl_items (al_json al) l)) \<or>
         afm_udb_get_application_public al db' idt = Some j"
    and "obj_get al j k \<noteq> None"
  shows "\<not> is_private k \<and>
    (\<exists>name path isuser. (name, path, isuser) \<in> set (app_files env db) \<and> k \<in> fst ` set (content_fields (unit_content env path)))"
  by (rule public_answers_declared [OF assms])

theorem udb_public_answers_witness:
  "\<not> is_private ''id'' \<and> ''id'' \<in> fst ` set (content_fields (unit_content demo_udb_env ''p''))"
proof -
  let ?db = "demo_udb\<lparr>applications := Some \<lparr>privates = demo_sets demo_priv, publics = demo_sets demo_pub\<rparr>\<rparr>"
  have "afm_udb_get_application_public json_array_data ?db ''app'' = Some demo_pub" by code_simp
  moreover have "obj_get json_array_data demo_pub ''id'' \<noteq> None" by code_simp
  ultimately show ?thesis
    using udb_public_answers [OF array_data.array_laws_axioms demo_udb_update, of False demo_pub "''app''" "''id''"]
    by (simp add: unit_content_def demo_udb_env_def)
qed

text \<open>The look up of an application after an update finds the last application that has the
  identifier, otherwise one whose identifier differs by the case of letters only; it finds
  nothing only when there is none of them.\<close>

theorem udb_lookup:
  assumes "array_laws al" and "afm_udb_update al env m db = (rc, db', m')" and "rc \<ge> 0"
  shows "\<exists>us. subseq (map uu_file us) (app_files env db) \<and> list_all (unit_described al (list_all id m) env) us \<and>
    (case afm_udb_get_application_private al db' idt of
       None \<Rightarrow> list_all (\<lambda>u. \<not> c_strcasecmp_eq (uu_id u) idt) us
     | Some j \<Rightarrow> map_of (rev (map (\<lambda>u. (uu_id u, uu_priv u)) us)) idt = Some j \<or>
         idt \<notin> uu_id ` set us \<and> (\<exists>u \<in> set us. uu_priv u = j \<and> c_strcasecmp_eq (uu_id u) idt))"
proof -
  obtain a us where a: "db' = db\<lparr>applications := Some a\<rparr>" "apps_hold al us a"
    "list_all (unit_described al (list_all id m) env) us" "subseq (map uu_file us) (app_files env db)"
    using array_laws.update_holds [OF assms(1,2)] assms(3) by auto
  let ?ds = "map (\<lambda>u. (uu_id u, uu_visible u, uu_priv u)) us"
  have "sets_hold al ?ds (privates a)" using a(2) by (simp add: apps_hold_def)
  note l = array_laws.get_no_case_holds [OF assms(1) this, of idt]
  have m: "[(i, j). (i, _, j) \<leftarrow> ?ds] = map (\<lambda>u. (uu_id u, uu_priv u)) us" by (simp add: comp_def)
  have f: "fst ` set ?ds = uu_id ` set us" by force
  have "afm_udb_get_application_private al db' idt = get_no_case al (as_byname (privates a)) idt"
    using a(1) by (simp add: afm_udb_get_application_private_def)
  with l show ?thesis unfolding m f using a(3,4)
    by (intro exI [of _ us]) (auto simp: list_all_iff split: option.splits)
qed

theorem udb_lookup_witness:
  "\<exists>us :: json udb_unit list. subseq (map uu_file us) (app_files demo_udb_env demo_udb) \<and>
     (\<exists>u \<in> set us. uu_priv u = demo_priv \<and> c_strcasecmp_eq (uu_id u) ''app'')"
proof -
  let ?db = "demo_udb\<lparr>applications := Some \<lparr>privates = demo_sets demo_priv, publics = demo_sets demo_pub\<rparr>\<rparr>"
  have "afm_udb_get_application_private json_array_data ?db ''app'' = Some demo_priv" by code_simp
  moreover have same: "c_strcasecmp_eq s s" for s by (simp add: c_strcasecmp_eq_def)
  moreover obtain us where "list_all (unit_described json_array_data True demo_udb_env) us"
    "subseq (map uu_file us) (app_files demo_udb_env demo_udb)"
    "case afm_udb_get_application_private json_array_data ?db ''app'' of
       None \<Rightarrow> list_all (\<lambda>u. \<not> c_strcasecmp_eq (uu_id u) ''app'') us
     | Some j \<Rightarrow> map_of (rev (map (\<lambda>u. (uu_id u, uu_priv u)) us)) ''app'' = Some j \<or>
         ''app'' \<notin> uu_id ` set us \<and> (\<exists>u \<in> set us. uu_priv u = j \<and> c_strcasecmp_eq (uu_id u) ''app'')"
    using udb_lookup [OF array_data.array_laws_axioms demo_udb_update, of "''app''"] by auto
  ultimately show ?thesis
    by (intro exI [of _ us]) (auto dest!: map_of_SomeD simp del: map_of.simps, metis)
qed

end
