(* ===== verification/UtilsJson.thy ===== *)
theory UtilsJson
  imports AfmUdb
begin

text \<open>
  The accessors of JSON values (\<^verbatim>\<open>src/src/utils/utils-json.c\<close>), also through keys made of
  names separated by dots. The functions that tell whether they succeeded and give a value
  are options; those that modify an object give it back. Boolean and integer values are
  added to the parameters for json-c.
\<close>

record 'j value_lib =
  vl_array :: "'j array_lib"
  vl_int :: "'j \<Rightarrow> int option"
  vl_bool :: "'j \<Rightarrow> bool option"
  vl_new_int :: "int \<Rightarrow> 'j"
  vl_new_bool :: "bool \<Rightarrow> 'j"

abbreviation vjson :: "'j value_lib \<Rightarrow> 'j json_lib" where
  "vjson vl \<equiv> al_json (vl_array vl)"

section \<open>Reading\<close>

definition j_read_string :: "'j value_lib \<Rightarrow> 'j \<Rightarrow> string option" where
  "j_read_string vl obj = (if jl_type (vjson vl) obj = jtype_string then jl_string (vjson vl) obj else None)"

definition j_read_boolean :: "'j value_lib \<Rightarrow> 'j \<Rightarrow> bool option" where
  "j_read_boolean vl obj = vl_bool vl obj"

definition j_read_integer :: "'j value_lib \<Rightarrow> 'j \<Rightarrow> int option" where
  "j_read_integer vl obj = vl_int vl obj"

definition or_default :: "'a option \<Rightarrow> 'a \<Rightarrow> 'a" where
  "or_default x d = (case x of None \<Rightarrow> d | Some v \<Rightarrow> v)"

definition j_string :: "'j value_lib \<Rightarrow> 'j \<Rightarrow> string option \<Rightarrow> string option" where
  "j_string vl obj defval = (if jl_type (vjson vl) obj = jtype_string then jl_string (vjson vl) obj else defval)"

definition j_boolean :: "'j value_lib \<Rightarrow> 'j \<Rightarrow> bool \<Rightarrow> bool" where
  "j_boolean vl obj defval = or_default (vl_bool vl obj) defval"

definition j_integer :: "'j value_lib \<Rightarrow> 'j \<Rightarrow> int \<Rightarrow> int" where
  "j_integer vl obj defval = or_default (vl_int vl obj) defval"

definition j_read_object_at :: "'j value_lib \<Rightarrow> 'j \<Rightarrow> string \<Rightarrow> 'j option" where
  "j_read_object_at vl obj key = jl_get (vjson vl) obj key"

definition j_has :: "'j value_lib \<Rightarrow> 'j \<Rightarrow> string \<Rightarrow> bool" where
  "j_has vl obj key \<longleftrightarrow> jl_get (vjson vl) obj key \<noteq> None"

definition j_read_string_at :: "'j value_lib \<Rightarrow> 'j \<Rightarrow> string \<Rightarrow> string option" where
  "j_read_string_at vl obj key = Option.bind (j_read_object_at vl obj key) (j_read_string vl)"

definition j_read_boolean_at :: "'j value_lib \<Rightarrow> 'j \<Rightarrow> string \<Rightarrow> bool option" where
  "j_read_boolean_at vl obj key = Option.bind (j_read_object_at vl obj key) (j_read_boolean vl)"

definition j_read_integer_at :: "'j value_lib \<Rightarrow> 'j \<Rightarrow> string \<Rightarrow> int option" where
  "j_read_integer_at vl obj key = Option.bind (j_read_object_at vl obj key) (j_read_integer vl)"

definition j_string_at :: "'j value_lib \<Rightarrow> 'j \<Rightarrow> string \<Rightarrow> string option \<Rightarrow> string option" where
  "j_string_at vl obj key d = (case j_read_object_at vl obj key of None \<Rightarrow> d | Some x \<Rightarrow> j_string vl x d)"

definition j_boolean_at :: "'j value_lib \<Rightarrow> 'j \<Rightarrow> string \<Rightarrow> bool \<Rightarrow> bool" where
  "j_boolean_at vl obj key d = (case j_read_object_at vl obj key of None \<Rightarrow> d | Some x \<Rightarrow> j_boolean vl x d)"

definition j_integer_at :: "'j value_lib \<Rightarrow> 'j \<Rightarrow> string \<Rightarrow> int \<Rightarrow> int" where
  "j_integer_at vl obj key d = (case j_read_object_at vl obj key of None \<Rightarrow> d | Some x \<Rightarrow> j_integer vl x d)"

section \<open>Adding\<close>

text \<open>Without key the object is an array. The status of the addition in json-c is not looked at.\<close>

definition j_add :: "'j value_lib \<Rightarrow> 'j \<Rightarrow> string option \<Rightarrow> 'j \<Rightarrow> 'j" where
  "j_add vl obj key val =
     (case key of Some k \<Rightarrow> jl_add (vjson vl) obj k val | None \<Rightarrow> al_array_add (vl_array vl) obj val)"

text \<open>A value that is created, then added; \<open>False\<close> when it can not be created.\<close>

definition j_add_created :: "'j value_lib \<Rightarrow> mem \<Rightarrow> 'j \<Rightarrow> string option \<Rightarrow> 'j \<Rightarrow> bool \<times> 'j \<times> mem" where
  "j_add_created vl m obj key val =
     (let (ok, m') = c_alloc m in if ok then (True, j_add vl obj key val, m') else (False, obj, m'))"

definition j_add_string :: "'j value_lib \<Rightarrow> mem \<Rightarrow> 'j \<Rightarrow> string option \<Rightarrow> string option \<Rightarrow> bool \<times> 'j \<times> mem" where
  "j_add_string vl m obj key val = j_add_created vl m obj key (jl_new_string (vjson vl) (or_default val []))"

definition j_add_boolean :: "'j value_lib \<Rightarrow> mem \<Rightarrow> 'j \<Rightarrow> string option \<Rightarrow> bool \<Rightarrow> bool \<times> 'j \<times> mem" where
  "j_add_boolean vl m obj key val = j_add_created vl m obj key (vl_new_bool vl val)"

definition j_add_integer :: "'j value_lib \<Rightarrow> mem \<Rightarrow> 'j \<Rightarrow> string option \<Rightarrow> int \<Rightarrow> bool \<times> 'j \<times> mem" where
  "j_add_integer vl m obj key val = j_add_created vl m obj key (vl_new_int vl val)"

text \<open>The object that is created is the last of the array or at the key.\<close>

definition j_add_new_array :: "'j value_lib \<Rightarrow> mem \<Rightarrow> 'j \<Rightarrow> string option \<Rightarrow> bool \<times> 'j \<times> mem" where
  "j_add_new_array vl m obj key = j_add_created vl m obj key (al_new_array (vl_array vl))"

definition j_add_new_object :: "'j value_lib \<Rightarrow> mem \<Rightarrow> 'j \<Rightarrow> string option \<Rightarrow> bool \<times> 'j \<times> mem" where
  "j_add_new_object vl m obj key = j_add_created vl m obj key (jl_new_object (vjson vl))"

section \<open>Keys made of names\<close>

text \<open>
  \<^verbatim>\<open>j_enter_m\<close> follows the names of a key up to its last dot. The object reached is told by
  the names that lead to it: \<open>at_path\<close> gives it and \<open>put_path\<close> is the effect of its modification
  in place.
\<close>

fun at_path :: "'j value_lib \<Rightarrow> 'j \<Rightarrow> string list \<Rightarrow> 'j option" where
  "at_path vl obj [] = Some obj"
| "at_path vl obj (n # ns) = Option.bind (jl_get (vjson vl) obj n) (\<lambda>x. at_path vl x ns)"

fun put_path :: "'j value_lib \<Rightarrow> 'j \<Rightarrow> string list \<Rightarrow> 'j \<Rightarrow> 'j" where
  "put_path vl obj [] x = x"
| "put_path vl obj (n # ns) x =
     (case jl_get (vjson vl) obj n of None \<Rightarrow> obj | Some o' \<Rightarrow> jl_add (vjson vl) obj n (put_path vl o' ns x))"

fun split_dots :: "string \<Rightarrow> string \<Rightarrow> string list \<times> string" where
  "split_dots acc [] = ([], acc)"
| "split_dots acc (c # s) =
     (if c = CHR ''.'' then (let (ns, k) = split_dots [] s in (acc # ns, k)) else split_dots (acc @ [c]) s)"

text \<open>The loop, on the names that remain; what it created stays when it fails.\<close>

fun enter_names :: "'j value_lib \<Rightarrow> mem \<Rightarrow> bool \<Rightarrow> 'j \<Rightarrow> string list \<Rightarrow> int \<times> 'j \<times> mem" where
  "enter_names vl m create obj [] = (0, obj, m)"
| "enter_names vl m create obj (n # ns) =
     (case jl_get (vjson vl) obj n of
        Some x \<Rightarrow>
          let (rc, x', m') = enter_names vl m create x ns
          in (rc, if create then jl_add (vjson vl) obj n x' else obj, m')
      | None \<Rightarrow>
          if \<not> create then (- ENOENT, obj, m)
          else let (ok, obj', m1) = j_add_new_object vl m obj (Some n) in
            if \<not> ok then (- ENOMEM, obj', m1)
            else let (rc, x', m2) = enter_names vl m1 create (jl_new_object (vjson vl)) ns
                 in (rc, jl_add (vjson vl) obj' n x', m2))"

definition j_enter_m :: "'j value_lib \<Rightarrow> mem \<Rightarrow> 'j \<Rightarrow> string \<Rightarrow> bool \<Rightarrow> int \<times> 'j \<times> string list \<times> string \<times> mem" where
  "j_enter_m vl m obj mkey create =
     (let (ns, k) = split_dots [] mkey; (rc, obj', m') = enter_names vl m create obj ns
      in (rc, obj', ns, k, m'))"

definition j_read_object_at_m :: "'j value_lib \<Rightarrow> 'j \<Rightarrow> string \<Rightarrow> 'j option" where
  "j_read_object_at_m vl obj mkey =
     (case j_enter_m vl [] obj mkey False of
        (rc, obj', ns, k, _) \<Rightarrow>
          if rc = 0 then Option.bind (at_path vl obj' ns) (\<lambda>x. j_read_object_at vl x k) else None)"

definition j_has_m :: "'j value_lib \<Rightarrow> 'j \<Rightarrow> string \<Rightarrow> bool" where
  "j_has_m vl obj mkey \<longleftrightarrow>
     (case j_enter_m vl [] obj mkey False of
        (rc, obj', ns, k, _) \<Rightarrow> rc = 0 \<and> (case at_path vl obj' ns of None \<Rightarrow> False | Some x \<Rightarrow> j_has vl x k))"

definition j_read_string_at_m :: "'j value_lib \<Rightarrow> 'j \<Rightarrow> string \<Rightarrow> string option" where
  "j_read_string_at_m vl obj mkey = Option.bind (j_read_object_at_m vl obj mkey) (j_read_string vl)"

definition j_read_boolean_at_m :: "'j value_lib \<Rightarrow> 'j \<Rightarrow> string \<Rightarrow> bool option" where
  "j_read_boolean_at_m vl obj mkey = Option.bind (j_read_object_at_m vl obj mkey) (j_read_boolean vl)"

definition j_read_integer_at_m :: "'j value_lib \<Rightarrow> 'j \<Rightarrow> string \<Rightarrow> int option" where
  "j_read_integer_at_m vl obj mkey = Option.bind (j_read_object_at_m vl obj mkey) (j_read_integer vl)"

definition j_string_at_m :: "'j value_lib \<Rightarrow> 'j \<Rightarrow> string \<Rightarrow> string option \<Rightarrow> string option" where
  "j_string_at_m vl obj mkey d = (case j_read_object_at_m vl obj mkey of None \<Rightarrow> d | Some x \<Rightarrow> j_string vl x d)"

definition j_boolean_at_m :: "'j value_lib \<Rightarrow> 'j \<Rightarrow> string \<Rightarrow> bool \<Rightarrow> bool" where
  "j_boolean_at_m vl obj mkey d = (case j_read_object_at_m vl obj mkey of None \<Rightarrow> d | Some x \<Rightarrow> j_boolean vl x d)"

definition j_integer_at_m :: "'j value_lib \<Rightarrow> 'j \<Rightarrow> string \<Rightarrow> int \<Rightarrow> int" where
  "j_integer_at_m vl obj mkey d = (case j_read_object_at_m vl obj mkey of None \<Rightarrow> d | Some x \<Rightarrow> j_integer vl x d)"

definition j_add_m :: "'j value_lib \<Rightarrow> mem \<Rightarrow> 'j \<Rightarrow> string option \<Rightarrow> 'j \<Rightarrow> bool \<times> 'j \<times> mem" where
  "j_add_m vl m obj mkey val =
     (case mkey of
        None \<Rightarrow> (True, al_array_add (vl_array vl) obj val, m)
      | Some mk \<Rightarrow>
          (case j_enter_m vl m obj mk True of
             (rc, obj', ns, k, m') \<Rightarrow>
               if rc \<noteq> 0 then (False, obj', m')
               else (True, put_path vl obj' ns (j_add vl (the (at_path vl obj' ns)) (Some k) val), m')))"

definition j_add_created_m :: "'j value_lib \<Rightarrow> mem \<Rightarrow> 'j \<Rightarrow> string option \<Rightarrow> 'j \<Rightarrow> bool \<times> 'j \<times> mem" where
  "j_add_created_m vl m obj mkey val =
     (let (ok, m') = c_alloc m in if ok then j_add_m vl m' obj mkey val else (False, obj, m'))"

definition j_add_string_m :: "'j value_lib \<Rightarrow> mem \<Rightarrow> 'j \<Rightarrow> string option \<Rightarrow> string option \<Rightarrow> bool \<times> 'j \<times> mem" where
  "j_add_string_m vl m obj mkey val = j_add_created_m vl m obj mkey (jl_new_string (vjson vl) (or_default val []))"

definition j_add_boolean_m :: "'j value_lib \<Rightarrow> mem \<Rightarrow> 'j \<Rightarrow> string option \<Rightarrow> bool \<Rightarrow> bool \<times> 'j \<times> mem" where
  "j_add_boolean_m vl m obj mkey val = j_add_created_m vl m obj mkey (vl_new_bool vl val)"

definition j_add_integer_m :: "'j value_lib \<Rightarrow> mem \<Rightarrow> 'j \<Rightarrow> string option \<Rightarrow> int \<Rightarrow> bool \<times> 'j \<times> mem" where
  "j_add_integer_m vl m obj mkey val = j_add_created_m vl m obj mkey (vl_new_int vl val)"

definition j_add_new_array_m :: "'j value_lib \<Rightarrow> mem \<Rightarrow> 'j \<Rightarrow> string option \<Rightarrow> bool \<times> 'j \<times> mem" where
  "j_add_new_array_m vl m obj mkey = j_add_created_m vl m obj mkey (al_new_array (vl_array vl))"

definition j_add_new_object_m :: "'j value_lib \<Rightarrow> mem \<Rightarrow> 'j \<Rightarrow> string option \<Rightarrow> bool \<times> 'j \<times> mem" where
  "j_add_new_object_m vl m obj mkey = j_add_created_m vl m obj mkey (jl_new_object (vjson vl))"

text \<open>The pairs of the variable arguments; those without value are skipped.\<close>

fun j_add_many_strings_m :: "'j value_lib \<Rightarrow> mem \<Rightarrow> 'j \<Rightarrow> (string \<times> string option) list \<Rightarrow> bool \<times> 'j \<times> mem" where
  "j_add_many_strings_m vl m obj [] = (True, obj, m)"
| "j_add_many_strings_m vl m obj ((key, val) # kvs) =
     (case val of
        None \<Rightarrow> j_add_many_strings_m vl m obj kvs
      | Some v \<Rightarrow>
          let (ok, obj', m') = j_add_string_m vl m obj (Some key) (Some v);
              (oks, obj'', m'') = j_add_many_strings_m vl m' obj' kvs
          in (ok \<and> oks, obj'', m''))"

section \<open>Reading what was added\<close>

definition key_names :: "string \<Rightarrow> string list" where
  "key_names mkey = (let (ns, k) = split_dots [] mkey in ns @ [k])"

text \<open>The values that exist along the names are objects.\<close>

fun enterable :: "'j value_lib \<Rightarrow> 'j \<Rightarrow> string list \<Rightarrow> bool" where
  "enterable vl obj [] \<longleftrightarrow> jl_type (vjson vl) obj = jtype_object"
| "enterable vl obj (n # ns) \<longleftrightarrow> jl_type (vjson vl) obj = jtype_object \<and>
     (case jl_get (vjson vl) obj n of None \<Rightarrow> True | Some x \<Rightarrow> enterable vl x ns)"

lemma at_path_append: "at_path vl obj (ns @ qs) = Option.bind (at_path vl obj ns) (\<lambda>x. at_path vl x qs)"
  by (induction ns arbitrary: obj) auto

lemma enter_names_look:
  "enter_names vl m False obj ns = (if at_path vl obj ns = None then - ENOENT else 0, obj, m)"
  by (induction ns arbitrary: obj) (auto split: option.splits simp: bind_eq_None_conv)

lemma read_object_at_m_path: "j_read_object_at_m vl obj mkey = at_path vl obj (key_names mkey)"
  by (auto simp: j_read_object_at_m_def j_enter_m_def key_names_def enter_names_look at_path_append j_read_object_at_def
      split: prod.splits)

locale value_laws = array_laws "vl_array vl" for vl :: "'j value_lib"
begin

lemma put_path_effect:
  assumes "at_path vl obj ns = Some x"
  shows "at_path vl (put_path vl obj ns y) (ns @ qs) = at_path vl y qs \<and>
    (\<not> prefix ns ps \<longrightarrow> \<not> prefix ps ns \<longrightarrow> at_path vl (put_path vl obj ns y) ps = at_path vl obj ps)"
  using assms
proof (induction ns arbitrary: obj ps)
  case (Cons n ns)
  then obtain z where z: "jl_get (vjson vl) obj n = Some z" "at_path vl z ns = Some x" by (auto simp: bind_eq_Some_conv)
  have ob: "jl_type (vjson vl) obj = jtype_object" by (rule get_object [OF z(1)])
  show ?case
    using Cons.IH [OF z(2)] z ob by (cases ps) (auto simp: get_add)
qed simp

lemma enter_names_create:
  assumes "enterable vl obj ns" "enter_names vl m True obj ns = (rc, obj', m')"
  shows "(rc = 0 \<longrightarrow> (\<exists>x. at_path vl obj' ns = Some x \<and> jl_type (vjson vl) x = jtype_object)) \<and>
    jl_type (vjson vl) obj' = jtype_object \<and> (list_all id m \<longrightarrow> rc = 0 \<and> list_all id m') \<and>
    (\<forall>qs. \<not> prefix qs ns \<longrightarrow> at_path vl obj' qs = at_path vl obj qs)"
  using assms
proof (induction ns arbitrary: obj m rc obj' m')
  case (Cons n ns)
  have ob: "jl_type (vjson vl) obj = jtype_object" using Cons.prems by simp
  show ?case
  proof (cases "jl_get (vjson vl) obj n")
    case (Some x)
    obtain r x' m1 where e: "enter_names vl m True x ns = (r, x', m1)" by (metis prod_cases3)
    with Some Cons.prems(2) have r: "rc = r" "obj' = jl_add (vjson vl) obj n x'" "m' = m1" by auto
    have "enterable vl x ns" using Cons.prems(1) Some by simp
    note IH = Cons.IH [OF this e]
    have "at_path vl obj' qs = at_path vl obj qs" if "\<not> prefix qs (n # ns)" for qs
      using that IH Some ob r(2) by (cases qs) (auto simp: get_add)
    then show ?thesis using IH ob by (auto simp: r get_add type_add)
  next
    case None
    obtain ok m1 where a: "c_alloc m = (ok, m1)" by fastforce
    show ?thesis
    proof (cases ok)
      case False
      with a None Cons.prems(2) ob show ?thesis
        using enough_alloc [OF a, of True]
        by (auto simp: j_add_new_object_def j_add_created_def enough_def id_def)
    next
      case True
      let ?new = "jl_new_object (vjson vl)"
      obtain r x' m2 where e: "enter_names vl m1 True ?new ns = (r, x', m2)" by (metis prod_cases3)
      have r: "rc = r" "obj' = jl_add (vjson vl) (jl_add (vjson vl) obj n ?new) n x'" "m' = m2"
        using a True None e Cons.prems(2) by (auto simp: j_add_new_object_def j_add_created_def j_add_def)
      have "enterable vl ?new ns" by (cases ns) (auto simp: new_object)
      note IH = Cons.IH [OF this e]
      have "at_path vl obj' qs = at_path vl obj qs" if "\<not> prefix qs (n # ns)" for qs
      proof (cases qs)
        case Nil
        with that show ?thesis by simp
      next
        case (Cons q qs')
        have "at_path vl ?new qs' = None" if "qs' \<noteq> []" using that by (cases qs') (auto simp: new_object)
        moreover have "qs' \<noteq> []" if "q = n" using that \<open>\<not> prefix qs (n # ns)\<close> Cons by (cases qs') auto
        ultimately show ?thesis using that IH None ob r(2) Cons by (auto simp: get_add type_add)
      qed
      then show ?thesis
        using IH ob enough_alloc [OF a, of True] by (auto simp: r get_add type_add enough_def id_def)
    qed
  qed
qed simp

lemma add_m_effect:
  assumes "enterable vl obj (butlast (key_names mkey))" "j_add_m vl m obj (Some mkey) val = (ok, obj', m')"
  shows "(list_all id m \<longrightarrow> ok) \<and>
    (ok \<longrightarrow> j_read_object_at_m vl obj' mkey = Some val) \<and>
    (\<not> prefix (key_names mkey) (key_names mkey') \<longrightarrow> \<not> prefix (key_names mkey') (key_names mkey) \<longrightarrow>
       j_read_object_at_m vl obj' mkey' = j_read_object_at_m vl obj mkey')"
proof -
  obtain ns k where nk: "split_dots [] mkey = (ns, k)" by fastforce
  then have key: "key_names mkey = ns @ [k]" by (simp add: key_names_def)
  obtain rc o1 m1 where e: "enter_names vl m True obj ns = (rc, o1, m1)" by (metis prod_cases3)
  have en: "enterable vl obj ns" using assms(1) key by simp
  note c = enter_names_create [OF en e]
  have away: "\<not> prefix qs ns" if "\<not> prefix qs (ns @ [k])" for qs using that by (meson prefix_order.trans prefixI)
  show ?thesis
  proof (cases "rc = 0")
    case False
    then have "\<not> ok" "obj' = o1" using assms(2) nk e by (auto simp: j_add_m_def j_enter_m_def)
    then show ?thesis using c False away by (auto simp: read_object_at_m_path key)
  next
    case True
    with c obtain x where x: "at_path vl o1 ns = Some x" "jl_type (vjson vl) x = jtype_object" by blast
    have o': "ok" "obj' = put_path vl o1 ns (jl_add (vjson vl) x k val)"
      using assms(2) nk e True x by (auto simp: j_add_m_def j_enter_m_def j_add_def)
    let ?y = "jl_add (vjson vl) x k val" and ?ps = "key_names mkey'"
    have "at_path vl obj' (ns @ [k]) = Some val"
      using put_path_effect [OF x(1), of ?y "[k]"] x(2) o'(2) by (simp add: get_add)
    moreover have "at_path vl obj' ?ps = at_path vl obj ?ps"
      if p: "\<not> prefix (ns @ [k]) ?ps" "\<not> prefix ?ps (ns @ [k])"
    proof (cases "prefix ns ?ps")
      case False
      then show ?thesis using put_path_effect [OF x(1), of ?y "[]" ?ps] c away [OF p(2)] o'(2) by auto
    next
      case True
      then obtain qs where qs: "?ps = ns @ qs" by (auto simp: prefix_def)
      with p obtain q qs' where q: "qs = q # qs'" "q \<noteq> k" by (cases qs) auto
      have "at_path vl obj' ?ps = at_path vl ?y qs" using put_path_effect [OF x(1), of ?y qs] o'(2) qs by simp
      also have "\<dots> = at_path vl x qs" using q x(2) by (simp add: get_add)
      also have "\<dots> = at_path vl o1 ?ps" using x(1) qs by (simp add: at_path_append)
      finally show ?thesis using c away [OF p(2)] by simp
    qed
    ultimately show ?thesis using o'(1) by (simp add: read_object_at_m_path key)
  qed
qed

end

definition json_value_data :: "json value_lib" where
  "json_value_data =
     \<lparr>vl_array = json_array_data,
      vl_int = (\<lambda>j. case j of JNum s \<Rightarrow> Some (fst (c_strtol s)) | _ \<Rightarrow> None),
      vl_bool = (\<lambda>j. case j of JBool b \<Rightarrow> Some b | _ \<Rightarrow> None),
      vl_new_int = (\<lambda>i. JNum (c_decimal i)), vl_new_bool = JBool\<rparr>"

interpretation value_data: value_laws json_value_data
  by (intro value_laws.intro) (simp add: json_value_data_def array_data.array_laws_axioms)

text \<open>C18: A value added with a key made of names is read back with this key, and the values at the
  keys that are neither under it nor above it are unchanged, also when the addition fails;
  it fails only for lack of memory.\<close>

theorem j_add_m_read:
  assumes "value_laws vl" and "enterable vl obj (butlast (key_names mkey))"
    and "j_add_m vl m obj (Some mkey) val = (ok, obj', m')"
  shows "(list_all id m \<longrightarrow> ok) \<and>
    (ok \<longrightarrow> j_read_object_at_m vl obj' mkey = Some val) \<and>
    (\<not> prefix (key_names mkey) (key_names mkey') \<longrightarrow> \<not> prefix (key_names mkey') (key_names mkey) \<longrightarrow>
       j_read_object_at_m vl obj' mkey' = j_read_object_at_m vl obj mkey')"
  by (rule value_laws.add_m_effect [OF assms])

theorem j_add_m_read_witness:
  "j_read_object_at_m json_value_data (JObj [(''a'', JObj [(''b'', JObj [(''c'', JStr ''v'')])])]) ''a.b.c'' = Some (JStr ''v'')"
proof -
  have "j_add_m json_value_data [] (JObj []) (Some ''a.b.c'') (JStr ''v'') =
      (True, JObj [(''a'', JObj [(''b'', JObj [(''c'', JStr ''v'')])])], [])" by code_simp
  moreover have "enterable json_value_data (JObj []) (butlast (key_names ''a.b.c''))" by code_simp
  ultimately show ?thesis using j_add_m_read [OF value_data.value_laws_axioms] by blast
qed

end
