(* ===== verification/UnitOper.thy ===== *)
theory UnitOper
  imports UnitFs
begin

text \<open>
  Descriptions of units (\<^verbatim>\<open>src/src/units/unit-desc.c\<close>), installation and removal of their
  files (\<^verbatim>\<open>src/src/utils/unit-oper.c\<close>), installation of the units of a package with its
  rollback (the functions on units of \<^verbatim>\<open>src/src/afmpkg/afmpkg-std.c\<close>) and the names of the
  states of systemd (\<^verbatim>\<open>src/src/utils/utils-systemd.c\<close>).

  The file system is a map from paths to nodes. Its modifications may fail: the scripts
  \<open>fs_puts\<close> and \<open>fs_unlinks\<close> tell what the next calls do, an exhausted script means that the
  calls succeed. A write that fails may leave a file cut short. \<open>fs_follow\<close> is the kernel's
  resolution of symbolic links: the path of the node that a path finally designates. The units that systemd
  lists are the parameter \<open>sd_list\<close>; the requests to stop units are recorded.
\<close>

section \<open>Descriptions\<close>

datatype unitscope = unitscope_unknown | unitscope_system | unitscope_user
datatype unittype = unittype_unknown | unittype_service | unittype_socket

text \<open>The lengths of the C structure are those of the strings.\<close>

record unitdesc =
  u_scope :: unitscope
  u_type :: unittype
  u_name :: "string option"
  u_content :: string
  u_wanted_by :: "string option"

definition unit_desc_check :: "unitdesc \<Rightarrow> int" where
  "unit_desc_check desc =
     (if u_scope desc \<noteq> unitscope_unknown \<and> u_type desc \<noteq> unittype_unknown \<and>
         u_name desc \<noteq> None \<and> u_name desc \<noteq> Some [] then 0 else - 1)"

definition unit_ext :: "unitdesc \<Rightarrow> string" where
  "unit_ext desc = (if u_type desc = unittype_socket then ''socket'' else ''service'')"

definition unit_isuser :: "unitdesc \<Rightarrow> bool" where
  "unit_isuser desc \<longleftrightarrow> u_scope desc = unitscope_user"

text \<open>A null pointer printed by \<open>%s\<close> does not occur: the paths are asked for checked units.\<close>

definition the_name :: "string option \<Rightarrow> string" where
  "the_name n = (case n of None \<Rightarrow> ''(null)'' | Some s \<Rightarrow> s)"

definition unit_desc_get_path :: "string \<Rightarrow> unitdesc \<Rightarrow> nat \<Rightarrow> int \<times> string" where
  "unit_desc_get_path root desc pathlen =
     units_fs_get_afm_unit_path root pathlen (unit_isuser desc) (the_name (u_name desc)) (unit_ext desc)"

definition unit_desc_get_wants_path :: "string \<Rightarrow> unitdesc \<Rightarrow> nat \<Rightarrow> int \<times> string" where
  "unit_desc_get_wants_path root desc pathlen =
     units_fs_get_afm_wants_unit_path root pathlen (unit_isuser desc) (the_name (u_wanted_by desc))
       (the_name (u_name desc)) (unit_ext desc)"

definition unit_desc_get_wants_target :: "unitdesc \<Rightarrow> nat \<Rightarrow> int \<times> string" where
  "unit_desc_get_wants_target desc pathlen =
     units_fs_get_wants_target pathlen (the_name (u_name desc)) (unit_ext desc)"

definition unit_desc_get_service :: "unitdesc \<Rightarrow> nat \<Rightarrow> int \<times> string" where
  "unit_desc_get_service desc servlen =
     (let nm = the_name (u_name desc);
          serv = nm @ (if nm = [] \<or> last nm \<noteq> CHR ''@'' then [] else ''*'') @ ''.'' @ unit_ext desc
      in (if length serv < servlen then int (length serv) else - 1, take (servlen - 1) serv))"

section \<open>States of systemd\<close>

datatype SysD_State =
    SysD_State_INVALID | SysD_State_Inactive | SysD_State_Activating | SysD_State_Active
  | SysD_State_Deactivating | SysD_State_Reloading | SysD_State_Failed

fun systemd_name_of_state :: "SysD_State \<Rightarrow> string option" where
  "systemd_name_of_state SysD_State_INVALID = None"
| "systemd_name_of_state SysD_State_Inactive = Some ''inactive''"
| "systemd_name_of_state SysD_State_Activating = Some ''activating''"
| "systemd_name_of_state SysD_State_Active = Some ''active''"
| "systemd_name_of_state SysD_State_Deactivating = Some ''deactivating''"
| "systemd_name_of_state SysD_State_Reloading = Some ''reloading''"
| "systemd_name_of_state SysD_State_Failed = Some ''failed''"

definition systemd_state_of_name :: "string \<Rightarrow> SysD_State" where
  "systemd_state_of_name name =
     (if name = ''active'' then SysD_State_Active
      else if name = ''activating'' then SysD_State_Activating
      else if name = ''deactivating'' then SysD_State_Deactivating
      else if name = ''failed'' then SysD_State_Failed
      else if name = ''inactive'' then SysD_State_Inactive
      else if name = ''reloading'' then SysD_State_Reloading
      else SysD_State_INVALID)"

section \<open>File system\<close>

datatype fnode = Regular string | Symlink string
datatype put_result = Put_ok | Put_fail | Put_partial string

record unit_fs =
  fs_files :: "string \<Rightarrow> fnode option"
  fs_follow :: "(string \<Rightarrow> fnode option) \<Rightarrow> string \<Rightarrow> string"
  fs_puts :: "put_result list"
  fs_unlinks :: "bool list"
  fs_stops :: "(bool \<times> string) list"

record sysd =
  sd_list :: "bool \<Rightarrow> string \<Rightarrow> int \<times> (string \<times> string) list"

text \<open>\<open>rp_file_put\<close>, \<open>symlink\<close>, \<open>unlink\<close> and \<open>access\<close>.\<close>

definition fs_final :: "unit_fs \<Rightarrow> string \<Rightarrow> string" where
  "fs_final fs path = fs_follow fs (fs_files fs) path"

definition fs_put :: "string \<Rightarrow> fnode \<Rightarrow> unit_fs \<Rightarrow> int \<times> unit_fs" where
  "fs_put path node fs =
     (case fs_puts fs of
        [] \<Rightarrow> (0, fs\<lparr>fs_files := (fs_files fs)(fs_final fs path \<mapsto> node)\<rparr>)
      | Put_ok # ps \<Rightarrow> (0, fs\<lparr>fs_files := (fs_files fs)(fs_final fs path \<mapsto> node), fs_puts := ps\<rparr>)
      | Put_fail # ps \<Rightarrow> (- 1, fs\<lparr>fs_puts := ps\<rparr>)
      | Put_partial s # ps \<Rightarrow>
          (- 1, fs\<lparr>fs_files := (fs_files fs)(fs_final fs path \<mapsto> Regular s), fs_puts := ps\<rparr>))"

definition fs_symlink :: "string \<Rightarrow> string \<Rightarrow> unit_fs \<Rightarrow> int \<times> unit_fs" where
  "fs_symlink target path fs =
     (if fs_files fs path \<noteq> None then (- 1, fs)
      else case fs_puts fs of
             [] \<Rightarrow> (0, fs\<lparr>fs_files := (fs_files fs)(path \<mapsto> Symlink target)\<rparr>)
           | Put_ok # ps \<Rightarrow> (0, fs\<lparr>fs_files := (fs_files fs)(path \<mapsto> Symlink target), fs_puts := ps\<rparr>)
           | _ # ps \<Rightarrow> (- 1, fs\<lparr>fs_puts := ps\<rparr>))"

definition fs_unlink :: "string \<Rightarrow> unit_fs \<Rightarrow> int \<times> unit_fs" where
  "fs_unlink path fs =
     (if fs_files fs path = None then (- 1, fs)
      else case fs_unlinks fs of
             [] \<Rightarrow> (0, fs\<lparr>fs_files := (fs_files fs)(path := None)\<rparr>)
           | True # us \<Rightarrow> (0, fs\<lparr>fs_files := (fs_files fs)(path := None), fs_unlinks := us\<rparr>)
           | False # us \<Rightarrow> (- 1, fs\<lparr>fs_unlinks := us\<rparr>))"

definition fs_access :: "string \<Rightarrow> unit_fs \<Rightarrow> int" where
  "fs_access path fs = (if fs_files fs (fs_final fs path) = None then - 1 else 0)"

section \<open>Operations on units\<close>

definition UNIT_PATH_MAX :: nat where "UNIT_PATH_MAX = 4096"

definition stop_that_unit_cb :: "bool \<Rightarrow> string \<times> string \<Rightarrow> unit_fs \<Rightarrow> unit_fs" where
  "stop_that_unit_cb isuser lui fs =
     (if systemd_state_of_name (snd lui) \<in> {SysD_State_Activating, SysD_State_Active, SysD_State_Reloading}
      then fs\<lparr>fs_stops := fs_stops fs @ [(isuser, fst lui)]\<rparr> else fs)"

definition unit_oper_stop :: "sysd \<Rightarrow> unitdesc \<Rightarrow> unit_fs \<Rightarrow> int \<times> unit_fs" where
  "unit_oper_stop sd u fs =
     (let (rc, serv) = unit_desc_get_service u (UNIT_PATH_MAX + 1) in
      if rc < 0 then (rc, fs)
      else let (rc, luis) = sd_list sd (unit_isuser u) serv
           in (rc, fold (stop_that_unit_cb (unit_isuser u)) luis fs))"

definition unit_oper_uninstall :: "string \<Rightarrow> sysd \<Rightarrow> unitdesc \<Rightarrow> unit_fs \<Rightarrow> int \<times> unit_fs" where
  "unit_oper_uninstall root sd u fs =
     (if unit_desc_check u \<noteq> 0 then (unit_desc_check u, fs)
      else let (_, fs1) = unit_oper_stop sd u fs;
               (rc, path) = unit_desc_get_path root u UNIT_PATH_MAX;
               (rc, fs2) = (if rc \<ge> 0 then fs_unlink path fs1 else (rc, fs1))
           in if u_wanted_by u = None then (rc, fs2)
              else let (rc2, path) = unit_desc_get_wants_path root u UNIT_PATH_MAX;
                       (rc2, fs3) = (if rc2 \<ge> 0 then fs_unlink path fs2 else (rc2, fs2))
                   in (if rc2 < 0 \<and> rc = 0 then rc2 else rc, fs3))"

definition unit_oper_install :: "string \<Rightarrow> unitdesc \<Rightarrow> unit_fs \<Rightarrow> int \<times> unit_fs" where
  "unit_oper_install root u fs =
     (if unit_desc_check u \<noteq> 0 then (unit_desc_check u, fs)
      else let (rc, path) = unit_desc_get_path root u (UNIT_PATH_MAX + 1) in
        if rc < 0 then (rc, fs)
        else let (rc, fs1) = fs_put path (Regular (u_content u)) fs in
          if rc < 0 \<or> u_wanted_by u = None then (rc, fs1)
          else let (rc, path) = unit_desc_get_wants_path root u (UNIT_PATH_MAX + 1) in
            if rc < 0 then (rc, fs1)
            else let (rc, target) = unit_desc_get_wants_target u (UNIT_PATH_MAX + 1) in
              if rc < 0 then (rc, fs1)
              else fs_symlink target path (snd (fs_unlink path fs1)))"

definition check_file :: "string \<Rightarrow> bool \<Rightarrow> unit_fs \<Rightarrow> int" where
  "check_file path should_exist fs =
     (if should_exist then fs_access path fs else if fs_access path fs \<noteq> 0 then 0 else - 1)"

definition unit_oper_check_files :: "string \<Rightarrow> unitdesc \<Rightarrow> bool \<Rightarrow> unit_fs \<Rightarrow> int" where
  "unit_oper_check_files root u should_exist fs =
     (if unit_desc_check u \<noteq> 0 then unit_desc_check u
      else let (rc, path) = unit_desc_get_path root u UNIT_PATH_MAX;
               rc = (if rc \<ge> 0 then check_file path should_exist fs else rc)
           in if u_wanted_by u = None then rc
              else let (rc2, path) = unit_desc_get_wants_path root u UNIT_PATH_MAX;
                       rc2 = (if rc2 \<ge> 0 then check_file path should_exist fs else rc2)
                   in if rc2 < 0 then rc2 else rc)"

section \<open>Units of a package\<close>

text \<open>The loops of \<open>afmpkg-std.c\<close>.\<close>

fun do_uninstall_units :: "string \<Rightarrow> sysd \<Rightarrow> unitdesc list \<Rightarrow> int \<Rightarrow> unit_fs \<Rightarrow> int \<times> unit_fs" where
  "do_uninstall_units root sd [] rc fs = (rc, fs)"
| "do_uninstall_units root sd (u # us) rc fs =
     (let (rc2, fs') = unit_oper_uninstall root sd u fs
      in do_uninstall_units root sd us (if rc2 < 0 then rc2 else rc) fs')"

definition uninstall_units :: "string \<Rightarrow> sysd \<Rightarrow> unitdesc list \<Rightarrow> unit_fs \<Rightarrow> int \<times> unit_fs" where
  "uninstall_units root sd us fs = do_uninstall_units root sd us 0 fs"

fun check_no_file :: "string \<Rightarrow> unitdesc list \<Rightarrow> unit_fs \<Rightarrow> int" where
  "check_no_file root [] fs = 0"
| "check_no_file root (u # us) fs =
     (let rc = unit_oper_check_files root u False fs
      in if rc < 0 then rc else check_no_file root us fs)"

fun install_each :: "string \<Rightarrow> unitdesc list \<Rightarrow> unit_fs \<Rightarrow> int \<times> unit_fs" where
  "install_each root [] fs = (0, fs)"
| "install_each root (u # us) fs =
     (let (rc, fs') = unit_oper_install root u fs
      in if rc < 0 then (rc, fs') else install_each root us fs')"

definition install_units :: "string \<Rightarrow> sysd \<Rightarrow> unitdesc list \<Rightarrow> unit_fs \<Rightarrow> int \<times> unit_fs" where
  "install_units root sd us fs =
     (let rc = check_no_file root us fs in
      if rc < 0 then (rc, fs)
      else let (rc, fs1) = install_each root us fs in
        if rc < 0 then (rc, snd (do_uninstall_units root sd us 0 fs1)) else (0, fs1))"

section \<open>Paths of units\<close>

text \<open>
  The path of a unit's file and that of its link, printed in full, and what the checks
  before the installation establish of them.
\<close>

definition unit_file :: "string \<Rightarrow> unitdesc \<Rightarrow> string" where
  "unit_file root u = afm_unit_path root (unit_isuser u) (the_name (u_name u)) (unit_ext u)"

definition unit_link :: "string \<Rightarrow> unitdesc \<Rightarrow> string" where
  "unit_link root u =
     afm_wants_unit_path root (unit_isuser u) (the_name (u_wanted_by u)) (the_name (u_name u)) (unit_ext u)"

definition unit_link_target :: "unitdesc \<Rightarrow> string" where
  "unit_link_target u = wants_target (the_name (u_name u)) (unit_ext u)"

definition unit_files :: "string \<Rightarrow> unitdesc list \<Rightarrow> string set" where
  "unit_files root us = unit_file root ` set us"

definition unit_links :: "string \<Rightarrow> unitdesc list \<Rightarrow> string set" where
  "unit_links root us = unit_link root ` {u \<in> set us. u_wanted_by u \<noteq> None}"

text \<open>
  The law of the resolution of links the development relies on (a path that is not a link
  designates itself) and the absence of dangling links among some paths.
\<close>

definition follow_ok :: "unit_fs \<Rightarrow> bool" where
  "follow_ok fs \<longleftrightarrow> (\<forall>f p. (\<forall>t. f p \<noteq> Some (Symlink t)) \<longrightarrow> fs_follow fs f p = p)"

definition no_dangling :: "string set \<Rightarrow> unit_fs \<Rightarrow> bool" where
  "no_dangling P fs \<longleftrightarrow> (\<forall>p \<in> P. fs_files fs p \<noteq> None \<longrightarrow> fs_files fs (fs_final fs p) \<noteq> None)"

definition unit_fits :: "string \<Rightarrow> unitdesc \<Rightarrow> bool" where
  "unit_fits root u \<longleftrightarrow> unit_desc_check u = 0 \<and> length (unit_file root u) < UNIT_PATH_MAX \<and>
     (u_wanted_by u \<noteq> None \<longrightarrow> length (unit_link root u) < UNIT_PATH_MAX)"

lemmas unit_path_defs = unit_desc_get_path_def unit_desc_get_wants_path_def unit_desc_get_wants_target_def
  units_fs_get_afm_unit_path_def units_fs_get_afm_wants_unit_path_def units_fs_get_wants_target_def
  check_snprintf_result_def snprintf_text_def Let_def
  unit_file_def [symmetric] unit_link_def [symmetric] unit_link_target_def [symmetric]

lemma unit_desc_get_path_eq:
  "unit_desc_get_path root u n =
     (if length (unit_file root u) < n then int (length (unit_file root u)) else - 1,
      take (n - 1) (unit_file root u))"
  by (simp add: unit_path_defs)

lemma unit_desc_get_wants_path_eq:
  "unit_desc_get_wants_path root u n =
     (if length (unit_link root u) < n then int (length (unit_link root u)) else - 1,
      take (n - 1) (unit_link root u))"
  by (simp add: unit_path_defs)

lemma unit_desc_get_wants_target_eq:
  "unit_desc_get_wants_target u n =
     (if length (unit_link_target u) < n then int (length (unit_link_target u)) else - 1,
      take (n - 1) (unit_link_target u))"
  by (simp add: unit_path_defs)

lemmas unit_paths_eq = unit_desc_get_path_eq unit_desc_get_wants_path_eq unit_desc_get_wants_target_eq

lemma unit_paths_fit:
  "length (unit_file root u) < n \<Longrightarrow>
     unit_desc_get_path root u n = (int (length (unit_file root u)), unit_file root u)"
  "length (unit_link root u) < n \<Longrightarrow>
     unit_desc_get_wants_path root u n = (int (length (unit_link root u)), unit_link root u)"
  "length (unit_link_target u) < n \<Longrightarrow>
     unit_desc_get_wants_target u n = (int (length (unit_link_target u)), unit_link_target u)"
  by (simp_all add: unit_paths_eq)

lemma unit_target_fits: "length (unit_link_target u) < length (unit_link root u)"
  by (simp add: unit_link_target_def unit_link_def wants_target_def afm_wants_unit_path_def)

lemma check_files_absent:
  assumes "0 \<le> unit_oper_check_files root u False fs"
  shows "unit_fits root u" "fs_files fs (fs_final fs (unit_file root u)) = None"
    "u_wanted_by u \<noteq> None \<Longrightarrow> fs_files fs (fs_final fs (unit_link root u)) = None"
  using assms
  by (auto simp: unit_oper_check_files_def unit_fits_def unit_paths_eq check_file_def fs_access_def
      Let_def unit_desc_check_def split: if_splits)

lemma check_no_file_absent:
  assumes "0 \<le> check_no_file root us fs" and "no_dangling (unit_files root us \<union> unit_links root us) fs"
  shows "\<forall>u \<in> set us. unit_fits root u"
    "\<forall>p \<in> unit_files root us \<union> unit_links root us. fs_files fs p = None"
proof -
  have all: "\<forall>u \<in> set us. 0 \<le> unit_oper_check_files root u False fs"
    using assms(1) by (induction us) (auto simp: Let_def split: if_splits)
  then show "\<forall>u \<in> set us. unit_fits root u"
    by (auto dest: check_files_absent(1))
  show "\<forall>p \<in> unit_files root us \<union> unit_links root us. fs_files fs p = None"
    using all assms(2) by (fastforce simp: no_dangling_def unit_files_def unit_links_def
        dest: check_files_absent(2,3))
qed

section \<open>Effect of the operations on the files\<close>

definition unit_paths :: "string \<Rightarrow> unitdesc \<Rightarrow> string set" where
  "unit_paths root u = {unit_file root u} \<union> (if u_wanted_by u = None then {} else {unit_link root u})"

definition without :: "string set \<Rightarrow> (string \<Rightarrow> fnode option) \<Rightarrow> string \<Rightarrow> fnode option" where
  "without P f p = (if p \<in> P then None else f p)"

lemma without_simps [simp]:
  "without {} f = f"
  "without P (without Q f) = without (Q \<union> P) f"
  "f(p := None) = without {p} f"
  by (auto simp: without_def fun_eq_iff)

lemma unit_paths_all:
  "unit_files root [] \<union> unit_links root [] = {}"
  "unit_files root (u # us) \<union> unit_links root (u # us) =
     unit_paths root u \<union> (unit_files root us \<union> unit_links root us)"
  by (auto simp: unit_files_def unit_links_def unit_paths_def)

lemma fs_unlink_frame [simp]:
  "fs_unlinks fs = [] \<Longrightarrow> fs_unlinks (snd (fs_unlink p fs)) = []"
  "fs_follow (snd (fs_unlink p fs)) = fs_follow fs"
  "fs_unlinks fs = [] \<Longrightarrow> fs_files (snd (fs_unlink p fs)) = without {p} (fs_files fs)"
  by (auto simp: fs_unlink_def without_def fun_eq_iff split: list.splits bool.splits)

lemma fs_unlink_rc: "fs_unlinks fs = [] \<Longrightarrow> fst (fs_unlink p fs) = (if fs_files fs p = None then - 1 else 0)"
  by (simp add: fs_unlink_def)

lemma stop_cb_frame [simp]:
  "fs_files (stop_that_unit_cb b l fs) = fs_files fs"
  "fs_unlinks (stop_that_unit_cb b l fs) = fs_unlinks fs"
  "fs_follow (stop_that_unit_cb b l fs) = fs_follow fs"
  by (simp_all add: stop_that_unit_cb_def)

lemma stop_cbs_frame [simp]:
  "fs_files (fold (stop_that_unit_cb b) ls fs) = fs_files fs"
  "fs_unlinks (fold (stop_that_unit_cb b) ls fs) = fs_unlinks fs"
  "fs_follow (fold (stop_that_unit_cb b) ls fs) = fs_follow fs"
  by (induction ls arbitrary: fs) simp_all

lemma unit_oper_stop_frame [simp]:
  "fs_files (snd (unit_oper_stop sd u fs)) = fs_files fs"
  "fs_unlinks (snd (unit_oper_stop sd u fs)) = fs_unlinks fs"
  "fs_follow (snd (unit_oper_stop sd u fs)) = fs_follow fs"
  by (simp_all add: unit_oper_stop_def split: prod.split)

lemma unit_oper_uninstall_effect:
  assumes "unit_fits root u" and "fs_unlinks fs = []"
  shows "fs_files (snd (unit_oper_uninstall root sd u fs)) = without (unit_paths root u) (fs_files fs) \<and>
     fs_unlinks (snd (unit_oper_uninstall root sd u fs)) = []"
  using assms
  by (cases "u_wanted_by u"; simp add: unit_oper_uninstall_def unit_fits_def unit_paths_fit unit_paths_def
      case_prod_unfold Let_def insert_commute [of "unit_file root u" "unit_link root u"])

lemma unit_oper_uninstall_rc:
  assumes "unit_fits root u" and "fs_unlinks fs = []"
    and "\<forall>p \<in> unit_paths root u. fs_files fs p \<noteq> None"
    and "u_wanted_by u \<noteq> None \<Longrightarrow> unit_link root u \<noteq> unit_file root u"
  shows "fst (unit_oper_uninstall root sd u fs) = 0"
  using assms
  by (cases "u_wanted_by u"; simp add: unit_oper_uninstall_def unit_fits_def unit_paths_fit unit_paths_def
      case_prod_unfold fs_unlink_rc without_def)

lemma do_uninstall_units_effect:
  assumes "\<forall>u \<in> set us. unit_fits root u" and "fs_unlinks fs = []"
  shows "fs_files (snd (do_uninstall_units root sd us rc fs)) =
     without (unit_files root us \<union> unit_links root us) (fs_files fs)"
  using assms
proof (induction us arbitrary: rc fs)
  case Nil
  then show ?case by (simp add: unit_paths_all(1))
next
  case (Cons u us)
  then show ?case
    by (simp add: unit_paths_all(2) unit_oper_uninstall_effect case_prod_unfold Let_def Un_commute)
qed

lemma fs_put_effect:
  assumes "follow_ok fs" and "\<forall>t. fs_files fs p \<noteq> Some (Symlink t)"
  shows "q \<noteq> p \<Longrightarrow> fs_files (snd (fs_put p (Regular c) fs)) q = fs_files fs q"
    "\<forall>t. fs_files (snd (fs_put p (Regular c) fs)) p \<noteq> Some (Symlink t)"
    "fst (fs_put p (Regular c) fs) \<ge> 0 \<Longrightarrow> fs_files (snd (fs_put p (Regular c) fs)) p = Some (Regular c)"
    "fs_unlinks (snd (fs_put p (Regular c) fs)) = fs_unlinks fs"
    "fs_follow (snd (fs_put p (Regular c) fs)) = fs_follow fs"
    "fst (fs_put p (Regular c) fs) \<le> 0"
proof -
  have "fs_final fs p = p"
    using assms by (simp add: fs_final_def follow_ok_def)
  then show "q \<noteq> p \<Longrightarrow> fs_files (snd (fs_put p (Regular c) fs)) q = fs_files fs q"
    "\<forall>t. fs_files (snd (fs_put p (Regular c) fs)) p \<noteq> Some (Symlink t)"
    "fst (fs_put p (Regular c) fs) \<ge> 0 \<Longrightarrow> fs_files (snd (fs_put p (Regular c) fs)) p = Some (Regular c)"
    "fs_unlinks (snd (fs_put p (Regular c) fs)) = fs_unlinks fs"
    "fs_follow (snd (fs_put p (Regular c) fs)) = fs_follow fs"
    "fst (fs_put p (Regular c) fs) \<le> 0"
    using assms(2) by (auto simp: fs_put_def split: list.splits put_result.splits)
qed

lemma fs_symlink_effect:
  "\<forall>q. q \<noteq> p \<longrightarrow> fs_files (snd (fs_symlink t p fs)) q = fs_files fs q"
  "fst (fs_symlink t p fs) \<ge> 0 \<Longrightarrow> fs_files (snd (fs_symlink t p fs)) p = Some (Symlink t)"
  "fs_unlinks (snd (fs_symlink t p fs)) = fs_unlinks fs"
  "fs_follow (snd (fs_symlink t p fs)) = fs_follow fs"
  "fst (fs_symlink t p fs) \<le> 0"
  by (auto simp: fs_symlink_def split: list.splits put_result.splits if_splits)

text \<open>One installation, by the order of its writes.\<close>

lemma unit_oper_install_cases:
  assumes "unit_fits root u"
  shows "unit_oper_install root u fs =
     (let (rc, fs1) = fs_put (unit_file root u) (Regular (u_content u)) fs
      in if rc < 0 \<or> u_wanted_by u = None then (rc, fs1)
         else fs_symlink (unit_link_target u) (unit_link root u) (snd (fs_unlink (unit_link root u) fs1)))"
  using assms unit_target_fits [of u root]
  by (cases "u_wanted_by u"; simp add: unit_oper_install_def unit_fits_def unit_paths_fit case_prod_unfold Let_def)

lemma unit_oper_install_effect:
  assumes fits: "unit_fits root u" and fol: "follow_ok fs" and nol: "\<forall>t. fs_files fs (unit_file root u) \<noteq> Some (Symlink t)"
    and ul: "fs_unlinks fs = []" and ne: "u_wanted_by u \<noteq> None \<Longrightarrow> unit_link root u \<noteq> unit_file root u"
    and run: "unit_oper_install root u fs = (rc, fs')"
  shows "\<forall>q. q \<notin> unit_paths root u \<longrightarrow> fs_files fs' q = fs_files fs q"
    "\<forall>t. fs_files fs' (unit_file root u) \<noteq> Some (Symlink t)"
    "fs_unlinks fs' = []" "fs_follow fs' = fs_follow fs" "rc \<le> 0"
    "rc \<ge> 0 \<Longrightarrow> fs_files fs' (unit_file root u) = Some (Regular (u_content u))"
    "rc \<ge> 0 \<Longrightarrow> u_wanted_by u \<noteq> None \<Longrightarrow> fs_files fs' (unit_link root u) = Some (Symlink (unit_link_target u))"
proof -
  obtain rc1 fs1 where put: "fs_put (unit_file root u) (Regular (u_content u)) fs = (rc1, fs1)"
    by fastforce
  note one = fs_put_effect [OF fol nol, where c = "u_content u", unfolded put, simplified]
  show "\<forall>q. q \<notin> unit_paths root u \<longrightarrow> fs_files fs' q = fs_files fs q"
    "\<forall>t. fs_files fs' (unit_file root u) \<noteq> Some (Symlink t)"
    "fs_unlinks fs' = []" "fs_follow fs' = fs_follow fs" "rc \<le> 0"
    "rc \<ge> 0 \<Longrightarrow> fs_files fs' (unit_file root u) = Some (Regular (u_content u))"
    "rc \<ge> 0 \<Longrightarrow> u_wanted_by u \<noteq> None \<Longrightarrow> fs_files fs' (unit_link root u) = Some (Symlink (unit_link_target u))"
    using run [symmetric] ne ul one
      fs_symlink_effect [where p = "unit_link root u" and t = "unit_link_target u"
        and fs = "snd (fs_unlink (unit_link root u) fs1)"]
    by (auto simp: unit_oper_install_cases [OF fits] put unit_paths_def without_def prod_eq_iff split: if_splits)
qed

section \<open>Installation of the units of a package\<close>

text \<open>
  The units describe distinct files, none of which is a link of another unit. \<open>installed\<close>
  says that the files and links of units are in place.
\<close>

definition units_apart :: "string \<Rightarrow> unitdesc list \<Rightarrow> bool" where
  "units_apart root us \<longleftrightarrow> unit_files root us \<inter> unit_links root us = {}"

definition units_distinct :: "string \<Rightarrow> unitdesc list \<Rightarrow> bool" where
  "units_distinct root us \<longleftrightarrow> units_apart root us \<and> distinct (map (unit_file root) us) \<and>
     distinct (map (unit_link root) (filter (\<lambda>u. u_wanted_by u \<noteq> None) us))"

definition unit_installed :: "string \<Rightarrow> (string \<Rightarrow> fnode option) \<Rightarrow> unitdesc \<Rightarrow> bool" where
  "unit_installed root f u \<longleftrightarrow> f (unit_file root u) = Some (Regular (u_content u)) \<and>
     (u_wanted_by u \<noteq> None \<longrightarrow> f (unit_link root u) = Some (Symlink (unit_link_target u)))"

lemma units_apart_iff:
  "units_apart root us \<longleftrightarrow>
     (\<forall>u \<in> set us. \<forall>v \<in> set us. u_wanted_by v \<noteq> None \<longrightarrow> unit_link root v \<noteq> unit_file root u)"
  unfolding units_apart_def unit_files_def unit_links_def disjoint_iff by fastforce

lemma units_apart_Cons:
  "units_apart root (u # us) \<Longrightarrow> units_apart root us"
  "units_apart root (u # us) \<Longrightarrow> u_wanted_by u \<noteq> None \<Longrightarrow> unit_link root u \<noteq> unit_file root u"
  "units_apart root (u # us) \<Longrightarrow> v \<in> set us \<Longrightarrow> u_wanted_by u \<noteq> None \<Longrightarrow> unit_link root u \<noteq> unit_file root v"
  "units_apart root (u # us) \<Longrightarrow> v \<in> set us \<Longrightarrow> u_wanted_by v \<noteq> None \<Longrightarrow> unit_link root v \<noteq> unit_file root u"
  by (auto simp: units_apart_iff)

lemma units_distinct_Cons:
  assumes "units_distinct root (u # us)"
  shows "units_distinct root us" "unit_paths root u \<inter> (unit_files root us \<union> unit_links root us) = {}"
  using assms
  by (auto simp: units_distinct_def units_apart_def unit_paths_def unit_files_def unit_links_def split: if_splits)

lemma install_step_no_symlink:
  assumes "units_apart root (u # us)" and "\<forall>p \<in> unit_files root (u # us). \<forall>t. f p \<noteq> Some (Symlink t)"
    and "\<forall>q. q \<notin> unit_paths root u \<longrightarrow> f' q = f q" and "\<forall>t. f' (unit_file root u) \<noteq> Some (Symlink t)"
  shows "\<forall>p \<in> unit_files root us. \<forall>t. f' p \<noteq> Some (Symlink t)"
proof (intro ballI allI)
  fix p t assume p: "p \<in> unit_files root us"
  then have "p \<noteq> unit_link root u" if "u_wanted_by u \<noteq> None"
    using units_apart_Cons(3) [OF assms(1) _ that] by (fastforce simp: unit_files_def)
  then have "p = unit_file root u \<or> p \<notin> unit_paths root u"
    by (auto simp: unit_paths_def)
  with p assms(2-4) show "f' p \<noteq> Some (Symlink t)"
    by (auto simp: unit_files_def)
qed

lemma install_each_effect:
  assumes "\<forall>u \<in> set us. unit_fits root u" and "follow_ok fs" and "fs_unlinks fs = []"
    and "units_apart root us" and "\<forall>p \<in> unit_files root us. \<forall>t. fs_files fs p \<noteq> Some (Symlink t)"
    and "install_each root us fs = (rc, fs')"
  shows "without (unit_files root us \<union> unit_links root us) (fs_files fs') =
     without (unit_files root us \<union> unit_links root us) (fs_files fs) \<and> fs_unlinks fs' = [] \<and> rc \<le> 0"
  using assms
proof (induction us arbitrary: fs)
  case (Cons u us)
  obtain rc1 fs1 where one: "unit_oper_install root u fs = (rc1, fs1)"
    by fastforce
  have eff: "\<forall>q. q \<notin> unit_paths root u \<longrightarrow> fs_files fs1 q = fs_files fs q"
    "\<forall>t. fs_files fs1 (unit_file root u) \<noteq> Some (Symlink t)"
    "fs_unlinks fs1 = []" "fs_follow fs1 = fs_follow fs" "rc1 \<le> 0"
    using unit_oper_install_effect [OF _ Cons.prems(2) _ Cons.prems(3) units_apart_Cons(2) [OF Cons.prems(4)] one]
      Cons.prems(1,5) by (auto simp: unit_files_def)
  show ?case
  proof (cases "rc1 < 0")
    case True
    with Cons.prems(6) one eff show ?thesis
      by (auto simp: unit_paths_all(2) without_def fun_eq_iff)
  next
    case False
    have "without (unit_files root us \<union> unit_links root us) (fs_files fs') =
      without (unit_files root us \<union> unit_links root us) (fs_files fs1) \<and> fs_unlinks fs' = [] \<and> rc \<le> 0"
      using Cons.prems one eff False
      by (intro Cons.IH) (auto simp: follow_ok_def intro: units_apart_Cons(1)
          dest: install_step_no_symlink [OF Cons.prems(4,5) eff(1,2), rule_format])
    with eff(1) show ?thesis
      unfolding unit_paths_all(2) fun_eq_iff without_def by (metis UnCI)
  qed
qed simp

lemma install_each_installs:
  assumes "\<forall>u \<in> set us. unit_fits root u" and "follow_ok fs" and "fs_unlinks fs = []"
    and "units_distinct root us" and "\<forall>p \<in> unit_files root us. \<forall>t. fs_files fs p \<noteq> Some (Symlink t)"
    and "install_each root us fs = (rc, fs')" and "0 \<le> rc"
  shows "\<forall>u \<in> set us. unit_installed root (fs_files fs') u"
  using assms
proof (induction us arbitrary: fs)
  case (Cons u us)
  obtain rc1 fs1 where one: "unit_oper_install root u fs = (rc1, fs1)"
    by fastforce
  have apart: "units_apart root (u # us)"
    using Cons.prems(4) by (simp add: units_distinct_def)
  note eff = unit_oper_install_effect [OF _ Cons.prems(2) _ Cons.prems(3) units_apart_Cons(2) [OF apart] one]
  have nol: "\<forall>t. fs_files fs (unit_file root u) \<noteq> Some (Symlink t)" and fit: "unit_fits root u"
    using Cons.prems(1,5) by (auto simp: unit_files_def)
  have rest: "install_each root us fs1 = (rc, fs')" and "0 \<le> rc1"
    using Cons.prems(6,7) one by (auto split: if_splits)
  have nol1: "\<forall>p \<in> unit_files root us. \<forall>t. fs_files fs1 p \<noteq> Some (Symlink t)"
    using install_step_no_symlink [OF apart Cons.prems(5) eff(1,2)] fit nol by blast
  have env: "\<forall>u \<in> set us. unit_fits root u" "follow_ok fs1" "fs_unlinks fs1 = []"
    using Cons.prems(1,2) eff(3,4) fit nol by (auto simp: follow_ok_def)
  have inst: "\<forall>v \<in> set us. unit_installed root (fs_files fs') v"
    using Cons.IH [OF env units_distinct_Cons(1) [OF Cons.prems(4)] nol1 rest Cons.prems(7)] .
  have same: "without (unit_files root us \<union> unit_links root us) (fs_files fs') =
      without (unit_files root us \<union> unit_links root us) (fs_files fs1)"
    using install_each_effect [OF env units_apart_Cons(1) [OF apart] nol1 rest] by simp
  have "fs_files fs' p = fs_files fs1 p" if "p \<in> unit_paths root u" for p
    using fun_cong [OF same, of p] units_distinct_Cons(2) [OF Cons.prems(4)] that
    by (auto simp: without_def split: if_splits)
  then have "unit_installed root (fs_files fs') u"
    using eff(6,7) fit nol \<open>0 \<le> rc1\<close> by (auto simp: unit_installed_def unit_paths_def)
  with inst show ?case by simp
qed simp

lemma uninstall_installed_rc:
  assumes "\<forall>u \<in> set us. unit_fits root u" and "fs_unlinks fs = []" and "units_distinct root us"
    and "\<forall>u \<in> set us. unit_installed root (fs_files fs) u"
  shows "fst (do_uninstall_units root sd us 0 fs) = 0"
  using assms
proof (induction us arbitrary: fs)
  case (Cons u us)
  have "fst (unit_oper_uninstall root sd u fs) = 0"
    using Cons.prems units_apart_Cons(2) [of root u us]
    by (intro unit_oper_uninstall_rc) (auto simp: unit_installed_def unit_paths_def units_distinct_def)
  moreover have "unit_installed root (without (unit_paths root u) (fs_files fs)) v" if "v \<in> set us" for v
    using that Cons.prems(4) units_distinct_Cons(2) [OF Cons.prems(3)]
    by (fastforce simp: unit_installed_def without_def unit_files_def unit_links_def)
  ultimately show ?case
    using Cons.prems Cons.IH [of "snd (unit_oper_uninstall root sd u fs)"] unit_oper_uninstall_effect [of root u fs sd]
    by (auto simp: case_prod_unfold dest: units_distinct_Cons(1))
qed simp

text \<open>C24: An installation of units that fails puts the system back: when no path of the units is a
  dangling link and files can be removed, every file of the system is after the call what it
  was before it, whatever the number of units already installed and whatever was left by
  the write that failed.\<close>

theorem install_units_rollback:
  assumes "follow_ok fs" and "fs_unlinks fs = []" and "units_apart root us"
    and "no_dangling (unit_files root us \<union> unit_links root us) fs"
    and "install_units root sd us fs = (rc, fs')" and "rc < 0"
  shows "fs_files fs' = fs_files fs"
proof (cases "check_no_file root us fs < 0")
  case True
  with assms(5) show ?thesis by (simp add: install_units_def)
next
  case False
  let ?P = "unit_files root us \<union> unit_links root us"
  note chk = check_no_file_absent [OF leI [OF False] assms(4)]
  obtain rc1 fs1 where ins: "install_each root us fs = (rc1, fs1)" by fastforce
  have eff: "without ?P (fs_files fs1) = without ?P (fs_files fs)" "fs_unlinks fs1 = []"
    using install_each_effect [OF chk(1) assms(1-3) _ ins] chk(2) by auto
  have "fs' = snd (do_uninstall_units root sd us 0 fs1)"
    using assms(5,6) ins False by (auto simp: install_units_def split: if_splits)
  then have "fs_files fs' = without ?P (fs_files fs1)"
    using do_uninstall_units_effect [OF chk(1) eff(2)] by simp
  then show ?thesis
    using eff(1) chk(2) by (auto simp: without_def fun_eq_iff)
qed

text \<open>A unit wanted by a target and a second one, whose writing stops in the middle.\<close>

definition demo_units :: "unitdesc list" where
  "demo_units = [\<lparr>u_scope = unitscope_system, u_type = unittype_service, u_name = Some ''a'',
      u_content = ''[Unit]'', u_wanted_by = Some ''b.target''\<rparr>,
    \<lparr>u_scope = unitscope_user, u_type = unittype_socket, u_name = Some ''c'',
      u_content = ''[Socket]'', u_wanted_by = None\<rparr>]"

definition demo_fs :: "put_result list \<Rightarrow> unit_fs" where
  "demo_fs puts = \<lparr>fs_files = Map.empty, fs_follow = (\<lambda>f p. p), fs_puts = puts, fs_unlinks = [], fs_stops = []\<rparr>"

definition demo_sysd :: sysd where
  "demo_sysd = \<lparr>sd_list = (\<lambda>isuser pattern. (0, [(''/unit'', ''active'')]))\<rparr>"

lemma demo_fs_ok: "follow_ok (demo_fs ps)" "fs_unlinks (demo_fs ps) = []" "no_dangling P (demo_fs ps)"
  by (simp_all add: follow_ok_def demo_fs_def no_dangling_def)

lemma demo_units_distinct: "units_distinct ''/r'' demo_units"
  by code_simp

lemma units_distinct_apart: "units_distinct root us \<Longrightarrow> units_apart root us"
  by (simp add: units_distinct_def)

theorem install_units_rollback_witness:
  "fst (install_units ''/r'' demo_sysd demo_units (demo_fs [Put_ok, Put_ok, Put_partial ''[So''])) = - 1 \<and>
   fs_files (snd (install_units ''/r'' demo_sysd demo_units (demo_fs [Put_ok, Put_ok, Put_partial ''[So'']))) = Map.empty"
proof -
  have rc: "fst (install_units ''/r'' demo_sysd demo_units (demo_fs [Put_ok, Put_ok, Put_partial ''[So''])) = - 1"
    by code_simp
  then show ?thesis
    using install_units_rollback [OF demo_fs_ok(1,2) units_distinct_apart [OF demo_units_distinct] demo_fs_ok(3) prod.collapse [symmetric]]
    by (simp add: demo_fs_def)
qed

text \<open>C37: An installation of units that succeeds puts in place the content of every unit and the link of
  every unit wanted by a target, and leaves every other file as it was.\<close>

theorem install_units_installs:
  assumes "follow_ok fs" and "fs_unlinks fs = []" and "units_distinct root us"
    and "no_dangling (unit_files root us \<union> unit_links root us) fs"
    and "install_units root sd us fs = (rc, fs')" and "0 \<le> rc"
  shows "rc = 0 \<and> (\<forall>u \<in> set us. unit_installed root (fs_files fs') u) \<and>
    (\<forall>p. p \<notin> unit_files root us \<union> unit_links root us \<longrightarrow> fs_files fs' p = fs_files fs p)"
proof -
  have chk0: "0 \<le> check_no_file root us fs"
    using assms(5,6) by (auto simp: install_units_def Let_def split: if_splits)
  note chk = check_no_file_absent [OF chk0 assms(4)]
  have nol: "\<forall>p \<in> unit_files root us. \<forall>t. fs_files fs p \<noteq> Some (Symlink t)"
    using chk(2) by auto
  obtain rc1 where ins: "install_each root us fs = (rc1, fs')" "0 \<le> rc1" and "rc = 0"
    using assms(5,6) chk0 by (auto simp: install_units_def case_prod_unfold Let_def prod_eq_iff split: if_splits)
  have "\<forall>u \<in> set us. unit_installed root (fs_files fs') u"
    by (rule install_each_installs [OF chk(1) assms(1-3) nol ins])
  moreover have "without (unit_files root us \<union> unit_links root us) (fs_files fs') =
     without (unit_files root us \<union> unit_links root us) (fs_files fs)"
    using install_each_effect [OF chk(1) assms(1,2) units_distinct_apart [OF assms(3)] nol ins(1)] by simp
  ultimately show ?thesis
    using \<open>rc = 0\<close> unfolding fun_eq_iff without_def by metis
qed

theorem install_units_installs_witness:
  "fst (install_units ''/r'' demo_sysd demo_units (demo_fs [])) = 0 \<and>
   list_all (unit_installed ''/r'' (fs_files (snd (install_units ''/r'' demo_sysd demo_units (demo_fs []))))) demo_units"
proof -
  have "fst (install_units ''/r'' demo_sysd demo_units (demo_fs [])) = 0"
    by code_simp
  then show ?thesis
    using install_units_installs [OF demo_fs_ok(1,2) demo_units_distinct demo_fs_ok(3) prod.collapse [symmetric]]
    by (simp add: list_all_iff)
qed

text \<open>The removal of units that have just been installed succeeds and gives back the files of the
  system as they were before the installation.\<close>

theorem install_uninstall_units:
  assumes "follow_ok fs" and "fs_unlinks fs = []" and "units_distinct root us"
    and "no_dangling (unit_files root us \<union> unit_links root us) fs"
    and "install_units root sd us fs = (rc, fs1)" and "0 \<le> rc"
    and "uninstall_units root sd us fs1 = (rc2, fs2)"
  shows "rc2 = 0 \<and> fs_files fs2 = fs_files fs"
proof -
  have chk0: "0 \<le> check_no_file root us fs"
    using assms(5,6) by (auto simp: install_units_def Let_def split: if_splits)
  note chk = check_no_file_absent [OF chk0 assms(4)]
  have nol: "\<forall>p \<in> unit_files root us. \<forall>t. fs_files fs p \<noteq> Some (Symlink t)"
    using chk(2) by auto
  obtain rc1 where ins: "install_each root us fs = (rc1, fs1)" "0 \<le> rc1"
    using assms(5,6) chk0 by (auto simp: install_units_def case_prod_unfold Let_def prod_eq_iff split: if_splits)
  have eff: "without (unit_files root us \<union> unit_links root us) (fs_files fs1) =
     without (unit_files root us \<union> unit_links root us) (fs_files fs)" "fs_unlinks fs1 = []"
    using install_each_effect [OF chk(1) assms(1,2) units_distinct_apart [OF assms(3)] nol ins(1)] by auto
  have "rc2 = 0"
    using uninstall_installed_rc [OF chk(1) eff(2) assms(3) install_each_installs [OF chk(1) assms(1-3) nol ins], of sd]
      assms(7) by (simp add: uninstall_units_def)
  moreover have "fs_files fs2 = without (unit_files root us \<union> unit_links root us) (fs_files fs)"
    using do_uninstall_units_effect [OF chk(1) eff(2), of sd 0] assms(7) eff(1) by (simp add: uninstall_units_def)
  ultimately show ?thesis
    using chk(2) by (auto simp: without_def fun_eq_iff)
qed

theorem install_uninstall_units_witness:
  "fst (uninstall_units ''/r'' demo_sysd demo_units (snd (install_units ''/r'' demo_sysd demo_units (demo_fs [])))) = 0 \<and>
   fs_files (snd (uninstall_units ''/r'' demo_sysd demo_units (snd (install_units ''/r'' demo_sysd demo_units (demo_fs []))))) = Map.empty"
proof -
  have "fst (install_units ''/r'' demo_sysd demo_units (demo_fs [])) = 0"
    by code_simp
  then show ?thesis
    using install_uninstall_units [OF demo_fs_ok(1,2) demo_units_distinct demo_fs_ok(3) prod.collapse [symmetric] _ prod.collapse [symmetric]]
    by (simp add: demo_fs_def)
qed

end
