(* ===== verification/UnitProcess.thy ===== *)
theory UnitProcess
  imports UnitOper
begin

text \<open>
  Production of the units of a package from the template (\<^verbatim>\<open>src/src/units/unit-process.c\<close>).

  A pointer in a text is the text that it points to, up to its terminating NUL: two pointers
  in the same text are compared by the lengths of what follows them. The scanners write in
  place, behind the character they read; the model builds what is written. The instantiation
  of the template (\<^verbatim>\<open>apply_mustach\<close>) and the reading of files (\<^verbatim>\<open>rp_file_get\<close>) are
  parameters.
\<close>

section \<open>Patterns\<close>

definition isblank :: "char \<Rightarrow> bool" where
  "isblank c \<longleftrightarrow> c = CHR '' '' \<or> c = CHR 0x09"

text \<open>The result is the address after the matched text.\<close>

fun matches :: "string \<Rightarrow> string \<Rightarrow> string option" where
  "matches [] text = Some text"
| "matches (p # pattern) text =
     (if p = newline then
        (case dropWhile isblank text of
           [] \<Rightarrow> matches pattern []
         | t # text' \<Rightarrow> if t \<noteq> p then None else matches pattern text')
      else if p = CHR '' '' then
        (case text of
           [] \<Rightarrow> None
         | t # text' \<Rightarrow> if isblank t then matches pattern (dropWhile isblank text') else None)
      else
        (case text of
           [] \<Rightarrow> None
         | t # text' \<Rightarrow> if t \<noteq> p then None else matches pattern text'))"

definition nextline :: "string \<Rightarrow> string option" where
  "nextline text =
     (case dropWhile (\<lambda>c. c \<noteq> newline) text of [] \<Rightarrow> None | c # text' \<Rightarrow> Some text')"

lemma nextline_shorter: "nextline str = Some t \<Longrightarrow> length t < length str"
  using length_dropWhile_le [of "\<lambda>c. c \<noteq> newline" str]
  by (auto simp: nextline_def split: list.splits)

text \<open>The line found and what follows the pattern.\<close>

function offset :: "string \<Rightarrow> string \<Rightarrow> (string \<times> string) option" where
  "offset text pattern =
     (case matches pattern text of
        Some args \<Rightarrow> Some (text, args)
      | None \<Rightarrow> (case nextline text of None \<Rightarrow> None | Some text' \<Rightarrow> offset text' pattern))"
  by pat_completeness auto
termination
  by (relation "measure (length \<circ> fst)") (auto dest: nextline_shorter)

declare offset.simps [simp del]

section \<open>Packing\<close>

text \<open>The scan of a line: \<open>emit\<close>, \<open>nextcont\<close>, \<open>start\<close> and the text after the line.\<close>

fun pack_scan :: "string \<Rightarrow> bool \<Rightarrow> bool \<Rightarrow> string option \<Rightarrow> bool \<times> bool \<times> string option \<times> string" where
  "pack_scan [] emit nextcont start = (emit, nextcont, start, [])"
| "pack_scan (c # text) emit nextcont start =
     (if c = newline then (emit, nextcont, start, text)
      else if isblank c then pack_scan text emit nextcont start
      else if c = CHR 0x5C \<and> take 1 text = [newline] then pack_scan text emit True start
      else pack_scan text True nextcont (if start = None then Some (c # text) else start))"

lemma pack_scan_rest: "length (snd (snd (snd (pack_scan str e n s)))) \<le> length str"
  by (induction str e n s rule: pack_scan.induct) auto

definition pack_line :: "char \<Rightarrow> bool \<Rightarrow> string \<Rightarrow> string \<times> bool \<times> string" where
  "pack_line purge cont text =
     (let (emit, nextcont, start, read) = pack_scan text False False None;
          begin = (case start of Some s \<Rightarrow> if cont then text else s | None \<Rightarrow> text);
          out = (if emit \<or> cont \<and> \<not> nextcont
                 then if purge \<noteq> CHR 0x00 \<and> take 1 begin = [purge]
                      then if take 3 (drop 1 begin) = ''nl'' @ [newline] then [newline] else []
                      else take (length begin - length read) begin
                 else [])
      in (out, nextcont, read))"

lemma pack_line_shorter: "text \<noteq> [] \<Longrightarrow> pack_line purge cont text = (out, n, read) \<Longrightarrow> length read < length text"
  using pack_scan_rest [of "tl text"]
  by (cases "text") (auto simp: pack_line_def Let_def less_Suc_eq_le split: prod.splits if_splits,
      (metis snd_conv)+)

function pack_loop :: "char \<Rightarrow> string \<Rightarrow> bool \<Rightarrow> string" where
  "pack_loop purge text nextcont =
     (if text = [] then []
      else let (out, nextcont', read) = pack_line purge nextcont text
           in out @ pack_loop purge read nextcont')"
  by pat_completeness auto
termination
  by (relation "measure (\<lambda>(purge, text, nextcont). length text)") (auto dest: pack_line_shorter [OF _ sym])

declare pack_loop.simps [simp del]

definition pack :: "string \<Rightarrow> char \<Rightarrow> string" where
  "pack text purge = pack_loop purge text False"

section \<open>Slashes\<close>

definition NRNLMAX :: nat where [simp]: "NRNLMAX = 1"

definition preceded_by :: "string \<Rightarrow> string \<Rightarrow> bool" where
  "preceded_by t written \<longleftrightarrow>
     length t \<le> length written \<and> drop (length written - length t) written = t"

definition slashes_allowed :: "string \<Rightarrow> nat" where
  "slashes_allowed written =
     (if preceded_by ''http:'' written \<or> preceded_by ''https:'' written then 2
      else if preceded_by ''file:'' written then 3 else 1)"

text \<open>\<open>written\<close> is the text from its beginning to the write iterator.\<close>

function dedup_loop :: "string \<Rightarrow> nat \<Rightarrow> string \<Rightarrow> string" where
  "dedup_loop written nrnl text =
     (case text of
        [] \<Rightarrow> written
      | c # read \<Rightarrow>
          if c = newline
          then dedup_loop (if nrnl + 1 \<le> NRNLMAX then written @ [c] else written) (nrnl + 1) read
          else if c \<noteq> CHR ''/'' then dedup_loop (written @ [c]) 0 read
          else dedup_loop (written @ take (slashes_allowed written) (takeWhile (\<lambda>c. c = CHR ''/'') text)) 0
                 (dropWhile (\<lambda>c. c = CHR ''/'') text))"
  by pat_completeness auto
termination
  by (relation "measure (\<lambda>(w, n, text). length text)") (auto simp: less_Suc_eq_le length_dropWhile_le)

declare dedup_loop.simps [simp del]

definition dedup_slashes :: "string \<Rightarrow> string" where
  "dedup_slashes text = dedup_loop [] NRNLMAX text"

section \<open>Units of a corpus\<close>

definition unit_word :: "string \<Rightarrow> string" where
  "unit_word arg = c_word ('' '' @ [CHR 0x09, newline]) arg"

definition strndup :: "mem \<Rightarrow> string \<Rightarrow> string option \<times> mem" where
  "strndup mem str = (let (ok, mem') = c_alloc mem in (if ok then Some str else None, mem'))"

definition process_one_unit :: "mem \<Rightarrow> string \<Rightarrow> unitdesc \<times> mem" where
  "process_one_unit mem spec =
     (let isuser = offset spec (''%systemd-unit user'' @ [newline]) \<noteq> None;
          issystem = offset spec (''%systemd-unit system'' @ [newline]) \<noteq> None;
          nsoc = offset spec ''%systemd-unit socket '';
          nsrv = offset spec ''%systemd-unit service '';
          wanted = offset spec ''%systemd-unit wanted-by '';
          scope = (if isuser \<noteq> issystem then if isuser then unitscope_user else unitscope_system
                   else unitscope_unknown);
          (utype, name, mem1) =
            (case (nsoc, nsrv) of
               (Some (_, arg), None) \<Rightarrow> (unittype_socket, strndup mem (unit_word arg))
             | (None, Some (_, arg)) \<Rightarrow> (unittype_service, strndup mem (unit_word arg))
             | _ \<Rightarrow> (unittype_unknown, None, mem));
          (wanted_by, mem2) =
            (case wanted of Some (_, arg) \<Rightarrow> strndup mem1 (unit_word arg) | None \<Rightarrow> (None, mem1))
      in (\<lparr>u_scope = scope, u_type = utype, u_name = name, u_content = pack spec (CHR ''%''),
           u_wanted_by = wanted_by\<rparr>, mem2))"

text \<open>
  One turn of the loop on the units: the status \<open>rc2\<close> of the turn, the corpus that remains
  (\<open>None\<close> ends the loop) and the unit found.
\<close>

type_synonym split_turn = "int \<times> string option \<times> unitdesc option \<times> mem"

definition tag_unit :: string where "tag_unit = ''systemd-unit'' @ [newline]"

definition corpus_unit :: "mem \<Rightarrow> string \<Rightarrow> string \<Rightarrow> split_turn" where
  "corpus_unit mem spec aftend =
     (case matches tag_unit spec of
        Some beg \<Rightarrow>
          (case matches tag_unit aftend of
             None \<Rightarrow> (- EINVAL, Some aftend, None, mem)
           | Some corpus \<Rightarrow>
               let (ok, mem1) = c_alloc mem
               in if \<not> ok then (- ENOMEM, None, None, mem1)
                  else let (u, mem2) = process_one_unit mem1 beg in (0, Some corpus, Some u, mem2))
      | None \<Rightarrow> (- EINVAL, Some aftend, None, mem))"

definition corpus_turn :: "mem \<Rightarrow> string \<Rightarrow> split_turn" where
  "corpus_turn mem corpus =
     (case (offset corpus ''%begin '', offset corpus ''%end '') of
        (None, None) \<Rightarrow> (0, None, None, mem)
      | (None, Some _) \<Rightarrow> (- EINVAL, None, None, mem)
      | (Some _, None) \<Rightarrow> (- EINVAL, None, None, mem)
      | (Some (befbeg, beg), Some (end, aftend)) \<Rightarrow>
          if length befbeg < length end then (- EINVAL, None, None, mem)
          else if (case offset beg ''%begin '' of Some (bef, _) \<Rightarrow> length end < length bef | None \<Rightarrow> False)
          then (- EINVAL, None, None, mem)
          else corpus_unit mem (take (length beg - length end) beg) aftend)"

lemma matches_shorter: "matches pattern str = Some r \<Longrightarrow> length r \<le> length str"
proof (induction pattern arbitrary: str)
  case (Cons p pattern)
  have blank: "length (dropWhile isblank b) \<le> length b" for b
    by (simp add: length_dropWhile_le)
  obtain str' where "matches pattern str' = Some r" and "length str' \<le> length str"
    using Cons.prems blank [of str] blank [of "tl str"]
    by (cases "p = newline"; cases "p = CHR '' ''"; cases str; cases "dropWhile isblank str")
      (auto split: if_splits)
  with Cons.IH [of str'] show ?case by simp
qed simp

lemma offset_shorter:
  "offset str pattern = Some (l, r) \<Longrightarrow> length l \<le> length str \<and> matches pattern l = Some r"
proof (induction str pattern rule: offset.induct)
  case (1 str pattern)
  from 1(2) show ?case
    unfolding offset.simps [of str pattern]
    using 1(1) nextline_shorter [of str] by (fastforce split: option.splits)
qed

lemma matches_tag_shorter: "matches (CHR ''%'' # pattern) l = Some r \<Longrightarrow> length r < length l"
  by (auto split: list.splits if_splits dest: matches_shorter)

lemma corpus_turn_shorter:
  assumes "corpus_turn mem corpus = (rc, Some corpus', u, mem')"
  shows "length corpus' < length corpus"
proof -
  obtain l aftend where e: "offset corpus ''%end '' = Some (l, aftend)"
    and le: "length corpus' \<le> length aftend"
    using assms
    by (auto simp: corpus_turn_def corpus_unit_def case_prod_unfold Let_def split: option.splits if_splits dest: matches_shorter)
  from e have "length aftend < length corpus"
    using offset_shorter [OF e] matches_tag_shorter [of _ l aftend] by fastforce
  with le show ?thesis by simp
qed

function corpus_loop :: "mem \<Rightarrow> string option \<Rightarrow> unitdesc list \<Rightarrow> int \<Rightarrow> int \<times> unitdesc list \<times> mem" where
  "corpus_loop mem None units rc = (rc, units, mem)"
| "corpus_loop mem (Some corpus) units rc =
     (let (rc2, corpus', u, mem') = corpus_turn mem corpus
      in corpus_loop mem' corpus' (case u of Some u' \<Rightarrow> units @ [u'] | None \<Rightarrow> units)
           (if rc2 < 0 \<and> rc = 0 then rc2 else rc))"
  by pat_completeness auto
termination
  by (relation "measure (\<lambda>(mem, corpus, units, rc). case corpus of None \<Rightarrow> 0 | Some c \<Rightarrow> Suc (length c))")
    (auto split: option.splits dest: corpus_turn_shorter [OF sym])

definition corpus_split :: "mem \<Rightarrow> string \<Rightarrow> int \<times> unitdesc list \<times> mem" where
  "corpus_split mem corpus =
     (let (rc, units, mem') = corpus_loop mem (Some corpus) [] 0
      in if rc \<ge> 0 then (int (length units), units, mem') else (rc, [], mem'))"

section \<open>Template\<close>

record 'j unit_services =
  us_file_get :: "string \<Rightarrow> int \<times> string"
  us_apply_mustach :: "string \<Rightarrow> 'j \<Rightarrow> int \<times> string"
  us_fwk_unit_conf :: string

definition unit_process_close_template :: "string option \<Rightarrow> string option" where
  "unit_process_close_template template = None"

text \<open>A file that cannot be read gives no template.\<close>

definition unit_process_open_template ::
  "'j unit_services \<Rightarrow> string option \<Rightarrow> string option \<Rightarrow> int \<times> string option" where
  "unit_process_open_template us filename template =
     (let template1 = unit_process_close_template template;
          (rc, content) = us_file_get us (case filename of Some f \<Rightarrow> f | None \<Rightarrow> us_fwk_unit_conf us)
      in if rc = 0 then (rc, Some (pack content (CHR '';''))) else (rc, template1))"

definition unit_process_raw ::
  "'j unit_services \<Rightarrow> 'j \<Rightarrow> ('s \<Rightarrow> string \<Rightarrow> int \<times> 's) \<Rightarrow> 's \<Rightarrow> string option \<Rightarrow> int \<times> 's \<times> string option" where
  "unit_process_raw us jdesc process s template =
     (let (rc, template1) =
        (if template \<noteq> None then (0, template) else unit_process_open_template us None template)
      in if rc \<noteq> 0 then (rc, s, template1)
         else let (rc, instance) = us_apply_mustach us (the template1) jdesc
              in if rc \<noteq> 0 then (rc, s, template1)
                 else let (rc, s') = process s (dedup_slashes instance) in (rc, s', template1))"

text \<open>The closure is paired with the allocations.\<close>

definition internal_for_split ::
  "('s \<Rightarrow> unitdesc list \<Rightarrow> int \<times> 's) option \<Rightarrow> 's \<times> mem \<Rightarrow> string \<Rightarrow> int \<times> 's \<times> mem" where
  "internal_for_split process cl corpus =
     (let (s, mem) = cl; (rc, units, mem') = corpus_split mem corpus
      in if rc > 0 then
           (case process of
              Some f \<Rightarrow> let (rc', s') = f s units in (rc', s', mem')
            | None \<Rightarrow> (rc, s, mem'))
         else (rc, s, mem'))"

definition unit_process_split ::
  "'j unit_services \<Rightarrow> 'j \<Rightarrow> ('s \<Rightarrow> unitdesc list \<Rightarrow> int \<times> 's) option \<Rightarrow> 's \<times> mem \<Rightarrow> string option \<Rightarrow>
   int \<times> ('s \<times> mem) \<times> string option" where
  "unit_process_split us jdesc process cl template =
     unit_process_raw us jdesc (internal_for_split process) cl template"

section \<open>Texts by lines\<close>

lemma unlines_simps [simp]:
  "unlines [] = []" "unlines (l # ls) = l @ newline # unlines ls"
  by (simp_all add: unlines_def)

definition is_line :: "string \<Rightarrow> bool" where
  "is_line l \<longleftrightarrow> newline \<notin> set l"

lemma is_line_Cons [simp]: "is_line [] " "is_line (c # l) \<longleftrightarrow> c \<noteq> newline \<and> is_line l"
  by (auto simp: is_line_def)

subsection \<open>Packing\<close>

text \<open>What packing makes of a line that is not continued.\<close>

definition packed_line :: "char \<Rightarrow> string \<Rightarrow> string" where
  "packed_line purge l =
     (let s = dropWhile isblank l in
      if s = [] then []
      else if purge \<noteq> CHR 0x00 \<and> hd s = purge then if tl s = ''nl'' then [newline] else []
      else s @ [newline])"

definition plain_line :: "string \<Rightarrow> bool" where
  "plain_line l \<longleftrightarrow> is_line l \<and> (l = [] \<or> last l \<noteq> CHR 0x5C)"

lemma take_newline [simp]:
  "is_line l \<Longrightarrow> take (Suc 0) (l @ newline # rest) = [newline] \<longleftrightarrow> l = []"
  by (cases l) auto

lemma isblank_newline [simp]: "isblank newline = False"
  by (simp add: isblank_def)

lemma pack_scan_tail:
  assumes "is_line l" and "l = [] \<or> last l \<noteq> CHR 0x5C"
  shows "pack_scan (l @ newline # rest) True n (Some s) = (True, n, Some s, rest)"
  using assms by (induction l) (auto simp del: take_append split: if_splits)

lemma pack_scan_line:
  assumes "is_line l" and "l = [] \<or> last l \<noteq> CHR 0x5C"
  shows "pack_scan (l @ newline # rest) False n None =
     (if dropWhile isblank l = [] then (False, n, None, rest)
      else (True, n, Some (dropWhile isblank l @ newline # rest), rest))"
  using assms
proof (induction l)
  case (Cons c l)
  show ?case
  proof (cases "isblank c")
    case True
    with Cons show ?thesis by (cases "l = []") (auto simp del: take_append)
  next
    case False
    with Cons.prems pack_scan_tail [of l rest n] show ?thesis
      by (auto simp del: take_append split: if_splits)
  qed
qed simp

lemma take_newline_line:
  assumes "is_line l" shows "take 3 (l @ newline # rest) = ''nl'' @ [newline] \<longleftrightarrow> l = ''nl''"
proof -
  consider "l = []" | a where "l = [a]" | a b where "l = [a, b]" | a b c m where "l = a # b # c # m"
    by (metis list.exhaust)
  then show ?thesis using assms by cases auto
qed

lemma pack_loop_line:
  assumes "plain_line l"
  shows "pack_loop purge (l @ newline # rest) False = packed_line purge l @ pack_loop purge rest False"
proof -
  have line: "is_line l" "l = [] \<or> last l \<noteq> CHR 0x5C"
    using assms by (auto simp: plain_line_def)
  have drop: "is_line (dropWhile isblank l)"
    using line(1) by (auto simp: is_line_def dest: set_dropWhileD)
  have "pack_line purge False (l @ newline # rest) = (packed_line purge l, False, rest)"
  proof (cases "dropWhile isblank l")
    case Nil
    then show ?thesis
      by (simp add: pack_line_def pack_scan_line [OF line] packed_line_def)
  next
    case (Cons c m)
    then have "take 3 (m @ newline # rest) = ''nl'' @ [newline] \<longleftrightarrow> m = ''nl''"
      using drop by (intro take_newline_line) simp
    with Cons show ?thesis
      by (simp add: pack_line_def pack_scan_line [OF line] packed_line_def Let_def)
  qed
  then show ?thesis
    by (subst pack_loop.simps) simp
qed

lemma pack_loop_Nil [simp]: "pack_loop purge [] n = []"
  by (subst pack_loop.simps) simp

text \<open>Packing a text whose lines are not continued drops its blank lines and its lines starting with
  the purge character, keeps an empty line for each line made of that character followed by
  \<open>nl\<close>, and removes the blanks on the left of the others.\<close>

theorem pack_by_lines:
  assumes "\<forall>l \<in> set ls. plain_line l"
  shows "pack (unlines ls) purge = concat (map (packed_line purge) ls)"
  using assms unfolding pack_def
  by (induction ls) (simp_all add: pack_loop_line)

theorem pack_by_lines_witness:
  "pack (unlines [''%systemd-unit user'', '''', ''  [Unit]'', ''%nl'', ''A=b'']) (CHR ''%'') =
     ''[Unit]'' @ [newline, newline] @ ''A=b'' @ [newline]"
  using pack_by_lines [of "[''%systemd-unit user'', '''', ''  [Unit]'', ''%nl'', ''A=b'']" "CHR ''%''"]
  by (simp add: plain_line_def packed_line_def isblank_def)

subsection \<open>Slashes\<close>

definition dedup_out :: "string \<Rightarrow> nat \<Rightarrow> string \<Rightarrow> string" where
  "dedup_out w n t = drop (length w) (dedup_loop w n t)"

lemma dedup_loop_prefix: "\<exists>x. dedup_loop w n t = w @ x"
proof (induction w n t rule: dedup_loop.induct)
  case (1 w n t)
  show ?case
  proof (cases t)
    case (Cons c r)
    let ?s = "take (slashes_allowed w) (takeWhile (\<lambda>c. c = CHR ''/'') t)"
    consider "c = newline" | "c \<noteq> newline" "c \<noteq> CHR ''/''" | "c = CHR ''/''" by blast
    then show ?thesis
    proof cases
      case 1
      with Cons "1.IH"(1) [OF Cons 1] show ?thesis
        by (subst dedup_loop.simps) (auto split: if_splits)
    next
      case 2
      with Cons "1.IH"(2) [OF Cons 2] show ?thesis
        by (subst dedup_loop.simps) auto
    next
      case 3
      have "c \<noteq> newline" "\<not> c \<noteq> CHR ''/''" using 3 by simp_all
      from "1.IH"(3) [OF Cons this] Cons 3 show ?thesis
        by (subst dedup_loop.simps) auto
    qed
  qed (subst dedup_loop.simps, simp)
qed

lemma dedup_loop_out: "dedup_loop w n t = w @ dedup_out w n t"
  using dedup_loop_prefix [of w n t] by (auto simp: dedup_out_def)

lemma dedup_out_simps:
  "dedup_out w n [] = []"
  "dedup_out w n (newline # r) = (if n = 0 then newline # dedup_out (w @ [newline]) 1 r else dedup_out w (Suc n) r)"
  "c \<noteq> newline \<Longrightarrow> c \<noteq> CHR ''/'' \<Longrightarrow> dedup_out w n (c # r) = c # dedup_out (w @ [c]) 0 r"
  "dedup_out w n (CHR ''/'' # r) =
     (let s = take (slashes_allowed w) (CHR ''/'' # takeWhile (\<lambda>c. c = CHR ''/'') r)
      in s @ dedup_out (w @ s) 0 (dropWhile (\<lambda>c. c = CHR ''/'') r))"
  unfolding dedup_out_def [of w n] dedup_loop.simps [of w n "[]"] dedup_loop.simps [of w n "_ # _"]
  by (simp_all add: dedup_loop_out Let_def)

lemma dedup_out_many: "dedup_out w (Suc n) t = dedup_out w 1 t"
proof (induction t arbitrary: n)
  case (Cons c r)
  have "dedup_out w (Suc (Suc n)) r = dedup_out w (Suc 1) r"
    using Cons.IH [of "Suc n"] Cons.IH [of 1] by simp
  then show ?case
    by (cases "c = newline"; cases "c = CHR ''/''") (simp_all add: dedup_out_simps)
qed (simp add: dedup_out_simps)

lemma dedup_out_no_slash:
  "t = [] \<or> hd t \<noteq> CHR ''/'' \<Longrightarrow> takeWhile (\<lambda>c. c = CHR ''/'') (dedup_out w 0 t) = []"
  by (cases t; cases "hd t = newline") (simp_all add: dedup_out_simps)

lemma slashes_allowed_pos: "0 < slashes_allowed w"
  by (simp add: slashes_allowed_def)

lemma take_slashes: "take k (takeWhile (\<lambda>c. c = x) t) = replicate (min k (length (takeWhile (\<lambda>c. c = x) t))) x"
proof -
  have "takeWhile (\<lambda>c. c = x) t = replicate (length (takeWhile (\<lambda>c. c = x) t)) x"
    by (intro replicate_eqI) (auto dest: set_takeWhileD)
  then show ?thesis by (metis take_replicate)
qed

lemma takeWhile_replicate_append:
  "takeWhile (\<lambda>c. c = x) (replicate k x @ t) = replicate k x @ takeWhile (\<lambda>c. c = x) t"
  "dropWhile (\<lambda>c. c = x) (replicate k x @ t) = dropWhile (\<lambda>c. c = x) t"
  by (induction k) auto

text \<open>A run of at most \<open>slashes_allowed\<close> slashes is written as it is.\<close>

lemma dedup_out_run:
  assumes "0 < k" "k \<le> slashes_allowed w" "takeWhile (\<lambda>c. c = CHR ''/'') t = []"
  shows "dedup_out w n (replicate k (CHR ''/'') @ t) =
     replicate k (CHR ''/'') @ dedup_out (w @ replicate k (CHR ''/'')) 0 t"
proof -
  obtain m where k: "k = Suc m" using assms(1) by (cases k) auto
  have "dropWhile (\<lambda>c. c = CHR ''/'') t = t"
    using assms(3) by (metis append.left_neutral takeWhile_dropWhile_id)
  moreover have "take (slashes_allowed w) (CHR ''/'' # replicate m (CHR ''/'')) = CHR ''/'' # replicate m (CHR ''/'')"
    using assms(2) k by simp
  ultimately show ?thesis
    unfolding k using assms(3) by (simp add: dedup_out_simps takeWhile_replicate_append Let_def)
qed

lemma dedup_out_fixed: "dedup_out w n (dedup_out w n t) = dedup_out w n t"
proof (induction t arbitrary: w n rule: length_induct)
  case (1 t)
  show ?case
  proof (cases t)
    case (Cons c r)
    consider "c = newline" "n = 0" | m where "c = newline" "n = Suc m" | "c \<noteq> newline" "c \<noteq> CHR ''/''" | "c = CHR ''/''"
      by (cases n) auto
    then show ?thesis
    proof cases
      case 2
      have one: "dedup_out w n x = dedup_out w 1 x" for x
        unfolding 2 by (rule dedup_out_many)
      have "dedup_out w n t = dedup_out w 1 r"
        unfolding Cons 2 using dedup_out_many [of w "Suc m" r] by (simp add: dedup_out_simps)
      then show ?thesis
        unfolding one using 1 [rule_format, of r w 1] Cons by simp
    next
      case 4
      let ?k = "min (slashes_allowed w) (length (takeWhile (\<lambda>c. c = CHR ''/'') t))"
      let ?s = "replicate ?k (CHR ''/'')" and ?r = "dropWhile (\<lambda>c. c = CHR ''/'') r"
      have "takeWhile (\<lambda>c. c = CHR ''/'') t = CHR ''/'' # takeWhile (\<lambda>c. c = CHR ''/'') r"
        using Cons 4 by simp
      then have s: "take (slashes_allowed w) (CHR ''/'' # takeWhile (\<lambda>c. c = CHR ''/'') r) = ?s"
        using take_slashes [of "slashes_allowed w" "CHR ''/''" t] by simp
      have out: "dedup_out w n t = ?s @ dedup_out (w @ ?s) 0 ?r"
        unfolding Cons 4 dedup_out_simps(4) Let_def s [unfolded Cons 4] ..
      have ih: "dedup_out (w @ ?s) 0 (dedup_out (w @ ?s) 0 ?r) = dedup_out (w @ ?s) 0 ?r"
        using 1 [rule_format, of ?r] Cons length_dropWhile_le [of "\<lambda>c. c = CHR ''/''" r] by simp
      have "?r = [] \<or> hd ?r \<noteq> CHR ''/''"
        using hd_dropWhile [of "\<lambda>c. c = CHR ''/''" r] by auto
      then have "takeWhile (\<lambda>c. c = CHR ''/'') (dedup_out (w @ ?s) 0 ?r) = []"
        by (rule dedup_out_no_slash)
      moreover have "0 < ?k" using Cons 4 slashes_allowed_pos by simp
      ultimately show ?thesis
        unfolding out using dedup_out_run [of ?k w "dedup_out (w @ ?s) 0 ?r" n] ih by simp
    qed (use 1 Cons in \<open>auto simp: dedup_out_simps\<close>)
  qed (simp add: dedup_out_simps)
qed

lemma dedup_out_length: "length (dedup_out w n t) \<le> length t"
proof (induction t arbitrary: w n rule: length_induct)
  case (1 t)
  show ?case
  proof (cases t)
    case (Cons c r)
    let ?run = "takeWhile (\<lambda>c. c = CHR ''/'') r" and ?r = "dropWhile (\<lambda>c. c = CHR ''/'') r"
    have len: "length ?run + length ?r = length r"
      by (metis length_append takeWhile_dropWhile_id)
    have ih: "length (dedup_out w' n' r') \<le> length r'" if "length r' \<le> length r" for w' n' r'
      using 1 Cons that by simp
    consider "c = newline" | "c \<noteq> newline" "c \<noteq> CHR ''/''" | "c = CHR ''/''" by blast
    then show ?thesis
    proof cases
      case 3
      have "length (dedup_out w' 0 ?r) \<le> length ?r" for w'
        using len by (intro ih) simp
      then have "length (dedup_out w' 0 ?r) \<le> length ?r" for w' .
      moreover have "length (take k (CHR ''/'' # ?run)) \<le> Suc (length ?run)" for k
        by simp
      ultimately have "length (take k (CHR ''/'' # ?run) @ dedup_out w' 0 ?r) \<le> Suc (length r)" for k w'
        unfolding length_append len [symmetric] by (metis add_Suc add_le_mono)
      then show ?thesis
        unfolding Cons 3 dedup_out_simps(4) Let_def by simp
    qed (use ih [OF order_refl] Cons in \<open>auto simp: dedup_out_simps le_SucI\<close>)
  qed (simp add: dedup_out_simps)
qed

text \<open>The removal of duplicate slashes and of empty lines never makes a text longer, so that it can
  be done in place, and a second removal changes nothing: the slashes allowed after
  \<open>http:\<close>, \<open>https:\<close> and \<open>file:\<close> are the same.\<close>

theorem dedup_slashes_idempotent:
  "dedup_slashes (dedup_slashes str) = dedup_slashes str \<and> length (dedup_slashes str) \<le> length str"
  using dedup_out_fixed [of "[]" NRNLMAX str] dedup_out_length [of "[]" NRNLMAX str]
  by (simp add: dedup_slashes_def dedup_loop_out)

subsection \<open>Corpus\<close>

text \<open>A corpus made of blocks, and the lines a block may hold.\<close>

definition unit_block :: "string list \<Rightarrow> string" where
  "unit_block ls = ''%begin systemd-unit'' @ newline # unlines ls @ ''%end systemd-unit'' @ [newline]"

definition inner_line :: "string \<Rightarrow> bool" where
  "inner_line l \<longleftrightarrow> is_line l \<and> matches ''%begin '' l = None \<and> matches ''%end '' l = None"

lemma dropWhile_blank_line:
  "dropWhile isblank (l @ newline # rest) = dropWhile isblank l @ newline # rest"
  by (induction l) auto

lemma matches_line:
  assumes "newline \<notin> set pat"
  shows "matches pat (l @ newline # rest) = map_option (\<lambda>r. r @ newline # rest) (matches pat l)"
  using assms
proof (induction pat arbitrary: l)
  case (Cons p pat)
  then have "p \<noteq> newline" by auto
  with Cons show ?case
    by (cases l) (auto simp: dropWhile_blank_line)
qed simp

lemma nextline_line: "is_line l \<Longrightarrow> nextline (l @ newline # rest) = Some rest"
  by (induction l) (auto simp: nextline_def)

lemma offset_skip:
  assumes "is_line l" "newline \<notin> set pat" "matches pat l = None"
  shows "offset (l @ newline # rest) pat = offset rest pat"
  using assms matches_line [of pat l rest] nextline_line [of l rest]
  by (subst offset.simps) simp

lemma offset_skip_lines:
  assumes "\<forall>l \<in> set ls. is_line l \<and> matches pat l = None" "newline \<notin> set pat"
  shows "offset (unlines ls @ rest) pat = offset rest pat"
  using assms by (induction ls) (auto simp: offset_skip)

lemma offset_found: "matches pat t = Some r \<Longrightarrow> offset t pat = Some (t, r)"
  by (subst offset.simps) simp

lemma matches_tags:
  "matches ''%begin '' (''%begin systemd-unit'' @ newline # r) = Some (''systemd-unit'' @ newline # r)"
  "matches ''%end '' (''%end systemd-unit'' @ newline # r) = Some (''systemd-unit'' @ newline # r)"
  "matches ''%end '' ''%begin systemd-unit'' = None"
  "matches ''%begin '' ''%end systemd-unit'' = None"
  "matches ''%begin '' ''systemd-unit'' = None"
  "matches tag_unit (''systemd-unit'' @ newline # r) = Some r"
  by (simp_all add: isblank_def tag_unit_def)

lemma take_before: "take (length (a @ b) - length b) (a @ b) = a"
  by simp

lemma corpus_turn_block:
  assumes "\<forall>l \<in> set ls. inner_line l"
  shows "corpus_turn [] (unit_block ls @ rest) = (0, Some rest, Some (fst (process_one_unit [] (unlines ls))), [])"
proof -
  let ?tail = "''%end systemd-unit'' @ newline # rest"
  let ?beg = "''systemd-unit'' @ newline # unlines ls @ ?tail"
  have block: "unit_block ls @ rest = ''%begin systemd-unit'' @ newline # unlines ls @ ?tail"
    by (simp add: unit_block_def)
  have inner: "\<forall>l \<in> set ls. is_line l \<and> matches ''%begin '' l = None"
    "\<forall>l \<in> set ls. is_line l \<and> matches ''%end '' l = None"
    using assms by (simp_all add: inner_line_def)
  have ob: "offset (unit_block ls @ rest) ''%begin '' = Some (unit_block ls @ rest, ?beg)"
    unfolding block by (intro offset_found matches_tags(1))
  have "offset (unit_block ls @ rest) ''%end '' = offset (unlines ls @ ?tail) ''%end ''"
    unfolding block by (rule offset_skip [OF _ _ matches_tags(3)]) (simp_all add: is_line_def)
  also have "\<dots> = offset ?tail ''%end ''"
    by (rule offset_skip_lines [OF inner(2)]) simp
  also have "\<dots> = Some (?tail, ''systemd-unit'' @ newline # rest)"
    by (intro offset_found matches_tags(2))
  finally have oe: "offset (unit_block ls @ rest) ''%end '' = Some (?tail, ''systemd-unit'' @ newline # rest)" .
  have "offset ?beg ''%begin '' = offset (unlines ls @ ?tail) ''%begin ''"
    by (rule offset_skip [OF _ _ matches_tags(5)]) (simp_all add: is_line_def)
  also have "\<dots> = offset ?tail ''%begin ''"
    by (rule offset_skip_lines [OF inner(1)]) simp
  also have "\<dots> = offset rest ''%begin ''"
    by (rule offset_skip [OF _ _ matches_tags(4)]) (simp_all add: is_line_def)
  finally have ob2: "offset ?beg ''%begin '' = offset rest ''%begin ''" .
  have no: "\<not> (case offset ?beg ''%begin '' of Some (bef, _) \<Rightarrow> length ?tail < length bef | None \<Rightarrow> False)"
    unfolding ob2 by (auto split: option.splits dest: offset_shorter)
  have len: "\<not> length (unit_block ls @ rest) < length ?tail"
    by (simp add: block)
  have spec: "take (length ?beg - length ?tail) ?beg = ''systemd-unit'' @ newline # unlines ls"
    using take_before [of "''systemd-unit'' @ newline # unlines ls" ?tail]
    by (simp only: append_assoc append_Cons append_Nil)
  have mem: "snd (process_one_unit [] x) = []" for x
    by (simp add: process_one_unit_def strndup_def Let_def split: option.splits)
  have "corpus_turn [] (unit_block ls @ rest) =
      corpus_unit [] (take (length ?beg - length ?tail) ?beg) (''systemd-unit'' @ newline # rest)"
    unfolding corpus_turn_def ob oe using no len by (simp only: prod.case option.case if_False)
  also have "\<dots> = (0, Some rest, Some (fst (process_one_unit [] (unlines ls))), [])"
    unfolding spec corpus_unit_def matches_tags(6) using mem [of "unlines ls"]
    by (simp add: case_prod_unfold)
  finally show ?thesis .
qed

lemma corpus_turn_empty: "corpus_turn [] [] = (0, None, None, [])"
  by code_simp

lemma corpus_loop_blocks:
  assumes "\<forall>ls \<in> set bodies. \<forall>l \<in> set ls. inner_line l"
  shows "corpus_loop [] (Some (concat (map unit_block bodies))) us 0 =
     (0, us @ map (\<lambda>ls. fst (process_one_unit [] (unlines ls))) bodies, [])"
  using assms
  by (induction bodies arbitrary: us) (simp_all add: corpus_turn_empty corpus_turn_block)

text \<open>A corpus made of blocks \<^verbatim>\<open>%begin systemd-unit\<close> to \<^verbatim>\<open>%end systemd-unit\<close> whose lines
  start neither a block nor its end is split in exactly its blocks: no error is reported and
  the units are, in order, those described by the lines of the blocks.\<close>

theorem corpus_split_blocks:
  assumes "\<forall>ls \<in> set bodies. \<forall>l \<in> set ls. inner_line l"
  shows "corpus_split [] (concat (map unit_block bodies)) =
     (int (length bodies), map (\<lambda>ls. fst (process_one_unit [] (unlines ls))) bodies, [])"
  unfolding corpus_split_def corpus_loop_blocks [OF assms] by simp

definition demo_body :: "string list" where
  "demo_body = [''%systemd-unit user'', ''%systemd-unit service  afm-a'', ''[Unit]'', ''%nl'', ''  A=b'']"

theorem corpus_split_blocks_witness:
  "corpus_split [] (concat (map unit_block [demo_body])) =
     (1, [\<lparr>u_scope = unitscope_user, u_type = unittype_service, u_name = Some ''afm-a'',
           u_content = ''[Unit]'' @ [newline, newline] @ ''A=b'' @ [newline], u_wanted_by = None\<rparr>], [])"
proof -
  have "\<forall>ls \<in> set [demo_body]. \<forall>l \<in> set ls. inner_line l"
    by (simp add: demo_body_def inner_line_def)
  moreover have "fst (process_one_unit [] (unlines demo_body)) =
     \<lparr>u_scope = unitscope_user, u_type = unittype_service, u_name = Some ''afm-a'',
           u_content = ''[Unit]'' @ [newline, newline] @ ''A=b'' @ [newline], u_wanted_by = None\<rparr>"
    by code_simp
  ultimately show ?thesis
    using corpus_split_blocks [of "[demo_body]"] by simp
qed

end
