(* ===== verification/Mustach.thy ===== *)
theory Mustach
  imports AFM_Prelude
begin

text \<open>
  The template engine (\<^verbatim>\<open>src/src/mustach/mustach.c\<close>).

  A pointer in the template is the text that remains from it. The callbacks of the interface
  act on a state \<open>'e\<close>, their closure; what they write is given back as text. The processing
  of a template may be endless, for a section that never ends or a partial that includes
  itself: it is bounded by fuel, and \<open>None\<close> tells that the fuel is exhausted. \<open>Undefined\<close>
  stands for reading before the begin of a tag that is empty.
\<close>

section \<open>Interface\<close>

definition MUSTACH_MAX_DEPTH :: nat where "MUSTACH_MAX_DEPTH = 256"
definition MUSTACH_MAX_LENGTH :: nat where "MUSTACH_MAX_LENGTH = 4096"
definition MUSTACH_MAX_DELIM_LENGTH :: nat where "MUSTACH_MAX_DELIM_LENGTH = 8"

definition MUSTACH_ERROR_SYSTEM :: int where [simp]: "MUSTACH_ERROR_SYSTEM = - 1"
definition MUSTACH_ERROR_UNEXPECTED_END :: int where [simp]: "MUSTACH_ERROR_UNEXPECTED_END = - 2"
definition MUSTACH_ERROR_EMPTY_TAG :: int where [simp]: "MUSTACH_ERROR_EMPTY_TAG = - 3"
definition MUSTACH_ERROR_TAG_TOO_LONG :: int where [simp]: "MUSTACH_ERROR_TAG_TOO_LONG = - 4"
definition MUSTACH_ERROR_BAD_SEPARATORS :: int where [simp]: "MUSTACH_ERROR_BAD_SEPARATORS = - 5"
definition MUSTACH_ERROR_TOO_DEEP :: int where [simp]: "MUSTACH_ERROR_TOO_DEEP = - 6"
definition MUSTACH_ERROR_CLOSING :: int where [simp]: "MUSTACH_ERROR_CLOSING = - 7"
definition MUSTACH_ERROR_BAD_UNESCAPE_TAG :: int where [simp]: "MUSTACH_ERROR_BAD_UNESCAPE_TAG = - 8"
definition MUSTACH_ERROR_INVALID_ITF :: int where [simp]: "MUSTACH_ERROR_INVALID_ITF = - 9"

record 'e iwrap =
  iw_emit :: "'e \<Rightarrow> string \<Rightarrow> bool \<Rightarrow> int \<times> string"
  iw_put :: "'e \<Rightarrow> string \<Rightarrow> bool \<Rightarrow> int \<times> string"
  iw_enter :: "'e \<Rightarrow> string \<Rightarrow> int \<times> 'e"
  iw_next :: "'e \<Rightarrow> int \<times> 'e"
  iw_leave :: "'e \<Rightarrow> int \<times> 'e"
  iw_partial :: "'e \<Rightarrow> string \<Rightarrow> int \<times> string"
  iw_colon :: bool
  iw_emptytag :: bool

section \<open>Text\<close>

text \<open>The default \<^verbatim>\<open>emit\<close>; the file takes all that is written.\<close>

definition escape_char :: "char \<Rightarrow> string" where
  "escape_char c =
     (if c = CHR ''<'' then ''&lt;'' else if c = CHR ''>'' then ''&gt;'' else if c = CHR ''&'' then ''&amp;''
      else if c = CHR 0x22 then ''&quot;'' else [c])"

definition iwrap_emit :: "'e \<Rightarrow> string \<Rightarrow> bool \<Rightarrow> int \<times> string" where
  "iwrap_emit e buffer escape = (0, if escape then concat (map escape_char buffer) else buffer)"

fun emitprefix :: "'e iwrap \<Rightarrow> 'e \<Rightarrow> string list \<Rightarrow> int \<times> string" where
  "emitprefix iw e [] = (0, [])"
| "emitprefix iw e (p # ps) =
     (let (rc, out) = (if p = [] then (0, []) else iw_emit iw e p False) in
      if rc < 0 then (rc, out) else let (rc', out') = emitprefix iw e ps in (rc', out @ out'))"

section \<open>Processing\<close>

record frame =
  fr_name :: string
  fr_again :: string
  fr_enabled :: bool
  fr_entered :: bool

text \<open>
  The local variables of \<^verbatim>\<open>process\<close>: the delimiters, the stack, the marks, and the prefix, as
  the prefixes of the callers and the text before the tag.
\<close>

record pvars =
  pv_op :: string
  pv_cl :: string
  pv_stack :: "frame list"
  pv_enabled :: bool
  pv_stdalone :: nat
  pv_outer :: "string list"
  pv_pref :: string

definition pv_initial :: "string list \<Rightarrow> pvars" where
  "pv_initial outer =
     \<lparr>pv_op = ''{{'', pv_cl = ''}}'', pv_stack = [], pv_enabled = True, pv_stdalone = 1, pv_outer = outer, pv_pref = []\<rparr>"

definition emit_pref :: "'e iwrap \<Rightarrow> 'e \<Rightarrow> pvars \<Rightarrow> int \<times> string" where
  "emit_pref iw e v = emitprefix iw e (pv_outer v @ [pv_pref v])"

text \<open>
  The search of the next opening delimiter: \<open>acc\<close> is the text already passed of the line or
  since the last tag. It ends the processing, or gives the text before the tag, the text
  after the delimiter and the variables.
\<close>

datatype scan_result = Scan_end int | Scan_tag string string pvars

definition scan_line :: "'e iwrap \<Rightarrow> 'e \<Rightarrow> pvars \<Rightarrow> string \<Rightarrow> string \<Rightarrow> int \<times> string" where
  "scan_line iw e v acc nl =
     (if pv_stdalone v = 2 \<or> \<not> pv_enabled v then (0, [])
      else let (rc, out) = (if acc \<noteq> [] then emit_pref iw e v else (0, [])) in
        if rc < 0 then (rc, out)
        else let (rc', out') = iw_emit iw e (acc @ nl) False in (rc', out @ out'))"

fun scan :: "'e iwrap \<Rightarrow> 'e \<Rightarrow> string list \<Rightarrow> pvars \<Rightarrow> string \<Rightarrow> string \<Rightarrow> scan_result \<times> string" where
  "scan iw e outer v acc [] =
     (let (rc, out) = scan_line iw e v acc []
      in (Scan_end (if rc < 0 then rc else if pv_stack v \<noteq> [] then MUSTACH_ERROR_UNEXPECTED_END else 0), out))"
| "scan iw e outer v acc (c # s) =
     (if c = newline then
        (let (rc, out) = scan_line iw e v acc [newline] in
         if rc < 0 then (Scan_end rc, out)
         else let (r, out') = scan iw e outer (v\<lparr>pv_stdalone := 1, pv_pref := [], pv_outer := outer\<rparr>) [] s in (r, out @ out'))
      else if c_isspace c then scan iw e outer v (acc @ [c]) s
      else let (rc, out, v1) =
             (if pv_stdalone v = 2 \<and> pv_enabled v
              then let (rc, out) = emit_pref iw e v
                   in (rc, out, v\<lparr>pv_pref := [], pv_stdalone := 0, pv_outer := []\<rparr>)
              else (0, [], v)) in
        if rc < 0 then (Scan_end rc, out)
        else if take (length (pv_op v1)) (c # s) = pv_op v1 then (Scan_tag acc (drop (length (pv_op v1)) (c # s)) v1, out)
        else let (r, out') = scan iw e outer (v1\<lparr>pv_stdalone := 0\<rparr>) (acc @ [c]) s in (r, out @ out'))"

text \<open>The search of the closing delimiter: the tag and the text after the delimiter.\<close>

fun find_close :: "string \<Rightarrow> string \<Rightarrow> (string \<times> string) option" where
  "find_close cl [] = None"
| "find_close cl (c # s) =
     (if take (length cl) (c # s) = cl then Some ([], drop (length cl) (c # s))
      else map_option (\<lambda>(t, r). (c # t, r)) (find_close cl s))"

text \<open>The kind of a tag, its name, the text after it, and whether it may stand alone on its line.\<close>

datatype tag_kind = Tag_comment | Tag_delims | Tag_section | Tag_inverted | Tag_end | Tag_partial | Tag_value | Tag_raw

datatype parsed = Bad_tag int | Undefined | Parsed tag_kind string string bool

definition trim :: "string \<Rightarrow> string" where
  "trim s = rev (dropWhile c_isspace (rev (dropWhile c_isspace s)))"

definition get_name :: "'e iwrap \<Rightarrow> tag_kind \<Rightarrow> string \<Rightarrow> string \<Rightarrow> bool \<Rightarrow> parsed" where
  "get_name iw k tag rest alone =
     (let name = trim tag in
      if name = [] \<and> \<not> iw_emptytag iw then Bad_tag MUSTACH_ERROR_EMPTY_TAG
      else if length name > MUSTACH_MAX_LENGTH then Bad_tag MUSTACH_ERROR_TAG_TOO_LONG
      else Parsed k name rest alone)"

definition exclude_first :: "'e iwrap \<Rightarrow> tag_kind \<Rightarrow> string \<Rightarrow> string \<Rightarrow> bool \<Rightarrow> parsed" where
  "exclude_first iw k tag rest alone = (case tag of [] \<Rightarrow> Undefined | _ # t \<Rightarrow> get_name iw k t rest alone)"

definition parse_tag :: "'e iwrap \<Rightarrow> string \<Rightarrow> string \<Rightarrow> string \<Rightarrow> parsed" where
  "parse_tag iw cl tag rest =
     (let c = hd (tag @ cl) in
      if c = CHR '':'' then (if iw_colon iw then exclude_first iw Tag_value tag rest False else get_name iw Tag_value tag rest False)
      else if c = CHR ''!'' then Parsed Tag_comment tag rest True
      else if c = CHR ''='' then Parsed Tag_delims tag rest True
      else if c = CHR ''{'' then
        (if \<not> list_all (\<lambda>d. d = CHR ''}'') cl
         then (if tag = [] \<or> last tag \<noteq> CHR ''}'' then Bad_tag MUSTACH_ERROR_BAD_UNESCAPE_TAG
               else exclude_first iw Tag_raw (butlast tag) rest False)
         else (if take 1 rest \<noteq> ''}'' then Bad_tag MUSTACH_ERROR_BAD_UNESCAPE_TAG
               else exclude_first iw Tag_raw tag (tl rest) False))
      else if c = CHR ''&'' then exclude_first iw Tag_raw tag rest False
      else if c = CHR ''^'' then exclude_first iw Tag_inverted tag rest True
      else if c = CHR ''#'' then exclude_first iw Tag_section tag rest True
      else if c = CHR ''/'' then exclude_first iw Tag_end tag rest True
      else if c = CHR ''>'' then exclude_first iw Tag_partial tag rest True
      else get_name iw Tag_value tag rest False)"

definition new_delims :: "string \<Rightarrow> (string \<times> string) option" where
  "new_delims tag =
     (if length tag < 5 \<or> last tag \<noteq> CHR ''='' then None
      else let t = trim (butlast (tl tag));
               l = takeWhile (\<lambda>c. \<not> c_isspace c) t;
               r = dropWhile c_isspace (drop (length l) t)
           in if length l = length t \<or> length l > MUSTACH_MAX_DELIM_LENGTH then None
              else if r = [] \<or> length r > MUSTACH_MAX_DELIM_LENGTH then None
              else Some (l, r))"

text \<open>
  The effect of a tag: the status, what is written, the state of the closure, and where and
  with what the processing goes on. \<open>part\<close> is the processing of a partial, which may exhaust
  the fuel.
\<close>

type_synonym 'e tag_effect = "int \<times> string \<times> 'e \<times> pvars \<times> string"

definition tag_section :: "'e iwrap \<Rightarrow> 'e \<Rightarrow> pvars \<Rightarrow> bool \<Rightarrow> string \<Rightarrow> string \<Rightarrow> 'e tag_effect" where
  "tag_section iw e v inverted name rest =
     (if length (pv_stack v) = MUSTACH_MAX_DEPTH then (MUSTACH_ERROR_TOO_DEEP, [], e, v, rest)
      else let (rc, e') = (if pv_enabled v then iw_enter iw e name else (0, e)) in
        if rc < 0 then (rc, [], e', v, rest)
        else (0, [], e',
              v\<lparr>pv_stack := \<lparr>fr_name = name, fr_again = rest, fr_enabled = pv_enabled v, fr_entered = (rc \<noteq> 0)\<rparr> # pv_stack v,
                pv_enabled := pv_enabled v \<and> (\<not> inverted) \<noteq> (rc = 0)\<rparr>, rest))"

definition tag_end :: "'e iwrap \<Rightarrow> 'e \<Rightarrow> pvars \<Rightarrow> string \<Rightarrow> string \<Rightarrow> 'e tag_effect" where
  "tag_end iw e v name rest =
     (case pv_stack v of
        [] \<Rightarrow> (MUSTACH_ERROR_CLOSING, [], e, v, rest)
      | f # fs \<Rightarrow>
          if fr_name f \<noteq> name then (MUSTACH_ERROR_CLOSING, [], e, v, rest)
          else let (rc, e') = (if pv_enabled v \<and> fr_entered f then iw_next iw e else (0, e)) in
            if rc < 0 then (rc, [], e', v, rest)
            else if rc \<noteq> 0 then (0, [], e', v, fr_again f)
            else (0, [], if fr_enabled f \<and> fr_entered f then snd (iw_leave iw e') else e',
                  v\<lparr>pv_stack := fs, pv_enabled := fr_enabled f\<rparr>, rest))"

definition tag_effect ::
  "(string list \<Rightarrow> 'e \<Rightarrow> string \<Rightarrow> (int \<times> string \<times> 'e) option) \<Rightarrow> 'e iwrap \<Rightarrow> 'e \<Rightarrow> pvars \<Rightarrow> tag_kind \<Rightarrow> string \<Rightarrow> string \<Rightarrow> 'e tag_effect option" where
  "tag_effect part iw e v k name rest =
     (case k of
        Tag_comment \<Rightarrow> Some (0, [], e, v, rest)
      | Tag_delims \<Rightarrow>
          (case new_delims name of
             None \<Rightarrow> Some (MUSTACH_ERROR_BAD_SEPARATORS, [], e, v, rest)
           | Some (op, cl) \<Rightarrow> Some (0, [], e, v\<lparr>pv_op := op, pv_cl := cl\<rparr>, rest))
      | Tag_section \<Rightarrow> Some (tag_section iw e v False name rest)
      | Tag_inverted \<Rightarrow> Some (tag_section iw e v True name rest)
      | Tag_end \<Rightarrow> Some (tag_end iw e v name rest)
      | Tag_partial \<Rightarrow>
          if \<not> pv_enabled v then Some (0, [], e, v, rest)
          else let (rc, content) = iw_partial iw e name in
            if rc < 0 then Some (rc, [], e, v, rest)
            else map_option (\<lambda>(rc, out, e'). (rc, out, e', v, rest)) (part (pv_outer v @ [pv_pref v]) e content)
      | _ \<Rightarrow>
          if \<not> pv_enabled v then Some (0, [], e, v, rest)
          else let (rc, out) = iw_put iw e name (k = Tag_value) in Some (rc, out, e, v, rest))"

text \<open>What is written before the effect of a tag that does not stand alone.\<close>

definition settle_tag :: "'e iwrap \<Rightarrow> 'e \<Rightarrow> pvars \<Rightarrow> string \<Rightarrow> bool \<Rightarrow> int \<times> string \<times> pvars" where
  "settle_tag iw e v before alone =
     (let v1 = v\<lparr>pv_pref := if pv_enabled v then before else [], pv_stdalone := if alone then pv_stdalone v else 0\<rparr> in
      if pv_stdalone v1 \<noteq> 0 then (0, [], v1\<lparr>pv_stdalone := 2\<rparr>)
      else if pv_enabled v then (let (rc, out) = emit_pref iw e v1 in (rc, out, v1\<lparr>pv_pref := [], pv_outer := []\<rparr>))
      else (0, [], v1))"

fun process_loop ::
  "nat \<Rightarrow> 'e iwrap \<Rightarrow> string list \<Rightarrow> 'e \<Rightarrow> pvars \<Rightarrow> string \<Rightarrow> (int \<times> string \<times> 'e) option" where
  "process_loop 0 iw outer e v s = None"
| "process_loop (Suc n) iw outer e v s =
     (case scan iw e outer v [] s of
        (Scan_end rc, out) \<Rightarrow> Some (rc, out, e)
      | (Scan_tag before s1 v1, out1) \<Rightarrow>
          (case find_close (pv_cl v1) s1 of
             None \<Rightarrow> Some (MUSTACH_ERROR_UNEXPECTED_END, out1, e)
           | Some (tag, s2) \<Rightarrow>
               (case parse_tag iw (pv_cl v1) tag s2 of
                  Bad_tag rc \<Rightarrow> Some (rc, out1, e)
                | Undefined \<Rightarrow> None
                | Parsed k name s3 alone \<Rightarrow>
                    let (rc, out2, v2) = settle_tag iw e v1 before alone in
                    if rc < 0 then Some (rc, out1 @ out2, e)
                    else case tag_effect (\<lambda>p e c. process_loop n iw p e (pv_initial p) c) iw e v2 k name s3 of
                           None \<Rightarrow> None
                         | Some (rc, out3, e', v3, s4) \<Rightarrow>
                             if rc < 0 then Some (rc, out1 @ out2 @ out3, e')
                             else map_option (\<lambda>(rc, out4, e''). (rc, out1 @ out2 @ out3 @ out4, e''))
                                    (process_loop n iw outer e' v3 s4))))"

definition process :: "nat \<Rightarrow> 'e iwrap \<Rightarrow> 'e \<Rightarrow> string \<Rightarrow> (int \<times> string \<times> 'e) option" where
  "process n iw e template = process_loop n iw [] e (pv_initial []) template"

section \<open>Files and memory\<close>

record 'e mustach_itf =
  it_start :: "('e \<Rightarrow> int \<times> 'e) option"
  it_put :: "('e \<Rightarrow> string \<Rightarrow> bool \<Rightarrow> int \<times> string) option"
  it_enter :: "('e \<Rightarrow> string \<Rightarrow> int \<times> 'e) option"
  it_next :: "('e \<Rightarrow> int \<times> 'e) option"
  it_leave :: "('e \<Rightarrow> int \<times> 'e) option"
  it_partial :: "('e \<Rightarrow> string \<Rightarrow> int \<times> string) option"
  it_emit :: "('e \<Rightarrow> string \<Rightarrow> bool \<Rightarrow> int \<times> string) option"
  it_get :: "('e \<Rightarrow> string \<Rightarrow> int \<times> string) option"
  it_stop :: "('e \<Rightarrow> int \<Rightarrow> 'e) option"

definition iwrap_put ::
  "('e \<Rightarrow> string \<Rightarrow> int \<times> string) \<Rightarrow> ('e \<Rightarrow> string \<Rightarrow> bool \<Rightarrow> int \<times> string) \<Rightarrow> 'e \<Rightarrow> string \<Rightarrow> bool \<Rightarrow> int \<times> string" where
  "iwrap_put get emit e name escape =
     (let (rc, val) = get e name in
      if rc < 0 then (rc, []) else if val = [] then (rc, []) else emit e val escape)"

text \<open>The memory for the file of a partial is taken as available.\<close>

definition iwrap_partial :: "('e \<Rightarrow> string \<Rightarrow> bool \<Rightarrow> int \<times> string) \<Rightarrow> 'e \<Rightarrow> string \<Rightarrow> int \<times> string" where
  "iwrap_partial put e name = (let (rc, out) = put e name False in if rc < 0 then (rc, []) else (0, out))"

definition mustach_file ::
  "nat \<Rightarrow> 'e mustach_itf \<Rightarrow> 'e \<Rightarrow> bool \<Rightarrow> bool \<Rightarrow> string \<Rightarrow> (int \<times> string \<times> 'e) option" where
  "mustach_file n itf e colon emptytag template =
     (case (it_enter itf, it_next itf, it_leave itf) of
        (Some enter, Some next, Some leave) \<Rightarrow>
          if it_put itf = None \<and> it_get itf = None then Some (MUSTACH_ERROR_INVALID_ITF, [], e)
          else let emit = (case it_emit itf of Some f \<Rightarrow> f | None \<Rightarrow> iwrap_emit);
                   put = (case it_put itf of Some f \<Rightarrow> f | None \<Rightarrow> iwrap_put (the (it_get itf)) emit);
                   part = (case it_partial itf of Some f \<Rightarrow> f
                           | None \<Rightarrow> (case it_get itf of Some f \<Rightarrow> f | None \<Rightarrow> iwrap_partial put));
                   iw = \<lparr>iw_emit = emit, iw_put = put, iw_enter = enter, iw_next = next, iw_leave = leave,
                         iw_partial = part, iw_colon = colon, iw_emptytag = emptytag\<rparr>;
                   (rc, e1) = (case it_start itf of None \<Rightarrow> (0, e) | Some f \<Rightarrow> f e)
               in map_option (\<lambda>(rc, out, e'). (rc, out, case it_stop itf of None \<Rightarrow> e' | Some f \<Rightarrow> f e' rc))
                    (if rc = 0 then process n iw e1 template else Some (rc, [], e1))
      | _ \<Rightarrow> Some (MUSTACH_ERROR_INVALID_ITF, [], e))"

text \<open>The result is given for a success only. Opening the file in memory may fail.\<close>

definition mustach_mem ::
  "nat \<Rightarrow> mem \<Rightarrow> 'e mustach_itf \<Rightarrow> 'e \<Rightarrow> bool \<Rightarrow> bool \<Rightarrow> string \<Rightarrow> (int \<times> string option \<times> mem) option" where
  "mustach_mem n m itf e colon emptytag template =
     (let (ok, m') = c_alloc m in
      if \<not> ok then Some (MUSTACH_ERROR_SYSTEM, None, m')
      else map_option (\<lambda>(rc, out, e'). if rc < 0 then (rc, None, m') else (0, Some out, m'))
             (mustach_file n itf e colon emptytag template))"

definition fmustach :: "nat \<Rightarrow> 'e mustach_itf \<Rightarrow> 'e \<Rightarrow> string \<Rightarrow> (int \<times> string \<times> 'e) option" where
  "fmustach n itf e template = mustach_file n itf e True True template"

definition mustach :: "nat \<Rightarrow> mem \<Rightarrow> 'e mustach_itf \<Rightarrow> 'e \<Rightarrow> string \<Rightarrow> (int \<times> string option \<times> mem) option" where
  "mustach n m itf e template = mustach_mem n m itf e True True template"

section \<open>Sections are left\<close>

text \<open>
  The contract of the callbacks of sections: a stack of contexts, on which entering pushes, of
  which the next item changes the top, and that leaving pops, except its last context.
\<close>

locale section_stack =
  fixes iw :: "'e iwrap" and stk :: "'e \<Rightarrow> 'c list"
  assumes enter_stack: "iw_enter iw e name = (rc, e') \<Longrightarrow> rc \<ge> 0 \<Longrightarrow> if rc = 0 then stk e' = stk e else \<exists>x. stk e' = x # stk e"
    and next_stack: "iw_next iw e = (rc, e') \<Longrightarrow> rc \<ge> 0 \<Longrightarrow> \<exists>x y cs. stk e = x # cs \<and> stk e' = y # cs"
    and leave_stack: "iw_leave iw e = (rc, e') \<Longrightarrow> stk e = x # cs \<Longrightarrow> cs \<noteq> [] \<Longrightarrow> stk e' = cs"
begin

text \<open>The stack is that of the begin with one context for each entered frame, which was enabled.\<close>

definition stack_ok :: "'c list \<Rightarrow> 'e \<Rightarrow> pvars \<Rightarrow> bool" where
  "stack_ok base e v \<longleftrightarrow>
     base \<noteq> [] \<and> (\<exists>xs. stk e = xs @ base \<and> length xs = length (filter fr_entered (pv_stack v))) \<and>
     list_all (\<lambda>f. fr_entered f \<longrightarrow> fr_enabled f) (pv_stack v)"

lemma stack_ok_cong: "stack_ok base e v \<Longrightarrow> stk e' = stk e \<Longrightarrow> pv_stack v' = pv_stack v \<Longrightarrow> stack_ok base e' v'"
  by (simp add: stack_ok_def)

lemma scan_stack:
  "scan iw e outer v acc s = (Scan_tag before s1 v1, out) \<Longrightarrow> pv_stack v1 = pv_stack v"
proof (induction s arbitrary: v acc out)
  case (Cons c s)
  then show ?case by (auto simp: Let_def split: if_splits prod.splits)
qed (auto split: prod.splits)

lemma scan_end_stack:
  "scan iw e outer v acc s = (Scan_end 0, out) \<Longrightarrow> pv_stack v = []"
proof (induction s arbitrary: v acc out)
  case (Cons c s)
  then show ?case by (fastforce simp: Let_def split: if_splits prod.splits)
qed (auto split: prod.splits if_splits)

lemma settle_stack: "settle_tag iw e v before alone = (rc, out, v') \<Longrightarrow> pv_stack v' = pv_stack v"
  by (auto simp: settle_tag_def Let_def split: if_splits prod.splits)

lemma tag_section_stack:
  assumes "stack_ok base e v" "tag_section iw e v inverted name rest = (rc, out, e', v', s)" "rc \<ge> 0"
  shows "stack_ok base e' v'"
proof (cases "pv_enabled v")
  case True
  obtain r e1 where r: "iw_enter iw e name = (r, e1)" by fastforce
  have *: "r \<ge> 0" "e' = e1"
    "pv_stack v' = \<lparr>fr_name = name, fr_again = rest, fr_enabled = True, fr_entered = (r \<noteq> 0)\<rparr> # pv_stack v"
    using assms(2,3) True r by (auto simp: tag_section_def split: if_splits)
  obtain xs where xs: "base \<noteq> []" "stk e = xs @ base" "length xs = length (filter fr_entered (pv_stack v))"
    "list_all (\<lambda>f. fr_entered f \<longrightarrow> fr_enabled f) (pv_stack v)" using assms(1) by (auto simp: stack_ok_def)
  show ?thesis
  proof (cases "r = 0")
    case True
    then show ?thesis using enter_stack [OF r] * xs by (simp add: stack_ok_def)
  next
    case False
    then obtain x where "stk e1 = (x # xs) @ base" using enter_stack [OF r] * xs by auto
    then show ?thesis using False * xs by (auto simp: stack_ok_def intro!: exI [of _ "x # xs"])
  qed
next
  case False
  then show ?thesis using assms by (auto simp: tag_section_def stack_ok_def split: if_splits)
qed

lemma tag_end_stack:
  assumes "stack_ok base e v" "tag_end iw e v name rest = (rc, out, e', v', s)" "rc \<ge> 0"
  shows "stack_ok base e' v'"
proof -
  obtain f fs where f: "pv_stack v = f # fs" using assms(2,3) by (cases "pv_stack v") (auto simp: tag_end_def)
  obtain r e1 where n: "(if pv_enabled v \<and> fr_entered f then iw_next iw e else (0, e)) = (r, e1)" by fastforce
  have r: "r \<ge> 0" "fr_name f = name" using assms(2,3) f n by (auto simp: tag_end_def split: if_splits)
  obtain xs where xs: "base \<noteq> []" "stk e = xs @ base" "length xs = length (filter fr_entered (f # fs))"
    using assms(1) f by (auto simp: stack_ok_def)
  have ok: "list_all (\<lambda>f. fr_entered f \<longrightarrow> fr_enabled f) (f # fs)" using assms(1) f by (simp add: stack_ok_def)
  have "\<exists>ys. stk e1 = ys @ base \<and> length ys = length xs"
  proof (cases "pv_enabled v \<and> fr_entered f")
    case True
    then obtain x y cs where c: "stk e = x # cs" "stk e1 = y # cs" using next_stack [of e r e1] n r by auto
    then obtain xs' where "xs = x # xs'" using xs(2,3) True by (cases xs) auto
    with c xs(2) show ?thesis by (intro exI [of _ "y # xs'"]) simp
  qed (use n xs in auto)
  then obtain ys where ys: "stk e1 = ys @ base" "length ys = length (filter fr_entered (f # fs))" using xs(3) by auto
  show ?thesis
  proof (cases "r \<noteq> 0 \<or> \<not> fr_entered f")
    case True
    then show ?thesis using assms(2) f n r ys xs(1) ok by (auto simp: tag_end_def stack_ok_def split: if_splits)
  next
    case False
    then obtain y zs where z: "ys = y # zs" using ys by (cases ys) auto
    obtain q e2 where q: "iw_leave iw e1 = (q, e2)" by fastforce
    have "stk e2 = zs @ base" using leave_stack [OF q] ys(1) z xs(1) by simp
    then show ?thesis using False assms(2) f n r q z ys(2) xs(1) ok
      by (auto simp: tag_end_def stack_ok_def split: if_splits)
  qed
qed

lemma tag_effect_stack:
  assumes "stack_ok base e v" "tag_effect part iw e v k name rest = Some (rc, out, e', v', s)" "rc \<ge> 0"
    and part: "\<And>p c rc out e'. part p e c = Some (rc, out, e') \<Longrightarrow> rc \<ge> 0 \<Longrightarrow> stk e' = stk e"
  shows "stack_ok base e' v'"
proof (cases k)
  case Tag_section
  with assms show ?thesis by (auto simp: tag_effect_def intro: tag_section_stack)
next
  case Tag_inverted
  with assms show ?thesis by (auto simp: tag_effect_def intro: tag_section_stack)
next
  case Tag_end
  with assms show ?thesis by (auto simp: tag_effect_def intro: tag_end_stack)
qed (use assms in \<open>auto simp: tag_effect_def elim!: stack_ok_cong split: if_splits prod.splits option.splits\<close>)

lemma scan_end_status:
  "scan iw e outer v acc s = (Scan_end rc, out) \<Longrightarrow> rc \<le> 0"
proof (induction s arbitrary: v acc out)
  case (Cons c s)
  then show ?case by (fastforce simp: Let_def split: if_splits prod.splits)
qed (auto split: prod.splits if_splits)

lemma process_loop_stack:
  assumes "process_loop n iw outer e v s = Some (rc, out, e')" "rc \<ge> 0" "stack_ok base e v"
  shows "stk e' = base"
  using assms
proof (induction n arbitrary: outer e v s rc out e' base)
  case (Suc n)
  obtain r o1 where sc: "scan iw e outer v [] s = (r, o1)" by fastforce
  show ?case
  proof (cases r)
    case (Scan_end q)
    with Suc.prems sc have "q = 0" "e' = e" using scan_end_status [of e outer v "[]" s q o1] by auto
    with scan_end_stack [of e outer v "[]" s o1] sc Scan_end Suc.prems(3) show ?thesis by (simp add: stack_ok_def)
  next
    case (Scan_tag before s1 v1)
    obtain tag s2 where fc: "find_close (pv_cl v1) s1 = Some (tag, s2)"
      using Suc.prems(1,2) sc Scan_tag by (cases "find_close (pv_cl v1) s1") auto
    obtain k name s3 alone where pt: "parse_tag iw (pv_cl v1) tag s2 = Parsed k name s3 alone"
      using Suc.prems sc Scan_tag fc
      by (cases "parse_tag iw (pv_cl v1) tag s2") (auto simp: parse_tag_def get_name_def exclude_first_def Let_def split: if_splits list.splits)
    obtain r2 o2 v2 where st: "settle_tag iw e v1 before alone = (r2, o2, v2)" by (metis prod_cases3)
    let ?part = "\<lambda>p e c. process_loop n iw p e (pv_initial p) c"
    have "r2 \<ge> 0" using Suc.prems(1,2) sc Scan_tag fc pt st by (auto split: if_splits)
    then obtain r3 o3 e3 v3 s4 where te: "tag_effect ?part iw e v2 k name s3 = Some (r3, o3, e3, v3, s4)"
      using Suc.prems(1) sc Scan_tag fc pt st by (cases "tag_effect ?part iw e v2 k name s3") auto
    have r3: "r3 \<ge> 0" using Suc.prems(1,2) sc Scan_tag fc pt st te \<open>r2 \<ge> 0\<close> by (auto split: if_splits)
    then obtain o4 where rec: "process_loop n iw outer e3 v3 s4 = Some (rc, o4, e')"
      using Suc.prems(1) sc Scan_tag fc pt st te \<open>r2 \<ge> 0\<close> by auto
    have "pv_stack v2 = pv_stack v" using scan_stack sc Scan_tag settle_stack [OF st] by metis
    then have ok: "stack_ok base e v2" using Suc.prems(3) by (simp add: stack_ok_def)
    have "stk e'' = stk e" if "?part p e c = Some (q, out, e'')" "q \<ge> 0" for p c q out e''
      using Suc.IH [OF that, of "stk e"] ok by (auto simp: stack_ok_def pv_initial_def)
    then have "stack_ok base e3 v3" using tag_effect_stack [OF ok te r3] by blast
    then show ?thesis using Suc.IH [OF rec Suc.prems(2)] by simp
  qed
qed simp

lemma process_stack: "process n iw e s = Some (rc, out, e') \<Longrightarrow> rc \<ge> 0 \<Longrightarrow> stk e \<noteq> [] \<Longrightarrow> stk e' = stk e"
  unfolding process_def by (erule process_loop_stack) (auto simp: stack_ok_def pv_initial_def)

end

end
