(* ===== verification/ApplyMustach.thy ===== *)
theory ApplyMustach
  imports Mustach Manifest
begin

text \<open>
  The instantiation of templates with a JSON object (\<^verbatim>\<open>src/src/units/apply-mustach.c\<close>): the
  language of names, the search of values in the stack of sections, and the callbacks given to
  the engine of the theory of mustache templates.

  The texts are modified in place by the code, never ahead of what is read; here the
  functions give the unescaped texts and what remains. The string of a null value is a null
  pointer that the comparison of values would dereference: it is left unspecified.
\<close>

definition MAX_DEPTH :: nat where "MAX_DEPTH = 256"

record 'j mustach_json =
  mj_json :: "'j json_lib"
  mj_truth :: "'j \<Rightarrow> bool"

record 'j expl_item =
  xi_cont :: "'j option"
  xi_obj :: 'j
  xi_index :: nat
  xi_count :: nat

text \<open>The stack, its top first; the depth is the number of items above the first one.\<close>

record 'j expl =
  ex_root :: 'j
  ex_stack :: "'j expl_item list"

section \<open>Names\<close>

text \<open>The key and, after the sign =, the value.\<close>

fun keyval :: "bool \<Rightarrow> string \<Rightarrow> string \<times> string option" where
  "keyval isptr [] = ([], None)"
| "keyval isptr (c # s) =
     (if c = CHR ''='' then ([], Some s)
      else if isptr then
        (if c = CHR ''~'' \<and> take 1 s = ''='' then (let (k, v) = keyval isptr (tl s) in (CHR ''='' # k, v))
         else (let (k, v) = keyval isptr s in (c # k, v)))
      else if c = CHR 0x5C \<and> take 1 s = [CHR 0x5C] then (let (k, v) = keyval isptr (tl s) in (c # c # k, v))
      else if c = CHR 0x5C \<and> take 1 s = ''='' then (let (k, v) = keyval isptr (tl s) in (CHR ''='' # k, v))
      else (let (k, v) = keyval isptr s in (c # k, v)))"

text \<open>A component and what follows its separator; the loop, then the test of the end.\<close>

fun component :: "bool \<Rightarrow> string \<Rightarrow> string \<times> string" where
  "component isptr [] = ([], [])"
| "component isptr (c # s) =
     (if c = (if isptr then CHR ''/'' else CHR ''.'') then ([], s)
      else if isptr then
        (if c = CHR ''~'' \<and> take 1 s = ''1'' then (let (k, r) = component isptr (tl s) in (CHR ''/'' # k, r))
         else if c = CHR ''~'' \<and> take 1 s = ''0'' then (let (k, r) = component isptr (tl s) in (c # k, r))
         else (let (k, r) = component isptr s in (c # k, r)))
      else if c = CHR 0x5C \<and> (take 1 s = ''.'' \<or> take 1 s = [CHR 0x5C])
        then (let (k, r) = component isptr (tl s) in (hd s # k, r))
      else (let (k, r) = component isptr s in (c # k, r)))"

definition first :: "bool \<Rightarrow> string \<Rightarrow> (string \<times> string) option" where
  "first isptr name = (if name = [] then None else Some (component isptr name))"

fun value_text :: "string \<Rightarrow> string \<times> string" where
  "value_text [] = ([], [])"
| "value_text (c # s) =
     (if c = CHR ''|'' then ([], s)
      else if c = CHR 0x5C \<and> (take 1 s = ''|'' \<or> take 1 s = [CHR 0x5C])
        then (let (k, r) = value_text (tl s) in (hd s # k, r))
      else (let (k, r) = value_text s in (c # k, r)))"

definition next_value :: "string \<Rightarrow> (string \<times> string) option" where
  "next_value val = (if val = [] then None else Some (value_text val))"

text \<open>The position of the last colon that is followed by another character than a star.\<close>

fun last_colon :: "string \<Rightarrow> nat option" where
  "last_colon [] = None"
| "last_colon (c # s) =
     (case last_colon s of
        Some i \<Rightarrow> Some (Suc i)
      | None \<Rightarrow> if c = CHR '':'' \<and> s \<noteq> [] \<and> hd s \<noteq> CHR ''*'' then Some 0 else None)"

definition globalize :: "string \<Rightarrow> string option" where
  "globalize key = map_option (\<lambda>i. take (Suc i) key @ ''*'') (last_colon key)"

fun colons :: "string \<Rightarrow> nat" where
  "colons [] = 0"
| "colons (c # s) = (if c = CHR '':'' \<and> s \<noteq> [] \<and> hd s \<noteq> CHR ''*'' then 1 else 0) + colons s"

lemma last_colon_none: "last_colon s = None \<longleftrightarrow> colons s = 0"
  by (induction s) (auto split: option.splits)

lemma colons_cut: "last_colon s = Some i \<Longrightarrow> colons (take (Suc i) s @ ''*'') < colons s"
proof (induction s arbitrary: i)
  case (Cons c s)
  show ?case
  proof (cases "last_colon s")
    case (Some j)
    then have "hd (take (Suc j) s @ ''*'') = hd s" "s \<noteq> []" by (cases s; simp)+
    with Cons.IH [OF Some] Cons.prems Some show ?thesis by auto
  next
    case None
    with Cons.prems show ?thesis by (auto simp: last_colon_none [symmetric] split: if_splits)
  qed
qed simp

lemma globalize_fewer: "globalize key = Some key' \<Longrightarrow> colons key' < colons key"
  by (auto simp: globalize_def dest: colons_cut)

section \<open>Search\<close>

text \<open>The first object of the stack, from its top, that has the key, for each globalisation of the key.\<close>

function search_stack :: "'j json_lib \<Rightarrow> 'j list \<Rightarrow> string \<Rightarrow> 'j option" where
  "search_stack jl st key =
     (case List.find (\<lambda>x. jl_get jl x key \<noteq> None) st of
        Some x \<Rightarrow> jl_get jl x key
      | None \<Rightarrow> (case globalize key of None \<Rightarrow> None | Some key' \<Rightarrow> search_stack jl st key'))"
  by pat_completeness auto
termination
  by (relation "measure (\<lambda>(jl, st, key). colons key)") (auto dest: globalize_fewer)

function search_key :: "'j json_lib \<Rightarrow> 'j \<Rightarrow> string \<Rightarrow> 'j option" where
  "search_key jl j key =
     (case jl_get jl j key of
        Some x \<Rightarrow> Some x
      | None \<Rightarrow> (case globalize key of None \<Rightarrow> None | Some key' \<Rightarrow> search_key jl j key'))"
  by pat_completeness auto
termination
  by (relation "measure (\<lambda>(jl, j, key). colons key)") (auto dest: globalize_fewer)

declare search_stack.simps [simp del] search_key.simps [simp del]

lemma component_le: "length (snd (component isptr s)) \<le> length s - 1"
proof (induction s rule: length_induct)
  case (1 s)
  show ?case
  proof (cases s)
    case (Cons c t)
    have "length (snd (component isptr t)) \<le> length t - 1" using 1 Cons by simp
    moreover have "length (snd (component isptr (tl t))) \<le> length (tl t) - 1"
      using 1 Cons by (simp only: length_tl) (metis diff_le_self length_Cons length_tl less_Suc_eq_le)
    ultimately show ?thesis by (auto simp: Cons case_prod_unfold Let_def)
  qed simp
qed

lemma component_shorter: "s \<noteq> [] \<Longrightarrow> length (snd (component isptr s)) < length s"
  using component_le [of isptr s] by (cases s) auto

lemma first_rest: "first isptr name = Some (key, rest) \<Longrightarrow> length rest < length name"
  using component_shorter [of name isptr] by (auto simp: first_def split: if_splits)

function search_path :: "'j json_lib \<Rightarrow> bool \<Rightarrow> 'j \<Rightarrow> string \<Rightarrow> 'j option" where
  "search_path jl isptr j name =
     (case first isptr name of
        None \<Rightarrow> Some j
      | Some (key, rest) \<Rightarrow> (case search_key jl j key of None \<Rightarrow> None | Some x \<Rightarrow> search_path jl isptr x rest))"
  by pat_completeness auto
termination
  by (relation "measure (\<lambda>(jl, isptr, j, name). length name)")
     (auto dest!: first_rest)

declare search_path.simps [simp del]

lemma value_text_le: "length (snd (value_text s)) \<le> length s - 1"
proof (induction s rule: length_induct)
  case (1 s)
  show ?case
  proof (cases s)
    case (Cons c t)
    have "length (snd (value_text t)) \<le> length t - 1" using 1 Cons by simp
    moreover have "length (snd (value_text (tl t))) \<le> length (tl t) - 1"
      using 1 Cons by (simp only: length_tl) (metis diff_le_self length_Cons length_tl less_Suc_eq_le)
    ultimately show ?thesis by (auto simp: Cons case_prod_unfold Let_def)
  qed simp
qed

lemma value_text_shorter: "s \<noteq> [] \<Longrightarrow> length (snd (value_text s)) < length s"
  using value_text_le [of s] by (cases s) auto

lemma next_value_rest: "next_value val = Some (v, rest) \<Longrightarrow> length rest < length val"
  using value_text_shorter [of val] by (auto simp: next_value_def split: if_splits)

text \<open>The values to compare, and whether one of them is the text.\<close>

function any_value :: "string \<Rightarrow> string \<Rightarrow> bool" where
  "any_value txt val =
     (case next_value val of None \<Rightarrow> False | Some (v, rest) \<Rightarrow> v = txt \<or> any_value txt rest)"
  by pat_completeness auto
termination
  by (relation "measure (\<lambda>(txt, val). length val)") (auto dest!: next_value_rest)

declare any_value.simps [simp del]

definition check_value :: "'j json_lib \<Rightarrow> 'j \<Rightarrow> string option \<Rightarrow> 'j option" where
  "check_value jl x v =
     (case v of
        None \<Rightarrow> Some x
      | Some val \<Rightarrow>
          let neg = (take 1 val = ''!''); found = any_value (the (jl_string jl x)) (if neg then tl val else val)
          in if neg = found then None else Some x)"

definition not_null :: "'j json_lib \<Rightarrow> 'j option \<Rightarrow> 'j option" where
  "not_null jl x = Option.bind x (\<lambda>j. if jl_type jl j = jtype_null then None else Some j)"

text \<open>The search only looks at the objects of the stack.\<close>

definition ex_objs :: "'j expl \<Rightarrow> 'j list" where
  "ex_objs e = map xi_obj (ex_stack e)"

definition findin :: "'j json_lib \<Rightarrow> 'j list \<Rightarrow> string \<Rightarrow> 'j option" where
  "findin jl st name =
     (let isptr = (take 1 name = ''/''); (n, v) = keyval isptr (if isptr then tl name else name);
          found = (if n = ''.'' then Some (hd st)
                   else Option.bind (first isptr n)
                          (\<lambda>(key, rest). Option.bind (search_stack jl st key) (\<lambda>x. search_path jl isptr x rest)))
      in not_null jl (Option.bind found (\<lambda>x. check_value jl x v)))"

text \<open>The alternatives of a name, separated by two bars: the first that is found.\<close>

fun split_bars :: "string \<Rightarrow> string \<times> string" where
  "split_bars [] = ([], [])"
| "split_bars (c # s) =
     (if c = CHR ''|'' \<and> take 1 s = ''|'' then ([], tl s)
      else (let (k, r) = split_bars s in (c # k, r)))"

lemma split_bars_le: "length (snd (split_bars s)) \<le> length s - 1"
proof (induction s rule: length_induct)
  case (1 s)
  show ?case
  proof (cases s)
    case (Cons c t)
    have "length (snd (split_bars t)) \<le> length t - 1" using 1 Cons by simp
    moreover have "length (snd (split_bars (tl t))) \<le> length (tl t) - 1"
      using 1 Cons by (simp only: length_tl) (metis diff_le_self length_Cons length_tl less_Suc_eq_le)
    ultimately show ?thesis by (auto simp: Cons case_prod_unfold Let_def)
  qed simp
qed

lemma split_bars_shorter: "s \<noteq> [] \<Longrightarrow> length (snd (split_bars s)) < length s"
  using split_bars_le [of s] by (cases s) auto

function findor :: "'j json_lib \<Rightarrow> 'j list \<Rightarrow> string \<Rightarrow> 'j option" where
  "findor jl st name =
     (if name = [] then None
      else case findin jl st (fst (split_bars name)) of
             Some x \<Rightarrow> Some x
           | None \<Rightarrow> findor jl st (snd (split_bars name)))"
  by pat_completeness auto
termination
  by (relation "measure (\<lambda>(jl, st, name). length name)") (auto simp: split_bars_shorter)

declare findor.simps [simp del]

section \<open>Callbacks\<close>

definition ex_start :: "'j expl \<Rightarrow> int \<times> 'j expl" where
  "ex_start e = (0, e\<lparr>ex_stack := [\<lparr>xi_cont = None, xi_obj = ex_root e, xi_index = 0, xi_count = 1\<rparr>]\<rparr>)"

definition print_char :: "char \<Rightarrow> string" where
  "print_char c = (if c = CHR ''%'' then ''%%'' else if c = newline then [CHR 0x5C, CHR ''n''] else [c])"

definition print :: "string \<Rightarrow> bool \<Rightarrow> string" where
  "print s escape = (if escape then concat (map print_char s) else s)"

definition ex_put :: "'j mustach_json \<Rightarrow> 'j expl \<Rightarrow> string \<Rightarrow> bool \<Rightarrow> int \<times> string" where
  "ex_put mj e name escape =
     (0, case findin (mj_json mj) (ex_objs e) name of
           None \<Rightarrow> []
         | Some x \<Rightarrow> (case jl_string (mj_json mj) x of None \<Rightarrow> [] | Some s \<Rightarrow> print s escape))"

text \<open>When the stack is full the depth is incremented but nothing else is done, and the processing stops.\<close>

definition ex_enter :: "'j mustach_json \<Rightarrow> 'j expl \<Rightarrow> string \<Rightarrow> int \<times> 'j expl" where
  "ex_enter mj e name =
     (let found = findor (mj_json mj) (ex_objs e) name;
          push = (\<lambda>c x n. e\<lparr>ex_stack := \<lparr>xi_cont = c, xi_obj = x, xi_index = 0, xi_count = n\<rparr> # ex_stack e\<rparr>)
      in if length (ex_stack e) \<ge> MAX_DEPTH then (MUSTACH_ERROR_TOO_DEEP, e)
         else case found of
                None \<Rightarrow> (0, e)
              | Some x \<Rightarrow>
                  if jl_type (mj_json mj) x = jtype_array then
                    (case jl_items (mj_json mj) x of
                       [] \<Rightarrow> (0, e)
                     | y # ys \<Rightarrow> (1, push (Some x) y (Suc (length ys))))
                  else if jl_type (mj_json mj) x = jtype_object \<or> mj_truth mj x then (1, push None x 1)
                  else (0, e))"

definition ex_next :: "'j mustach_json \<Rightarrow> 'j expl \<Rightarrow> int \<times> 'j expl" where
  "ex_next mj e =
     (case ex_stack e of
        t # u # st \<Rightarrow>
          let i = Suc (xi_index t) in
          if i \<ge> xi_count t then (0, e\<lparr>ex_stack := t\<lparr>xi_index := i\<rparr> # u # st\<rparr>)
          else (1, e\<lparr>ex_stack := t\<lparr>xi_index := i, xi_obj := jl_items (mj_json mj) (the (xi_cont t)) ! i\<rparr> # u # st\<rparr>)
      | _ \<Rightarrow> (MUSTACH_ERROR_CLOSING, e))"

definition ex_leave :: "'j expl \<Rightarrow> int \<times> 'j expl" where
  "ex_leave e =
     (case ex_stack e of
        t # u # st \<Rightarrow> (0, e\<lparr>ex_stack := u # st\<rparr>)
      | _ \<Rightarrow> (MUSTACH_ERROR_CLOSING, e))"

definition apply_itf :: "'j mustach_json \<Rightarrow> 'j expl mustach_itf" where
  "apply_itf mj =
     \<lparr>it_start = Some ex_start, it_put = Some (ex_put mj), it_enter = Some (ex_enter mj), it_next = Some (ex_next mj),
      it_leave = Some ex_leave, it_partial = None, it_emit = None, it_get = None, it_stop = None\<rparr>"

definition apply_mustach :: "nat \<Rightarrow> mem \<Rightarrow> 'j mustach_json \<Rightarrow> string \<Rightarrow> 'j \<Rightarrow> (int \<times> string option \<times> mem) option" where
  "apply_mustach n m mj template root =
     map_option (\<lambda>(rc, result, m'). (if rc < 0 then - 1 else rc, result, m'))
       (mustach_mem n m (apply_itf mj) \<lparr>ex_root = root, ex_stack = []\<rparr> True True template)"

section \<open>Contexts\<close>

text \<open>The callbacks as the engine gets them, and the state that the start gives.\<close>

definition apply_iwrap :: "'j mustach_json \<Rightarrow> 'j expl iwrap" where
  "apply_iwrap mj =
     \<lparr>iw_emit = iwrap_emit, iw_put = ex_put mj, iw_enter = ex_enter mj, iw_next = ex_next mj, iw_leave = ex_leave,
      iw_partial = iwrap_partial (ex_put mj), iw_colon = True, iw_emptytag = True\<rparr>"

definition ex_initial :: "'j \<Rightarrow> 'j expl" where
  "ex_initial root = \<lparr>ex_root = root, ex_stack = [\<lparr>xi_cont = None, xi_obj = root, xi_index = 0, xi_count = 1\<rparr>]\<rparr>"

lemma apply_iwrap_sel [simp]:
  "iw_emit (apply_iwrap mj) = iwrap_emit" "iw_put (apply_iwrap mj) = ex_put mj" "iw_enter (apply_iwrap mj) = ex_enter mj"
  "iw_next (apply_iwrap mj) = ex_next mj" "iw_leave (apply_iwrap mj) = ex_leave"
  by (simp_all add: apply_iwrap_def)

lemma mustach_file_apply:
  "mustach_file n (apply_itf mj) \<lparr>ex_root = root, ex_stack = st\<rparr> True True template =
     process n (apply_iwrap mj) (ex_initial root) template"
  by (simp add: mustach_file_def apply_itf_def apply_iwrap_def ex_start_def ex_initial_def Let_def id_def [symmetric] option.map_id)

interpretation contexts: section_stack "apply_iwrap mj" ex_stack for mj
proof
  fix e e' name rc
  assume "iw_enter (apply_iwrap mj) e name = (rc, e')" "rc \<ge> 0"
  then show "if rc = 0 then ex_stack e' = ex_stack e else \<exists>x. ex_stack e' = x # ex_stack e"
    by (auto simp: ex_enter_def Let_def split: if_splits option.splits list.splits)
next
  fix e e' rc
  assume "iw_next (apply_iwrap mj) e = (rc, e')" "rc \<ge> 0"
  then show "\<exists>x y cs. ex_stack e = x # cs \<and> ex_stack e' = y # cs"
    by (auto simp: ex_next_def Let_def split: if_splits list.splits)
next
  fix e e' rc x cs
  assume "iw_leave (apply_iwrap mj) e = (rc, e')" "ex_stack e = x # cs" "cs \<noteq> []"
  then show "ex_stack e' = cs" by (auto simp: ex_leave_def split: list.splits)
qed

text \<open>C23: When the instantiation of a template succeeds, whatever its sections, nested and
  repeated over arrays, were, every context that was entered has been left: the stack
  of contexts is the one with the root object only, as at the start.
\<close>

theorem sections_are_left:
  assumes "mustach_file n (apply_itf mj) \<lparr>ex_root = root, ex_stack = st\<rparr> True True template = Some (rc, out, e)" "rc \<ge> 0"
  shows "ex_stack e = ex_stack (ex_initial root)"
  using contexts.process_stack [of n mj "ex_initial root" template rc out e] assms
  by (simp add: mustach_file_apply ex_initial_def)

definition demo_mj :: "json mustach_json" where
  "demo_mj = \<lparr>mj_json = json_data, mj_truth = (\<lambda>j. case j of JBool b \<Rightarrow> b | JStr s \<Rightarrow> s \<noteq> [] | JNum s \<Rightarrow> s \<noteq> ''0'' | _ \<Rightarrow> False)\<rparr>"

theorem sections_are_left_witness:
  "map_option (\<lambda>(rc, out, e). (rc, out, ex_stack e = ex_stack (ex_initial (JObj [(''a'', JArr [JStr ''x'', JStr ''y''])]))))
     (mustach_file 9 (apply_itf demo_mj) \<lparr>ex_root = JObj [(''a'', JArr [JStr ''x'', JStr ''y''])], ex_stack = []\<rparr> True True
        ''{{#a}}-{{.}}{{/a}}!'') = Some (0, ''-x-y!'', True)"
proof -
  let ?root = "JObj [(''a'', JArr [JStr ''x'', JStr ''y''])]"
  let ?run = "mustach_file 9 (apply_itf demo_mj) \<lparr>ex_root = ?root, ex_stack = []\<rparr> True True ''{{#a}}-{{.}}{{/a}}!''"
  have "map_option (\<lambda>(rc, out, e). (rc, out)) ?run = Some (0, ''-x-y!'')" by code_simp
  then obtain e where e: "?run = Some (0, ''-x-y!'', e)" by auto
  show ?thesis using sections_are_left [OF e] by (simp add: e)
qed

end
