(* ===== verification/MustachRender.thy ===== *)
theory MustachRender
  imports ApplyMustach
begin

text \<open>
  What the instantiation of a template gives: a reference definition, by recursion on the
  structure of the template, and its equivalence with the engine driven by the callbacks.
  The templates have texts, values, sections and inverted sections; no tag of a section stands alone
  on its line.
\<close>

section \<open>Reference\<close>

datatype node = Lit string | Val string | Raw string | Sec string "node list" | Inv string "node list"

fun node_text :: "node \<Rightarrow> string" where
  "node_text (Lit s) = s"
| "node_text (Val n) = ''{{'' @ n @ ''}}''"
| "node_text (Raw n) = ''{{&'' @ n @ ''}}''"
| "node_text (Sec n b) = ''{{#'' @ n @ ''}}'' @ concat (map node_text b) @ ''{{/'' @ n @ ''}}''"
| "node_text (Inv n b) = ''{{^'' @ n @ ''}}'' @ concat (map node_text b) @ ''{{/'' @ n @ ''}}''"

text \<open>The objects on which the body of a section is repeated.\<close>

definition section_items :: "'j mustach_json \<Rightarrow> 'j list \<Rightarrow> string \<Rightarrow> 'j list" where
  "section_items mj st name =
     (case findor (mj_json mj) st name of
        None \<Rightarrow> []
      | Some x \<Rightarrow>
          if jl_type (mj_json mj) x = jtype_array then jl_items (mj_json mj) x
          else if jl_type (mj_json mj) x = jtype_object \<or> mj_truth mj x then [x] else [])"

definition value_of :: "'j mustach_json \<Rightarrow> 'j list \<Rightarrow> string \<Rightarrow> string" where
  "value_of mj st name =
     (case Option.bind (findin (mj_json mj) st name) (jl_string (mj_json mj)) of None \<Rightarrow> [] | Some s \<Rightarrow> s)"

fun render :: "'j mustach_json \<Rightarrow> node \<Rightarrow> 'j list \<Rightarrow> string" where
  "render mj (Lit s) st = s"
| "render mj (Val n) st = concat (map print_char (value_of mj st n))"
| "render mj (Raw n) st = value_of mj st n"
| "render mj (Sec n b) st = concat (map (\<lambda>x. concat (map (\<lambda>d. render mj d (x # st)) b)) (section_items mj st n))"
| "render mj (Inv n b) st = (if section_items mj st n = [] then concat (map (\<lambda>d. render mj d st) b) else [])"

fun node_depth :: "node \<Rightarrow> nat" where
  "node_depth (Sec n b) = Suc (foldr max (map node_depth b) 0)"
| "node_depth (Inv n b) = Suc (foldr max (map node_depth b) 0)"
| "node_depth _ = 0"

text \<open>Whether the text until now of the line is blank, 0 when it is not.\<close>

fun line_state :: "nat \<Rightarrow> string \<Rightarrow> nat" where
  "line_state a [] = a"
| "line_state a (c # s) = line_state (if c = newline then 1 else if c_isspace c then a else 0) s"

definition plain_name :: "string \<Rightarrow> bool" where
  "plain_name n \<longleftrightarrow> n \<noteq> [] \<and> length n \<le> MUSTACH_MAX_LENGTH \<and> CHR ''}'' \<notin> set n \<and>
     hd n \<notin> set '':!={&^#/>'' \<and> \<not> c_isspace (hd n) \<and> \<not> c_isspace (last n)"

text \<open>A text may have several lines, when the last one is not blank.\<close>

fun node_ok :: "node \<Rightarrow> bool" where
  "node_ok (Lit s) \<longleftrightarrow> CHR ''{'' \<notin> set s \<and> line_state 0 s = 0"
| "node_ok (Val n) \<longleftrightarrow> plain_name n"
| "node_ok (Raw n) \<longleftrightarrow> plain_name n"
| "node_ok (Sec n b) \<longleftrightarrow> plain_name n \<and> list_all node_ok b"
| "node_ok (Inv n b) \<longleftrightarrow> plain_name n \<and> list_all node_ok b"

section \<open>One turn of the loop\<close>

definition steady :: "pvars \<Rightarrow> bool" where
  "steady v \<longleftrightarrow> pv_op v = ''{{'' \<and> pv_cl v = ''}}'' \<and> pv_stdalone v \<noteq> 2 \<and> pv_outer v = [] \<and> pv_pref v = []"

lemma steady_stdalone [simp]: "a \<noteq> 2 \<Longrightarrow> steady v \<Longrightarrow> steady (v\<lparr>pv_stdalone := a\<rparr>)"
  by (simp add: steady_def)

lemma steady_next_line: "steady v \<Longrightarrow> v\<lparr>pv_stdalone := Suc 0, pv_pref := [], pv_outer := []\<rparr> = v\<lparr>pv_stdalone := Suc 0\<rparr>"
  by (cases v) (simp add: steady_def)

lemma line_state_append [simp]: "line_state a (s @ t) = line_state (line_state a s) t"
  by (induction s arbitrary: a) auto

lemma scan_line_steady:
  assumes "iw_emit iw = iwrap_emit" "steady v"
  shows "scan_line iw e v acc nl = (0, if pv_enabled v then acc @ nl else [])"
  using assms by (simp add: scan_line_def emit_pref_def steady_def iwrap_emit_def)

lemma scan_steady:
  assumes "iw_emit iw = iwrap_emit" "steady v" "CHR ''{'' \<notin> set s"
  shows "\<exists>before out. scan iw e [] v acc (s @ ''{{'' @ t) = (Scan_tag before t (v\<lparr>pv_stdalone := line_state (pv_stdalone v) s\<rparr>), out)
           \<and> (if pv_enabled v then out @ before = acc @ s else out = [])"
  using assms(2,3)
proof (induction s arbitrary: acc v)
  case Nil
  then show ?case by (auto simp: steady_def c_isspace_def Let_def)
next
  case (Cons c s)
  have op: "pv_op v = ''{{''" "\<not> (pv_stdalone v = 2 \<and> pv_enabled v)" using Cons.prems(1) by (auto simp: steady_def)
  have c: "c \<noteq> CHR ''{''" "CHR ''{'' \<notin> set s" using Cons.prems(2) by auto
  consider (nl) "c = newline" | (sp) "c \<noteq> newline" "c_isspace c" | (other) "c \<noteq> newline" "\<not> c_isspace c" by blast
  then show ?case
  proof cases
    case nl
    let ?v = "v\<lparr>pv_stdalone := 1\<rparr>"
    obtain before out where rec: "scan iw e [] ?v [] (s @ ''{{'' @ t) = (Scan_tag before t (v\<lparr>pv_stdalone := line_state 1 s\<rparr>), out)"
      "if pv_enabled v then out @ before = s else out = []"
      using Cons.IH [OF steady_stdalone [of 1, OF _ Cons.prems(1)] c(2), of "[]"] by auto
    show ?thesis
      by (rule exI [of _ before], rule exI [of _ "(if pv_enabled v then acc @ [newline] else []) @ out"])
         (use nl rec in \<open>simp add: scan_line_steady [OF assms(1) Cons.prems(1)] steady_next_line [OF Cons.prems(1)]\<close>)
  next
    case sp
    then show ?thesis using Cons.IH [OF Cons.prems(1) c(2), of "acc @ [c]"] by (cases "pv_enabled v") auto
  next
    case other
    then show ?thesis
      using Cons.IH [OF steady_stdalone [of 0, OF _ Cons.prems(1)] c(2), of "acc @ [c]"] op c by (cases "pv_enabled v") (auto simp: Let_def)
  qed
qed

lemma scan_steady_end:
  assumes "iw_emit iw = iwrap_emit" "steady v" "CHR ''{'' \<notin> set s" "pv_stack v = []" "pv_enabled v"
  shows "scan iw e [] v acc s = (Scan_end 0, acc @ s)"
  using assms(2-5)
proof (induction s arbitrary: acc v)
  case Nil
  then show ?case by (simp add: scan_line_steady [OF assms(1)])
next
  case (Cons c s)
  have "take 2 (c # s) \<noteq> ''{{''" using Cons.prems(2) by auto
  then show ?case
    using Cons.prems Cons.IH [OF steady_stdalone [of 1, OF _ Cons.prems(1)], of "[]"] Cons.IH [OF Cons.prems(1), of "acc @ [c]"]
      Cons.IH [OF steady_stdalone [of 0, OF _ Cons.prems(1)], of "acc @ [c]"]
    by (auto simp: scan_line_steady [OF assms(1)] steady_next_line [OF Cons.prems(1)] Let_def)
       (auto simp: steady_def)
qed

lemma find_close_plain: "CHR ''}'' \<notin> set n \<Longrightarrow> find_close ''}}'' (n @ ''}}'' @ t) = Some (n, t)"
  by (induction n) auto

lemma trim_plain:
  assumes "n \<noteq> []" "\<not> c_isspace (hd n)" "\<not> c_isspace (last n)"
  shows "trim n = n"
proof -
  have "dropWhile c_isspace n = n" "dropWhile c_isspace (rev n) = rev n"
    using assms by (simp_all add: dropWhile_eq_self_iff hd_rev)
  then show ?thesis by (simp add: trim_def)
qed


lemma parse_plain:
  assumes "plain_name n"
  shows "parse_tag iw ''}}'' n t = Parsed Tag_value n t False"
    and "parse_tag iw ''}}'' (CHR ''&'' # n) t = Parsed Tag_raw n t False"
    and "parse_tag iw ''}}'' (CHR ''#'' # n) t = Parsed Tag_section n t True"
    and "parse_tag iw ''}}'' (CHR ''^'' # n) t = Parsed Tag_inverted n t True"
    and "parse_tag iw ''}}'' (CHR ''/'' # n) t = Parsed Tag_end n t True"
proof -
  obtain c r where n: "n = c # r" using assms by (cases n) (auto simp: plain_name_def)
  have "trim n = n" using assms by (simp add: plain_name_def trim_plain)
  then have g: "get_name iw k n t a = Parsed k n t a" for k a using assms by (simp add: get_name_def plain_name_def)
  show "parse_tag iw ''}}'' n t = Parsed Tag_value n t False"
    using assms g n by (simp add: parse_tag_def plain_name_def)
qed (use assms in \<open>simp_all add: parse_tag_def exclude_first_def get_name_def plain_name_def trim_plain\<close>)

lemma settle_steady:
  assumes "iw_emit iw = iwrap_emit" "steady v" "pv_stdalone v = 0"
  shows "settle_tag iw e v before alone = (0, if pv_enabled v then before else [], v)"
  using assms by (cases v) (simp add: settle_tag_def emit_pref_def steady_def iwrap_emit_def)

text \<open>A state of the loop leads to another with some output, whatever fuel remains.\<close>

type_synonym 'e lstate = "'e \<times> pvars \<times> string"

definition leads :: "'e iwrap \<Rightarrow> 'e lstate \<Rightarrow> string \<Rightarrow> 'e lstate \<Rightarrow> bool" where
  "leads iw a out b \<longleftrightarrow>
     (case (a, b) of ((e, v, s), (e', v', s')) \<Rightarrow>
        \<exists>k. \<forall>n. process_loop (n + k) iw [] e v s =
          map_option (\<lambda>(rc, out', e''). (rc, out @ out', e'')) (process_loop n iw [] e' v' s'))"

lemma leads_refl: "leads iw a [] a"
  by (auto simp: leads_def option.map_id [unfolded id_def] case_prod_unfold intro!: exI [of _ 0])

lemma leads_trans [trans]:
  assumes "leads iw a o1 b" "leads iw b o2 c"
  shows "leads iw a (o1 @ o2) c"
proof -
  obtain e1 v1 s1 e2 v2 s2 e3 v3 s3 where abc: "a = (e1, v1, s1)" "b = (e2, v2, s2)" "c = (e3, v3, s3)"
    by (metis prod_cases3)
  obtain k l where "\<And>n. process_loop (n + k) iw [] e1 v1 s1 = map_option (\<lambda>(rc, out', e''). (rc, o1 @ out', e'')) (process_loop n iw [] e2 v2 s2)"
    "\<And>n. process_loop (n + l) iw [] e2 v2 s2 = map_option (\<lambda>(rc, out', e''). (rc, o2 @ out', e'')) (process_loop n iw [] e3 v3 s3)"
    using assms by (auto simp: leads_def abc)
  then have "process_loop (n + (l + k)) iw [] e1 v1 s1 =
      map_option (\<lambda>(rc, out', e''). (rc, (o1 @ o2) @ out', e'')) (process_loop n iw [] e3 v3 s3)" for n
    by (simp add: add.assoc [symmetric] option.map_comp comp_def case_prod_unfold)
  then show ?thesis by (auto simp: leads_def abc)
qed

text \<open>The text that is pending before a tag.\<close>

definition pending :: "pvars \<Rightarrow> string \<Rightarrow> bool" where
  "pending v s \<longleftrightarrow> steady v \<and> CHR ''{'' \<notin> set s \<and> line_state (pv_stdalone v) s = 0"

abbreviation settled :: "pvars \<Rightarrow> pvars" where
  "settled v \<equiv> v\<lparr>pv_stdalone := 0\<rparr>"

lemma pending_settled: "steady v \<Longrightarrow> pending (settled v) []"
  by (simp add: pending_def)

lemma leads_tag:
  assumes "iw_emit iw = iwrap_emit" "pending v s" "CHR ''}'' \<notin> set tag" "parse_tag iw ''}}'' tag t = Parsed k name t alone"
    and "\<And>part. tag_effect part iw e (settled v) k name t = Some (0, out, e', v', t')"
  shows "leads iw (e, v, s @ ''{{'' @ tag @ ''}}'' @ t) ((if pv_enabled v then s else []) @ out) (e', v', t')"
proof -
  let ?v = "settled v"
  have st: "steady v" "CHR ''{'' \<notin> set s" "line_state (pv_stdalone v) s = 0" using assms(2) by (simp_all add: pending_def)
  obtain before o1 where sc: "scan iw e [] v [] (s @ ''{{'' @ tag @ ''}}'' @ t) = (Scan_tag before (tag @ ''}}'' @ t) ?v, o1)"
    "if pv_enabled v then o1 @ before = s else o1 = []"
    using scan_steady [OF assms(1) st(1,2), of e "[]" "tag @ ''}}'' @ t"] st(3) by auto
  have fc: "find_close (pv_cl ?v) (tag @ ''}}'' @ t) = Some (tag, t)" "pv_cl ?v = ''}}''"
    using find_close_plain [OF assms(3)] st(1) by (simp_all add: steady_def)
  have se: "settle_tag iw e ?v before alone = (0, if pv_enabled v then before else [], ?v)"
    using settle_steady [OF assms(1), of ?v] st(1) by simp
  have "process_loop (Suc n) iw [] e v (s @ ''{{'' @ tag @ ''}}'' @ t) =
      map_option (\<lambda>(rc, out', e''). (rc, ((if pv_enabled v then s else []) @ out) @ out', e'')) (process_loop n iw [] e' v' t')" for n
    using sc fc se assms(4,5) by (auto simp: option.map_comp comp_def case_prod_unfold)
  then show ?thesis by (auto simp: leads_def intro!: exI [of _ 1])
qed

section \<open>Texts that render\<close>

text \<open>
  A text is gone through in the state of the closure, which is found again after it: when it
  is enabled it gives the text \<open>r\<close>, part of which may still be pending, or else nothing. It has
  no more than \<open>k\<close> nested sections.
\<close>

definition goes :: "'e iwrap \<Rightarrow> 'e \<Rightarrow> bool \<Rightarrow> nat \<Rightarrow> string \<Rightarrow> string \<Rightarrow> bool" where
  "goes iw e en k u r \<longleftrightarrow>
     (\<forall>v s t. pending v s \<longrightarrow> pv_enabled v = en \<longrightarrow> length (pv_stack v) + k \<le> MUSTACH_MAX_DEPTH \<longrightarrow>
        (\<exists>out s' v'. leads iw (e, v, s @ u @ t) out (e, v', s' @ t) \<and> (if en then out @ s' = s @ r else out = []) \<and>
           pending v' s' \<and> settled v' = settled v))"

lemma goesI:
  assumes "\<And>v s t. pending v s \<Longrightarrow> pv_enabled v = en \<Longrightarrow> length (pv_stack v) + k \<le> MUSTACH_MAX_DEPTH \<Longrightarrow>
    leads iw (e, v, s @ u @ t) (if en then s @ r else []) (e, settled v, t)"
  shows "goes iw e en k u r"
  unfolding goes_def
proof (intro allI impI)
  fix v s t
  assume v: "pending v s" "pv_enabled v = en" "length (pv_stack v) + k \<le> MUSTACH_MAX_DEPTH"
  show "\<exists>out s' v'. leads iw (e, v, s @ u @ t) out (e, v', s' @ t) \<and> (if en then out @ s' = s @ r else out = []) \<and>
           pending v' s' \<and> settled v' = settled v"
    by (rule exI [of _ "if en then s @ r else []"], rule exI [of _ "[]"], rule exI [of _ "settled v"])
       (use assms [OF v, of t] v(1) in \<open>simp add: pending_def\<close>)
qed

lemma goesE:
  assumes "goes iw e en k u r" "pending v s" "pv_enabled v = en" "length (pv_stack v) + k \<le> MUSTACH_MAX_DEPTH"
  obtains out s' v' where "leads iw (e, v, s @ u @ t) out (e, v', s' @ t)" "if en then out @ s' = s @ r else out = []"
    "pending v' s'" "settled v' = settled v"
  using assms unfolding goes_def by blast

lemma settled_same:
  assumes "settled v' = settled v"
  shows "pv_stack v' = pv_stack v" "pv_enabled v' = pv_enabled v"
  using arg_cong [OF assms, of pv_stack] arg_cong [OF assms, of pv_enabled] by simp_all

lemma goes_nil: "goes iw e en k [] []"
  unfolding goes_def
proof (intro allI impI)
  fix v s t
  assume "pending v s"
  then show "\<exists>out s' v'. leads iw (e, v, s @ [] @ t) out (e, v', s' @ t) \<and> (if en then out @ s' = s @ [] else out = []) \<and>
           pending v' s' \<and> settled v' = settled v"
    by (intro exI [of _ "[]"] exI [of _ s] exI [of _ v]) (simp add: leads_refl)
qed

lemma goes_append:
  assumes "goes iw e en k u1 r1" "goes iw e en k u2 r2"
  shows "goes iw e en k (u1 @ u2) (r1 @ r2)"
  unfolding goes_def
proof (intro allI impI)
  fix v s t
  assume v: "pending v s" "pv_enabled v = en" "length (pv_stack v) + k \<le> MUSTACH_MAX_DEPTH"
  obtain o1 s1 v1 where 1: "leads iw (e, v, s @ u1 @ u2 @ t) o1 (e, v1, s1 @ u2 @ t)" "if en then o1 @ s1 = s @ r1 else o1 = []"
    "pending v1 s1" "settled v1 = settled v"
    using goesE [OF assms(1) v] by metis
  obtain o2 s2 v2 where 2: "leads iw (e, v1, s1 @ u2 @ t) o2 (e, v2, s2 @ t)" "if en then o2 @ s2 = s1 @ r2 else o2 = []"
    "pending v2 s2" "settled v2 = settled v1"
    using goesE [OF assms(2) 1(3)] v(2,3) settled_same [OF 1(4)] by metis
  have "leads iw (e, v, s @ (u1 @ u2) @ t) (o1 @ o2) (e, v2, s2 @ t)" using leads_trans [OF 1(1) 2(1)] by simp
  moreover have "if en then (o1 @ o2) @ s2 = s @ r1 @ r2 else o1 @ o2 = []"
    using 1(2) 2(2) by (auto split: if_splits)
  ultimately show "\<exists>out s' v'. leads iw (e, v, s @ (u1 @ u2) @ t) out (e, v', s' @ t) \<and>
      (if en then out @ s' = s @ r1 @ r2 else out = []) \<and> pending v' s' \<and> settled v' = settled v"
    using 1(4) 2(3,4) by metis
qed

lemma goes_concat:
  assumes "\<And>d. d \<in> set b \<Longrightarrow> goes iw e en k (f d) (g d)"
  shows "goes iw e en k (concat (map f b)) (concat (map g b))"
  using assms by (induction b) (auto intro: goes_nil goes_append)

lemma goes_mono: "goes iw e en k u r \<Longrightarrow> k \<le> l \<Longrightarrow> goes iw e en l u r"
  unfolding goes_def by (meson add_left_mono order_trans)

lemma goes_lit:
  assumes "CHR ''{'' \<notin> set x" "line_state 0 x = 0"
  shows "goes iw e en k x x"
  unfolding goes_def
proof (intro allI impI)
  fix v s t
  assume "pending v s"
  then have "pending v (s @ x)" using assms by (simp add: pending_def)
  then show "\<exists>out s' v'. leads iw (e, v, s @ x @ t) out (e, v', s' @ t) \<and> (if en then out @ s' = s @ x else out = []) \<and>
           pending v' s' \<and> settled v' = settled v"
    using leads_refl [of iw "(e, v, s @ x @ t)"] by (intro exI [of _ "[]"] exI [of _ "s @ x"] exI [of _ v]) simp
qed

lemma goes_value:
  assumes "iw_emit iw = iwrap_emit" "plain_name n" "iw_put iw e n esc = (0, r)"
  shows "goes iw e en k (''{{'' @ (if esc then n else CHR ''&'' # n) @ ''}}'') r"
proof (rule goesI)
  fix v s t
  assume v: "pending v s" "pv_enabled v = en"
  let ?tag = "if esc then n else CHR ''&'' # n" and ?k = "if esc then Tag_value else Tag_raw"
  have "CHR ''}'' \<notin> set ?tag" "parse_tag iw ''}}'' ?tag t = Parsed ?k n t False"
    using assms(2) parse_plain(1,2) [OF assms(2), of iw t] by (auto simp: plain_name_def)
  moreover have "tag_effect part iw e (settled v) ?k n t = Some (0, if en then r else [], e, settled v, t)" for part
    using v(2) assms(3) by (cases esc) (auto simp: tag_effect_def)
  ultimately show "leads iw (e, v, s @ (''{{'' @ ?tag @ ''}}'') @ t) (if en then s @ r else []) (e, settled v, t)"
    using leads_tag [OF assms(1) v(1), of ?tag t ?k n False e "if en then r else []" e "settled v" t] v(2)
    by (cases esc; cases en) simp_all
qed

section \<open>Sections\<close>

definition sec_text :: "bool \<Rightarrow> string \<Rightarrow> string \<Rightarrow> string" where
  "sec_text inverted n u = ''{{'' @ ((if inverted then CHR ''^'' else CHR ''#'') # n) @ ''}}'' @ u @ ''{{'' @ (CHR ''/'' # n) @ ''}}''"

definition sec_vars :: "pvars \<Rightarrow> string \<Rightarrow> string \<Rightarrow> bool \<Rightarrow> bool \<Rightarrow> pvars" where
  "sec_vars v n rest entered en =
     v\<lparr>pv_stdalone := 0, pv_stack := \<lparr>fr_name = n, fr_again = rest, fr_enabled = pv_enabled v, fr_entered = entered\<rparr> # pv_stack v,
       pv_enabled := en\<rparr>"

lemma sec_vars_sel [simp]:
  "pv_stack (sec_vars v n rest entered en) = \<lparr>fr_name = n, fr_again = rest, fr_enabled = pv_enabled v, fr_entered = entered\<rparr> # pv_stack v"
  "pv_enabled (sec_vars v n rest entered en) = en" "settled (sec_vars v n rest entered en) = sec_vars v n rest entered en"
  by (simp_all add: sec_vars_def)

lemma sec_vars_pending: "pending v s \<Longrightarrow> pending (sec_vars v n rest entered en) []"
  by (simp add: pending_def steady_def sec_vars_def)

text \<open>The tag that opens, and the tag that closes.\<close>

lemma leads_open:
  assumes "iw_emit iw = iwrap_emit" "pending v s" "plain_name n" "length (pv_stack v) < MUSTACH_MAX_DEPTH"
    and "(if pv_enabled v then iw_enter iw e n else (0, e)) = (rc, e')" "rc \<ge> 0"
  shows "leads iw (e, v, s @ ''{{'' @ ((if inverted then CHR ''^'' else CHR ''#'') # n) @ ''}}'' @ t)
    (if pv_enabled v then s else []) (e', sec_vars v n t (rc \<noteq> 0) (pv_enabled v \<and> (\<not> inverted) \<noteq> (rc = 0)), t)"
proof -
  let ?tag = "(if inverted then CHR ''^'' else CHR ''#'') # n" and ?k = "if inverted then Tag_inverted else Tag_section"
  have "CHR ''}'' \<notin> set ?tag" "parse_tag iw ''}}'' ?tag t = Parsed ?k n t True"
    using assms(3) parse_plain(3,4) [OF assms(3), of iw t] by (auto simp: plain_name_def)
  moreover have "tag_section iw e (settled v) inverted n t =
      (0, [], e', sec_vars v n t (rc \<noteq> 0) (pv_enabled v \<and> (\<not> inverted) \<noteq> (rc = 0)), t)"
    using assms(4-6) by (simp add: tag_section_def sec_vars_def)
  then have "tag_effect part iw e (settled v) ?k n t =
      Some (0, [], e', sec_vars v n t (rc \<noteq> 0) (pv_enabled v \<and> (\<not> inverted) \<noteq> (rc = 0)), t)" for part
    by (cases inverted) (simp_all add: tag_effect_def)
  ultimately show ?thesis using leads_tag [OF assms(1,2)] by fastforce
qed

lemma leads_close:
  assumes "iw_emit iw = iwrap_emit" "plain_name n" "pending v s" "settled v = sec_vars v0 n rest entered en"
    and "(if en \<and> entered then iw_next iw e else (0, e)) = (rc, e')" "rc \<ge> 0"
  shows "leads iw (e, v, s @ ''{{'' @ (CHR ''/'' # n) @ ''}}'' @ t) (if en then s else [])
    (if rc \<noteq> 0 then (e', sec_vars v0 n rest entered en, rest)
     else (if pv_enabled v0 \<and> entered then snd (iw_leave iw e') else e', settled v0, t))"
proof -
  let ?tag = "CHR ''/'' # n"
  have "CHR ''}'' \<notin> set ?tag" "parse_tag iw ''}}'' ?tag t = Parsed Tag_end n t True"
    using assms(2) parse_plain(5) [OF assms(2), of iw t] by (auto simp: plain_name_def)
  moreover have "pv_enabled v = en" using arg_cong [OF assms(4), of pv_enabled] by simp
  moreover have "tag_end iw e (settled v) n t =
      (if rc \<noteq> 0 then (0, [], e', sec_vars v0 n rest entered en, rest)
       else (0, [], if pv_enabled v0 \<and> entered then snd (iw_leave iw e') else e', settled v0, t))"
    using assms(5,6) unfolding assms(4) by (cases v0) (simp add: tag_end_def sec_vars_def)
  ultimately show ?thesis
    using leads_tag [OF assms(1,3), of ?tag t Tag_end n True e "[]"] by (auto simp: tag_effect_def)
qed

text \<open>A section whose body is gone through once, in the state that the entry gives.\<close>

lemma goes_section_once:
  assumes "iw_emit iw = iwrap_emit" "plain_name n" "goes iw e' en' k u r"
    and "(if en then iw_enter iw e n else (0, e)) = (rc, e')" "rc \<ge> 0" "en' = (en \<and> (\<not> inverted) \<noteq> (rc = 0))"
    and "(if en' \<and> rc \<noteq> 0 then iw_next iw e' else (0, e')) = (0, e'')"
    and "(if en \<and> rc \<noteq> 0 then snd (iw_leave iw e'') else e'') = e"
  shows "goes iw e en (Suc k) (sec_text inverted n u) (if en' then r else [])"
proof (rule goesI)
  fix v s t
  assume v: "pending v s" "pv_enabled v = en" "length (pv_stack v) + Suc k \<le> MUSTACH_MAX_DEPTH"
  let ?rest = "u @ ''{{'' @ (CHR ''/'' # n) @ ''}}'' @ t"
  let ?v = "sec_vars v n ?rest (rc \<noteq> 0) en'"
  have o: "leads iw (e, v, s @ ''{{'' @ ((if inverted then CHR ''^'' else CHR ''#'') # n) @ ''}}'' @ ?rest) (if en then s else []) (e', ?v, ?rest)"
    using leads_open [OF assms(1) v(1) assms(2), of e rc e' inverted ?rest] v(2,3) assms(4-6) by simp
  obtain out s' v' where b: "leads iw (e', ?v, [] @ ?rest) out (e', v', s' @ ''{{'' @ (CHR ''/'' # n) @ ''}}'' @ t)"
    "if en' then out @ s' = [] @ r else out = []" "pending v' s'" "settled v' = settled ?v"
    by (rule goesE [OF assms(3) sec_vars_pending [OF v(1)], of n ?rest "rc \<noteq> 0" en' "''{{'' @ (CHR ''/'' # n) @ ''}}'' @ t"])
       (use v(3) in auto)
  have c: "leads iw (e', v', s' @ ''{{'' @ (CHR ''/'' # n) @ ''}}'' @ t) (if en' then s' else []) (e, settled v, t)"
    using leads_close [OF assms(1,2) b(3), of v ?rest "rc \<noteq> 0" en' e' 0 e'' t] b(4) v(2) assms(7,8) by simp
  have "leads iw (e, v, s @ sec_text inverted n u @ t) ((if en then s else []) @ out @ (if en' then s' else [])) (e, settled v, t)"
    using leads_trans [OF o leads_trans [OF b(1) [unfolded append_Nil] c]] by (simp add: sec_text_def)
  moreover have "(if en then s else []) @ out @ (if en' then s' else []) = (if en then s @ (if en' then r else []) else [])"
    using b(2) assms(6) by (auto split: if_splits)
  ultimately show "leads iw (e, v, s @ sec_text inverted n u @ t) (if en then s @ (if en' then r else []) else []) (e, settled v, t)"
    by simp
qed

text \<open>A section whose body is repeated, in states that follow each other.\<close>

lemma leads_repeat:
  assumes "iw_emit iw = iwrap_emit" "plain_name n" "pending v0 s0" "pv_enabled v0" "length (pv_stack v0) + Suc k \<le> MUSTACH_MAX_DEPTH"
    and "\<And>x. x \<in> set es \<Longrightarrow> goes iw x True k u (g x)" "es \<noteq> []"
    and "\<And>i. Suc i < length es \<Longrightarrow> iw_next iw (es ! i) = (1, es ! Suc i)"
    and "iw_next iw (last es) = (0, e'')" "snd (iw_leave iw e'') = e"
    and rest: "rest = u @ ''{{'' @ (CHR ''/'' # n) @ ''}}'' @ t"
  shows "leads iw (hd es, sec_vars v0 n rest True True, rest) (concat (map g es)) (e, settled v0, t)"
  using assms(6-9)
proof (induction es)
  case (Cons x es)
  let ?v = "sec_vars v0 n rest True True" and ?close = "''{{'' @ (CHR ''/'' # n) @ ''}}'' @ t"
  obtain out s' v' where b: "leads iw (x, ?v, rest) out (x, v', s' @ ?close)" "out @ s' = g x" "pending v' s'" "settled v' = settled ?v"
    by (rule goesE [OF Cons.prems(1) sec_vars_pending [OF assms(3)], of x n rest True True ?close])
       (use assms(5) rest in auto)
  show ?case
  proof (cases "es = []")
    case True
    have "leads iw (x, v', s' @ ?close) s' (e, settled v0, t)"
      using leads_close [OF assms(1,2) b(3), of v0 rest True True x 0 e'' t] b(4) Cons.prems(4) True assms(4,10) by simp
    then show ?thesis using leads_trans [OF b(1)] b(2) True by fastforce
  next
    case False
    have "leads iw (x, v', s' @ ?close) s' (hd es, ?v, rest)"
      using leads_close [OF assms(1,2) b(3), of v0 rest True True x 1 "hd es" t] b(4) Cons.prems(3) [of 0] False
      by (simp add: hd_conv_nth)
    moreover have "leads iw (hd es, ?v, rest) (concat (map g es)) (e, settled v0, t)"
    proof (rule Cons.IH [OF _ False])
      show "iw_next iw (es ! i) = (1, es ! Suc i)" if "Suc i < length es" for i using Cons.prems(3) [of "Suc i"] that by simp
    qed (use Cons.prems False in auto)
    ultimately have "leads iw (x, ?v, rest) (out @ s' @ concat (map g es)) (e, settled v0, t)" using leads_trans b(1) by blast
    then show ?thesis using b(2) by (simp add: append_assoc [symmetric] del: append_assoc)
  qed
qed simp

lemma goes_section_repeat:
  assumes "iw_emit iw = iwrap_emit" "plain_name n" "iw_enter iw e n = (1, hd es)"
    and "\<And>x. x \<in> set es \<Longrightarrow> goes iw x True k u (g x)" "es \<noteq> []"
    and "\<And>i. Suc i < length es \<Longrightarrow> iw_next iw (es ! i) = (1, es ! Suc i)"
    and "iw_next iw (last es) = (0, e'')" "snd (iw_leave iw e'') = e"
  shows "goes iw e True (Suc k) (sec_text False n u) (concat (map g es))"
proof (rule goesI)
  fix v s t
  assume v: "pending v s" "pv_enabled v = True" "length (pv_stack v) + Suc k \<le> MUSTACH_MAX_DEPTH"
  let ?rest = "u @ ''{{'' @ (CHR ''/'' # n) @ ''}}'' @ t"
  have "leads iw (e, v, s @ ''{{'' @ (CHR ''#'' # n) @ ''}}'' @ ?rest) s (hd es, sec_vars v n ?rest True True, ?rest)"
    using leads_open [OF assms(1) v(1) assms(2), of e 1 "hd es" False ?rest] v(2,3) assms(3) by simp
  from leads_trans [OF this leads_repeat [OF assms(1,2) v(1) v(2) [simplified] v(3) assms(4-8) refl]]
  show "leads iw (e, v, s @ sec_text False n u @ t) (if True then s @ concat (map g es) else []) (e, settled v, t)"
    by (simp add: sec_text_def)
qed

section \<open>Equivalence\<close>

definition item_state :: "'j mustach_json \<Rightarrow> 'j expl \<Rightarrow> 'j \<Rightarrow> nat \<Rightarrow> 'j expl" where
  "item_state mj e x i =
     e\<lparr>ex_stack := \<lparr>xi_cont = Some x, xi_obj = jl_items (mj_json mj) x ! i, xi_index = i, xi_count = length (jl_items (mj_json mj) x)\<rparr> # ex_stack e\<rparr>"

definition value_state :: "'j expl \<Rightarrow> 'j \<Rightarrow> 'j expl" where
  "value_state e x = e\<lparr>ex_stack := \<lparr>xi_cont = None, xi_obj = x, xi_index = 0, xi_count = 1\<rparr> # ex_stack e\<rparr>"

lemma state_objs [simp]:
  "ex_objs (item_state mj e x i) = jl_items (mj_json mj) x ! i # ex_objs e" "ex_objs (value_state e x) = x # ex_objs e"
  "length (ex_stack (item_state mj e x i)) = Suc (length (ex_stack e))" "length (ex_stack (value_state e x)) = Suc (length (ex_stack e))"
  by (simp_all add: ex_objs_def item_state_def value_state_def)

text \<open>The states of the closure for each item of a section.\<close>

definition section_states :: "'j mustach_json \<Rightarrow> 'j expl \<Rightarrow> string \<Rightarrow> 'j expl list" where
  "section_states mj e n =
     (case findor (mj_json mj) (ex_objs e) n of
        None \<Rightarrow> []
      | Some x \<Rightarrow>
          if jl_type (mj_json mj) x = jtype_array then map (item_state mj e x) [0..<length (jl_items (mj_json mj) x)]
          else if jl_type (mj_json mj) x = jtype_object \<or> mj_truth mj x then [value_state e x] else [])"

lemma map_nth_fun: "map (\<lambda>i. f (xs ! i)) [0..<length xs] = map f xs"
  by (rule nth_equalityI) auto

lemma hd_map_upt: "0 < n \<Longrightarrow> hd (map f [0..<n]) = f 0"
  by (simp add: hd_map)

lemma section_states_objs: "map ex_objs (section_states mj e n) = map (\<lambda>x. x # ex_objs e) (section_items mj (ex_objs e) n)"
proof (cases "findor (mj_json mj) (ex_objs e) n")
  case (Some x)
  have "map ex_objs (map (item_state mj e x) [0..<length (jl_items (mj_json mj) x)]) = map (\<lambda>x. x # ex_objs e) (jl_items (mj_json mj) x)"
    using map_nth_fun [of "\<lambda>x. x # ex_objs e" "jl_items (mj_json mj) x"] by (simp add: comp_def)
  then show ?thesis using Some by (simp add: section_states_def section_items_def)
qed (simp add: section_states_def section_items_def)

lemma section_states_length: "x \<in> set (section_states mj e n) \<Longrightarrow> length (ex_stack x) = Suc (length (ex_stack e))"
  by (auto simp: section_states_def split: option.splits if_splits)

lemma enter_states:
  assumes "length (ex_stack e) < MAX_DEPTH"
  shows "ex_enter mj e n = (if section_states mj e n = [] then (0, e) else (1, hd (section_states mj e n)))"
proof (cases "findor (mj_json mj) (ex_objs e) n")
  case None
  then show ?thesis using assms by (simp add: ex_enter_def section_states_def)
next
  case (Some x)
  show ?thesis
  proof (cases "jl_type (mj_json mj) x = jtype_array")
    case True
    show ?thesis
    proof (cases "jl_items (mj_json mj) x")
      case (Cons y ys)
      then have "hd (map (item_state mj e x) [0..<length (jl_items (mj_json mj) x)]) = item_state mj e x 0"
        by (intro hd_map_upt) simp
      then show ?thesis using assms Some True Cons by (simp add: ex_enter_def section_states_def item_state_def)
    qed (use assms Some True in \<open>simp add: ex_enter_def section_states_def\<close>)
  qed (use assms Some in \<open>simp add: ex_enter_def section_states_def value_state_def\<close>)
qed

lemma leave_state:
  assumes "ex_stack e \<noteq> []" "x \<in> set (section_states mj e n)"
  shows "snd (ex_leave x) = e"
  using assms
  by (auto simp: section_states_def item_state_def value_state_def ex_leave_def neq_Nil_conv split: option.splits if_splits)

lemma next_states:
  assumes "ex_stack e \<noteq> []" "es = section_states mj e n"
  shows "Suc i < length es \<Longrightarrow> ex_next mj (es ! i) = (1, es ! Suc i)"
    and "es \<noteq> [] \<Longrightarrow> \<exists>e''. ex_next mj (last es) = (0, e'') \<and> snd (ex_leave e'') = e"
proof -
  obtain c cs where c: "ex_stack e = c # cs" using assms(1) by (cases "ex_stack e") auto
  show "ex_next mj (es ! i) = (1, es ! Suc i)" if "Suc i < length es"
    using that c unfolding assms(2)
    by (auto simp: section_states_def item_state_def ex_next_def Let_def split: option.splits if_splits)
  show "\<exists>e''. ex_next mj (last es) = (0, e'') \<and> snd (ex_leave e'') = e" if "es \<noteq> []"
    using that c unfolding assms(2)
    by (auto simp: section_states_def item_state_def value_state_def ex_next_def ex_leave_def last_map Let_def split: option.splits if_splits)
qed

lemma put_value: "ex_put mj e n True = (0, concat (map print_char (value_of mj (ex_objs e) n)))"
    "ex_put mj e n False = (0, value_of mj (ex_objs e) n)"
  by (auto simp: ex_put_def value_of_def print_def split: option.splits)

lemma node_depth_mem: "d \<in> set b \<Longrightarrow> node_depth d \<le> foldr max (map node_depth b) 0"
  by (induction b) auto

lemma goes_body:
  assumes "\<And>d e en. d \<in> set b \<Longrightarrow> node_ok d \<Longrightarrow> node_depth d + length (ex_stack e) \<le> MAX_DEPTH \<Longrightarrow> ex_stack e \<noteq> [] \<Longrightarrow>
      goes iw e en (node_depth d) (node_text d) (render mj d (ex_objs e))"
    and "list_all node_ok b" "foldr max (map node_depth b) 0 + length (ex_stack x) \<le> MAX_DEPTH" "ex_stack x \<noteq> []"
  shows "goes iw x en (foldr max (map node_depth b) 0) (concat (map node_text b)) (concat (map (\<lambda>d. render mj d (ex_objs x)) b))"
proof (rule goes_concat)
  fix d
  assume d: "d \<in> set b"
  have "node_ok d" using assms(2) d by (simp add: list_all_iff)
  moreover have "node_depth d + length (ex_stack x) \<le> MAX_DEPTH" using assms(3) node_depth_mem [OF d] by simp
  ultimately have "goes iw x en (node_depth d) (node_text d) (render mj d (ex_objs x))" using assms(1) [OF d _ _ assms(4)] by simp
  then show "goes iw x en (foldr max (map node_depth b) 0) (node_text d) (render mj d (ex_objs x))"
    using node_depth_mem [OF d] by (rule goes_mono)
qed

text \<open>
  Sections: the body is given for its states. What a text that is not enabled would give does
  not matter.
\<close>

lemma goes_disabled: "goes iw e False k u r \<Longrightarrow> goes iw e False k u r'"
  by (simp add: goes_def)

lemma goes_sec:
  assumes "plain_name n" "length (ex_stack e) < MAX_DEPTH" "ex_stack e \<noteq> []"
    and body: "\<And>x en. x = e \<or> x \<in> set (section_states mj e n) \<Longrightarrow> goes (apply_iwrap mj) x en k u (g x)"
  shows "goes (apply_iwrap mj) e en (Suc k) (sec_text False n u) (concat (map g (section_states mj e n)))"
proof (cases "en \<and> section_states mj e n \<noteq> []")
  case True
  let ?es = "section_states mj e n"
  obtain e'' where "ex_next mj (last ?es) = (0, e'')" "snd (ex_leave e'') = e"
    using next_states(2) [OF assms(3) refl, of mj n] True by blast
  moreover have "ex_enter mj e n = (1, hd ?es)" using enter_states [OF assms(2), of mj n] True by simp
  ultimately show ?thesis
    using goes_section_repeat [of "apply_iwrap mj" n e ?es k u g e''] body next_states(1) [OF assms(3) refl] True assms(1) by simp
next
  case False
  have "(if en then iw_enter (apply_iwrap mj) e n else (0, e)) = (0, e)" using enter_states [OF assms(2), of mj n] False by auto
  from goes_section_once [OF _ assms(1) body [of e False] this, of False]
  have "goes (apply_iwrap mj) e en (Suc k) (sec_text False n u) []" by simp
  then show ?thesis using False by (cases en) (auto intro: goes_disabled)
qed

lemma goes_inv:
  assumes "plain_name n" "length (ex_stack e) < MAX_DEPTH" "ex_stack e \<noteq> []"
    and body: "\<And>x en. x = e \<or> x \<in> set (section_states mj e n) \<Longrightarrow> goes (apply_iwrap mj) x en k u (g x)"
  shows "goes (apply_iwrap mj) e en (Suc k) (sec_text True n u) (if section_states mj e n = [] then g e else [])"
proof (cases "en \<and> section_states mj e n \<noteq> []")
  case True
  let ?x = "hd (section_states mj e n)"
  have x: "?x \<in> set (section_states mj e n)" using True by simp
  have "ex_enter mj e n = (1, ?x)" using enter_states [OF assms(2), of mj n] True by simp
  then show ?thesis
    using goes_section_once [OF _ assms(1) body [of ?x False], of en e 1 True ?x] x leave_state [OF assms(3) x] True by simp
next
  case False
  have enter: "(if en then ex_enter mj e n else (0, e)) = (0, e)" using enter_states [OF assms(2), of mj n] False by auto
  show ?thesis
  proof (cases en)
    case True
    then show ?thesis using goes_section_once [OF _ assms(1) body [of e True], of True e 0 True e] enter False by simp
  next
    case False
    then have "goes (apply_iwrap mj) e en (Suc k) (sec_text True n u) []"
      using goes_section_once [OF _ assms(1) body [of e False], of False e 0 True e] enter by simp
    with False show ?thesis by (auto intro: goes_disabled)
  qed
qed

lemma sec_text_node:
  "node_text (Sec n b) = sec_text False n (concat (map node_text b))"
  "node_text (Inv n b) = sec_text True n (concat (map node_text b))"
  by (simp_all add: sec_text_def)

lemma goes_node:
  assumes "node_ok d" "node_depth d + length (ex_stack e) \<le> MAX_DEPTH" "ex_stack e \<noteq> []"
  shows "goes (apply_iwrap mj) e en (node_depth d) (node_text d) (render mj d (ex_objs e))"
  using assms
proof (induction d arbitrary: e en)
  case (Lit x)
  then show ?case by (simp add: goes_lit)
next
  case (Val n)
  then show ?case using goes_value [of "apply_iwrap mj" n e True _ en 0] by (simp add: put_value)
next
  case (Raw n)
  then show ?case using goes_value [of "apply_iwrap mj" n e False _ en 0] by (simp add: put_value)
next
  case (Sec n b)
  have "goes (apply_iwrap mj) x en (foldr max (map node_depth b) 0) (concat (map node_text b)) (concat (map (\<lambda>d. render mj d (ex_objs x)) b))"
    if "x = e \<or> x \<in> set (section_states mj e n)" for x en
    by (rule goes_body [OF Sec.IH]) (use that Sec.prems section_states_length [of x mj e n] in auto)
  from goes_sec [of n e mj, OF _ _ Sec.prems(3) this, where en = en] Sec.prems
  show ?case using arg_cong [OF section_states_objs, of "map (\<lambda>st. concat (map (\<lambda>d. render mj d st) b))" mj e n]
    by (simp add: sec_text_node comp_def del: node_text.simps)
next
  case (Inv n b)
  have "goes (apply_iwrap mj) x en (foldr max (map node_depth b) 0) (concat (map node_text b)) (concat (map (\<lambda>d. render mj d (ex_objs x)) b))"
    if "x = e \<or> x \<in> set (section_states mj e n)" for x en
    by (rule goes_body [OF Inv.IH]) (use that Inv.prems section_states_length [of x mj e n] in auto)
  from goes_inv [of n e mj, OF _ _ Inv.prems(3) this, where en = en] Inv.prems
  show ?case using arg_cong [OF section_states_objs, of "\<lambda>xs. xs = []" mj e n] by (simp add: sec_text_node del: node_text.simps)
qed

definition template_text :: "node list \<Rightarrow> string" where
  "template_text ds = concat (map node_text ds)"

definition template_ok :: "node list \<Rightarrow> bool" where
  "template_ok ds \<longleftrightarrow> list_all node_ok ds \<and> list_all (\<lambda>d. node_depth d < MAX_DEPTH) ds"

lemma process_render:
  assumes "template_ok ds" "CHR ''{'' \<notin> set s" "line_state 1 s = 0" "CHR ''{'' \<notin> set t"
  shows "\<exists>k. \<forall>n\<ge>k. process n (apply_iwrap mj) (ex_initial root) (s @ template_text ds @ t) =
    Some (0, s @ concat (map (\<lambda>d. render mj d [root]) ds) @ t, ex_initial root)"
proof -
  let ?iw = "apply_iwrap mj" and ?e = "ex_initial root" and ?v = "pv_initial []"
  have e: "ex_stack ?e \<noteq> []" "length (ex_stack ?e) = 1" "ex_objs ?e = [root]" by (simp_all add: ex_initial_def ex_objs_def)
  have "goes ?iw ?e True 255 (template_text ds) (concat (map (\<lambda>d. render mj d (ex_objs ?e)) ds))"
    unfolding template_text_def
  proof (rule goes_concat)
    fix d
    assume "d \<in> set ds"
    then have "node_ok d" "node_depth d < MAX_DEPTH" using assms(1) by (auto simp: template_ok_def list_all_iff)
    then show "goes ?iw ?e True 255 (node_text d) (render mj d (ex_objs ?e))"
      using goes_mono [OF goes_node [of d ?e mj True]] e by (simp add: MAX_DEPTH_def)
  qed
  moreover have "pending ?v s" "pv_enabled ?v" "pv_stack ?v = []" using assms by (simp_all add: pending_def steady_def pv_initial_def)
  moreover note g = calculation
  obtain out s' v' where l: "leads ?iw (?e, ?v, s @ template_text ds @ t) out (?e, v', s' @ t)"
    "out @ s' = s @ concat (map (\<lambda>d. render mj d [root]) ds)" "pending v' s'" "settled v' = settled ?v"
    by (rule goesE [OF g(1,2), where t = t]) (use g(3,4) e(3) in \<open>auto simp: MUSTACH_MAX_DEPTH_def\<close>)
  then obtain k where k: "process_loop (n + k) ?iw [] ?e ?v (s @ template_text ds @ t) =
      map_option (\<lambda>(rc, out', e''). (rc, out @ out', e'')) (process_loop n ?iw [] ?e v' (s' @ t))" for n by (auto simp: leads_def)
  have "scan ?iw ?e [] v' [] (s' @ t) = (Scan_end 0, s' @ t)"
    using scan_steady_end [of ?iw v' "s' @ t" ?e "[]"] l(3) assms(4) settled_same [OF l(4)] by (simp add: pending_def pv_initial_def)
  then have "process_loop (Suc m) ?iw [] ?e v' (s' @ t) = Some (0, s' @ t, ?e)" for m by simp
  then have "process_loop (Suc m + k) ?iw [] ?e ?v (s @ template_text ds @ t) = Some (0, out @ s' @ t, ?e)" for m using k [of "Suc m"] by simp
  then have "process n ?iw ?e (s @ template_text ds @ t) = Some (0, out @ s' @ t, ?e)" if "n \<ge> Suc k" for n
    using that le_Suc_ex [OF that] by (auto simp: process_def add.commute)
  moreover have "out @ s' @ t = s @ concat (map (\<lambda>d. render mj d [root]) ds) @ t" using l(2) by (metis append_assoc)
  ultimately show ?thesis by (intro exI [of _ "Suc k"]) simp
qed

text \<open>C22: For a template made of texts, values and sections, inverted or not, nested at less than
  256 levels, whose first line begins with a text that is not blank where no tag of section
  stands alone on its line, and that ends with any text, the instantiation ends, with enough fuel, without error and gives
  what the reference definition of rendering gives for the root object: each
  section over an array is repeated for each item with the item as first context, a section
  on an object or a true value is given once, an inverted section only when the plain one gives
  nothing, and a value is the string found in the nearest context that has it.
\<close>

theorem apply_mustach_render:
  assumes "template_ok (Lit s # ds)" "s \<noteq> []" "\<not> c_isspace (hd s)" "CHR ''{'' \<notin> set t" "list_all id m"
  shows "\<exists>k. \<forall>n\<ge>k. apply_mustach n m mj (template_text (Lit s # ds) @ t) root =
    Some (0, Some (concat (map (\<lambda>d. render mj d [root]) (Lit s # ds)) @ t), tl m)"
proof -
  have s: "template_ok ds" "CHR ''{'' \<notin> set s" "line_state 0 s = 0" using assms(1) by (simp_all add: template_ok_def)
  have "line_state 1 s = 0" using s(3) assms(2,3) by (cases s) (auto split: if_splits)
  moreover have "c_alloc m = (True, tl m)" using assms(5) by (cases m) (auto simp: id_def)
  ultimately obtain k where "process n (apply_iwrap mj) (ex_initial root) (s @ template_text ds @ t) =
      Some (0, s @ concat (map (\<lambda>d. render mj d [root]) ds) @ t, ex_initial root)" if "n \<ge> k" for n
    using process_render [OF s(1,2) _ assms(4), of mj root] by blast
  with \<open>c_alloc m = (True, tl m)\<close> show ?thesis
    by (intro exI [of _ k]) (simp add: apply_mustach_def mustach_mem_def mustach_file_apply template_text_def)
qed

definition demo_template :: "node list" where
  "demo_template = [Lit ''U '', Val ''id'', Lit '':'', Sec ''p'' [Lit ''<'', Raw ''n'', Lit ''>''], Inv ''q'' [Lit ''none'']]"

theorem apply_mustach_render_witness:
  "\<exists>k. \<forall>n\<ge>k. apply_mustach n [] demo_mj (''U {{id}}:{{#p}}<{{&n}}>{{/p}}{{^q}}none{{/q}}'' @ [newline])
       (JObj [(''id'', JStr ''a%''), (''p'', JArr [JObj [(''n'', JStr ''x'')], JObj [(''n'', JStr ''y'')]])]) =
    Some (0, Some (''U a%%:<x><y>none'' @ [newline]), [])"
proof -
  let ?root = "JObj [(''id'', JStr ''a%''), (''p'', JArr [JObj [(''n'', JStr ''x'')], JObj [(''n'', JStr ''y'')]])]"
  have "template_ok demo_template" by code_simp
  moreover have "template_text demo_template = ''U {{id}}:{{#p}}<{{&n}}>{{/p}}{{^q}}none{{/q}}''" by code_simp
  moreover have "concat (map (\<lambda>d. render demo_mj d [?root]) demo_template) = ''U a%%:<x><y>none''" by code_simp
  ultimately show ?thesis
    using apply_mustach_render [of "''U ''" "tl demo_template" "[newline]" "[]" demo_mj ?root]
    by (simp add: demo_template_def c_isspace_def)
qed

end
