(* ===== verification/UnitGenerator.thy ===== *)
theory UnitGenerator
  imports UtilsJson UnitProcess Afid MustachRender
begin

text \<open>
  The generation of units from manifests (\<^verbatim>\<open>src/src/utils/unit-generator.c\<close>): each target gets an
  identifier and a port, the template is instantiated with the manifest, and the units are installed or removed.

  The functions \<^verbatim>\<open>rp_jsonc_subobject\<close> and \<^verbatim>\<open>rp_jsonc_add\<close> of rp-utils are parameters: the first
  gives the object that is the value of a key, made if it misses, the second adds a field, and
  both may fail. An object changed in place is put back where it was found. The installation and the removal of
  a list of units are the same loops as those of \<^verbatim>\<open>afmpkg-std.c\<close>.
\<close>

section \<open>Operations\<close>

record 'j rp_jsonc =
  rj_values :: "'j value_lib"
  rj_subobject :: "'j \<Rightarrow> string \<Rightarrow> 'j option"
  rj_add :: "'j \<Rightarrow> string \<Rightarrow> 'j \<Rightarrow> 'j option"

abbreviation rjson :: "'j rp_jsonc \<Rightarrow> 'j json_lib" where
  "rjson rj \<equiv> vjson (rj_values rj)"

text \<open>\<open>uc_new_afid\<close> acts on the state \<open>'a\<close> of the manager of identifiers.\<close>

record ('j, 'a) unitconf =
  uc_metadata :: "'j option"
  uc_new_afid :: "('a \<Rightarrow> int \<times> 'a) option"
  uc_base_http_ports :: int

definition string_targets :: string where "string_targets = ''targets''"

text \<open>The three calls that are chained for a target: whether they succeed, and the target.\<close>

definition add_metatarget :: "'j rp_jsonc \<Rightarrow> 'j \<Rightarrow> int \<Rightarrow> int \<Rightarrow> bool \<times> 'j" where
  "add_metatarget rj targ afid port =
     (let put = jl_add (rjson rj) targ ''#metatarget'' in
      case rj_subobject rj targ ''#metatarget'' of
        None \<Rightarrow> (False, targ)
      | Some obj \<Rightarrow>
          (case rj_add rj obj ''afid'' (vl_new_int (rj_values rj) afid) of
             None \<Rightarrow> (False, put obj)
           | Some obj1 \<Rightarrow>
               (case rj_add rj obj1 ''http-port'' (vl_new_int (rj_values rj) port) of
                  None \<Rightarrow> (False, put obj1)
                | Some obj2 \<Rightarrow> (True, put obj2))))"

fun add_metatargets :: "'j rp_jsonc \<Rightarrow> ('j, 'a) unitconf \<Rightarrow> 'j list \<Rightarrow> 'a \<Rightarrow> int \<times> 'j list \<times> 'a" where
  "add_metatargets rj config [] a = (0, [], a)"
| "add_metatargets rj config (targ # ts) a =
     (let (afid, port, a1) =
        (case uc_new_afid config of
           None \<Rightarrow> (0, 0, a)
         | Some f \<Rightarrow> let (afid, a1) = f a in (afid, uc_base_http_ports config + afid, a1))
      in if uc_new_afid config \<noteq> None \<and> afid < 0 then (afid, targ # ts, a1)
         else let (ok, targ') = add_metatarget rj targ afid port in
           if \<not> ok then (- 1, targ' # ts, a1)
           else let (rc, ts', a2) = add_metatargets rj config ts a1 in (rc, targ' # ts', a2))"

definition add_metadata :: "'j rp_jsonc \<Rightarrow> ('j, 'a) unitconf \<Rightarrow> 'j \<Rightarrow> 'a \<Rightarrow> int \<times> 'j \<times> 'a" where
  "add_metadata rj config jdesc a =
     (let (rc, jdesc1, a1) =
        (case jl_get (rjson rj) jdesc string_targets of
           None \<Rightarrow> (0, jdesc, a)
         | Some targets \<Rightarrow>
             let (rc, ts, a1) = add_metatargets rj config (jl_items (rjson rj) targets) a
             in (rc, jl_add (rjson rj) jdesc string_targets (jl_put_items (rjson rj) targets ts), a1))
      in if rc \<noteq> 0 then (rc, jdesc1, a1)
         else case uc_metadata config of
                None \<Rightarrow> (0, jdesc1, a1)
              | Some meta \<Rightarrow>
                  (case rj_add rj jdesc1 ''#metadata'' meta of
                     None \<Rightarrow> (- 1, jdesc1, a1)
                   | Some jdesc2 \<Rightarrow> (0, jdesc2, a1)))"

text \<open>The description that is given to the callback is that of the manifest with its metadata.\<close>

definition internal_legacy :: "('s \<Rightarrow> 'j \<Rightarrow> unitdesc list \<Rightarrow> int \<times> 's) option \<Rightarrow> 'j \<Rightarrow> 's \<Rightarrow> unitdesc list \<Rightarrow> int \<times> 's" where
  "internal_legacy callback jdesc s units = (case callback of None \<Rightarrow> (0, s) | Some f \<Rightarrow> f s jdesc units)"

definition unit_generator_process ::
  "'j rp_jsonc \<Rightarrow> 'j unit_services \<Rightarrow> 'j \<Rightarrow> ('j, 'a) unitconf \<Rightarrow> ('s \<Rightarrow> 'j \<Rightarrow> unitdesc list \<Rightarrow> int \<times> 's) option \<Rightarrow>
   's \<times> mem \<Rightarrow> 'a \<Rightarrow> string option \<Rightarrow> int \<times> 'j \<times> ('s \<times> mem) \<times> 'a \<times> string option" where
  "unit_generator_process rj us jdesc config callback cl a template =
     (let (rc, jdesc1, a1) = add_metadata rj config jdesc a in
      if rc \<noteq> 0 then (rc, jdesc1, cl, a1, template)
      else let (rc, cl', template') = unit_process_split us jdesc1 (Some (internal_legacy callback jdesc1)) cl template
           in (rc, jdesc1, cl', a1, template'))"

definition unit_generator_install ::
  "'j rp_jsonc \<Rightarrow> 'j unit_services \<Rightarrow> string \<Rightarrow> sysd \<Rightarrow> 'j \<Rightarrow> ('j, 'a) unitconf \<Rightarrow> unit_fs \<times> mem \<Rightarrow> 'a \<Rightarrow> string option \<Rightarrow>
   int \<times> 'j \<times> (unit_fs \<times> mem) \<times> 'a \<times> string option" where
  "unit_generator_install rj us root sd manifest config cl a template =
     unit_generator_process rj us manifest config (Some (\<lambda>fs jdesc units. install_units root sd units fs)) cl a template"

definition unit_generator_uninstall ::
  "'j rp_jsonc \<Rightarrow> 'j unit_services \<Rightarrow> string \<Rightarrow> sysd \<Rightarrow> 'j \<Rightarrow> ('j, 'a) unitconf \<Rightarrow> unit_fs \<times> mem \<Rightarrow> 'a \<Rightarrow> string option \<Rightarrow>
   int \<times> 'j \<times> (unit_fs \<times> mem) \<times> 'a \<times> string option" where
  "unit_generator_uninstall rj us root sd manifest config cl a template =
     unit_generator_process rj us manifest config (Some (\<lambda>fs jdesc units. uninstall_units root sd units fs)) cl a template"

section \<open>Identifiers of targets\<close>

text \<open>A target has its identifier and its port.\<close>

definition has_meta :: "'j rp_jsonc \<Rightarrow> 'j \<Rightarrow> int \<Rightarrow> int \<Rightarrow> bool" where
  "has_meta rj targ afid port \<longleftrightarrow> (\<exists>obj. jl_get (rjson rj) targ ''#metatarget'' = Some obj \<and>
     jl_get (rjson rj) obj ''afid'' = Some (vl_new_int (rj_values rj) afid) \<and>
     jl_get (rjson rj) obj ''http-port'' = Some (vl_new_int (rj_values rj) port))"

locale jsonc_laws = value_laws "rj_values rj" for rj :: "'j rp_jsonc" +
  assumes add_get: "rj_add rj obj k v = Some obj' \<Longrightarrow> jl_get (rjson rj) obj' k' = (if k' = k then Some v else jl_get (rjson rj) obj k')"
    and sub_object: "rj_subobject rj targ k = Some obj \<Longrightarrow> jl_type (rjson rj) targ = jtype_object"
begin

lemma add_metatarget_meta:
  assumes "add_metatarget rj targ afid port = (True, targ')"
  shows "has_meta rj targ' afid port" "k \<noteq> ''#metatarget'' \<Longrightarrow> jl_get (rjson rj) targ' k = jl_get (rjson rj) targ k"
proof -
  obtain obj obj1 obj2 where o: "rj_subobject rj targ ''#metatarget'' = Some obj"
    "rj_add rj obj ''afid'' (vl_new_int (rj_values rj) afid) = Some obj1"
    "rj_add rj obj1 ''http-port'' (vl_new_int (rj_values rj) port) = Some obj2"
    "targ' = jl_add (rjson rj) targ ''#metatarget'' obj2"
    using assms by (auto simp: add_metatarget_def Let_def split: option.splits)
  note t = sub_object [OF o(1)]
  show "has_meta rj targ' afid port" using add_get [OF o(2)] add_get [OF o(3)] get_add [OF t] by (simp add: has_meta_def o(4))
  show "jl_get (rjson rj) targ' k = jl_get (rjson rj) targ k" if "k \<noteq> ''#metatarget''" using get_add [OF t] that by (simp add: o(4))
qed

text \<open>The identifiers that are given one after the other.\<close>

lemma add_metatargets_meta:
  assumes "add_metatargets rj config ts a = (0, ts', a')" "uc_new_afid config = Some f"
  shows "\<exists>ids as. length ids = length ts \<and> length as = length ts \<and> length ts' = length ts \<and> list_all (\<lambda>i. i \<ge> 0) ids \<and>
    (\<forall>i < length ts. f ((a # as) ! i) = (ids ! i, as ! i) \<and> has_meta rj (ts' ! i) (ids ! i) (uc_base_http_ports config + ids ! i) \<and>
       (\<forall>k. k \<noteq> ''#metatarget'' \<longrightarrow> jl_get (rjson rj) (ts' ! i) k = jl_get (rjson rj) (ts ! i) k)) \<and>
    a' = last (a # as)"
  using assms(1)
proof (induction ts arbitrary: a ts')
  case Nil
  then show ?case by auto
next
  case (Cons t ts)
  obtain id a1 where f: "f a = (id, a1)" by fastforce
  have id: "id \<ge> 0" using Cons.prems f assms(2) by (auto split: if_splits)
  obtain ok t' where m: "add_metatarget rj t id (uc_base_http_ports config + id) = (ok, t')" by fastforce
  have "ok" using Cons.prems f assms(2) id m by (auto split: if_splits)
  then obtain ts1 where r: "add_metatargets rj config ts a1 = (0, ts1, a')" "ts' = t' # ts1"
    using Cons.prems f assms(2) id m by (auto split: if_splits prod.splits)
  from Cons.IH [OF r(1)] obtain ids as where ih: "length ids = length ts" "length as = length ts" "length ts1 = length ts"
    "list_all (\<lambda>i. i \<ge> 0) ids" "a' = last (a1 # as)"
    "\<forall>i < length ts. f ((a1 # as) ! i) = (ids ! i, as ! i) \<and> has_meta rj (ts1 ! i) (ids ! i) (uc_base_http_ports config + ids ! i) \<and>
       (\<forall>k. k \<noteq> ''#metatarget'' \<longrightarrow> jl_get (rjson rj) (ts1 ! i) k = jl_get (rjson rj) (ts ! i) k)" by blast
  note mt = add_metatarget_meta [OF m [unfolded eqTrueI [OF \<open>ok\<close>]]]
  show ?case
    by (rule exI [of _ "id # ids"], rule exI [of _ "a1 # as"])
       (use ih f id mt r(2) in \<open>auto simp: nth_Cons' less_Suc_eq_0_disj\<close>)
qed

lemma add_metadata_targets:
  assumes "add_metadata rj config jdesc a = (0, jdesc', a')" "jl_get (rjson rj) jdesc string_targets = Some targets"
    and "jl_type (rjson rj) targets = jtype_array"
  shows "\<exists>targets' ts'. jl_get (rjson rj) jdesc' string_targets = Some targets' \<and> jl_items (rjson rj) targets' = ts' \<and>
    add_metatargets rj config (jl_items (rjson rj) targets) a = (0, ts', a')"
proof -
  obtain rc ts a1 where m: "add_metatargets rj config (jl_items (rjson rj) targets) a = (rc, ts, a1)" by (metis prod_cases3)
  let ?t = "jl_put_items (rjson rj) targets ts"
  let ?j = "jl_add (rjson rj) jdesc string_targets ?t"
  have j: "jl_get (rjson rj) ?j string_targets = Some ?t" using get_add [OF get_object [OF assms(2)]] by simp
  have "rc = 0" "a' = a1" using assms(1,2) m by (auto simp: add_metadata_def split: if_splits option.splits)
  moreover have "jl_get (rjson rj) jdesc' string_targets = Some ?t"
  proof (cases "uc_metadata config")
    case None
    then show ?thesis using assms(1,2) m j by (auto simp: add_metadata_def split: if_splits)
  next
    case (Some meta)
    then obtain j2 where "rj_add rj ?j ''#metadata'' meta = Some j2" "jdesc' = j2"
      using assms(1,2) m by (auto simp: add_metadata_def split: if_splits option.splits)
    then show ?thesis using add_get [of ?j "''#metadata''" meta j2 string_targets] j by (simp add: string_targets_def)
  qed
  ultimately show ?thesis using m put_items(1) [OF assms(3)] by blast
qed

end

text \<open>The manager of identifiers, called again and again while some are free.\<close>

lemma not_all_given:
  assumes "card (declared_afids env) + length ids < 1999"
  shows "declared_afids env \<union> nat ` set ids \<noteq> afid_range"
proof
  assume "declared_afids env \<union> nat ` set ids = afid_range"
  moreover have "card afid_range = 1999" by (simp add: afid_range_def)
  ultimately have "1999 \<le> card (declared_afids env) + card (nat ` set ids)" using card_Un_le by metis
  moreover have "card (nat ` set ids) \<le> length ids" using card_image_le [of "set ids" nat] card_length [of ids] by simp
  ultimately show False using assms by simp
qed

lemma get_new_afid_sequence:
  assumes "\<forall>i < length ids. get_new_afid env ((afid_initial # sts) ! i) = (ids ! i, sts ! i)" "length sts = length ids"
    and "list_all (\<lambda>i. i \<ge> 0) ids" "card (declared_afids env) + length ids \<le> 1999"
  shows "distinct ids \<and> (\<forall>r \<in> set ids. AFID_IS_VALID r \<and> nat r \<notin> declared_afids env) \<and>
    (ids \<noteq> [] \<longrightarrow> init_done (last sts) \<and> afids_ok (afids_array (last sts)) \<and>
       used_afids (afids_array (last sts)) = declared_afids env \<union> nat ` set ids \<and> finite (declared_afids env))"
  using assms
proof (induction ids arbitrary: sts rule: rev_induct)
  case (snoc r ids)
  obtain ss st where sts: "sts = ss @ [st]" "length ss = length ids" using snoc.prems(2) by (cases sts rule: rev_cases) auto
  have step: "get_new_afid env (last (afid_initial # ss)) = (r, st)"
  proof -
    have "(afid_initial # sts) ! length ids = last (afid_initial # ss)"
      unfolding sts(1) sts(2) [symmetric] by (cases ss rule: rev_cases) (simp_all add: nth_append)
    moreover have "sts ! length ids = st" using sts by (simp add: nth_append)
    ultimately show ?thesis using snoc.prems(1) [rule_format, of "length ids"] by simp
  qed
  have prev: "\<forall>i < length ids. get_new_afid env ((afid_initial # ss) ! i) = (ids ! i, ss ! i)"
  proof (intro allI impI)
    fix i assume "i < length ids"
    with snoc.prems(1) [rule_format, of i] sts show "get_new_afid env ((afid_initial # ss) ! i) = (ids ! i, ss ! i)"
      by (auto simp: nth_append nth_Cons' split: if_splits)
  qed
  have ids: "list_all (\<lambda>i. i \<ge> 0) ids" "0 \<le> r" using snoc.prems(3) by auto
  have ih: "distinct ids" "\<forall>r \<in> set ids. AFID_IS_VALID r \<and> nat r \<notin> declared_afids env"
    "ids \<noteq> [] \<longrightarrow> init_done (last ss) \<and> afids_ok (afids_array (last ss)) \<and>
       used_afids (afids_array (last ss)) = declared_afids env \<union> nat ` set ids \<and> finite (declared_afids env)"
    using snoc.IH [OF prev sts(2) ids(1)] snoc.prems(4) by auto
  let ?st = "last (afid_initial # ss)"
  have init: "ids = [] \<Longrightarrow> \<not> init_done ?st" using sts(2) by (simp add: afid_initial_def)
  have "init_done ?st \<longrightarrow> afids_ok (afids_array ?st)" using ih(3) init sts(2) by (cases "ids = []") auto
  from get_new_afid_steps [OF step this ids(2)] obtain x where x: "r = int x" "x \<in> afid_range"
    "x \<notin> (if init_done ?st \<and> used_afids (afids_array ?st) \<noteq> afid_range then used_afids (afids_array ?st) else declared_afids env)"
    "init_done st" "afids_ok (afids_array st)"
    "used_afids (afids_array st) = insert x (if init_done ?st \<and> used_afids (afids_array ?st) \<noteq> afid_range then used_afids (afids_array ?st) else declared_afids env)"
    by blast
  have used: "(if init_done ?st \<and> used_afids (afids_array ?st) \<noteq> afid_range then used_afids (afids_array ?st) else declared_afids env) =
      declared_afids env \<union> nat ` set ids"
  proof (cases "ids = []")
    case False
    then have "used_afids (afids_array ?st) = declared_afids env \<union> nat ` set ids" "init_done ?st" using ih(3) sts(2) by auto
    moreover have "declared_afids env \<union> nat ` set ids \<noteq> afid_range" by (rule not_all_given) (use snoc.prems(4) in simp)
    ultimately show ?thesis by simp
  qed (use init in simp)
  note u = x(3,6) [unfolded used]
  have "finite (used_afids (afids_array st))" by (simp add: used_afids_def afid_range_def)
  then have "finite (declared_afids env)" unfolding u(2) by simp
  moreover have "r \<notin> set ids" using x(1) u(1) by force
  moreover have "used_afids (afids_array st) = declared_afids env \<union> nat ` set (ids @ [r])" unfolding u(2) using x(1) by simp
  moreover have "nat r \<notin> declared_afids env" using x(1) u(1) by simp
  moreover have "AFID_IS_VALID r" using afid_range_valid [OF x(2)] x(1) by simp
  ultimately show ?case using ih(1,2) x(4,5) sts(1) by simp
qed simp

section \<open>JSON values as data\<close>

definition json_rp_data :: "json rp_jsonc" where
  "json_rp_data = \<lparr>rj_values = json_value_data,
     rj_subobject = (\<lambda>j k. case j of
         JObj fs \<Rightarrow> (case map_of fs k of None \<Rightarrow> Some (JObj []) | Some (JObj gs) \<Rightarrow> Some (JObj gs) | Some _ \<Rightarrow> None)
       | _ \<Rightarrow> None),
     rj_add = (\<lambda>j k v. case j of JObj fs \<Rightarrow> Some (JObj (set_field k v fs)) | _ \<Rightarrow> None)\<rparr>"

lemma json_rp_sel [simp]: "rj_values json_rp_data = json_value_data" "vjson json_value_data = json_data"
  by (simp_all add: json_rp_data_def json_value_data_def json_array_data_def)

interpretation gen_data: jsonc_laws json_rp_data
proof (intro jsonc_laws.intro jsonc_laws_axioms.intro)
  show "value_laws (rj_values json_rp_data)" by (simp add: value_data.value_laws_axioms)
next
  fix obj k v obj' k'
  assume "rj_add json_rp_data obj k v = Some obj'"
  then show "jl_get (rjson json_rp_data) obj' k' = (if k' = k then Some v else jl_get (rjson json_rp_data) obj k')"
    by (cases obj) (auto simp: json_rp_data_def json_data_def json_value_data_def json_array_data_def map_of_set_field)
next
  fix targ k obj
  assume "rj_subobject json_rp_data targ k = Some obj"
  then show "jl_type (rjson json_rp_data) targ = jtype_object"
    by (cases targ) (auto simp: json_rp_data_def json_data_def json_value_data_def json_array_data_def)
qed

section \<open>Units of a manifest\<close>

text \<open>The template engine of the program in its place among the services.\<close>

definition engine_services :: "'j unit_services \<Rightarrow> nat \<Rightarrow> 'j mustach_json \<Rightarrow> 'j unit_services" where
  "engine_services us n mj = us\<lparr>us_apply_mustach := (\<lambda>template jdesc.
     case apply_mustach n [] mj template jdesc of
       Some (rc, Some result, m) \<Rightarrow> (rc, result)
     | _ \<Rightarrow> (- 1, []))\<rparr>"

lemma engine_renders:
  assumes "template_ok (Lit s # ds)" "s \<noteq> []" "\<not> c_isspace (hd s)" "CHR ''{'' \<notin> set t"
  shows "\<exists>k. \<forall>n\<ge>k. us_apply_mustach (engine_services us n mj) (template_text (Lit s # ds) @ t) root =
    (0, concat (map (\<lambda>d. render mj d [root]) (Lit s # ds)) @ t)"
proof -
  have s: "template_ok ds" "CHR ''{'' \<notin> set s" "line_state 0 s = 0" using assms(1) by (simp_all add: template_ok_def)
  have "line_state 1 s = 0" using s(3) assms(2,3) by (cases s) (auto split: if_splits)
  then obtain k where "process n (apply_iwrap mj) (ex_initial root) (s @ template_text ds @ t) =
      Some (0, s @ concat (map (\<lambda>d. render mj d [root]) ds) @ t, ex_initial root)" if "n \<ge> k" for n
    using process_render [OF s(1,2) _ assms(4), of mj root] by blast
  then show ?thesis
    by (intro exI [of _ k]) (simp add: engine_services_def apply_mustach_def mustach_mem_def mustach_file_apply template_text_def)
qed

text \<open>C8: When the manifest, completed by its metadata, is applied to a template whose rendering, once the
  duplicate slashes are removed, is made of blocks of units, the installation from the manifest is,
  for enough fuel of the engine, the installation of exactly the units that the lines of the blocks describe, in their order:
  the result and the files are those of that installation, and the identifiers given are recorded.
\<close>

theorem generator_installs_rendered_units:
  assumes "template_ok (Lit s # ds)" "s \<noteq> []" "\<not> c_isspace (hd s)" "CHR ''{'' \<notin> set t"
    and "add_metadata rj config manifest a = (0, jdesc, a')"
    and "dedup_slashes (concat (map (\<lambda>d. render mj d [jdesc]) (Lit s # ds)) @ t) = concat (map unit_block bodies)"
    and "\<forall>ls \<in> set bodies. \<forall>l \<in> set ls. inner_line l" "bodies \<noteq> []"
  shows "\<exists>k. \<forall>n\<ge>k. unit_generator_install rj (engine_services us n mj) root sd manifest config (fs, []) a (Some (template_text (Lit s # ds) @ t)) =
    (let (rc, fs') = install_units root sd (map (\<lambda>ls. fst (process_one_unit [] (unlines ls))) bodies) fs
     in (rc, jdesc, (fs', []), a', Some (template_text (Lit s # ds) @ t)))"
proof -
  have "corpus_split [] (concat (map unit_block bodies)) =
     (int (length bodies), map (\<lambda>ls. fst (process_one_unit [] (unlines ls))) bodies, [])"
    unfolding corpus_split_def corpus_loop_blocks [OF assms(7)] by simp
  note split = this
  from engine_renders [OF assms(1-4), of us mj jdesc] obtain k where
    "us_apply_mustach (engine_services us n mj) (template_text (Lit s # ds) @ t) jdesc =
       (0, concat (map (\<lambda>d. render mj d [jdesc]) (Lit s # ds)) @ t)" if "n \<ge> k" for n by blast
  then show ?thesis
    using split assms(6,8)
    by (intro exI [of _ k])
       (simp add: unit_generator_install_def unit_generator_process_def unit_process_split_def unit_process_raw_def
          internal_for_split_def internal_legacy_def assms(5) Let_def case_prod_unfold)
qed

definition demo_unit_template :: "node list" where
  "demo_unit_template =
     [Lit ''%'', Lit (''begin systemd-unit'' @ newline # ''%systemd-unit user'' @ newline # ''%systemd-unit service  afm-''), Val ''id'']"

definition demo_unit_end :: string where
  "demo_unit_end = newline # ''[Unit]'' @ newline # ''%end systemd-unit'' @ [newline]"

definition demo_config :: "(json, afid_state) unitconf" where
  "demo_config = \<lparr>uc_metadata = None, uc_new_afid = Some (get_new_afid sample_env), uc_base_http_ports = 29000\<rparr>"

theorem generator_installs_rendered_units_witness:
  "\<forall>us sd fs. \<exists>k. \<forall>n\<ge>k. unit_generator_install json_rp_data (engine_services us n demo_mj) ''/u'' sd (JObj [(''id'', JStr ''a'')]) demo_config
       (fs, []) afid_initial (Some (template_text demo_unit_template @ demo_unit_end)) =
    (let (rc, fs') = install_units ''/u'' sd
           [\<lparr>u_scope = unitscope_user, u_type = unittype_service, u_name = Some ''afm-a'', u_content = ''[Unit]'' @ [newline], u_wanted_by = None\<rparr>] fs
     in (rc, JObj [(''id'', JStr ''a'')], (fs', []), afid_initial, Some (template_text demo_unit_template @ demo_unit_end)))"
proof -
  let ?m = "JObj [(''id'', JStr ''a'')]" and ?b = "[''%systemd-unit user'', ''%systemd-unit service  afm-a'', ''[Unit]'']"
  have "template_ok demo_unit_template" by code_simp
  moreover have "add_metadata json_rp_data demo_config ?m afid_initial = (0, ?m, afid_initial)"
    by (simp add: add_metadata_def demo_config_def string_targets_def json_data_def)
  moreover have "dedup_slashes (concat (map (\<lambda>d. render demo_mj d [?m]) demo_unit_template) @ demo_unit_end) = concat (map unit_block [?b])" by code_simp
  moreover have "\<forall>ls \<in> set [?b]. \<forall>l \<in> set ls. inner_line l" by (simp add: inner_line_def)
  moreover have "fst (process_one_unit [] (unlines ?b)) =
      \<lparr>u_scope = unitscope_user, u_type = unittype_service, u_name = Some ''afm-a'', u_content = ''[Unit]'' @ [newline], u_wanted_by = None\<rparr>"
    by code_simp
  ultimately show ?thesis
    using generator_installs_rendered_units [of "''%''" "tl demo_unit_template" demo_unit_end json_rp_data demo_config ?m afid_initial ?m afid_initial demo_mj "[?b]"]
    by (simp add: demo_unit_template_def demo_unit_end_def c_isspace_def)
qed

text \<open>C26: When a manifest is completed by its metadata from a fresh manager of identifiers, and the identifiers
  declared by the units in place leave enough for the targets, each target of the manifest gets its own
  identifier: the identifiers are distinct, between 1 and 1999, and no unit in place declares them. The target records it with the
  port that is the base port plus the identifier, and its other fields are unchanged.
\<close>

theorem targets_get_own_identifiers:
  fixes rj :: "'j rp_jsonc"
  assumes "jsonc_laws rj" "uc_new_afid config = Some (get_new_afid env)" "add_metadata rj config jdesc afid_initial = (0, jdesc', st')"
    and "jl_get (rjson rj) jdesc string_targets = Some targets" "jl_type (rjson rj) targets = jtype_array"
    and "card (declared_afids env) + length (jl_items (rjson rj) targets) \<le> 1999"
  shows "\<exists>targets' ids. jl_get (rjson rj) jdesc' string_targets = Some targets' \<and> length ids = length (jl_items (rjson rj) targets) \<and>
    length (jl_items (rjson rj) targets') = length ids \<and> distinct ids \<and>
    (\<forall>i < length ids. AFID_IS_VALID (ids ! i) \<and> nat (ids ! i) \<notin> declared_afids env \<and>
       has_meta rj (jl_items (rjson rj) targets' ! i) (ids ! i) (uc_base_http_ports config + ids ! i) \<and>
       (\<forall>k. k \<noteq> ''#metatarget'' \<longrightarrow>
          jl_get (rjson rj) (jl_items (rjson rj) targets' ! i) k = jl_get (rjson rj) (jl_items (rjson rj) targets ! i) k))"
proof -
  let ?ts = "jl_items (rjson rj) targets"
  obtain targets' ts' where t: "jl_get (rjson rj) jdesc' string_targets = Some targets'" "jl_items (rjson rj) targets' = ts'"
    "add_metatargets rj config ?ts afid_initial = (0, ts', st')"
    using jsonc_laws.add_metadata_targets [OF assms(1,3,4,5)] by blast
  from jsonc_laws.add_metatargets_meta [OF assms(1) t(3) assms(2)] obtain ids sts where
    m: "length ids = length ?ts" "length sts = length ?ts" "length ts' = length ?ts" "list_all (\<lambda>i. i \<ge> 0) ids"
    and each: "\<forall>i < length ?ts. get_new_afid env ((afid_initial # sts) ! i) = (ids ! i, sts ! i) \<and>
       has_meta rj (ts' ! i) (ids ! i) (uc_base_http_ports config + ids ! i) \<and>
       (\<forall>k. k \<noteq> ''#metatarget'' \<longrightarrow> jl_get (rjson rj) (ts' ! i) k = jl_get (rjson rj) (?ts ! i) k)"
    by blast
  have "distinct ids \<and> (\<forall>r \<in> set ids. AFID_IS_VALID r \<and> nat r \<notin> declared_afids env)"
    using get_new_afid_sequence [of ids env sts] each m assms(6) by simp
  then show ?thesis
    using t(1,2) m each by (intro exI [of _ targets'] exI [of _ ids]) auto
qed

definition demo_manifest :: json where
  "demo_manifest = JObj [(''id'', JStr ''a''), (''targets'', JArr [JObj [(''#target'', JStr ''main'')]])]"

theorem targets_get_own_identifiers_witness:
  "\<exists>jdesc' st' targets' r. add_metadata json_rp_data demo_config demo_manifest afid_initial = (0, jdesc', st') \<and>
     jl_get json_data jdesc' string_targets = Some targets' \<and> length (jl_items json_data targets') = 1 \<and>
     AFID_IS_VALID r \<and> nat r \<noteq> 1 \<and> has_meta json_rp_data (hd (jl_items json_data targets')) r (29000 + r)"
proof -
  let ?ts = "JArr [JObj [(''#target'', JStr ''main'')]]"
  let ?t = "JObj [(''#target'', JStr ''main''), (''#metatarget'', JObj [(''afid'', JNum (c_decimal 2)), (''http-port'', JNum (c_decimal 29002))])]"
  let ?j = "JObj [(''id'', JStr ''a''), (''targets'', JArr [?t])]"
  obtain st' where g: "get_new_afid sample_env afid_initial = (2, st')" using sample_first by (metis prod.collapse)
  have "add_metatarget json_rp_data (JObj [(''#target'', JStr ''main'')]) 2 29002 = (True, ?t)"
    by (simp add: add_metatarget_def json_rp_data_def json_value_data_def json_data_def)
  then have run: "add_metadata json_rp_data demo_config demo_manifest afid_initial = (0, ?j, st')"
    by (simp add: add_metadata_def demo_config_def demo_manifest_def g string_targets_def json_data_def)
  have new: "uc_new_afid demo_config = Some (get_new_afid sample_env)" by (simp add: demo_config_def)
  have ts: "jl_get (rjson json_rp_data) demo_manifest string_targets = Some ?ts" "jl_type (rjson json_rp_data) ?ts = jtype_array"
    by (simp_all add: demo_manifest_def string_targets_def json_data_def)
  have items: "jl_items (rjson json_rp_data) ?ts = [JObj [(''#target'', JStr ''main'')]]" by (simp add: json_data_def)
  have "card (declared_afids sample_env) + length (jl_items (rjson json_rp_data) ?ts) \<le> 1999"
    unfolding items by (simp add: sample_declared)
  from targets_get_own_identifiers [OF gen_data.jsonc_laws_axioms new run ts this]
  obtain targets' ids where r: "jl_get (rjson json_rp_data) ?j string_targets = Some targets'" "length ids = 1"
    "length (jl_items (rjson json_rp_data) targets') = length ids" "AFID_IS_VALID (ids ! 0)" "nat (ids ! 0) \<notin> declared_afids sample_env"
    "has_meta json_rp_data (jl_items (rjson json_rp_data) targets' ! 0) (ids ! 0) (uc_base_http_ports demo_config + ids ! 0)"
    unfolding items by force
  have "hd (jl_items json_data targets') = jl_items json_data targets' ! 0" by (rule hd_conv_nth) (use r(2,3) in auto)
  with r run show ?thesis
    by (intro exI [of _ ?j] exI [of _ st'] exI [of _ targets'] exI [of _ "ids ! 0"]) (simp add: sample_declared demo_config_def)
qed

end
