(* ===== verification/Auth.thy ===== *)
theory Auth
  imports AFM_Prelude
begin

text \<open>
  The check of an authorisation expression (\<^verbatim>\<open>src/src/binding/auth.c\<close>): a machine with a
  stack of bounded depth evaluates a boolean expression over permissions, asking the
  framework for each permission in turn.

  The answer of \<^verbatim>\<open>afb_req_check_permission\<close> for a permission is the parameter \<open>perm\<close>; the
  result of the model is the status given to the callback. The callback is called in every
  branch, once, because each branch ends in one result.
\<close>

section \<open>The machine\<close>

datatype afb_auth =
    afb_auth_No | afb_auth_Token | afb_auth_LOA | afb_auth_Yes
  | afb_auth_Permission string
  | afb_auth_Or afb_auth afb_auth
  | afb_auth_And afb_auth afb_auth
  | afb_auth_Not afb_auth

definition CKAUTH_STACK_DEPTH :: nat where "CKAUTH_STACK_DEPTH = 8"

text \<open>The weights that make the two functions terminate.\<close>

fun auth_weight :: "afb_auth \<Rightarrow> nat" where
  "auth_weight (afb_auth_Or a b) = auth_weight a + auth_weight b + 3"
| "auth_weight (afb_auth_And a b) = auth_weight a + auth_weight b + 3"
| "auth_weight (afb_auth_Not a) = auth_weight a + 3"
| "auth_weight _ = 3"

fun auth_pending :: "afb_auth \<Rightarrow> nat" where
  "auth_pending (afb_auth_Or a b) = auth_weight b + 1"
| "auth_pending (afb_auth_And a b) = auth_weight b + 1"
| "auth_pending _ = 1"

text \<open>
  The stack is the list of the expressions under way, its top first; \<open>idx\<close> is its length.
\<close>

function (sequential) cka_push :: "(string \<Rightarrow> int) \<Rightarrow> afb_auth list \<Rightarrow> afb_auth \<Rightarrow> int"
  and cka_pop :: "(string \<Rightarrow> int) \<Rightarrow> afb_auth list \<Rightarrow> int \<Rightarrow> int" where
  "cka_push perm st auth =
     (if length st \<ge> CKAUTH_STACK_DEPTH then - E2BIG
      else case auth of
             afb_auth_Permission p \<Rightarrow> cka_pop perm (auth # st) (perm p)
           | afb_auth_Or a b \<Rightarrow> cka_push perm (auth # st) a
           | afb_auth_And a b \<Rightarrow> cka_push perm (auth # st) a
           | afb_auth_Not a \<Rightarrow> cka_push perm (auth # st) a
           | afb_auth_Yes \<Rightarrow> cka_pop perm (auth # st) 1
           | _ \<Rightarrow> cka_pop perm (auth # st) 0)"
| "cka_pop perm [] status = status"
| "cka_pop perm (auth # st) status =
     (case auth of
        afb_auth_Or a b \<Rightarrow> if status \<le> 0 then cka_push perm st b else cka_pop perm st status
      | afb_auth_And a b \<Rightarrow> if status > 0 then cka_push perm st b else cka_pop perm st status
      | afb_auth_Not a \<Rightarrow> cka_pop perm st (if status \<le> 0 then 1 else 0)
      | _ \<Rightarrow> cka_pop perm st status)"
  by pat_completeness auto
termination
  by (relation "measure (\<lambda>x. case x of
        Inl (perm, st, auth) \<Rightarrow> auth_weight auth + sum_list (map auth_pending st)
      | Inr (perm, st, status) \<Rightarrow> sum_list (map auth_pending st))") auto

declare cka_push.simps [simp del]

definition auth_check :: "mem \<Rightarrow> (string \<Rightarrow> int) \<Rightarrow> afb_auth \<Rightarrow> int \<times> mem" where
  "auth_check m perm auth =
     (let (ok, m') = c_alloc m in if ok then (cka_push perm [] auth, m') else (- ENOMEM, m'))"

section \<open>Meaning\<close>

text \<open>The value of an expression, and the depth of stack its evaluation may use.\<close>

fun auth_value :: "(string \<Rightarrow> int) \<Rightarrow> afb_auth \<Rightarrow> int" where
  "auth_value perm (afb_auth_Permission p) = perm p"
| "auth_value perm afb_auth_Yes = 1"
| "auth_value perm (afb_auth_Or a b) =
     (if auth_value perm a > 0 then auth_value perm a else auth_value perm b)"
| "auth_value perm (afb_auth_And a b) =
     (if auth_value perm a > 0 then auth_value perm b else auth_value perm a)"
| "auth_value perm (afb_auth_Not a) = (if auth_value perm a > 0 then 0 else 1)"
| "auth_value perm _ = 0"

fun auth_depth :: "afb_auth \<Rightarrow> nat" where
  "auth_depth (afb_auth_Or a b) = max (Suc (auth_depth a)) (auth_depth b)"
| "auth_depth (afb_auth_And a b) = max (Suc (auth_depth a)) (auth_depth b)"
| "auth_depth (afb_auth_Not a) = Suc (auth_depth a)"
| "auth_depth _ = 1"

text \<open>The boolean reading: a permission holds when the framework answers a positive status.\<close>

fun auth_holds :: "(string \<Rightarrow> bool) \<Rightarrow> afb_auth \<Rightarrow> bool" where
  "auth_holds has (afb_auth_Permission p) \<longleftrightarrow> has p"
| "auth_holds has afb_auth_Yes \<longleftrightarrow> True"
| "auth_holds has (afb_auth_Or a b) \<longleftrightarrow> auth_holds has a \<or> auth_holds has b"
| "auth_holds has (afb_auth_And a b) \<longleftrightarrow> auth_holds has a \<and> auth_holds has b"
| "auth_holds has (afb_auth_Not a) \<longleftrightarrow> \<not> auth_holds has a"
| "auth_holds has _ \<longleftrightarrow> False"

lemma auth_value_holds: "auth_value perm a > 0 \<longleftrightarrow> auth_holds (\<lambda>p. perm p > 0) a"
  by (induction a) auto

lemma auth_depth_pos: "0 < auth_depth a"
  by (induction a) auto

text \<open>The evaluation of an expression on any stack.\<close>

lemma cka_push_value:
  "length st + auth_depth a \<le> CKAUTH_STACK_DEPTH \<Longrightarrow>
   cka_push perm st a = cka_pop perm st (auth_value perm a)"
proof (induction a arbitrary: st)
  case (afb_auth_Or a b)
  then show ?case by (subst cka_push.simps) (auto simp: max_def split: if_splits)
next
  case (afb_auth_And a b)
  then show ?case by (subst cka_push.simps) (auto simp: max_def split: if_splits)
next
  case (afb_auth_Not a)
  then show ?case by (subst cka_push.simps) (auto simp: not_less)
qed (simp_all add: cka_push.simps)

lemma cka_push_or_too_big:
  "cka_push perm st a = cka_pop perm st (auth_value perm a) \<or> cka_push perm st a = - E2BIG"
proof (induction a arbitrary: st)
  case (afb_auth_Or a b)
  have "cka_push perm st (afb_auth_Or a b) = - E2BIG \<or>
        cka_push perm st (afb_auth_Or a b) = cka_pop perm (afb_auth_Or a b # st) (auth_value perm a)"
    using afb_auth_Or.IH(1) [of "afb_auth_Or a b # st"] by (subst (1 2) cka_push.simps) auto
  then show ?case using afb_auth_Or.IH(2) [of st] by (auto split: if_splits)
next
  case (afb_auth_And a b)
  have "cka_push perm st (afb_auth_And a b) = - E2BIG \<or>
        cka_push perm st (afb_auth_And a b) = cka_pop perm (afb_auth_And a b # st) (auth_value perm a)"
    using afb_auth_And.IH(1) [of "afb_auth_And a b # st"] by (subst (1 2) cka_push.simps) auto
  then show ?case using afb_auth_And.IH(2) [of st] by (auto split: if_splits)
next
  case (afb_auth_Not a)
  have "cka_push perm st (afb_auth_Not a) = - E2BIG \<or>
        cka_push perm st (afb_auth_Not a) = cka_pop perm (afb_auth_Not a # st) (auth_value perm a)"
    using afb_auth_Not.IH [of "afb_auth_Not a # st"] by (subst (1 2) cka_push.simps) auto
  then show ?case by (auto split: if_splits)
qed (simp_all add: cka_push.simps)

lemma auth_check_sound: "fst (auth_check m perm a) > 0 \<Longrightarrow> auth_holds (\<lambda>p. perm p > 0) a"
  using cka_push_or_too_big [of perm "[]" a] auth_value_holds [of perm a]
  by (auto simp: auth_check_def split: prod.splits if_splits)

section \<open>Properties\<close>

text \<open>C34: the check never grants wrongly: whatever the expression and the state of memory, the
  status is positive only when the expression holds for the permissions that the framework
  grants. When memory is available and the nesting of the expression fits in the stack, the
  status is positive exactly when the expression holds.\<close>

theorem auth_check_sound_complete:
  "(fst (auth_check m perm a) > 0 \<longrightarrow> auth_holds (\<lambda>p. perm p > 0) a) \<and>
   (m = [] \<longrightarrow> auth_depth a \<le> CKAUTH_STACK_DEPTH \<longrightarrow>
      (fst (auth_check m perm a) > 0 \<longleftrightarrow> auth_holds (\<lambda>p. perm p > 0) a))"
proof
  show "fst (auth_check m perm a) > 0 \<longrightarrow> auth_holds (\<lambda>p. perm p > 0) a"
    by (simp add: auth_check_sound)
  show "m = [] \<longrightarrow> auth_depth a \<le> CKAUTH_STACK_DEPTH \<longrightarrow>
      (fst (auth_check m perm a) > 0 \<longleftrightarrow> auth_holds (\<lambda>p. perm p > 0) a)"
    using cka_push_value [of "[]" a perm] auth_value_holds [of perm a]
    by (auto simp: auth_check_def)
qed

definition sample_auth :: afb_auth where
  "sample_auth = afb_auth_And (afb_auth_Not (afb_auth_Permission ''x'')) (afb_auth_Permission ''y'')"

theorem auth_check_sound_complete_witness:
  "fst (auth_check [] (\<lambda>p. if p = ''y'' then 1 else 0) sample_auth) > 0"
  using auth_check_sound_complete [of "[]" "\<lambda>p. if p = ''y'' then 1 else 0" sample_auth]
  by (simp add: sample_auth_def CKAUTH_STACK_DEPTH_def)

end
