(* ===== verification/Wgt.thy ===== *)
theory Wgt
  imports PathEntry
begin

text \<open>
  Access to the files of a widget (\<^verbatim>\<open>src/src/wgtpkg/wgt.c\<close>): validation of the relative
  paths, list of the locales, search of the localised files.

  The system is a parameter: \<open>access fd path\<close> tells whether \<^verbatim>\<open>faccessat\<close> returns 0,
  \<open>openat fd path\<close> and \<open>dup fd\<close> give file descriptors or -1.
\<close>

section \<open>Validation of paths\<close>

text \<open>
  The loop of \<open>validsubpath\<close> on the text that remains and the level; \<open>skip_name\<close> is the
  body of its default case, entered with the text after what was read of the name.
\<close>

definition skip_name :: "int \<Rightarrow> string \<Rightarrow> int \<times> string" where
  "skip_name l s = (if l \<ge> 0 then l + 1 else l, dropWhile (\<lambda>c. c \<noteq> slash) s)"

definition subpath_step :: "int \<Rightarrow> char \<Rightarrow> string \<Rightarrow> int \<times> string" where
  "subpath_step l c r =
     (if c = CHR ''.'' then
        (case r of
           [] \<Rightarrow> (l, [])
         | x # r1 \<Rightarrow>
             if x = slash then (l, r1)
             else if x = CHR ''.'' then
               (case r1 of
                  [] \<Rightarrow> (l - 1, [])
                | y # r2 \<Rightarrow> if y = slash then (l - 1, r2) else skip_name l r2)
             else skip_name l r1)
      else if c = slash then (l, r)
      else skip_name l r)"

lemma subpath_step_shorter: "length (snd (subpath_step l c r)) \<le> length r"
proof -
  have "length (snd (skip_name l s)) \<le> length s" for s
    by (simp add: skip_name_def length_dropWhile_le)
  from this [of r] this [of "tl r"] this [of "tl (tl r)"] show ?thesis
    by (auto simp: subpath_step_def split: list.splits)
qed

function validsubpath_loop :: "int \<Rightarrow> string \<Rightarrow> int" where
  "validsubpath_loop l s =
     (case s of [] \<Rightarrow> l
      | c # r \<Rightarrow> validsubpath_loop (fst (subpath_step l c r)) (snd (subpath_step l c r)))"
  by pat_completeness auto
termination
  by (relation "measure (\<lambda>(l, s). length s)") (auto simp: less_Suc_eq_le subpath_step_shorter case_prod_unfold)

declare validsubpath_loop.simps [simp del]

definition validsubpath :: "string \<Rightarrow> bool" where
  "validsubpath subpath \<longleftrightarrow>
     \<not> (subpath \<noteq> [] \<and> hd subpath = slash) \<and> validsubpath_loop 0 subpath \<ge> 0"

definition normalsubpath :: "string \<Rightarrow> string option" where
  "normalsubpath subpath =
     (let s = dropWhile (\<lambda>c. c = slash) subpath in if validsubpath s then Some s else None)"

section \<open>Handles\<close>

record wgt =
  wgt_refcount :: int
  wgt_rootfd :: int
  wgt_locales :: "string list"

record wgt_sys =
  sys_access :: "int \<Rightarrow> string \<Rightarrow> bool"
  sys_openat :: "int \<Rightarrow> string \<Rightarrow> int"
  sys_opendirat :: "int \<Rightarrow> string \<Rightarrow> int"
  sys_dup :: "int \<Rightarrow> int"

definition AT_FDCWD :: int where "AT_FDCWD = - 100"

definition wgt_create :: "mem \<Rightarrow> wgt option \<times> mem" where
  "wgt_create m =
     (let (ok, m') = c_alloc m
      in (if ok then Some \<lparr>wgt_refcount = 1, wgt_rootfd = - 1, wgt_locales = []\<rparr> else None, m'))"

definition wgt_addref :: "wgt \<Rightarrow> wgt" where
  "wgt_addref w = w\<lparr>wgt_refcount := wgt_refcount w + 1\<rparr>"

definition wgt_disconnect :: "wgt \<Rightarrow> wgt" where
  "wgt_disconnect w = w\<lparr>wgt_rootfd := - 1\<rparr>"

text \<open>The handle no more exists when its last reference is dropped.\<close>

definition wgt_unref :: "wgt \<Rightarrow> wgt option" where
  "wgt_unref w =
     (if wgt_refcount w - 1 = 0 then None else Some (w\<lparr>wgt_refcount := wgt_refcount w - 1\<rparr>))"

definition wgt_connectat :: "wgt_sys \<Rightarrow> wgt \<Rightarrow> int \<Rightarrow> string option \<Rightarrow> int \<times> wgt" where
  "wgt_connectat sys w dirfd pathname =
     (let rfd = (case pathname of
                   None \<Rightarrow> sys_dup sys dirfd
                 | Some p \<Rightarrow> if p \<noteq> [] then sys_opendirat sys dirfd p else sys_dup sys dirfd)
      in if rfd < 0 then (rfd, w) else (0, w\<lparr>wgt_rootfd := rfd\<rparr>))"

definition wgt_connect :: "wgt_sys \<Rightarrow> wgt \<Rightarrow> string option \<Rightarrow> int \<times> wgt" where
  "wgt_connect sys w pathname = wgt_connectat sys w AT_FDCWD pathname"

definition wgt_createat :: "wgt_sys \<Rightarrow> mem \<Rightarrow> int \<Rightarrow> string option \<Rightarrow> wgt option \<times> mem" where
  "wgt_createat sys m dirfd pathname =
     (case wgt_create m of
        (None, m') \<Rightarrow> (None, m')
      | (Some w, m') \<Rightarrow>
          (let (rc, w') = wgt_connectat sys w dirfd pathname
           in if rc \<noteq> 0 then (case wgt_unref w' of _ \<Rightarrow> None, m') else (Some w', m')))"

definition wgt_is_connected :: "wgt \<Rightarrow> bool" where
  "wgt_is_connected w \<longleftrightarrow> wgt_rootfd w \<noteq> - 1"

definition wgt_has :: "wgt_sys \<Rightarrow> wgt \<Rightarrow> string \<Rightarrow> int" where
  "wgt_has sys w filename =
     (case normalsubpath filename of
        None \<Rightarrow> - 1
      | Some f \<Rightarrow> if sys_access sys (wgt_rootfd w) f then 1 else 0)"

definition wgt_open_read :: "wgt_sys \<Rightarrow> wgt \<Rightarrow> string \<Rightarrow> int" where
  "wgt_open_read sys w filename =
     (case normalsubpath filename of
        None \<Rightarrow> - 1 | Some f \<Rightarrow> sys_openat sys (wgt_rootfd w) f)"

section \<open>Locales\<close>

definition locadd :: "wgt \<Rightarrow> mem \<Rightarrow> string \<Rightarrow> int \<times> wgt \<times> mem" where
  "locadd w m locstr =
     (let (ok, m1) = c_alloc m in
      if \<not> ok then (- 1, w, m1)
      else let item = map c_tolower locstr in
        if item \<in> set (wgt_locales w) then (0, w, m1)
        else let (ok2, m2) = c_alloc m1 in
          if ok2 then (0, w\<lparr>wgt_locales := wgt_locales w @ [item]\<rparr>, m2) else (- 1, w, m2))"

definition wgt_locales_reset :: "wgt \<Rightarrow> wgt" where
  "wgt_locales_reset w = w\<lparr>wgt_locales := []\<rparr>"

text \<open>
  The next value of \<open>stop\<close>, as the length from \<open>locstr\<close>: the position of the last hyphen
  before it, or 0.
\<close>

fun prev_stop :: "string \<Rightarrow> nat \<Rightarrow> nat" where
  "prev_stop s 0 = 0"
| "prev_stop s (Suc k) = (if k > 0 \<and> s ! k \<noteq> CHR ''-'' then prev_stop s k else k)"

lemma prev_stop_less: "0 < k \<Longrightarrow> prev_stop s k < k"
proof (induction k)
  case (Suc k)
  then show ?case by (cases "k > 0 \<and> s ! k \<noteq> CHR ''-''") auto
qed simp

function locales_variants :: "wgt \<Rightarrow> mem \<Rightarrow> string \<Rightarrow> nat \<Rightarrow> int \<times> wgt \<times> mem" where
  "locales_variants w m s stop =
     (if stop = 0 then (0, w, m)
      else let (rc, w', m') = locadd w m (take stop s)
           in if rc \<noteq> 0 then (- 1, w', m') else locales_variants w' m' s (prev_stop s stop))"
  by pat_completeness auto
termination
  by (relation "measure (\<lambda>(w, m, s, stop). stop)") (auto simp: prev_stop_less)

declare locales_variants.simps [simp del]

function wgt_locales_add :: "wgt \<Rightarrow> mem \<Rightarrow> string \<Rightarrow> int \<times> wgt \<times> mem" where
  "wgt_locales_add w m locstr =
     (if locstr = [] then (0, w, m)
      else let stop = length (takeWhile (\<lambda>c. c \<noteq> CHR '','') locstr);
               (rc, w', m') = locales_variants w m locstr stop
           in if rc \<noteq> 0 then (- 1, w', m') else wgt_locales_add w' m' (drop (stop + 1) locstr))"
  by pat_completeness auto
termination
  by (relation "measure (\<lambda>(w, m, s). length s)") (auto simp: less_Suc_eq_le)

declare wgt_locales_add.simps [simp del]

definition UINT_MAX :: nat where "UINT_MAX = 2 ^ 32 - 1"

fun locale_index :: "string \<Rightarrow> nat \<Rightarrow> string list \<Rightarrow> nat" where
  "locale_index lang i [] = UINT_MAX"
| "locale_index lang i (l # ls) = (if c_strcasecmp_eq lang l then i else locale_index lang (i + 1) ls)"

definition wgt_locales_score :: "wgt \<Rightarrow> string option \<Rightarrow> nat" where
  "wgt_locales_score w lang =
     (case lang of None \<Rightarrow> UINT_MAX | Some l \<Rightarrow> locale_index l 0 (wgt_locales w))"

definition WGT_PATH_MAX :: nat where "WGT_PATH_MAX = 4096"

definition locale_path :: "string \<Rightarrow> string \<Rightarrow> string" where
  "locale_path loc filename = ''locales/'' @ loc @ ''/'' @ filename"

text \<open>The search of \<open>localize\<close>: the path found, or the error number.\<close>

fun localize_in :: "wgt_sys \<Rightarrow> int \<Rightarrow> string \<Rightarrow> string list \<Rightarrow> int + string" where
  "localize_in sys fd filename [] =
     (if sys_access sys fd filename then Inr filename else Inl ENOENT)"
| "localize_in sys fd filename (l # ls) =
     (if length (locale_path l filename) \<ge> WGT_PATH_MAX then Inl EINVAL
      else if sys_access sys fd (locale_path l filename) then Inr (locale_path l filename)
      else localize_in sys fd filename ls)"

definition localize :: "wgt_sys \<Rightarrow> wgt \<Rightarrow> string \<Rightarrow> int + string" where
  "localize sys w filename =
     (case normalsubpath filename of
        None \<Rightarrow> Inl EINVAL | Some f \<Rightarrow> localize_in sys (wgt_rootfd w) f (wgt_locales w))"

definition wgt_locales_locate :: "wgt_sys \<Rightarrow> wgt \<Rightarrow> mem \<Rightarrow> string \<Rightarrow> (int + string) \<times> mem" where
  "wgt_locales_locate sys w m filename =
     (case localize sys w filename of
        Inl e \<Rightarrow> (Inl e, m)
      | Inr p \<Rightarrow> (let (ok, m') = c_alloc m in (if ok then Inr p else Inl ENOMEM, m')))"

definition wgt_locales_open_read :: "wgt_sys \<Rightarrow> wgt \<Rightarrow> string \<Rightarrow> int" where
  "wgt_locales_open_read sys w filename =
     (case localize sys w filename of
        Inl e \<Rightarrow> - 1 | Inr p \<Rightarrow> sys_openat sys (wgt_rootfd w) p)"

section \<open>Validity of paths: lemmas\<close>

text \<open>Reading the components of a path from a depth never climbs above the root.\<close>

fun stays_below :: "int \<Rightarrow> string list \<Rightarrow> bool" where
  "stays_below d [] \<longleftrightarrow> 0 \<le> d"
| "stays_below d (w # ws) \<longleftrightarrow> 0 \<le> d \<and>
     stays_below (if w = ''.'' then d else if w = ''..'' then d - 1 else d + 1) ws"

lemma stays_below_neg: "d < 0 \<Longrightarrow> \<not> stays_below d ws"
  by (cases ws) auto

lemma comps_name:
  "c \<noteq> slash \<Longrightarrow> comps (c # r) = (c # takeWhile (\<lambda>c. c \<noteq> slash) r) # comps (dropWhile (\<lambda>c. c \<noteq> slash) r)"
  using comps_word [of "c # r"] by simp

text \<open>One turn of the loop reads one component, or a slash.\<close>

lemma subpath_step_below:
  assumes "0 \<le> l"
  shows "stays_below l (comps (c # r)) \<longleftrightarrow>
         stays_below (fst (subpath_step l c r)) (comps (snd (subpath_step l c r)))"
proof (cases "c = slash")
  case True
  then show ?thesis by (simp add: subpath_step_def)
next
  case False
  note cn = comps_name [OF False, of r]
  show ?thesis
  proof (cases "c = CHR ''.''")
    case dot: True
    show ?thesis
    proof (cases r)
      case Nil
      with dot assms show ?thesis by (simp add: subpath_step_def comps_name)
    next
      case (Cons x r1)
      show ?thesis
      proof (cases "x = slash \<or> x \<noteq> CHR ''.''")
        case True
        with Cons dot assms cn show ?thesis by (auto simp: subpath_step_def skip_name_def)
      next
        case False
        then have x: "x = CHR ''.''" by simp
        show ?thesis
        proof (cases r1)
          case Nil
          with Cons x dot assms show ?thesis by (simp add: subpath_step_def comps_name)
        next
          case (Cons y r2)
          with \<open>r = x # r1\<close> x dot assms cn show ?thesis
            by (auto simp: subpath_step_def skip_name_def)
        qed
      qed
    qed
  next
    case nd: False
    with False assms cn show ?thesis by (auto simp: subpath_step_def skip_name_def)
  qed
qed

lemma subpath_step_neg: "l < 0 \<Longrightarrow> fst (subpath_step l c r) < 0"
  by (auto simp: subpath_step_def skip_name_def split: list.splits)

lemma validsubpath_loop_below: "validsubpath_loop l s \<ge> 0 \<longleftrightarrow> stays_below l (comps s)"
proof (induction l s rule: validsubpath_loop.induct)
  case (1 l s)
  show ?case
  proof (cases s)
    case Nil
    then show ?thesis by (simp add: validsubpath_loop.simps)
  next
    case (Cons c r)
    have "validsubpath_loop l s \<ge> 0 \<longleftrightarrow>
        stays_below (fst (subpath_step l c r)) (comps (snd (subpath_step l c r)))"
      using 1 [OF Cons] Cons by (subst validsubpath_loop.simps) simp
    with Cons subpath_step_below [of l c r] subpath_step_neg [of l c r] stays_below_neg show ?thesis
      by (cases "0 \<le> l") auto
  qed
qed

text \<open>C38: a path is accepted exactly when it is relative and none of its prefixes climbs, by its
  components \<open>..\<close>, above the directory it starts from; whatever the repeated slashes and
  the components \<open>.\<close>.\<close>

theorem validsubpath_correct:
  "validsubpath s \<longleftrightarrow> take 1 s \<noteq> [slash] \<and> stays_below 0 (comps s)"
  unfolding validsubpath_def validsubpath_loop_below by (cases s) auto

lemma normalsubpath_eq:
  "normalsubpath f =
     (if stays_below 0 (comps f) then Some (dropWhile (\<lambda>c. c = slash) f) else None)"
proof -
  have "dropWhile (\<lambda>c. c = slash) f = [] \<or> hd (dropWhile (\<lambda>c. c = slash) f) \<noteq> slash"
    using at_word_skip [of f] by (simp add: at_word_def)
  then have "validsubpath (dropWhile (\<lambda>c. c = slash) f) \<longleftrightarrow> stays_below 0 (comps f)"
    unfolding validsubpath_def validsubpath_loop_below comps_skip by blast
  then show ?thesis by (simp add: normalsubpath_def Let_def)
qed

text \<open>The first accessible path of a list.\<close>

definition first_access :: "wgt_sys \<Rightarrow> int \<Rightarrow> string list \<Rightarrow> int + string" where
  "first_access sys fd ps = (case List.find (sys_access sys fd) ps of None \<Rightarrow> Inl ENOENT | Some p \<Rightarrow> Inr p)"

lemma localize_in_first:
  "\<forall>l \<in> set ls. length (locale_path l f) < WGT_PATH_MAX \<Longrightarrow>
   localize_in sys fd f ls = first_access sys fd (map (\<lambda>l. locale_path l f) ls @ [f])"
  by (induction ls) (auto simp: first_access_def)

text \<open>C39: a name whose components climb above the root of the widget is refused and never given
  to the system; for any other name the file opened is the first that exists among those of
  the locales, in the order of the list, and the file itself.\<close>

theorem wgt_localize_correct:
  assumes "\<forall>l \<in> set (wgt_locales w). length (locale_path l (dropWhile (\<lambda>c. c = slash) f)) < WGT_PATH_MAX"
  shows "wgt_open_read sys w f =
           (if stays_below 0 (comps f)
            then sys_openat sys (wgt_rootfd w) (dropWhile (\<lambda>c. c = slash) f) else - 1) \<and>
         wgt_locales_open_read sys w f =
           (if stays_below 0 (comps f)
            then (case first_access sys (wgt_rootfd w)
                    (map (\<lambda>l. locale_path l (dropWhile (\<lambda>c. c = slash) f)) (wgt_locales w) @
                     [dropWhile (\<lambda>c. c = slash) f]) of
                    Inl e \<Rightarrow> - 1 | Inr p \<Rightarrow> sys_openat sys (wgt_rootfd w) p)
            else - 1)"
  using localize_in_first [OF assms]
  by (simp add: wgt_open_read_def wgt_locales_open_read_def localize_def normalsubpath_eq)

definition sample_sys :: wgt_sys where
  "sample_sys = \<lparr>sys_access = (\<lambda>fd p. p = ''locales/fr/a.html'' \<or> p = ''a.html''),
     sys_openat = (\<lambda>fd p. if p = ''locales/fr/a.html'' then 7 else 8),
     sys_opendirat = (\<lambda>fd p. 3), sys_dup = (\<lambda>fd. fd)\<rparr>"

definition sample_wgt :: wgt where
  "sample_wgt = \<lparr>wgt_refcount = 1, wgt_rootfd = 3, wgt_locales = [''en'', ''fr'']\<rparr>"

theorem wgt_localize_correct_witness:
  "wgt_locales_open_read sample_sys sample_wgt ''/a.html'' = 7 \<and>
   wgt_open_read sample_sys sample_wgt ''b/../../x'' = - 1"
proof -
  have "comps ''/a.html'' = [''a.html'']" "comps ''b/../../x'' = [''b'', ''..'', ''..'', ''x'']"
    by (simp_all add: comps_def)
  moreover have "dropWhile (\<lambda>c. c = slash) ''/a.html'' = ''a.html''"
    "dropWhile (\<lambda>c. c = slash) ''b/../../x'' = ''b/../../x''" by simp_all
  ultimately show ?thesis
    using wgt_localize_correct [of sample_wgt "''/a.html''" sample_sys]
      wgt_localize_correct [of sample_wgt "''b/../../x''" sample_sys]
    by (simp add: sample_wgt_def sample_sys_def locale_path_def WGT_PATH_MAX_def first_access_def)
qed

section \<open>Locales: lemmas\<close>

text \<open>
  The variants of a language tag, the most specific first: the tag and what is before each
  of its hyphens, except an empty text.
\<close>

definition tag_variants :: "string \<Rightarrow> string list" where
  "tag_variants s = map (\<lambda>k. take k s) (rev (filter (\<lambda>k. k = length s \<or> s ! k = CHR ''-'') [1..<Suc (length s)]))"

fun split_comma :: "string \<Rightarrow> string list" where
  "split_comma [] = [[]]"
| "split_comma (c # s) =
     (if c = CHR '','' then [] # split_comma s else (c # hd (split_comma s)) # tl (split_comma s))"

definition locale_variants :: "string \<Rightarrow> string list" where
  "locale_variants locstr = concat (map tag_variants (split_comma locstr))"

definition add_locale :: "string \<Rightarrow> string list \<Rightarrow> string list" where
  "add_locale v ls = (if map c_tolower v \<in> set ls then ls else ls @ [map c_tolower v])"

lemma locadd_simp: "locadd w [] v = (0, w\<lparr>wgt_locales := add_locale v (wgt_locales w)\<rparr>, [])"
  by (simp add: locadd_def add_locale_def Let_def)

lemma prev_stop_filter:
  "filter (\<lambda>j. s ! j = CHR ''-'') [1..<k] =
     (if prev_stop s k = 0 then []
      else filter (\<lambda>j. s ! j = CHR ''-'') [1..<prev_stop s k] @ [prev_stop s k])"
proof (induction k)
  case (Suc k)
  show ?case
  proof (cases "k > 0 \<and> s ! k \<noteq> CHR ''-''")
    case True
    then have "filter (\<lambda>j. s ! j = CHR ''-'') [1..<Suc k] = filter (\<lambda>j. s ! j = CHR ''-'') [1..<k]"
      by simp
    with True Suc show ?thesis by simp
  qed auto
qed simp

text \<open>The successive values of \<open>stop\<close>.\<close>

definition stops :: "string \<Rightarrow> nat \<Rightarrow> nat list" where
  "stops s k = (if k = 0 then [] else k # rev (filter (\<lambda>j. s ! j = CHR ''-'') [1..<k]))"

lemma stops_unfold: "k > 0 \<Longrightarrow> stops s k = k # stops s (prev_stop s k)"
  using prev_stop_filter [of s k] by (simp add: stops_def)

lemma stops_variants:
  assumes "k \<le> length s"
  shows "map (\<lambda>j. take j s) (stops s k) = tag_variants (take k s)"
proof (cases "k = 0")
  case False
  let ?t = "take k s"
  have len: "length ?t = k" using assms by simp
  have "filter (\<lambda>j. j = length ?t \<or> ?t ! j = CHR ''-'') [1..<Suc k] =
        filter (\<lambda>j. j = k \<or> s ! j = CHR ''-'') [1..<Suc k]"
    using assms by (intro filter_cong) (auto simp: min_def)
  also have "\<dots> = filter (\<lambda>j. s ! j = CHR ''-'') [1..<k] @ [k]"
    using False by (auto intro: filter_cong)
  finally have "tag_variants ?t = map (\<lambda>j. take j ?t) (stops s k)"
    using False unfolding tag_variants_def len by (simp add: stops_def)
  moreover have "map (\<lambda>j. take j ?t) (stops s k) = map (\<lambda>j. take j s) (stops s k)"
    by (rule map_cong) (auto simp: stops_def min_def split: if_splits)
  ultimately show ?thesis by simp
qed (simp add: stops_def tag_variants_def)

lemma locales_variants_fold:
  "locales_variants w [] s k =
     (0, w\<lparr>wgt_locales := fold add_locale (map (\<lambda>j. take j s) (stops s k)) (wgt_locales w)\<rparr>, [])"
proof (induction k arbitrary: w rule: less_induct)
  case (less k)
  show ?case
  proof (cases "k = 0")
    case True
    then show ?thesis by (subst locales_variants.simps) (simp add: stops_def)
  next
    case False
    with less [of "prev_stop s k"] prev_stop_less [of k s] show ?thesis
      by (subst locales_variants.simps) (simp add: locadd_simp stops_unfold)
  qed
qed

lemma split_comma_word:
  "split_comma s = takeWhile (\<lambda>c. c \<noteq> CHR '','') s #
     (case dropWhile (\<lambda>c. c \<noteq> CHR '','') s of [] \<Rightarrow> [] | _ # r \<Rightarrow> split_comma r)"
proof (induction s)
  case (Cons c s)
  show ?case
  proof (cases "c = CHR '',''")
    case False
    have "hd (split_comma s) = takeWhile (\<lambda>c. c \<noteq> CHR '','') s" by (subst Cons.IH) simp
    moreover have "tl (split_comma s) =
        (case dropWhile (\<lambda>c. c \<noteq> CHR '','') s of [] \<Rightarrow> [] | _ # r \<Rightarrow> split_comma r)"
      by (subst Cons.IH) simp
    ultimately show ?thesis using False by simp
  qed simp
qed simp

lemma drop_takeWhile: "drop (Suc (length (takeWhile P s))) s = tl (dropWhile P s)"
  by (metis drop_Suc dropWhile_eq_drop tl_drop)

lemma locale_variants_unfold:
  assumes "s \<noteq> []"
  shows "locale_variants s = tag_variants (takeWhile (\<lambda>c. c \<noteq> CHR '','') s) @
           locale_variants (drop (Suc (length (takeWhile (\<lambda>c. c \<noteq> CHR '','') s))) s)"
proof (cases "dropWhile (\<lambda>c. c \<noteq> CHR '','') s")
  case Nil
  then show ?thesis
    unfolding locale_variants_def drop_takeWhile
    by (subst split_comma_word) (simp add: tag_variants_def del: dropWhile_eq_Nil_conv)
next
  case (Cons c r)
  then show ?thesis
    unfolding locale_variants_def drop_takeWhile by (subst split_comma_word) simp
qed

lemma wgt_locales_add_fold:
  "wgt_locales_add w [] locstr =
     (0, w\<lparr>wgt_locales := fold add_locale (locale_variants locstr) (wgt_locales w)\<rparr>, [])"
proof (induction "length locstr" arbitrary: locstr w rule: less_induct)
  case less
  show ?case
  proof (cases "locstr = []")
    case True
    then show ?thesis by (subst wgt_locales_add.simps) (simp add: locale_variants_def tag_variants_def)
  next
    case False
    let ?stop = "length (takeWhile (\<lambda>c. c \<noteq> CHR '','') locstr)"
    have "map (\<lambda>j. take j locstr) (stops locstr ?stop) = tag_variants (takeWhile (\<lambda>c. c \<noteq> CHR '','') locstr)"
      using stops_variants [of ?stop locstr] by (simp add: length_takeWhile_le takeWhile_eq_take [symmetric])
    moreover have "length (drop (Suc ?stop) locstr) < length locstr" using False by simp
    ultimately show ?thesis
      using False less [of "drop (Suc ?stop) locstr"]
      by (subst wgt_locales_add.simps) (simp add: locales_variants_fold locale_variants_unfold)
  qed
qed

lemma add_locale_distinct: "distinct ls \<Longrightarrow> distinct (add_locale v ls)"
  by (auto simp: add_locale_def)

lemma fold_add_locale_distinct: "distinct ls \<Longrightarrow> distinct (fold add_locale vs ls)"
  by (induction vs arbitrary: ls) (auto simp: add_locale_distinct)

lemma fold_add_locale_set: "set (fold add_locale vs ls) = set ls \<union> map c_tolower ` set vs"
  by (induction vs arbitrary: ls) (auto simp: add_locale_def)

lemma fold_add_locale_keeps: "\<exists>more. fold add_locale vs ls = ls @ more"
proof (induction vs arbitrary: ls)
  case (Cons v vs)
  then obtain more where "fold add_locale vs (add_locale v ls) = add_locale v ls @ more" by blast
  moreover have "\<exists>m1. add_locale v ls = ls @ m1" by (simp add: add_locale_def)
  ultimately show ?case by (metis append.assoc fold_simps(2))
qed simp

text \<open>Adding locales appends, in lower case, the tags of the comma separated list, each
  followed by its less specific variants, in their order and without duplicates; the
  locales that were there keep their places.\<close>

theorem wgt_locales_add_correct:
  "\<exists>w'. wgt_locales_add w [] locstr = (0, w', []) \<and>
        wgt_locales w' = fold add_locale (locale_variants locstr) (wgt_locales w) \<and>
        set (wgt_locales w') = set (wgt_locales w) \<union> map c_tolower ` set (locale_variants locstr) \<and>
        take (length (wgt_locales w)) (wgt_locales w') = wgt_locales w \<and>
        (distinct (wgt_locales w) = distinct (wgt_locales w'))"
proof -
  obtain more where "fold add_locale (locale_variants locstr) (wgt_locales w) = wgt_locales w @ more"
    using fold_add_locale_keeps by blast
  then show ?thesis
    using fold_add_locale_distinct [of "wgt_locales w" "locale_variants locstr"]
      fold_add_locale_set [of "locale_variants locstr" "wgt_locales w"]
    by (auto simp: wgt_locales_add_fold)
qed

end
