(* ===== verification/WgtInfo.thy ===== *)
theory WgtInfo
  imports Wgt Manifest Afid
begin

text \<open>
  The configuration of widgets (\<^verbatim>\<open>src/src/wgtpkg/wgt-config.c\<close>) and their description
  (\<^verbatim>\<open>src/src/wgtpkg/wgt-info.c\<close>).

  libxml2 is a parameter: the nodes with their kind, name, children, properties, content and
  language, and the reading of a document, which gives its root. A pointer to a node is the list of the
  node and of its next siblings, empty for the null pointer. The assertions of the code are what it requires of its
  callers; where a caller of the program does not ensure them, and for null pointers given to the C library, the
  result is \<open>None\<close>.
\<close>

section \<open>Configuration\<close>

record 'x libxml =
  xl_element :: "'x \<Rightarrow> bool"
  xl_name :: "'x \<Rightarrow> string"
  xl_children :: "'x \<Rightarrow> 'x list"
  xl_prop :: "'x \<Rightarrow> string \<Rightarrow> string option"
  xl_content :: "'x \<Rightarrow> string option"
  xl_lang :: "'x \<Rightarrow> string option"
  xl_read :: "int \<Rightarrow> 'x option"

text \<open>The document that is open, with the widget it comes from, if any.\<close>

record 'x config =
  cf_wgt :: "wgt option"
  cf_root :: 'x

definition next_node :: "'x libxml \<Rightarrow> 'x list \<Rightarrow> string \<Rightarrow> 'x list" where
  "next_node xl node ty = dropWhile (\<lambda>x. \<not> xl_element xl x \<or> xl_name xl x \<noteq> ty) node"

definition first_node :: "'x libxml \<Rightarrow> 'x config \<Rightarrow> string \<Rightarrow> 'x list" where
  "first_node xl cf ty = next_node xl (xl_children xl (cf_root cf)) ty"

lemma next_node_shorter: "length (next_node xl node ty) \<le> length node"
  by (simp add: next_node_def length_dropWhile_le)

definition scorelang :: "'x libxml \<Rightarrow> 'x config \<Rightarrow> 'x \<Rightarrow> nat" where
  "scorelang xl cf x = (case cf_wgt cf of None \<Rightarrow> 0 | Some w \<Rightarrow> wgt_locales_score w (xl_lang xl x))"

function best_node :: "'x libxml \<Rightarrow> 'x config \<Rightarrow> string \<Rightarrow> 'x list \<Rightarrow> nat \<Rightarrow> 'x list \<Rightarrow> 'x list" where
  "best_node xl cf ty resu sr elem =
     (case elem of
        [] \<Rightarrow> resu
      | x # nexts \<Rightarrow>
          let s = scorelang xl cf x in
          if s < sr then best_node xl cf ty elem s (next_node xl nexts ty)
          else best_node xl cf ty resu sr (next_node xl nexts ty))"
  by pat_completeness auto
termination
  by (relation "measure (\<lambda>(xl, cf, ty, resu, sr, elem). length elem)") (auto simp: less_Suc_eq_le next_node_shorter)

definition element_based_localisation :: "'x libxml \<Rightarrow> 'x config \<Rightarrow> string \<Rightarrow> 'x list" where
  "element_based_localisation xl cf ty =
     (case first_node xl cf ty of
        [] \<Rightarrow> []
      | x # nexts \<Rightarrow> best_node xl cf ty (x # nexts) (scorelang xl cf x) (next_node xl nexts ty))"

text \<open>The global document, closed and open.\<close>

definition wgt_config_close :: "'x config option \<Rightarrow> 'x config option" where
  "wgt_config_close configxml = None"

definition read_config_file :: "'x libxml \<Rightarrow> int \<Rightarrow> wgt option \<Rightarrow> int \<times> 'x config option" where
  "read_config_file xl fd wgt =
     (if fd < 0 then (fd, None)
      else case xl_read xl fd of None \<Rightarrow> (- 1, None) | Some root \<Rightarrow> (0, Some \<lparr>cf_wgt = wgt, cf_root = root\<rparr>))"

definition wgt_config_open :: "'x libxml \<Rightarrow> wgt_sys \<Rightarrow> wgt \<Rightarrow> int \<times> 'x config option" where
  "wgt_config_open xl sys wgt = read_config_file xl (wgt_open_read sys wgt ''config.xml'') (Some wgt)"

definition wgt_config_open_fileat :: "'x libxml \<Rightarrow> wgt_sys \<Rightarrow> int \<Rightarrow> string \<Rightarrow> int \<times> 'x config option" where
  "wgt_config_open_fileat xl sys dirfd pathname = read_config_file xl (sys_openat sys dirfd pathname) None"

definition wgt_config_widget :: "'x libxml \<Rightarrow> 'x config \<Rightarrow> 'x option" where
  "wgt_config_widget xl cf = (if xl_name xl (cf_root cf) \<noteq> ''widget'' then None else Some (cf_root cf))"

definition wgt_config_name :: "'x libxml \<Rightarrow> 'x config \<Rightarrow> 'x list" where
  "wgt_config_name xl cf = element_based_localisation xl cf ''name''"

definition wgt_config_description :: "'x libxml \<Rightarrow> 'x config \<Rightarrow> 'x list" where
  "wgt_config_description xl cf = element_based_localisation xl cf ''description''"

definition wgt_config_license :: "'x libxml \<Rightarrow> 'x config \<Rightarrow> 'x list" where
  "wgt_config_license xl cf = element_based_localisation xl cf ''license''"

definition wgt_config_author :: "'x libxml \<Rightarrow> 'x config \<Rightarrow> 'x list" where
  "wgt_config_author xl cf = first_node xl cf ''author''"

definition wgt_config_content :: "'x libxml \<Rightarrow> 'x config \<Rightarrow> 'x list" where
  "wgt_config_content xl cf = first_node xl cf ''content''"

definition wgt_config_first_feature :: "'x libxml \<Rightarrow> 'x config \<Rightarrow> 'x list" where
  "wgt_config_first_feature xl cf = first_node xl cf ''feature''"

definition wgt_config_next_feature :: "'x libxml \<Rightarrow> 'x list \<Rightarrow> 'x list" where
  "wgt_config_next_feature xl nexts = next_node xl nexts ''feature''"

definition wgt_config_first_preference :: "'x libxml \<Rightarrow> 'x config \<Rightarrow> 'x list" where
  "wgt_config_first_preference xl cf = first_node xl cf ''preference''"

definition wgt_config_next_preference :: "'x libxml \<Rightarrow> 'x list \<Rightarrow> 'x list" where
  "wgt_config_next_preference xl nexts = next_node xl nexts ''preference''"

definition wgt_config_first_icon :: "'x libxml \<Rightarrow> 'x config \<Rightarrow> 'x list" where
  "wgt_config_first_icon xl cf = first_node xl cf ''icon''"

definition wgt_config_next_icon :: "'x libxml \<Rightarrow> 'x list \<Rightarrow> 'x list" where
  "wgt_config_next_icon xl nexts = next_node xl nexts ''icon''"

definition wgt_config_first_param :: "'x libxml \<Rightarrow> 'x \<Rightarrow> 'x list" where
  "wgt_config_first_param xl node = next_node xl (xl_children xl node) ''param''"

definition wgt_config_next_param :: "'x libxml \<Rightarrow> 'x list \<Rightarrow> 'x list" where
  "wgt_config_next_param xl nexts = next_node xl nexts ''param''"

lemmas next_defs = wgt_config_next_feature_def wgt_config_next_preference_def wgt_config_next_icon_def wgt_config_next_param_def
lemmas first_defs = wgt_config_first_feature_def wgt_config_first_preference_def wgt_config_first_icon_def wgt_config_first_param_def

text \<open>The comparison of icons by their dimensions.\<close>

definition score_dim :: "'x libxml \<Rightarrow> 'x \<Rightarrow> 'x \<Rightarrow> string \<Rightarrow> int \<Rightarrow> int" where
  "score_dim xl ref x dim request =
     (case (xl_prop xl ref dim, xl_prop xl x dim) of
        (Some sref, Some sx) \<Rightarrow>
          let iref = c_atoi sref; ix = c_atoi sx in
          if ix \<ge> request then (if iref \<ge> request then ix - iref else request - ix)
          else if iref \<ge> request then iref - request else iref - ix
      | (Some sref, None) \<Rightarrow> let iref = c_atoi sref in if iref \<ge> request then iref - request else 0
      | (None, Some sx) \<Rightarrow> let ix = c_atoi sx in if ix \<ge> request then request - ix else 0
      | (None, None) \<Rightarrow> 0)"

definition is_better_icon :: "'x libxml \<Rightarrow> 'x \<Rightarrow> 'x \<Rightarrow> int \<Rightarrow> int \<Rightarrow> bool" where
  "is_better_icon xl ref x width height \<longleftrightarrow>
     score_dim xl ref x ''width'' width + score_dim xl ref x ''height'' height < 0"

function better_icons :: "'x libxml \<Rightarrow> int \<Rightarrow> int \<Rightarrow> 'x list \<Rightarrow> 'x list \<Rightarrow> 'x list" where
  "better_icons xl width height resu icon =
     (case icon of
        [] \<Rightarrow> resu
      | x # nexts \<Rightarrow>
          better_icons xl width height (if is_better_icon xl (hd resu) x width height then icon else resu)
            (wgt_config_next_icon xl nexts))"
  by pat_completeness auto
termination
  by (relation "measure (\<lambda>(xl, width, height, resu, icon). length icon)") (auto simp: less_Suc_eq_le next_node_shorter next_defs)

text \<open>Without icon the next one is asked of a null pointer.\<close>

definition wgt_config_icon :: "'x libxml \<Rightarrow> 'x config \<Rightarrow> int \<Rightarrow> int \<Rightarrow> 'x list option" where
  "wgt_config_icon xl cf width height =
     (case wgt_config_first_icon xl cf of
        [] \<Rightarrow> None
      | x # nexts \<Rightarrow> Some (better_icons xl width height (x # nexts) (wgt_config_next_icon xl nexts)))"

declare best_node.simps [simp del] better_icons.simps [simp del]

section \<open>Description\<close>

record wgt_desc_icon =
  ic_src :: string
  ic_width :: int
  ic_height :: int

record wgt_desc_param =
  pm_name :: string
  pm_value :: string

record wgt_desc_feature =
  ft_name :: string
  ft_required :: bool
  ft_params :: "wgt_desc_param list"

record wgt_desc_preference =
  pf_name :: string
  pf_value :: "string option"
  pf_readonly :: bool

record wgt_desc =
  wd_id :: string
  wd_id_lower :: string
  wd_id_underscore :: "string option"
  wd_version :: string
  wd_ver :: "string option"
  wd_idaver :: "string option"
  wd_width :: int
  wd_height :: int
  wd_viewmodes :: "string option"
  wd_defaultlocale :: "string option"
  wd_name :: "string option"
  wd_name_short :: "string option"
  wd_description :: "string option"
  wd_author :: "string option"
  wd_author_href :: "string option"
  wd_author_email :: "string option"
  wd_license :: "string option"
  wd_license_href :: "string option"
  wd_content_src :: "string option"
  wd_content_type :: "string option"
  wd_content_encoding :: "string option"
  wd_icons :: "wgt_desc_icon list"
  wd_features :: "wgt_desc_feature list"
  wd_preferences :: "wgt_desc_preference list"

definition getpropbool :: "'x libxml \<Rightarrow> 'x \<Rightarrow> string \<Rightarrow> bool \<Rightarrow> bool" where
  "getpropbool xl node prop def =
     (case xl_prop xl node prop of
        None \<Rightarrow> def
      | Some val \<Rightarrow> if val = ''true'' then True else if val = ''false'' then False else def)"

definition getpropnum :: "'x libxml \<Rightarrow> 'x \<Rightarrow> string \<Rightarrow> int \<Rightarrow> int" where
  "getpropnum xl node prop def = (case xl_prop xl node prop of None \<Rightarrow> def | Some val \<Rightarrow> c_atoi val)"

definition optprop :: "'x libxml \<Rightarrow> 'x list \<Rightarrow> string \<Rightarrow> string option" where
  "optprop xl node prop = (case node of [] \<Rightarrow> None | x # _ \<Rightarrow> xl_prop xl x prop)"

definition optcontent :: "'x libxml \<Rightarrow> 'x list \<Rightarrow> string option" where
  "optcontent xl node = (case node of [] \<Rightarrow> None | x # _ \<Rightarrow> xl_content xl x)"

definition wgt_mkver :: "mem \<Rightarrow> string \<Rightarrow> string option \<times> mem" where
  "wgt_mkver m version = (let (ok, m') = c_alloc m in (if ok then Some (version_prefix version) else None, m'))"

definition wgt_mkidaver :: "bool \<Rightarrow> mem \<Rightarrow> string \<Rightarrow> string option \<Rightarrow> string option \<times> mem" where
  "wgt_mkidaver distinct_versions m idt ver =
     (if distinct_versions then
        (case ver of
           None \<Rightarrow> (None, m)
         | Some v \<Rightarrow> let (ok, m') = c_alloc m in (if ok then Some (idt @ ''@'' @ v) else None, m'))
      else let (ok, m') = c_alloc m in (if ok then Some idt else None, m'))"

text \<open>
  The loops over icons, parameters, features and preferences. What is filled before an error is
  released by the caller, so an error gives its number only.
\<close>

function fill_icons :: "'x libxml \<Rightarrow> mem \<Rightarrow> 'x list \<Rightarrow> (int + wgt_desc_icon list) \<times> mem" where
  "fill_icons xl m node =
     (case node of
        [] \<Rightarrow> (Inr [], m)
      | x # nexts \<Rightarrow>
          let (ok, m1) = c_alloc m in
          if \<not> ok then (Inl ENOMEM, m1)
          else case xl_prop xl x ''src'' of
                 None \<Rightarrow> (Inl EINVAL, m1)
               | Some src \<Rightarrow>
                   let (r, m2) = fill_icons xl m1 (wgt_config_next_icon xl nexts) in
                   (map_sum (\<lambda>e. e) (\<lambda>is. \<lparr>ic_src = src, ic_width = getpropnum xl x ''width'' 0, ic_height = getpropnum xl x ''height'' 0\<rparr> # is) r, m2))"
  by pat_completeness auto
termination
  by (relation "measure (\<lambda>(xl, m, node). length node)") (auto simp: less_Suc_eq_le next_node_shorter next_defs)

function fill_params :: "'x libxml \<Rightarrow> mem \<Rightarrow> 'x list \<Rightarrow> (int + wgt_desc_param list) \<times> mem" where
  "fill_params xl m pnode =
     (case pnode of
        [] \<Rightarrow> (Inr [], m)
      | x # nexts \<Rightarrow>
          let (ok, m1) = c_alloc m in
          if \<not> ok then (Inl ENOMEM, m1)
          else case (xl_prop xl x ''name'', xl_prop xl x ''value'') of
                 (Some name, Some val) \<Rightarrow>
                   let (r, m2) = fill_params xl m1 (wgt_config_next_param xl nexts) in
                   (map_sum (\<lambda>e. e) (\<lambda>ps. \<lparr>pm_name = name, pm_value = val\<rparr> # ps) r, m2)
               | _ \<Rightarrow> (Inl EINVAL, m1))"
  by pat_completeness auto
termination
  by (relation "measure (\<lambda>(xl, m, node). length node)") (auto simp: less_Suc_eq_le next_node_shorter next_defs)

function fill_features :: "'x libxml \<Rightarrow> mem \<Rightarrow> 'x list \<Rightarrow> (int + wgt_desc_feature list) \<times> mem" where
  "fill_features xl m node =
     (case node of
        [] \<Rightarrow> (Inr [], m)
      | x # nexts \<Rightarrow>
          let (ok, m1) = c_alloc m in
          if \<not> ok then (Inl ENOMEM, m1)
          else case xl_prop xl x ''name'' of
                 None \<Rightarrow> (Inl EINVAL, m1)
               | Some name \<Rightarrow>
                   (case fill_params xl m1 (wgt_config_first_param xl x) of
                      (Inl e, m2) \<Rightarrow> (Inl e, m2)
                    | (Inr ps, m2) \<Rightarrow>
                        let (r, m3) = fill_features xl m2 (wgt_config_next_feature xl nexts) in
                        (map_sum (\<lambda>e. e) (\<lambda>fs. \<lparr>ft_name = name, ft_required = getpropbool xl x ''required'' True, ft_params = ps\<rparr> # fs) r, m3)))"
  by pat_completeness auto
termination
  by (relation "measure (\<lambda>(xl, m, node). length node)") (auto simp: less_Suc_eq_le next_node_shorter next_defs)

function fill_preferences :: "'x libxml \<Rightarrow> mem \<Rightarrow> 'x list \<Rightarrow> (int + wgt_desc_preference list) \<times> mem" where
  "fill_preferences xl m node =
     (case node of
        [] \<Rightarrow> (Inr [], m)
      | x # nexts \<Rightarrow>
          let (ok, m1) = c_alloc m in
          if \<not> ok then (Inl ENOMEM, m1)
          else case xl_prop xl x ''name'' of
                 None \<Rightarrow> (Inl EINVAL, m1)
               | Some name \<Rightarrow>
                   let (r, m2) = fill_preferences xl m1 (wgt_config_next_preference xl nexts) in
                   (map_sum (\<lambda>e. e) (\<lambda>ps. \<lparr>pf_name = name, pf_value = xl_prop xl x ''value'', pf_readonly = getpropbool xl x ''readonly'' False\<rparr> # ps) r, m2))"
  by pat_completeness auto
termination
  by (relation "measure (\<lambda>(xl, m, node). length node)") (auto simp: less_Suc_eq_le next_node_shorter next_defs)

declare fill_icons.simps [simp del] fill_params.simps [simp del] fill_features.simps [simp del] fill_preferences.simps [simp del]

text \<open>The fields that come before the lists; \<open>None\<close> when the first copy of the identifier fails, since it is copied again.\<close>

definition fill_heading :: "'x libxml \<Rightarrow> bool \<Rightarrow> mem \<Rightarrow> 'x config \<Rightarrow> ((int + wgt_desc) \<times> mem) option" where
  "fill_heading xl dv m cf =
     (case wgt_config_widget xl cf of
        None \<Rightarrow> Some (Inl EINVAL, m)
      | Some node \<Rightarrow>
          (case xl_prop xl node ''id'' of
             None \<Rightarrow> Some (Inl EINVAL, m)
           | Some idt \<Rightarrow>
               let (ok, m1) = c_alloc m; id_lower = make_lowercase idt; (ok2, m2) = c_alloc m1 in
               if \<not> ok then None
               else case xl_prop xl node ''version'' of
                      None \<Rightarrow> Some (Inl EINVAL, m2)
                    | Some version \<Rightarrow>
                        let (ver0, m3) = wgt_mkver m2 version; ver = map_option make_lowercase ver0;
                            (idaver, m4) = wgt_mkidaver dv m3 id_lower ver;
                            name = wgt_config_name xl cf; description = wgt_config_description xl cf; author = wgt_config_author xl cf;
                            license = wgt_config_license xl cf; content = wgt_config_content xl cf;
                            content_src = optprop xl content ''src''
                        in if content \<noteq> [] \<and> content_src = None then Some (Inl EINVAL, m4)
                           else Some (Inr
                             \<lparr>wd_id = idt, wd_id_lower = id_lower, wd_id_underscore = (if ok2 then Some (dash_to_underscore id_lower) else None),
                              wd_version = version, wd_ver = ver, wd_idaver = idaver,
                              wd_width = getpropnum xl node ''width'' 0, wd_height = getpropnum xl node ''height'' 0,
                              wd_viewmodes = xl_prop xl node ''viewmodes'', wd_defaultlocale = xl_prop xl node ''defaultlocale'',
                              wd_name = optcontent xl name, wd_name_short = optprop xl name ''short'',
                              wd_description = optcontent xl description,
                              wd_author = optcontent xl author, wd_author_href = optprop xl author ''href'', wd_author_email = optprop xl author ''email'',
                              wd_license = optcontent xl license, wd_license_href = optprop xl license ''href'',
                              wd_content_src = content_src, wd_content_type = optprop xl content ''type'', wd_content_encoding = optprop xl content ''encoding'',
                              wd_icons = [], wd_features = [], wd_preferences = []\<rparr>, m4)))"

definition fill_desc :: "'x libxml \<Rightarrow> bool \<Rightarrow> mem \<Rightarrow> 'x config \<Rightarrow> bool \<Rightarrow> bool \<Rightarrow> bool \<Rightarrow> ((int + wgt_desc) \<times> mem) option" where
  "fill_desc xl dv m cf want_icons want_features want_preferences =
     (case fill_heading xl dv m cf of
        None \<Rightarrow> None
      | Some (Inl e, m1) \<Rightarrow> Some (Inl e, m1)
      | Some (Inr desc, m1) \<Rightarrow>
          Some (case (if want_icons then fill_icons xl m1 (wgt_config_first_icon xl cf) else (Inr [], m1)) of
                  (Inl e, m2) \<Rightarrow> (Inl e, m2)
                | (Inr icons, m2) \<Rightarrow>
                    (case (if want_features then fill_features xl m2 (wgt_config_first_feature xl cf) else (Inr [], m2)) of
                       (Inl e, m3) \<Rightarrow> (Inl e, m3)
                     | (Inr features, m3) \<Rightarrow>
                         (case (if want_preferences then fill_preferences xl m3 (wgt_config_first_preference xl cf) else (Inr [], m3)) of
                            (Inl e, m4) \<Rightarrow> (Inl e, m4)
                          | (Inr preferences, m4) \<Rightarrow>
                              (Inr (desc\<lparr>wd_icons := icons, wd_features := features, wd_preferences := preferences\<rparr>), m4)))))"

text \<open>
  A description holds a reference on its widget if it was made from one; the widget is
  passed along.
\<close>

record wgt_info =
  wi_refcount :: int
  wi_wgt :: bool
  wi_desc :: wgt_desc

definition info_of_config :: "'x libxml \<Rightarrow> bool \<Rightarrow> mem \<Rightarrow> 'x config \<Rightarrow> bool \<Rightarrow> bool \<Rightarrow> bool \<Rightarrow> ((int + wgt_info) \<times> mem) option" where
  "info_of_config xl dv m cf icons features preferences =
     (let (ok, m1) = c_alloc m in
      if \<not> ok then Some (Inl ENOMEM, m1)
      else map_option (\<lambda>(r, m2). (map_sum (\<lambda>e. e) (\<lambda>d. \<lparr>wi_refcount = 1, wi_wgt = False, wi_desc = d\<rparr>) r, m2))
             (fill_desc xl dv m1 cf icons features preferences))"

definition wgt_info_create ::
  "'x libxml \<Rightarrow> wgt_sys \<Rightarrow> bool \<Rightarrow> mem \<Rightarrow> wgt \<Rightarrow> bool \<Rightarrow> bool \<Rightarrow> bool \<Rightarrow> (wgt_info option \<times> wgt \<times> mem) option" where
  "wgt_info_create xl sys dv m wgt icons features preferences =
     (case wgt_config_open xl sys wgt of
        (_, None) \<Rightarrow> Some (None, wgt, m)
      | (_, Some cf) \<Rightarrow>
          (case info_of_config xl dv m cf icons features preferences of
             None \<Rightarrow> None
           | Some (Inl e, m1) \<Rightarrow> Some (None, wgt, m1)
           | Some (Inr info, m1) \<Rightarrow> Some (Some (info\<lparr>wi_wgt := True\<rparr>), wgt_addref wgt, m1)))"

definition wgt_info_createat ::
  "'x libxml \<Rightarrow> wgt_sys \<Rightarrow> bool \<Rightarrow> mem \<Rightarrow> int \<Rightarrow> string option \<Rightarrow> bool \<Rightarrow> bool \<Rightarrow> bool \<Rightarrow> (wgt_info option \<times> wgt option \<times> mem) option" where
  "wgt_info_createat xl sys dv m dirfd pathname icons features preferences =
     (case wgt_createat sys m dirfd pathname of
        (None, m1) \<Rightarrow> Some (None, None, m1)
      | (Some wgt, m1) \<Rightarrow>
          map_option (\<lambda>(info, wgt', m2). (info, wgt_unref wgt', m2)) (wgt_info_create xl sys dv m1 wgt icons features preferences))"

definition wgt_info_from_config ::
  "'x libxml \<Rightarrow> wgt_sys \<Rightarrow> bool \<Rightarrow> mem \<Rightarrow> int \<Rightarrow> string \<Rightarrow> bool \<Rightarrow> bool \<Rightarrow> bool \<Rightarrow> (wgt_info option \<times> mem) option" where
  "wgt_info_from_config xl sys dv m dirfd path icons features preferences =
     (case wgt_config_open_fileat xl sys dirfd path of
        (_, None) \<Rightarrow> Some (None, m)
      | (_, Some cf) \<Rightarrow>
          map_option (\<lambda>(r, m1). (case r of Inl e \<Rightarrow> None | Inr info \<Rightarrow> Some info, m1)) (info_of_config xl dv m cf icons features preferences))"

definition wgt_info_addref :: "wgt_info \<Rightarrow> wgt_info" where
  "wgt_info_addref ifo = ifo\<lparr>wi_refcount := wi_refcount ifo + 1\<rparr>"

definition wgt_info_unref :: "wgt_info \<Rightarrow> wgt option \<Rightarrow> wgt_info option \<times> wgt option" where
  "wgt_info_unref ifo wgt =
     (if wi_refcount ifo - 1 \<noteq> 0 then (Some (ifo\<lparr>wi_refcount := wi_refcount ifo - 1\<rparr>), wgt)
      else (None, if wi_wgt ifo then Option.bind wgt wgt_unref else wgt))"

definition wgt_info_feature :: "wgt_info \<Rightarrow> string \<Rightarrow> wgt_desc_feature option" where
  "wgt_info_feature ifo name = List.find (\<lambda>f. ft_name f = name) (wd_features (wi_desc ifo))"

definition wgt_info_desc_param :: "wgt_desc_feature \<Rightarrow> string \<Rightarrow> wgt_desc_param option" where
  "wgt_info_desc_param feature name = List.find (\<lambda>p. pm_name p = name) (ft_params feature)"

definition wgt_info_param :: "wgt_desc_feature \<Rightarrow> string \<Rightarrow> string option" where
  "wgt_info_param feature name = map_option pm_value (wgt_info_desc_param feature name)"

section \<open>Reference description\<close>

text \<open>
  What the loops compute, stated on lists: the elements of a name among nodes, the element whose language is the preferred
  one, and the description as a whole.
\<close>

definition elements :: "'x libxml \<Rightarrow> 'x list \<Rightarrow> string \<Rightarrow> 'x list" where
  "elements xl xs ty = filter (\<lambda>x. xl_element xl x \<and> xl_name xl x = ty) xs"

definition first_least :: "('a \<Rightarrow> nat) \<Rightarrow> 'a list \<Rightarrow> 'a option" where
  "first_least f xs = List.find (\<lambda>x. list_all (\<lambda>y. f x \<le> f y) xs) xs"

definition icon_of :: "'x libxml \<Rightarrow> 'x \<Rightarrow> wgt_desc_icon option" where
  "icon_of xl x = map_option (\<lambda>src. \<lparr>ic_src = src, ic_width = getpropnum xl x ''width'' 0, ic_height = getpropnum xl x ''height'' 0\<rparr>)
     (xl_prop xl x ''src'')"

definition param_of :: "'x libxml \<Rightarrow> 'x \<Rightarrow> wgt_desc_param option" where
  "param_of xl x = (case (xl_prop xl x ''name'', xl_prop xl x ''value'') of
      (Some name, Some val) \<Rightarrow> Some \<lparr>pm_name = name, pm_value = val\<rparr> | _ \<Rightarrow> None)"

definition feature_of :: "'x libxml \<Rightarrow> 'x \<Rightarrow> wgt_desc_feature option" where
  "feature_of xl x = Option.bind (xl_prop xl x ''name'') (\<lambda>name.
     map_option (\<lambda>ps. \<lparr>ft_name = name, ft_required = getpropbool xl x ''required'' True, ft_params = ps\<rparr>)
       (those (map (param_of xl) (elements xl (xl_children xl x) ''param''))))"

definition preference_of :: "'x libxml \<Rightarrow> 'x \<Rightarrow> wgt_desc_preference option" where
  "preference_of xl x = map_option (\<lambda>name. \<lparr>pf_name = name, pf_value = xl_prop xl x ''value'', pf_readonly = getpropbool xl x ''readonly'' False\<rparr>)
     (xl_prop xl x ''name'')"

text \<open>The loops on the next elements.\<close>

lemma next_node_simps [simp]:
  "next_node xl [] ty = []"
  "next_node xl (x # xs) ty = (if xl_element xl x \<and> xl_name xl x = ty then x # xs else next_node xl xs ty)"
  by (auto simp: next_node_def)

lemma elements_simps [simp]:
  "elements xl [] ty = []"
  "elements xl (x # xs) ty = (if xl_element xl x \<and> xl_name xl x = ty then x # elements xl xs ty else elements xl xs ty)"
  by (simp_all add: elements_def)

definition read_all :: "'a option list \<Rightarrow> int + 'a list" where
  "read_all xs = (case those xs of None \<Rightarrow> Inl EINVAL | Some ys \<Rightarrow> Inr ys)"

lemma read_all_simps:
  "read_all [] = Inr []"
  "read_all (x # xs) = (case x of None \<Rightarrow> Inl EINVAL | Some y \<Rightarrow> map_sum (\<lambda>e. e) (\<lambda>ys. y # ys) (read_all xs))"
  by (auto simp: read_all_def split: option.splits)

lemma fill_icons_all: "fill_icons xl [] (next_node xl xs ''icon'') = (read_all (map (icon_of xl) (elements xl xs ''icon'')), [])"
  by (induction xs) (auto simp: fill_icons.simps wgt_config_next_icon_def icon_of_def read_all_simps split: option.splits)

lemma fill_params_all: "fill_params xl [] (next_node xl xs ''param'') = (read_all (map (param_of xl) (elements xl xs ''param'')), [])"
  by (induction xs) (auto simp: fill_params.simps wgt_config_next_param_def param_of_def read_all_simps split: option.splits)

lemma fill_preferences_all:
  "fill_preferences xl [] (next_node xl xs ''preference'') = (read_all (map (preference_of xl) (elements xl xs ''preference'')), [])"
  by (induction xs) (auto simp: fill_preferences.simps wgt_config_next_preference_def preference_of_def read_all_simps split: option.splits)

lemma fill_features_all: "fill_features xl [] (next_node xl xs ''feature'') = (read_all (map (feature_of xl) (elements xl xs ''feature'')), [])"
proof (induction xs)
  case (Cons x xs)
  have "fill_params xl [] (wgt_config_first_param xl x) =
      (case those (map (param_of xl) (elements xl (xl_children xl x) ''param'')) of None \<Rightarrow> Inl EINVAL | Some ys \<Rightarrow> Inr ys, [])"
    by (simp add: wgt_config_first_param_def fill_params_all read_all_def)
  with Cons show ?case
    by (cases "xl_element xl x \<and> xl_name xl x = ''feature''")
       (auto simp: fill_features.simps [of xl "[]" "x # xs"] wgt_config_next_feature_def feature_of_def [of xl x] read_all_simps split: option.splits)
qed (simp add: fill_features.simps read_all_simps)

text \<open>The preferred element.\<close>

fun keep_least :: "('a \<Rightarrow> nat) \<Rightarrow> 'a \<Rightarrow> 'a list \<Rightarrow> 'a" where
  "keep_least f r [] = r"
| "keep_least f r (x # xs) = keep_least f (if f x < f r then x else r) xs"

lemma keep_least_bound: "f (keep_least f r xs) \<le> f r \<and> (\<forall>x \<in> set xs. f (keep_least f r xs) \<le> f x)"
proof (induction xs arbitrary: r)
  case (Cons x xs)
  from Cons.IH [of x] Cons.IH [of r] show ?case by (auto intro: order_trans)
qed simp

lemma keep_least_first: "first_least f (r # xs) = Some (keep_least f r xs)"
proof (induction xs arbitrary: r)
  case (Cons x xs)
  let ?P = "\<lambda>zs z. list_all (\<lambda>y. f z \<le> f y) zs"
  show ?case
  proof (cases "f x < f r")
    case True
    then have "?P (r # x # xs) z \<longleftrightarrow> ?P (x # xs) z" for z by (auto simp: list_all_iff)
    with True Cons.IH [of x] show ?thesis by (simp add: first_least_def)
  next
    case False
    then have same: "?P (r # x # xs) z \<longleftrightarrow> ?P (r # xs) z" for z by (auto simp: list_all_iff)
    show ?thesis
    proof (cases "?P (r # xs) r")
      case True
      with Cons.IH [of r] same [of r] False show ?thesis by (auto simp: first_least_def)
    next
      case no: False
      then have "\<not> ?P (r # xs) x" using False by (force simp: list_all_iff)
      with no Cons.IH [of r] same False show ?thesis by (simp add: first_least_def del: list.pred_inject)
    qed
  qed
qed (simp add: first_least_def)

abbreviation node_at :: "'x list \<Rightarrow> 'x option" where
  "node_at node \<equiv> (case node of [] \<Rightarrow> None | x # nexts \<Rightarrow> Some x)"

lemma best_node_keeps:
  "resu \<noteq> [] \<Longrightarrow> node_at (best_node xl cf ty resu (scorelang xl cf (hd resu)) (next_node xl xs ty)) =
     Some (keep_least (scorelang xl cf) (hd resu) (elements xl xs ty))"
proof (induction xs arbitrary: resu)
  case (Cons x xs)
  show ?case
  proof (cases "xl_element xl x \<and> xl_name xl x = ty")
    case True
    with Cons.IH [of resu] Cons.IH [of "x # xs"] Cons.prems show ?thesis by (subst best_node.simps) (auto simp: Let_def)
  next
    case False
    with Cons.IH [of resu] Cons.prems show ?thesis by auto
  qed
qed (auto simp: best_node.simps neq_Nil_conv)

lemma next_node_cases:
  "elements xl xs ty = [] \<and> next_node xl xs ty = [] \<or>
   (\<exists>x nexts. next_node xl xs ty = x # nexts \<and> elements xl xs ty = x # elements xl nexts ty)"
  by (induction xs) auto

lemma localisation_least:
  "node_at (element_based_localisation xl cf ty) = first_least (scorelang xl cf) (elements xl (xl_children xl (cf_root cf)) ty)"
  using next_node_cases [of xl "xl_children xl (cf_root cf)" ty]
proof
  assume "elements xl (xl_children xl (cf_root cf)) ty = [] \<and> next_node xl (xl_children xl (cf_root cf)) ty = []"
  then show ?thesis by (simp add: element_based_localisation_def first_node_def first_least_def)
next
  assume "\<exists>x nexts. next_node xl (xl_children xl (cf_root cf)) ty = x # nexts \<and>
    elements xl (xl_children xl (cf_root cf)) ty = x # elements xl nexts ty"
  then obtain x nexts where x: "next_node xl (xl_children xl (cf_root cf)) ty = x # nexts"
    "elements xl (xl_children xl (cf_root cf)) ty = x # elements xl nexts ty" by blast
  show ?thesis
    using best_node_keeps [of "x # nexts" xl cf ty nexts] by (simp add: element_based_localisation_def first_node_def x keep_least_first)
qed

text \<open>The whole description; the identifiers are those that the normal form of a manifest has.\<close>

definition describe_heading :: "'x libxml \<Rightarrow> bool \<Rightarrow> 'x config \<Rightarrow> wgt_desc option" where
  "describe_heading xl dv cf =
     (let root = cf_root cf; es = elements xl (xl_children xl root); best = (\<lambda>ty. first_least (scorelang xl cf) (es ty));
          prop = (\<lambda>k x. xl_prop xl x k) in
      if xl_name xl root \<noteq> ''widget'' then None
      else case (xl_prop xl root ''id'', xl_prop xl root ''version'') of
             (Some idt, Some version) \<Rightarrow>
               let ids = map_of (identity_fields dv idt version) in
               if es ''content'' \<noteq> [] \<and> xl_prop xl (hd (es ''content'')) ''src'' = None then None
               else Some
                 \<lparr>wd_id = idt, wd_id_lower = the (ids ''id''), wd_id_underscore = ids ''id-underscore'',
                  wd_version = version, wd_ver = ids ''ver'', wd_idaver = ids ''idaver'',
                  wd_width = getpropnum xl root ''width'' 0, wd_height = getpropnum xl root ''height'' 0,
                  wd_viewmodes = xl_prop xl root ''viewmodes'', wd_defaultlocale = xl_prop xl root ''defaultlocale'',
                  wd_name = Option.bind (best ''name'') (xl_content xl), wd_name_short = Option.bind (best ''name'') (prop ''short''),
                  wd_description = Option.bind (best ''description'') (xl_content xl),
                  wd_author = Option.bind (node_at (es ''author'')) (xl_content xl),
                  wd_author_href = Option.bind (node_at (es ''author'')) (prop ''href''),
                  wd_author_email = Option.bind (node_at (es ''author'')) (prop ''email''),
                  wd_license = Option.bind (best ''license'') (xl_content xl), wd_license_href = Option.bind (best ''license'') (prop ''href''),
                  wd_content_src = Option.bind (node_at (es ''content'')) (prop ''src''),
                  wd_content_type = Option.bind (node_at (es ''content'')) (prop ''type''),
                  wd_content_encoding = Option.bind (node_at (es ''content'')) (prop ''encoding''),
                  wd_icons = [], wd_features = [], wd_preferences = []\<rparr>
           | _ \<Rightarrow> None)"

definition describe :: "'x libxml \<Rightarrow> bool \<Rightarrow> 'x config \<Rightarrow> bool \<Rightarrow> bool \<Rightarrow> bool \<Rightarrow> wgt_desc option" where
  "describe xl dv cf want_icons want_features want_preferences =
     (let es = (\<lambda>want ty. if want then elements xl (xl_children xl (cf_root cf)) ty else []) in
      case (describe_heading xl dv cf, those (map (icon_of xl) (es want_icons ''icon'')),
            those (map (feature_of xl) (es want_features ''feature'')), those (map (preference_of xl) (es want_preferences ''preference''))) of
        (Some desc, Some is, Some fs, Some ps) \<Rightarrow> Some (desc\<lparr>wd_icons := is, wd_features := fs, wd_preferences := ps\<rparr>)
      | _ \<Rightarrow> None)"

lemma opt_node: "optprop xl node k = Option.bind (node_at node) (\<lambda>x. xl_prop xl x k)" "optcontent xl node = Option.bind (node_at node) (xl_content xl)"
  by (simp_all add: optprop_def optcontent_def split: list.splits)

lemma first_node_element: "node_at (first_node xl cf ty) = node_at (elements xl (xl_children xl (cf_root cf)) ty)"
  "first_node xl cf ty = [] \<longleftrightarrow> elements xl (xl_children xl (cf_root cf)) ty = []"
  using next_node_cases [of xl "xl_children xl (cf_root cf)" ty] by (auto simp: first_node_def)

lemma fill_heading_describes:
  "fill_heading xl dv [] cf = Some (case describe_heading xl dv cf of None \<Rightarrow> Inl EINVAL | Some d \<Rightarrow> Inr d, [])"
proof -
  have content: "content \<noteq> [] \<and> xl_prop xl (hd content) k = None \<longleftrightarrow>
      content \<noteq> [] \<and> Option.bind (node_at content) (\<lambda>x. xl_prop xl x k) = None" for content :: "'a list" and k
    by (cases content) auto
  show ?thesis
    by (auto simp: fill_heading_def describe_heading_def wgt_config_widget_def wgt_mkver_def wgt_mkidaver_def identity_fields_def
        Let_def opt_node wgt_config_name_def wgt_config_description_def wgt_config_license_def wgt_config_author_def wgt_config_content_def
        localisation_least first_node_element content split: option.splits)
qed

text \<open>C29: With enough memory, the description of a widget is exactly what the reference definition gives: it is refused for
  a missing identifier, version or source, or a feature, parameter or preference without its name, and otherwise it has the icons,
  the features with their parameters and the preferences in the order of the document, the name, description and
  license of the first element whose language is the preferred one of the locales, and the identifiers that the
  normal form of a manifest with the same identifier and version has.\<close>

theorem fill_desc_describes:
  "fill_desc xl dv [] cf want_icons want_features want_preferences =
     Some (case describe xl dv cf want_icons want_features want_preferences of None \<Rightarrow> Inl EINVAL | Some desc \<Rightarrow> Inr desc, [])"
proof -
  have "read_all [] = Inr []" by (simp add: read_all_def)
  then show ?thesis
    unfolding fill_desc_def fill_heading_describes first_defs first_node_def
    by (simp add: fill_icons_all fill_features_all fill_preferences_all describe_def Let_def read_all_def
        split: option.splits)
qed

end
