(* ===== verification/WgtJson.thy ===== *)
theory WgtJson
  imports WgtInfo UtilsJson
begin

text \<open>
  The translation of the description of a widget to the JSON object that describes the application
  (\<^verbatim>\<open>src/src/wgtpkg/wgt-json.c\<close>).

  The objects that the code modifies in place are given back and put where they were. The removal of a field is added to the parameters for
  json-c. \<open>None\<close> stands for undefined behaviours: a null name given to \<^verbatim>\<open>strcmp\<close>, and an object
  released while it is still in an array.
\<close>

section \<open>Operations\<close>

record 'j wgt_lib =
  wj_values :: "'j value_lib"
  wj_del :: "'j \<Rightarrow> string \<Rightarrow> 'j"

abbreviation wjson :: "'j wgt_lib \<Rightarrow> 'j json_lib" where
  "wjson wl \<equiv> vjson (wj_values wl)"

definition string_AGL_widget_prefix :: string where "string_AGL_widget_prefix = ''urn:AGL:widget:''"

definition sharp_target :: string where "sharp_target = ''#target''"

text \<open>Conditions chained until the first that fails.\<close>

definition and_then :: "bool \<times> 'j \<times> mem \<Rightarrow> (mem \<Rightarrow> 'j \<Rightarrow> bool \<times> 'j \<times> mem) \<Rightarrow> bool \<times> 'j \<times> mem" where
  "and_then r f = (case r of (ok, j, m) \<Rightarrow> if ok then f m j else (ok, j, m))"

definition if_needed :: "bool \<Rightarrow> (mem \<Rightarrow> 'j \<Rightarrow> bool \<times> 'j \<times> mem) \<Rightarrow> mem \<Rightarrow> 'j \<Rightarrow> bool \<times> 'j \<times> mem" where
  "if_needed b f m j = (if b then f m j else (True, j, m))"

text \<open>An action gets the object and the parameter; the last one of a table has no name.\<close>

type_synonym 'j action = "'j \<Rightarrow> wgt_desc_param \<Rightarrow> mem \<Rightarrow> int \<times> 'j \<times> mem"
type_synonym 'j actions = "(string option \<times> 'j action option) list"

definition find_action :: "'j actions \<Rightarrow> string \<Rightarrow> 'j action option" where
  "find_action actions name =
     (case List.find (\<lambda>(n, a). n = None \<or> n = Some name) actions of None \<Rightarrow> None | Some (n, a) \<Rightarrow> a)"

fun apply_params :: "'j \<Rightarrow> wgt_desc_param list \<Rightarrow> 'j actions \<Rightarrow> mem \<Rightarrow> int \<times> 'j \<times> mem" where
  "apply_params obj [] actions m = (0, obj, m)"
| "apply_params obj (p # ps) actions m =
     (let (rc, obj1, m1) = (case find_action actions (pm_name p) of None \<Rightarrow> (0, obj, m) | Some a \<Rightarrow> a obj p m);
          (rcs, obj2, m2) = apply_params obj1 ps actions m1
      in (if rc < 0 then - 1 else rcs, obj2, m2))"

text \<open>The array is told by the names that lead to it.\<close>

definition get_array :: "'j wgt_lib \<Rightarrow> mem \<Rightarrow> 'j \<Rightarrow> string \<Rightarrow> bool \<Rightarrow> int \<times> 'j \<times> string list \<times> mem" where
  "get_array wl m obj mkey create =
     (case j_enter_m (wj_values wl) m obj mkey create of
        (rc, obj1, ns, k, m1) \<Rightarrow>
          if rc < 0 then (rc, obj1, [], m1)
          else let parent = the (at_path (wj_values wl) obj1 ns) in
            if jl_get (wjson wl) parent k \<noteq> None then (rc, obj1, ns @ [k], m1)
            else if \<not> create then (- ENOENT, obj1, [], m1)
            else let (ok, parent', m2) = j_add_new_array (wj_values wl) m1 parent (Some k);
                     obj2 = put_path (wj_values wl) obj1 ns parent'
                 in if ok then (rc, obj2, ns @ [k], m2) else (- ENOMEM, obj2, [], m2))"

definition get_target_name :: "wgt_desc_feature \<Rightarrow> string option \<Rightarrow> string option" where
  "get_target_name feat defval =
     (case dropWhile (\<lambda>p. pm_name p \<noteq> sharp_target) (ft_params feat) of
        [] \<Rightarrow> defval
      | p # ps \<Rightarrow> if list_ex (\<lambda>q. pm_name q = sharp_target) ps then None else Some (pm_value p))"

text \<open>The name of a target, if it is a string, and the index of the first target of a name.\<close>

definition item_key :: "'j wgt_lib \<Rightarrow> string \<Rightarrow> 'j \<Rightarrow> string option" where
  "item_key wl key item =
     (case jl_get (wjson wl) item key of
        None \<Rightarrow> None
      | Some k \<Rightarrow> if jl_type (wjson wl) k = jtype_string then jl_string (wjson wl) k else None)"

definition get_array_item_by_key :: "'j wgt_lib \<Rightarrow> 'j \<Rightarrow> string \<Rightarrow> string \<Rightarrow> nat option" where
  "get_array_item_by_key wl array key val =
     (let items = jl_items (wjson wl) array in List.find (\<lambda>i. item_key wl key (items ! i) = Some val) [0..<length items])"

definition put_item :: "'j wgt_lib \<Rightarrow> 'j \<Rightarrow> nat \<Rightarrow> 'j \<Rightarrow> 'j" where
  "put_item wl array i x = jl_put_items (wjson wl) array ((jl_items (wjson wl) array)[i := x])"

definition get_target :: "'j wgt_lib \<Rightarrow> mem \<Rightarrow> 'j \<Rightarrow> string option \<Rightarrow> bool \<Rightarrow> (int \<times> 'j \<times> nat \<times> mem) option" where
  "get_target wl m targets name create =
     (case name of
        None \<Rightarrow>
          if list_ex (\<lambda>t. item_key wl sharp_target t \<noteq> None) (jl_items (wjson wl) targets) then None
          else Some (- ENOENT, targets, 0, m)
      | Some nm \<Rightarrow>
          (case get_array_item_by_key wl targets sharp_target nm of
             Some i \<Rightarrow> Some (if create then - EEXIST else 0, targets, i, m)
           | None \<Rightarrow>
               if \<not> create then Some (- ENOENT, targets, 0, m)
               else let (ok, targets1, m1) = j_add_new_object (wj_values wl) m targets None in
                 if \<not> ok then Some (- ENOMEM, targets1, 0, m1)
                 else let i = length (jl_items (wjson wl) targets);
                          (ok, t, m2) = j_add_string (wj_values wl) m1 (jl_items (wjson wl) targets1 ! i) (Some sharp_target) (Some nm)
                      in if ok then Some (0, put_item wl targets1 i t, i, m2) else None))"

definition create_target :: "'j wgt_lib \<Rightarrow> mem \<Rightarrow> 'j \<Rightarrow> wgt_desc_feature \<Rightarrow> (int \<times> 'j \<times> mem) option" where
  "create_target wl m targets feat =
     (case get_target_name feat None of
        None \<Rightarrow> Some (- EINVAL, targets, m)
      | Some idt \<Rightarrow> map_option (\<lambda>(rc, targets', i, m'). (rc, targets', m')) (get_target wl m targets (Some idt) True))"

definition add_icon :: "'j wgt_lib \<Rightarrow> mem \<Rightarrow> 'j \<Rightarrow> wgt_desc_icon \<Rightarrow> int \<times> 'j \<times> mem" where
  "add_icon wl m target icon =
     (let vl = wj_values wl; (rc, target1, path, m1) = get_array wl m target ''icon'' True in
      if rc < 0 then (rc, target1, m1)
      else let (ok, m2) = c_alloc m1;
               (ok, object, m3) =
                 and_then (and_then (and_then (ok, jl_new_object (wjson wl), m2)
                   (\<lambda>m j. j_add_string vl m j (Some ''src'') (Some (ic_src icon))))
                   (if_needed (ic_width icon > 0) (\<lambda>m j. j_add_integer vl m j (Some ''width'') (ic_width icon))))
                   (if_needed (ic_height icon > 0) (\<lambda>m j. j_add_integer vl m j (Some ''height'') (ic_height icon)))
           in if ok then (rc, put_path vl target1 path (j_add vl (the (at_path vl target1 path)) None object), m3)
              else (- ENOMEM, target1, m3))"

fun add_icons :: "'j wgt_lib \<Rightarrow> mem \<Rightarrow> 'j \<Rightarrow> wgt_desc_icon list \<Rightarrow> int \<times> 'j \<times> mem" where
  "add_icons wl m target [] = (0, target, m)"
| "add_icons wl m target (icon # icons) =
     (let (rc, target1, m1) = add_icon wl m target icon in if rc < 0 then (rc, target1, m1) else add_icons wl m1 target1 icons)"

text \<open>The error of the additions of strings is that of the memory.\<close>

definition fill_main_target :: "'j wgt_lib \<Rightarrow> mem \<Rightarrow> 'j \<Rightarrow> wgt_desc \<Rightarrow> int \<times> 'j \<times> mem" where
  "fill_main_target wl m target desc =
     (let vl = wj_values wl; (rc, target1, m1) = add_icons wl m target (wd_icons desc) in
      if rc < 0 then (rc, target1, m1)
      else let (ok, target2, m2) = j_add_many_strings_m vl m1 target1
                 [(''content.src'', wd_content_src desc), (''content.type'', wd_content_type desc), (''content.encoding'', wd_content_encoding desc)] in
        if \<not> ok then (- ENOMEM, target2, m2)
        else let (ok, target3, m3) =
                   and_then (and_then (and_then
                     (if_needed (wd_width desc \<noteq> 0) (\<lambda>m j. j_add_integer vl m j (Some ''width'') (wd_width desc)) m2 target2)
                     (if_needed (wd_height desc \<noteq> 0) (\<lambda>m j. j_add_integer vl m j (Some ''height'') (wd_height desc))))
                     (if_needed (wd_viewmodes desc \<noteq> None) (\<lambda>m j. j_add_string vl m j (Some ''viewmodes'') (wd_viewmodes desc))))
                     (if_needed (wd_defaultlocale desc \<noteq> None) (\<lambda>m j. j_add_string vl m j (Some ''defaultlocale'') (wd_defaultlocale desc)))
             in (if ok then 0 else - ENOMEM, target3, m3))"

definition create_main_target :: "'j wgt_lib \<Rightarrow> mem \<Rightarrow> 'j \<Rightarrow> wgt_desc \<Rightarrow> (int \<times> 'j \<times> mem) option" where
  "create_main_target wl m targets desc =
     (case get_target wl m targets (Some ''main'') True of
        None \<Rightarrow> None
      | Some (rc, targets1, i, m1) \<Rightarrow>
          if rc < 0 then Some (rc, targets1, m1)
          else let (rc, target, m2) = fill_main_target wl m1 (jl_items (wjson wl) targets1 ! i) desc
               in Some (rc, put_item wl targets1 i target, m2))"

section \<open>Features\<close>

definition object_of_param :: "'j wgt_lib \<Rightarrow> mem \<Rightarrow> string \<Rightarrow> string \<Rightarrow> bool \<times> 'j \<times> mem" where
  "object_of_param wl m name val =
     (let vl = wj_values wl; (ok, m1) = c_alloc m in
      and_then (and_then (ok, jl_new_object (wjson wl), m1)
        (\<lambda>m j. j_add_string vl m j (Some ''name'') (Some name)))
        (\<lambda>m j. j_add_string vl m j (Some ''value'') (Some val)))"

text \<open>The status is that of \<^verbatim>\<open>j_add_string_m\<close>: 0 for a failure.\<close>

definition add_param_simple :: "'j wgt_lib \<Rightarrow> 'j action" where
  "add_param_simple wl obj param m =
     (let (ok, obj', m') = j_add_string_m (wj_values wl) m obj (Some (pm_name param)) (Some (pm_value param))
      in (of_bool ok, obj', m'))"

text \<open>The name and the value of the item that is appended are given by \<open>item\<close>.\<close>

definition add_param_array :: "'j wgt_lib \<Rightarrow> string option \<Rightarrow> 'j action" where
  "add_param_array wl array_name obj param m =
     (let vl = wj_values wl in
      case array_name of
        None \<Rightarrow>
          (let (ok, val, m1) = object_of_param wl m (pm_name param) (pm_value param)
           in if ok then (0, j_add vl obj None val, m1) else (- ENOMEM, obj, m1))
      | Some nm \<Rightarrow>
          (let (ok, obj1, m1) = (if jl_get (wjson wl) obj nm \<noteq> None then (True, obj, m) else j_add_new_array vl m obj (Some nm)) in
           if \<not> ok then (- ENOMEM, obj1, m1)
           else let (ok, val, m2) = object_of_param wl m1 (pm_name param) (pm_value param)
                in if ok then (0, jl_add (wjson wl) obj1 nm (j_add vl (the (jl_get (wjson wl) obj1 nm)) None val), m2)
                   else (- ENOMEM, obj1, m2)))"

definition add_param_object :: "'j wgt_lib \<Rightarrow> string option \<Rightarrow> 'j action" where
  "add_param_object wl object_name obj param m =
     (let vl = wj_values wl in
      case object_name of
        None \<Rightarrow>
          (let (ok, val, m1) = object_of_param wl m (pm_name param) (pm_value param)
           in if ok then (0, j_add vl obj (Some (pm_name param)) val, m1) else (- ENOMEM, obj, m1))
      | Some nm \<Rightarrow>
          (let (ok, obj1, m1) = (if jl_get (wjson wl) obj nm \<noteq> None then (True, obj, m) else j_add_new_object vl m obj (Some nm)) in
           if \<not> ok then (- ENOMEM, obj1, m1)
           else let (ok, val, m2) = object_of_param wl m1 (pm_name param) (pm_value param)
                in if ok then (0, jl_add (wjson wl) obj1 nm (j_add vl (the (jl_get (wjson wl) obj1 nm)) (Some (pm_name param)) val), m2)
                   else (- ENOMEM, obj1, m2)))"

definition add_param_array_compat :: "'j wgt_lib \<Rightarrow> string \<Rightarrow> 'j action" where
  "add_param_array_compat wl ty obj param m =
     (let (ok, val, m1) = object_of_param wl m (pm_value param) ty
      in if ok then (0, j_add (wj_values wl) obj None val, m1) else (- ENOMEM, obj, m1))"

definition add_targeted_params :: "'j wgt_lib \<Rightarrow> mem \<Rightarrow> 'j \<Rightarrow> wgt_desc_feature \<Rightarrow> 'j actions \<Rightarrow> (int \<times> 'j \<times> mem) option" where
  "add_targeted_params wl m targets feat actions =
     (case get_target wl m targets (get_target_name feat (Some ''main'')) False of
        None \<Rightarrow> None
      | Some (rc, targets1, i, m1) \<Rightarrow>
          if rc < 0 then Some (rc, targets1, m1)
          else let (rc, obj, m2) = apply_params (jl_items (wjson wl) targets1 ! i) (ft_params feat) actions m1
               in Some (rc, put_item wl targets1 i obj, m2))"

definition skip_target :: "'j action \<Rightarrow> 'j actions" where
  "skip_target a = [(Some sharp_target, None), (None, Some a)]"

definition add_provided_unit :: "'j wgt_lib \<Rightarrow> mem \<Rightarrow> 'j \<Rightarrow> wgt_desc_feature \<Rightarrow> (int \<times> 'j \<times> mem) option" where
  "add_provided_unit wl m targets feat = add_targeted_params wl m targets feat (skip_target (add_param_simple wl))"

definition add_provided_api :: "'j wgt_lib \<Rightarrow> mem \<Rightarrow> 'j \<Rightarrow> wgt_desc_feature \<Rightarrow> (int \<times> 'j \<times> mem) option" where
  "add_provided_api wl m targets feat = add_targeted_params wl m targets feat (skip_target (add_param_array wl (Some ''provided-api'')))"

definition add_required_api :: "'j wgt_lib \<Rightarrow> mem \<Rightarrow> 'j \<Rightarrow> wgt_desc_feature \<Rightarrow> (int \<times> 'j \<times> mem) option" where
  "add_required_api wl m targets feat = add_targeted_params wl m targets feat (skip_target (add_param_array wl (Some ''required-api'')))"

definition add_provided_binding :: "'j wgt_lib \<Rightarrow> mem \<Rightarrow> 'j \<Rightarrow> wgt_desc_feature \<Rightarrow> int \<times> 'j \<times> mem" where
  "add_provided_binding wl m provided_binding feat = apply_params provided_binding (ft_params feat) [(None, Some (add_param_array wl None))] m"

definition add_required_binding :: "'j wgt_lib \<Rightarrow> mem \<Rightarrow> 'j \<Rightarrow> wgt_desc_feature \<Rightarrow> (int \<times> 'j \<times> mem) option" where
  "add_required_binding wl m targets feat = add_targeted_params wl m targets feat (skip_target (add_param_array wl (Some ''required-binding'')))"

definition add_required_permission :: "'j wgt_lib \<Rightarrow> mem \<Rightarrow> 'j \<Rightarrow> wgt_desc_feature \<Rightarrow> int \<times> 'j \<times> mem" where
  "add_required_permission wl m required_perms feat = apply_params required_perms (ft_params feat) (skip_target (add_param_object wl None)) m"

definition add_defined_permission :: "'j wgt_lib \<Rightarrow> mem \<Rightarrow> 'j \<Rightarrow> wgt_desc_feature \<Rightarrow> int \<times> 'j \<times> mem" where
  "add_defined_permission wl m defperm feat = apply_params defperm (ft_params feat) [(None, Some (add_param_array wl None))] m"

definition add_file_properties :: "'j wgt_lib \<Rightarrow> mem \<Rightarrow> 'j \<Rightarrow> wgt_desc_feature \<Rightarrow> int \<times> 'j \<times> mem" where
  "add_file_properties wl m fileprops feat = apply_params fileprops (ft_params feat) [(None, Some (add_param_array wl None))] m"

definition add_file_properties_compat :: "'j wgt_lib \<Rightarrow> mem \<Rightarrow> 'j \<Rightarrow> wgt_desc_feature \<Rightarrow> string \<Rightarrow> int \<times> 'j \<times> mem" where
  "add_file_properties_compat wl m fileprops feat ty = apply_params fileprops (ft_params feat) [(None, Some (add_param_array_compat wl ty))] m"

section \<open>Translation\<close>

text \<open>The parts of the object that is built.\<close>

record 'j parts =
  pt_targets :: 'j
  pt_defined_perms :: 'j
  pt_required_perms :: 'j
  pt_file_properties :: 'j
  pt_provided_binding :: 'j
  pt_mem :: mem

text \<open>The name of a feature after the prefix of widgets.\<close>

definition widget_feature :: "wgt_desc_feature \<Rightarrow> string option" where
  "widget_feature feat =
     (let n = length string_AGL_widget_prefix
      in if take n (ft_name feat) = string_AGL_widget_prefix then Some (drop n (ft_name feat)) else None)"

definition declare_feature :: "'j wgt_lib \<Rightarrow> wgt_desc_feature \<Rightarrow> int \<times> 'j parts \<Rightarrow> (int \<times> 'j parts) option" where
  "declare_feature wl feat st =
     (let (rc, pt) = st in
      case widget_feature feat of
        None \<Rightarrow> Some (rc, pt)
      | Some featname \<Rightarrow>
          let rc1 = (if \<not> ft_required feat \<and> rc = 0 then - EINVAL else rc) in
          if featname \<noteq> ''provided-unit'' then Some (rc1, pt)
          else map_option (\<lambda>(rc2, targets, m). (if rc2 < 0 \<and> rc1 = 0 then rc2 else rc1, pt\<lparr>pt_targets := targets, pt_mem := m\<rparr>))
                 (create_target wl (pt_mem pt) (pt_targets pt) feat))"

definition on_targets :: "'j parts \<Rightarrow> (int \<times> 'j \<times> mem) option \<Rightarrow> (int \<times> 'j parts) option" where
  "on_targets pt r = map_option (\<lambda>(rc, targets, m). (rc, pt\<lparr>pt_targets := targets, pt_mem := m\<rparr>)) r"

definition on_files :: "'j parts \<Rightarrow> int \<times> 'j \<times> mem \<Rightarrow> (int \<times> 'j parts) option" where
  "on_files pt r = (case r of (rc, files, m) \<Rightarrow> Some (rc, pt\<lparr>pt_file_properties := files, pt_mem := m\<rparr>))"

definition compat_types :: "(string \<times> string) list" where
  "compat_types = [(''public-files'', ''public''), (''lib-files'', ''library''), (''conf-files'', ''config''), (''exec-files'', ''executable''),
     (''data-files'', ''data''), (''http-files'', ''www'')]"

definition define_feature :: "'j wgt_lib \<Rightarrow> wgt_desc_feature \<Rightarrow> string \<Rightarrow> 'j parts \<Rightarrow> (int \<times> 'j parts) option" where
  "define_feature wl feat featname pt =
     (let m = pt_mem pt in
      if featname = ''defined-permission'' then
        (case add_defined_permission wl m (pt_defined_perms pt) feat of
           (rc, x, m') \<Rightarrow> Some (rc, pt\<lparr>pt_defined_perms := x, pt_mem := m'\<rparr>))
      else if featname = ''file-properties'' then on_files pt (add_file_properties wl m (pt_file_properties pt) feat)
      else if featname = ''provided-unit'' then on_targets pt (add_provided_unit wl m (pt_targets pt) feat)
      else if featname = ''provided-api'' then on_targets pt (add_provided_api wl m (pt_targets pt) feat)
      else if featname = ''provided-binding'' then
        (case add_provided_binding wl m (pt_provided_binding pt) feat of
           (rc, x, m') \<Rightarrow> Some (rc, pt\<lparr>pt_provided_binding := x, pt_mem := m'\<rparr>))
      else if featname = ''required-api'' then on_targets pt (add_required_api wl m (pt_targets pt) feat)
      else if featname = ''required-binding'' then on_targets pt (add_required_binding wl m (pt_targets pt) feat)
      else if featname = ''required-permission'' then
        (case add_required_permission wl m (pt_required_perms pt) feat of
           (rc, x, m') \<Rightarrow> Some (rc, pt\<lparr>pt_required_perms := x, pt_mem := m'\<rparr>))
      else case map_of compat_types featname of
             Some ty \<Rightarrow> on_files pt (add_file_properties_compat wl m (pt_file_properties pt) feat ty)
           | None \<Rightarrow> Some (0, pt))"

definition define_widget_feature :: "'j wgt_lib \<Rightarrow> wgt_desc_feature \<Rightarrow> int \<times> 'j parts \<Rightarrow> (int \<times> 'j parts) option" where
  "define_widget_feature wl feat st =
     (let (rc, pt) = st in
      case widget_feature feat of
        None \<Rightarrow> Some (rc, pt)
      | Some featname \<Rightarrow>
          map_option (\<lambda>(rc2, pt'). (if rc2 < 0 \<and> rc = 0 then rc2 else rc, pt')) (define_feature wl feat featname pt))"

fun pass :: "(wgt_desc_feature \<Rightarrow> 's \<Rightarrow> 's option) \<Rightarrow> wgt_desc_feature list \<Rightarrow> 's \<Rightarrow> 's option" where
  "pass f [] s = Some s"
| "pass f (feat # feats) s = Option.bind (f feat s) (pass f feats)"

definition put_or_del :: "'j wgt_lib \<Rightarrow> bool \<Rightarrow> string \<Rightarrow> 'j \<Rightarrow> 'j \<Rightarrow> 'j" where
  "put_or_del wl isempty key x j = (if isempty then wj_del wl (jl_add (wjson wl) j key x) key else jl_add (wjson wl) j key x)"

definition main_fields :: "wgt_desc \<Rightarrow> (string \<times> string option) list" where
  "main_fields desc =
     [(''id'', Some (wd_id desc)), (''id-lower'', Some (wd_id_lower desc)), (''id-underscore'', wd_id_underscore desc),
      (''idaver'', wd_idaver desc), (''version'', Some (wd_version desc)), (''ver'', wd_ver desc),
      (''author.content'', wd_author desc), (''author.href'', wd_author_href desc), (''author.email'', wd_author_email desc),
      (''license.content'', wd_license desc), (''license.href'', wd_license_href desc), (''defaultlocale'', wd_defaultlocale desc),
      (''name.content'', wd_name desc), (''name.short'', wd_name_short desc), (''description'', wd_description desc)]"

text \<open>The creation of the object with its parts, empty; the initial parts.\<close>

definition new_application :: "'j wgt_lib \<Rightarrow> mem \<Rightarrow> bool \<times> 'j \<times> mem" where
  "new_application wl m =
     (let vl = wj_values wl; (ok, m1) = c_alloc m in
      and_then (and_then (and_then (and_then (and_then (ok, jl_new_object (wjson wl), m1)
        (\<lambda>m j. j_add_new_array vl m j (Some ''targets'')))
        (\<lambda>m j. j_add_new_array vl m j (Some ''defined-permission'')))
        (\<lambda>m j. j_add_new_object vl m j (Some ''required-permission'')))
        (\<lambda>m j. j_add_new_array vl m j (Some ''file-properties'')))
        (\<lambda>m j. j_add_new_array vl m j (Some ''provided-binding'')))"

definition new_parts :: "'j wgt_lib \<Rightarrow> mem \<Rightarrow> 'j parts" where
  "new_parts wl m =
     (let arr = al_new_array (vl_array (wj_values wl))
      in \<lparr>pt_targets = arr, pt_defined_perms = arr, pt_required_perms = jl_new_object (wjson wl), pt_file_properties = arr,
          pt_provided_binding = arr, pt_mem = m\<rparr>)"

definition assemble :: "'j wgt_lib \<Rightarrow> 'j parts \<Rightarrow> 'j \<Rightarrow> 'j" where
  "assemble wl pt result =
     (let jl = wjson wl in
      put_or_del wl (jl_items jl (pt_provided_binding pt) = []) ''provided-binding'' (pt_provided_binding pt)
        (put_or_del wl (jl_items jl (pt_file_properties pt) = []) ''file-properties'' (pt_file_properties pt)
          (put_or_del wl (jl_fields jl (pt_required_perms pt) = []) ''required-permission'' (pt_required_perms pt)
            (put_or_del wl (jl_items jl (pt_defined_perms pt) = []) ''defined-permission'' (pt_defined_perms pt)
              (jl_add jl result ''targets'' (pt_targets pt))))))"

text \<open>The two passes over the features; the inner option is the pointer to the result.\<close>

definition to_json :: "'j wgt_lib \<Rightarrow> mem \<Rightarrow> wgt_desc \<Rightarrow> ('j option \<times> mem) option" where
  "to_json wl m desc =
     (let (ok, result, m1) = new_application wl m in
      if \<not> ok then Some (None, m1)
      else case create_main_target wl m1 (pt_targets (new_parts wl m1)) desc of
             None \<Rightarrow> None
           | Some (rc, targets, m2) \<Rightarrow>
               (case Option.bind (pass (declare_feature wl) (wd_features desc) (rc, (new_parts wl m2)\<lparr>pt_targets := targets\<rparr>))
                       (pass (define_widget_feature wl) (wd_features desc)) of
                  None \<Rightarrow> None
                | Some (rc, pt) \<Rightarrow>
                    let (ok, result', m3) = j_add_many_strings_m (wj_values wl) (pt_mem pt) (assemble wl pt result) (main_fields desc)
                    in Some (if rc = 0 \<and> ok then Some result' else None, m3)))"

definition wgt_info_to_json :: "'j wgt_lib \<Rightarrow> mem \<Rightarrow> wgt_info \<Rightarrow> ('j option \<times> mem) option" where
  "wgt_info_to_json wl m info = to_json wl m (wi_desc info)"

definition convrel :: "'j wgt_lib \<Rightarrow> mem \<Rightarrow> wgt_info option \<Rightarrow> wgt option \<Rightarrow> ('j option \<times> wgt option \<times> mem) option" where
  "convrel wl m info wgt =
     (case info of
        None \<Rightarrow> Some (None, wgt, m)
      | Some ifo \<Rightarrow> map_option (\<lambda>(j, m'). (j, snd (wgt_info_unref ifo wgt), m')) (wgt_info_to_json wl m ifo))"

definition wgt_to_json :: "'j wgt_lib \<Rightarrow> 'x libxml \<Rightarrow> wgt_sys \<Rightarrow> bool \<Rightarrow> mem \<Rightarrow> wgt \<Rightarrow> ('j option \<times> wgt option \<times> mem) option" where
  "wgt_to_json wl xl sys dv m wgt =
     Option.bind (wgt_info_create xl sys dv m wgt True True True) (\<lambda>(info, wgt', m'). convrel wl m' info (Some wgt'))"

definition wgt_path_at_to_json :: "'j wgt_lib \<Rightarrow> 'x libxml \<Rightarrow> wgt_sys \<Rightarrow> bool \<Rightarrow> mem \<Rightarrow> int \<Rightarrow> string \<Rightarrow> ('j option \<times> wgt option \<times> mem) option" where
  "wgt_path_at_to_json wl xl sys dv m dfd path =
     Option.bind (wgt_info_createat xl sys dv m dfd (Some path) True True True) (\<lambda>(info, wgt, m'). convrel wl m' info wgt)"

definition wgt_path_to_json :: "'j wgt_lib \<Rightarrow> 'x libxml \<Rightarrow> wgt_sys \<Rightarrow> bool \<Rightarrow> mem \<Rightarrow> string \<Rightarrow> ('j option \<times> wgt option \<times> mem) option" where
  "wgt_path_to_json wl xl sys dv m path = wgt_path_at_to_json wl xl sys dv m AT_FDCWD path"

definition wgt_config_to_json :: "'j wgt_lib \<Rightarrow> 'x libxml \<Rightarrow> wgt_sys \<Rightarrow> bool \<Rightarrow> mem \<Rightarrow> string \<Rightarrow> ('j option \<times> mem) option" where
  "wgt_config_to_json wl xl sys dv m path =
     Option.bind (wgt_info_from_config xl sys dv m AT_FDCWD path True True True)
       (\<lambda>(info, m'). map_option (\<lambda>(j, w, m2). (j, m2)) (convrel wl m' info None))"

section \<open>Targets\<close>

text \<open>The names of targets, and what leaves the value of a key of an object.\<close>

definition target_names :: "'j wgt_lib \<Rightarrow> 'j \<Rightarrow> string option list" where
  "target_names wl targets = map (item_key wl sharp_target) (jl_items (wjson wl) targets)"

definition same_at :: "'j wgt_lib \<Rightarrow> string \<Rightarrow> 'j \<Rightarrow> 'j \<Rightarrow> bool" where
  "same_at wl k j j' \<longleftrightarrow> (jl_type (wjson wl) j = jtype_object \<longrightarrow>
     jl_type (wjson wl) j' = jtype_object \<and> jl_get (wjson wl) j' k = jl_get (wjson wl) j k)"

lemma same_at_refl [simp, intro]: "same_at wl k j j"
  by (simp add: same_at_def)

lemma same_at_trans: "same_at wl k a b \<Longrightarrow> same_at wl k b c \<Longrightarrow> same_at wl k a c"
  by (auto simp: same_at_def)

lemma same_at_then:
  assumes "same_at wl k j (fst (snd r))" "\<And>m x. same_at wl k x (fst (snd (f m x)))"
  shows "same_at wl k j (fst (snd (and_then r f)))"
  using assms(1) same_at_trans [OF assms(1) assms(2)] by (auto simp: and_then_def split: prod.splits)

lemma same_at_needed: "(\<And>m x. same_at wl k x (fst (snd (f m x)))) \<Longrightarrow> same_at wl k j (fst (snd (if_needed b f m j)))"
  by (simp add: if_needed_def)

lemma declare_sticky: "pass (declare_feature wl) fs (rc, pt) = Some (0, pt') \<Longrightarrow> rc = 0"
proof (induction fs arbitrary: rc pt)
  case (Cons f fs)
  then obtain rc1 pt1 where d: "declare_feature wl f (rc, pt) = Some (rc1, pt1)" "pass (declare_feature wl) fs (rc1, pt1) = Some (0, pt')"
    by (auto simp: bind_eq_Some_conv)
  with Cons.IH [OF d(2)] show ?case by (auto simp: declare_feature_def Let_def split: option.splits if_splits)
qed simp

lemma define_sticky: "pass (define_widget_feature wl) fs (rc, pt) = Some (0, pt') \<Longrightarrow> rc = 0"
proof (induction fs arbitrary: rc pt)
  case (Cons f fs)
  then obtain rc1 pt1 where d: "define_widget_feature wl f (rc, pt) = Some (rc1, pt1)" "pass (define_widget_feature wl) fs (rc1, pt1) = Some (0, pt')"
    by (auto simp: bind_eq_Some_conv)
  with Cons.IH [OF d(2)] show ?case by (auto simp: define_widget_feature_def split: option.splits if_splits)
qed simp

definition provides_unit :: "wgt_desc_feature \<Rightarrow> bool" where
  "provides_unit feat \<longleftrightarrow> widget_feature feat = Some ''provided-unit''"

text \<open>The keys of the parameters, made of names, do not enter the name of the target.\<close>

definition keeps_target :: "wgt_desc_feature \<Rightarrow> bool" where
  "keeps_target feat \<longleftrightarrow> list_all (\<lambda>p. pm_name p \<noteq> sharp_target \<longrightarrow> hd (key_names (pm_name p)) \<noteq> sharp_target) (ft_params feat)"

text \<open>The parameters that require permissions, and the object that holds parameters, the last one of a name.\<close>

definition permission_params :: "wgt_desc_feature list \<Rightarrow> wgt_desc_param list" where
  "permission_params feats =
     filter (\<lambda>p. pm_name p \<noteq> sharp_target) (concat (map ft_params (filter (\<lambda>f. widget_feature f = Some ''required-permission'') feats)))"

definition is_param :: "'j wgt_lib \<Rightarrow> string \<Rightarrow> string \<Rightarrow> 'j \<Rightarrow> bool" where
  "is_param wl name val x \<longleftrightarrow> jl_get (wjson wl) x ''name'' = Some (jl_new_string (wjson wl) name) \<and>
     jl_get (wjson wl) x ''value'' = Some (jl_new_string (wjson wl) val)"

definition holds_params :: "'j wgt_lib \<Rightarrow> wgt_desc_param list \<Rightarrow> 'j \<Rightarrow> bool" where
  "holds_params wl ps obj \<longleftrightarrow> (\<forall>k. case map_of (rev (map (\<lambda>p. (pm_name p, pm_value p)) ps)) k of
      None \<Rightarrow> jl_get (wjson wl) obj k = None
    | Some v \<Rightarrow> (\<exists>x. jl_get (wjson wl) obj k = Some x \<and> is_param wl k v x))"

locale wgt_laws = value_laws "wj_values wl" for wl :: "'j wgt_lib" +
  assumes del_get: "jl_type (wjson wl) j = jtype_object \<Longrightarrow> jl_get (wjson wl) (wj_del wl j k) k' = (if k' = k then None else jl_get (wjson wl) j k')"
    and del_type: "jl_type (wjson wl) j = jtype_object \<Longrightarrow> jl_type (wjson wl) (wj_del wl j k) = jtype_object"
begin

lemma same_at_add: "k' \<noteq> k \<Longrightarrow> same_at wl k j (jl_add (wjson wl) j k' v)"
  by (simp add: same_at_def get_add type_add)

lemma same_at_created: "k' \<noteq> k \<Longrightarrow> same_at wl k j (fst (snd (j_add_created (wj_values wl) m j (Some k') v)))"
  using same_at_add by (auto simp: j_add_created_def j_add_def split: prod.splits)

lemma same_at_put_path: "ns \<noteq> [] \<Longrightarrow> hd ns \<noteq> k \<Longrightarrow> same_at wl k j (put_path (wj_values wl) j ns x)"
  using same_at_add by (cases ns) (auto split: option.splits)

lemma same_at_enter:
  "ns \<noteq> [] \<Longrightarrow> hd ns \<noteq> k \<Longrightarrow> enter_names (wj_values wl) m create j ns = (rc, j', m') \<Longrightarrow> same_at wl k j j'"
proof (cases ns)
  case (Cons n ns')
  assume "hd ns \<noteq> k" "enter_names (wj_values wl) m create j ns = (rc, j', m')"
  with Cons show ?thesis
    using same_at_add [of n k] same_at_trans [OF same_at_add same_at_add, of n k n]
    by (auto simp: j_add_new_object_def j_add_created_def j_add_def split: option.splits prod.splits if_splits)
qed simp

lemma same_at_add_m:
  assumes "hd (key_names mkey) \<noteq> k"
  shows "same_at wl k j (fst (snd (j_add_m (wj_values wl) m j (Some mkey) v)))"
proof -
  obtain ns key where d: "split_dots [] mkey = (ns, key)" by fastforce
  obtain rc j' m' where e: "enter_names (wj_values wl) m True j ns = (rc, j', m')" by (metis prod_cases3)
  have hd: "hd (ns @ [key]) \<noteq> k" using assms d by (simp add: key_names_def)
  show ?thesis
  proof (cases ns)
    case Nil
    with hd e d show ?thesis using same_at_add [of key k j] by (auto simp: j_add_m_def j_enter_m_def j_add_def)
  next
    case (Cons n ns')
    with hd have n: "ns \<noteq> []" "hd ns \<noteq> k" by auto
    note s = same_at_enter [OF n e]
    show ?thesis
      using s same_at_trans [OF s same_at_put_path [OF n]] by (auto simp: j_add_m_def j_enter_m_def d e)
  qed
qed

lemma same_at_string_m: "hd (key_names mkey) \<noteq> k \<Longrightarrow> same_at wl k j (fst (snd (j_add_string_m (wj_values wl) m j (Some mkey) v)))"
  using same_at_add_m by (auto simp: j_add_string_m_def j_add_created_m_def split: prod.splits)

lemma same_at_many:
  "list_all (\<lambda>(key, v). hd (key_names key) \<noteq> k) kvs \<Longrightarrow> same_at wl k j (fst (snd (j_add_many_strings_m (wj_values wl) m j kvs)))"
proof (induction kvs arbitrary: m j)
  case (Cons kv kvs)
  obtain key val where kv: "kv = (key, val)" by fastforce
  show ?case
  proof (cases val)
    case (Some v)
    obtain ok j' m' where a: "j_add_string_m (wj_values wl) m j (Some key) (Some v) = (ok, j', m')" by (metis prod_cases3)
    have "same_at wl k j j'" using same_at_string_m [of key k j m "Some v"] Cons.prems a by (simp add: kv)
    with Cons.IH [of j' m'] Cons.prems have "same_at wl k j (fst (snd (j_add_many_strings_m (wj_values wl) m' j' kvs)))"
      by (auto intro: same_at_trans)
    with kv Some a show ?thesis by (auto split: prod.splits)
  qed (use Cons kv in auto)
qed simp

lemma same_at_icon: "k \<noteq> ''icon'' \<Longrightarrow> same_at wl k j (fst (snd (add_icon wl m j icon)))"
proof -
  assume k: "k \<noteq> ''icon''"
  have e: "j_enter_m (wj_values wl) m j ''icon'' True = (0, j, [], ''icon'', m)" by (simp add: j_enter_m_def)
  obtain rc j1 path m1 where g: "get_array wl m j ''icon'' True = (rc, j1, path, m1)" by (metis prod_cases4)
  have "same_at wl k j j1 \<and> (rc \<ge> 0 \<longrightarrow> path = [''icon''])"
    using g k same_at_created [of "''icon''" k j m "al_new_array (vl_array (wj_values wl))"]
    by (auto simp: get_array_def e j_add_new_array_def Let_def split: if_splits prod.splits)
  then show ?thesis
    using same_at_put_path [of "[''icon'']" k j1] k
    by (auto simp: add_icon_def g Let_def split: prod.splits dest: same_at_trans)
qed

lemma same_at_icons: "k \<noteq> ''icon'' \<Longrightarrow> same_at wl k j (fst (snd (add_icons wl m j icons)))"
proof (induction icons arbitrary: m j)
  case (Cons i icons)
  obtain rc j1 m1 where a: "add_icon wl m j i = (rc, j1, m1)" by (metis prod_cases3)
  have "same_at wl k j j1" using same_at_icon [OF Cons.prems, of j m i] a by simp
  with Cons a show ?case by (auto dest: same_at_trans)
qed simp

lemma same_at_main: "same_at wl sharp_target j (fst (snd (fill_main_target wl m j desc)))"
proof -
  obtain rc j1 m1 where a: "add_icons wl m j (wd_icons desc) = (rc, j1, m1)" by (metis prod_cases3)
  let ?kvs = "[(''content.src'', wd_content_src desc), (''content.type'', wd_content_type desc), (''content.encoding'', wd_content_encoding desc)]"
  obtain ok j2 m2 where b: "j_add_many_strings_m (wj_values wl) m1 j1 ?kvs = (ok, j2, m2)" by (metis prod_cases3)
  have 1: "same_at wl sharp_target j j1" using same_at_icons [of sharp_target j m "wd_icons desc"] a by (simp add: sharp_target_def)
  have "list_all (\<lambda>(key, v). hd (key_names key) \<noteq> sharp_target) ?kvs" by (simp add: key_names_def sharp_target_def)
  from same_at_many [OF this, of j1 m1] b have 2: "same_at wl sharp_target j1 j2" by simp
  note add = same_at_created [of _ sharp_target, folded j_add_integer_def j_add_string_def]
  have 3: "same_at wl sharp_target j2 (fst (snd (and_then (and_then (and_then
         (if_needed (wd_width desc \<noteq> 0) (\<lambda>m j. j_add_integer (wj_values wl) m j (Some ''width'') (wd_width desc)) m2 j2)
         (if_needed (wd_height desc \<noteq> 0) (\<lambda>m j. j_add_integer (wj_values wl) m j (Some ''height'') (wd_height desc))))
         (if_needed (wd_viewmodes desc \<noteq> None) (\<lambda>m j. j_add_string (wj_values wl) m j (Some ''viewmodes'') (wd_viewmodes desc))))
         (if_needed (wd_defaultlocale desc \<noteq> None) (\<lambda>m j. j_add_string (wj_values wl) m j (Some ''defaultlocale'') (wd_defaultlocale desc))))))"
    by (intro same_at_then same_at_needed) (simp_all add: j_add_integer_def j_add_string_def same_at_created sharp_target_def)
  show ?thesis
    using 1 same_at_trans [OF 1 2] same_at_trans [OF same_at_trans [OF 1 2] 3] b
    by (auto simp: fill_main_target_def a Let_def split: prod.splits)
qed

lemma item_key_same: "same_at wl sharp_target x x' \<Longrightarrow> jl_type (wjson wl) x = jtype_object \<Longrightarrow> item_key wl sharp_target x' = item_key wl sharp_target x"
  by (simp add: same_at_def item_key_def)

lemma item_key_object: "item_key wl k x = Some v \<Longrightarrow> jl_type (wjson wl) x = jtype_object"
  using get_object by (auto simp: item_key_def split: option.splits)

lemma put_item_names:
  assumes "jl_type (wjson wl) targets = jtype_array" "i < length (jl_items (wjson wl) targets)"
    and "item_key wl sharp_target x = item_key wl sharp_target (jl_items (wjson wl) targets ! i)"
  shows "jl_type (wjson wl) (put_item wl targets i x) = jtype_array" "target_names wl (put_item wl targets i x) = target_names wl targets"
proof -
  show "jl_type (wjson wl) (put_item wl targets i x) = jtype_array" using put_items assms(1) by (simp add: put_item_def)
  have "target_names wl (put_item wl targets i x) = (target_names wl targets)[i := item_key wl sharp_target x]"
    using put_items assms(1) by (simp add: put_item_def target_names_def map_update)
  also have "\<dots> = target_names wl targets"
    unfolding assms(3) using assms(2) by (simp add: target_names_def list_update_same_conv)
  finally show "target_names wl (put_item wl targets i x) = target_names wl targets" .
qed

lemma find_target:
  "get_array_item_by_key wl targets sharp_target nm = Some i \<Longrightarrow>
     i < length (jl_items (wjson wl) targets) \<and> item_key wl sharp_target (jl_items (wjson wl) targets ! i) = Some nm"
  "get_array_item_by_key wl targets sharp_target nm = None \<Longrightarrow> Some nm \<notin> set (target_names wl targets)"
  by (auto simp: get_array_item_by_key_def find_Some_iff find_None_iff target_names_def in_set_conv_nth Let_def)

lemma get_target_existing:
  assumes "get_target wl m targets name False = Some (rc, targets', i, m')"
  shows "targets' = targets \<and> m' = m \<and> rc \<le> 0 \<and>
    (rc = 0 \<longrightarrow> i < length (jl_items (wjson wl) targets) \<and> jl_type (wjson wl) (jl_items (wjson wl) targets ! i) = jtype_object)"
  using assms by (auto simp: get_target_def split: option.splits if_splits dest: find_target(1) intro: item_key_object)

lemma get_target_new:
  assumes "get_target wl m targets (Some nm) True = Some (rc, targets', i, m')" "jl_type (wjson wl) targets = jtype_array"
  shows "rc \<le> 0 \<and> (rc = 0 \<longrightarrow> jl_type (wjson wl) targets' = jtype_array \<and> Some nm \<notin> set (target_names wl targets) \<and>
    target_names wl targets' = target_names wl targets @ [Some nm] \<and> i < length (jl_items (wjson wl) targets') \<and>
    jl_type (wjson wl) (jl_items (wjson wl) targets' ! i) = jtype_object)"
proof (cases "get_array_item_by_key wl targets sharp_target nm")
  case (Some j)
  with assms show ?thesis by (auto simp: get_target_def)
next
  case None
  obtain ok m1 where a: "c_alloc m = (ok, m1)" by fastforce
  obtain ok2 m2 where b: "c_alloc m1 = (ok2, m2)" by fastforce
  let ?new = "jl_new_object (wjson wl)" and ?items = "jl_items (wjson wl) targets"
  let ?t1 = "al_array_add (vl_array (wj_values wl)) targets ?new"
  let ?t = "jl_add (wjson wl) ?new sharp_target (jl_new_string (wjson wl) nm)"
  have arr: "jl_type (wjson wl) ?t1 = jtype_array" "jl_items (wjson wl) ?t1 = ?items @ [?new]" using array_add assms(2) by simp_all
  show ?thesis
  proof (cases "ok \<and> ok2")
    case False
    with assms None a b arr show ?thesis
      by (auto simp: get_target_def j_add_new_object_def j_add_created_def j_add_def j_add_string_def split: if_splits)
  next
    case True
    with assms(1) None a b have r: "rc = 0" "targets' = put_item wl ?t1 (length ?items) ?t" "i = length ?items"
      by (auto simp: get_target_def j_add_new_object_def j_add_created_def j_add_def j_add_string_def or_default_def arr nth_append Let_def)
    have "jl_items (wjson wl) targets' = ?items @ [?t]" using arr put_items by (simp add: r(2) put_item_def)
    moreover have "item_key wl sharp_target ?t = Some nm" "jl_type (wjson wl) ?t = jtype_object"
      by (simp_all add: item_key_def get_add type_add new_object new_string)
    moreover have "jl_type (wjson wl) targets' = jtype_array" using arr put_items by (simp add: r(2) put_item_def)
    ultimately show ?thesis using find_target(2) [OF None] r(1,3) by (simp add: target_names_def nth_append)
  qed
qed

text \<open>The parameters, the name of the target apart, leave that name.\<close>

lemma apply_params_same:
  assumes "\<And>obj p m. p \<in> set ps \<Longrightarrow> pm_name p \<noteq> sharp_target \<Longrightarrow> same_at wl sharp_target obj (fst (snd (a obj p m)))"
  shows "same_at wl sharp_target obj (fst (snd (apply_params obj ps (skip_target a) m)))"
  using assms
proof (induction ps arbitrary: obj m)
  case (Cons p ps)
  obtain rc obj1 m1 where r: "(case find_action (skip_target a) (pm_name p) of None \<Rightarrow> (0, obj, m) | Some a \<Rightarrow> a obj p m) = (rc, obj1, m1)"
    by (metis prod_cases3)
  have "same_at wl sharp_target obj obj1"
    using r Cons.prems [of p obj m] by (auto simp: find_action_def skip_target_def split: if_splits)
  then have "same_at wl sharp_target obj (fst (snd (apply_params obj1 ps (skip_target a) m1)))"
    using Cons.IH Cons.prems by (auto intro: same_at_trans)
  then show ?case by (simp add: r Let_def split: prod.splits) (auto split: prod.splits)
qed simp

lemma param_array_same: "nm \<noteq> k \<Longrightarrow> same_at wl k obj (fst (snd (add_param_array wl (Some nm) obj p m)))"
proof -
  assume nm: "nm \<noteq> k"
  obtain ok obj1 m1 where a: "(if jl_get (wjson wl) obj nm \<noteq> None then (True, obj, m) else j_add_new_array (wj_values wl) m obj (Some nm)) = (ok, obj1, m1)"
    by (metis prod_cases3)
  have 1: "same_at wl k obj obj1"
    using a same_at_created [OF nm, of obj m "al_new_array (vl_array (wj_values wl))"] by (auto simp: j_add_new_array_def split: if_splits)
  then show ?thesis
    using same_at_trans [OF 1 same_at_add [OF nm]] unfolding add_param_array_def Let_def option.case a by (auto split: prod.splits)
qed

lemma param_simple_same: "hd (key_names (pm_name p)) \<noteq> k \<Longrightarrow> same_at wl k obj (fst (snd (add_param_simple wl obj p m)))"
  using same_at_string_m [of "pm_name p" k obj m "Some (pm_value p)"] by (auto simp: add_param_simple_def split: prod.splits)

lemma targeted_names:
  assumes "add_targeted_params wl m targets feat (skip_target a) = Some (rc, targets', m')" "jl_type (wjson wl) targets = jtype_array"
    and "\<And>obj p m. p \<in> set (ft_params feat) \<Longrightarrow> pm_name p \<noteq> sharp_target \<Longrightarrow> same_at wl sharp_target obj (fst (snd (a obj p m)))"
  shows "jl_type (wjson wl) targets' = jtype_array \<and> target_names wl targets' = target_names wl targets"
proof -
  obtain rc1 t1 i m1 where g: "get_target wl m targets (get_target_name feat (Some ''main'')) False = Some (rc1, t1, i, m1)"
    using assms(1) by (auto simp: add_targeted_params_def split: option.splits)
  note e = get_target_existing [OF g]
  show ?thesis
  proof (cases "rc1 < 0")
    case True
    with assms(1,2) g e show ?thesis by (auto simp: add_targeted_params_def)
  next
    case False
    let ?x = "jl_items (wjson wl) targets ! i"
    let ?y = "fst (snd (apply_params ?x (ft_params feat) (skip_target a) m))"
    have i: "i < length (jl_items (wjson wl) targets)" "jl_type (wjson wl) ?x = jtype_object" using False e by auto
    have "item_key wl sharp_target ?y = item_key wl sharp_target ?x"
      using item_key_same [OF apply_params_same [OF assms(3)] i(2)] .
    from put_item_names [OF assms(2) i(1) this] False assms(1) g e show ?thesis
      by (auto simp: add_targeted_params_def split: prod.splits)
  qed
qed

text \<open>The declarations and the definitions of features.\<close>

lemma create_target_names:
  assumes "create_target wl m targets feat = Some (rc, targets', m')" "rc = 0" "jl_type (wjson wl) targets = jtype_array"
  shows "\<exists>u. get_target_name feat None = Some u \<and> jl_type (wjson wl) targets' = jtype_array \<and> Some u \<notin> set (target_names wl targets) \<and>
    target_names wl targets' = target_names wl targets @ [Some u]"
proof -
  obtain u where u: "get_target_name feat None = Some u" using assms(1,2) by (auto simp: create_target_def split: option.splits)
  then obtain i where "get_target wl m targets (Some u) True = Some (rc, targets', i, m')"
    using assms(1) by (auto simp: create_target_def)
  from get_target_new [OF this assms(3)] assms(2) u show ?thesis by simp
qed

lemma declare_pass_names:
  assumes "pass (declare_feature wl) fs (rc, pt) = Some (0, pt')" "jl_type (wjson wl) (pt_targets pt) = jtype_array"
    and "target_names wl (pt_targets pt) = map Some ns" "distinct ns"
  defines "us \<equiv> map (\<lambda>f. the (get_target_name f None)) (filter provides_unit fs)"
  shows "rc = 0 \<and> jl_type (wjson wl) (pt_targets pt') = jtype_array \<and> target_names wl (pt_targets pt') = map Some (ns @ us) \<and> distinct (ns @ us) \<and>
    pt_required_perms pt' = pt_required_perms pt"
  using assms(1-4) unfolding us_def
proof (induction fs arbitrary: rc pt ns)
  case (Cons f fs)
  obtain rc1 pt1 where d: "declare_feature wl f (rc, pt) = Some (rc1, pt1)" "pass (declare_feature wl) fs (rc1, pt1) = Some (0, pt')"
    using Cons.prems(1) by (auto simp: bind_eq_Some_conv)
  show ?case
  proof (cases "provides_unit f")
    case False
    then have "pt1 = pt" "rc1 = 0 \<longrightarrow> rc = 0"
      using d(1) by (auto simp: declare_feature_def provides_unit_def Let_def split: option.splits if_splits)
    with Cons.IH [OF d(2)] Cons.prems(2-4) False show ?thesis by simp
  next
    case True
    then obtain rc2 ts m' where c: "create_target wl (pt_mem pt) (pt_targets pt) f = Some (rc2, ts, m')" "pt1 = pt\<lparr>pt_targets := ts, pt_mem := m'\<rparr>"
        "rc1 = 0 \<longrightarrow> rc = 0 \<and> rc2 \<ge> 0"
      using d(1) by (auto simp: declare_feature_def provides_unit_def Let_def split: if_splits)
    have sticky: "rc1 = 0" using d(2) by (rule declare_sticky)
    have "rc2 = 0" using c(1,3) sticky by (auto simp: create_target_def dest: get_target_new [OF _ Cons.prems(2)] split: option.splits)
    from create_target_names [OF c(1) this Cons.prems(2)] obtain u where u: "get_target_name f None = Some u"
      "jl_type (wjson wl) ts = jtype_array" "u \<notin> set ns" "target_names wl ts = map Some (ns @ [u])"
      using Cons.prems(3) by auto
    from Cons.IH [OF d(2), of "ns @ [u]"] u Cons.prems(4) c sticky True show ?thesis by simp
  qed
qed simp

lemma define_names:
  assumes "define_feature wl feat featname pt = Some (rc, pt')" "jl_type (wjson wl) (pt_targets pt) = jtype_array"
    and "featname = ''provided-unit'' \<longrightarrow> keeps_target feat"
  shows "jl_type (wjson wl) (pt_targets pt') = jtype_array \<and> target_names wl (pt_targets pt') = target_names wl (pt_targets pt)"
proof -
  have arr: "same_at wl sharp_target obj (fst (snd (add_param_array wl (Some nm) obj p m)))"
    if "nm = ''provided-api'' \<or> nm = ''required-api'' \<or> nm = ''required-binding''" for nm obj p m
    by (rule param_array_same) (use that in \<open>auto simp: sharp_target_def\<close>)
  have simple: "same_at wl sharp_target obj (fst (snd (add_param_simple wl obj p m)))"
    if "p \<in> set (ft_params feat)" "pm_name p \<noteq> sharp_target" "keeps_target feat" for obj p m
    by (rule param_simple_same) (use that in \<open>auto simp: keeps_target_def list_all_iff\<close>)
  have t: "jl_type (wjson wl) ts = jtype_array \<and> target_names wl ts = target_names wl (pt_targets pt)"
    if "add_targeted_params wl (pt_mem pt) (pt_targets pt) feat (skip_target a) = Some (rc, ts, m)"
      "a = add_param_simple wl \<and> featname = ''provided-unit'' \<or> a = add_param_array wl (Some ''provided-api'') \<or>
       a = add_param_array wl (Some ''required-api'') \<or> a = add_param_array wl (Some ''required-binding'')" for a rc ts m
    by (rule targeted_names [OF that(1) assms(2)]) (use that(2) arr simple assms(3) in auto)
  show ?thesis
    using assms(1,2) t
    by (auto simp: define_feature_def on_targets_def on_files_def add_provided_unit_def add_provided_api_def add_required_api_def
        add_required_binding_def Let_def split: if_splits prod.splits option.splits)
qed

lemma object_of_param_is: "object_of_param wl m name val = (True, x, m') \<Longrightarrow> is_param wl name val x"
  by (auto simp: object_of_param_def and_then_def j_add_string_def j_add_created_def j_add_def or_default_def is_param_def Let_def
      get_add type_add new_object split: prod.splits if_splits)

lemma add_permission_holds:
  assumes "add_param_object wl None obj p m = (rc, obj', m')" "rc \<ge> 0" "holds_params wl ps obj" "jl_type (wjson wl) obj = jtype_object"
  shows "holds_params wl (ps @ [p]) obj' \<and> jl_type (wjson wl) obj' = jtype_object \<and> jl_fields (wjson wl) obj' \<noteq> []"
proof -
  obtain x where x: "object_of_param wl m (pm_name p) (pm_value p) = (True, x, m')" "obj' = jl_add (wjson wl) obj (pm_name p) x"
    using assms(1,2) by (auto simp: add_param_object_def j_add_def split: prod.splits if_splits)
  have "jl_fields (wjson wl) obj' \<noteq> []" using fields_add [OF assms(4), of "pm_name p" x] x(2) by auto
  moreover have "holds_params wl (ps @ [p]) obj'"
    using assms(3) object_of_param_is [OF x(1)] by (simp add: holds_params_def x(2) get_add [OF assms(4)] cong: option.case_cong)
  ultimately show ?thesis using type_add [OF assms(4)] x(2) by simp
qed

lemma apply_permissions_hold:
  assumes "apply_params obj qs (skip_target (add_param_object wl None)) m = (rc, obj', m')" "rc \<ge> 0"
    and "holds_params wl ps obj" "jl_type (wjson wl) obj = jtype_object" "jl_fields (wjson wl) obj = [] \<longleftrightarrow> ps = []"
  defines "ps' \<equiv> ps @ filter (\<lambda>p. pm_name p \<noteq> sharp_target) qs"
  shows "holds_params wl ps' obj' \<and> jl_type (wjson wl) obj' = jtype_object \<and> (jl_fields (wjson wl) obj' = [] \<longleftrightarrow> ps' = [])"
  using assms(1-5) unfolding ps'_def
proof (induction qs arbitrary: obj m ps rc)
  case (Cons q qs)
  obtain rc1 obj1 m1 where r: "(case find_action (skip_target (add_param_object wl None)) (pm_name q) of None \<Rightarrow> (0, obj, m) | Some a \<Rightarrow> a obj q m) = (rc1, obj1, m1)"
    by (metis prod_cases3)
  obtain rc2 where a: "apply_params obj1 qs (skip_target (add_param_object wl None)) m1 = (rc2, obj', m')"
    using Cons.prems(1) by (auto simp: r split: prod.splits)
  have rc: "rc1 \<ge> 0" "rc2 \<ge> 0" using Cons.prems(1,2) by (auto simp: r a split: if_splits)
  show ?case
  proof (cases "pm_name q = sharp_target")
    case True
    then have "obj1 = obj" using r by (auto simp: find_action_def skip_target_def)
    with Cons.IH [OF a rc(2)] Cons.prems(3-5) True show ?thesis by simp
  next
    case False
    then have "add_param_object wl None obj q m = (rc1, obj1, m1)" using r by (auto simp: find_action_def skip_target_def)
    from add_permission_holds [OF this rc(1) Cons.prems(3,4)] Cons.IH [OF a rc(2), of "ps @ [q]"] False
    show ?thesis by simp
  qed
qed simp

lemma define_pass:
  assumes "pass (define_widget_feature wl) fs (rc, pt) = Some (0, pt')" "jl_type (wjson wl) (pt_targets pt) = jtype_array"
    and "list_all keeps_target (filter provides_unit fs)"
    and "holds_params wl ps (pt_required_perms pt)" "jl_type (wjson wl) (pt_required_perms pt) = jtype_object"
      "jl_fields (wjson wl) (pt_required_perms pt) = [] \<longleftrightarrow> ps = []"
  shows "target_names wl (pt_targets pt') = target_names wl (pt_targets pt) \<and> holds_params wl (ps @ permission_params fs) (pt_required_perms pt') \<and>
    (jl_fields (wjson wl) (pt_required_perms pt') = [] \<longleftrightarrow> ps @ permission_params fs = [])"
  using assms
proof (induction fs arbitrary: rc pt ps)
  case Nil
  then show ?case by (simp add: permission_params_def)
next
  case (Cons f fs)
  obtain rc1 pt1 where d: "define_widget_feature wl f (rc, pt) = Some (rc1, pt1)" "pass (define_widget_feature wl) fs (rc1, pt1) = Some (0, pt')"
    using Cons.prems(1) by (auto simp: bind_eq_Some_conv)
  have rc1: "rc1 = 0" using d(2) by (rule define_sticky)
  have keep: "list_all keeps_target (filter provides_unit fs)" using Cons.prems(3) by (auto split: if_splits)
  show ?case
  proof (cases "widget_feature f")
    case None
    then have "pt1 = pt" using d(1) by (simp add: define_widget_feature_def)
    with Cons.IH [OF d(2)] Cons.prems(2-6) keep None show ?thesis by (simp add: permission_params_def)
  next
    case (Some featname)
    then obtain rc2 where f: "define_feature wl f featname pt = Some (rc2, pt1)" "rc2 \<ge> 0"
      using d(1) rc1 by (auto simp: define_widget_feature_def split: if_splits)
    have "featname = ''provided-unit'' \<longrightarrow> keeps_target f" using Cons.prems(3) Some by (auto simp: provides_unit_def)
    note n = define_names [OF f(1) Cons.prems(2) this]
    show ?thesis
    proof (cases "featname = ''required-permission''")
      case True
      obtain x m' where x: "add_required_permission wl (pt_mem pt) (pt_required_perms pt) f = (rc2, x, m')" "pt1 = pt\<lparr>pt_required_perms := x, pt_mem := m'\<rparr>"
        using f(1) True by (auto simp: define_feature_def split: prod.splits)
      let ?ps = "ps @ filter (\<lambda>p. pm_name p \<noteq> sharp_target) (ft_params f)"
      have "holds_params wl ?ps (pt_required_perms pt1)" "jl_type (wjson wl) (pt_required_perms pt1) = jtype_object"
        "jl_fields (wjson wl) (pt_required_perms pt1) = [] \<longleftrightarrow> ?ps = []"
        using apply_permissions_hold [OF x(1) [unfolded add_required_permission_def] f(2) Cons.prems(4-6)] x(2) by simp_all
      from Cons.IH [OF d(2) _ keep this] n True Some show ?thesis by (simp add: permission_params_def)
    next
      case False
      then have "pt_required_perms pt1 = pt_required_perms pt"
        using f(1) by (auto simp: define_feature_def on_targets_def on_files_def Let_def split: if_splits prod.splits option.splits)
      with Cons.IH [OF d(2)] n keep Cons.prems(4-6) False Some show ?thesis by (simp add: permission_params_def)
    qed
  qed
qed

lemma new_application_object: "new_application wl m = (ok, result, m') \<Longrightarrow> jl_type (wjson wl) result = jtype_object"
proof -
  assume n: "new_application wl m = (ok, result, m')"
  have "same_at wl [] (jl_new_object (wjson wl)) (fst (snd (new_application wl m)))"
    unfolding new_application_def Let_def
    by (simp split: prod.splits) (intro allI impI same_at_then; simp add: j_add_new_array_def j_add_new_object_def same_at_created)
  with n new_object show ?thesis by (simp add: same_at_def)
qed

lemma assemble_fields:
  assumes "jl_type (wjson wl) result = jtype_object"
  shows "jl_type (wjson wl) (assemble wl pt result) = jtype_object" "jl_get (wjson wl) (assemble wl pt result) ''targets'' = Some (pt_targets pt)"
    "jl_get (wjson wl) (assemble wl pt result) ''required-permission'' =
       (if jl_fields (wjson wl) (pt_required_perms pt) = [] then None else Some (pt_required_perms pt))"
proof -
  have p: "jl_type (wjson wl) j = jtype_object \<Longrightarrow> jl_type (wjson wl) (put_or_del wl e k x j) = jtype_object \<and>
      jl_get (wjson wl) (put_or_del wl e k x j) k' = (if k' = k then (if e then None else Some x) else jl_get (wjson wl) j k')" for j e k x k'
    by (simp add: put_or_del_def get_add type_add del_get del_type)
  show "jl_type (wjson wl) (assemble wl pt result) = jtype_object" "jl_get (wjson wl) (assemble wl pt result) ''targets'' = Some (pt_targets pt)"
    "jl_get (wjson wl) (assemble wl pt result) ''required-permission'' =
       (if jl_fields (wjson wl) (pt_required_perms pt) = [] then None else Some (pt_required_perms pt))"
    using assms by (simp_all add: assemble_def Let_def p get_add type_add)
qed

lemma main_target_names:
  assumes "create_main_target wl m targets desc = Some (0, targets', m')" "jl_type (wjson wl) targets = jtype_array" "jl_items (wjson wl) targets = []"
  shows "jl_type (wjson wl) targets' = jtype_array \<and> target_names wl targets' = [Some ''main'']"
proof -
  obtain rc t1 i m1 where g: "get_target wl m targets (Some ''main'') True = Some (rc, t1, i, m1)"
    using assms(1) by (auto simp: create_main_target_def split: option.splits)
  note n = get_target_new [OF g assms(2)]
  have "rc = 0" using n assms(1) g by (auto simp: create_main_target_def split: if_splits)
  with n assms(3) have t1: "jl_type (wjson wl) t1 = jtype_array" "target_names wl t1 = [Some ''main'']" "i < length (jl_items (wjson wl) t1)"
    "jl_type (wjson wl) (jl_items (wjson wl) t1 ! i) = jtype_object" by (simp_all add: target_names_def)
  have "item_key wl sharp_target (fst (snd (fill_main_target wl m1 (jl_items (wjson wl) t1 ! i) desc))) = item_key wl sharp_target (jl_items (wjson wl) t1 ! i)"
    using item_key_same [OF same_at_main t1(4)] .
  from put_item_names [OF t1(1,3) this] t1(2) assms(1) g \<open>rc = 0\<close> show ?thesis
    by (auto simp: create_main_target_def split: prod.splits)
qed

lemma to_json_parts:
  assumes "to_json wl m desc = Some (Some j, m')"
  obtains pt0 pt result m2 where "create_main_target wl m2 (pt_targets (new_parts wl m2)) desc = Some (0, pt_targets pt0, pt_mem pt0)"
    "pt0 = (new_parts wl (pt_mem pt0))\<lparr>pt_targets := pt_targets pt0\<rparr>" "jl_type (wjson wl) result = jtype_object"
    "Option.bind (pass (declare_feature wl) (wd_features desc) (0, pt0)) (pass (define_widget_feature wl) (wd_features desc)) = Some (0, pt)"
    "j = fst (snd (j_add_many_strings_m (wj_values wl) (pt_mem pt) (assemble wl pt result) (main_fields desc)))"
proof -
  obtain result m2 where n: "new_application wl m = (True, result, m2)" using assms by (auto simp: to_json_def split: prod.splits if_splits)
  obtain rc ts m3 where c: "create_main_target wl m2 (pt_targets (new_parts wl m2)) desc = Some (rc, ts, m3)"
    using assms n by (auto simp: to_json_def split: option.splits)
  let ?pt0 = "(new_parts wl m3)\<lparr>pt_targets := ts\<rparr>"
  obtain pt where p: "Option.bind (pass (declare_feature wl) (wd_features desc) (rc, ?pt0)) (pass (define_widget_feature wl) (wd_features desc)) = Some (0, pt)"
    "j = fst (snd (j_add_many_strings_m (wj_values wl) (pt_mem pt) (assemble wl pt result) (main_fields desc)))"
    using assms n c by (auto simp: to_json_def split: option.splits prod.splits if_splits)
  obtain rc1 pt1 where d: "pass (declare_feature wl) (wd_features desc) (rc, ?pt0) = Some (rc1, pt1)"
    "pass (define_widget_feature wl) (wd_features desc) (rc1, pt1) = Some (0, pt)" using p(1) by (auto simp: bind_eq_Some_conv)
  have "rc = 0" using declare_sticky d(1) define_sticky [OF d(2)] by blast
  with that [of m2 ?pt0 result pt] c p new_application_object [OF n] show thesis by (simp add: new_parts_def Let_def)
qed

lemma to_json_translates:
  assumes "to_json wl m desc = Some (Some j, m')" "list_all keeps_target (filter provides_unit (wd_features desc))"
  defines "us \<equiv> ''main'' # map (\<lambda>f. the (get_target_name f None)) (filter provides_unit (wd_features desc))"
  shows "(\<exists>targets. jl_get (wjson wl) j ''targets'' = Some targets \<and> target_names wl targets = map Some us \<and> distinct us) \<and>
    (if permission_params (wd_features desc) = [] then jl_get (wjson wl) j ''required-permission'' = None
     else \<exists>perms. jl_get (wjson wl) j ''required-permission'' = Some perms \<and> holds_params wl (permission_params (wd_features desc)) perms)"
proof -
  from assms(1) obtain pt0 pt result m2 where
    p: "create_main_target wl m2 (pt_targets (new_parts wl m2)) desc = Some (0, pt_targets pt0, pt_mem pt0)"
      "pt0 = (new_parts wl (pt_mem pt0))\<lparr>pt_targets := pt_targets pt0\<rparr>" "jl_type (wjson wl) result = jtype_object"
      "Option.bind (pass (declare_feature wl) (wd_features desc) (0, pt0)) (pass (define_widget_feature wl) (wd_features desc)) = Some (0, pt)"
      "j = fst (snd (j_add_many_strings_m (wj_values wl) (pt_mem pt) (assemble wl pt result) (main_fields desc)))"
    by (rule to_json_parts)
  have arr: "jl_type (wjson wl) (pt_targets (new_parts wl m2)) = jtype_array" "jl_items (wjson wl) (pt_targets (new_parts wl m2)) = []"
    by (simp_all add: new_parts_def new_array Let_def)
  note main = main_target_names [OF p(1) arr]
  obtain rc1 pt1 where d: "pass (declare_feature wl) (wd_features desc) (0, pt0) = Some (rc1, pt1)"
    "pass (define_widget_feature wl) (wd_features desc) (rc1, pt1) = Some (0, pt)" using p(4) by (auto simp: bind_eq_Some_conv)
  have rc1: "rc1 = 0" using define_sticky [OF d(2)] .
  have req: "pt_required_perms pt0 = jl_new_object (wjson wl)" by (subst p(2)) (simp add: new_parts_def Let_def)
  from declare_pass_names [OF d(1) [unfolded rc1], of "[''main'']"] main
  have decl: "jl_type (wjson wl) (pt_targets pt1) = jtype_array" "target_names wl (pt_targets pt1) = map Some us" "distinct us"
    "pt_required_perms pt1 = jl_new_object (wjson wl)" by (simp_all add: us_def req)
  have "holds_params wl [] (pt_required_perms pt1)" by (simp add: holds_params_def decl(4) new_object)
  note def = define_pass [OF d(2) decl(1) assms(2) this, unfolded decl(4), OF new_object(1), simplified fields_new append_Nil simp_thms]
  have "list_all (\<lambda>(key, v). hd (key_names key) \<noteq> k) (main_fields desc)" if "k = ''targets'' \<or> k = ''required-permission''" for k
    using that by (auto simp: main_fields_def key_names_def)
  note same = same_at_many [OF this, of _ "assemble wl pt result" "pt_mem pt"]
  note a = assemble_fields [OF p(3), of pt]
  have "jl_get (wjson wl) j k = jl_get (wjson wl) (assemble wl pt result) k" if "k = ''targets'' \<or> k = ''required-permission''" for k
    using same [OF that] a(1) by (simp add: same_at_def p(5))
  then show ?thesis using a def decl by auto
qed

end

section \<open>JSON values as data\<close>

definition json_wgt_data :: "json wgt_lib" where
  "json_wgt_data = \<lparr>wj_values = json_value_data,
     wj_del = (\<lambda>j k. case j of JObj fs \<Rightarrow> JObj (filter (\<lambda>(k', v). k' \<noteq> k) fs) | _ \<Rightarrow> j)\<rparr>"

lemma map_of_filter_key: "map_of (filter (\<lambda>(k', v). k' \<noteq> k) fs) = (map_of fs)(k := None)"
  by (induction fs) (auto simp: fun_eq_iff)

interpretation wgt_data: wgt_laws json_wgt_data
proof (intro wgt_laws.intro wgt_laws_axioms.intro)
  show "value_laws (wj_values json_wgt_data)" by (simp add: json_wgt_data_def value_data.value_laws_axioms)
next
  fix j k k'
  assume "jl_type (wjson json_wgt_data) j = jtype_object"
  then show "jl_get (wjson json_wgt_data) (wj_del json_wgt_data j k) k' = (if k' = k then None else jl_get (wjson json_wgt_data) j k')"
    "jl_type (wjson json_wgt_data) (wj_del json_wgt_data j k) = jtype_object"
    by (cases j; simp add: json_wgt_data_def json_value_data_def json_data_def map_of_filter_key)+
qed

section \<open>The translation\<close>

text \<open>C30: When the description of a widget is translated, its targets are the main one followed by one for each feature
  that provides a unit, in their order, with the names that these features give, all distinct;
  and the required permissions of the result are exactly the parameters of the features that require permissions, under their names, each with the
  value that comes last; without such a parameter the field is removed. The keys of the parameters of units are supposed not to enter the
  field of the name.\<close>

theorem to_json_targets_and_permissions:
  assumes "wgt_laws wl" "to_json wl m desc = Some (Some j, m')" "list_all keeps_target (filter provides_unit (wd_features desc))"
  shows "(\<exists>targets us. jl_get (wjson wl) j ''targets'' = Some targets \<and> target_names wl targets = map Some us \<and> distinct us \<and>
      us = ''main'' # map (\<lambda>f. the (get_target_name f None)) (filter provides_unit (wd_features desc))) \<and>
    (if permission_params (wd_features desc) = [] then jl_get (wjson wl) j ''required-permission'' = None
     else \<exists>perms. jl_get (wjson wl) j ''required-permission'' = Some perms \<and> holds_params wl (permission_params (wd_features desc)) perms)"
  using wgt_laws.to_json_translates [OF assms] by blast

text \<open>A document as data.\<close>

datatype xml = Elem string "(string \<times> string) list" "xml list" | Text string

fun xml_content :: "xml \<Rightarrow> string" where
  "xml_content (Text t) = t"
| "xml_content (Elem n ps xs) = concat (map xml_content xs)"

definition demo_config_root :: xml where
  "demo_config_root = Elem ''widget'' [(''id'', ''App-1''), (''version'', ''1.2.3'')]
     [Elem ''name'' [] [Text ''app''],
      Elem ''feature'' [(''name'', ''urn:AGL:widget:provided-unit'')]
        [Elem ''param'' [(''name'', ''#target''), (''value'', ''svc'')] [], Elem ''param'' [(''name'', ''scope''), (''value'', ''user'')] []],
      Elem ''feature'' [(''name'', ''urn:AGL:widget:required-permission'')]
        [Elem ''param'' [(''name'', ''urn:p''), (''value'', ''required'')] []]]"

definition demo_xl :: "xml libxml" where
  "demo_xl =
     \<lparr>xl_element = (\<lambda>x. case x of Elem _ _ _ \<Rightarrow> True | _ \<Rightarrow> False), xl_name = (\<lambda>x. case x of Elem n _ _ \<Rightarrow> n | _ \<Rightarrow> ''text''),
      xl_children = (\<lambda>x. case x of Elem _ _ xs \<Rightarrow> xs | _ \<Rightarrow> []), xl_prop = (\<lambda>x k. case x of Elem _ ps _ \<Rightarrow> map_of ps k | _ \<Rightarrow> None),
      xl_content = (\<lambda>x. Some (xml_content x)), xl_lang = (\<lambda>x. None), xl_read = (\<lambda>fd. Some demo_config_root)\<rparr>"

definition demo_desc :: wgt_desc where
  "demo_desc = (case fill_desc demo_xl True [] \<lparr>cf_wgt = None, cf_root = demo_config_root\<rparr> True True True of
     Some (Inr d, m) \<Rightarrow> d | _ \<Rightarrow> undefined)"

theorem to_json_targets_and_permissions_witness:
  "\<exists>j targets perms x. to_json json_wgt_data [] demo_desc = Some (Some j, []) \<and>
     jl_get json_data j ''targets'' = Some targets \<and> target_names json_wgt_data targets = [Some ''main'', Some ''svc''] \<and>
     jl_get json_data j ''required-permission'' = Some perms \<and> jl_get json_data perms ''urn:p'' = Some x \<and>
     is_param json_wgt_data ''urn:p'' ''required'' x"
proof -
  have run: "\<exists>j. to_json json_wgt_data [] demo_desc = Some (Some j, [])"
  proof -
    have "(case to_json json_wgt_data [] demo_desc of Some (Some j, []) \<Rightarrow> True | _ \<Rightarrow> False)" by code_simp
    then show ?thesis by (cases "to_json json_wgt_data [] demo_desc"; cases "snd (the (to_json json_wgt_data [] demo_desc))")
       (auto split: option.splits)
  qed
  then obtain j where j: "to_json json_wgt_data [] demo_desc = Some (Some j, [])" by blast
  have keep: "list_all keeps_target (filter provides_unit (wd_features demo_desc))" by code_simp
  have us: "map (\<lambda>f. the (get_target_name f None)) (filter provides_unit (wd_features demo_desc)) = [''svc'']" by code_simp
  have ps: "permission_params (wd_features demo_desc) = [\<lparr>pm_name = ''urn:p'', pm_value = ''required''\<rparr>]" by code_simp
  have lib: "wjson json_wgt_data = json_data" by (simp add: json_wgt_data_def json_value_data_def)
  from to_json_targets_and_permissions [OF wgt_data.wgt_laws_axioms j keep] obtain targets perms where
    t: "jl_get json_data j ''targets'' = Some targets" "target_names json_wgt_data targets = [Some ''main'', Some ''svc'']"
      "jl_get json_data j ''required-permission'' = Some perms"
    and p: "holds_params json_wgt_data [\<lparr>pm_name = ''urn:p'', pm_value = ''required''\<rparr>] perms"
    unfolding us ps lib by auto
  from p [unfolded holds_params_def, rule_format, of "''urn:p''"] obtain x where
    "jl_get json_data perms ''urn:p'' = Some x" "is_param json_wgt_data ''urn:p'' ''required'' x" by (auto simp: lib)
  with j t show ?thesis by blast
qed

text \<open>A repeated name of target in a feature makes the code compare a null pointer.\<close>

lemma repeated_target_undefined:
  assumes "get_target_name feat (Some ''main'') = None" "item_key wl sharp_target t \<noteq> None" "t \<in> set (jl_items (wjson wl) targets)"
  shows "add_targeted_params wl m targets feat actions = None"
proof -
  have "list_ex (\<lambda>t. item_key wl sharp_target t \<noteq> None) (jl_items (wjson wl) targets)" using assms(2,3) by (auto simp: list_ex_iff)
  then show ?thesis by (simp add: add_targeted_params_def get_target_def assms(1))
qed

text \<open>The failure of memory for a parameter of a unit is not reported.\<close>

lemma unit_param_failure_ignored: "add_provided_unit json_wgt_data [False] (JArr [JObj [(''#target'', JStr ''main'')]])
    \<lparr>ft_name = [], ft_required = True, ft_params = [\<lparr>pm_name = ''a'', pm_value = ''b''\<rparr>]\<rparr> = Some (0, JArr [JObj [(''#target'', JStr ''main'')]], [])"
  by code_simp

end
