(* ===== verification/Permset.thy ===== *)
theory Permset
  imports AFM_Prelude
begin

text \<open>
  Permission sets (\<^verbatim>\<open>src/src/utils/permset.c\<close>): an array of named permissions, each with its
  flags granted and requested, and a cursor used for enumerating it.
\<close>

unbundle bit_operations_syntax

section \<open>Data\<close>

text \<open>
  The field \<open>length\<close> of the C structure is the length of the name, so it is not kept
  apart. \<open>ps_perms\<close> holds the first \<open>count\<close> items of the array.
\<close>

record permission =
  p_name :: string
  p_granted :: bool
  p_requested :: bool

record permset =
  ps_perms :: "permission list"
  ps_index :: nat

datatype permset_select =
    permset_Select_Any
  | permset_Select_Requested
  | permset_Select_Granted
  | permset_Select_Requested_And_Granted

datatype permset_reset_kind =
    permset_Reset_Nothing
  | permset_Reset_Requested
  | permset_Reset_Granted
  | permset_Reset_Requested_And_Granted

abbreviation ps_count :: "permset \<Rightarrow> nat" where
  "ps_count ps \<equiv> length (ps_perms ps)"

section \<open>Operations\<close>

text \<open>\<open>get\<close>: the index of the first item of that name.\<close>

fun perm_index :: "permission list \<Rightarrow> string \<Rightarrow> nat option" where
  "perm_index [] nm = None"
| "perm_index (p # ps) nm =
     (if p_name p = nm then Some 0 else map_option Suc (perm_index ps nm))"

definition perm_get :: "permset \<Rightarrow> string \<Rightarrow> nat option" where
  "perm_get ps nm = perm_index (ps_perms ps) nm"

definition perm_mark :: "bool \<Rightarrow> bool \<Rightarrow> permission \<Rightarrow> permission" where
  "perm_mark grant request p =
     p\<lparr>p_granted := p_granted p \<or> grant, p_requested := p_requested p \<or> request\<rparr>"

definition perm_status :: "permission \<Rightarrow> int" where
  "perm_status p = (if p_requested p \<and> p_granted p then 1 else 0)"

text \<open>
  \<open>add\<close>: the array is reallocated by blocks of eight items, then the name is copied; each
  of the two allocations may fail before the set is changed.
\<close>

definition perm_add ::
  "permset \<Rightarrow> mem \<Rightarrow> string \<Rightarrow> bool \<Rightarrow> bool \<Rightarrow> int \<times> permset \<times> mem" where
  "perm_add ps m nm grant request =
     (case perm_get ps nm of
        Some i \<Rightarrow>
          let p = perm_mark grant request (ps_perms ps ! i)
          in (perm_status p, ps\<lparr>ps_perms := (ps_perms ps)[i := p]\<rparr>, m)
      | None \<Rightarrow>
          let (ok1, m1) = (if ps_count ps mod 8 = 0 then c_alloc m else (True, m)) in
          if \<not> ok1 then (- ENOMEM, ps, m1) else
          let (ok2, m2) = c_alloc m1 in
          if \<not> ok2 then (- ENOMEM, ps, m2) else
          let p = perm_mark grant request \<lparr>p_name = nm, p_granted = False, p_requested = False\<rparr>
          in (perm_status p, ps\<lparr>ps_perms := ps_perms ps @ [p]\<rparr>, m2))"

abbreviation perm_separators :: string where
  "perm_separators \<equiv> [CHR '' '', CHR 0x09, CHR 0x0A, CHR 0x0D, CHR '','']"

function perm_add_list_loop ::
  "permset \<Rightarrow> mem \<Rightarrow> string \<Rightarrow> bool \<Rightarrow> bool \<Rightarrow> int \<Rightarrow> int \<times> permset \<times> mem" where
  "perm_add_list_loop ps m iter grant request allowed =
     (if iter = [] then (allowed, ps, m)
      else let (rc, ps', m') = perm_add ps m (c_word perm_separators iter) grant request in
        if rc < 0 then (rc, ps', m')
        else perm_add_list_loop ps' m'
               (c_skip perm_separators (c_after perm_separators iter)) grant request
               (allowed AND rc))"
  by pat_completeness auto
termination
  by (relation "measure (\<lambda>(ps, m, iter, g, r, a). length iter)")
     (simp_all add: c_skip_after_shorter)

definition perm_add_list ::
  "permset \<Rightarrow> mem \<Rightarrow> string \<Rightarrow> bool \<Rightarrow> bool \<Rightarrow> int \<times> permset \<times> mem" where
  "perm_add_list ps m ls grant request =
     perm_add_list_loop ps m (c_skip perm_separators ls) grant request 1"

definition permset_grant :: "permset \<Rightarrow> mem \<Rightarrow> string \<Rightarrow> int \<times> permset \<times> mem" where
  "permset_grant ps m nm = perm_add ps m nm True False"

definition permset_grant_list :: "permset \<Rightarrow> mem \<Rightarrow> string \<Rightarrow> int \<times> permset \<times> mem" where
  "permset_grant_list ps m ls = perm_add_list ps m ls True False"

definition permset_add :: "permset \<Rightarrow> mem \<Rightarrow> string \<Rightarrow> int \<times> permset \<times> mem" where
  "permset_add ps m nm = perm_add ps m nm False False"

definition permset_add_list :: "permset \<Rightarrow> mem \<Rightarrow> string \<Rightarrow> int \<times> permset \<times> mem" where
  "permset_add_list ps m ls = perm_add_list ps m ls False False"

definition permset_request :: "permset \<Rightarrow> mem \<Rightarrow> string \<Rightarrow> int \<times> permset \<times> mem" where
  "permset_request ps m nm = perm_add ps m nm False True"

definition permset_request_list :: "permset \<Rightarrow> mem \<Rightarrow> string \<Rightarrow> int \<times> permset \<times> mem" where
  "permset_request_list ps m ls = perm_add_list ps m ls False True"

fun perm_reset_item :: "permset_reset_kind \<Rightarrow> permission \<Rightarrow> permission" where
  "perm_reset_item permset_Reset_Nothing p = p"
| "perm_reset_item permset_Reset_Requested p = p\<lparr>p_requested := False\<rparr>"
| "perm_reset_item permset_Reset_Granted p = p\<lparr>p_granted := False\<rparr>"
| "perm_reset_item permset_Reset_Requested_And_Granted p =
     p\<lparr>p_granted := False, p_requested := False\<rparr>"

definition permset_reset :: "permset \<Rightarrow> permset_reset_kind \<Rightarrow> permset" where
  "permset_reset ps it = ps\<lparr>ps_perms := map (perm_reset_item it) (ps_perms ps)\<rparr>"

definition permset_has :: "permset \<Rightarrow> string \<Rightarrow> bool" where
  "permset_has ps nm = (perm_get ps nm \<noteq> None)"

fun perm_matches :: "permission \<Rightarrow> permset_select \<Rightarrow> bool" where
  "perm_matches p permset_Select_Any = True"
| "perm_matches p permset_Select_Requested = p_requested p"
| "perm_matches p permset_Select_Granted = p_granted p"
| "perm_matches p permset_Select_Requested_And_Granted = (p_granted p \<and> p_requested p)"

text \<open>\<open>advance\<close>: the while loop, on the index alone.\<close>

function perm_advance_index :: "permission list \<Rightarrow> permset_select \<Rightarrow> nat \<Rightarrow> nat" where
  "perm_advance_index ps it i =
     (if i < length ps \<and> \<not> perm_matches (ps ! i) it
      then perm_advance_index ps it (Suc i) else i)"
  by pat_completeness auto
termination
  by (relation "measure (\<lambda>(ps, it, i). length ps - i)") auto

definition perm_advance :: "permset \<Rightarrow> permset_select \<Rightarrow> bool \<times> permset" where
  "perm_advance ps it =
     (let i = perm_advance_index (ps_perms ps) it (ps_index ps)
      in (i < ps_count ps, ps\<lparr>ps_index := i\<rparr>))"

definition permset_select_first :: "permset \<Rightarrow> permset_select \<Rightarrow> bool \<times> permset" where
  "permset_select_first ps it = perm_advance (ps\<lparr>ps_index := 0\<rparr>) it"

text \<open>The cursor is an \<open>unsigned\<close>: its increment wraps.\<close>

definition permset_select_next :: "permset \<Rightarrow> permset_select \<Rightarrow> bool \<times> permset" where
  "permset_select_next ps it = perm_advance (ps\<lparr>ps_index := (ps_index ps + 1) mod 2 ^ 32\<rparr>) it"

definition permset_current :: "permset \<Rightarrow> string option" where
  "permset_current ps =
     (if ps_index ps < ps_count ps then Some (p_name (ps_perms ps ! ps_index ps)) else None)"

definition permset_is_current_requested :: "permset \<Rightarrow> bool" where
  "permset_is_current_requested ps =
     (if ps_index ps < ps_count ps then p_requested (ps_perms ps ! ps_index ps) else False)"

definition permset_is_current_granted :: "permset \<Rightarrow> bool" where
  "permset_is_current_granted ps =
     (if ps_index ps < ps_count ps then p_granted (ps_perms ps ! ps_index ps) else False)"

definition permset_create :: "mem \<Rightarrow> int \<times> permset option \<times> mem" where
  "permset_create m =
     (let (ok, m') = c_alloc m
      in if ok then (0, Some \<lparr>ps_perms = [], ps_index = 0\<rparr>, m') else (- ENOMEM, None, m'))"


section \<open>Invariant and abstraction\<close>

text \<open>
  No two items carry the same name. The abstraction reads the set as a finite map from
  names to the pair (granted, requested).
\<close>

definition perm_inv :: "permset \<Rightarrow> bool" where
  "perm_inv ps = distinct (map p_name (ps_perms ps))"

definition perm_view :: "permset \<Rightarrow> string \<Rightarrow> (bool \<times> bool) option" where
  "perm_view ps =
     map_of (map (\<lambda>p. (p_name p, (p_granted p, p_requested p))) (ps_perms ps))"

text \<open>What marking a name does to the map.\<close>

definition view_mark ::
  "(string \<Rightarrow> (bool \<times> bool) option) \<Rightarrow> string \<Rightarrow> bool \<Rightarrow> bool \<Rightarrow> string \<Rightarrow> (bool \<times> bool) option" where
  "view_mark v nm grant request =
     (case v nm of
        None \<Rightarrow> v(nm \<mapsto> (grant, request))
      | Some (g, r) \<Rightarrow> v(nm \<mapsto> (g \<or> grant, r \<or> request)))"

lemma perm_index_None: "perm_index ps nm = None \<longleftrightarrow> nm \<notin> p_name ` set ps"
  by (induction ps) auto

lemma perm_index_Some:
  "perm_index ps nm = Some i \<Longrightarrow> i < length ps \<and> p_name (ps ! i) = nm"
  by (induction ps arbitrary: i) (auto split: if_splits)

lemma perm_index_map_of:
  "perm_index ps nm = Some i \<Longrightarrow>
     map_of (map (\<lambda>p. (p_name p, f p)) ps) nm = Some (f (ps ! i))"
  by (induction ps arbitrary: i) (auto split: if_splits)

lemma perm_index_update:
  assumes "perm_index ps nm = Some i" "p_name p = nm"
  shows "map_of (map (\<lambda>p. (p_name p, f p)) (ps[i := p])) =
         (map_of (map (\<lambda>p. (p_name p, f p)) ps))(nm \<mapsto> f p)"
  using assms
  by (induction ps arbitrary: i) (auto split: if_splits nat.splits simp: fun_eq_iff)

lemma perm_mark_simps [simp]:
  "p_name (perm_mark g r p) = p_name p"
  "p_granted (perm_mark g r p) = (p_granted p \<or> g)"
  "p_requested (perm_mark g r p) = (p_requested p \<or> r)"
  by (simp_all add: perm_mark_def)

lemma perm_view_None [perm_laws]: "perm_view ps nm = None \<longleftrightarrow> perm_get ps nm = None"
  by (force simp: perm_view_def perm_get_def perm_index_None map_of_eq_None_iff)

lemma perm_view_get [perm_laws]:
  "perm_get ps nm = Some i \<Longrightarrow>
     perm_view ps nm = Some (p_granted (ps_perms ps ! i), p_requested (ps_perms ps ! i))"
  by (simp add: perm_view_def perm_get_def perm_index_map_of)

lemma perm_status_range: "perm_status p = 0 \<or> perm_status p = 1"
  by (simp add: perm_status_def)

text \<open>The two outcomes of \<open>add\<close>, from which everything else follows.\<close>

lemma perm_add_cases:
  assumes "perm_add ps m nm g r = (rc, ps', m')"
  obtains (failed) "rc = - ENOMEM" "ps' = ps" "perm_get ps nm = None"
  | (updated) i where "perm_get ps nm = Some i"
      "ps' = ps\<lparr>ps_perms := (ps_perms ps)[i := perm_mark g r (ps_perms ps ! i)]\<rparr>"
      "rc = perm_status (perm_mark g r (ps_perms ps ! i))"
  | (created) "perm_get ps nm = None"
      "ps' = ps\<lparr>ps_perms := ps_perms ps @
          [\<lparr>p_name = nm, p_granted = g, p_requested = r\<rparr>]\<rparr>"
      "rc = perm_status \<lparr>p_name = nm, p_granted = g, p_requested = r\<rparr>"
  using assms
  by (auto simp: perm_add_def Let_def perm_mark_def split: option.splits prod.splits if_splits)

lemma perm_add_inv:
  assumes "perm_inv ps" "perm_add ps m nm g r = (rc, ps', m')"
  shows "perm_inv ps'"
  using assms(2)
proof (cases rule: perm_add_cases)
  case (updated i)
  then have "i < length (ps_perms ps)" "p_name (ps_perms ps ! i) = nm"
    by (auto simp: perm_get_def dest: perm_index_Some)
  then have "map p_name (ps_perms ps') = map p_name (ps_perms ps)"
    using updated by (simp add: list_update_map_key)
  with assms(1) show ?thesis by (simp add: perm_inv_def)
qed (use assms(1) in \<open>auto simp: perm_inv_def perm_get_def perm_index_None\<close>)

lemma perm_add_view:
  assumes "perm_add ps m nm g r = (rc, ps', m')" "0 \<le> rc"
  shows "perm_view ps' = view_mark (perm_view ps) nm g r"
    and "rc = (if perm_view ps' nm = Some (True, True) then 1 else 0)"
proof -
  have "perm_view ps' = view_mark (perm_view ps) nm g r \<and>
        rc = (if perm_view ps' nm = Some (True, True) then 1 else 0)"
    using assms(1)
  proof (cases rule: perm_add_cases)
    case failed
    with assms(2) show ?thesis by simp
  next
    case (updated i)
    then have nm: "p_name (ps_perms ps ! i) = nm"
      by (auto simp: perm_get_def dest: perm_index_Some)
    have view: "perm_view ps' = view_mark (perm_view ps) nm g r"
      using updated nm perm_view_get [OF updated(1)]
      by (simp add: perm_view_def view_mark_def perm_get_def perm_index_update)
    with updated perm_view_get [OF updated(1)] show ?thesis
      by (auto simp: perm_status_def view_mark_def)
  next
    case created
    have view: "perm_view ps' = view_mark (perm_view ps) nm g r"
      using created perm_view_None [of ps nm]
      by (simp add: perm_view_def view_mark_def map_add_fresh perm_get_def)
    with created perm_view_None [of ps nm] show ?thesis
      by (auto simp: perm_status_def view_mark_def)
  qed
  then show "perm_view ps' = view_mark (perm_view ps) nm g r"
    and "rc = (if perm_view ps' nm = Some (True, True) then 1 else 0)" by auto
qed

lemma perm_add_failed:
  assumes "perm_add ps m nm g r = (rc, ps', m')" "rc < 0"
  shows "rc = - ENOMEM \<and> ps' = ps"
  using assms(1)
  by (cases rule: perm_add_cases) (use assms(2) perm_status_range in \<open>auto simp: perm_status_def split: if_splits\<close>)

lemma perm_add_total: "perm_add ps [] nm g r = (rc, ps', m') \<Longrightarrow> 0 \<le> rc"
  by (auto simp: perm_add_def perm_status_def Let_def split: option.splits if_splits)


section \<open>Lists of permissions\<close>

text \<open>The tokens of a list: the maximal runs without a separator.\<close>

function perm_tokens :: "string \<Rightarrow> string list" where
  "perm_tokens s =
     (if s = [] then []
      else c_word perm_separators s # perm_tokens (c_skip perm_separators (c_after perm_separators s)))"
  by pat_completeness auto
termination
  by (relation "measure length") (simp_all add: c_skip_after_shorter)

declare perm_tokens.simps [simp del]
declare perm_add_list_loop.simps [simp del]

fun perm_add_all ::
  "permset \<Rightarrow> mem \<Rightarrow> string list \<Rightarrow> bool \<Rightarrow> bool \<Rightarrow> int \<times> permset \<times> mem" where
  "perm_add_all ps m [] g r = (1, ps, m)"
| "perm_add_all ps m (t # ts) g r =
     (let (rc, ps', m') = perm_add ps m t g r in
      if rc < 0 then (rc, ps', m')
      else let (rc2, ps'', m'') = perm_add_all ps' m' ts g r
           in (if rc2 < 0 then rc2 else rc AND rc2, ps'', m''))"

lemma and_bit_cases:
  "(a = 0 \<or> a = (1::int)) \<Longrightarrow> (b = 0 \<or> b = 1) \<Longrightarrow> a AND b = (if a = 1 \<and> b = 1 then 1 else 0)"
  by auto

lemma perm_add_rc: "perm_add ps m t g r = (rc, ps', m') \<Longrightarrow> rc = - ENOMEM \<or> rc = 0 \<or> rc = 1"
  by (erule perm_add_cases) (auto simp: perm_status_def)

lemma perm_add_all_rc:
  "perm_add_all ps m ts g r = (rc, ps', m') \<Longrightarrow> rc = - ENOMEM \<or> rc = 0 \<or> rc = 1"
  by (induction ts arbitrary: ps m rc ps' m')
     (fastforce simp: and_bit_cases Let_def split: prod.splits if_splits dest: perm_add_rc)+

lemma perm_add_list_loop_tokens:
  assumes "a = 0 \<or> a = 1"
  shows "perm_add_list_loop ps m s g r a =
     (let (rc, ps', m') = perm_add_all ps m (perm_tokens s) g r
      in (if rc < 0 then rc else a AND rc, ps', m'))"
  using assms
proof (induction ps m s g r a rule: perm_add_list_loop.induct)
  case (1 ps m s g r a)
  obtain rc ps' m' where add: "perm_add ps m (c_word perm_separators s) g r = (rc, ps', m')"
    by (metis prod_cases3)
  obtain rc2 ps2 m2 where rest: "perm_add_all ps' m'
      (perm_tokens (c_skip perm_separators (c_after perm_separators s))) g r = (rc2, ps2, m2)"
    by (metis prod_cases3)
  show ?case
  proof (cases "s = []")
    case True
    then show ?thesis
      using "1.prems" by (auto simp: perm_add_list_loop.simps [of ps m "[]"] perm_tokens.simps [of "[]"])
  next
    case False
    note unf = perm_add_list_loop.simps [of ps m s g r a] perm_tokens.simps [of s]
    show ?thesis
    proof (cases "rc < 0")
      case True
      with False add show ?thesis by (simp add: unf)
    next
      case nonneg: False
      from nonneg perm_add_rc [OF add] "1.prems" have bit: "a AND rc = 0 \<or> a AND rc = 1"
        by auto
      from "1.IH" [OF False add [symmetric] refl refl nonneg bit] False nonneg add rest
      show ?thesis
        by (simp add: unf ac_simps)
    qed
  qed
qed

lemma perm_add_list_tokens:
  "perm_add_list ps m ls g r = perm_add_all ps m (perm_tokens (c_skip perm_separators ls)) g r"
proof -
  obtain rc ps' m' where
    eq: "perm_add_all ps m (perm_tokens (c_skip perm_separators ls)) g r = (rc, ps', m')"
    by (metis prod_cases3)
  from perm_add_all_rc [OF eq] have "(if rc < 0 then rc else 1 AND rc) = rc" by auto
  then show ?thesis
    by (simp add: perm_add_list_def perm_add_list_loop_tokens eq)
qed


lemma perm_add_all_props:
  assumes "perm_inv ps" "perm_add_all ps m ts g r = (rc, ps', m')"
  shows "perm_inv ps'"
    and "0 \<le> rc \<Longrightarrow> perm_view ps' = fold (\<lambda>t v. view_mark v t g r) ts (perm_view ps)"
proof -
  have "perm_inv ps' \<and>
        (0 \<le> rc \<longrightarrow> perm_view ps' = fold (\<lambda>t v. view_mark v t g r) ts (perm_view ps))"
    using assms
  proof (induction ts arbitrary: ps m rc ps' m')
    case Nil
    then show ?case by simp
  next
    case (Cons t ts)
    obtain rc1 ps1 m1 where add: "perm_add ps m t g r = (rc1, ps1, m1)"
      by (metis prod_cases3)
    have inv1: "perm_inv ps1" using perm_add_inv [OF Cons.prems(1) add] .
    show ?case
    proof (cases "rc1 < 0")
      case True
      with Cons.prems add inv1 show ?thesis by simp
    next
      case False
      obtain rc2 ps2 m2 where rest: "perm_add_all ps1 m1 ts g r = (rc2, ps2, m2)"
        by (metis prod_cases3)
      from Cons.prems(2) add rest False
      have res: "ps' = ps2" "rc = (if rc2 < 0 then rc2 else rc1 AND rc2)"
        by (simp_all add: Let_def split: if_splits)
      from Cons.IH [OF inv1 rest] perm_add_view(1) [OF add] False res show ?thesis
        by auto
    qed
  qed
  then show "perm_inv ps'"
    and "0 \<le> rc \<Longrightarrow> perm_view ps' = fold (\<lambda>t v. view_mark v t g r) ts (perm_view ps)" by auto
qed

section \<open>Enumeration\<close>

text \<open>
  The loop the clients write around the cursor: select the first item, run the body on the
  current name, stop on a negative status, select the next item. The fuel bounds the number
  of turns; \<open>None\<close> is a loop that does not end, or a body given a null name.
\<close>

fun perm_loop ::
  "nat \<Rightarrow> ('s \<Rightarrow> string \<Rightarrow> int \<times> 's) \<Rightarrow> permset_select \<Rightarrow> bool \<times> permset \<Rightarrow> 's \<Rightarrow>
   (int \<times> permset \<times> 's) option" where
  "perm_loop 0 f it cur s = None"
| "perm_loop (Suc n) f it (sel, ps) s =
     (if \<not> sel then Some (0, ps, s)
      else case permset_current ps of
             None \<Rightarrow> None
           | Some nm \<Rightarrow>
               let (rc, s') = f s nm in
               if rc < 0 then Some (rc, ps, s')
               else perm_loop n f it (permset_select_next ps it) s')"

declare perm_advance_index.simps [simp del]

lemma perm_advance_index_filter:
  "i \<le> length ps \<Longrightarrow>
     i \<le> perm_advance_index ps it i \<and> perm_advance_index ps it i \<le> length ps \<and>
     filter (\<lambda>p. perm_matches p it) (drop i ps) =
       (let j = perm_advance_index ps it i
        in if j < length ps then ps ! j # filter (\<lambda>p. perm_matches p it) (drop (Suc j) ps) else [])"
proof (induction ps it i rule: perm_advance_index.induct)
  case (1 ps it i)
  note unf = perm_advance_index.simps [of ps it i]
  show ?case
  proof (cases "i < length ps")
    case True
    then have "drop i ps = ps ! i # drop (Suc i) ps" by (simp add: Cons_nth_drop_Suc)
    with True "1.IH" show ?thesis
      by (cases "perm_matches (ps ! i) it") (simp_all add: unf Let_def)
  qed (use "1.prems" in \<open>simp add: perm_advance_index.simps [of ps it "length ps"]\<close>)
qed

lemma perm_advance_filter:
  assumes "perm_advance ps it = (sel, ps')" "ps_index ps \<le> ps_count ps"
  shows "ps_perms ps' = ps_perms ps" "ps_index ps \<le> ps_index ps'" "ps_index ps' \<le> ps_count ps"
    "sel \<longleftrightarrow> ps_index ps' < ps_count ps"
    "filter (\<lambda>p. perm_matches p it) (drop (ps_index ps) (ps_perms ps)) =
       (if sel then ps_perms ps ! ps_index ps' #
          filter (\<lambda>p. perm_matches p it) (drop (Suc (ps_index ps')) (ps_perms ps)) else [])"
  using assms perm_advance_index_filter [OF assms(2), of it]
  by (auto simp: perm_advance_def Let_def)

lemma perm_loop_filter:
  assumes "ps_count ps < 2 ^ 32" "ps_index ps \<le> ps_count ps"
    "ps_count ps - ps_index ps < n"
  shows "\<exists>ps'. ps_perms ps' = ps_perms ps \<and>
     perm_loop n f it (perm_advance ps it) s =
       (let (rc, s') = fold_until f (map p_name (filter (\<lambda>p. perm_matches p it)
            (drop (ps_index ps) (ps_perms ps)))) s in Some (rc, ps', s'))"
  using assms
proof (induction n arbitrary: ps s)
  case 0
  then show ?case by simp
next
  case (Suc n)
  obtain sel ps1 where adv: "perm_advance ps it = (sel, ps1)" by fastforce
  note A = perm_advance_filter [OF adv Suc.prems(2)]
  show ?case
  proof (cases sel)
    case False
    with adv A show ?thesis by (intro exI [of _ ps1]) simp
  next
    case True
    let ?nm = "p_name (ps_perms ps ! ps_index ps1)"
    obtain rc s1 where body: "f s ?nm = (rc, s1)" by fastforce
    from True A have cur: "permset_current ps1 = Some ?nm" by (simp add: permset_current_def)
    show ?thesis
    proof (cases "rc < 0")
      case True
      with \<open>sel\<close> adv A cur body show ?thesis by (intro exI [of _ ps1]) simp
    next
      case False
      let ?ps2 = "ps1\<lparr>ps_index := Suc (ps_index ps1)\<rparr>"
      from \<open>sel\<close> A Suc.prems have le: "Suc (ps_index ps1) \<le> ps_count ps" "Suc (ps_index ps1) < 2 ^ 32"
        by auto
      then have nxt: "permset_select_next ps1 it = perm_advance ?ps2 it"
        by (simp add: permset_select_next_def)
      have "ps_count ?ps2 < 2 ^ 32" "ps_index ?ps2 \<le> ps_count ?ps2"
        "ps_count ?ps2 - ps_index ?ps2 < n"
        using A le Suc.prems by auto
      from Suc.IH [OF this, of s1] obtain ps' where "ps_perms ps' = ps_perms ?ps2"
        "perm_loop n f it (perm_advance ?ps2 it) s1 =
          (let (rc, s') = fold_until f (map p_name (filter (\<lambda>p. perm_matches p it)
            (drop (ps_index ?ps2) (ps_perms ?ps2)))) s1 in Some (rc, ps', s'))" by blast
      with \<open>sel\<close> False adv A cur body nxt show ?thesis
        by (intro exI [of _ ps']) simp
    qed
  qed
qed


section \<open>The interface of a permission store\<close>

text \<open>
  What the package installer relies on: granting and requesting a name act on the
  abstract map, a failure leaves it alone, and a request answers whether the name is then
  both granted and requested.
\<close>

locale permission_store =
  fixes grant request :: "'s \<Rightarrow> string \<Rightarrow> int \<times> 's"
    and view :: "'s \<Rightarrow> string \<Rightarrow> (bool \<times> bool) option"
    and inv :: "'s \<Rightarrow> bool"
  assumes grant_inv: "inv s \<Longrightarrow> grant s n = (rc, s') \<Longrightarrow> inv s'"
    and request_inv: "inv s \<Longrightarrow> request s n = (rc, s') \<Longrightarrow> inv s'"
    and grant_view: "grant s n = (rc, s') \<Longrightarrow> 0 \<le> rc \<Longrightarrow> view s' = view_mark (view s) n True False"
    and grant_failed: "grant s n = (rc, s') \<Longrightarrow> rc < 0 \<Longrightarrow> view s' = view s"
    and request_view: "request s n = (rc, s') \<Longrightarrow> 0 \<le> rc \<Longrightarrow> view s' = view_mark (view s) n False True"
    and request_failed: "request s n = (rc, s') \<Longrightarrow> rc < 0 \<Longrightarrow> view s' = view s"
    and request_rc: "request s n = (rc, s') \<Longrightarrow> 0 \<le> rc \<Longrightarrow>
          rc = (if view s' n = Some (True, True) then 1 else 0)"
begin

lemma grant_request_permitted:
  assumes "grant s n = (rc1, s1)" "request s1 n = (rc2, s2)" "0 \<le> rc1" "0 \<le> rc2"
  shows "rc2 = 1" "view s2 n = Some (True, True)"
  using assms request_rc [OF assms(2,4)] grant_view [OF assms(1,3)] request_view [OF assms(2,4)]
  by (auto simp: view_mark_def split: option.splits)

lemma grant_request_frame:
  assumes "grant s n = (rc1, s1)" "request s1 n = (rc2, s2)" "k \<noteq> n"
  shows "view s2 k = view s k"
proof -
  have "view s1 k = view s k"
    using grant_view [OF assms(1)] grant_failed [OF assms(1)] assms(3)
    by (cases "0 \<le> rc1") (auto simp: view_mark_def split: option.splits)
  moreover have "view s2 k = view s1 k"
    using request_view [OF assms(2)] request_failed [OF assms(2)] assms(3)
    by (cases "0 \<le> rc2") (auto simp: view_mark_def split: option.splits)
  ultimately show ?thesis by simp
qed

end

abbreviation with_mem ::
  "(permset \<Rightarrow> mem \<Rightarrow> string \<Rightarrow> int \<times> permset \<times> mem) \<Rightarrow> permset \<times> mem \<Rightarrow> string \<Rightarrow> int \<times> permset \<times> mem"
  where "with_mem f s n \<equiv> f (fst s) (snd s) n"

interpretation perms: permission_store
  "with_mem permset_grant" "with_mem permset_request" "\<lambda>s. perm_view (fst s)" "\<lambda>s. perm_inv (fst s)"
proof (unfold_locales, goal_cases)
  case (1 s n rc s')
  then show ?case by (cases s') (auto simp: permset_grant_def dest: perm_add_inv)
next
  case (2 s n rc s')
  then show ?case by (cases s') (auto simp: permset_request_def dest: perm_add_inv)
next
  case (3 s n rc s')
  then show ?case by (cases s') (auto simp: permset_grant_def dest: perm_add_view(1))
next
  case (4 s n rc s')
  then show ?case by (cases s') (auto simp: permset_grant_def dest: perm_add_failed)
next
  case (5 s n rc s')
  then show ?case by (cases s') (auto simp: permset_request_def dest: perm_add_view(1))
next
  case (6 s n rc s')
  then show ?case by (cases s') (auto simp: permset_request_def dest: perm_add_failed)
next
  case (7 s n rc s')
  then show ?case
    using perm_add_view(2) [of "fst s" "snd s" n False True rc "fst s'" "snd s'"]
    by (simp add: permset_request_def)
qed

section \<open>Properties\<close>

text \<open>Marking a name again with the same flags changes nothing.\<close>

lemma view_mark_idem:
  "v t = Some (a, b) \<Longrightarrow> g \<longrightarrow> a \<Longrightarrow> r \<longrightarrow> b \<Longrightarrow> view_mark v u g r t = Some (a, b)"
  by (auto simp: view_mark_def split: option.splits)

lemma view_mark_settled:
  assumes "v t = Some (a, b)" "g \<longrightarrow> a" "r \<longrightarrow> b"
  shows "fold (\<lambda>u v. view_mark v u g r) ts v t = Some (a, b)"
  using assms(1)
  by (induction ts arbitrary: v) (use assms(2,3) in \<open>simp_all add: view_mark_idem\<close>)

lemma view_mark_settles: "\<exists>a b. view_mark v t g r t = Some (a, b) \<and> (g \<longrightarrow> a) \<and> (r \<longrightarrow> b)"
  by (auto simp: view_mark_def split: option.splits)

lemma perm_add_all_answer:
  assumes "perm_inv ps" "perm_add_all ps m ts g r = (rc, ps', m')" "0 \<le> rc"
  shows "rc = (if \<forall>t \<in> set ts. perm_view ps' t = Some (True, True) then 1 else 0)"
  using assms
proof (induction ts arbitrary: ps m rc ps' m')
  case Nil
  then show ?case by simp
next
  case (Cons t ts)
  obtain rc1 ps1 m1 where add: "perm_add ps m t g r = (rc1, ps1, m1)" by (metis prod_cases3)
  obtain rc2 ps2 m2 where rest: "perm_add_all ps1 m1 ts g r = (rc2, ps2, m2)"
    by (metis prod_cases3)
  have inv1: "perm_inv ps1" using perm_add_inv [OF Cons.prems(1) add] .
  from Cons.prems add rest perm_add_rc [OF add] perm_add_all_rc [OF rest]
  have rc: "0 \<le> rc1" "0 \<le> rc2" "ps' = ps2" "rc = rc1 AND rc2"
    by (auto simp: Let_def split: if_splits)
  have "perm_view ps2 t = perm_view ps1 t"
    using perm_add_all_props(2) [OF inv1 rest rc(2)] perm_add_view(1) [OF add rc(1)]
      view_mark_settles [of "perm_view ps" t g r] view_mark_settled [of "perm_view ps1" t _ _ g r ts]
    by force
  with perm_add_view(2) [OF add rc(1)] Cons.IH [OF inv1 rest rc(2)] rc show ?case
    by auto
qed


text \<open>\<open>add\<close>, the core of grant, add and request, implements marking a name in the abstract
  map: it keeps the names distinct, on success the map changes exactly at that name and the
  status is 1 when the name is then both granted and requested and 0 otherwise, and the only
  failure is -ENOMEM, which leaves the set as it was.\<close>

theorem perm_add_refines:
  assumes "perm_inv ps" "perm_add ps m nm grant request = (rc, ps', m')"
  shows "perm_inv ps' \<and>
    (if rc < 0 then rc = - ENOMEM \<and> ps' = ps
     else perm_view ps' = view_mark (perm_view ps) nm grant request \<and>
          rc = (if perm_view ps' nm = Some (True, True) then 1 else 0))"
  using perm_add_inv [OF assms] perm_add_failed [OF assms(2)] perm_add_view [OF assms(2)]
  by auto

definition sample_perms :: permset where
  "sample_perms = \<lparr>ps_perms =
     [\<lparr>p_name = ''a'', p_granted = True, p_requested = False\<rparr>,
      \<lparr>p_name = ''b'', p_granted = False, p_requested = True\<rparr>,
      \<lparr>p_name = ''c'', p_granted = True, p_requested = True\<rparr>], ps_index = 0\<rparr>"

theorem perm_add_refines_witness:
  "perm_inv (fst (snd (perm_add sample_perms [] ''a'' False True))) \<and>
   fst (perm_add sample_perms [] ''a'' False True) = 1 \<and>
   fst (perm_add sample_perms [False] ''d'' False True) = - ENOMEM"
  using perm_add_refines [of sample_perms "[]" "''a''" False True
      "fst (perm_add sample_perms [] ''a'' False True)"
      "fst (snd (perm_add sample_perms [] ''a'' False True))"
      "snd (snd (perm_add sample_perms [] ''a'' False True))"]
  by (simp add: perm_inv_def sample_perms_def perm_add_def perm_get_def perm_mark_def
      perm_status_def)

text \<open>A successful request of a list of permissions answers 1 exactly when every
  permission of the list is then granted and requested, otherwise 0; the permissions are
  the tokens of the list between blanks, tabulations, line breaks and commas.\<close>

theorem permset_request_list_answer:
  assumes "perm_inv ps" "permset_request_list ps m ls = (rc, ps', m')" "0 \<le> rc"
  shows "perm_inv ps' \<and>
    rc = (if \<forall>t \<in> set (perm_tokens (c_skip perm_separators ls)).
               perm_view ps' t = Some (True, True) then 1 else 0)"
proof -
  have "perm_add_all ps m (perm_tokens (c_skip perm_separators ls)) False True = (rc, ps', m')"
    using assms(2) by (simp add: permset_request_list_def perm_add_list_tokens)
  then show ?thesis
    using perm_add_all_props(1) perm_add_all_answer assms(1,3) by blast
qed

lemma sample_tokens: "perm_tokens ''a, c'' = [''a'', ''c'']"
  by (simp add: perm_tokens.simps c_word_def c_after_def c_skip_def)

theorem permset_request_list_answer_witness:
  "fst (permset_request_list sample_perms [] ''a, c'') = 1"
proof -
  obtain rc ps' m' where r: "permset_request_list sample_perms [] ''a, c'' = (rc, ps', m')"
    by (metis prod_cases3)
  have s: "c_skip perm_separators ''a, c'' = ''a, c''" by (simp add: c_skip_def)
  have e: "rc = 1 \<and> 0 \<le> rc"
    using r by (simp add: permset_request_list_def perm_add_list_tokens s sample_tokens
        sample_perms_def perm_add_def perm_get_def perm_mark_def perm_status_def Let_def)
  have i: "perm_inv sample_perms" by (simp add: perm_inv_def sample_perms_def)
  from permset_request_list_answer [OF i r] e r show ?thesis by simp
qed

text \<open>The loop over the cursor runs its body exactly on the names of the permissions that
  match the selection, each once and in the order of the set, up to the first failure, and
  ends; the permissions are not changed by it.\<close>

theorem perm_selection_enumerates:
  assumes "ps_count ps < 2 ^ 32"
  shows "\<exists>ps'. ps_perms ps' = ps_perms ps \<and>
     perm_loop (Suc (Suc (ps_count ps))) f it (permset_select_first ps it) s =
       (let (rc, s') = fold_until f (map p_name (filter (\<lambda>p. perm_matches p it) (ps_perms ps))) s
        in Some (rc, ps', s'))"
  using perm_loop_filter [of "ps\<lparr>ps_index := 0\<rparr>" "Suc (Suc (ps_count ps))" f it s] assms
  by (simp add: permset_select_first_def)

theorem perm_selection_enumerates_witness:
  "\<exists>ps'. perm_loop (Suc (Suc (ps_count sample_perms))) (\<lambda>s nm. (0, s @ [nm])) permset_Select_Granted
     (permset_select_first sample_perms permset_Select_Granted) [] = Some (0, ps', [''a'', ''c''])"
  using perm_selection_enumerates [of sample_perms "\<lambda>s nm. (0, s @ [nm])" permset_Select_Granted "[]"]
  by (auto simp del: perm_loop.simps simp: sample_perms_def)

end
