(* ===== verification/PathType.thy ===== *)
theory PathType
  imports AFM_Prelude
begin

text \<open>
  The security types of files (\<^verbatim>\<open>src/src/utils/path-type.c\<close>) and the recognition of
  executable MIME types (\<^verbatim>\<open>src/src/utils/mime-type.c\<close>).
\<close>

section \<open>Types\<close>

datatype path_type =
    path_type_Unset | path_type_Default | path_type_Conf | path_type_Data | path_type_Exec
  | path_type_Http | path_type_Icon | path_type_Id | path_type_Lib | path_type_Plug
  | path_type_Public | path_type_Public_Exec | path_type_Public_Lib

text \<open>The numbering of the C enumeration; \<open>_path_type_count_\<close> is 13.\<close>

fun path_type_num :: "path_type \<Rightarrow> int" where
  "path_type_num path_type_Unset = 0"
| "path_type_num path_type_Default = 1"
| "path_type_num path_type_Conf = 2"
| "path_type_num path_type_Data = 3"
| "path_type_num path_type_Exec = 4"
| "path_type_num path_type_Http = 5"
| "path_type_num path_type_Icon = 6"
| "path_type_num path_type_Id = 7"
| "path_type_num path_type_Lib = 8"
| "path_type_num path_type_Plug = 9"
| "path_type_num path_type_Public = 10"
| "path_type_num path_type_Public_Exec = 11"
| "path_type_num path_type_Public_Lib = 12"

abbreviation path_type_count :: int where "path_type_count \<equiv> 13"

definition path_type_slm :: "string list" where
  "path_type_slm =
     [''default'', ''default'', ''conf'', ''data'', ''exec'', ''http'', ''icon'', ''id'', ''lib'',
      ''plug'', ''public'', ''public'', ''public'']"

text \<open>Rows of the table: type, key of the property, name of a directory when there is one.\<close>

definition filetypes :: "(path_type \<times> string \<times> string option) list" where
  "filetypes =
     [(path_type_Conf, ''config'', Some ''etc''),
      (path_type_Data, ''data'', None),
      (path_type_Exec, ''executable'', Some ''bin''),
      (path_type_Http, ''www'', Some ''htdocs''),
      (path_type_Lib, ''library'', Some ''lib''),
      (path_type_Plug, ''plug'', None),
      (path_type_Public, ''public'', Some ''public''),
      (path_type_Public_Exec, ''public-executable'', None),
      (path_type_Public_Lib, ''public-library'', None)]"

section \<open>Operations\<close>

text \<open>Both searches run from the last row to the first.\<close>

definition path_type_of_property_key :: "string \<Rightarrow> path_type" where
  "path_type_of_property_key k =
     (case List.find (\<lambda>(t, key, d). key = k) (rev filetypes) of
        Some (t, _) \<Rightarrow> t | None \<Rightarrow> path_type_Unset)"

definition path_type_of_dirname :: "string \<Rightarrow> path_type" where
  "path_type_of_dirname d =
     (case List.find (\<lambda>(t, key, dir). dir = Some d) (rev filetypes) of
        Some (t, _) \<Rightarrow> t | None \<Rightarrow> path_type_Unset)"

definition path_type_for_slm :: "int \<Rightarrow> string option" where
  "path_type_for_slm t =
     (if t < path_type_num path_type_Unset \<or> path_type_count \<le> t then None
      else Some (path_type_slm ! nat t))"

definition exec_type_strings :: "string list" where
  "exec_type_strings =
     [''application/x-executable'', ''application/vnd.redpesk.native'', ''application/vnd.agl.native'']"

definition mime_type_is_executable :: "string \<Rightarrow> bool" where
  "mime_type_is_executable ty \<longleftrightarrow> (\<exists>x \<in> set (rev exec_type_strings). c_strcasecmp_eq ty x)"

section \<open>Lemmas\<close>

lemma path_type_num_range: "0 \<le> path_type_num t \<and> path_type_num t < path_type_count"
  by (cases t) auto

lemma path_type_num_Unset [simp]: "path_type_num t = 0 \<longleftrightarrow> t = path_type_Unset"
  by (cases t) auto

lemma path_type_for_slm_valid: "path_type_for_slm (path_type_num t) \<noteq> None"
  using path_type_num_range [of t] by (simp add: path_type_for_slm_def)

lemma property_key_type:
  "path_type_of_property_key k \<in>
     {path_type_Unset, path_type_Conf, path_type_Data, path_type_Exec, path_type_Http,
      path_type_Lib, path_type_Plug, path_type_Public, path_type_Public_Exec, path_type_Public_Lib}"
  by (simp add: path_type_of_property_key_def filetypes_def)

lemma dirname_type:
  "path_type_of_dirname d \<in>
     {path_type_Unset, path_type_Conf, path_type_Exec, path_type_Http, path_type_Lib, path_type_Public}"
  by (simp add: path_type_of_dirname_def filetypes_def)

end
