(* ===== verification/Afmpkg.thy ===== *)
theory Afmpkg
  imports Permset PathType PathWalk Afid UnitProcess
begin

text \<open>
  Installation and removal of packages (\<^verbatim>\<open>src/src/afmpkg/afmpkg.c\<close>).

  The code walks the tree of the files of a package, finds in it the directories that hold a
  manifest, and for each of them checks the manifest, computes the security types of the
  files and tells the operations of its caller what to do; the remaining files get a default
  tag. The operations work on a closure of type \<open>'c\<close>. The JSON library is a parameter on
  values of type \<open>'j\<close>, as are the system calls, the reading of manifests and the mustache
  engine.

  The buffer \<open>path\<close> of the state is the list of its \<open>PATH_MAX\<close> bytes; \<open>st_ub\<close> records that the
  code has dereferenced a null pointer or used its buffer out of its bounds.
\<close>

section \<open>Types\<close>

datatype afmpkg_mode = Afmpkg_Nop | Afmpkg_Install | Afmpkg_Uninstall

record 'c afmpkg_operations =
  op_begin :: "'c \<Rightarrow> string option \<Rightarrow> afmpkg_mode \<Rightarrow> int \<times> 'c"
  op_tagfile :: "'c \<Rightarrow> string \<Rightarrow> path_type \<Rightarrow> int \<times> 'c"
  op_setperm :: "'c \<Rightarrow> string \<Rightarrow> int \<times> 'c"
  op_setplug :: "'c \<Rightarrow> string \<Rightarrow> string option \<Rightarrow> string \<Rightarrow> int \<times> 'c"
  op_setunits :: "'c \<Rightarrow> unitdesc list \<Rightarrow> int \<times> 'c"
  op_end :: "'c \<Rightarrow> int \<Rightarrow> int \<times> 'c"

type_synonym files = "(string, path_type) path_entry"

record afmpkg =
  pk_package :: "string option"
  pk_files :: "files option"
  pk_root :: "string option"
  pk_redpakid :: "string option"
  pk_redpak_auto :: "string option"

text \<open>What the code uses of JSON values.\<close>

datatype json_type = json_type_object | json_type_string | json_type_other

record 'j json_services =
  j_get :: "'j \<Rightarrow> string \<Rightarrow> 'j option"
  j_type :: "'j \<Rightarrow> json_type"
  j_string :: "'j \<Rightarrow> string option"
  j_array :: "'j \<Rightarrow> 'j list"
  j_optarray :: "'j \<Rightarrow> 'j list"
  j_fields :: "'j \<Rightarrow> ('j \<times> string) list"
  j_add :: "'j \<Rightarrow> string \<Rightarrow> 'j \<Rightarrow> 'j"
  j_put_array :: "'j \<Rightarrow> string \<Rightarrow> 'j list \<Rightarrow> 'j"
  j_pack_target :: "int \<Rightarrow> int \<Rightarrow> 'j option"
  j_pack_meta :: "string \<Rightarrow> string \<Rightarrow> bool \<Rightarrow> string option \<Rightarrow> string \<Rightarrow> 'j option"

datatype stat_mode = S_REG | S_DIR | S_OTHER

record 'j afmpkg_env =
  env_json :: "'j json_services"
  env_stat :: "string \<Rightarrow> int + stat_mode"
  env_chmod :: "string \<Rightarrow> int"
  env_manifest :: "string \<Rightarrow> int \<times> 'j option"
  env_config :: "string \<Rightarrow> int \<times> 'j option"
  env_units :: "'j unit_services"
  env_afid :: afid_env
  FWK_APP_DIR :: string
  FWK_ICON_DIR :: string

text \<open>The part of the state that does not change, then the one that does.\<close>

record ('c, 'j) afmpkg_ctx =
  cx_apkg :: afmpkg
  cx_opers :: "'c afmpkg_operations"
  cx_mode :: afmpkg_mode
  cx_env :: "'j afmpkg_env"
  cx_offset_root :: nat

record ('c, 'j) afmpkg_state =
  st_closure :: 'c
  st_files :: "files option"
  st_rc :: int
  st_manifest :: "'j option"
  st_appid :: "string option"
  st_permset :: "permset option"
  st_packdir :: pos
  st_offset_pack :: nat
  st_path :: string
  st_mem :: mem
  st_afid :: afid_state
  st_template :: "string option"
  st_chmods :: "string list"
  st_ub :: bool

definition path_str :: "('c, 'j) afmpkg_state \<Rightarrow> string" where
  "path_str st = takeWhile (\<lambda>c. c \<noteq> NUL) (st_path st)"

definition name_manifest :: string where "name_manifest = ''.rpconfig/manifest.yml''"
definition name_config :: string where "name_config = ''config.xml''"
definition key_type :: string where "key_type = ''type''"
definition default_permissions :: "string list" where
  "default_permissions = [''urn:redpesk:token:valid'']"
definition DEFAULT_TCP_PORT_BASE :: int where "DEFAULT_TCP_PORT_BASE = 29000"


definition c_print :: "string option \<Rightarrow> string" where
  "c_print s = (case s of None \<Rightarrow> ''(null)'' | Some x \<Rightarrow> x)"

section \<open>Entry types\<close>

definition entry_type :: "files \<Rightarrow> path_type" where
  "entry_type e = (case path_entry_var e key_type of None \<Rightarrow> path_type_Unset | Some v \<Rightarrow> v)"

definition get_entry_type :: "('c, 'j) afmpkg_state \<Rightarrow> pos \<Rightarrow> path_type" where
  "get_entry_type st p =
     (case st_files st of None \<Rightarrow> path_type_Unset
      | Some t \<Rightarrow> (case entry_at p t of None \<Rightarrow> path_type_Unset | Some e \<Rightarrow> entry_type e))"

definition set_entry_type ::
  "('c, 'j) afmpkg_state \<Rightarrow> pos \<Rightarrow> path_type \<Rightarrow> int \<times> ('c, 'j) afmpkg_state" where
  "set_entry_type st p ty =
     (case st_files st of None \<Rightarrow> (0, st\<lparr>st_ub := True\<rparr>)
      | Some t \<Rightarrow>
          (case entry_at p t of None \<Rightarrow> (0, st\<lparr>st_ub := True\<rparr>)
           | Some e \<Rightarrow>
               (let (rc, e', _, m') = path_entry_var_set e (st_mem st) key_type ty False
                in (rc, st\<lparr>st_files := Some (upd_at p (\<lambda>_. e') t), st_mem := m'\<rparr>))))"

section \<open>Status and iterations\<close>

definition put_state_rc :: "int \<Rightarrow> ('c, 'j) afmpkg_state \<Rightarrow> ('c, 'j) afmpkg_state" where
  "put_state_rc rc st = (if rc < 0 \<and> st_rc st \<ge> 0 then st\<lparr>st_rc := rc\<rparr> else st)"

definition for_each_of_array ::
  "'j json_services \<Rightarrow> 'j option \<Rightarrow> string \<Rightarrow> ('s \<Rightarrow> 'j \<Rightarrow> 's) \<Rightarrow> 's \<Rightarrow> 's" where
  "for_each_of_array js obj key fn s =
     (case Option.bind obj (\<lambda>x. j_get js x key) of None \<Rightarrow> s | Some item \<Rightarrow> foldl fn s (j_array js item))"

definition for_each_of_object ::
  "'j json_services \<Rightarrow> 'j option \<Rightarrow> string \<Rightarrow> ('s \<Rightarrow> 'j \<Rightarrow> string \<Rightarrow> 's) \<Rightarrow> 's \<Rightarrow> 's" where
  "for_each_of_object js obj key fn s =
     (case Option.bind obj (\<lambda>x. j_get js x key) of None \<Rightarrow> s
      | Some item \<Rightarrow> foldl (\<lambda>s (v, k). fn s v k) s (j_fields js item))"

definition for_each_of_manifest ::
  "('c, 'j) afmpkg_ctx \<Rightarrow> string \<Rightarrow> (('c, 'j) afmpkg_state \<Rightarrow> 'j \<Rightarrow> ('c, 'j) afmpkg_state) \<Rightarrow>
   ('c, 'j) afmpkg_state \<Rightarrow> ('c, 'j) afmpkg_state" where
  "for_each_of_manifest cx key fn st =
     for_each_of_array (env_json (cx_env cx)) (st_manifest st) key fn st"

definition for_each_target ::
  "('c, 'j) afmpkg_ctx \<Rightarrow> (('c, 'j) afmpkg_state \<Rightarrow> 'j \<Rightarrow> ('c, 'j) afmpkg_state) \<Rightarrow>
   ('c, 'j) afmpkg_state \<Rightarrow> ('c, 'j) afmpkg_state" where
  "for_each_target cx fn st = for_each_of_manifest cx ''targets'' fn st"

text \<open>
  The exported directory is printed after the path of the package, the import directory in
  a buffer of its own; the test of its length never holds, so a path that is too long is cut.
\<close>

definition for_each_plug_cb ::
  "('c, 'j) afmpkg_ctx \<Rightarrow>
   (('c, 'j) afmpkg_state \<Rightarrow> pos \<Rightarrow> string option \<Rightarrow> string \<Rightarrow> ('c, 'j) afmpkg_state) \<Rightarrow>
   ('c, 'j) afmpkg_state \<Rightarrow> 'j \<Rightarrow> ('c, 'j) afmpkg_state" where
  "for_each_plug_cb cx fn st desc =
     (let js = env_json (cx_env cx) in
      case j_get js desc ''name'' of
        None \<Rightarrow> put_state_rc (- EINVAL) st
      | Some item \<Rightarrow>
          let expdir = j_string js item in
          case j_get js desc ''value'' of
            None \<Rightarrow> put_state_rc (- EINVAL) st
          | Some item2 \<Rightarrow>
              let impid = j_string js item2;
                  (rc, entry) = path_entry_get (the (st_files st)) (st_packdir st) expdir
              in if rc < 0 then put_state_rc rc st
                 else
                   let off = st_offset_pack st;
                       path = take (PATH_MAX - off - 1) (''/'' @ c_print expdir);
                       st1 = st\<lparr>st_path := buf_write (st_path st) off (path @ [NUL])\<rparr>;
                       imp = take PATH_MAX (take (cx_offset_root cx) (path_str st1) @ FWK_APP_DIR (cx_env cx) @ ''/'' @
                               c_print impid @ ''/plugins'')
                   in fn st1 (the entry) impid imp)"

definition for_each_plug ::
  "('c, 'j) afmpkg_ctx \<Rightarrow>
   (('c, 'j) afmpkg_state \<Rightarrow> pos \<Rightarrow> string option \<Rightarrow> string \<Rightarrow> ('c, 'j) afmpkg_state) \<Rightarrow>
   ('c, 'j) afmpkg_state \<Rightarrow> ('c, 'j) afmpkg_state" where
  "for_each_plug cx fn st =
     for_each_of_array (env_json (cx_env cx)) (st_manifest st) ''plugs'' (for_each_plug_cb cx fn) st"

text \<open>
  The walk writes the paths of the entries in the buffer from the offset \<open>ofs\<close>; a callback sees the
  whole of the path. What the buffer holds after the path is not used until it is written
  again. The answer \<open>None\<close> of the walk does not come for an existing directory.
\<close>

type_synonym ('c, 'j) entry_cb = "('c, 'j) afmpkg_state \<Rightarrow> pos \<Rightarrow> int \<times> ('c, 'j) afmpkg_state"

definition walk_from ::
  "32 word \<Rightarrow> files \<Rightarrow> pos \<Rightarrow> nat \<Rightarrow> ('c, 'j) entry_cb \<Rightarrow> ('c, 'j) afmpkg_state \<Rightarrow> int \<times> ('c, 'j) afmpkg_state" where
  "walk_from flags t p ofs fn st =
     (case path_entry_for_each_in_buffer flags t (Some p)
             (\<lambda>s q path. fn (if has_flag flags PATH_ENTRY_FORALL_NO_PATH then s
                             else s\<lparr>st_path := buf_write (st_path s) ofs (path @ [NUL])\<rparr>) q)
             (replicate (PATH_MAX - ofs) NUL) st of
        None \<Rightarrow> (0, st\<lparr>st_ub := True\<rparr>) | Some r \<Rightarrow> r)"

definition for_each_entry ::
  "32 word \<Rightarrow> ('c, 'j) entry_cb \<Rightarrow> ('c, 'j) afmpkg_state \<Rightarrow> int \<times> ('c, 'j) afmpkg_state" where
  "for_each_entry flags fn st =
     (let t = the (st_files st);
          toplen = (case entry_at (st_packdir st) t of None \<Rightarrow> 0 | Some e \<Rightarrow> path_entry_length e);
          off = st_offset_pack st;
          ofs = (if \<not> has_flag flags PATH_ENTRY_FORALL_SILENT_ROOT \<and> off > toplen
                    then off - (toplen + 1) else off)
      in walk_from flags t (st_packdir st) ofs fn st)"

definition for_each_content_entry ::
  "32 word \<Rightarrow> ('c, 'j) entry_cb \<Rightarrow> ('c, 'j) afmpkg_state \<Rightarrow> int \<times> ('c, 'j) afmpkg_state" where
  "for_each_content_entry flags fn st = for_each_entry (flags OR PATH_ENTRY_FORALL_SILENT_ROOT) fn st"

section \<open>Checking permissions\<close>

text \<open>
  The answers of the set of permissions are not tested. A value that has no text makes
  \<open>strcmp\<close> read a null pointer.
\<close>

definition permission_of ::
  "'j json_services \<Rightarrow> 'j \<Rightarrow> string option \<times> bool" where
  "permission_of js jso =
     (case j_type js jso of
        json_type_object \<Rightarrow>
          (let nm = j_get js jso ''name''; val = j_get js jso ''value'';
               perm = (case nm of None \<Rightarrow> None
                       | Some n \<Rightarrow> if j_type js n \<noteq> json_type_string then None else j_string js n)
           in case val of
                None \<Rightarrow> (perm, False)
              | Some v \<Rightarrow>
                  (case j_string js v of
                     None \<Rightarrow> (perm, True)
                   | Some s \<Rightarrow> (if s = ''optional'' \<or> s = ''required'' then perm else None, False)))
      | json_type_string \<Rightarrow> (j_string js jso, False)
      | json_type_other \<Rightarrow> (None, False))"

definition grant_and_request :: "permset \<Rightarrow> mem \<Rightarrow> string \<Rightarrow> permset \<times> mem" where
  "grant_and_request ps m perm =
     (let (_, ps1, m1) = permset_grant ps m perm; (_, ps2, m2) = permset_request ps1 m1 perm
      in (ps2, m2))"

definition check_one_permission_cb ::
  "('c, 'j) afmpkg_ctx \<Rightarrow> ('c, 'j) afmpkg_state \<Rightarrow> 'j \<Rightarrow> string \<Rightarrow> ('c, 'j) afmpkg_state" where
  "check_one_permission_cb cx st jso key =
     (let (perm, ub) = permission_of (env_json (cx_env cx)) jso;
          st1 = (if ub then st\<lparr>st_ub := True\<rparr> else st)
      in case perm of
           None \<Rightarrow> st1
         | Some p \<Rightarrow>
             (case st_permset st1 of
                None \<Rightarrow> st1\<lparr>st_ub := True\<rparr>
              | Some ps \<Rightarrow>
                  let (ps', m') = grant_and_request ps (st_mem st1) p
                  in st1\<lparr>st_permset := Some ps', st_mem := m'\<rparr>))"

definition check_permissions_cb ::
  "('c, 'j) afmpkg_ctx \<Rightarrow> ('c, 'j) afmpkg_state \<Rightarrow> 'j option \<Rightarrow> ('c, 'j) afmpkg_state" where
  "check_permissions_cb cx st jso =
     for_each_of_object (env_json (cx_env cx)) jso ''required-permission'' (check_one_permission_cb cx) st"

definition check_permissions :: "('c, 'j) afmpkg_ctx \<Rightarrow> ('c, 'j) afmpkg_state \<Rightarrow> int \<times> ('c, 'j) afmpkg_state" where
  "check_permissions cx st =
     (let st1 = check_permissions_cb cx st (st_manifest st)
      in (0, for_each_target cx (\<lambda>s j. check_permissions_cb cx s (Some j)) st1))"

section \<open>Checking contents and configurations\<close>

text \<open>The path of an entry of the package, written after that of the package.\<close>

definition entry_disk_path ::
  "('c, 'j) afmpkg_state \<Rightarrow> pos \<Rightarrow> nat \<times> ('c, 'j) afmpkg_state" where
  "entry_disk_path st entry =
     (let off = st_offset_pack st in
      case path_entry_relpath (the (st_files st)) (Some entry) (drop off (st_path st))
             (Some (st_packdir st)) PATH_ENTRY_FORCE_LEADING_SLASH of
        None \<Rightarrow> (0, st\<lparr>st_ub := True\<rparr>)
      | Some (len, buf) \<Rightarrow> (len, st\<lparr>st_path := take off (st_path st) @ buf\<rparr>))"

definition check_disk_file ::
  "('c, 'j) afmpkg_ctx \<Rightarrow> (stat_mode \<Rightarrow> bool) \<Rightarrow> pos \<Rightarrow> ('c, 'j) afmpkg_state \<Rightarrow> int \<times> ('c, 'j) afmpkg_state" where
  "check_disk_file cx ok entry st =
     (let (len, st1) = entry_disk_path st entry
      in if len + cx_offset_root cx > PATH_MAX then (- ENAMETOOLONG, st1)
         else let st2 = (if NUL \<in> set (st_path st1) then st1 else st1\<lparr>st_ub := True\<rparr>)
              in case env_stat (cx_env cx) (path_str st2) of
                   Inl rc \<Rightarrow> (rc, st2)
                 | Inr m \<Rightarrow> (if ok m then 0 else - EINVAL, st2))"

definition check_src_type_definition ::
  "('c, 'j) afmpkg_ctx \<Rightarrow> string option \<Rightarrow> ('c, 'j) afmpkg_state \<Rightarrow> int \<times> ('c, 'j) afmpkg_state" where
  "check_src_type_definition cx src st =
     (let t = the (st_files st);
          (rc, entry) = path_entry_get t (st_packdir st) src;
          (rc, entry) =
            (if rc < 0 then
               let (rc, entry) = path_entry_get t (st_packdir st) (Some ''htdocs'')
               in if rc \<ge> 0 then path_entry_get t (the entry) src else (rc, entry)
             else (rc, entry))
      in if rc < 0 then (- ENOENT, st) else check_disk_file cx (\<lambda>m. m = S_REG \<or> m = S_DIR) (the entry) st)"

definition check_target_content ::
  "('c, 'j) afmpkg_ctx \<Rightarrow> ('c, 'j) afmpkg_state \<Rightarrow> 'j \<Rightarrow> ('c, 'j) afmpkg_state" where
  "check_target_content cx st target =
     (let js = env_json (cx_env cx);
          (rc, st1) =
            (case j_get js target ''content'' of
               None \<Rightarrow> (- EINVAL, st)
             | Some content \<Rightarrow>
                 if j_type js content \<noteq> json_type_object then (- EINVAL, st)
                 else case (j_get js content ''src'', j_get js content ''type'') of
                        (Some src, Some ty) \<Rightarrow>
                          if j_type js src \<noteq> json_type_string \<or> j_type js ty \<noteq> json_type_string
                          then (- EINVAL, st)
                          else check_src_type_definition cx (j_string js src) st
                      | _ \<Rightarrow> (- EINVAL, st))
      in put_state_rc rc st1)"

definition check_config_file ::
  "('c, 'j) afmpkg_ctx \<Rightarrow> string option \<Rightarrow> ('c, 'j) afmpkg_state \<Rightarrow> int \<times> ('c, 'j) afmpkg_state" where
  "check_config_file cx src st =
     (let (rc, entry) = path_entry_get (the (st_files st)) (st_packdir st) src
      in if rc < 0 then (- ENOENT, st) else check_disk_file cx (\<lambda>m. m = S_REG) (the entry) st)"

definition check_one_target_config_cb ::
  "('c, 'j) afmpkg_ctx \<Rightarrow> ('c, 'j) afmpkg_state \<Rightarrow> 'j \<Rightarrow> ('c, 'j) afmpkg_state" where
  "check_one_target_config_cb cx st jso =
     (let js = env_json (cx_env cx);
          (rc, st1) = (if j_type js jso \<noteq> json_type_string then (- EINVAL, st)
                       else check_config_file cx (j_string js jso) st)
      in put_state_rc rc st1)"

definition check_target_config ::
  "('c, 'j) afmpkg_ctx \<Rightarrow> ('c, 'j) afmpkg_state \<Rightarrow> 'j \<Rightarrow> ('c, 'j) afmpkg_state" where
  "check_target_config cx st target =
     (let js = env_json (cx_env cx) in
      case j_get js target ''required-config'' of
        None \<Rightarrow> st
      | Some configs \<Rightarrow> foldl (check_one_target_config_cb cx) st (j_optarray js configs))"

definition check_target_cb ::
  "('c, 'j) afmpkg_ctx \<Rightarrow> ('c, 'j) afmpkg_state \<Rightarrow> 'j \<Rightarrow> ('c, 'j) afmpkg_state" where
  "check_target_cb cx st target = check_target_config cx (check_target_content cx st target) target"

definition check_contents :: "('c, 'j) afmpkg_ctx \<Rightarrow> ('c, 'j) afmpkg_state \<Rightarrow> int \<times> ('c, 'j) afmpkg_state" where
  "check_contents cx st = (let st1 = for_each_target cx (check_target_cb cx) st in (st_rc st1, st1))"

section \<open>Security types of files\<close>

definition reset_type_cb :: "('c, 'j) entry_cb" where
  "reset_type_cb st entry =
     (let (rc, st1) = set_entry_type st entry path_type_Unset in (0, put_state_rc rc st1))"

text \<open>The status of \<open>set_entry_type\<close> is ignored by the callbacks on the manifest.\<close>

definition compute_explicit_file_properties_cb ::
  "('c, 'j) afmpkg_ctx \<Rightarrow> ('c, 'j) afmpkg_state \<Rightarrow> 'j \<Rightarrow> ('c, 'j) afmpkg_state" where
  "compute_explicit_file_properties_cb cx st jso =
     (let js = env_json (cx_env cx);
          (rc, st1) =
            (case (j_get js jso ''name'', j_get js jso ''value'') of
               (Some nm, Some val) \<Rightarrow>
                 let (rc, entry) = path_entry_get (the (st_files st)) (st_packdir st) (j_string js nm)
                 in if rc < 0 then (- ENOENT, st)
                    else case j_string js val of
                           None \<Rightarrow> (0, st\<lparr>st_ub := True\<rparr>)
                         | Some strval \<Rightarrow>
                             let ty = path_type_of_property_key strval
                             in if ty = path_type_Unset then (- EINVAL, st)
                                else let prvtype = get_entry_type st (the entry)
                                     in if prvtype = path_type_Unset
                                        then (0, snd (set_entry_type st (the entry) ty))
                                        else if prvtype \<noteq> ty then (- EEXIST, st) else (0, st)
             | _ \<Rightarrow> (- EINVAL, st))
      in put_state_rc rc st1)"

definition set_named_entry ::
  "('c, 'j) afmpkg_ctx \<Rightarrow> string \<Rightarrow> path_type \<Rightarrow> ('c, 'j) afmpkg_state \<Rightarrow> 'j \<Rightarrow> ('c, 'j) afmpkg_state" where
  "set_named_entry cx key ty st jso =
     (let js = env_json (cx_env cx);
          (rc, st1) =
            (case j_get js jso key of
               None \<Rightarrow> (- EINVAL, st)
             | Some nm \<Rightarrow>
                 let (rc, entry) = path_entry_get (the (st_files st)) (st_packdir st) (j_string js nm)
                 in if rc < 0 then (- ENOENT, st) else (rc, snd (set_entry_type st (the entry) ty)))
      in put_state_rc rc st1)"

definition compute_implicit_plug_property_cb ::
  "('c, 'j) afmpkg_ctx \<Rightarrow> ('c, 'j) afmpkg_state \<Rightarrow> 'j \<Rightarrow> ('c, 'j) afmpkg_state" where
  "compute_implicit_plug_property_cb cx = set_named_entry cx ''name'' path_type_Plug"

definition compute_provided_binding_property_cb ::
  "('c, 'j) afmpkg_ctx \<Rightarrow> ('c, 'j) afmpkg_state \<Rightarrow> 'j \<Rightarrow> ('c, 'j) afmpkg_state" where
  "compute_provided_binding_property_cb cx = set_named_entry cx ''value'' path_type_Public_Lib"

definition compute_target_file_properties_cb ::
  "('c, 'j) afmpkg_ctx \<Rightarrow> ('c, 'j) afmpkg_state \<Rightarrow> 'j \<Rightarrow> ('c, 'j) afmpkg_state" where
  "compute_target_file_properties_cb cx st jso =
     (let js = env_json (cx_env cx) in
      case j_get js jso ''content'' of
        None \<Rightarrow> st
      | Some content \<Rightarrow>
          (case (j_get js content ''src'', j_get js content ''type'') of
             (Some src, Some ty) \<Rightarrow>
               let (rc, entry) = path_entry_get (the (st_files st)) (st_packdir st) (j_string js src)
               in if rc < 0 then put_state_rc (- ENOENT) st
                  else if get_entry_type st (the entry) = path_type_Unset
                  then case j_string js ty of
                         None \<Rightarrow> st\<lparr>st_ub := True\<rparr>
                       | Some mime \<Rightarrow>
                           if mime_type_is_executable mime then snd (set_entry_type st (the entry) path_type_Exec)
                           else st
                  else st
           | _ \<Rightarrow> st))"

definition default_type :: "bool \<Rightarrow> string \<Rightarrow> path_type \<Rightarrow> path_type" where
  "default_type isdir nm parent =
     (let ty = (if isdir then path_type_of_dirname nm else path_type_Unset);
          ty = (if ty = path_type_Unset then parent else ty)
      in if ty = path_type_Unset then path_type_Id else ty)"

definition compute_default_files_properties_cb ::
  "('c, 'j) afmpkg_ctx \<Rightarrow> ('c, 'j) entry_cb" where
  "compute_default_files_properties_cb cx st entry =
     (let (rc, st1) =
        (case env_stat (cx_env cx) (path_str st) of
           Inl rc \<Rightarrow> (rc, st)
         | Inr S_OTHER \<Rightarrow> (- EINVAL, st)
         | Inr m \<Rightarrow>
             if get_entry_type st entry \<noteq> path_type_Unset then (0, st)
             else set_entry_type st entry
                    (default_type (m = S_DIR) (name_at (the (st_files st)) entry)
                       (get_entry_type st (butlast entry))))
      in (rc, put_state_rc rc st1))"

definition compute_public_files_properties_cb :: "('c, 'j) entry_cb" where
  "compute_public_files_properties_cb st entry =
     (let curtype = get_entry_type st entry in
      (0, if entry = st_packdir st then st
          else if curtype = path_type_Plug then
            (if get_entry_type st (butlast entry) \<noteq> path_type_Public
             then snd (set_entry_type st (butlast entry) path_type_Plug) else st)
          else if curtype \<in> {path_type_Public, path_type_Public_Exec, path_type_Public_Lib}
          then snd (set_entry_type st (butlast entry) path_type_Public)
          else st))"

definition when_ok ::
  "(('c, 'j) afmpkg_state \<Rightarrow> ('c, 'j) afmpkg_state) \<Rightarrow> ('c, 'j) afmpkg_state \<Rightarrow> ('c, 'j) afmpkg_state" where
  "when_ok f st = (if st_rc st \<ge> 0 then f st else st)"

definition compute_files_properties ::
  "('c, 'j) afmpkg_ctx \<Rightarrow> ('c, 'j) afmpkg_state \<Rightarrow> int \<times> ('c, 'j) afmpkg_state" where
  "compute_files_properties cx st =
     (let (rc, st0) = set_entry_type st (st_packdir st) path_type_Id;
          st0 = st0\<lparr>st_rc := rc\<rparr>;
          st1 = when_ok (\<lambda>s. snd (for_each_content_entry PATH_ENTRY_FORALL_NO_PATH reset_type_cb s)) st0;
          st2 = when_ok (for_each_of_manifest cx ''plugs'' (compute_implicit_plug_property_cb cx)) st1;
          st3 = when_ok (for_each_of_manifest cx ''provided-binding'' (compute_provided_binding_property_cb cx)) st2;
          st4 = when_ok (for_each_of_manifest cx ''file-properties'' (compute_explicit_file_properties_cb cx)) st3;
          st5 = when_ok (for_each_target cx (compute_target_file_properties_cb cx)) st4;
          st6 = when_ok (\<lambda>s. snd (for_each_content_entry PATH_ENTRY_FORALL_BEFORE
                  (compute_default_files_properties_cb cx) s)) st5;
          st7 = when_ok (\<lambda>s. snd (for_each_entry (PATH_ENTRY_FORALL_AFTER OR PATH_ENTRY_FORALL_NO_PATH)
                  compute_public_files_properties_cb s)) st6
      in (st_rc st7, st7))"

definition setup_file_properties_cb :: "('c, 'j) afmpkg_ctx \<Rightarrow> ('c, 'j) entry_cb" where
  "setup_file_properties_cb cx st entry =
     (0, if get_entry_type st entry \<in> {path_type_Public_Exec, path_type_Exec}
         then put_state_rc (env_chmod (cx_env cx) (path_str st)) (st\<lparr>st_chmods := st_chmods st @ [path_str st]\<rparr>)
         else st)"

definition setup_files_properties ::
  "('c, 'j) afmpkg_ctx \<Rightarrow> ('c, 'j) afmpkg_state \<Rightarrow> int \<times> ('c, 'j) afmpkg_state" where
  "setup_files_properties cx st =
     (let (_, st1) = for_each_content_entry 0 (setup_file_properties_cb cx) st in (st_rc st1, st1))"

section \<open>Security items\<close>

definition setup_security_file_cb :: "('c, 'j) afmpkg_ctx \<Rightarrow> ('c, 'j) entry_cb" where
  "setup_security_file_cb cx st entry =
     (let ty = get_entry_type st entry;
          ty = (if ty = path_type_Unset then path_type_Conf else ty);
          (rc, c') = op_tagfile (cx_opers cx) (st_closure st) (path_str st) ty
      in (0, put_state_rc rc (st\<lparr>st_closure := c'\<rparr>)))"

definition permit ::
  "('c, 'j) afmpkg_ctx \<Rightarrow> ('c, 'j) afmpkg_state \<Rightarrow> string \<Rightarrow> int \<times> ('c, 'j) afmpkg_state" where
  "permit cx st perm =
     (let (rc, c') = op_setperm (cx_opers cx) (st_closure st) perm in (rc, st\<lparr>st_closure := c'\<rparr>))"

definition set_plug_cb ::
  "('c, 'j) afmpkg_ctx \<Rightarrow> ('c, 'j) afmpkg_state \<Rightarrow> pos \<Rightarrow> string option \<Rightarrow> string \<Rightarrow> ('c, 'j) afmpkg_state" where
  "set_plug_cb cx st entry impid impdir =
     (let (rc, c') = op_setplug (cx_opers cx) (st_closure st) (path_str st) impid impdir;
          st1 = st\<lparr>st_closure := c'\<rparr>
      in if rc < 0 \<and> st_rc st1 \<ge> 0 then st1\<lparr>st_rc := rc\<rparr> else st1)"

text \<open>
  The loop on the permissions of the set; its fuel is enough for a set of less than \<open>2 ^ 32\<close>
  items.
\<close>

definition permit_selected ::
  "('c, 'j) afmpkg_ctx \<Rightarrow> permset \<Rightarrow> ('c, 'j) afmpkg_state \<Rightarrow> int \<times> ('c, 'j) afmpkg_state" where
  "permit_selected cx ps st =
     (let it = permset_Select_Requested_And_Granted in
      case perm_loop (Suc (Suc (ps_count ps))) (permit cx) it (permset_select_first ps it) st of
        None \<Rightarrow> (0, st\<lparr>st_ub := True\<rparr>)
      | Some (rc, ps', st') \<Rightarrow> (rc, st'\<lparr>st_permset := Some ps'\<rparr>))"

definition setup_security ::
  "('c, 'j) afmpkg_ctx \<Rightarrow> ('c, 'j) afmpkg_state \<Rightarrow> int \<times> ('c, 'j) afmpkg_state" where
  "setup_security cx st =
     (let (_, st1) = for_each_entry PATH_ENTRY_FORALL_AFTER (setup_security_file_cb cx) st in
      if st_rc st1 < 0 then (st_rc st1, st1)
      else let (rc, st2) = permit_selected cx (the (st_permset st1)) st1 in
        if rc < 0 then (rc, st2)
        else let (rc, st3) = fold_until (permit cx) default_permissions st2 in
          if rc < 0 then (rc, st3)
          else let st4 = for_each_plug cx (set_plug_cb cx) st3 in (st_rc st4, st4))"

definition setdown_security_file_cb :: "('c, 'j) afmpkg_ctx \<Rightarrow> ('c, 'j) entry_cb" where
  "setdown_security_file_cb cx st entry =
     (let (rc, c') = op_tagfile (cx_opers cx) (st_closure st) (path_str st) path_type_Id
      in (rc, st\<lparr>st_closure := c'\<rparr>))"

definition setdown_security ::
  "('c, 'j) afmpkg_ctx \<Rightarrow> ('c, 'j) afmpkg_state \<Rightarrow> int \<times> ('c, 'j) afmpkg_state" where
  "setdown_security cx st =
     (let (_, st1) = for_each_entry 0 (setdown_security_file_cb cx) st
      in (0, for_each_plug cx (set_plug_cb cx) st1))"

section \<open>Metadata\<close>

text \<open>
  The targets are modified in place: the turn gives the target as it becomes.
\<close>

definition add_meta_to_target ::
  "('c, 'j) afmpkg_ctx \<Rightarrow> ('c, 'j) afmpkg_state \<Rightarrow> 'j \<Rightarrow> ('c, 'j) afmpkg_state \<times> 'j" where
  "add_meta_to_target cx st target =
     (let js = env_json (cx_env cx);
          (afid, port, st1) =
            (if cx_mode cx \<noteq> Afmpkg_Install then (0, 0, st)
             else let (afid, af') = get_new_afid (env_afid (cx_env cx)) (st_afid st)
                  in (afid, DEFAULT_TCP_PORT_BASE + afid, st\<lparr>st_afid := af'\<rparr>))
      in if afid < 0 then (st1\<lparr>st_rc := - EADDRNOTAVAIL\<rparr>, target)
         else case j_pack_target js afid port of
                None \<Rightarrow> (st1\<lparr>st_rc := - ENOMEM\<rparr>, target)
              | Some object \<Rightarrow> (st1, j_add js target ''#metatarget'' object))"

fun add_meta_to_targets ::
  "('c, 'j) afmpkg_ctx \<Rightarrow> ('c, 'j) afmpkg_state \<Rightarrow> 'j list \<Rightarrow> ('c, 'j) afmpkg_state \<times> 'j list" where
  "add_meta_to_targets cx st [] = (st, [])"
| "add_meta_to_targets cx st (t # ts) =
     (let (st1, t') = add_meta_to_target cx st t; (st2, ts') = add_meta_to_targets cx st1 ts
      in (st2, t' # ts'))"

text \<open>The search of the marker of a redpak in the directories from the package up to the root.\<close>

function strip_while :: "(char \<Rightarrow> bool) \<Rightarrow> nat \<Rightarrow> string \<Rightarrow> string" where
  "strip_while P low str =
     (if length str \<ge> low \<and> str \<noteq> [] \<and> P (last str) then strip_while P low (butlast str) else str)"
  by pat_completeness auto
termination
  by (relation "measure (\<lambda>(P, low, str). length str)") auto

declare strip_while.simps [simp del]

lemma strip_while_length: "length (strip_while P low str) \<le> length str"
proof (induction P low str rule: strip_while.induct)
  case (1 P low str)
  then show ?case
    unfolding strip_while.simps [of P low str] by (auto intro: order_trans)
qed

lemma strip_while_shorter:
  "low \<le> length str \<Longrightarrow> str \<noteq> [] \<Longrightarrow> P (last str) \<Longrightarrow> length (strip_while P low str) < length str"
  unfolding strip_while.simps [of P low str]
  using strip_while_length [of P low "butlast str"] by (cases str) auto

lemma strip_while_last:
  "low \<le> length (strip_while P low str) \<Longrightarrow> strip_while P low str \<noteq> [] \<Longrightarrow> \<not> P (last (strip_while P low str))"
proof (induction P low str rule: strip_while.induct)
  case (1 P low str)
  from 1(2,3) show ?case
    unfolding strip_while.simps [of P low str] using 1(1) by (auto split: if_splits)
qed

definition add_slash :: "string \<Rightarrow> string" where
  "add_slash str = (if str \<noteq> [] \<and> last str \<noteq> slash then str @ [slash] else str)"

definition parent_prefix :: "nat \<Rightarrow> string \<Rightarrow> string" where
  "parent_prefix low str = strip_while (\<lambda>c. c = slash) low (add_slash str)"

lemma parent_prefix_length:
  assumes "low \<le> length str" shows "length (parent_prefix low str) \<le> length str"
proof (cases "str \<noteq> [] \<and> last str \<noteq> slash")
  case True
  then have "length (strip_while (\<lambda>c. c = slash) low (str @ [slash])) < length (str @ [slash])"
    using assms by (intro strip_while_shorter) auto
  with True show ?thesis by (simp add: parent_prefix_def add_slash_def)
next
  case False
  then show ?thesis
    using strip_while_length by (auto simp: parent_prefix_def add_slash_def)
qed

function redpak_search ::
  "(string \<Rightarrow> int + stat_mode) \<Rightarrow> nat \<Rightarrow> string \<Rightarrow> string \<Rightarrow> bool \<times> string option" where
  "redpak_search stat low marker str =
     (if length str < low then (False, None)
      else let str1 = add_slash str;
               ub = (length str1 + length marker + 1 > PATH_MAX)
           in if stat (str1 @ marker) = Inr S_REG then (ub, Some (butlast str1))
              else let str2 = parent_prefix low str
                   in if length str2 \<le> low then (ub, None)
                      else let (ub', r) = redpak_search stat low marker (strip_while (\<lambda>c. c \<noteq> slash) low str2)
                           in (ub \<or> ub', r))"
  by pat_completeness auto
termination
proof (relation "measure (\<lambda>(stat, low, marker, str). length str)", goal_cases)
  case (2 stat low marker str str1 ub str2)
  have "low \<le> length str" using 2(1) by simp
  have "str2 \<noteq> []" "low \<le> length str2" using 2(6) by auto
  moreover from this have "last str2 \<noteq> slash"
    using strip_while_last [of low "\<lambda>c. c = slash" "add_slash str"] 2(5) by (auto simp: parent_prefix_def)
  ultimately have "length (strip_while (\<lambda>c. c \<noteq> slash) low str2) < length str2"
    by (intro strip_while_shorter)
  with parent_prefix_length [OF \<open>low \<le> length str\<close>] 2(5) show ?case by simp
qed simp

declare redpak_search.simps [simp del]

definition get_redpakid ::
  "('c, 'j) afmpkg_ctx \<Rightarrow> ('c, 'j) afmpkg_state \<Rightarrow> bool \<times> string option" where
  "get_redpakid cx st =
     (case pk_redpakid (cx_apkg cx) of
        Some i \<Rightarrow> (False, Some i)
      | None \<Rightarrow>
          (case pk_redpak_auto (cx_apkg cx) of
             None \<Rightarrow> (False, None)
           | Some marker \<Rightarrow> redpak_search (env_stat (cx_env cx)) (cx_offset_root cx) marker (path_str st)))"

definition install_dir_path :: "('c, 'j) afmpkg_ctx \<Rightarrow> ('c, 'j) afmpkg_state \<Rightarrow> ('c, 'j) afmpkg_state" where
  "install_dir_path cx st =
     (let root = cx_offset_root cx; pack = st_offset_pack st
      in if root \<noteq> pack then st\<lparr>st_path := (st_path st)[pack := NUL]\<rparr>
         else st\<lparr>st_path := (st_path st)[root := slash, root + 1 := NUL],
                 st_ub := st_ub st \<or> root + 1 \<ge> PATH_MAX\<rparr>)"

definition meta_targets ::
  "('c, 'j) afmpkg_ctx \<Rightarrow> 'j \<Rightarrow> ('c, 'j) afmpkg_state \<Rightarrow> ('c, 'j) afmpkg_state \<times> 'j" where
  "meta_targets cx manifest st =
     (let js = env_json (cx_env cx) in
      case j_get js manifest ''targets'' of
        None \<Rightarrow> (st, manifest)
      | Some item \<Rightarrow>
          (let (st', ts) = add_meta_to_targets cx st (j_array js item)
           in (st', j_put_array js manifest ''targets'' ts)))"

definition meta_root :: "('c, 'j) afmpkg_ctx \<Rightarrow> string option \<Rightarrow> string" where
  "meta_root cx redpakid =
     (if redpakid \<noteq> None \<and> pk_redpak_auto (cx_apkg cx) \<noteq> None then the redpakid
      else case pk_root (cx_apkg cx) of None \<Rightarrow> [] | Some r \<Rightarrow> r)"

definition add_meta_to_manifest ::
  "('c, 'j) afmpkg_ctx \<Rightarrow> ('c, 'j) afmpkg_state \<Rightarrow> int \<times> ('c, 'j) afmpkg_state" where
  "add_meta_to_manifest cx st0 =
     (let js = env_json (cx_env cx);
          st1 = install_dir_path cx st0;
          (ub, redpakid) = get_redpakid cx st1;
          root = meta_root cx redpakid;
          st2 = st1\<lparr>st_ub := st_ub st1 \<or> ub \<or> length root > length (path_str st1)\<rparr>
      in case j_pack_meta js (drop (length root) (path_str st2)) (FWK_ICON_DIR (cx_env cx))
                (redpakid \<noteq> None) redpakid root of
           None \<Rightarrow> (- ENOMEM, st2)
         | Some object \<Rightarrow>
             let (st3, manifest) = meta_targets cx (j_add js (the (st_manifest st2)) ''#metadata'' object) (st2\<lparr>st_rc := 0\<rparr>);
                 st4 = st3\<lparr>st_manifest := Some manifest\<rparr>
             in if st_rc st4 < 0 then (st_rc st4, st4) else (st_rc st2, st4\<lparr>st_rc := st_rc st2\<rparr>))"

section \<open>Processing of packages\<close>

definition process_units ::
  "('c, 'j) afmpkg_ctx \<Rightarrow> ('c, 'j) afmpkg_state \<Rightarrow> int \<times> ('c, 'j) afmpkg_state" where
  "process_units cx st =
     (let (rc, (c', m'), tpl) = unit_process_split (env_units (cx_env cx)) (the (st_manifest st))
            (Some (op_setunits (cx_opers cx))) (st_closure st, st_mem st) (st_template st)
      in (rc, st\<lparr>st_closure := c', st_mem := m', st_template := tpl\<rparr>))"

text \<open>A sequence of steps that stops at the first negative status.\<close>

definition and_then ::
  "(int \<times> 's) \<Rightarrow> ('s \<Rightarrow> int \<times> 's) \<Rightarrow> int \<times> 's" where
  "and_then r f = (if fst r < 0 then r else f (snd r))"

definition create_permset :: "('c, 'j) afmpkg_state \<Rightarrow> int \<times> ('c, 'j) afmpkg_state" where
  "create_permset st =
     (let (rc, ps, m') = permset_create (st_mem st) in (rc, st\<lparr>st_permset := ps, st_mem := m'\<rparr>))"

definition install_afmpkg ::
  "('c, 'j) afmpkg_ctx \<Rightarrow> ('c, 'j) afmpkg_state \<Rightarrow> int \<times> ('c, 'j) afmpkg_state" where
  "install_afmpkg cx st =
     and_then (and_then (and_then (and_then (and_then (and_then
       (create_permset st)
       (check_permissions cx))
       (check_contents cx))
       (compute_files_properties cx))
       (setup_files_properties cx))
       (setup_security cx))
       (process_units cx)"

definition uninstall_afmpkg ::
  "('c, 'j) afmpkg_ctx \<Rightarrow> ('c, 'j) afmpkg_state \<Rightarrow> int \<times> ('c, 'j) afmpkg_state" where
  "uninstall_afmpkg cx st = and_then (process_units cx st) (setdown_security cx)"

text \<open>\<open>strncpy\<close> fills the end of the buffer with NULs, and puts none when there is no room.\<close>

definition get_manifest ::
  "('c, 'j) afmpkg_ctx \<Rightarrow> string \<Rightarrow> ('c, 'j) afmpkg_state \<Rightarrow> int \<times> ('c, 'j) afmpkg_state" where
  "get_manifest cx manif st =
     (let off = st_offset_pack st;
          n = PATH_MAX - 1 - off;
          st1 = st\<lparr>st_path := take off (st_path st) @ [slash] @ take n (manif @ replicate n NUL)\<rparr>;
          st2 = (if NUL \<in> set (st_path st1) then st1 else st1\<lparr>st_ub := True\<rparr>);
          (rc, m) = (if manif = name_manifest then env_manifest (cx_env cx) (path_str st2)
                     else env_config (cx_env cx) (path_str st2))
      in (rc, st2\<lparr>st_manifest := m\<rparr>))"

text \<open>What is done inside of the session, and the session.\<close>

definition package_body ::
  "('c, 'j) afmpkg_ctx \<Rightarrow> int \<Rightarrow> ('c, 'j) afmpkg_state \<Rightarrow> int \<times> ('c, 'j) afmpkg_state" where
  "package_body cx rc st =
     (if rc \<ge> 0 then if cx_mode cx = Afmpkg_Install then install_afmpkg cx st else uninstall_afmpkg cx st
      else (rc, st))"

definition package_session ::
  "('c, 'j) afmpkg_ctx \<Rightarrow> ('c, 'j) afmpkg_state \<Rightarrow> int \<times> ('c, 'j) afmpkg_state" where
  "package_session cx st =
     (let js = env_json (cx_env cx);
          appid = Option.bind (j_get js (the (st_manifest st)) ''id'') (j_string js);
          (rc, c1) = op_begin (cx_opers cx) (st_closure st) appid (cx_mode cx);
          (rc, st1) = package_body cx rc (st\<lparr>st_appid := appid, st_closure := c1\<rparr>);
          (rc2, c2) = op_end (cx_opers cx) (st_closure st1) rc
      in (if rc2 < 0 then rc2 else rc, st1\<lparr>st_closure := c2\<rparr>))"

definition process_package ::
  "('c, 'j) afmpkg_ctx \<Rightarrow> string \<Rightarrow> ('c, 'j) afmpkg_state \<Rightarrow> int \<times> ('c, 'j) afmpkg_state" where
  "process_package cx manif st =
     (let (rc, st1) = get_manifest cx manif st in
      if rc < 0 then (rc, st1)
      else
        let (rc, st2) = add_meta_to_manifest cx st1;
            (rc, st3) = (if rc < 0 then (rc, st2) else package_session cx st2)
        in (rc, st3\<lparr>st_manifest := None, st_appid := None\<rparr>))"

section \<open>Remaining files\<close>

definition process_default_tree_add_cb :: "('c, 'j) afmpkg_ctx \<Rightarrow> ('c, 'j) entry_cb" where
  "process_default_tree_add_cb cx st entry =
     (let (rc, c') = op_tagfile (cx_opers cx) (st_closure st) (path_str st) path_type_Default
      in (rc, st\<lparr>st_closure := c'\<rparr>))"

definition process_default_tree_detect_cb :: "('c, 'j) entry_cb" where
  "process_default_tree_detect_cb st entry = (1, st)"

definition default_tree_body ::
  "('c, 'j) afmpkg_ctx \<Rightarrow> files \<Rightarrow> int \<Rightarrow> ('c, 'j) afmpkg_state \<Rightarrow> int \<times> ('c, 'j) afmpkg_state" where
  "default_tree_body cx t rc st =
     (if rc \<ge> 0
      then walk_from (PATH_ENTRY_FORALL_ONLY_ADDED OR PATH_ENTRY_FORALL_BEFORE)
             t [] (cx_offset_root cx) (process_default_tree_add_cb cx) st
      else (rc, st))"

definition default_tree_detect ::
  "('c, 'j) afmpkg_state \<Rightarrow> int \<times> ('c, 'j) afmpkg_state" where
  "default_tree_detect st =
     walk_from (PATH_ENTRY_FORALL_ONLY_ADDED OR PATH_ENTRY_FORALL_NO_PATH OR PATH_ENTRY_FORALL_BEFORE)
       (the (st_files st)) [] 0 process_default_tree_detect_cb st"

definition process_default_tree ::
  "('c, 'j) afmpkg_ctx \<Rightarrow> ('c, 'j) afmpkg_state \<Rightarrow> int \<times> ('c, 'j) afmpkg_state" where
  "process_default_tree cx st =
     (if cx_mode cx \<noteq> Afmpkg_Install then (0, st)
      else
        let (rc, st1) = default_tree_detect st
        in if rc \<le> 0 then (rc, st1)
           else
             let (rc, c1) = op_begin (cx_opers cx) (st_closure st1) None (cx_mode cx);
                 (rc, st2) = default_tree_body cx (the (st_files st)) rc (st1\<lparr>st_closure := c1\<rparr>);
                 (rc, c2) = op_end (cx_opers cx) (st_closure st2) rc
             in (rc, st2\<lparr>st_closure := c2\<rparr>))"

section \<open>Roots of packages\<close>

record rootpkgs =
  rp_alloc :: nat
  rp_roots :: "(pos \<times> string) list"

definition rootpkgs_init :: rootpkgs where
  "rootpkgs_init = \<lparr>rp_alloc = 10, rp_roots = []\<rparr>"

definition rootpkgs_add :: "rootpkgs \<Rightarrow> mem \<Rightarrow> pos \<Rightarrow> string \<Rightarrow> int \<times> rootpkgs \<times> mem" where
  "rootpkgs_add roots m entry ty =
     (let full = (length (rp_roots roots) = rp_alloc roots);
          (ok, m') = (if full then c_alloc m else (True, m))
      in if \<not> ok then (- ENOMEM, roots, m')
         else (0, roots\<lparr>rp_alloc := if full then 2 * rp_alloc roots else rp_alloc roots,
                        rp_roots := rp_roots roots @ [(entry, ty)]\<rparr>, m'))"

definition package_type :: "files \<Rightarrow> pos \<Rightarrow> string option" where
  "package_type t entry =
     (if \<not> (case entry_at entry t of None \<Rightarrow> False | Some e \<Rightarrow> path_entry_has_child e) then None
      else if fst (path_entry_get_length t entry name_manifest (length name_manifest)) = 0 then Some name_manifest
      else if fst (path_entry_get_length t entry name_config (length name_config)) = 0 then Some name_config
      else None)"

definition detect_package_roots_cb :: "files \<Rightarrow> (rootpkgs \<times> mem) foreach_cb" where
  "detect_package_roots_cb t s entry path =
     (case package_type t entry of
        None \<Rightarrow> (0, s)
      | Some pkg \<Rightarrow> (let (rc, r', m') = rootpkgs_add (fst s) (snd s) entry pkg in (rc, (r', m'))))"

definition process_rootpkg ::
  "('c, 'j) afmpkg_ctx \<Rightarrow> ('c, 'j) afmpkg_state \<Rightarrow> pos \<times> string \<Rightarrow> int \<times> ('c, 'j) afmpkg_state" where
  "process_rootpkg cx st root =
     (let (entry, ty) = root;
          off = cx_offset_root cx;
          st1 = st\<lparr>st_rc := 0, st_permset := None, st_manifest := None, st_appid := None, st_packdir := entry\<rparr>;
          st2 =
            (case path_entry_path (the (st_files st1)) (Some entry) (drop off (st_path st1))
                    PATH_ENTRY_FORCE_LEADING_SLASH of
               None \<Rightarrow> st1\<lparr>st_ub := True\<rparr>
             | Some (len, buf) \<Rightarrow>
                 st1\<lparr>st_offset_pack := off + len, st_path := (take off (st_path st1) @ buf)[off + len := NUL],
                     st_ub := st_ub st1 \<or> off + len \<ge> PATH_MAX\<rparr>);
          (rc, st3) = process_package cx ty st2
      in (rc, st3\<lparr>st_files := path_entry_destroy (the (st_files st3)) (st_packdir st3)\<rparr>))"

definition rootpkgs_for_each ::
  "rootpkgs \<Rightarrow> ('s \<Rightarrow> pos \<times> string \<Rightarrow> int \<times> 's) \<Rightarrow> 's \<Rightarrow> int \<times> 's" where
  "rootpkgs_for_each roots callback s = fold_nonzero callback (rp_roots roots) s"

definition detect_package_roots :: "files option \<Rightarrow> mem \<Rightarrow> int \<times> rootpkgs \<times> mem" where
  "detect_package_roots files m =
     (case files of
        None \<Rightarrow> (0, rootpkgs_init, m)
      | Some t \<Rightarrow>
          (case path_entry_for_each_in_buffer (PATH_ENTRY_FORALL_NO_PATH OR PATH_ENTRY_FORALL_AFTER) t (Some [])
                  (detect_package_roots_cb t) [] (rootpkgs_init, m) of
             None \<Rightarrow> (0, rootpkgs_init, m) | Some r \<Rightarrow> r))"

text \<open>The slashes at the end of the root directory are removed.\<close>

definition root_prefix :: "string option \<Rightarrow> string" where
  "root_prefix root = (case root of None \<Rightarrow> [] | Some r \<Rightarrow> strip_while (\<lambda>c. c = slash) 0 r)"

definition afmpkg_process ::
  "'j afmpkg_env \<Rightarrow> afmpkg \<Rightarrow> 'c afmpkg_operations \<Rightarrow> afmpkg_mode \<Rightarrow> ('c, 'j) afmpkg_state \<Rightarrow>
   int \<times> ('c, 'j) afmpkg_state" where
  "afmpkg_process env apkg opers mode st =
     (if (case pk_root apkg of None \<Rightarrow> False | Some r \<Rightarrow> length r \<ge> PATH_MAX) then (- ENAMETOOLONG, st)
      else
        let root = root_prefix (pk_root apkg);
            cx = \<lparr>cx_apkg = apkg, cx_opers = opers, cx_mode = mode, cx_env = env, cx_offset_root = length root\<rparr>;
            (rc, roots, m') = detect_package_roots (pk_files apkg) (st_mem st);
            st1 = st\<lparr>st_files := pk_files apkg, st_path := root @ replicate (PATH_MAX - length root) NUL, st_mem := m'\<rparr>;
            (rc, st2) = (if rc \<ge> 0 then rootpkgs_for_each roots (process_rootpkg cx) st1 else (rc, st1))
        in if rc \<ge> 0 \<and> st_files st2 \<noteq> None then process_default_tree cx st2 else (rc, st2))"

definition afmpkg_install ::
  "'j afmpkg_env \<Rightarrow> afmpkg \<Rightarrow> 'c afmpkg_operations \<Rightarrow> ('c, 'j) afmpkg_state \<Rightarrow> int \<times> ('c, 'j) afmpkg_state" where
  "afmpkg_install env apkg opers st = afmpkg_process env apkg opers Afmpkg_Install st"

definition afmpkg_uninstall ::
  "'j afmpkg_env \<Rightarrow> afmpkg \<Rightarrow> 'c afmpkg_operations \<Rightarrow> ('c, 'j) afmpkg_state \<Rightarrow> int \<times> ('c, 'j) afmpkg_state" where
  "afmpkg_uninstall env apkg opers st = afmpkg_process env apkg opers Afmpkg_Uninstall st"

end
