(* ===== verification/AfmpkgSession.thy ===== *)
theory AfmpkgSession
  imports Afmpkg
begin

text \<open>
  The protocol between \<^verbatim>\<open>afmpkg.c\<close> and the operations of its caller: every call of an
  operation is made inside of a session opened by \<open>begin\<close>, every session is closed by \<open>end\<close>, a
  session is closed with a failure as soon as one of its steps has failed.

  The locale states what a provider of the operations promises; the lemmas of the locale
  follow the processing of a package step by step.
\<close>

section \<open>Invariants of iterations\<close>

text \<open>The three calls of a visit: before, below and after.\<close>

lemma visit_invariant:
  assumes "I s" "\<And>s. I s \<Longrightarrow> I (snd (fn s p x))" "\<And>s. I s \<Longrightarrow> I (snd (do_children fn sz fl x p cs s))"
  shows "I (snd (if long then (err, s) else
            case if b then fn s p x else (0, s) of (rc, s1) \<Rightarrow>
            case if rc = 0 then do_children fn sz fl x p cs s1 else (rc, s1) of (rc, s2) \<Rightarrow>
              if b' \<and> rc = (0 :: int) \<and> b'' then fn s2 p x else (rc, s2)))"
proof -
  obtain rc1 s1 where one: "(if b then fn s p x else (0, s)) = (rc1, s1)" by fastforce
  obtain rc2 s2 where two: "(if rc1 = 0 then do_children fn sz fl x p cs s1 else (rc1, s1)) = (rc2, s2)" by fastforce
  have "I s1" using one assms(1) assms(2) [of s] by (auto split: if_splits)
  then have "I s2" using two assms(3) [of s1] by (auto split: if_splits)
  then show ?thesis using assms(1) assms(2) [of s2] by (simp add: one two)
qed

lemma do_children_invariant:
  assumes "\<And>c pos s. c \<in> set cs \<Longrightarrow> I s \<Longrightarrow> I (snd (do_foreach fn sz flags path pos c s))" and "I s"
  shows "I (snd (do_children fn sz flags path pos cs s))"
  using assms
proof (induction cs arbitrary: s)
  case (Cons c cs)
  obtain rc s1 where one: "do_foreach fn sz flags path (pos @ [pe_name c]) c s = (rc, s1)" by fastforce
  have "I s1" using Cons.prems(1) [of c s "pos @ [pe_name c]"] Cons.prems(2) one by simp
  then have "I (snd (do_children fn sz flags path pos cs s1))"
    by (intro Cons.IH Cons.prems(1)) simp_all
  with \<open>I s1\<close> show ?case by (simp add: one)
qed simp

lemma do_foreach_invariant:
  assumes "\<And>s p x. I s \<Longrightarrow> I (snd (fn s p x))" and "I s"
  shows "I (snd (do_foreach fn sz flags path pos e s))"
  using assms(2)
proof (induction e arbitrary: flags path pos s)
  case (Entry nm fl vs cs)
  have ch: "I (snd (do_children fn sz fl' p' pos cs s'))" if "I s'" for fl' p' s'
    by (rule do_children_invariant [where I = I, OF Entry.IH that])
  show ?case
    unfolding do_foreach.simps Let_def
    by (rule visit_invariant [where I = I, OF Entry.prems]) (erule assms(1), erule ch)
qed

lemma for_each_cases:
  fixes t :: "('k, 'v) path_entry"
  assumes "path_entry_for_each_in_buffer flags t (Some p) fn buf s = Some r"
  obtains sz fl pth and e :: "('k, 'v) path_entry" where "r = do_foreach fn sz fl pth p e s"
  using assms unfolding path_entry_for_each_in_buffer_def Let_def option.case
  by (auto split: option.split_asm)

lemma walk_from_invariant:
  assumes "\<And>s p. I s \<Longrightarrow> I (snd (fn s p))" "\<And>s f. I (st_path_update f s) = I s" "\<And>s f. I (st_ub_update f s) = I s"
    and "I st"
  shows "I (snd (walk_from flags t p ofs fn st))"
proof -
  let ?fn = "\<lambda>s q path. fn (if has_flag flags PATH_ENTRY_FORALL_NO_PATH then s
      else s\<lparr>st_path := buf_write (st_path s) ofs (path @ [NUL])\<rparr>) q"
  show ?thesis
  proof (cases "path_entry_for_each_in_buffer flags t (Some p) ?fn (replicate (PATH_MAX - ofs) NUL) st")
    case None
    then show ?thesis by (simp add: walk_from_def assms(3,4))
  next
    case (Some r)
    then obtain sz fl pth and e :: files where "r = do_foreach ?fn sz fl pth p e st"
      by (rule for_each_cases)
    moreover have "I (snd (do_foreach ?fn sz fl pth p e st))"
      by (rule do_foreach_invariant [where I = I, OF assms(1) assms(4)]) (simp add: assms(2))
    ultimately show ?thesis using Some by (simp add: walk_from_def)
  qed
qed

lemma foldl_invariant: "(\<And>s x. I s \<Longrightarrow> I (f s x)) \<Longrightarrow> I s \<Longrightarrow> I (foldl f s xs)"
  by (induction xs arbitrary: s) simp_all

lemma fold_until_invariant:
  assumes "\<And>s x. I s \<Longrightarrow> I (snd (f s x))" shows "I s \<Longrightarrow> I (snd (fold_until f xs s))"
proof (induction xs arbitrary: s)
  case (Cons x xs)
  obtain rc s1 where one: "f s x = (rc, s1)" by fastforce
  then have "I s1" using assms [of s x] Cons.prems by simp
  with Cons.IH [of s1] show ?case by (simp add: one)
qed simp

lemma perm_loop_invariant:
  assumes inv: "\<And>s x. I s \<Longrightarrow> I (snd (f s x))"
  shows "perm_loop n f it cur s = Some (rc, ps, s') \<Longrightarrow> I s \<Longrightarrow> I s'"
proof (induction n arbitrary: cur s)
  case (Suc n)
  obtain sel ps0 where cur: "cur = (sel, ps0)" by fastforce
  show ?case
  proof (cases "sel")
    case True
    then obtain nm where nm: "permset_current ps0 = Some nm"
      using Suc.prems(1) cur by (auto split: option.splits)
    obtain rc1 s1 where one: "f s nm = (rc1, s1)" by fastforce
    have "I s1" using inv [of s nm] Suc.prems(2) one by simp
    then show ?thesis
      using Suc.prems(1) Suc.IH [of _ s1] True cur nm one by (auto split: if_splits)
  qed (use Suc.prems cur in auto)
qed simp

lemma unit_process_split_invariant:
  assumes "\<And>s us. I s \<Longrightarrow> I (snd (f s us))" and "I s"
  shows "I (fst (fst (snd (unit_process_split us j (Some f) (s, m) tpl))))"
proof -
  have "I (fst (snd (internal_for_split (Some f) (s, m) x)))" for x
    using assms by (simp add: internal_for_split_def Let_def case_prod_unfold)
  then show ?thesis
    using assms(2) by (simp add: unit_process_split_def unit_process_raw_def Let_def case_prod_unfold)
qed

section \<open>Steps that leave parts of the state alone\<close>

text \<open>
  A view of the state that does not look at the buffer of paths, the status, the files, the memory and the recorded
  changes of modes: the steps before the security items keep it.
\<close>

locale state_view =
  fixes view :: "('c, 'j) afmpkg_state \<Rightarrow> 'v"
  assumes view_updates [simp]: "view (st_path_update f st) = view st" "view (st_ub_update u st) = view st"
      "view (st_rc_update r st) = view st" "view (st_files_update fs st) = view st" "view (st_mem_update m st) = view st"
      "view (st_chmods_update cs st) = view st"
begin

lemma put_state_rc_view [simp]: "view (put_state_rc rc st) = view st"
  by (simp add: put_state_rc_def)

lemma set_entry_type_view [simp]: "view (snd (set_entry_type st p ty)) = view st"
  by (simp add: set_entry_type_def split: option.split prod.split)

lemma entry_disk_path_view [simp]: "view (snd (entry_disk_path st e)) = view st"
  by (simp add: entry_disk_path_def Let_def split: option.split prod.split)

lemma check_disk_file_view [simp]: "view (snd (check_disk_file cx ok e st)) = view st"
  using entry_disk_path_view [of st e]
  by (cases "entry_disk_path st e") (simp add: check_disk_file_def Let_def split: sum.split)

lemma check_src_type_definition_view [simp]:
  "view (snd (check_src_type_definition cx src st)) = view st"
  by (simp add: check_src_type_definition_def Let_def split: prod.split)

lemma check_config_file_view [simp]: "view (snd (check_config_file cx src st)) = view st"
  by (simp add: check_config_file_def split: prod.split)

lemma case_pair_view: "view (case r of (rc, st1) \<Rightarrow> put_state_rc rc st1) = view (snd r)"
  by (cases r) simp

lemma check_target_content_view [simp]: "view (check_target_content cx st t) = view st"
  by (simp add: check_target_content_def Let_def case_pair_view split: option.split)

lemma check_one_target_config_cb_view [simp]: "view (check_one_target_config_cb cx st t) = view st"
  by (simp add: check_one_target_config_cb_def Let_def case_pair_view)

lemma foldl_view: "(\<And>s x. view (f s x) = view s) \<Longrightarrow> view (foldl f st xs) = view st"
  by (induction xs arbitrary: st) simp_all

lemma check_target_cb_view [simp]: "view (check_target_cb cx st t) = view st"
  by (simp add: check_target_cb_def check_target_config_def Let_def foldl_view split: option.split)

lemma for_each_of_array_view:
  "(\<And>s x. view (f s x) = view s) \<Longrightarrow> view (for_each_of_array js obj key f st) = view st"
  by (simp add: for_each_of_array_def foldl_view split: option.split)

lemma check_contents_view [simp]: "view (snd (check_contents cx st)) = view st"
  by (simp add: check_contents_def Let_def for_each_target_def for_each_of_manifest_def for_each_of_array_view)

lemma walk_from_view:
  assumes "\<And>s p. view (snd (fn s p)) = view s"
  shows "view (snd (walk_from flags t p ofs fn st)) = view st"
  by (rule walk_from_invariant [where I = "\<lambda>s. view s = view st"]) (simp_all add: assms)

lemma for_each_entry_view:
  assumes "\<And>s p. view (snd (fn s p)) = view s"
  shows "view (snd (for_each_entry flags fn st)) = view st"
    "view (snd (for_each_content_entry flags fn st)) = view st"
  by (simp_all add: for_each_content_entry_def for_each_entry_def Let_def walk_from_view [OF assms])

lemma entry_cbs_view [simp]:
  "view (snd (reset_type_cb st p)) = view st"
  "view (snd (compute_public_files_properties_cb st p)) = view st"
  "view (snd (setup_file_properties_cb cx st p)) = view st"
  using set_entry_type_view [of st p path_type_Unset]
  by (simp_all add: reset_type_cb_def compute_public_files_properties_cb_def setup_file_properties_cb_def Let_def
      case_prod_unfold)

lemma default_cb_view [simp]: "view (snd (compute_default_files_properties_cb cx st p)) = view st"
  unfolding compute_default_files_properties_cb_def Let_def case_prod_unfold snd_conv
  by (simp split: sum.split stat_mode.split)

lemma manifest_cbs_view [simp]:
  "view (set_named_entry cx k ty st j) = view st"
  "view (compute_explicit_file_properties_cb cx st j) = view st"
  "view (compute_target_file_properties_cb cx st j) = view st"
  by (simp_all add: set_named_entry_def compute_explicit_file_properties_cb_def
      compute_target_file_properties_cb_def Let_def case_prod_unfold split: option.split)

lemma when_ok_view: "(\<And>s. view (f s) = view s) \<Longrightarrow> view (when_ok f st) = view st"
  by (simp add: when_ok_def)

lemma compute_files_properties_view [simp]:
  "view (snd (compute_files_properties cx st)) = view st"
  unfolding compute_files_properties_def Let_def case_prod_unfold snd_conv
  by (simp add: when_ok_view for_each_entry_view for_each_target_def for_each_of_manifest_def
      for_each_of_array_view compute_implicit_plug_property_cb_def compute_provided_binding_property_cb_def)

lemma setup_files_properties_view [simp]: "view (snd (setup_files_properties cx st)) = view st"
  by (simp add: setup_files_properties_def case_prod_unfold Let_def for_each_entry_view)

end

interpretation closure: state_view st_closure
  by unfold_locales simp_all

interpretation permset: state_view st_permset
  by unfold_locales simp_all

interpretation manifest: state_view st_manifest
  by unfold_locales simp_all

lemma foldl_closure: "(\<And>s x. st_closure (f s x) = st_closure s) \<Longrightarrow> st_closure (foldl f st xs) = st_closure st"
  by (induction xs arbitrary: st) simp_all

lemma for_each_of_object_closure:
  "(\<And>s x k. st_closure (f s x k) = st_closure s) \<Longrightarrow> st_closure (for_each_of_object js obj key f st) = st_closure st"
  unfolding for_each_of_object_def by (auto intro!: foldl_closure split: option.split)

lemma check_one_permission_cb_closure [simp]: "st_closure (check_one_permission_cb cx st j k) = st_closure st"
  by (simp add: check_one_permission_cb_def Let_def split: prod.split option.split)

lemma check_permissions_closure [simp]: "st_closure (snd (check_permissions cx st)) = st_closure st"
  by (simp add: check_permissions_def Let_def for_each_target_def for_each_of_manifest_def
      check_permissions_cb_def closure.for_each_of_array_view for_each_of_object_closure)

lemma create_permset_closure [simp]: "st_closure (snd (create_permset st)) = st_closure st"
  by (simp add: create_permset_def case_prod_unfold Let_def)

lemma get_manifest_closure [simp]: "st_closure (snd (get_manifest cx m st)) = st_closure st"
  by (simp add: get_manifest_def Let_def case_prod_unfold)

lemma add_meta_to_targets_closure [simp]: "st_closure (fst (add_meta_to_targets cx st ts)) = st_closure st"
  by (induction ts arbitrary: st)
    (simp_all add: add_meta_to_target_def Let_def case_prod_unfold split: option.split)

lemma install_dir_path_closure [simp]: "st_closure (install_dir_path cx st) = st_closure st"
  by (simp add: install_dir_path_def Let_def)

lemma meta_targets_closure [simp]: "st_closure (fst (meta_targets cx m st)) = st_closure st"
  by (simp add: meta_targets_def Let_def case_prod_unfold split: option.split)

lemma add_meta_to_manifest_closure [simp]: "st_closure (snd (add_meta_to_manifest cx st)) = st_closure st"
proof -
  have "st_closure s' = st_closure s" if "meta_targets cx m s = (s', j)" for m s s' j
    using meta_targets_closure [of cx m s] that by simp
  then show ?thesis
    by (auto simp: add_meta_to_manifest_def Let_def split: option.split prod.split)
qed

section \<open>The contract of the operations\<close>

text \<open>
  A closure is idle when no session is open and active inside of a session; \<open>committed\<close> is
  what the finished sessions have made effective. A session that ends with a status other
  than 0, or whose end fails, commits nothing.
\<close>

locale afmpkg_session =
  fixes ops :: "'c afmpkg_operations"
    and idle :: "'c \<Rightarrow> bool"
    and active :: "'c \<Rightarrow> bool"
    and committed :: "'c \<Rightarrow> 'x"
  assumes begin_law: "idle c \<Longrightarrow> op_begin ops c a m = (rc, c') \<Longrightarrow>
      (if rc \<ge> 0 then active c' else idle c') \<and> committed c' = committed c"
    and tagfile_law: "active c \<Longrightarrow> op_tagfile ops c p t = (rc, c') \<Longrightarrow> active c' \<and> committed c' = committed c"
    and setperm_law: "active c \<Longrightarrow> op_setperm ops c q = (rc, c') \<Longrightarrow> active c' \<and> committed c' = committed c"
    and setplug_law: "active c \<Longrightarrow> op_setplug ops c e i d = (rc, c') \<Longrightarrow> active c' \<and> committed c' = committed c"
    and setunits_law: "active c \<Longrightarrow> op_setunits ops c us = (rc, c') \<Longrightarrow> active c' \<and> committed c' = committed c"
    and end_law: "active c \<or> idle c \<Longrightarrow> op_end ops c s = (rc, c') \<Longrightarrow>
      idle c' \<and> (s \<noteq> 0 \<or> rc < 0 \<longrightarrow> committed c' = committed c)"
begin

definition working :: "'x \<Rightarrow> ('c, 'j) afmpkg_state \<Rightarrow> bool" where
  "working k st \<longleftrightarrow> active (st_closure st) \<and> committed (st_closure st) = k"

lemma working_cong: "st_closure st' = st_closure st \<Longrightarrow> working k st' = working k st"
  by (simp add: working_def)

lemma working_walk:
  assumes "\<And>s p. working k s \<Longrightarrow> working k (snd (fn s p))" and "working k st"
  shows "working k (snd (for_each_entry flags fn st))"
  unfolding for_each_entry_def Let_def
  by (rule walk_from_invariant [where I = "working k"]) (use assms in \<open>simp_all add: working_def\<close>)

lemma setup_security_file_working:
  assumes "cx_opers cx = ops" "working k st"
  shows "working k (snd (setup_security_file_cb cx st p))"
  using assms tagfile_law
  by (auto simp: setup_security_file_cb_def Let_def case_prod_unfold working_def prod_eq_iff)

lemma setdown_security_file_working:
  assumes "cx_opers cx = ops" "working k st"
  shows "working k (snd (setdown_security_file_cb cx st p))"
  using assms tagfile_law
  by (auto simp: setdown_security_file_cb_def Let_def case_prod_unfold working_def prod_eq_iff)

lemma permit_working:
  assumes "cx_opers cx = ops" "working k st" shows "working k (snd (permit cx st q))"
  using assms setperm_law by (auto simp: permit_def Let_def case_prod_unfold working_def prod_eq_iff)

lemma set_plug_working:
  assumes "cx_opers cx = ops" "working k st" shows "working k (set_plug_cb cx st e i d)"
  using assms setplug_law by (auto simp: set_plug_cb_def Let_def case_prod_unfold working_def prod_eq_iff)

lemma for_each_plug_working:
  fixes cx :: "('c, 'j) afmpkg_ctx"
  assumes "cx_opers cx = ops" "working k st" shows "working k (for_each_plug cx (set_plug_cb cx) st)"
proof -
  have "working k (for_each_plug_cb cx (set_plug_cb cx) s j)" if "working k s" for s j
    using that set_plug_working [OF assms(1)]
    by (auto simp: for_each_plug_cb_def Let_def case_prod_unfold working_def split: option.split)
  with assms(2) show ?thesis
    by (auto simp: for_each_plug_def for_each_of_array_def intro!: foldl_invariant [where I = "working k"] split: option.split)
qed

lemma permit_selected_working:
  assumes "cx_opers cx = ops" "working k st" shows "working k (snd (permit_selected cx ps st))"
proof (cases "perm_loop (Suc (Suc (ps_count ps))) (permit cx) permset_Select_Requested_And_Granted
      (permset_select_first ps permset_Select_Requested_And_Granted) st")
  case None
  with assms(2) show ?thesis by (simp add: permit_selected_def working_def)
next
  case (Some r)
  then obtain rc ps' s' where r: "r = (rc, ps', s')" by (cases r) auto
  then have "working k s'"
    using perm_loop_invariant [where I = "working k", OF permit_working [OF assms(1)] Some [unfolded r] assms(2)] by simp
  with Some r show ?thesis by (simp add: permit_selected_def working_def)
qed

lemma setup_security_working:
  assumes "cx_opers cx = ops" "working k st" shows "working k (snd (setup_security cx st))"
proof -
  obtain r1 st1 where w: "for_each_entry PATH_ENTRY_FORALL_AFTER (setup_security_file_cb cx) st = (r1, st1)" by fastforce
  have "working k (snd (for_each_entry PATH_ENTRY_FORALL_AFTER (setup_security_file_cb cx) st))"
    by (rule working_walk [OF setup_security_file_working [OF assms(1)] assms(2)])
  then have k1: "working k st1" by (simp add: w)
  obtain r2 st2 where p: "permit_selected cx (the (st_permset st1)) st1 = (r2, st2)" by fastforce
  have k2: "working k st2"
    using permit_selected_working [OF assms(1) k1, of "the (st_permset st1)"] p by simp
  obtain r3 st3 where d: "fold_until (permit cx) default_permissions st2 = (r3, st3)" by fastforce
  have "working k (snd (fold_until (permit cx) default_permissions st2))"
    by (rule fold_until_invariant [where I = "working k", OF permit_working [OF assms(1)] k2])
  then have k3: "working k st3" by (simp add: d)
  show ?thesis
    using k1 k2 k3 for_each_plug_working [OF assms(1) k3] by (simp add: setup_security_def w p d Let_def)
qed

lemma setdown_security_working:
  assumes "cx_opers cx = ops" "working k st" shows "working k (snd (setdown_security cx st))"
  using for_each_plug_working [OF assms(1) working_walk [OF setdown_security_file_working [OF assms(1)] assms(2)]]
  by (simp add: setdown_security_def case_prod_unfold Let_def)

lemma process_units_working:
  assumes "cx_opers cx = ops" "working k st" shows "working k (snd (process_units cx st))"
proof -
  have "active (snd (op_setunits ops c us)) \<and> committed (snd (op_setunits ops c us)) = k"
    if "active c \<and> committed c = k" for c us
    using setunits_law [of c us] that by (cases "op_setunits ops c us") simp
  note unit_process_split_invariant [where I = "\<lambda>c. active c \<and> committed c = k", OF this]
  with assms show ?thesis
    by (simp add: process_units_def working_def case_prod_unfold Let_def)
qed

lemma and_then_working:
  assumes "working k (snd r)" "\<And>s. working k s \<Longrightarrow> working k (snd (f s))"
  shows "working k (snd (and_then r f))"
  using assms by (simp add: and_then_def)

lemmas quiet_steps = create_permset_closure check_permissions_closure closure.check_contents_view
  closure.compute_files_properties_view closure.setup_files_properties_view

lemma install_afmpkg_working:
  assumes "cx_opers cx = ops" "working k st" shows "working k (snd (install_afmpkg cx st))"
  unfolding install_afmpkg_def
  by (intro and_then_working process_units_working setup_security_working assms(1))
    (use assms(2) in \<open>simp_all only: working_def quiet_steps\<close>)

lemma uninstall_afmpkg_working:
  assumes "cx_opers cx = ops" "working k st" shows "working k (snd (uninstall_afmpkg cx st))"
  unfolding uninstall_afmpkg_def
  by (intro and_then_working process_units_working setdown_security_working assms)

text \<open>What a piece of processing does of the sessions: it leaves none open, and commits nothing if it fails.\<close>

definition settled :: "'c \<Rightarrow> int \<times> ('c, 'j) afmpkg_state \<Rightarrow> bool" where
  "settled c r \<longleftrightarrow> idle (st_closure (snd r)) \<and> (fst r < 0 \<longrightarrow> committed (st_closure (snd r)) = committed c)"

text \<open>A session around a body: the body runs only if \<open>begin\<close> succeeds, \<open>end\<close> is always called.\<close>

lemma session_settled:
  assumes "idle c" and "op_begin ops c a m = (rc1, c1)"
    and "rc1 \<ge> 0 \<Longrightarrow> working (committed c) stb" and "rc1 < 0 \<Longrightarrow> st_closure stb = c1 \<and> rc < 0"
    and "op_end ops (st_closure stb) rc = (rc2, c2)"
  shows "idle c2 \<and> (rc2 < 0 \<or> rc \<noteq> 0 \<longrightarrow> committed c2 = committed c)"
proof -
  have "(active (st_closure stb) \<or> idle (st_closure stb)) \<and> committed (st_closure stb) = committed c"
    using begin_law [OF assms(1,2)] assms(3,4) by (cases "rc1 \<ge> 0") (auto simp: working_def)
  then show ?thesis using end_law [OF _ assms(5)] by auto
qed

lemma package_body_working:
  assumes "cx_opers cx = ops" "working k st" "rc \<ge> 0"
  shows "working k (snd (package_body cx rc st))"
  using assms install_afmpkg_working [OF assms(1,2)] uninstall_afmpkg_working [OF assms(1,2)]
  by (simp add: package_body_def)

lemma package_session_settled:
  assumes ops: "cx_opers cx = ops" and idl: "idle (st_closure st)"
  shows "settled (st_closure st) (package_session cx st)"
proof -
  define appid where "appid = Option.bind (j_get (env_json (cx_env cx)) (the (st_manifest st)) ''id'') (j_string (env_json (cx_env cx)))"
  obtain rcb c1 where bg: "op_begin ops (st_closure st) appid (cx_mode cx) = (rcb, c1)" by fastforce
  let ?sta = "st\<lparr>st_appid := appid, st_closure := c1\<rparr>"
  obtain rc3 stb where bd: "package_body cx rcb ?sta = (rc3, stb)" by fastforce
  obtain rc4 c2 where en: "op_end ops (st_closure stb) rc3 = (rc4, c2)" by fastforce
  have res: "package_session cx st = (if rc4 < 0 then rc4 else rc3, stb\<lparr>st_closure := c2\<rparr>)"
    by (simp add: package_session_def ops Let_def appid_def [symmetric] bg bd en)
  have "working (committed (st_closure st)) stb" if "rcb \<ge> 0"
    using package_body_working [OF ops _ that, of "committed (st_closure st)" ?sta] begin_law [OF idl bg] that
    by (simp add: bd working_def)
  moreover have "st_closure stb = c1 \<and> rc3 < 0" if "rcb < 0"
    using that bd by (auto simp: package_body_def)
  ultimately have "idle c2 \<and> (rc4 < 0 \<or> rc3 \<noteq> 0 \<longrightarrow> committed c2 = committed (st_closure st))"
    using session_settled [OF idl bg _ _ en] by blast
  then show ?thesis by (auto simp: settled_def res)
qed

lemma process_package_settled:
  assumes "cx_opers cx = ops" and "idle (st_closure st)"
  shows "settled (st_closure st) (process_package cx manif st)"
proof -
  obtain rc1 st1 where m: "get_manifest cx manif st = (rc1, st1)" by fastforce
  obtain rc2 st2 where a: "add_meta_to_manifest cx st1 = (rc2, st2)" by fastforce
  have c: "st_closure st1 = st_closure st" "st_closure st2 = st_closure st"
    using get_manifest_closure [of cx manif st] add_meta_to_manifest_closure [of cx st1] m a by simp_all
  show ?thesis
    using package_session_settled [OF assms(1), of st2] assms(2) c
    by (cases "package_session cx st2") (simp add: process_package_def m a settled_def)
qed

lemma process_rootpkg_settled:
  assumes "cx_opers cx = ops" "idle (st_closure st)"
  shows "settled (st_closure st) (process_rootpkg cx st root)"
proof -
  obtain entry ty where "root = (entry, ty)" by fastforce
  moreover have "st_closure st2 = st_closure st \<Longrightarrow> settled (st_closure st) (process_package cx ty st2)" for st2
    using process_package_settled [OF assms(1), of st2 ty] assms(2) by simp
  ultimately show ?thesis
    by (simp add: process_rootpkg_def Let_def case_prod_unfold settled_def split: option.split)
qed

lemma rootpkgs_idle:
  assumes "cx_opers cx = ops" "idle (st_closure st)"
  shows "idle (st_closure (snd (rootpkgs_for_each roots (process_rootpkg cx) st)))"
proof -
  have "idle (st_closure (snd (fold_nonzero (process_rootpkg cx) rs s)))" if "idle (st_closure s)" for rs s
    using that
  proof (induction rs arbitrary: s)
    case (Cons r rs)
    then show ?case
      using process_rootpkg_settled [OF assms(1), of s r]
      by (simp add: settled_def case_prod_unfold Let_def)
  qed simp
  with assms(2) show ?thesis by (simp add: rootpkgs_for_each_def)
qed

lemma default_tree_add_working:
  assumes "cx_opers cx = ops" "working k st"
  shows "working k (snd (process_default_tree_add_cb cx st p))"
  using assms tagfile_law
  by (auto simp: process_default_tree_add_cb_def Let_def case_prod_unfold working_def prod_eq_iff)

lemma default_tree_body_working:
  assumes "cx_opers cx = ops" "working k st" "rc \<ge> 0"
  shows "working k (snd (default_tree_body cx t rc st))"
proof -
  have "working k (snd (walk_from fl t p ofs (process_default_tree_add_cb cx) st))" for fl p ofs
    by (rule walk_from_invariant [where I = "working k", OF default_tree_add_working [OF assms(1)] _ _ assms(2)])
      (simp_all add: working_def)
  with assms(3) show ?thesis by (simp add: default_tree_body_def)
qed

lemma process_default_tree_settled:
  assumes ops: "cx_opers cx = ops" and idl: "idle (st_closure st)"
  shows "settled (st_closure st) (process_default_tree cx st)"
proof -
  obtain rc1 st1 where d: "default_tree_detect st = (rc1, st1)" by fastforce
  have "st_closure (snd (default_tree_detect st)) = st_closure st"
    unfolding default_tree_detect_def by (rule closure.walk_from_view) (simp add: process_default_tree_detect_cb_def)
  then have c: "st_closure st1 = st_closure st" by (simp add: d)
  obtain rcb c1 where bg: "op_begin ops (st_closure st) None (cx_mode cx) = (rcb, c1)" by fastforce
  let ?sta = "st1\<lparr>st_closure := c1\<rparr>"
  obtain rc3 stb where bd: "default_tree_body cx (the (st_files st)) rcb ?sta = (rc3, stb)" by fastforce
  obtain rc4 c2 where en: "op_end ops (st_closure stb) rc3 = (rc4, c2)" by fastforce
  have "working (committed (st_closure st)) stb" if "rcb \<ge> 0"
    using default_tree_body_working [OF ops _ that, of "committed (st_closure st)" ?sta "the (st_files st)"]
      begin_law [OF idl bg] that by (simp add: bd working_def)
  moreover have "st_closure stb = c1 \<and> rc3 < 0" if "rcb < 0"
    using that bd by (auto simp: default_tree_body_def)
  ultimately have "idle c2 \<and> (rc4 < 0 \<or> rc3 \<noteq> 0 \<longrightarrow> committed c2 = committed (st_closure st))"
    using session_settled [OF idl bg _ _ en] by blast
  moreover have "process_default_tree cx st =
      (if cx_mode cx \<noteq> Afmpkg_Install then (0, st) else if rc1 \<le> 0 then (rc1, st1) else (rc4, stb\<lparr>st_closure := c2\<rparr>))"
    unfolding process_default_tree_def d ops c by (simp only: prod.case Let_def bg bd en c)
  ultimately show ?thesis
    using idl c by (simp add: settled_def)
qed

lemma afmpkg_process_idle:
  assumes "idle (st_closure st)"
  shows "idle (st_closure (snd (afmpkg_process env apkg ops mode st)))"
proof -
  obtain rc roots m' where d: "detect_package_roots (pk_files apkg) (st_mem st) = (rc, roots, m')"
    by (cases "detect_package_roots (pk_files apkg) (st_mem st)") auto
  let ?root = "root_prefix (pk_root apkg)"
  let ?cx = "\<lparr>cx_apkg = apkg, cx_opers = ops, cx_mode = mode, cx_env = env, cx_offset_root = length ?root\<rparr>"
  let ?st1 = "st\<lparr>st_files := pk_files apkg, st_path := ?root @ replicate (PATH_MAX - length ?root) NUL, st_mem := m'\<rparr>"
  have "idle (st_closure (snd (rootpkgs_for_each roots (process_rootpkg ?cx) ?st1)))"
    using assms by (intro rootpkgs_idle) simp_all
  moreover have "idle (st_closure s) \<Longrightarrow> idle (st_closure (snd (process_default_tree ?cx s)))" for s
    using process_default_tree_settled [of ?cx s] by (simp add: settled_def)
  ultimately show ?thesis
    using assms by (simp add: afmpkg_process_def d Let_def case_prod_unfold)
qed

end

end
