(* ===== verification/AfmpkgStd.thy ===== *)
theory AfmpkgStd
  imports AfmpkgSession
begin

text \<open>
  The operations used for real installations (\<^verbatim>\<open>src/src/afmpkg/afmpkg-std.c\<close>): they hand
  the security items to the security manager and install the unit files.

  The security manager is the parameter \<open>slm\<close> on handles of type \<open>'h\<close>; its simulation of
  \<^verbatim>\<open>src/src/secmgr/simulate-sec-lsm-manager.h\<close> is one instance of it. What is made
  effective by the manager is recorded in \<open>std_commits\<close>.
\<close>

section \<open>Security manager\<close>

text \<open>\<open>slm_null\<close> is what the operations answer when they get no handle.\<close>

record 'h slm =
  slm_create :: "nat \<Rightarrow> int \<times> 'h option"
  slm_set_id :: "'h \<Rightarrow> string \<Rightarrow> int \<times> 'h"
  slm_add_path :: "'h \<Rightarrow> string \<Rightarrow> string option \<Rightarrow> int \<times> 'h"
  slm_add_permission :: "'h \<Rightarrow> string \<Rightarrow> int \<times> 'h"
  slm_add_plug :: "'h \<Rightarrow> string \<Rightarrow> string option \<Rightarrow> string \<Rightarrow> int \<times> 'h"
  slm_install :: "'h \<Rightarrow> int"
  slm_uninstall :: "'h \<Rightarrow> int"
  slm_null :: int

definition simulated_slm :: "nat slm" where
  "simulated_slm =
     \<lparr>slm_create = (\<lambda>n. (0, Some (Suc n))), slm_set_id = (\<lambda>h i. (0, h)), slm_add_path = (\<lambda>h p t. (0, h)),
      slm_add_permission = (\<lambda>h p. (0, h)), slm_add_plug = (\<lambda>h e i d. (0, h)),
      slm_install = (\<lambda>h. 0), slm_uninstall = (\<lambda>h. 0), slm_null = 0\<rparr>"

section \<open>Operations\<close>

text \<open>
  The state has the mode and the handle; the world around it the number of handles created,
  the file system and what has been committed.
\<close>

record 'h std_state =
  std_mode :: afmpkg_mode
  std_slmhndl :: "'h option"
  std_created :: nat
  std_fs :: unit_fs
  std_commits :: "('h \<times> afmpkg_mode) list"

definition std_begin ::
  "'h slm \<Rightarrow> 'h std_state \<Rightarrow> string option \<Rightarrow> afmpkg_mode \<Rightarrow> int \<times> 'h std_state" where
  "std_begin slm st appid mode =
     (let (rc, h) = slm_create slm (std_created st);
          st1 = st\<lparr>std_slmhndl := h, std_created := Suc (std_created st)\<rparr>;
          (rc, st2) =
            (if rc < 0 then (rc, st1)
             else case (appid, h) of
                    (None, _) \<Rightarrow> (rc, st1)
                  | (Some a, None) \<Rightarrow> (slm_null slm, st1)
                  | (Some a, Some hh) \<Rightarrow>
                      let (rc, hh') = slm_set_id slm hh a
                      in if rc < 0 then (rc, st1\<lparr>std_slmhndl := None\<rparr>) else (rc, st1\<lparr>std_slmhndl := Some hh'\<rparr>))
      in (rc, st2\<lparr>std_mode := if rc \<ge> 0 then mode else Afmpkg_Nop\<rparr>))"

definition on_handle ::
  "'h slm \<Rightarrow> ('h \<Rightarrow> int \<times> 'h) \<Rightarrow> 'h std_state \<Rightarrow> int \<times> 'h std_state" where
  "on_handle slm f st =
     (case std_slmhndl st of
        None \<Rightarrow> (slm_null slm, st)
      | Some h \<Rightarrow> (let (rc, h') = f h in (rc, st\<lparr>std_slmhndl := Some h'\<rparr>)))"

definition std_tagfile :: "'h slm \<Rightarrow> 'h std_state \<Rightarrow> string \<Rightarrow> path_type \<Rightarrow> int \<times> 'h std_state" where
  "std_tagfile slm st path ty =
     (if path_type_num ty \<le> path_type_num path_type_Unset \<or> path_type_num ty \<ge> path_type_count
      then (- EINVAL, st)
      else let ty = (if std_mode st \<noteq> Afmpkg_Install then path_type_Id else ty)
           in on_handle slm (\<lambda>h. slm_add_path slm h path (path_type_for_slm (path_type_num ty))) st)"

definition std_setperm :: "'h slm \<Rightarrow> 'h std_state \<Rightarrow> string \<Rightarrow> int \<times> 'h std_state" where
  "std_setperm slm st permission = on_handle slm (\<lambda>h. slm_add_permission slm h permission) st"

definition std_setplug ::
  "'h slm \<Rightarrow> 'h std_state \<Rightarrow> string \<Rightarrow> string option \<Rightarrow> string \<Rightarrow> int \<times> 'h std_state" where
  "std_setplug slm st exportdir importid importdir =
     on_handle slm (\<lambda>h. slm_add_plug slm h exportdir importid importdir) st"

definition std_setunits ::
  "string \<Rightarrow> sysd \<Rightarrow> 'h std_state \<Rightarrow> unitdesc list \<Rightarrow> int \<times> 'h std_state" where
  "std_setunits root sd st units =
     (let (rc, fs') = (if std_mode st = Afmpkg_Install then install_units root sd units (std_fs st)
                       else uninstall_units root sd units (std_fs st))
      in (rc, st\<lparr>std_fs := fs'\<rparr>))"

definition std_end :: "'h slm \<Rightarrow> 'h std_state \<Rightarrow> int \<Rightarrow> int \<times> 'h std_state" where
  "std_end slm st status =
     (case std_slmhndl st of
        None \<Rightarrow> (status, st)
      | Some h \<Rightarrow>
          let rc = (if status = 0 then if std_mode st = Afmpkg_Install then slm_install slm h else slm_uninstall slm h
                    else status);
              commits = (if status = 0 \<and> rc \<ge> 0 then std_commits st @ [(h, std_mode st)] else std_commits st)
          in (rc, st\<lparr>std_slmhndl := None, std_commits := commits\<rparr>))"

definition std_opers :: "string \<Rightarrow> sysd \<Rightarrow> 'h slm \<Rightarrow> 'h std_state afmpkg_operations" where
  "std_opers root sd slm =
     \<lparr>op_begin = std_begin slm, op_tagfile = std_tagfile slm, op_setperm = std_setperm slm,
      op_setplug = std_setplug slm, op_setunits = std_setunits root sd, op_end = std_end slm\<rparr>"

definition std_init :: "unit_fs \<Rightarrow> nat \<Rightarrow> 'h std_state" where
  "std_init fs n = \<lparr>std_mode = Afmpkg_Nop, std_slmhndl = None, std_created = n, std_fs = fs, std_commits = []\<rparr>"

definition initial_state :: "'c \<Rightarrow> mem \<Rightarrow> afid_state \<Rightarrow> string option \<Rightarrow> ('c, 'j) afmpkg_state" where
  "initial_state c m af tpl =
     \<lparr>st_closure = c, st_files = None, st_rc = 0, st_manifest = None, st_appid = None, st_permset = None,
      st_packdir = [], st_offset_pack = 0, st_path = [], st_mem = m, st_afid = af, st_template = tpl,
      st_chmods = [], st_ub = False\<rparr>"

definition afmpkg_std_install ::
  "'j afmpkg_env \<Rightarrow> string \<Rightarrow> sysd \<Rightarrow> 'h slm \<Rightarrow> afmpkg \<Rightarrow> unit_fs \<Rightarrow> nat \<Rightarrow> mem \<Rightarrow> afid_state \<Rightarrow> string option \<Rightarrow>
   int \<times> ('h std_state, 'j) afmpkg_state" where
  "afmpkg_std_install env root sd slm apkg fs n m af tpl =
     afmpkg_install env apkg (std_opers root sd slm) (initial_state (std_init fs n) m af tpl)"

definition afmpkg_std_uninstall ::
  "'j afmpkg_env \<Rightarrow> string \<Rightarrow> sysd \<Rightarrow> 'h slm \<Rightarrow> afmpkg \<Rightarrow> unit_fs \<Rightarrow> nat \<Rightarrow> mem \<Rightarrow> afid_state \<Rightarrow> string option \<Rightarrow>
   int \<times> ('h std_state, 'j) afmpkg_state" where
  "afmpkg_std_uninstall env root sd slm apkg fs n m af tpl =
     afmpkg_uninstall env apkg (std_opers root sd slm) (initial_state (std_init fs n) m af tpl)"

section \<open>The contract\<close>

text \<open>
  What is relied on of the security manager: \<^verbatim>\<open>sec_lsm_manager_create\<close> gives a handle exactly
  when it succeeds.
\<close>

locale slm_manager =
  fixes slm :: "'h slm"
  assumes create_law: "slm_create slm n = (rc, h) \<Longrightarrow> rc < 0 \<longleftrightarrow> h = None"
begin

lemma std_session_laws:
  "afmpkg_session (std_opers root sd slm) (\<lambda>c. std_slmhndl c = None) (\<lambda>c. std_slmhndl c \<noteq> None) std_commits"
proof (unfold_locales, goal_cases)
  case (1 c a m rc c')
  obtain rc0 h where "slm_create slm (std_created c) = (rc0, h)" by fastforce
  with create_law [OF this] 1 show ?case
    by (auto simp: std_opers_def std_begin_def Let_def split: option.splits prod.splits if_splits)
qed (auto simp: std_opers_def std_tagfile_def std_setperm_def std_setplug_def std_setunits_def std_end_def on_handle_def Let_def
      split: option.splits prod.splits if_splits)

end

sublocale slm_manager \<subseteq> std: afmpkg_session "std_opers root sd slm" "\<lambda>c. std_slmhndl c = None"
  "\<lambda>c. std_slmhndl c \<noteq> None" std_commits for root sd
  by (rule std_session_laws)

interpretation simulated: slm_manager simulated_slm
  by unfold_locales (auto simp: simulated_slm_def)

section \<open>Properties\<close>

lemma slm_managerI:
  "(\<And>n. fst (slm_create slm n) < 0 \<longleftrightarrow> snd (slm_create slm n) = None) \<Longrightarrow> slm_manager slm"
  by (rule slm_manager.intro) (metis fst_conv snd_conv)

text \<open>An installation or a removal leaves no session of the security manager open: whatever the
  package, its manifests, the failures of allocations, of system calls and of the manager
  itself, the handle has been destroyed when the function returns.\<close>

lemma std_sessions_closed:
  assumes "\<And>n. fst (slm_create slm n) < 0 \<longleftrightarrow> snd (slm_create slm n) = None"
  shows "std_slmhndl (st_closure (snd (afmpkg_std_install env root sd slm apkg fs n m af tpl))) = None \<and>
    std_slmhndl (st_closure (snd (afmpkg_std_uninstall env root sd slm apkg fs n m af tpl))) = None"
proof -
  have "slm_manager slm" using assms by (rule slm_managerI)
  note laws = slm_manager.std_session_laws [OF this, of root sd]
  have "std_slmhndl (st_closure (snd (afmpkg_process env apkg (std_opers root sd slm) mode
      (initial_state (std_init fs n) m af tpl)))) = None" for mode
    by (rule afmpkg_session.afmpkg_process_idle [OF laws]) (simp add: initial_state_def std_init_def)
  then show ?thesis
    by (simp add: afmpkg_std_install_def afmpkg_std_uninstall_def afmpkg_install_def afmpkg_uninstall_def)
qed

text \<open>A small world: the values of JSON are texts and objects.\<close>

datatype demo_json = DText string | DObject "(string \<times> demo_json) list" | DArray "demo_json list"

fun demo_get :: "demo_json \<Rightarrow> string \<Rightarrow> demo_json option" where
  "demo_get (DObject fs) k = map_of fs k"
| "demo_get _ k = None"

fun demo_items :: "demo_json \<Rightarrow> demo_json list" where
  "demo_items (DArray xs) = xs"
| "demo_items x = [x]"

definition demo_json_services :: "demo_json json_services" where
  "demo_json_services =
     \<lparr>j_get = demo_get,
      j_type = (\<lambda>j. case j of DText _ \<Rightarrow> json_type_string | DObject _ \<Rightarrow> json_type_object | _ \<Rightarrow> json_type_other),
      j_string = (\<lambda>j. case j of DText s \<Rightarrow> Some s | _ \<Rightarrow> Some ''{}''),
      j_array = demo_items, j_optarray = demo_items,
      j_fields = (\<lambda>j. case j of DObject fs \<Rightarrow> map (\<lambda>(k, v). (v, k)) fs | _ \<Rightarrow> []),
      j_add = (\<lambda>j k v. case j of DObject fs \<Rightarrow> DObject (fs @ [(k, v)]) | _ \<Rightarrow> j),
      j_put_array = (\<lambda>j k xs. j),
      j_pack_target = (\<lambda>a p. Some (DText ''meta'')),
      j_pack_meta = (\<lambda>i c b r d. Some (DText ''meta''))\<rparr>"

definition demo_manifest :: demo_json where
  "demo_manifest = DObject [(''id'', DText ''app''),
     (''required-permission'', DObject [(''p'', DText ''urn:p'')])]"

definition demo_env :: "demo_json afmpkg_env" where
  "demo_env =
     \<lparr>env_json = demo_json_services, env_stat = (\<lambda>p. Inr S_REG), env_chmod = (\<lambda>p. 0),
      env_manifest = (\<lambda>p. (0, Some demo_manifest)), env_config = (\<lambda>p. (- ENOTSUP, None)),
      env_units = \<lparr>us_file_get = (\<lambda>p. (0, [])), us_apply_mustach = (\<lambda>t j. (0, [])), us_fwk_unit_conf = []\<rparr>,
      env_afid = \<lparr>af_root = ''/etc'', af_opendir = (\<lambda>p. Inl ENOENT), af_get = (\<lambda>p. (- 1, []))\<rparr>,
      FWK_APP_DIR = ''/usr'', FWK_ICON_DIR = ''/icons''\<rparr>"

definition demo_package :: afmpkg where
  "demo_package =
     \<lparr>pk_package = Some ''pkg'',
      pk_files = Some (Entry [] 0 [] [Entry ''app'' 3 [] [Entry ''.rpconfig'' 2 [] [Entry ''manifest.yml'' 3 [] []]]]),
      pk_root = None, pk_redpakid = None, pk_redpak_auto = None\<rparr>"

text \<open>C1: A package whose processing fails is not made effective by the security manager: when
  \<open>process_package\<close> answers a negative status, nothing has been added to what is committed,
  and no session is left open.\<close>

theorem failed_package_not_committed:
  assumes "\<And>n. fst (slm_create slm n) < 0 \<longleftrightarrow> snd (slm_create slm n) = None"
    and "cx_opers cx = std_opers root sd slm" and "std_slmhndl (st_closure st) = None"
    and "process_package cx manif st = (rc, st')" and "rc < 0"
  shows "std_commits (st_closure st') = std_commits (st_closure st) \<and> std_slmhndl (st_closure st') = None"
proof -
  have "slm_manager slm" using assms(1) by (rule slm_managerI)
  note laws = slm_manager.std_session_laws [OF this, of root sd]
  from afmpkg_session.process_package_settled [OF laws assms(2), of st manif] assms(3-5) show ?thesis
    by (simp add: afmpkg_session.settled_def [OF laws])
qed

text \<open>A manager that creates no handle.\<close>

definition failing_slm :: "nat slm" where
  "failing_slm = simulated_slm\<lparr>slm_create := \<lambda>n. (- 111, None)\<rparr>"

definition demo_ctx :: "nat slm \<Rightarrow> (nat std_state, demo_json) afmpkg_ctx" where
  "demo_ctx slm =
     \<lparr>cx_apkg = demo_package, cx_opers = std_opers ''/r'' demo_sysd slm, cx_mode = Afmpkg_Install,
      cx_env = demo_env, cx_offset_root = 0\<rparr>"

definition demo_state :: "(nat std_state, demo_json) afmpkg_state" where
  "demo_state = (initial_state (std_init (demo_fs []) 0) [] afid_initial None)
     \<lparr>st_files := pk_files demo_package, st_packdir := [''app''], st_offset_pack := 4,
      st_path := ''/app'' @ replicate 4092 NUL\<rparr>"

lemma demo_meta:
  "pk_redpakid (cx_apkg (demo_ctx slm)) = None" "pk_redpak_auto (cx_apkg (demo_ctx slm)) = None"
  "j_pack_meta (env_json (cx_env (demo_ctx slm))) i c b r d = Some (DText ''meta'')"
  "j_get (env_json (cx_env (demo_ctx slm))) (j_add (env_json (cx_env (demo_ctx slm))) demo_manifest ''#metadata'' x) ''targets'' = None"
  "st_rc (install_dir_path cx st) = st_rc st" "st_manifest (install_dir_path cx st) = st_manifest st"
  by (simp_all add: demo_ctx_def demo_package_def demo_env_def demo_json_services_def demo_manifest_def install_dir_path_def Let_def)

lemma demo_opers:
  "op_begin (cx_opers (demo_ctx slm)) = std_begin slm" "op_end (cx_opers (demo_ctx slm)) = std_end slm"
  by (simp_all add: demo_ctx_def std_opers_def)

lemma demo_fails:
  "fst (process_package (demo_ctx failing_slm) name_manifest demo_state) = - 111"
proof -
  obtain st1 where m: "get_manifest (demo_ctx failing_slm) name_manifest demo_state = (0, st1)"
    and f: "st_manifest st1 = Some demo_manifest" "st_closure st1 = st_closure demo_state" "st_rc st1 = 0"
    by (simp add: get_manifest_def demo_ctx_def demo_env_def Let_def demo_state_def initial_state_def)
  have "fst (add_meta_to_manifest (demo_ctx failing_slm) st1) = 0"
    using f by (simp add: add_meta_to_manifest_def Let_def get_redpakid_def meta_targets_def demo_meta)
  then obtain st2 where a: "add_meta_to_manifest (demo_ctx failing_slm) st1 = (0, st2)"
    by (metis prod.collapse)
  have "fst (package_session (demo_ctx failing_slm) st2) = - 111"
    by (simp add: package_session_def package_body_def Let_def demo_opers std_begin_def failing_slm_def std_end_def)
  then show ?thesis
    by (cases "package_session (demo_ctx failing_slm) st2") (simp add: process_package_def m a)
qed

theorem failed_package_not_committed_witness:
  "fst (process_package (demo_ctx failing_slm) name_manifest demo_state) = - 111 \<and>
   std_commits (st_closure (snd (process_package (demo_ctx failing_slm) name_manifest demo_state))) = []"
proof -
  have law: "fst (slm_create failing_slm n) < 0 \<longleftrightarrow> snd (slm_create failing_slm n) = None" for n
    by (simp add: failing_slm_def)
  have "cx_opers (demo_ctx failing_slm) = std_opers ''/r'' demo_sysd failing_slm"
    "std_slmhndl (st_closure demo_state) = None" "std_commits (st_closure demo_state) = []"
    by (simp_all add: demo_ctx_def demo_state_def initial_state_def std_init_def)
  with failed_package_not_committed [OF law this(1,2) prod.collapse [symmetric]] demo_fails
  show ?thesis by simp
qed

end
