(* ===== verification/SecmgrWrap.thy ===== *)
theory SecmgrWrap
  imports AfmpkgStd
begin

text \<open>
  The wrapper of the security manager with its single handle (\<^verbatim>\<open>src/src/secmgr/secmgr-wrap.c\<close>).
  The handles that the library created and that were not destroyed are recorded beside the global handle.
  An assertion that fails gives \<open>None\<close>. The library is the parameter of the theory \<open>AfmpkgStd\<close>.
\<close>

section \<open>Operations\<close>

definition EBUSY :: int where [simp]: "EBUSY = 16"

record 'h secmgr =
  sm_handle :: "'h option"
  sm_created :: nat
  sm_live :: "'h list"

definition secmgr_end :: "'h secmgr \<Rightarrow> 'h secmgr" where
  "secmgr_end s =
     (case sm_handle s of None \<Rightarrow> s | Some h \<Rightarrow> s\<lparr>sm_handle := None, sm_live := remove1 h (sm_live s)\<rparr>)"

definition secmgr_begin :: "'h slm \<Rightarrow> string option \<Rightarrow> 'h secmgr \<Rightarrow> int \<times> 'h secmgr" where
  "secmgr_begin slm appid s =
     (if sm_handle s \<noteq> None then (- EBUSY, s)
      else let (rc, h) = slm_create slm (sm_created s);
               s1 = s\<lparr>sm_handle := h, sm_created := Suc (sm_created s), sm_live := (case h of None \<Rightarrow> [] | Some x \<Rightarrow> [x]) @ sm_live s\<rparr>
           in if rc < 0 then (rc, s1)
              else case (appid, h) of
                     (Some i, Some x) \<Rightarrow>
                       (let (rc, x') = slm_set_id slm x i; s2 = s1\<lparr>sm_handle := Some x', sm_live := x' # sm_live s\<rparr>
                        in (rc, if rc < 0 then secmgr_end s2 else s2))
                   | _ \<Rightarrow> (rc, s1))"

definition secmgr_install :: "'h slm \<Rightarrow> 'h secmgr \<Rightarrow> int option" where
  "secmgr_install slm s = map_option (slm_install slm) (sm_handle s)"

definition secmgr_uninstall :: "'h slm \<Rightarrow> 'h secmgr \<Rightarrow> int option" where
  "secmgr_uninstall slm s = map_option (slm_uninstall slm) (sm_handle s)"

text \<open>The calls that may change what the handle stands for, in place.\<close>

definition with_handle :: "('h \<Rightarrow> int \<times> 'h) \<Rightarrow> 'h secmgr \<Rightarrow> (int \<times> 'h secmgr) option" where
  "with_handle f s =
     map_option (\<lambda>h. let (rc, h') = f h in (rc, s\<lparr>sm_handle := Some h', sm_live := h' # remove1 h (sm_live s)\<rparr>)) (sm_handle s)"

definition secmgr_permit :: "'h slm \<Rightarrow> string \<Rightarrow> 'h secmgr \<Rightarrow> (int \<times> 'h secmgr) option" where
  "secmgr_permit slm permission s = with_handle (\<lambda>h. slm_add_permission slm h permission) s"

definition secmgr_path :: "'h slm \<Rightarrow> string \<Rightarrow> string \<Rightarrow> 'h secmgr \<Rightarrow> (int \<times> 'h secmgr) option" where
  "secmgr_path slm pathname pathtype s = with_handle (\<lambda>h. slm_add_path slm h pathname (Some pathtype)) s"

definition secmgr_plug :: "'h slm \<Rightarrow> string \<Rightarrow> string \<Rightarrow> string \<Rightarrow> 'h secmgr \<Rightarrow> (int \<times> 'h secmgr) option" where
  "secmgr_plug slm expdir impid impdir s = with_handle (\<lambda>h. slm_add_plug slm h expdir (Some impid) impdir) s"

section \<open>Sequences of calls\<close>

text \<open>The calls of a client, in any order, as a step relation labelled by the status.\<close>

inductive secmgr_step :: "'h slm \<Rightarrow> 'h secmgr \<Rightarrow> 'h secmgr \<Rightarrow> bool" for slm :: "'h slm" where
  step_begin: "secmgr_begin slm appid s = (rc, s') \<Longrightarrow> secmgr_step slm s s'"
| step_end: "secmgr_step slm s (secmgr_end s)"
| step_permit: "secmgr_permit slm permission s = Some (rc, s') \<Longrightarrow> secmgr_step slm s s'"
| step_path: "secmgr_path slm pathname pathtype s = Some (rc, s') \<Longrightarrow> secmgr_step slm s s'"
| step_plug: "secmgr_plug slm expdir impid impdir s = Some (rc, s') \<Longrightarrow> secmgr_step slm s s'"
| step_install: "secmgr_install slm s = Some rc \<Longrightarrow> secmgr_step slm s s"
| step_uninstall: "secmgr_uninstall slm s = Some rc \<Longrightarrow> secmgr_step slm s s"

inductive_cases secmgr_stepE: "secmgr_step slm s s'"

definition secmgr_initial :: "'h secmgr" where
  "secmgr_initial = \<lparr>sm_handle = None, sm_created = 0, sm_live = []\<rparr>"

definition handles_ok :: "'h secmgr \<Rightarrow> bool" where
  "handles_ok s \<longleftrightarrow> sm_live s = (case sm_handle s of None \<Rightarrow> [] | Some h \<Rightarrow> [h])"

lemma with_handle_ok: "handles_ok s \<Longrightarrow> with_handle f s = Some (rc, s') \<Longrightarrow> handles_ok s'"
  by (cases "sm_handle s") (auto simp: with_handle_def handles_ok_def split: prod.splits)

lemma end_ok: "handles_ok s \<Longrightarrow> handles_ok (secmgr_end s)"
  by (cases "sm_handle s") (auto simp: secmgr_end_def handles_ok_def)

lemma begin_ok:
  assumes "handles_ok s" "secmgr_begin slm appid s = (rc, s')"
  shows "handles_ok s'"
proof (cases "sm_handle s")
  case None
  then have "sm_live s = []" using assms(1) by (simp add: handles_ok_def)
  with None assms(2) show ?thesis
    by (auto simp: secmgr_begin_def secmgr_end_def handles_ok_def Let_def split: prod.splits if_splits option.splits)
qed (use assms in \<open>simp add: secmgr_begin_def\<close>)

lemma step_ok: "secmgr_step slm s s' \<Longrightarrow> handles_ok s \<Longrightarrow> handles_ok s'"
  by (erule secmgr_stepE) (auto simp: secmgr_permit_def secmgr_path_def secmgr_plug_def intro: begin_ok end_ok with_handle_ok)

lemma reachable_ok: "(secmgr_step slm)\<^sup>*\<^sup>* s s' \<Longrightarrow> handles_ok s \<Longrightarrow> handles_ok s'"
  by (induction rule: rtranclp_induct) (auto intro: step_ok)

text \<open>C31: Whatever the calls and their failures, in any order, the wrapper has at most one handle of the security manager
  open, the one it records: none is lost or destroyed twice. A session that is asked while one is open is refused and changes
  nothing, a session that can not begin leaves none open, and after the end of the session none is.\<close>

theorem secmgr_single_handle:
  assumes "slm_manager slm" "(secmgr_step slm)\<^sup>*\<^sup>* secmgr_initial s" "secmgr_begin slm appid s = (rc, s')"
  shows "sm_live s = (case sm_handle s of None \<Rightarrow> [] | Some h \<Rightarrow> [h]) \<and>
    (sm_handle s \<noteq> None \<longrightarrow> rc = - EBUSY \<and> s' = s) \<and> (sm_handle s = None \<longrightarrow> (rc < 0 \<longleftrightarrow> sm_handle s' = None)) \<and> sm_live (secmgr_end s') = []"
proof -
  have ok: "handles_ok s" by (rule reachable_ok [OF assms(2)]) (simp add: handles_ok_def secmgr_initial_def)
  have "sm_live (secmgr_end s') = []"
    using begin_ok [OF ok assms(3)] by (cases "sm_handle s'") (auto simp: secmgr_end_def handles_ok_def)
  moreover have "rc < 0 \<longleftrightarrow> sm_handle s' = None" if "sm_handle s = None"
    using that assms(3) slm_manager.create_law [OF assms(1), of "sm_created s"]
    by (auto simp: secmgr_begin_def secmgr_end_def Let_def split: prod.splits if_splits option.splits)
  ultimately show ?thesis using ok assms(3) by (auto simp: handles_ok_def secmgr_begin_def)
qed

theorem secmgr_single_handle_witness:
  "secmgr_begin simulated_slm (Some ''b'') (snd (secmgr_begin simulated_slm (Some ''a'') secmgr_initial)) =
     (- 16, \<lparr>sm_handle = Some 1, sm_created = 1, sm_live = [1]\<rparr>)"
proof -
  let ?s = "\<lparr>sm_handle = Some 1, sm_created = 1, sm_live = [1]\<rparr> :: nat secmgr"
  have b: "secmgr_begin simulated_slm (Some ''a'') secmgr_initial = (0, ?s)"
    by (simp add: secmgr_begin_def secmgr_initial_def simulated_slm_def)
  then have "(secmgr_step simulated_slm)\<^sup>*\<^sup>* secmgr_initial ?s" by (blast intro: step_begin)
  from secmgr_single_handle [OF simulated.slm_manager_axioms this, of "Some ''b''"]
  have "secmgr_begin simulated_slm (Some ''b'') ?s = (- 16, ?s)"
    by (cases "secmgr_begin simulated_slm (Some ''b'') ?s") auto
  then show ?thesis by (simp add: b)
qed

end
