(* ===== verification/Systemd.thy ===== *)
theory Systemd
  imports UnitOper
begin

text \<open>
  The exchanges with systemd (\<^verbatim>\<open>src/src/utils/utils-systemd.c\<close>): the two buses, and the
  methods and properties of the manager, of units and of jobs.

  The library sd-bus is a parameter, as functions of a state of the world \<open>'s\<close> that stands
  for what systemd does between the calls. The value of \<open>errno\<close> is kept in the state since
  callers read it.
\<close>

datatype sd_arg = Arg_s string | Arg_u "32 word"

text \<open>
  \<open>sb_call\<close> gives the status of \<^verbatim>\<open>sd_bus_call_method\<close> and what reading one object path of the
  reply gives; \<open>sb_list\<close> the status of the call that lists units, that of entering its
  array, and for each item the status of entering it, that of reading it and what was read:
  the path of the unit and its active state.
\<close>

record ('b, 's) sd_lib =
  sb_default :: "bool \<Rightarrow> 's \<Rightarrow> (int + 'b) \<times> 's"
  sb_call :: "'b \<Rightarrow> string \<Rightarrow> string \<Rightarrow> string \<Rightarrow> sd_arg list \<Rightarrow> 's \<Rightarrow> (int \<times> int \<times> string) \<times> 's"
  sb_get_string :: "'b \<Rightarrow> string \<Rightarrow> string \<Rightarrow> string \<Rightarrow> 's \<Rightarrow> (int \<times> string) \<times> 's"
  sb_get_u :: "'b \<Rightarrow> string \<Rightarrow> string \<Rightarrow> string \<Rightarrow> 's \<Rightarrow> (int \<times> 32 word) \<times> 's"
  sb_list :: "'b \<Rightarrow> string \<Rightarrow> 's \<Rightarrow> (int \<times> int \<times> (int \<times> int \<times> string \<times> string) list) \<times> 's"

record ('b, 's) sd_state =
  ss_usrbus :: "'b option"
  ss_sysbus :: "'b option"
  ss_errno :: int
  ss_mem :: mem
  ss_world :: 's

definition sdb_path :: string where "sdb_path = ''/org/freedesktop/systemd1''"
definition sdbi_job :: string where "sdbi_job = ''org.freedesktop.systemd1.Job''"
definition sdbi_manager :: string where "sdbi_manager = ''org.freedesktop.systemd1.Manager''"
definition sdbi_service :: string where "sdbi_service = ''org.freedesktop.systemd1.Service''"
definition sdbi_unit :: string where "sdbi_unit = ''org.freedesktop.systemd1.Unit''"

section \<open>The buses\<close>

definition sderr2errno :: "int \<Rightarrow> ('b, 's) sd_state \<Rightarrow> int \<times> ('b, 's) sd_state" where
  "sderr2errno rc st = (if rc < 0 then (- 1, st\<lparr>ss_errno := - rc\<rparr>) else (rc, st))"

definition bus_of :: "bool \<Rightarrow> ('b, 's) sd_state \<Rightarrow> 'b option" where
  "bus_of isuser st = (if isuser then ss_usrbus st else ss_sysbus st)"

definition systemd_set_bus :: "bool \<Rightarrow> 'b option \<Rightarrow> ('b, 's) sd_state \<Rightarrow> ('b, 's) sd_state" where
  "systemd_set_bus isuser bus st = (if isuser then st\<lparr>ss_usrbus := bus\<rparr> else st\<lparr>ss_sysbus := bus\<rparr>)"

definition systemd_get_bus :: "('b, 's) sd_lib \<Rightarrow> bool \<Rightarrow> ('b, 's) sd_state \<Rightarrow> int \<times> 'b option \<times> ('b, 's) sd_state" where
  "systemd_get_bus sb isuser st =
     (case bus_of isuser st of
        Some b \<Rightarrow> (0, Some b, st)
      | None \<Rightarrow>
          (case sb_default sb isuser (ss_world st) of
             (Inl e, w) \<Rightarrow> let (rc, st') = sderr2errno e (st\<lparr>ss_world := w\<rparr>) in (rc, None, st')
           | (Inr b, w) \<Rightarrow> (0, Some b, systemd_set_bus isuser (Some b) (st\<lparr>ss_world := w\<rparr>))))"

text \<open>What most of the functions do: get the bus, then go on with it.\<close>

definition with_bus ::
  "('b, 's) sd_lib \<Rightarrow> bool \<Rightarrow> ('b, 's) sd_state \<Rightarrow> (int \<Rightarrow> 'r) \<Rightarrow> ('b \<Rightarrow> ('b, 's) sd_state \<Rightarrow> 'r \<times> ('b, 's) sd_state) \<Rightarrow>
   'r \<times> ('b, 's) sd_state" where
  "with_bus sb isuser st failed f =
     (case systemd_get_bus sb isuser st of
        (rc, Some b, st') \<Rightarrow> f b st'
      | (rc, None, st') \<Rightarrow> (failed rc, st'))"

section \<open>Calls\<close>

definition sd_call ::
  "('b, 's) sd_lib \<Rightarrow> 'b \<Rightarrow> string \<Rightarrow> string \<Rightarrow> string \<Rightarrow> sd_arg list \<Rightarrow> ('b, 's) sd_state \<Rightarrow>
   (int \<times> int \<times> string) \<times> ('b, 's) sd_state" where
  "sd_call sb bus path iface mth args st =
     (let (r, w) = sb_call sb bus path iface mth args (ss_world st) in (r, st\<lparr>ss_world := w\<rparr>))"

definition sd_strdup :: "string \<Rightarrow> ('b, 's) sd_state \<Rightarrow> string option \<times> ('b, 's) sd_state" where
  "sd_strdup s st = (let (ok, m) = c_alloc (ss_mem st) in (if ok then Some s else None, st\<lparr>ss_mem := m\<rparr>))"

definition get_dpath :: "int \<times> string \<Rightarrow> ('b, 's) sd_state \<Rightarrow> string option \<times> ('b, 's) sd_state" where
  "get_dpath msg st =
     (let (rc, st1) = sderr2errno (fst msg) st in
      if rc < 0 then (None, st1)
      else case sd_strdup (snd msg) st1 of
             (None, st2) \<Rightarrow> (None, st2\<lparr>ss_errno := ENOMEM\<rparr>)
           | (Some s, st2) \<Rightarrow> (Some s, st2))"

definition get_unit_dpath ::
  "('b, 's) sd_lib \<Rightarrow> 'b \<Rightarrow> string \<Rightarrow> bool \<Rightarrow> ('b, 's) sd_state \<Rightarrow> string option \<times> ('b, 's) sd_state" where
  "get_unit_dpath sb bus unit_name load st =
     (let ((rc, msg), st1) = sd_call sb bus sdb_path sdbi_manager (if load then ''LoadUnit'' else ''GetUnit'') [Arg_s unit_name] st
      in if rc < 0 then (None, st1) else get_dpath msg st1)"

definition get_unit_dpath_by_pid ::
  "('b, 's) sd_lib \<Rightarrow> 'b \<Rightarrow> 32 word \<Rightarrow> ('b, 's) sd_state \<Rightarrow> string option \<times> ('b, 's) sd_state" where
  "get_unit_dpath_by_pid sb bus pid st =
     (let ((rc, msg), st1) = sd_call sb bus sdb_path sdbi_manager ''GetUnitByPID'' [Arg_u pid] st
      in if rc < 0 then (None, st1) else get_dpath msg st1)"

text \<open>The process identifier is unsigned on the bus and converted to \<open>int\<close>.\<close>

definition unit_pid :: "('b, 's) sd_lib \<Rightarrow> 'b \<Rightarrow> string \<Rightarrow> ('b, 's) sd_state \<Rightarrow> int \<times> ('b, 's) sd_state" where
  "unit_pid sb bus dpath st =
     (let ((rc, u), w) = sb_get_u sb bus dpath sdbi_service ''ExecMainPID'' (ss_world st)
      in (if rc < 0 then rc else sint u, st\<lparr>ss_world := w\<rparr>))"

definition unit_state :: "('b, 's) sd_lib \<Rightarrow> 'b \<Rightarrow> string \<Rightarrow> ('b, 's) sd_state \<Rightarrow> SysD_State \<times> ('b, 's) sd_state" where
  "unit_state sb bus dpath st =
     (let ((rc, s), w) = sb_get_string sb bus dpath sdbi_unit ''ActiveState'' (ss_world st); st1 = st\<lparr>ss_world := w\<rparr>
      in if rc < 0 then (SysD_State_INVALID, st1\<lparr>ss_errno := - rc\<rparr>)
         else let resu = systemd_state_of_name s
              in (resu, if resu = SysD_State_INVALID then st1\<lparr>ss_errno := EBADMSG\<rparr> else st1))"

text \<open>The job is wanted or not: a null pointer tells that it is not, then reading it can not fail.\<close>

definition get_job_from_reply ::
  "bool \<Rightarrow> int \<times> string \<Rightarrow> ('b, 's) sd_state \<Rightarrow> (int \<times> string option) \<times> ('b, 's) sd_state" where
  "get_job_from_reply want msg st =
     (if \<not> want then ((0, None), st)
      else if fst msg < 0 then ((fst msg, None), st)
      else case sd_strdup (snd msg) st of
             (None, st') \<Rightarrow> ((- ENOMEM, None), st')
           | (Some s, st') \<Rightarrow> ((fst msg, Some s), st'))"

definition job_call ::
  "('b, 's) sd_lib \<Rightarrow> 'b \<Rightarrow> string \<Rightarrow> string \<Rightarrow> string \<Rightarrow> sd_arg list \<Rightarrow> bool \<Rightarrow> ('b, 's) sd_state \<Rightarrow>
   (int \<times> string option) \<times> ('b, 's) sd_state" where
  "job_call sb bus path iface mth args want st =
     (let ((rc, msg), st1) = sd_call sb bus path iface mth args st
      in if rc < 0 then ((rc, None), st1) else get_job_from_reply want msg st1)"

definition unit_start where "unit_start sb bus dpath = job_call sb bus dpath sdbi_unit ''Start'' [Arg_s ''replace'']"
definition unit_restart where "unit_restart sb bus dpath = job_call sb bus dpath sdbi_unit ''Restart'' [Arg_s ''replace'']"
definition unit_stop where "unit_stop sb bus dpath = job_call sb bus dpath sdbi_unit ''Stop'' [Arg_s ''replace'']"

definition unit_start_name where
  "unit_start_name sb bus name = job_call sb bus sdb_path sdbi_manager ''StartUnit'' [Arg_s name, Arg_s ''replace'']"
definition unit_restart_name where
  "unit_restart_name sb bus name = job_call sb bus sdb_path sdbi_manager ''RestartUnit'' [Arg_s name, Arg_s ''replace'']"
definition unit_stop_name where
  "unit_stop_name sb bus name = job_call sb bus sdb_path sdbi_manager ''StopUnit'' [Arg_s name, Arg_s ''replace'']"

definition job_is_pending :: "('b, 's) sd_lib \<Rightarrow> 'b \<Rightarrow> string \<Rightarrow> ('b, 's) sd_state \<Rightarrow> int \<times> ('b, 's) sd_state" where
  "job_is_pending sb bus job st =
     (let ((rc, s), w) = sb_get_string sb bus job sdbi_job ''State'' (ss_world st)
      in (if rc < 0 then 0 else 1, st\<lparr>ss_world := w\<rparr>))"

section \<open>Interface\<close>

definition systemd_daemon_reload :: "('b, 's) sd_lib \<Rightarrow> bool \<Rightarrow> ('b, 's) sd_state \<Rightarrow> int \<times> ('b, 's) sd_state" where
  "systemd_daemon_reload sb isuser st =
     with_bus sb isuser st (\<lambda>rc. rc)
       (\<lambda>b st. let ((rc, _), st') = sd_call sb b sdb_path sdbi_manager ''Reload'' [] st in (rc, st'))"

definition systemd_unit_dpath_by_name ::
  "('b, 's) sd_lib \<Rightarrow> bool \<Rightarrow> string \<Rightarrow> bool \<Rightarrow> ('b, 's) sd_state \<Rightarrow> string option \<times> ('b, 's) sd_state" where
  "systemd_unit_dpath_by_name sb isuser name load st =
     with_bus sb isuser st (\<lambda>_. None) (\<lambda>b. get_unit_dpath sb b name load)"

definition systemd_unit_dpath_by_pid ::
  "('b, 's) sd_lib \<Rightarrow> bool \<Rightarrow> 32 word \<Rightarrow> ('b, 's) sd_state \<Rightarrow> string option \<times> ('b, 's) sd_state" where
  "systemd_unit_dpath_by_pid sb isuser pid st =
     with_bus sb isuser st (\<lambda>_. None) (\<lambda>b. get_unit_dpath_by_pid sb b pid)"

definition systemd_unit_start_dpath where
  "systemd_unit_start_dpath sb isuser dpath want st =
     with_bus sb isuser st (\<lambda>rc. (rc, None)) (\<lambda>b. unit_start sb b dpath want)"
definition systemd_unit_restart_dpath where
  "systemd_unit_restart_dpath sb isuser dpath want st =
     with_bus sb isuser st (\<lambda>rc. (rc, None)) (\<lambda>b. unit_restart sb b dpath want)"
definition systemd_unit_stop_dpath where
  "systemd_unit_stop_dpath sb isuser dpath want st =
     with_bus sb isuser st (\<lambda>rc. (rc, None)) (\<lambda>b. unit_stop sb b dpath want)"
definition systemd_unit_start_name where
  "systemd_unit_start_name sb isuser name want st =
     with_bus sb isuser st (\<lambda>rc. (rc, None)) (\<lambda>b. unit_start_name sb b name want)"
definition systemd_unit_restart_name where
  "systemd_unit_restart_name sb isuser name want st =
     with_bus sb isuser st (\<lambda>rc. (rc, None)) (\<lambda>b. unit_restart_name sb b name want)"
definition systemd_unit_stop_name where
  "systemd_unit_stop_name sb isuser name want st =
     with_bus sb isuser st (\<lambda>rc. (rc, None)) (\<lambda>b. unit_stop_name sb b name want)"

definition systemd_unit_stop_pid ::
  "('b, 's) sd_lib \<Rightarrow> bool \<Rightarrow> 32 word \<Rightarrow> bool \<Rightarrow> ('b, 's) sd_state \<Rightarrow> (int \<times> string option) \<times> ('b, 's) sd_state" where
  "systemd_unit_stop_pid sb isuser pid want st =
     with_bus sb isuser st (\<lambda>rc. (rc, None))
       (\<lambda>b st. case get_unit_dpath_by_pid sb b pid st of
                 (None, st1) \<Rightarrow> ((- 1, None), st1)
               | (Some dpath, st1) \<Rightarrow> unit_stop sb b dpath want st1)"

definition systemd_unit_pid_of_dpath :: "('b, 's) sd_lib \<Rightarrow> bool \<Rightarrow> string \<Rightarrow> ('b, 's) sd_state \<Rightarrow> int \<times> ('b, 's) sd_state" where
  "systemd_unit_pid_of_dpath sb isuser dpath st = with_bus sb isuser st (\<lambda>rc. rc) (\<lambda>b. unit_pid sb b dpath)"

definition systemd_unit_state_of_dpath ::
  "('b, 's) sd_lib \<Rightarrow> bool \<Rightarrow> string \<Rightarrow> ('b, 's) sd_state \<Rightarrow> SysD_State \<times> ('b, 's) sd_state" where
  "systemd_unit_state_of_dpath sb isuser dpath st =
     with_bus sb isuser st (\<lambda>_. SysD_State_INVALID) (\<lambda>b. unit_state sb b dpath)"

definition systemd_job_is_pending :: "('b, 's) sd_lib \<Rightarrow> bool \<Rightarrow> string \<Rightarrow> ('b, 's) sd_state \<Rightarrow> int \<times> ('b, 's) sd_state" where
  "systemd_job_is_pending sb isuser job st = with_bus sb isuser st (\<lambda>rc. rc) (\<lambda>b. job_is_pending sb b job)"

text \<open>The items that are read before a failure are given to the callback, whose calls are listed.\<close>

fun list_items :: "int \<Rightarrow> (int \<times> int \<times> string \<times> string) list \<Rightarrow> int \<times> (string \<times> string) list" where
  "list_items rc [] = (rc, [])"
| "list_items rc ((enter, rd, item) # its) =
     (if rc < 0 then (rc, [])
      else if enter < 0 then (enter, [])
      else if rd < 0 then (rd, [])
      else let (r, cs) = list_items rd its in (r, item # cs))"

definition systemd_list_unit_pattern ::
  "('b, 's) sd_lib \<Rightarrow> bool \<Rightarrow> string \<Rightarrow> ('b, 's) sd_state \<Rightarrow> (int \<times> (string \<times> string) list) \<times> ('b, 's) sd_state" where
  "systemd_list_unit_pattern sb isuser pattern st =
     with_bus sb isuser st (\<lambda>rc. (rc, []))
       (\<lambda>b st. let ((rc, arr, its), w) = sb_list sb b pattern (ss_world st);
                   st' = st\<lparr>ss_world := w\<rparr>
               in if rc < 0 then ((rc, []), st')
                  else let (r, cs) = list_items arr its in ((if r < 0 then r else int (length cs), cs), st'))"

end
