(* ===== verification/Sighup.thy ===== *)
theory Sighup
  imports Systemd Afid
begin

text \<open>
  The signals sent after changes of the installed applications (\<^verbatim>\<open>src/src/utils/sighup-framework.c\<close>):
  the daemon of systemd is asked to reload, its sockets are restarted, and the first process of \<^verbatim>\<open>/proc\<close> whose
  command line names the system daemon gets the signal HUP.

  The buffer of 300 bytes is shared by the path and by what is read, and keeps the bytes that are not overwritten: it is passed along the scan.
\<close>

definition afm_system_daemon :: string where "afm_system_daemon = ''afm-system-daemon''"

definition SIGHUP_BUFSIZE :: nat where "SIGHUP_BUFSIZE = 300"

definition overwrite :: "string \<Rightarrow> string \<Rightarrow> string" where
  "overwrite buffer data = take (length buffer) data @ drop (length data) buffer"

text \<open>\<^verbatim>\<open>snprintf\<close> of the path in the buffer: cut to its size, with its null.\<close>

definition print_path :: "string \<Rightarrow> string \<Rightarrow> string" where
  "print_path buffer name = overwrite buffer (take (SIGHUP_BUFSIZE - 1) (''/proc/'' @ name @ ''/cmdline'') @ [CHR 0x00])"

text \<open>
  For each entry, what opening its command line gives: \<open>None\<close> when it fails, and then what is read, \<open>None\<close>
  when the reading fails. The process that gets the signal, or none.
\<close>

fun scan_proc :: "(string \<Rightarrow> string option option) \<Rightarrow> string list \<Rightarrow> string \<Rightarrow> int option" where
  "scan_proc rd [] buffer = None"
| "scan_proc rd (name # names) buffer =
     (let (pid, rest, _) = c_strtol name in
      if rest \<noteq> [] then scan_proc rd names buffer
      else let buffer1 = print_path buffer name in
        case rd (takeWhile (\<lambda>c. c \<noteq> CHR 0x00) buffer1) of
          None \<Rightarrow> scan_proc rd names buffer1
        | Some data \<Rightarrow>
            let buffer2 = (case data of None \<Rightarrow> buffer1 | Some d \<Rightarrow> overwrite buffer1 (take SIGHUP_BUFSIZE d));
                buffer3 = buffer2[SIGHUP_BUFSIZE - 1 := CHR 0x00]
            in if after_sub afm_system_daemon (takeWhile (\<lambda>c. c \<noteq> CHR 0x00) buffer3) \<noteq> None then Some pid
               else scan_proc rd names buffer3)"

definition sighup_afm_main :: "(string \<Rightarrow> string option option) \<Rightarrow> string list option \<Rightarrow> string \<Rightarrow> int option" where
  "sighup_afm_main rd proc buffer = (case proc of None \<Rightarrow> None | Some names \<Rightarrow> scan_proc rd names buffer)"

definition sighup_systemd :: "('b, 's) sd_lib \<Rightarrow> ('b, 's) sd_state \<Rightarrow> ('b, 's) sd_state" where
  "sighup_systemd sb st =
     snd (systemd_unit_restart_name sb False ''sockets.target'' False (snd (systemd_daemon_reload sb False st)))"

definition sighup_all ::
  "('b, 's) sd_lib \<Rightarrow> (string \<Rightarrow> string option option) \<Rightarrow> string list option \<Rightarrow> string \<Rightarrow> ('b, 's) sd_state \<Rightarrow> int option \<times> ('b, 's) sd_state" where
  "sighup_all sb rd proc buffer st = (sighup_afm_main rd proc buffer, sighup_systemd sb st)"

section \<open>The process found\<close>

lemma overwrite_length [simp]: "length (overwrite buffer data) = length buffer"
  by (simp add: overwrite_def)

lemma print_path_length [simp]: "length (print_path buffer name) = length buffer"
  by (simp add: print_path_def)

lemma takeWhile_stop: "\<not> P c \<Longrightarrow> \<forall>x \<in> set s. P x \<Longrightarrow> takeWhile P (s @ c # t) = s"
  by (induction s) auto

lemma overwrite_text:
  assumes "length s < length buffer" "CHR 0x00 \<notin> set s"
  shows "takeWhile (\<lambda>c. c \<noteq> CHR 0x00) (overwrite buffer (s @ CHR 0x00 # t)) = s"
proof -
  have "overwrite buffer (s @ CHR 0x00 # t) = s @ CHR 0x00 # (take (length buffer - Suc (length s)) t @ drop (length (s @ CHR 0x00 # t)) buffer)"
    using assms(1) by (simp add: overwrite_def take_Cons')
  then show ?thesis using assms(2) by (simp only:) (intro takeWhile_stop, auto)
qed

definition is_daemon :: "(string \<Rightarrow> string option option) \<Rightarrow> string \<Rightarrow> bool" where
  "is_daemon rd name \<longleftrightarrow> (\<exists>pid err. c_strtol name = (pid, [], err)) \<and>
     (case rd (''/proc/'' @ name @ ''/cmdline'') of
        Some (Some data) \<Rightarrow> after_sub afm_system_daemon (takeWhile (\<lambda>c. c \<noteq> CHR 0x00) data) \<noteq> None
      | _ \<Rightarrow> False)"

text \<open>
  The command lines are ended by a null within the buffer, or empty, and the paths fit in it.
\<close>

definition cmdline_ok :: "(string \<Rightarrow> string option option) \<Rightarrow> string \<Rightarrow> bool" where
  "cmdline_ok rd name \<longleftrightarrow> CHR 0x00 \<notin> set name \<and> length name < 280 \<and> after_sub afm_system_daemon (''/proc/'' @ name @ ''/cmdline'') = None \<and>
     (case rd (''/proc/'' @ name @ ''/cmdline'') of
        None \<Rightarrow> True
      | Some None \<Rightarrow> True
      | Some (Some data) \<Rightarrow> data = [] \<or> (\<exists>s t. data = s @ CHR 0x00 # t \<and> CHR 0x00 \<notin> set s \<and> length s < 299))"

lemma print_path_text:
  assumes "cmdline_ok rd name" "length buffer = SIGHUP_BUFSIZE"
  shows "takeWhile (\<lambda>c. c \<noteq> CHR 0x00) (print_path buffer name) = ''/proc/'' @ name @ ''/cmdline''"
proof -
  let ?path = "''/proc/'' @ name @ ''/cmdline''"
  have len: "length ?path < 299" "CHR 0x00 \<notin> set ?path" using assms(1) by (auto simp: cmdline_ok_def)
  then have "take (SIGHUP_BUFSIZE - 1) ?path = ?path" by (intro take_all) (simp add: SIGHUP_BUFSIZE_def)
  then show ?thesis
    unfolding print_path_def using overwrite_text [OF _ len(2), of buffer "[]"] len(1) assms(2) by (simp only: SIGHUP_BUFSIZE_def)
qed

lemma set_last_text:
  assumes "length buffer = Suc n" "length (takeWhile (\<lambda>c. c \<noteq> CHR 0x00) buffer) \<le> n"
  shows "takeWhile (\<lambda>c. c \<noteq> CHR 0x00) (buffer[n := CHR 0x00]) = takeWhile (\<lambda>c. c \<noteq> CHR 0x00) buffer"
proof -
  obtain b c where b: "buffer = b @ [c]" "length b = n" using assms(1) by (cases buffer rule: rev_cases) auto
  show ?thesis
  proof (cases "CHR 0x00 \<in> set b")
    case True
    then show ?thesis using takeWhile_append1 [of "CHR 0x00" b "\<lambda>c. c \<noteq> CHR 0x00"] by (simp add: b(1) b(2) [symmetric])
  next
    case False
    then have "takeWhile (\<lambda>c. c \<noteq> CHR 0x00) (b @ xs) = b @ takeWhile (\<lambda>c. c \<noteq> CHR 0x00) xs" for xs by (intro takeWhile_append2) auto
    then show ?thesis using assms(2) b(2) by (auto simp: b(1))
  qed
qed

lemma scan_proc_first:
  assumes "list_all (\<lambda>name. fst (snd (c_strtol name)) = [] \<longrightarrow> cmdline_ok rd name) names" "length buffer = SIGHUP_BUFSIZE"
  shows "scan_proc rd names buffer = map_option (\<lambda>name. fst (c_strtol name)) (List.find (is_daemon rd) names)"
  using assms
proof (induction names arbitrary: buffer)
  case (Cons name names)
  obtain pid rest err where n: "c_strtol name = (pid, rest, err)" by (metis prod_cases3)
  show ?case
  proof (cases "rest = []")
    case False
    then have "\<not> is_daemon rd name" using n by (simp add: is_daemon_def)
    with False Cons n show ?thesis by simp
  next
    case True
    then have ok: "cmdline_ok rd name" using Cons.prems(1) n by simp
    let ?path = "''/proc/'' @ name @ ''/cmdline''" and ?b = "print_path buffer name"
    note path = print_path_text [OF ok Cons.prems(2)]
    have IH: "scan_proc rd names b = map_option (\<lambda>name. fst (c_strtol name)) (List.find (is_daemon rd) names)" if "length b = SIGHUP_BUFSIZE" for b
      using Cons.IH Cons.prems(1) that by simp
    have plen: "length ?path \<le> 299" using ok by (simp add: cmdline_ok_def)
    have keep: "takeWhile (\<lambda>c. c \<noteq> CHR 0x00) (b[SIGHUP_BUFSIZE - 1 := CHR 0x00]) = takeWhile (\<lambda>c. c \<noteq> CHR 0x00) b"
      if "length b = SIGHUP_BUFSIZE" "length (takeWhile (\<lambda>c. c \<noteq> CHR 0x00) b) \<le> 299" for b
      using set_last_text [of b 299] that by (simp add: SIGHUP_BUFSIZE_def)
    have no: "after_sub afm_system_daemon ?path = None" using ok by (simp add: cmdline_ok_def)
    show ?thesis
    proof (cases "rd ?path")
      case None
      then have "\<not> is_daemon rd name" by (simp add: is_daemon_def)
      with None IH [of ?b] Cons.prems(2) n True path show ?thesis by simp
    next
      case (Some data)
      consider "data = None \<or> data = Some []" | s t where "data = Some (s @ CHR 0x00 # t)" "CHR 0x00 \<notin> set s" "length s < 299"
        using ok Some by (cases data) (auto simp: cmdline_ok_def)
      then show ?thesis
      proof cases
        case 1
        then have "(case data of None \<Rightarrow> ?b | Some d \<Rightarrow> overwrite ?b (take SIGHUP_BUFSIZE d)) = ?b" by (auto simp: overwrite_def)
        moreover have "\<not> is_daemon rd name" using 1 Some by (auto simp: is_daemon_def afm_system_daemon_def after_sub.simps)
        ultimately show ?thesis
          using IH [of "?b[SIGHUP_BUFSIZE - 1 := CHR 0x00]"] Cons.prems(2) n True path Some no keep [of ?b] plen by (simp del: after_sub.simps)
      next
        case 2
        let ?b2 = "overwrite ?b (take SIGHUP_BUFSIZE (s @ CHR 0x00 # t))"
        have "take SIGHUP_BUFSIZE (s @ CHR 0x00 # t) = s @ CHR 0x00 # take (299 - length s) t"
          using 2(3) by (simp add: SIGHUP_BUFSIZE_def take_Cons')
        then have tx: "takeWhile (\<lambda>c. c \<noteq> CHR 0x00) ?b2 = s" using overwrite_text [of s ?b] 2 Cons.prems(2) by (simp add: SIGHUP_BUFSIZE_def)
        have "takeWhile (\<lambda>c. c \<noteq> CHR 0x00) (s @ CHR 0x00 # t) = s" using 2(2) by (intro takeWhile_stop) auto
        then have "is_daemon rd name \<longleftrightarrow> after_sub afm_system_daemon s \<noteq> None"
          using n True Some 2(1) by (simp add: is_daemon_def del: after_sub.simps)
        then show ?thesis
          using IH [of "?b2[SIGHUP_BUFSIZE - 1 := CHR 0x00]"] Cons.prems(2) n True path Some 2(1,3) keep [of ?b2] tx by (simp del: after_sub.simps)
      qed
    qed
  qed
qed simp

end
