(* ===== verification/AfmpkgRoots.thy ===== *)
theory AfmpkgRoots
  imports AfmpkgStd "HOL-Library.Sublist"
begin

text \<open>
  The roots of packages that \<^verbatim>\<open>afmpkg.c\<close> finds in a tree of files, and their order.
\<close>

section \<open>Order of the package roots\<close>

text \<open>The positions of a tree, those below an entry before the entry.\<close>

fun postorder :: "pos \<Rightarrow> ('k, 'v) path_entry \<Rightarrow> pos list" where
  "postorder pos (Entry nm fl vs cs) = concat (map (\<lambda>c. postorder (pos @ [pe_name c]) c) cs) @ [pos]"

definition after_nopath :: "32 word" where
  "after_nopath = PATH_ENTRY_FORALL_NO_PATH OR PATH_ENTRY_FORALL_AFTER"

lemma after_nopath_flags:
  "\<not> has_flag after_nopath PATH_ENTRY_FORALL_SILENT_ROOT" "has_flag after_nopath PATH_ENTRY_FORALL_NO_PATH"
  "\<not> has_flag after_nopath PATH_ENTRY_FORALL_ONLY_ADDED" "\<not> has_flag after_nopath PATH_ENTRY_FORALL_BEFORE"
  "has_flag after_nopath PATH_ENTRY_FORALL_AFTER"
  "after_nopath AND (PATH_ENTRY_FORALL_BEFORE OR PATH_ENTRY_FORALL_AFTER) \<noteq> 0"
  "after_nopath AND (PATH_ENTRY_FORALL_ABSOLUTE OR PATH_ENTRY_FORALL_NO_PATH) \<noteq> PATH_ENTRY_FORALL_ABSOLUTE"
  by (simp_all add: after_nopath_def has_flag_def path_flag_defs)

lemma do_children_postorder:
  assumes "\<And>c pos s. c \<in> set cs \<Longrightarrow>
      do_foreach fn sz fl path pos c s = fold_nonzero (\<lambda>s p. fn s p path) (postorder pos c) s"
  shows "do_children fn sz fl path pos cs s =
      fold_nonzero (\<lambda>s p. fn s p path) (concat (map (\<lambda>c. postorder (pos @ [pe_name c]) c) cs)) s"
  using assms
  by (induction cs arbitrary: s) (simp_all add: fold_nonzero_append split: prod.split)

lemma do_foreach_postorder:
  "do_foreach fn sz after_nopath path pos e s = fold_nonzero (\<lambda>s p. fn s p path) (postorder pos e) s"
proof (induction e arbitrary: pos s)
  case (Entry nm fl vs cs)
  have "do_children fn sz after_nopath path pos cs s =
      fold_nonzero (\<lambda>s p. fn s p path) (concat (map (\<lambda>c. postorder (pos @ [pe_name c]) c) cs)) s" for s
    using Entry.IH by (rule do_children_postorder)
  then show ?case
    by (simp add: after_nopath_flags fold_nonzero_append Let_def split: prod.split)
qed

lemma for_each_postorder:
  "path_entry_for_each_in_buffer (PATH_ENTRY_FORALL_NO_PATH OR PATH_ENTRY_FORALL_AFTER) t (Some []) fn [] s =
     Some (fold_nonzero (\<lambda>s p. fn s p []) (postorder [] t) s)"
  unfolding after_nopath_def [symmetric] path_entry_for_each_in_buffer_def
  by (simp add: after_nopath_flags do_foreach_postorder)

lemma rootpkgs_add_memory:
  "rootpkgs_add r [] p ty = (0, r\<lparr>rp_alloc := (if length (rp_roots r) = rp_alloc r then 2 * rp_alloc r else rp_alloc r),
      rp_roots := rp_roots r @ [(p, ty)]\<rparr>, [])"
  by (simp add: rootpkgs_add_def)

lemma detect_fold:
  "fold_nonzero (\<lambda>s p. detect_package_roots_cb t s p []) ps (r, []) = (rc, r', m') \<Longrightarrow>
     rc = 0 \<and> m' = [] \<and>
     rp_roots r' = rp_roots r @ map (\<lambda>p. (p, the (package_type t p))) (filter (\<lambda>p. package_type t p \<noteq> None) ps)"
  by (induction ps arbitrary: r)
    (auto simp: detect_package_roots_cb_def rootpkgs_add_memory split: option.splits)

section \<open>Positions of a tree\<close>

lemma postorder_prefix: "p \<in> set (postorder pos e) \<Longrightarrow> prefix pos p"
proof (induction e arbitrary: pos)
  case (Entry nm fl vs cs)
  then show ?case by (auto dest!: append_prefixD)
qed

lemma postorder_set:
  assumes "wf_entry e"
  shows "set (postorder pos e) = {pos @ q | q d. entry_at q e = Some d}"
  using assms
proof (induction e arbitrary: pos rule: wf_entry_ind)
  case (node e)
  obtain nm fl vs cs where e: "e = Entry nm fl vs cs" by (cases e)
  have dist: "distinct (map pe_name cs)" using wf_entryD(1) [OF node(1)] e by simp
  show ?case
  proof (intro set_eqI iffI)
    fix p assume "p \<in> set (postorder pos e)"
    then consider c where "c \<in> set cs" "p \<in> set (postorder (pos @ [pe_name c]) c)" | "p = pos"
      by (auto simp: e)
    then show "p \<in> {pos @ q | q d. entry_at q e = Some d}"
    proof cases
      case 1
      then obtain q d where "p = (pos @ [pe_name c]) @ q" "entry_at q c = Some d"
        using node(2) [of c] e by auto
      with find_child_distinct [OF dist 1(1)] show ?thesis
        by (auto simp: e intro!: exI [of _ "pe_name c # q"])
    qed (auto intro!: exI [of _ "[]"])
  next
    fix p assume "p \<in> {pos @ q | q d. entry_at q e = Some d}"
    then obtain q d where q: "p = pos @ q" "entry_at q e = Some d" by blast
    show "p \<in> set (postorder pos e)"
    proof (cases q)
      case (Cons n r)
      then obtain c where c: "find_child n cs = Some c" "entry_at r c = Some d"
        using q(2) e by (auto split: option.splits)
      then have m: "c \<in> set cs" "pe_name c = n" using find_child_Some by auto
      then have "p \<in> set (postorder (pos @ [pe_name c]) c)"
        using node(2) [of c] e c(2) q(1) Cons by auto
      with m(1) show ?thesis by (auto simp: e)
    qed (use q e in auto)
  qed
qed

lemma children_order:
  assumes "distinct (map pe_name cs)"
    and "\<And>c. c \<in> set cs \<Longrightarrow> sorted_wrt (\<lambda>a b. \<not> prefix a b) (postorder (pos @ [pe_name c]) c)"
  shows "sorted_wrt (\<lambda>a b. \<not> prefix a b) (concat (map (\<lambda>c. postorder (pos @ [pe_name c]) c) cs))"
  using assms
proof (induction cs)
  case (Cons c cs)
  have "\<not> prefix a b" if "a \<in> set (postorder (pos @ [pe_name c]) c)" "d \<in> set cs"
    "b \<in> set (postorder (pos @ [pe_name d]) d)" for a b d
  proof
    assume ab: "prefix a b"
    have "prefix (pos @ [pe_name c]) b"
      using postorder_prefix [OF that(1)] ab by (rule prefix_order.trans)
    moreover have "prefix (pos @ [pe_name d]) b" using postorder_prefix [OF that(3)] .
    ultimately have "pos @ [pe_name c] = pos @ [pe_name d]"
      by (auto simp: prefix_def)
    with Cons.prems(1) that(2) show False by auto
  qed
  with Cons show ?case by (auto simp: sorted_wrt_append)
qed simp

lemma postorder_order:
  assumes "wf_entry e" shows "sorted_wrt (\<lambda>a b. \<not> prefix a b) (postorder pos e)"
  using assms
proof (induction e arbitrary: pos rule: wf_entry_ind)
  case (node e)
  obtain nm fl vs cs where e: "e = Entry nm fl vs cs" by (cases e)
  have "\<not> prefix a pos" if "c \<in> set cs" "a \<in> set (postorder (pos @ [pe_name c]) c)" for a c
    using prefix_length_le [OF postorder_prefix [OF that(2)]] prefix_length_le [of a pos] by auto
  moreover have "sorted_wrt (\<lambda>a b. \<not> prefix a b) (concat (map (\<lambda>c. postorder (pos @ [pe_name c]) c) cs))"
    using node wf_entryD(1) [OF node(1)] e by (intro children_order) auto
  ultimately show ?case by (auto simp: e sorted_wrt_append)
qed

text \<open>C36: The search of packages in the tree of files finds every directory that holds a manifest, and
  only those, each once, an embedded package always before the package that embeds it, so
  that the files of an embedded package are processed and removed from the tree before
  those of the embedding one are.\<close>

theorem package_roots_found:
  assumes "wf_entry t" and "detect_package_roots (Some t) [] = (rc, roots, m')"
  shows "rc = 0 \<and>
    set (rp_roots roots) = {(p, ty). path_entry_exists t p \<and> package_type t p = Some ty} \<and>
    distinct (map fst (rp_roots roots)) \<and>
    sorted_wrt (\<lambda>a b. \<not> strict_prefix (fst a) (fst b)) (rp_roots roots)"
proof -
  let ?ps = "filter (\<lambda>p. package_type t p \<noteq> None) (postorder [] t)"
  have d: "rc = 0" "rp_roots roots = map (\<lambda>p. (p, the (package_type t p))) ?ps"
    using detect_fold [of t "postorder [] t" rootpkgs_init rc roots m'] assms(2)
    by (simp_all add: detect_package_roots_def for_each_postorder rootpkgs_init_def)
  have s: "sorted_wrt (\<lambda>a b. \<not> prefix a b) ?ps"
    using postorder_order [OF assms(1)] by (rule sorted_wrt_filter)
  then have "distinct ?ps" by (rule no_prefix_distinct)
  moreover have "sorted_wrt (\<lambda>a b. \<not> strict_prefix a b) ?ps"
    using s by (rule sorted_wrt_mono_rel [rotated]) auto
  moreover have "set (postorder [] t) = {p. path_entry_exists t p}"
    using postorder_set [OF assms(1), of "[]"] by (auto simp: path_entry_exists_def)
  ultimately show ?thesis
    using d by (auto simp: sorted_wrt_map comp_def)
qed

text \<open>A package that embeds another one.\<close>

definition nested_files :: files where
  "nested_files = Entry [] 0 [] [Entry ''a'' 2 [] [Entry ''config.xml'' 3 [] [],
     Entry ''b'' 2 [] [Entry ''config.xml'' 3 [] []]]]"

lemma nested_files_wf: "wf_entry nested_files"
  by (simp add: nested_files_def comp_name_def)

theorem package_roots_found_witness:
  "\<exists>roots m'. detect_package_roots (Some nested_files) [] = (0, roots, m') \<and>
     distinct (map fst (rp_roots roots)) \<and>
     sorted_wrt (\<lambda>a b. \<not> strict_prefix (fst a) (fst b)) (rp_roots roots)"
proof -
  obtain rc roots m' where d: "detect_package_roots (Some nested_files) [] = (rc, roots, m')"
    by (cases "detect_package_roots (Some nested_files) []") auto
  from package_roots_found [OF nested_files_wf d] d show ?thesis by blast
qed

end
