(* ===== verification/AfmpkgPerms.thy ===== *)
theory AfmpkgPerms
  imports AfmpkgStd
begin

text \<open>
  The permissions that an installation gives to an application: \<^verbatim>\<open>check_permissions\<close> collects
  those that the manifest asks for, \<^verbatim>\<open>setup_security\<close> hands them and the default ones to the
  security manager, \<^verbatim>\<open>std_end\<close> makes them effective.
\<close>

section \<open>Permissions\<close>

text \<open>The permissions that the manifest asks for: those of the whole and those of its targets.\<close>

definition asked_in :: "'j json_services \<Rightarrow> 'j \<Rightarrow> string list" where
  "asked_in js j =
     (case j_get js j ''required-permission'' of
        None \<Rightarrow> []
      | Some item \<Rightarrow> List.map_filter (\<lambda>(v, k). fst (permission_of js v)) (j_fields js item))"

definition asked_permissions :: "'j json_services \<Rightarrow> 'j \<Rightarrow> string list" where
  "asked_permissions js m =
     asked_in js m @ (case j_get js m ''targets'' of None \<Rightarrow> [] | Some item \<Rightarrow> concat (map (asked_in js) (j_array js item)))"

definition perm_state :: "('c, 'j) afmpkg_state \<Rightarrow> permset \<Rightarrow> bool" where
  "perm_state st ps \<longleftrightarrow> st_permset st = Some ps \<and> st_mem st = []"

definition add_perms :: "string list \<Rightarrow> permset \<Rightarrow> permset" where
  "add_perms = fold (\<lambda>q ps. fst (grant_and_request ps [] q))"

lemma grant_and_request_mem: "snd (grant_and_request ps [] q) = []"
  by (simp add: grant_and_request_def permset_grant_def permset_request_def perm_add_def Let_def case_prod_unfold
      split: option.split)

lemma check_one_permission_perms:
  assumes "perm_state st ps"
  shows "perm_state (check_one_permission_cb cx st j k)
    (add_perms (case fst (permission_of (env_json (cx_env cx)) j) of None \<Rightarrow> [] | Some q \<Rightarrow> [q]) ps)"
  using assms grant_and_request_mem
  by (auto simp: check_one_permission_cb_def perm_state_def add_perms_def Let_def case_prod_unfold split: option.split)

lemma map_filter_Cons:
  "List.map_filter f (x # xs) = (case f x of None \<Rightarrow> [] | Some y \<Rightarrow> [y]) @ List.map_filter f xs"
  by (simp add: List.map_filter_def split: option.split)

lemma add_perms_append: "add_perms (xs @ ys) ps = add_perms ys (add_perms xs ps)"
  by (simp add: add_perms_def)

lemma add_perms_Nil [simp]: "add_perms [] ps = ps"
  by (simp add: add_perms_def)

lemma check_fields_perms:
  assumes "perm_state st ps"
  shows "perm_state (foldl (\<lambda>s (v, k). check_one_permission_cb cx s v k) st fs)
    (add_perms (List.map_filter (\<lambda>(v, k). fst (permission_of (env_json (cx_env cx)) v)) fs) ps)"
  using assms
proof (induction fs arbitrary: st ps)
  case Nil
  then show ?case by (simp add: List.map_filter_def)
next
  case (Cons f fs)
  obtain v k where f: "f = (v, k)" by fastforce
  from Cons.IH [OF check_one_permission_perms [OF Cons.prems, of cx v k]] show ?case
    unfolding f map_filter_Cons add_perms_append by simp
qed

lemma check_permissions_cb_perms:
  assumes "perm_state st ps"
  shows "perm_state (check_permissions_cb cx st (Some j)) (add_perms (asked_in (env_json (cx_env cx)) j) ps)"
  using assms check_fields_perms [OF assms]
  by (simp add: check_permissions_cb_def for_each_of_object_def asked_in_def split: option.split)

lemma check_targets_perms:
  assumes "perm_state st ps"
  shows "perm_state (foldl (\<lambda>s j. check_permissions_cb cx s (Some j)) st ts)
    (add_perms (concat (map (asked_in (env_json (cx_env cx))) ts)) ps)"
  using assms
proof (induction ts arbitrary: st ps)
  case (Cons t ts)
  from Cons.IH [OF check_permissions_cb_perms [OF Cons.prems, of cx t]] show ?case
    by (simp add: add_perms_append)
qed simp

lemma st_manifest_perm_cb [simp]: "st_manifest (check_permissions_cb cx st j) = st_manifest st"
proof -
  have "st_manifest (check_one_permission_cb cx s v k) = st_manifest s" for s v k
    by (simp add: check_one_permission_cb_def Let_def split: option.split prod.split)
  then have "st_manifest (foldl (\<lambda>s (v, k). check_one_permission_cb cx s v k) st fs) = st_manifest st" for fs
    by (induction fs arbitrary: st) auto
  then show ?thesis
    by (simp add: check_permissions_cb_def for_each_of_object_def split: option.split)
qed

lemma check_permissions_perms:
  assumes "perm_state st ps" "st_manifest st = Some m"
  shows "perm_state (snd (check_permissions cx st)) (add_perms (asked_permissions (env_json (cx_env cx)) m) ps)"
  using check_permissions_cb_perms [OF assms(1), of cx m] assms(2)
    check_targets_perms [OF check_permissions_cb_perms [OF assms(1), of cx m]]
  by (simp add: check_permissions_def Let_def for_each_target_def for_each_of_manifest_def for_each_of_array_def
      asked_permissions_def add_perms_append split: option.split)

lemma grant_and_request_view:
  assumes "perm_inv ps" and "grant_and_request ps [] q = (ps', m')"
  shows "perm_inv ps'" "perm_view ps' k = (if k = q then Some (True, True) else perm_view ps k)"
proof -
  obtain rc1 ps1 m1 where g: "permset_grant ps [] q = (rc1, ps1, m1)" by (cases "permset_grant ps [] q") auto
  obtain rc2 ps2 m2 where r: "permset_request ps1 m1 q = (rc2, ps2, m2)" by (cases "permset_request ps1 m1 q") auto
  have "m1 = []"
    using g by (auto simp: permset_grant_def perm_add_def Let_def split: option.splits if_splits)
  then have rc: "0 \<le> rc1" "0 \<le> rc2"
    using g r by (auto simp: permset_grant_def permset_request_def dest: perm_add_total)
  have ps': "ps' = ps2" using assms(2) g r by (simp add: grant_and_request_def)
  show "perm_inv ps'"
    using perms.grant_inv [of "(ps, [])" q rc1 "(ps1, m1)"] perms.request_inv [of "(ps1, m1)" q rc2 "(ps2, m2)"] assms(1) g r ps'
    by simp
  show "perm_view ps' k = (if k = q then Some (True, True) else perm_view ps k)"
    using perms.grant_request_permitted(2) [of "(ps, [])" q rc1 "(ps1, m1)" rc2 "(ps2, m2)"]
      perms.grant_request_frame [of "(ps, [])" q rc1 "(ps1, m1)" rc2 "(ps2, m2)" k] g r rc ps' by auto
qed

lemma add_perms_view:
  assumes "perm_inv ps"
  shows "perm_inv (add_perms qs ps) \<and>
    perm_view (add_perms qs ps) k = (if k \<in> set qs then Some (True, True) else perm_view ps k)"
  using assms
proof (induction qs arbitrary: ps)
  case (Cons q qs)
  obtain ps' m' where g: "grant_and_request ps [] q = (ps', m')" by fastforce
  note v = grant_and_request_view [OF Cons.prems g]
  have "add_perms (q # qs) ps = add_perms qs ps'" by (simp add: add_perms_def g)
  with Cons.IH [OF v(1)] v(2) [of k] show ?case by auto
qed simp

lemma selected_names:
  assumes "perm_inv ps"
  shows "set (map p_name (filter (\<lambda>p. perm_matches p permset_Select_Requested_And_Granted) (ps_perms ps))) =
    {q. perm_view ps q = Some (True, True)}"
proof -
  have d: "distinct (map fst (map (\<lambda>p. (p_name p, (p_granted p, p_requested p))) (ps_perms ps)))"
    using assms by (simp add: perm_inv_def comp_def)
  show ?thesis
    unfolding perm_view_def map_of_eq_Some_iff [OF d] by force
qed

lemma permit_fold:
  "fold_until (permit cx) ns st = (rc, st') \<Longrightarrow>
     fold_until (op_setperm (cx_opers cx)) ns (st_closure st) = (rc, st_closure st')"
proof (induction ns arbitrary: st)
  case (Cons n ns)
  obtain r c where o: "op_setperm (cx_opers cx) (st_closure st) n = (r, c)" by fastforce
  show ?case
    using Cons.prems Cons.IH [of "st\<lparr>st_closure := c\<rparr>"] by (auto simp: permit_def o split: if_splits)
qed simp

lemma permit_selected_fold:
  assumes "ps_count ps < 2 ^ 32" and "permit_selected cx ps st = (rc, st')"
  shows "fold_until (op_setperm (cx_opers cx))
      (map p_name (filter (\<lambda>p. perm_matches p permset_Select_Requested_And_Granted) (ps_perms ps))) (st_closure st) =
    (rc, st_closure st')"
proof -
  let ?it = permset_Select_Requested_And_Granted
  let ?ns = "map p_name (filter (\<lambda>p. perm_matches p ?it) (ps_perms ps))"
  obtain r s' where f: "fold_until (permit cx) ?ns st = (r, s')" by fastforce
  obtain ps' where "perm_loop (Suc (Suc (ps_count ps))) (permit cx) ?it (permset_select_first ps ?it) st = Some (r, ps', s')"
    using perm_loop_filter [of "ps\<lparr>ps_index := 0\<rparr>" "Suc (Suc (ps_count ps))" "permit cx" ?it st] assms(1) f
    by (auto simp: permset_select_first_def)
  then have "permit_selected cx ps st = (r, s'\<lparr>st_permset := Some ps'\<rparr>)"
    by (simp add: permit_selected_def)
  with assms(2) permit_fold [OF f] show ?thesis by auto
qed

lemma permset_create_empty: "permset_create [] = (0, Some \<lparr>ps_perms = [], ps_index = 0\<rparr>, [])"
  by (simp add: permset_create_def)

lemma created_perms:
  "st_mem st = [] \<Longrightarrow> perm_state (snd (create_permset st)) \<lparr>ps_perms = [], ps_index = 0\<rparr>"
  by (simp add: create_permset_def permset_create_empty perm_state_def)

text \<open>Whatever the memory, the set only holds names that have been asked for.\<close>

definition asks :: "string set \<Rightarrow> ('c, 'j) afmpkg_state \<Rightarrow> bool" where
  "asks A st \<longleftrightarrow> (\<exists>ps. st_permset st = Some ps \<and> perm_inv ps \<and> p_name ` set (ps_perms ps) \<subseteq> A)"

lemma perm_add_names:
  assumes "perm_add ps m q g r = (rc, ps', m')" "p_name ` set (ps_perms ps) \<subseteq> A" "q \<in> A"
  shows "p_name ` set (ps_perms ps') \<subseteq> A"
  using assms(1)
proof (cases rule: perm_add_cases)
  case (updated i)
  then have "i < length (ps_perms ps)" by (auto simp: perm_get_def dest: perm_index_Some)
  then have "p_name ` set ((ps_perms ps)[i := perm_mark g r (ps_perms ps ! i)]) \<subseteq> A"
    using assms(2) set_update_subset_insert [of "ps_perms ps" i "perm_mark g r (ps_perms ps ! i)"]
    by (force simp: subset_iff)
  then show ?thesis by (simp add: updated(2))
qed (use assms(2,3) in auto)

lemma grant_and_request_names:
  assumes "grant_and_request ps m q = (ps', m')" "perm_inv ps" "p_name ` set (ps_perms ps) \<subseteq> A" "q \<in> A"
  shows "perm_inv ps' \<and> p_name ` set (ps_perms ps') \<subseteq> A"
proof -
  obtain rc1 ps1 m1 where g: "perm_add ps m q True False = (rc1, ps1, m1)" by (cases "perm_add ps m q True False") auto
  obtain rc2 m2 where r: "perm_add ps1 m1 q False True = (rc2, ps', m2)"
    using assms(1) g by (cases "perm_add ps1 m1 q False True")
      (auto simp: grant_and_request_def permset_grant_def permset_request_def)
  show ?thesis
    using perm_add_inv [OF perm_add_inv [OF assms(2) g] r] perm_add_names [OF r perm_add_names [OF g assms(3,4)] assms(4)]
    by blast
qed

lemma check_one_permission_asks:
  assumes "asks A st" "set_option (fst (permission_of (env_json (cx_env cx)) v)) \<subseteq> A"
  shows "asks A (check_one_permission_cb cx st v k)"
proof -
  from assms(1) obtain ps where ps: "st_permset st = Some ps" "perm_inv ps" "p_name ` set (ps_perms ps) \<subseteq> A"
    by (auto simp: asks_def)
  show ?thesis
  proof (cases "fst (permission_of (env_json (cx_env cx)) v)")
    case None
    with ps show ?thesis by (auto simp: asks_def check_one_permission_cb_def Let_def case_prod_unfold)
  next
    case (Some q)
    with assms(2) have "q \<in> A" by simp
    moreover obtain ps' m' where g: "grant_and_request ps (st_mem st) q = (ps', m')" by fastforce
    ultimately have "perm_inv ps' \<and> p_name ` set (ps_perms ps') \<subseteq> A"
      using grant_and_request_names ps(2,3) by blast
    with Some ps g show ?thesis by (simp add: asks_def check_one_permission_cb_def Let_def case_prod_unfold)
  qed
qed

lemma foldl_invariant_in: "(\<And>s x. x \<in> set xs \<Longrightarrow> I s \<Longrightarrow> I (f s x)) \<Longrightarrow> I s \<Longrightarrow> I (foldl f s xs)"
  by (induction xs arbitrary: s) simp_all

lemma check_permissions_cb_asks:
  assumes "asks A st" "set (asked_in (env_json (cx_env cx)) j) \<subseteq> A"
  shows "asks A (check_permissions_cb cx st (Some j))"
proof (cases "j_get (env_json (cx_env cx)) j ''required-permission''")
  case (Some item)
  have "set_option (fst (permission_of (env_json (cx_env cx)) v)) \<subseteq> A"
    if "(v, k) \<in> set (j_fields (env_json (cx_env cx)) item)" for v k
    using that assms(2) Some by (force simp: asked_in_def List.map_filter_def)
  then show ?thesis
    using assms(1) Some by (auto simp: check_permissions_cb_def for_each_of_object_def
        intro!: foldl_invariant_in [where I = "asks A"] check_one_permission_asks)
qed (use assms(1) in \<open>simp add: check_permissions_cb_def for_each_of_object_def\<close>)

lemma check_permissions_asks:
  assumes "asks (set (asked_permissions (env_json (cx_env cx)) m)) st" "st_manifest st = Some m"
  shows "asks (set (asked_permissions (env_json (cx_env cx)) m)) (snd (check_permissions cx st))"
proof -
  let ?A = "set (asked_permissions (env_json (cx_env cx)) m)"
  have m: "asks ?A (check_permissions_cb cx st (Some m))"
    by (rule check_permissions_cb_asks [OF assms(1)]) (simp add: asked_permissions_def)
  show ?thesis
  proof (cases "j_get (env_json (cx_env cx)) m ''targets''")
    case (Some item)
    have "asks ?A (foldl (\<lambda>s j. check_permissions_cb cx s (Some j)) (check_permissions_cb cx st (Some m))
        (j_array (env_json (cx_env cx)) item))"
      by (rule foldl_invariant_in [where I = "asks ?A", OF check_permissions_cb_asks m])
        (auto simp: asked_permissions_def Some)
    with Some assms(2) show ?thesis
      by (simp add: check_permissions_def Let_def for_each_target_def for_each_of_manifest_def for_each_of_array_def)
  qed (use m assms(2) in \<open>simp add: check_permissions_def Let_def for_each_target_def for_each_of_manifest_def for_each_of_array_def\<close>)
qed

text \<open>The names that the loop of \<^verbatim>\<open>setup_security\<close> hands to \<open>setperm\<close>.\<close>

definition selected :: "permset \<Rightarrow> string list" where
  "selected ps = map p_name (filter (\<lambda>p. perm_matches p permset_Select_Requested_And_Granted) (ps_perms ps))"

lemma create_permset_created:
  assumes "create_permset st = (rc, st')" "rc \<ge> 0"
  shows "asks A st'" "st_manifest st' = st_manifest st"
  using assms by (auto simp: create_permset_def permset_create_def asks_def perm_inv_def Let_def case_prod_unfold split: if_splits)

lemma collected_permissions:
  fixes cx :: "('c, 'j) afmpkg_ctx"
  assumes "create_permset st = (rc1, st1)" "rc1 \<ge> 0" "check_permissions cx st1 = (rc2, st2)" "st_manifest st = Some m"
    "length (asked_permissions (env_json (cx_env cx)) m) < 2 ^ 32"
  obtains ps where "st_permset st2 = Some ps" "ps_count ps < 2 ^ 32" "distinct (selected ps)"
    "set (selected ps) \<subseteq> set (asked_permissions (env_json (cx_env cx)) m)"
    "st_mem st = [] \<longrightarrow> set (selected ps) = set (asked_permissions (env_json (cx_env cx)) m)"
proof -
  let ?qs = "asked_permissions (env_json (cx_env cx)) m" and ?e = "\<lparr>ps_perms = [], ps_index = 0\<rparr> :: permset"
  note c = create_permset_created [OF assms(1,2)]
  have "asks (set ?qs) st2"
    using check_permissions_asks [OF c(1), where cx = cx and m = m] c(2) assms(3,4) by simp
  then obtain ps where ps: "st_permset st2 = Some ps" "perm_inv ps" "p_name ` set (ps_perms ps) \<subseteq> set ?qs"
    by (auto simp: asks_def)
  have "ps_count ps = card (p_name ` set (ps_perms ps))"
    using distinct_card [of "map p_name (ps_perms ps)"] ps(2) by (simp add: perm_inv_def)
  also have "\<dots> \<le> card (set ?qs)" using ps(3) by (rule card_mono [rotated]) simp
  also have "\<dots> \<le> length ?qs" by (rule card_length)
  finally have n: "ps_count ps < 2 ^ 32" using assms(5) by simp
  have full: "set (selected ps) = set ?qs" if mem: "st_mem st = []"
  proof -
    have "perm_state st2 (add_perms ?qs ?e)"
      using check_permissions_perms [OF created_perms [OF mem], of m cx] c(2) assms(1,3,4) by simp
    then have "ps = add_perms ?qs ?e" using ps(1) by (simp add: perm_state_def)
    then have "perm_view ps q = (if q \<in> set ?qs then Some (True, True) else None)" for q
      using add_perms_view [of ?e ?qs q] by (simp add: perm_inv_def perm_view_def)
    then show ?thesis using selected_names [OF ps(2)] by (auto simp: selected_def)
  qed
  show ?thesis
    by (rule that [OF ps(1) n]) (use full ps(2,3) in \<open>auto simp: selected_def perm_inv_def distinct_map_filter\<close>)
qed

section \<open>What the operations record of the permissions\<close>

text \<open>
  A provider of the operations that records the permissions of the open session: \<open>setperm\<close> adds one when
  it succeeds, the other operations add none.
\<close>

locale permission_record = afmpkg_session ops idle active committed
  for ops :: "'c afmpkg_operations" and idle active :: "'c \<Rightarrow> bool" and committed :: "'c \<Rightarrow> 'x" +
  fixes perms :: "'c \<Rightarrow> string list" and mode_of :: "'c \<Rightarrow> afmpkg_mode"
  assumes begin_perms: "op_begin ops c a m = (rc, c') \<Longrightarrow> rc \<ge> 0 \<Longrightarrow> perms c' = [] \<and> mode_of c' = m"
    and tagfile_perms: "op_tagfile ops c p t = (rc, c') \<Longrightarrow> perms c' = perms c \<and> mode_of c' = mode_of c"
    and setplug_perms: "op_setplug ops c e i d = (rc, c') \<Longrightarrow> perms c' = perms c \<and> mode_of c' = mode_of c"
    and setunits_perms: "op_setunits ops c us = (rc, c') \<Longrightarrow> perms c' = perms c \<and> mode_of c' = mode_of c"
    and setperm_perms: "active c \<Longrightarrow> op_setperm ops c q = (rc, c') \<Longrightarrow> rc \<ge> 0 \<Longrightarrow> perms c' = perms c @ [q] \<and> mode_of c' = mode_of c"
begin

definition holds :: "afmpkg_mode \<Rightarrow> string list \<Rightarrow> 'c \<Rightarrow> bool" where
  "holds md qs c \<longleftrightarrow> active c \<and> perms c = qs \<and> mode_of c = md"

lemma setperm_all:
  "fold_until (op_setperm ops) ns c = (rc, c') \<Longrightarrow> rc \<ge> 0 \<Longrightarrow> holds md qs c \<Longrightarrow> holds md (qs @ ns) c'"
proof (induction ns arbitrary: c qs)
  case (Cons n ns)
  obtain r c1 where o: "op_setperm ops c n = (r, c1)" by fastforce
  then have "r \<ge> 0" "fold_until (op_setperm ops) ns c1 = (rc, c')"
    using Cons.prems(1,2) by (auto split: if_splits)
  moreover have "holds md (qs @ [n]) c1"
    using Cons.prems(3) setperm_law [OF _ o] setperm_perms [OF _ o] \<open>r \<ge> 0\<close> by (simp add: holds_def)
  ultimately show ?case using Cons.IH [of c1 "qs @ [n]"] Cons.prems(2) by simp
qed simp

lemma setup_security_file_holds:
  assumes "cx_opers cx = ops" "holds md qs (st_closure st)"
  shows "holds md qs (st_closure (snd (setup_security_file_cb cx st p)))"
  using assms tagfile_law tagfile_perms
  by (auto simp: setup_security_file_cb_def Let_def case_prod_unfold holds_def prod_eq_iff)

lemma setup_files_walk:
  assumes "cx_opers cx = ops" "holds md qs (st_closure st)"
    "for_each_entry PATH_ENTRY_FORALL_AFTER (setup_security_file_cb cx) st = (rc, st')"
  shows "holds md qs (st_closure st')" "st_permset st' = st_permset st"
proof -
  have "holds md qs (st_closure (snd (for_each_entry PATH_ENTRY_FORALL_AFTER (setup_security_file_cb cx) st)))"
    unfolding for_each_entry_def Let_def
    by (rule walk_from_invariant [where I = "\<lambda>s. holds md qs (st_closure s)", OF setup_security_file_holds [OF assms(1)] _ _ assms(2)])
      simp_all
  then show "holds md qs (st_closure st')" by (simp add: assms(3))
  have "st_permset (snd (for_each_entry PATH_ENTRY_FORALL_AFTER (setup_security_file_cb cx) st)) = st_permset st"
    by (rule permset.for_each_entry_view) (simp add: setup_security_file_cb_def Let_def case_prod_unfold)
  then show "st_permset st' = st_permset st" by (simp add: assms(3))
qed

lemma for_each_plug_holds:
  fixes cx :: "('c, 'j) afmpkg_ctx"
  assumes "cx_opers cx = ops" "holds md qs (st_closure st)"
  shows "holds md qs (st_closure (for_each_plug cx (set_plug_cb cx) st))"
proof -
  have "holds md qs (st_closure (set_plug_cb cx s e i d))" if "holds md qs (st_closure s)" for s e i d
    using that assms(1) setplug_law setplug_perms
    by (auto simp: set_plug_cb_def Let_def case_prod_unfold holds_def prod_eq_iff)
  then have "holds md qs (st_closure (for_each_plug_cb cx (set_plug_cb cx) s j))" if "holds md qs (st_closure s)" for s j
    using that by (auto simp: for_each_plug_cb_def Let_def case_prod_unfold split: option.split)
  with assms(2) show ?thesis
    by (auto simp: for_each_plug_def for_each_of_array_def
        intro!: foldl_invariant [where I = "\<lambda>s. holds md qs (st_closure s)"] split: option.split)
qed

lemma setup_security_holds:
  assumes ops: "cx_opers cx = ops" and h: "holds md qs (st_closure st)"
    and ps: "st_permset st = Some ps" "ps_count ps < 2 ^ 32"
    and res: "setup_security cx st = (rc, st')" "rc \<ge> 0"
  shows "holds md (qs @ selected ps @ default_permissions) (st_closure st')"
proof -
  obtain r1 st1 where w: "for_each_entry PATH_ENTRY_FORALL_AFTER (setup_security_file_cb cx) st = (r1, st1)" by fastforce
  note k1 = setup_files_walk [OF ops h w]
  obtain r2 st2 where p: "permit_selected cx ps st1 = (r2, st2)" by fastforce
  obtain r3 st3 where d: "fold_until (permit cx) default_permissions st2 = (r3, st3)" by fastforce
  have ok: "r2 \<ge> 0" "r3 \<ge> 0" and st': "st' = for_each_plug cx (set_plug_cb cx) st3"
    using res k1(2) ps(1) by (auto simp: setup_security_def w p d Let_def split: if_splits)
  have "holds md (qs @ selected ps) (st_closure st2)"
    using setperm_all [OF _ ok(1) k1(1)] permit_selected_fold [OF ps(2) p] by (simp add: ops selected_def)
  then have "holds md ((qs @ selected ps) @ default_permissions) (st_closure st3)"
    using setperm_all [OF _ ok(2)] permit_fold [OF d] by (simp only: ops)
  then show ?thesis
    unfolding st' by (intro for_each_plug_holds ops) simp
qed

lemma process_units_holds:
  assumes "cx_opers cx = ops" "holds md qs (st_closure st)"
  shows "holds md qs (st_closure (snd (process_units cx st)))"
proof -
  have "holds md qs (snd (op_setunits ops c us))" if "holds md qs c" for c us
    using setunits_law [of c us] setunits_perms [of c us] that by (cases "op_setunits ops c us") (simp add: holds_def)
  note unit_process_split_invariant [where I = "holds md qs", OF this]
  with assms show ?thesis by (simp add: process_units_def case_prod_unfold Let_def)
qed

lemma and_then_success:
  assumes "and_then r f = (rc, st')" "rc \<ge> 0"
  obtains rc1 st1 where "r = (rc1, st1)" "rc1 \<ge> 0" "f st1 = (rc, st')"
  using assms by (cases r) (auto simp: and_then_def split: if_splits)

lemma install_afmpkg_perms:
  fixes cx :: "('c, 'j) afmpkg_ctx"
  assumes ops: "cx_opers cx = ops" and h: "holds md [] (st_closure st)" and m: "st_manifest st = Some m"
    and n: "length (asked_permissions (env_json (cx_env cx)) m) < 2 ^ 32"
    and res: "install_afmpkg cx st = (rc, st')" "rc \<ge> 0"
  shows "\<exists>ns. holds md (ns @ default_permissions) (st_closure st') \<and> distinct ns \<and>
    set ns \<subseteq> set (asked_permissions (env_json (cx_env cx)) m) \<and>
    (st_mem st = [] \<longrightarrow> set ns = set (asked_permissions (env_json (cx_env cx)) m))"
proof -
  from res obtain rc1 st1 rc2 st2 rc3 st3 rc4 st4 rc5 st5 rc6 st6
    where s: "create_permset st = (rc1, st1)" "rc1 \<ge> 0" "check_permissions cx st1 = (rc2, st2)"
      "check_contents cx st2 = (rc3, st3)" "compute_files_properties cx st3 = (rc4, st4)"
      "setup_files_properties cx st4 = (rc5, st5)" "setup_security cx st5 = (rc6, st6)" "rc6 \<ge> 0"
      "process_units cx st6 = (rc, st')"
    unfolding install_afmpkg_def by (auto elim!: and_then_success)
  obtain ps where ps: "st_permset st2 = Some ps" "ps_count ps < 2 ^ 32" "distinct (selected ps)"
    "set (selected ps) \<subseteq> set (asked_permissions (env_json (cx_env cx)) m)"
    "st_mem st = [] \<longrightarrow> set (selected ps) = set (asked_permissions (env_json (cx_env cx)) m)"
    by (rule collected_permissions [OF s(1,2,3) m n])
  have q: "st_permset st5 = st_permset st2"
    using permset.check_contents_view [of cx st2] permset.compute_files_properties_view [of cx st3]
      permset.setup_files_properties_view [of cx st4] s by simp
  have c: "st_closure st5 = st_closure st"
    using create_permset_closure [of st] check_permissions_closure [of cx st1] closure.check_contents_view [of cx st2]
      closure.compute_files_properties_view [of cx st3] closure.setup_files_properties_view [of cx st4] s by simp
  have "holds md ([] @ selected ps @ default_permissions) (st_closure st6)"
    using setup_security_holds [OF ops _ _ ps(2) s(7,8), of md "[]"] h q c ps(1) by simp
  then have "holds md (selected ps @ default_permissions) (st_closure st')"
    using process_units_holds [OF ops, of md _ st6] s(9) by simp
  with ps show ?thesis by blast
qed

end

text \<open>
  What is relied on of the security manager for the permissions of a handle: a new handle has none,
  a permission is added to it by \<^verbatim>\<open>sec_lsm_manager_add_permission\<close> only.
\<close>

locale slm_records = slm_manager slm for slm :: "'h slm" +
  fixes perms_of :: "'h \<Rightarrow> string list"
  assumes create_perms: "slm_create slm n = (rc, Some h) \<Longrightarrow> perms_of h = []"
    and set_id_perms: "slm_set_id slm h a = (rc, h') \<Longrightarrow> perms_of h' = perms_of h"
    and add_path_perms: "slm_add_path slm h p t = (rc, h') \<Longrightarrow> perms_of h' = perms_of h"
    and add_plug_perms: "slm_add_plug slm h e i d = (rc, h') \<Longrightarrow> perms_of h' = perms_of h"
    and add_permission_perms: "slm_add_permission slm h q = (rc, h') \<Longrightarrow> rc \<ge> 0 \<Longrightarrow> perms_of h' = perms_of h @ [q]"
begin

definition session_perms :: "'h std_state \<Rightarrow> string list" where
  "session_perms c = (case std_slmhndl c of None \<Rightarrow> [] | Some h \<Rightarrow> perms_of h)"

lemma std_records_laws:
  "permission_record (std_opers root sd slm) (\<lambda>c. std_slmhndl c = None) (\<lambda>c. std_slmhndl c \<noteq> None) std_commits session_perms std_mode"
proof (intro permission_record.intro std_session_laws, unfold_locales, goal_cases)
  case (1 c a m rc c')
  obtain rc0 h where "slm_create slm (std_created c) = (rc0, h)" by fastforce
  with create_law [OF this] 1 show ?case
    by (auto simp: std_opers_def std_begin_def session_perms_def create_perms set_id_perms Let_def
        split: option.splits prod.splits if_splits)
qed (auto simp: std_opers_def std_tagfile_def std_setperm_def std_setplug_def std_setunits_def on_handle_def Let_def session_perms_def
      dest: add_path_perms add_plug_perms add_permission_perms split: option.splits prod.splits if_splits)

end

sublocale slm_records \<subseteq> std: permission_record "std_opers root sd slm" "\<lambda>c. std_slmhndl c = None"
  "\<lambda>c. std_slmhndl c \<noteq> None" std_commits session_perms std_mode for root sd
  by (rule std_records_laws)

section \<open>Permissions of an installed package\<close>

text \<open>What a session of \<^verbatim>\<open>afmpkg-std.c\<close> commits: the handle, when the status of the body is 0 and the manager accepts it.\<close>

lemma std_end_commits:
  assumes "std_end slm c s = (rc, c')" "std_slmhndl c = Some h"
  shows "std_commits c' = (if s = 0 \<and> rc \<ge> 0 then std_commits c @ [(h, std_mode c)] else std_commits c)"
  using assms by (auto simp: std_end_def Let_def)

context slm_records
begin

lemma package_session_permissions:
  assumes ops: "cx_opers cx = std_opers root sd slm" and mode: "cx_mode cx = Afmpkg_Install"
    and idl: "std_slmhndl (st_closure st) = None" and m: "st_manifest st = Some m"
    and n: "length (asked_permissions (env_json (cx_env cx)) m) < 2 ^ 32" and res: "package_session cx st = (rc, st')"
  shows "if rc = 0
    then \<exists>h ns. std_commits (st_closure st') = std_commits (st_closure st) @ [(h, Afmpkg_Install)] \<and>
      perms_of h = ns @ default_permissions \<and> distinct ns \<and>
      set ns \<subseteq> set (asked_permissions (env_json (cx_env cx)) m) \<and>
      (st_mem st = [] \<longrightarrow> set ns = set (asked_permissions (env_json (cx_env cx)) m))
    else std_commits (st_closure st') = std_commits (st_closure st)"
proof -
  let ?c = "st_closure st"
  define appid where "appid = Option.bind (j_get (env_json (cx_env cx)) (the (st_manifest st)) ''id'') (j_string (env_json (cx_env cx)))"
  obtain rcb c1 where bg: "std_begin slm ?c appid Afmpkg_Install = (rcb, c1)" by fastforce
  let ?sta = "st\<lparr>st_appid := appid, st_closure := c1\<rparr>"
  obtain rc3 stb where bd: "package_body cx rcb ?sta = (rc3, stb)" by fastforce
  obtain rc4 c2 where en: "std_end slm (st_closure stb) rc3 = (rc4, c2)" by fastforce
  have r: "rc = (if rc4 < 0 then rc4 else rc3)" "st_closure st' = c2"
    using res by (auto simp: package_session_def ops mode std_opers_def Let_def appid_def [symmetric] bg bd en)
  have op: "op_begin (std_opers root sd slm) ?c appid Afmpkg_Install = (rcb, c1)" by (simp add: std_opers_def bg)
  note b = std.begin_law [OF idl op]
  show ?thesis
  proof (cases "rcb < 0")
    case True
    then have "rc3 = rcb" "st_closure stb = c1" using bd by (auto simp: package_body_def)
    with True b en r show ?thesis by (auto simp: std_end_def)
  next
    case False
    then have i: "install_afmpkg cx ?sta = (rc3, stb)" using bd mode by (simp add: package_body_def)
    have "std.working (std_commits ?c) stb"
      using std.install_afmpkg_working [OF ops, of "std_commits ?c" ?sta] i b False
      unfolding std.working_def by simp
    then obtain h where h: "std_slmhndl (st_closure stb) = Some h" "std_commits (st_closure stb) = std_commits ?c"
      unfolding std.working_def by auto
    note e = std_end_commits [OF en h(1), unfolded h(2)]
    show ?thesis
    proof (cases "rc = 0")
      case True
      then have z: "rc3 = 0" "rc4 \<ge> 0" using r(1) by (auto split: if_splits)
      have "std.holds Afmpkg_Install [] (st_closure ?sta)"
        using b False std.begin_perms [OF op] unfolding std.holds_def by simp
      from std.install_afmpkg_perms [OF ops this _ n i] m z obtain ns
        where ns: "std.holds Afmpkg_Install (ns @ default_permissions) (st_closure stb)" "distinct ns"
          "set ns \<subseteq> set (asked_permissions (env_json (cx_env cx)) m)"
          "st_mem st = [] \<longrightarrow> set ns = set (asked_permissions (env_json (cx_env cx)) m)" by auto
      then have "perms_of h = ns @ default_permissions" "std_mode (st_closure stb) = Afmpkg_Install"
        using h(1) unfolding std.holds_def session_perms_def by simp_all
      with ns True z e r(2) show ?thesis by auto
    next
      case False
      with r e show ?thesis by (auto split: if_splits)
    qed
  qed
qed

end

text \<open>C2: An installed package gets the permissions that its manifest asks for and the default one: when the
  session of the package succeeds, the handle that the security manager has made effective has
  the permissions required by the manifest or by one of its targets, each once, and then
  \<open>urn:redpesk:token:valid\<close>, and none else; otherwise nothing has been made effective. Every permission asked for is
  there when no allocation fails: a permission that cannot be recorded is dropped, the
  package being installed without it.\<close>

theorem permissions_given_are_asked:
  assumes "slm_records slm perms_of"
    and "cx_opers cx = std_opers root sd slm" and "cx_mode cx = Afmpkg_Install"
    and "std_slmhndl (st_closure st) = None" and "st_manifest st = Some m"
    and "length (asked_permissions (env_json (cx_env cx)) m) < 2 ^ 32"
    and "package_session cx st = (rc, st')"
  shows "if rc = 0
    then \<exists>h ns. std_commits (st_closure st') = std_commits (st_closure st) @ [(h, Afmpkg_Install)] \<and>
      perms_of h = ns @ [''urn:redpesk:token:valid''] \<and> distinct ns \<and>
      set ns \<subseteq> set (asked_permissions (env_json (cx_env cx)) m) \<and>
      (st_mem st = [] \<longrightarrow> set ns = set (asked_permissions (env_json (cx_env cx)) m))
    else std_commits (st_closure st') = std_commits (st_closure st)"
  by (rule slm_records.package_session_permissions [OF assms, unfolded default_permissions_def])

text \<open>A security manager whose handles are the permissions that they have got.\<close>

definition recording_slm :: "string list slm" where
  "recording_slm =
     \<lparr>slm_create = (\<lambda>n. (0, Some [])), slm_set_id = (\<lambda>h i. (0, h)), slm_add_path = (\<lambda>h p t. (0, h)),
      slm_add_permission = (\<lambda>h q. (0, h @ [q])), slm_add_plug = (\<lambda>h e i d. (0, h)),
      slm_install = (\<lambda>h. 0), slm_uninstall = (\<lambda>h. 0), slm_null = 0\<rparr>"

interpretation recording: slm_records recording_slm "\<lambda>h. h"
  by unfold_locales (auto simp: recording_slm_def)

definition perms_ctx :: "(string list std_state, demo_json) afmpkg_ctx" where
  "perms_ctx =
     \<lparr>cx_apkg = demo_package, cx_opers = std_opers ''/r'' demo_sysd recording_slm, cx_mode = Afmpkg_Install,
      cx_env = demo_env, cx_offset_root = 0\<rparr>"

definition perms_state :: "(string list std_state, demo_json) afmpkg_state" where
  "perms_state = (initial_state (std_init (demo_fs []) 0) [] afid_initial (Some []))
     \<lparr>st_files := Some (Entry [] 0 [] []), st_manifest := Some demo_manifest, st_path := replicate 16 NUL\<rparr>"

lemma leaf_walks:
  assumes "st_files st = Some (Entry [] 0 vs [])" "st_packdir st = []" "st_offset_pack st = 0"
  shows "for_each_content_entry PATH_ENTRY_FORALL_NO_PATH fn st = (0, st)"
    "for_each_content_entry PATH_ENTRY_FORALL_BEFORE fn st = (0, st)" "for_each_content_entry 0 fn st = (0, st)"
    "for_each_entry (PATH_ENTRY_FORALL_AFTER OR PATH_ENTRY_FORALL_NO_PATH) fn st = fn st []"
    "for_each_entry PATH_ENTRY_FORALL_AFTER fn st = fn (st\<lparr>st_path := buf_write (st_path st) 0 [NUL]\<rparr>) []"
  using assms
  by (simp_all add: for_each_content_entry_def for_each_entry_def walk_from_def path_entry_for_each_in_buffer_def
      has_flag_def path_flag_defs)

lemma no_units: "unit_process_split (env_units demo_env) j f (c, []) (Some []) = (0, (c, []), Some [])"
proof -
  have "corpus_split [] (dedup_slashes []) = (0, [], [])" by code_simp
  then show ?thesis
    by (simp add: unit_process_split_def unit_process_raw_def internal_for_split_def demo_env_def)
qed

lemma perms_session: "fst (package_session perms_ctx perms_state) = 0"
  by (simp add: package_session_def package_body_def Let_def perms_ctx_def std_opers_def std_begin_def recording_slm_def perms_state_def initial_state_def std_init_def
    install_afmpkg_def and_then_def create_permset_def permset_create_empty check_permissions_def check_permissions_cb_def for_each_of_object_def for_each_target_def
    for_each_of_manifest_def for_each_of_array_def demo_env_def demo_json_services_def demo_manifest_def check_one_permission_cb_def permission_of_def
    grant_and_request_def permset_grant_def permset_request_def perm_add_def perm_get_def perm_mark_def check_contents_def
    compute_files_properties_def set_entry_type_def path_entry_var_set_def leaf_walks when_ok_def setup_files_properties_def
    compute_public_files_properties_cb_def setup_security_def setup_security_file_cb_def get_entry_type_def entry_type_def path_entry_var_def std_tagfile_def
    on_handle_def put_state_rc_def permit_selected_def permset_select_first_def permset_select_next_def perm_advance_def perm_advance_index.simps permit_def
    permset_current_def std_setperm_def default_permissions_def for_each_plug_def process_units_def no_units [unfolded demo_env_def demo_json_services_def, simplified] std_end_def varval_def)

theorem permissions_given_are_asked_witness:
  "fst (package_session perms_ctx perms_state) = 0 \<and>
   std_commits (st_closure (snd (package_session perms_ctx perms_state))) =
     [([''urn:p'', ''urn:redpesk:token:valid''], Afmpkg_Install)]"
proof -
  have asked: "asked_permissions (env_json (cx_env perms_ctx)) demo_manifest = [''urn:p'']"
    by (simp add: asked_permissions_def asked_in_def perms_ctx_def demo_env_def demo_json_services_def demo_manifest_def
        permission_of_def List.map_filter_def)
  have st: "std_slmhndl (st_closure perms_state) = None" "st_manifest perms_state = Some demo_manifest"
    "st_mem perms_state = []" "std_commits (st_closure perms_state) = []"
    by (simp_all add: perms_state_def initial_state_def std_init_def)
  have cx: "cx_opers perms_ctx = std_opers ''/r'' demo_sysd recording_slm" "cx_mode perms_ctx = Afmpkg_Install"
    by (simp_all add: perms_ctx_def)
  obtain h ns where h: "std_commits (st_closure (snd (package_session perms_ctx perms_state))) = [(h, Afmpkg_Install)]"
    "h = ns @ [''urn:redpesk:token:valid'']" "distinct ns" "set ns = {''urn:p''}"
    using permissions_given_are_asked [OF recording.slm_records_axioms cx st(1,2) _ prod.collapse [symmetric]]
      perms_session asked st(3,4) by auto
  have "length ns = 1" using distinct_card [OF h(3)] h(4) by simp
  then have "ns = [''urn:p'']" using h(4) by (cases ns) auto
  with h perms_session show ?thesis by simp
qed

end
