(* ===== verification/AfmpkgRequest.thy ===== *)
theory AfmpkgRequest
  imports Afmpkg
begin

text \<open>
  The requests of the clients of the package daemon (\<^verbatim>\<open>src/src/afmpkg/afmpkg-request.c\<close>):
  the record that the lines of the protocol fill one after the other, the processing of a
  complete request, the line of the reply, and the transactions that group requests.

  A line is the list of its bytes, its terminating NUL excluded; the functions of the C
  library see it up to its first NUL (\<open>c_string\<close>). The daemon's data are the list
  \<^verbatim>\<open>all_transactions\<close>, the allocation script and whatever the installation and the removal of
  packages act on (a parameter here, an instance in the theory of the server). The two
  readings of the clock made by \<^verbatim>\<open>get_transaction\<close> are arguments. Every access to the
  transactions is made under a mutex: the operations on them are atomic.
\<close>

section \<open>Data\<close>

datatype afmpkg_request_state = Request_Pending | Request_Ready | Request_Ok | Request_Error

datatype afmpkg_request_kind =
    Request_Unset | Request_Add_Package | Request_Remove_Package
  | Request_Check_Add_Package | Request_Check_Remove_Package | Request_Get_Status

record afmpkg_request =
  rq_state :: afmpkg_request_state
  rq_kind :: afmpkg_request_kind
  rq_scode :: int
  rq_index :: "32 word"
  rq_count :: "32 word"
  rq_transid :: "string option"
  rq_scratch :: "string option"
  rq_msg :: "string option"
  rq_apkg :: afmpkg

record transaction =
  tr_id :: string
  tr_expire :: int
  tr_count :: "32 word"
  tr_success :: "32 word"
  tr_fail :: "32 word"

definition RETENTION_SECONDS :: int where
  "RETENTION_SECONDS = 3600"

section \<open>Transactions\<close>

definition cleanup_transactions :: "int \<Rightarrow> transaction list \<Rightarrow> transaction list" where
  "cleanup_transactions now ts = filter (\<lambda>t. tr_expire t > now) ts"

definition find_transaction :: "string \<Rightarrow> transaction list \<Rightarrow> nat option" where
  "find_transaction transid ts =
     map_option fst (List.find (\<lambda>(i, t). tr_id t = transid) (zip [0..<length ts] ts))"

text \<open>The transaction is given by its place in the list.\<close>

definition get_transaction ::
  "int \<times> int \<Rightarrow> string \<Rightarrow> 32 word \<Rightarrow> transaction list \<Rightarrow> mem \<Rightarrow> nat option \<times> transaction list \<times> mem" where
  "get_transaction clk transid count ts m =
     (let ts1 = cleanup_transactions (fst clk) ts in
      case find_transaction transid ts1 of
        Some i \<Rightarrow> (Some i, ts1, m)
      | None \<Rightarrow>
          if count = 0 then (None, ts1, m)
          else let (ok, m') = c_alloc m in
            if ok then (Some 0, \<lparr>tr_id = transid, tr_expire = snd clk + RETENTION_SECONDS, tr_count = count,
                                tr_success = 0, tr_fail = 0\<rparr> # ts1, m')
            else (None, ts1, m'))"

definition put_transaction :: "nat \<Rightarrow> transaction list \<Rightarrow> transaction list" where
  "put_transaction i ts = take i ts @ drop (Suc i) ts"

definition afmpkg_request_can_stop :: "int \<Rightarrow> transaction list \<Rightarrow> bool \<times> transaction list" where
  "afmpkg_request_can_stop now ts =
     (let ts1 = cleanup_transactions now ts in (ts1 = [], ts1))"

section \<open>Requests\<close>

definition no_package :: afmpkg where
  "no_package = \<lparr>pk_package = None, pk_files = None, pk_root = None, pk_redpakid = None, pk_redpak_auto = None\<rparr>"

definition afmpkg_request_init :: "mem \<Rightarrow> int \<times> afmpkg_request \<times> mem" where
  "afmpkg_request_init m =
     (let (rc, files, m') = path_entry_create_root m in
      (rc, \<lparr>rq_state = Request_Pending, rq_kind = Request_Unset, rq_scode = 0, rq_index = 0, rq_count = 0,
            rq_transid = None, rq_scratch = None, rq_msg = None, rq_apkg = no_package\<lparr>pk_files := files\<rparr>\<rparr>, m'))"

definition afmpkg_request_error :: "afmpkg_request \<Rightarrow> int \<Rightarrow> string \<Rightarrow> int \<times> afmpkg_request" where
  "afmpkg_request_error req scode msg =
     (scode, if rq_scode req = 0
             then req\<lparr>rq_state := Request_Error, rq_scode := scode, rq_msg := Some msg\<rparr> else req)"

text \<open>The package record that remains when a request is released: nothing but freed memory.\<close>

definition afmpkg_request_deinit :: "afmpkg_request \<Rightarrow> afmpkg_request" where
  "afmpkg_request_deinit req =
     req\<lparr>rq_transid := None, rq_scratch := None,
         rq_apkg := (rq_apkg req)\<lparr>pk_package := None, pk_root := None, pk_redpakid := None, pk_files := None\<rparr>\<rparr>"

subsection \<open>Lines of a request\<close>

definition c_string :: "string \<Rightarrow> string" where
  "c_string s = takeWhile (\<lambda>c. c \<noteq> NUL) s"

definition get_operation_kind :: "string \<Rightarrow> afmpkg_request_kind" where
  "get_operation_kind s =
     (if s = ''ADD'' then Request_Add_Package
      else if s = ''REMOVE'' then Request_Remove_Package
      else if s = ''CHECK-ADD'' then Request_Check_Add_Package
      else if s = ''CHECK-REMOVE'' then Request_Check_Remove_Package
      else Request_Unset)"

text \<open>The macro \<^verbatim>\<open>IF(key)\<close>: what follows the key and its space.\<close>

definition key_value :: "string \<Rightarrow> string \<Rightarrow> string option" where
  "key_value key line =
     (if length line \<ge> length key + 1 \<and> take (length key) line = key \<and> line ! length key = CHR '' ''
      then Some (drop (length key + 1) line) else None)"

definition UINT_MAX :: int where "UINT_MAX = 2 ^ 32 - 1"

definition out_of_range :: "int \<Rightarrow> bool \<Rightarrow> bool" where
  "out_of_range val erange \<longleftrightarrow> val < 1 \<or> val > UINT_MAX \<or> (val = LONG_MAX \<and> erange)"

definition add_begin :: "afmpkg_request \<Rightarrow> string \<Rightarrow> int \<times> afmpkg_request" where
  "add_begin req line =
     (if rq_kind req \<noteq> Request_Unset then afmpkg_request_error req (- 1001) ''unexpected BEGIN''
      else let req1 = req\<lparr>rq_kind := get_operation_kind (c_string line)\<rparr> in
        if rq_kind req1 = Request_Unset then afmpkg_request_error req1 (- 1002) ''invalid BEGIN''
        else (0, req1))"

definition add_count :: "afmpkg_request \<Rightarrow> string \<Rightarrow> int \<times> afmpkg_request" where
  "add_count req line =
     (if rq_count req \<noteq> 0 \<or> rq_kind req = Request_Unset then afmpkg_request_error req (- 1003) ''unexpected COUNT''
      else let (val, str, erange) = c_strtol (c_string line) in
        if str \<noteq> [] then afmpkg_request_error req (- 1004) ''invalid COUNT''
        else if out_of_range val erange then afmpkg_request_error req (- 1005) ''COUNT out of range''
        else if rq_index req \<noteq> 0 \<and> word_of_int val < rq_index req
             then afmpkg_request_error req (- 1006) ''COUNT out of INDEX''
        else (0, req\<lparr>rq_count := word_of_int val\<rparr>))"

definition add_end :: "afmpkg_request \<Rightarrow> string \<Rightarrow> int \<times> afmpkg_request" where
  "add_end req line =
     (if rq_kind req \<noteq> get_operation_kind (c_string line) then afmpkg_request_error req (- 1008) ''invalid END''
      else (0, req\<lparr>rq_state := Request_Ready\<rparr>))"

definition beside :: "int \<times> afmpkg_request \<Rightarrow> 'm \<Rightarrow> int \<times> afmpkg_request \<times> 'm" where
  "beside r m = (fst r, snd r, m)"

definition add_file :: "afmpkg_request \<Rightarrow> mem \<Rightarrow> string \<Rightarrow> int \<times> afmpkg_request \<times> mem" where
  "add_file req m line =
     (if rq_kind req = Request_Unset
      then beside (afmpkg_request_error req (- 1009) ''unexpected FILE'') m
      else case pk_files (rq_apkg req) of
        None \<Rightarrow> beside (afmpkg_request_error req (- 1010) ''can't add FILE'') m
      | Some t \<Rightarrow>
          let (rc, _, t', m') = path_entry_add_length t m [] line (length line);
              req1 = req\<lparr>rq_apkg := (rq_apkg req)\<lparr>pk_files := Some t'\<rparr>\<rparr>
          in if rc < 0 then beside (afmpkg_request_error req1 (- 1010) ''can't add FILE'') m'
             else (0, req1, m'))"

definition add_index :: "afmpkg_request \<Rightarrow> string \<Rightarrow> int \<times> afmpkg_request" where
  "add_index req line =
     (if rq_index req \<noteq> 0 \<or> rq_kind req = Request_Unset then afmpkg_request_error req (- 1011) ''unexpected INDEX''
      else let (val, str, erange) = c_strtol (c_string line) in
        if str \<noteq> [] then afmpkg_request_error req (- 1012) ''invalid INDEX''
        else if out_of_range val erange then afmpkg_request_error req (- 1013) ''INDEX out of range''
        else if rq_count req \<noteq> 0 \<and> word_of_int val > rq_count req
             then afmpkg_request_error req (- 1014) ''INDEX out of COUNT''
        else (0, req\<lparr>rq_index := word_of_int val\<rparr>))"

text \<open>
  The fields filled with a copy of the value: the request refuses a second value, and any
  value before its \<^verbatim>\<open>BEGIN\<close>.
\<close>

definition add_copy ::
  "(afmpkg_request \<Rightarrow> string option) \<Rightarrow> (string \<Rightarrow> afmpkg_request \<Rightarrow> afmpkg_request) \<Rightarrow> int \<Rightarrow> string \<Rightarrow>
   afmpkg_request \<Rightarrow> mem \<Rightarrow> string \<Rightarrow> int \<times> afmpkg_request \<times> mem" where
  "add_copy get put code msg req m line =
     (if get req \<noteq> None \<or> rq_kind req = Request_Unset
      then beside (afmpkg_request_error req code msg) m
      else let (ok, m') = c_alloc m in
        if ok then (0, put (c_string line) req, m')
        else beside (afmpkg_request_error req (- 1016) ''out of memory'') m')"

definition add_package :: "afmpkg_request \<Rightarrow> mem \<Rightarrow> string \<Rightarrow> int \<times> afmpkg_request \<times> mem" where
  "add_package = add_copy (\<lambda>r. pk_package (rq_apkg r))
     (\<lambda>v r. r\<lparr>rq_apkg := (rq_apkg r)\<lparr>pk_package := Some v\<rparr>\<rparr>) (- 1015) ''unexpected PACKAGE''"

definition add_redpakid :: "afmpkg_request \<Rightarrow> mem \<Rightarrow> string \<Rightarrow> int \<times> afmpkg_request \<times> mem" where
  "add_redpakid = add_copy (\<lambda>r. pk_redpakid (rq_apkg r))
     (\<lambda>v r. r\<lparr>rq_apkg := (rq_apkg r)\<lparr>pk_redpakid := Some v\<rparr>\<rparr>) (- 1017) ''unexpected REDPAKID''"

definition add_root :: "afmpkg_request \<Rightarrow> mem \<Rightarrow> string \<Rightarrow> int \<times> afmpkg_request \<times> mem" where
  "add_root = add_copy (\<lambda>r. pk_root (rq_apkg r))
     (\<lambda>v r. r\<lparr>rq_apkg := (rq_apkg r)\<lparr>pk_root := Some v\<rparr>\<rparr>) (- 1018) ''unexpected ROOT''"

definition add_transid :: "afmpkg_request \<Rightarrow> mem \<Rightarrow> string \<Rightarrow> int \<times> afmpkg_request \<times> mem" where
  "add_transid = add_copy rq_transid (\<lambda>v r. r\<lparr>rq_transid := Some v\<rparr>) (- 1019) ''unexpected TRANSID''"

definition add_status :: "afmpkg_request \<Rightarrow> mem \<Rightarrow> string \<Rightarrow> int \<times> afmpkg_request \<times> mem" where
  "add_status req m line =
     (if rq_kind req \<noteq> Request_Unset \<or> rq_transid req \<noteq> None
      then beside (afmpkg_request_error req (- 1020) ''unexpected STATUS'') m
      else let (ok, m') = c_alloc m in
        if ok then (0, req\<lparr>rq_transid := Some (c_string line), rq_kind := Request_Get_Status, rq_state := Request_Ready\<rparr>, m')
        else beside (afmpkg_request_error req (- 1016) ''out of memory'') m')"

definition afmpkg_request_add_line :: "afmpkg_request \<Rightarrow> mem \<Rightarrow> string \<Rightarrow> int \<times> afmpkg_request \<times> mem" where
  "afmpkg_request_add_line req m line =
     (if rq_state req \<noteq> Request_Pending then beside (afmpkg_request_error req (- 1000) ''line after end'') m
      else case key_value ''BEGIN'' line of Some v \<Rightarrow> beside (add_begin req v) m | None \<Rightarrow>
      (case key_value ''COUNT'' line of Some v \<Rightarrow> beside (add_count req v) m | None \<Rightarrow>
      (case key_value ''END'' line of Some v \<Rightarrow> beside (add_end req v) m | None \<Rightarrow>
      (case key_value ''FILE'' line of Some v \<Rightarrow> add_file req m v | None \<Rightarrow>
      (case key_value ''INDEX'' line of Some v \<Rightarrow> beside (add_index req v) m | None \<Rightarrow>
      (case key_value ''PACKAGE'' line of Some v \<Rightarrow> add_package req m v | None \<Rightarrow>
      (case key_value ''REDPAKID'' line of Some v \<Rightarrow> add_redpakid req m v | None \<Rightarrow>
      (case key_value ''ROOT'' line of Some v \<Rightarrow> add_root req m v | None \<Rightarrow>
      (case key_value ''TRANSID'' line of Some v \<Rightarrow> add_transid req m v | None \<Rightarrow>
      (case key_value ''STATUS'' line of Some v \<Rightarrow> add_status req m v | None \<Rightarrow>
        beside (afmpkg_request_error req (- 1021) ''bad line'') m))))))))))"

subsection \<open>Processing\<close>

text \<open>
  The daemon's data. \<open>ps_install\<close> and \<open>ps_uninstall\<close> are the macros \<^verbatim>\<open>afmpkg_install\<close> and
  \<^verbatim>\<open>afmpkg_uninstall\<close> of the file, which name the functions of either flavour.
\<close>

record 'w daemon =
  dm_transactions :: "transaction list"
  dm_mem :: mem
  dm_world :: 'w

record 'w package_service =
  ps_install :: "afmpkg \<Rightarrow> mem \<Rightarrow> 'w \<Rightarrow> int \<times> mem \<times> 'w"
  ps_uninstall :: "afmpkg \<Rightarrow> mem \<Rightarrow> 'w \<Rightarrow> int \<times> mem \<times> 'w"

definition record_outcome :: "int \<Rightarrow> transaction \<Rightarrow> transaction" where
  "record_outcome rc t =
     (if rc \<ge> 0 then t\<lparr>tr_success := tr_success t + 1\<rparr> else t\<lparr>tr_fail := tr_fail t - 1\<rparr>)"

definition run_operation ::
  "'w package_service \<Rightarrow> afmpkg_request \<Rightarrow> 'w daemon \<Rightarrow> int \<times> afmpkg_request \<times> 'w daemon" where
  "run_operation ps req d =
     (let add = (rq_kind req = Request_Add_Package);
          (rc, m, w) = (if add then ps_install ps else ps_uninstall ps) (rq_apkg req) (dm_mem d) (dm_world d);
          req1 = (if rc < 0
                  then snd (afmpkg_request_error req rc (if add then ''can't install'' else ''can't uninstall''))
                  else req)
      in (rc, req1, d\<lparr>dm_mem := m, dm_world := w\<rparr>))"

definition record_transaction ::
  "int \<times> int \<Rightarrow> int \<Rightarrow> afmpkg_request \<Rightarrow> 'w daemon \<Rightarrow> int \<times> afmpkg_request \<times> 'w daemon" where
  "record_transaction clk rc req d =
     (case rq_transid req of
        None \<Rightarrow> (rc, req, d)
      | Some transid \<Rightarrow>
          let (trans, ts, m) = get_transaction clk transid (rq_count req) (dm_transactions d) (dm_mem d) in
          case trans of
            None \<Rightarrow> beside (afmpkg_request_error req (- ENOMEM) ''out of memory'') (d\<lparr>dm_transactions := ts, dm_mem := m\<rparr>)
          | Some i \<Rightarrow> (rc, req, d\<lparr>dm_transactions := ts[i := record_outcome rc (ts ! i)], dm_mem := m\<rparr>))"

definition transaction_text :: "transaction \<Rightarrow> string" where
  "transaction_text t =
     c_decimal (sint (tr_count t)) @ '' '' @ c_decimal (sint (tr_success t)) @ '' '' @ c_decimal (sint (tr_fail t))"

definition get_status ::
  "int \<times> int \<Rightarrow> afmpkg_request \<Rightarrow> 'w daemon \<Rightarrow> int \<times> afmpkg_request \<times> 'w daemon" where
  "get_status clk req d =
     (case rq_transid req of
        None \<Rightarrow> beside (afmpkg_request_error req (- EINVAL) ''invalid state'') d
      | Some transid \<Rightarrow>
          let (trans, ts, m) = get_transaction clk transid 0 (dm_transactions d) (dm_mem d) in
          case trans of
            None \<Rightarrow> beside (afmpkg_request_error req (- ENOMEM) ''out of memory'') (d\<lparr>dm_transactions := ts, dm_mem := m\<rparr>)
          | Some i \<Rightarrow>
              let (ok, m') = c_alloc m;
                  str = transaction_text (ts ! i);
                  d' = d\<lparr>dm_transactions := put_transaction i ts, dm_mem := m'\<rparr>
              in if ok then (int (length str), req\<lparr>rq_scratch := Some str, rq_msg := Some str\<rparr>, d')
                 else beside (afmpkg_request_error req (- ENOMEM) ''out of memory'') d')"

definition afmpkg_request_process ::
  "'w package_service \<Rightarrow> int \<times> int \<Rightarrow> afmpkg_request \<Rightarrow> 'w daemon \<Rightarrow> int \<times> afmpkg_request \<times> 'w daemon" where
  "afmpkg_request_process ps clk req d =
     (if rq_kind req = Request_Add_Package \<or> rq_kind req = Request_Remove_Package then
        (let (rc, req1, d1) = run_operation ps req d in record_transaction clk rc req1 d1)
      else if rq_kind req = Request_Check_Add_Package \<or> rq_kind req = Request_Check_Remove_Package then (0, req, d)
      else if rq_kind req = Request_Get_Status then get_status clk req d
      else beside (afmpkg_request_error req (- EINVAL) ''invalid state'') d)"

subsection \<open>Line of the reply\<close>

text \<open>The bytes are put in the buffer as far as they fit; the index grows anyway.\<close>

definition put_byte :: "char \<Rightarrow> nat \<times> string \<Rightarrow> nat \<times> string" where
  "put_byte c = (\<lambda>(idx, buf). (Suc idx, if idx < length buf then buf[idx := c] else buf))"

definition afmpkg_request_make_reply_line :: "afmpkg_request \<Rightarrow> string \<Rightarrow> nat \<times> string" where
  "afmpkg_request_make_reply_line req line =
     (let r1 = fold put_byte (if rq_scode req \<ge> 0 then ''OK'' else ''ERROR'') (0, line);
          r2 = (case rq_msg req of
                  Some (c # cs) \<Rightarrow> fold put_byte (c # cs) (put_byte (CHR '' '') r1)
                | _ \<Rightarrow> r1);
          (idx, line) = put_byte newline r2
      in (idx, if idx < length line then line[idx := NUL] else line))"

section \<open>Well formed requests\<close>

text \<open>
  A request is in error exactly when it has a negative status code, and then it has a
  message; nothing is filled before the kind is known; the status of a transaction is asked
  for an identifier and takes no other line; an index never exceeds the count.
\<close>

definition untouched :: "afmpkg_request \<Rightarrow> bool" where
  "untouched req \<longleftrightarrow> rq_index req = 0 \<and> rq_count req = 0 \<and> rq_transid req = None \<and>
     rq_apkg req = no_package\<lparr>pk_files := Some (Entry [] 0 [] [])\<rparr>"

definition request_inv :: "afmpkg_request \<Rightarrow> bool" where
  "request_inv req \<longleftrightarrow>
     rq_state req \<noteq> Request_Ok \<and> rq_scode req \<le> 0 \<and>
     (rq_state req = Request_Error \<longleftrightarrow> rq_scode req \<noteq> 0) \<and>
     (rq_scode req = 0 \<longleftrightarrow> rq_msg req = None) \<and>
     (\<exists>t. pk_files (rq_apkg req) = Some t \<and> wf_entry t) \<and>
     (rq_kind req = Request_Unset \<longrightarrow> untouched req) \<and>
     (rq_kind req = Request_Get_Status \<longrightarrow> rq_transid req \<noteq> None \<and> rq_state req \<noteq> Request_Pending) \<and>
     (rq_index req \<noteq> 0 \<longrightarrow> rq_count req \<noteq> 0 \<longrightarrow> rq_index req \<le> rq_count req)"

text \<open>What each line does to a request that is well formed.\<close>

definition step_ok :: "int \<times> afmpkg_request \<times> mem \<Rightarrow> bool" where
  "step_ok r \<longleftrightarrow> (case r of (rc, req, m) \<Rightarrow>
     request_inv req \<and> rc \<le> 0 \<and> (rc < 0 \<longleftrightarrow> rq_state req = Request_Error))"

lemma request_error_ok:
  assumes "request_inv req" "code < 0"
  shows "step_ok (beside (afmpkg_request_error req code msg) m)"
  using assms
  by (auto simp: step_ok_def beside_def afmpkg_request_error_def request_inv_def untouched_def)

lemma request_init_inv:
  assumes "afmpkg_request_init m = (rc, req, m')" "0 \<le> rc"
  shows "request_inv req \<and> rq_state req = Request_Pending"
  using assms
  by (auto simp: afmpkg_request_init_def path_entry_create_root_def request_inv_def untouched_def no_package_def
      wf_entry.simps Let_def split: prod.splits if_splits)

lemma get_operation_kind_range: "get_operation_kind s \<noteq> Request_Get_Status"
  by (simp add: get_operation_kind_def)

lemma add_begin_ok:
  assumes "request_inv req" "rq_state req = Request_Pending"
  shows "step_ok (beside (add_begin req v) m)"
  using assms get_operation_kind_range [of "c_string v"]
  by (auto simp: add_begin_def Let_def request_error_ok step_ok_def beside_def request_inv_def
      afmpkg_request_error_def untouched_def)

lemma add_end_ok:
  assumes "request_inv req" "rq_state req = Request_Pending"
  shows "step_ok (beside (add_end req v) m)"
  using assms
  by (auto simp: add_end_def step_ok_def beside_def request_inv_def afmpkg_request_error_def untouched_def)

lemma add_count_ok:
  assumes "request_inv req" "rq_state req = Request_Pending"
  shows "step_ok (beside (add_count req v) m)"
  using assms
  by (auto simp: add_count_def step_ok_def beside_def request_inv_def afmpkg_request_error_def untouched_def Let_def
      split: prod.splits)

lemma add_index_ok:
  assumes "request_inv req" "rq_state req = Request_Pending"
  shows "step_ok (beside (add_index req v) m)"
  using assms
  by (auto simp: add_index_def step_ok_def beside_def request_inv_def afmpkg_request_error_def untouched_def Let_def
      split: prod.splits)

lemma add_file_ok:
  assumes inv: "request_inv req" and st: "rq_state req = Request_Pending" and len: "length v < 2 ^ 32"
  shows "step_ok (add_file req m v)"
proof -
  obtain t where t: "pk_files (rq_apkg req) = Some t" "wf_entry t"
    using inv by (auto simp: request_inv_def)
  obtain rc r t' m' where add: "path_entry_add_length t m [] v (length v) = (rc, r, t', m')"
    using prod_cases4 by blast
  have "wf_entry t'"
    using path_entry_add_length_refines [OF t(2) _ len _ add] by (simp add: path_entry_exists_def)
  let ?req1 = "req\<lparr>rq_apkg := (rq_apkg req)\<lparr>pk_files := Some t'\<rparr>\<rparr>"
  show ?thesis
  proof (cases "rq_kind req = Request_Unset")
    case True
    with request_error_ok [OF inv] show ?thesis by (simp add: add_file_def)
  next
    case False
    with inv \<open>wf_entry t'\<close> have inv1: "request_inv ?req1" by (simp add: request_inv_def)
    then have "step_ok (0, ?req1, m')" using st by (simp add: step_ok_def)
    with request_error_ok [OF inv1, of "- 1010" _ m'] False t add show ?thesis
      by (simp add: add_file_def Let_def)
  qed
qed

lemma add_copy_ok:
  assumes "request_inv req" "rq_state req = Request_Pending" "code < 0"
    and "\<And>v. rq_kind req \<noteq> Request_Unset \<Longrightarrow> request_inv (put v req) \<and> rq_state (put v req) = Request_Pending"
  shows "step_ok (add_copy get put code msg req m v)"
proof -
  have "rq_kind req \<noteq> Request_Unset \<Longrightarrow> step_ok (0, put v req, m)" for v m
    using assms(4) by (simp add: step_ok_def)
  then show ?thesis
    using request_error_ok [OF assms(1,3)] request_error_ok [OF assms(1), of "- 1016"]
    by (simp add: add_copy_def Let_def split: prod.splits)
qed

lemma add_status_ok:
  assumes "request_inv req" "rq_state req = Request_Pending"
  shows "step_ok (add_status req m v)"
  using assms
  by (auto simp: add_status_def step_ok_def beside_def request_inv_def afmpkg_request_error_def untouched_def Let_def
      split: prod.splits)

lemma key_value_length: "key_value key line = Some v \<Longrightarrow> length v \<le> length line"
  by (auto simp: key_value_def split: if_splits)

lemma add_line_ok:
  assumes inv: "request_inv req" and len: "length line < 2 ^ 32"
  shows "step_ok (afmpkg_request_add_line req m line)"
proof (cases "rq_state req = Request_Pending")
  case True
  have copies: "step_ok (add_package req m v)" "step_ok (add_redpakid req m v)" "step_ok (add_root req m v)"
    "step_ok (add_transid req m v)" for v
    unfolding add_package_def add_redpakid_def add_root_def add_transid_def
    using inv True by (intro add_copy_ok; simp add: request_inv_def)+
  have fil: "key_value ''FILE'' line = Some v \<Longrightarrow> step_ok (add_file req m v)" for v
    using key_value_length [of "''FILE''" line v] len by (intro add_file_ok [OF inv True]) simp
  show ?thesis
    using fil copies add_begin_ok [OF inv True] add_count_ok [OF inv True] add_end_ok [OF inv True]
      add_index_ok [OF inv True] add_status_ok [OF inv True] request_error_ok [OF inv]
    by (simp add: afmpkg_request_add_line_def True split: option.split)
next
  case False
  with request_error_ok [OF inv] show ?thesis by (simp add: afmpkg_request_add_line_def)
qed

text \<open>The first error of a request is the one it reports.\<close>

lemma add_line_sticky:
  assumes "request_inv req" "rq_state req = Request_Error"
  shows "afmpkg_request_add_line req m line = (- 1000, req, m)"
  using assms by (simp add: afmpkg_request_add_line_def afmpkg_request_error_def beside_def request_inv_def)

section \<open>Processing and its report\<close>

lemma request_error_simps [simp]:
  "fst (afmpkg_request_error req code msg) = code"
  "rq_scode req = 0 \<Longrightarrow> snd (afmpkg_request_error req code msg) =
     req\<lparr>rq_state := Request_Error, rq_scode := code, rq_msg := Some msg\<rparr>"
  "rq_scode req \<noteq> 0 \<Longrightarrow> snd (afmpkg_request_error req code msg) = req"
  by (simp_all add: afmpkg_request_error_def)

lemma process_reports:
  assumes "rq_scode req = 0" "afmpkg_request_process ps clk req d = (rc, req', d')"
  shows "rq_scode req' \<le> 0 \<and> (rq_scode req' < 0 \<longleftrightarrow> rc < 0) \<and> rq_kind req' = rq_kind req"
proof -
  obtain rc1 m1 w1 where run: "(if rq_kind req = Request_Add_Package then ps_install ps else ps_uninstall ps)
      (rq_apkg req) (dm_mem d) (dm_world d) = (rc1, m1, w1)"
    using prod_cases3 by blast
  show ?thesis
    using assms run
    by (auto simp: afmpkg_request_process_def run_operation_def record_transaction_def get_status_def beside_def Let_def
        split: if_splits option.splits prod.splits)
qed

section \<open>Transactions as a map\<close>

text \<open>
  The transactions that are alive at a time, by their identifiers. The list never holds two
  transactions of the same identifier.
\<close>

definition trans_inv :: "transaction list \<Rightarrow> bool" where
  "trans_inv ts \<longleftrightarrow> distinct (map tr_id ts)"

definition live :: "int \<Rightarrow> transaction list \<Rightarrow> string \<Rightarrow> transaction option" where
  "live now ts = map_of (map (\<lambda>t. (tr_id t, t)) (cleanup_transactions now ts))"

definition new_transaction :: "int \<times> int \<Rightarrow> string \<Rightarrow> 32 word \<Rightarrow> transaction" where
  "new_transaction clk transid count =
     \<lparr>tr_id = transid, tr_expire = snd clk + RETENTION_SECONDS, tr_count = count, tr_success = 0, tr_fail = 0\<rparr>"

definition as_map :: "transaction list \<Rightarrow> string \<Rightarrow> transaction option" where
  "as_map ts = map_of (map (\<lambda>t. (tr_id t, t)) ts)"

lemma live_as_map: "live now ts = as_map (cleanup_transactions now ts)"
  by (simp add: live_def as_map_def)

lemma trans_inv_cleanup: "trans_inv ts \<Longrightarrow> trans_inv (cleanup_transactions now ts)"
  unfolding trans_inv_def cleanup_transactions_def by (induction ts) auto

lemma as_map_None: "as_map ts k = None \<longleftrightarrow> k \<notin> set (map tr_id ts)"
  by (auto simp: as_map_def map_of_eq_None_iff image_iff)

lemma as_map_Some: "trans_inv ts \<Longrightarrow> as_map ts k = Some t \<longleftrightarrow> t \<in> set ts \<and> tr_id t = k"
  unfolding as_map_def trans_inv_def by (subst map_of_eq_Some_iff) (auto simp: comp_def)

lemma as_map_nth: "trans_inv ts \<Longrightarrow> i < length ts \<Longrightarrow> as_map ts (tr_id (ts ! i)) = Some (ts ! i)"
  by (simp add: as_map_Some)

lemma map_eqI: "(\<And>k v. m k = Some v \<longleftrightarrow> m' k = Some v) \<Longrightarrow> m = m'"
  by (rule ext) (metis option.exhaust)

lemma find_transaction_Some:
  "find_transaction k ts = Some i \<Longrightarrow> i < length ts \<and> tr_id (ts ! i) = k"
  by (auto simp: find_transaction_def dest: find_index_Some)

lemma find_transaction_None:
  "find_transaction k ts = None \<longleftrightarrow> as_map ts k = None"
  by (auto simp: find_transaction_def find_None_iff as_map_None in_set_zip in_set_conv_nth) force+

lemma as_map_update:
  assumes "trans_inv ts" "i < length ts" "tr_id t = tr_id (ts ! i)"
  shows "trans_inv (ts[i := t]) \<and> as_map (ts[i := t]) = (as_map ts)(tr_id t \<mapsto> t)"
proof -
  have ids: "map tr_id (ts[i := t]) = map tr_id ts"
    using assms by (intro list_update_map_key) auto
  then have inv: "trans_inv (ts[i := t])" using assms(1) by (simp add: trans_inv_def)
  moreover have "as_map (ts[i := t]) k = ((as_map ts)(tr_id t \<mapsto> t)) k" for k
  proof (cases "k \<in> set (map tr_id ts)")
    case True
    then obtain j where j: "j < length ts" "k = tr_id (ts ! j)" by (auto simp: in_set_conv_nth)
    with as_map_nth [OF inv, of j] as_map_nth [OF assms(1), of j] assms show ?thesis
      by (auto simp: nth_list_update trans_inv_def nth_eq_iff_index_eq distinct_conv_nth split: if_splits)
  next
    case False
    with ids as_map_None [of "ts[i := t]" k] as_map_None [of ts k] assms(2,3) show ?thesis by auto
  qed
  ultimately show ?thesis by blast
qed

lemma as_map_remove:
  assumes "trans_inv ts" "i < length ts"
  shows "trans_inv (put_transaction i ts) \<and> as_map (put_transaction i ts) = (as_map ts)(tr_id (ts ! i) := None)"
proof -
  obtain a b t where abt: "ts = a @ t # b" "put_transaction i ts = a @ b" "ts ! i = t"
    using id_take_nth_drop [OF assms(2)] put_transaction_def by blast
  with assms(1) have inv: "trans_inv (a @ t # b)" by simp
  then have inv': "trans_inv (a @ b)" by (auto simp: trans_inv_def)
  have "as_map (a @ b) = (as_map (a @ t # b))(tr_id t := None)"
    using inv
    by (intro map_eqI) (auto simp: as_map_Some [OF inv] as_map_Some [OF inv'] trans_inv_def rev_image_eqI)
  with abt inv' show ?thesis by simp
qed

lemma get_transaction_cases:
  assumes inv: "trans_inv ts" and get: "get_transaction clk k count ts m = (r, ts', m')"
  shows "trans_inv ts' \<and>
     (case r of
        Some i \<Rightarrow> i < length ts' \<and> tr_id (ts' ! i) = k \<and>
          (case live (fst clk) ts k of
             Some t \<Rightarrow> ts' ! i = t \<and> m' = m \<and> as_map ts' = live (fst clk) ts
           | None \<Rightarrow> count \<noteq> 0 \<and> ts' ! i = new_transaction clk k count \<and> c_alloc m = (True, m') \<and>
               as_map ts' = (live (fst clk) ts)(k \<mapsto> new_transaction clk k count))
      | None \<Rightarrow> live (fst clk) ts k = None \<and> as_map ts' = live (fst clk) ts \<and> (count = 0 \<or> \<not> fst (c_alloc m)))"
proof (cases "find_transaction k (cleanup_transactions (fst clk) ts)")
  case (Some i)
  with get have r: "r = Some i" "ts' = cleanup_transactions (fst clk) ts" "m' = m"
    by (auto simp: get_transaction_def Let_def)
  have inv': "trans_inv ts'" using trans_inv_cleanup [OF inv] r by simp
  with find_transaction_Some [OF Some] r as_map_nth [OF inv', of i] show ?thesis
    by (auto simp: live_as_map)
next
  case None
  then have "live (fst clk) ts k = None" using find_transaction_None live_as_map by simp
  moreover have "trans_inv (new_transaction clk k count # cleanup_transactions (fst clk) ts)"
    using None trans_inv_cleanup [OF inv] as_map_None [of _ k]
    by (auto simp: find_transaction_None trans_inv_def new_transaction_def)
  ultimately show ?thesis
    using get None trans_inv_cleanup [OF inv, of "fst clk"]
    by (auto simp: get_transaction_def Let_def live_as_map new_transaction_def as_map_def
        split: if_splits prod.splits)
qed

text \<open>
  What the processing of a request is for the map of the transactions alive: the outcome of
  an operation is accounted to its transaction, which is created at its first request if its
  count is known and memory is available; the status is given once, the transaction is over.
\<close>

definition account ::
  "int \<times> int \<Rightarrow> string \<Rightarrow> 32 word \<Rightarrow> bool \<Rightarrow> int \<Rightarrow> (string \<Rightarrow> transaction option) \<Rightarrow>
   int \<times> (string \<Rightarrow> transaction option)" where
  "account clk k count ok rc L =
     (case L k of
        Some t \<Rightarrow> (rc, L(k \<mapsto> record_outcome rc t))
      | None \<Rightarrow> if count \<noteq> 0 \<and> ok then (rc, L(k \<mapsto> record_outcome rc (new_transaction clk k count)))
                else (- ENOMEM, L))"

definition report ::
  "string \<Rightarrow> bool \<Rightarrow> (string \<Rightarrow> transaction option) \<Rightarrow> (string option) \<times> (string \<Rightarrow> transaction option)" where
  "report k ok L =
     (case L k of Some t \<Rightarrow> (if ok then Some (transaction_text t) else None, L(k := None)) | None \<Rightarrow> (None, L))"

lemma record_outcome_id [simp]: "tr_id (record_outcome rc t) = tr_id t"
  by (simp add: record_outcome_def)

lemma record_transaction_account:
  assumes inv: "trans_inv (dm_transactions d)" and k: "rq_transid req = Some k"
    and run: "record_transaction clk rc req d = (rc', req', d')"
  shows "trans_inv (dm_transactions d') \<and>
    (rc', as_map (dm_transactions d')) =
      account clk k (rq_count req) (fst (c_alloc (dm_mem d))) rc (live (fst clk) (dm_transactions d))"
proof -
  obtain r ts m where get: "get_transaction clk k (rq_count req) (dm_transactions d) (dm_mem d) = (r, ts, m)"
    using prod_cases3 by blast
  note c = get_transaction_cases [OF inv get]
  show ?thesis
  proof (cases r)
    case None
    with c run get k show ?thesis
      by (auto simp: record_transaction_def account_def beside_def split: option.splits)
  next
    case (Some i)
    have "trans_inv (ts[i := record_outcome rc (ts ! i)]) \<and>
        as_map (ts[i := record_outcome rc (ts ! i)]) = (as_map ts)(k \<mapsto> record_outcome rc (ts ! i))"
      using c Some as_map_update [of ts i "record_outcome rc (ts ! i)"] by simp
    with c run get k Some show ?thesis
      by (auto simp: record_transaction_def account_def split: option.splits)
  qed
qed

lemma get_status_report:
  assumes inv: "trans_inv (dm_transactions d)" and k: "rq_transid req = Some k" and sc: "rq_scode req = 0" "rq_msg req = None"
    and run: "get_status clk req d = (rc, req', d')"
  shows "trans_inv (dm_transactions d') \<and>
    (if rc < 0 then None else rq_msg req', as_map (dm_transactions d')) =
      report k (fst (c_alloc (dm_mem d))) (live (fst clk) (dm_transactions d))"
proof -
  obtain r ts m where get: "get_transaction clk k 0 (dm_transactions d) (dm_mem d) = (r, ts, m)"
    using prod_cases3 by blast
  note c = get_transaction_cases [OF inv get]
  show ?thesis
  proof (cases r)
    case None
    with c run get k show ?thesis
      by (auto simp: get_status_def report_def beside_def split: option.splits)
  next
    case (Some i)
    with c as_map_remove [of ts i] run get k show ?thesis
      by (auto simp: get_status_def report_def beside_def Let_def split: option.splits prod.splits if_splits)
  qed
qed

lemma process_transactions:
  assumes "trans_inv (dm_transactions d)" and "rq_transid req = Some k" and "rq_scode req = 0" and "rq_msg req = None"
    and "afmpkg_request_process ps clk req d = (rc, req', d')"
  shows "trans_inv (dm_transactions d') \<and>
    (rq_kind req \<in> {Request_Add_Package, Request_Remove_Package} \<longrightarrow>
       (case (if rq_kind req = Request_Add_Package then ps_install ps else ps_uninstall ps)
               (rq_apkg req) (dm_mem d) (dm_world d) of
          (rc0, m0, w0) \<Rightarrow> dm_world d' = w0 \<and>
            (rc, as_map (dm_transactions d')) =
              account clk k (rq_count req) (fst (c_alloc m0)) rc0 (live (fst clk) (dm_transactions d)))) \<and>
    (rq_kind req = Request_Get_Status \<longrightarrow>
       dm_world d' = dm_world d \<and>
       (if rc < 0 then None else rq_msg req', as_map (dm_transactions d')) =
         report k (fst (c_alloc (dm_mem d))) (live (fst clk) (dm_transactions d)))"
proof -
  consider (pkg) "rq_kind req \<in> {Request_Add_Package, Request_Remove_Package}" | (status) "rq_kind req = Request_Get_Status"
    | (other) "rq_kind req \<in> {Request_Check_Add_Package, Request_Check_Remove_Package, Request_Unset}"
    by (cases "rq_kind req") auto
  then show ?thesis
  proof cases
    case pkg
    obtain rc0 m0 w0 where op: "(if rq_kind req = Request_Add_Package then ps_install ps else ps_uninstall ps)
        (rq_apkg req) (dm_mem d) (dm_world d) = (rc0, m0, w0)"
      using prod_cases3 by blast
    let ?d1 = "d\<lparr>dm_mem := m0, dm_world := w0\<rparr>"
    obtain req1 where r1: "run_operation ps req d = (rc0, req1, ?d1)" "rq_transid req1 = Some k" "rq_count req1 = rq_count req"
      using op assms(2,3) by (cases "rc0 < 0") (auto simp: run_operation_def Let_def)
    with pkg assms(5) have run: "record_transaction clk rc0 req1 ?d1 = (rc, req', d')"
      by (auto simp: afmpkg_request_process_def)
    have "dm_world d' = w0"
      using run by (auto simp: record_transaction_def beside_def Let_def split: option.splits prod.splits)
    with record_transaction_account [OF _ r1(2) run] assms(1) r1(3) pkg op show ?thesis by auto
  next
    case status
    then have run: "get_status clk req d = (rc, req', d')" using assms(5) by (simp add: afmpkg_request_process_def)
    have "dm_world d' = dm_world d"
      using run by (auto simp: get_status_def beside_def Let_def split: option.splits prod.splits if_splits)
    with get_status_report [OF assms(1-4) run] status show ?thesis by auto
  next
    case other
    with assms(1,5) show ?thesis by (auto simp: afmpkg_request_process_def beside_def split: if_splits)
  qed
qed

section \<open>The ledger of the transactions\<close>

text \<open>
  What a client may know of the transactions: for each identifier its date of expiry, the count of packages that it
  announced and the outcomes of its operations, in their order. The counters of the daemon are the number of
  successes and the opposite of the number of failures, as 32 bits numbers.
\<close>

type_synonym ledger = "string \<Rightarrow> (int \<times> 32 word \<times> bool list) option"

definition books :: "transaction \<Rightarrow> int \<times> 32 word \<times> bool list \<Rightarrow> bool" where
  "books t b \<longleftrightarrow> (case b of (expire, count, outcomes) \<Rightarrow>
     tr_expire t = expire \<and> tr_count t = count \<and>
     tr_success t = of_nat (count_list outcomes True) \<and> tr_fail t = - of_nat (count_list outcomes False))"

definition keeps :: "transaction list \<Rightarrow> ledger \<Rightarrow> bool" where
  "keeps ts B \<longleftrightarrow> distinct (map tr_id ts) \<and> (\<forall>k. rel_option books (map_of (map (\<lambda>t. (tr_id t, t)) ts) k) (B k))"

definition alive :: "int \<Rightarrow> ledger \<Rightarrow> ledger" where
  "alive now B k = (case B k of Some (e, r) \<Rightarrow> if now < e then Some (e, r) else None | None \<Rightarrow> None)"

text \<open>An operation adds its outcome; a status is given once, with the signed values of the counters.\<close>

definition ledger_add :: "int \<Rightarrow> string \<Rightarrow> 32 word \<Rightarrow> bool \<Rightarrow> int \<Rightarrow> ledger \<Rightarrow> int \<times> ledger" where
  "ledger_add now k count ok rc B =
     (case B k of
        Some (e, c, outcomes) \<Rightarrow> (rc, B(k \<mapsto> (e, c, outcomes @ [rc \<ge> 0])))
      | None \<Rightarrow> if count \<noteq> 0 \<and> ok then (rc, B(k \<mapsto> (now + 3600, count, [rc \<ge> 0]))) else (- ENOMEM, B))"

definition ledger_status :: "string \<Rightarrow> bool \<Rightarrow> ledger \<Rightarrow> string option \<times> ledger" where
  "ledger_status k ok B =
     (case B k of
        None \<Rightarrow> (None, B)
      | Some (e, c, outcomes) \<Rightarrow>
          (if ok then Some (c_decimal (sint c) @ '' '' @
               c_decimal (sint (of_nat (count_list outcomes True) :: 32 word)) @ '' '' @
               c_decimal (sint (- of_nat (count_list outcomes False) :: 32 word)))
           else None, B(k := None)))"

lemma books_outcome: "books t (e, c, os) \<Longrightarrow> books (record_outcome rc t) (e, c, os @ [rc \<ge> 0])"
  by (simp add: books_def record_outcome_def)

lemma books_new: "books (record_outcome rc (new_transaction clk k n)) (snd clk + 3600, n, [rc \<ge> 0])"
  by (simp add: books_def record_outcome_def new_transaction_def RETENTION_SECONDS_def)

lemma keeps_as_map: "keeps ts B \<longleftrightarrow> trans_inv ts \<and> (\<forall>k. rel_option books (as_map ts k) (B k))"
  by (simp add: keeps_def trans_inv_def as_map_def)

lemma live_restricts:
  assumes "trans_inv ts"
  shows "live now ts k = (case as_map ts k of Some t \<Rightarrow> if now < tr_expire t then Some t else None | None \<Rightarrow> None)"
proof -
  have l: "live now ts k = Some v \<longleftrightarrow> as_map ts k = Some v \<and> now < tr_expire v" for v
    using as_map_Some [OF assms, of k v] as_map_Some [OF trans_inv_cleanup [OF assms, of now], of k v]
    by (auto simp: live_as_map cleanup_transactions_def)
  show ?thesis
  proof (cases "as_map ts k")
    case None
    then have "live now ts k \<noteq> Some v" for v by (simp add: l)
    with None show ?thesis by (cases "live now ts k") auto
  next
    case (Some t)
    then have "live now ts k = Some v \<longleftrightarrow> t = v \<and> now < tr_expire t" for v using l by auto
    with Some show ?thesis by (cases "live now ts k") auto
  qed
qed

lemma keeps_live: "keeps ts B \<Longrightarrow> rel_option books (live now ts k) (alive now B k)"
  using live_restricts [of ts now k]
  by (auto simp: keeps_as_map alive_def books_def elim!: allE [of _ k] elim: option.rel_cases split: option.splits)

lemma alive_empty [simp]: "alive now (\<lambda>k. None) = (\<lambda>k. None)"
  by (rule ext) (simp add: alive_def)

lemma account_books:
  assumes "\<And>k. rel_option books (L k) (B k)"
  shows "fst (account clk k n ok rc L) = fst (ledger_add (snd clk) k n ok rc B) \<and>
    rel_option books (snd (account clk k n ok rc L) j) (snd (ledger_add (snd clk) k n ok rc B) j)"
proof (cases "B k")
  case None
  then have "L k = None" using assms [of k] by simp
  with None assms [of j] books_new [of rc clk k n] show ?thesis by (simp add: account_def ledger_add_def)
next
  case (Some b)
  then obtain t e c os where "L k = Some t" "b = (e, c, os)" "books t (e, c, os)"
    using assms [of k] by (cases b) (auto simp: option_rel_Some2)
  with Some assms [of j] books_outcome [of t e c os rc] show ?thesis by (simp add: account_def ledger_add_def)
qed

lemma report_books:
  assumes "\<And>k. rel_option books (L k) (B k)"
  shows "fst (report k ok L) = fst (ledger_status k ok B) \<and>
    rel_option books (snd (report k ok L) j) (snd (ledger_status k ok B) j)"
proof (cases "B k")
  case None
  then have "L k = None" using assms [of k] by simp
  with None assms [of j] show ?thesis by (simp add: report_def ledger_status_def)
next
  case (Some b)
  then obtain t e c os where "L k = Some t" "b = (e, c, os)" "books t (e, c, os)"
    using assms [of k] by (cases b) (auto simp: option_rel_Some2)
  with Some assms [of j] show ?thesis by (simp add: report_def ledger_status_def books_def transaction_text_def)
qed

text \<open>C5: The processing of requests keeps the ledger of the transactions: an installation or a removal is
  run and its outcome is added to those of the transaction of the request, which is created
  for an hour if it is not known, unless it has no count or no memory is left; the status of a transaction
  answers the announced count, the number of the successes and the opposite of the number of the failures (the code
  decrements the counter of failures), and forgets the transaction; the other requests
  change nothing; the transactions that have expired are forgotten.\<close>

theorem request_process_accounts:
  assumes "keeps (dm_transactions d) B" and "rq_transid req = Some k" and "rq_scode req = 0" and "rq_msg req = None"
    and "afmpkg_request_process ps clk req d = (rc, req', d')"
  shows "if rq_kind req \<in> {Request_Add_Package, Request_Remove_Package} then
       (case (if rq_kind req = Request_Add_Package then ps_install ps else ps_uninstall ps)
               (rq_apkg req) (dm_mem d) (dm_world d) of
          (rc0, m0, w0) \<Rightarrow>
            (case ledger_add (snd clk) k (rq_count req) (fst (c_alloc m0)) rc0 (alive (fst clk) B) of
               (rc1, B') \<Rightarrow> dm_world d' = w0 \<and> rc = rc1 \<and> keeps (dm_transactions d') B'))
     else if rq_kind req = Request_Get_Status then
       (case ledger_status k (fst (c_alloc (dm_mem d))) (alive (fst clk) B) of
          (answer, B') \<Rightarrow> dm_world d' = dm_world d \<and> (if rc < 0 then None else rq_msg req') = answer \<and>
            keeps (dm_transactions d') B')
     else d' = d"
proof -
  have inv: "trans_inv (dm_transactions d)" using assms(1) by (simp add: keeps_as_map)
  note p = process_transactions [OF inv assms(2-5)]
  note a = account_books [of "live (fst clk) (dm_transactions d)" "alive (fst clk) B", OF keeps_live [OF assms(1)]]
  note r = report_books [of "live (fst clk) (dm_transactions d)" "alive (fst clk) B", OF keeps_live [OF assms(1)]]
  consider (pkg) "rq_kind req \<in> {Request_Add_Package, Request_Remove_Package}" | (status) "rq_kind req = Request_Get_Status"
    | (other) "rq_kind req \<in> {Request_Check_Add_Package, Request_Check_Remove_Package, Request_Unset}"
    by (cases "rq_kind req") auto
  then show ?thesis
  proof cases
    case pkg
    obtain rc0 m0 w0 where op: "(if rq_kind req = Request_Add_Package then ps_install ps else ps_uninstall ps)
        (rq_apkg req) (dm_mem d) (dm_world d) = (rc0, m0, w0)"
      using prod_cases3 by blast
    have e: "account clk k (rq_count req) (fst (c_alloc m0)) rc0 (live (fst clk) (dm_transactions d)) =
        (rc, as_map (dm_transactions d'))" "dm_world d' = w0" using p pkg op by auto
    with a [of clk k "rq_count req" "fst (c_alloc m0)" rc0] p [THEN conjunct1] pkg op show ?thesis
      by (simp add: keeps_as_map case_prod_unfold)
  next
    case status
    then have e: "report k (fst (c_alloc (dm_mem d))) (live (fst clk) (dm_transactions d)) =
        (if rc < 0 then None else rq_msg req', as_map (dm_transactions d'))" using p by simp
    have "dm_world d' = dm_world d" using p status by simp
    with e r [of k "fst (c_alloc (dm_mem d))"] p [THEN conjunct1] status show ?thesis
      by (simp add: keeps_as_map case_prod_unfold)
  next
    case other
    with assms(5) have "d' = d" by (auto simp: afmpkg_request_process_def beside_def)
    with other show ?thesis by auto
  qed
qed

definition failing_service :: "nat package_service" where
  "failing_service = \<lparr>ps_install = (\<lambda>_ m w. (- 5, m, Suc w)), ps_uninstall = (\<lambda>_ m w. (0, m, w))\<rparr>"

definition demo_request :: afmpkg_request where
  "demo_request =
     (fst (snd (afmpkg_request_init [])))\<lparr>rq_state := Request_Ready, rq_kind := Request_Add_Package,
        rq_count := 1, rq_index := 1, rq_transid := Some ''t''\<rparr>"

definition demo_daemon :: "nat daemon" where
  "demo_daemon = \<lparr>dm_transactions = [], dm_mem = [], dm_world = 0\<rparr>"

text \<open>After a request that failed, the number of failures of its transaction is minus one.\<close>

theorem request_process_accounts_witness:
  "case afmpkg_request_process failing_service (10, 10) demo_request demo_daemon of
     (rc, req', d') \<Rightarrow> rc = - 5 \<and> dm_world d' = 1 \<and> keeps (dm_transactions d') [''t'' \<mapsto> (3610, 1, [False])]"
proof -
  obtain rc req' d' where run: "afmpkg_request_process failing_service (10, 10) demo_request demo_daemon = (rc, req', d')"
    using prod_cases3 by blast
  have "keeps (dm_transactions demo_daemon) Map.empty" "rq_transid demo_request = Some ''t''" "rq_scode demo_request = 0"
    "rq_msg demo_request = None" "rq_kind demo_request = Request_Add_Package" "rq_count demo_request = 1"
    by (simp_all add: demo_daemon_def demo_request_def keeps_def afmpkg_request_init_def path_entry_create_root_def)
  with request_process_accounts [OF this(1-4) run] run show ?thesis
    by (simp add: failing_service_def demo_daemon_def ledger_add_def)
qed

section \<open>Messages\<close>

text \<open>The message of a request never holds an end of line.\<close>

definition plain_msg :: "afmpkg_request \<Rightarrow> bool" where
  "plain_msg req \<longleftrightarrow> (\<forall>s. rq_msg req = Some s \<longrightarrow> newline \<notin> set s)"

lemma plain_msg_updates [simp]:
  "plain_msg (rq_kind_update f1 req) = plain_msg req" "plain_msg (rq_state_update f2 req) = plain_msg req"
  "plain_msg (rq_count_update f3 req) = plain_msg req" "plain_msg (rq_index_update f4 req) = plain_msg req"
  "plain_msg (rq_transid_update f5 req) = plain_msg req" "plain_msg (rq_apkg_update f6 req) = plain_msg req"
  by (simp_all add: plain_msg_def)

lemma plain_error [simp]:
  "newline \<notin> set msg \<Longrightarrow> plain_msg req \<Longrightarrow> plain_msg (snd (afmpkg_request_error req code msg))"
  by (simp add: plain_msg_def afmpkg_request_error_def)

lemma plain_beside [simp]: "plain_msg (fst (snd (beside r m))) = plain_msg (snd r)"
  by (simp add: beside_def)

lemma plain_keys:
  assumes "plain_msg req"
  shows "plain_msg (snd (add_begin req v))" "plain_msg (snd (add_count req v))" "plain_msg (snd (add_end req v))"
    "plain_msg (snd (add_index req v))" "plain_msg (fst (snd (add_file req m v)))" "plain_msg (fst (snd (add_status req m v)))"
  using assms
  by (simp_all add: add_begin_def add_count_def add_end_def add_index_def add_file_def add_status_def Let_def case_prod_unfold
      split: option.split)

lemma plain_copies:
  assumes "plain_msg req"
  shows "plain_msg (fst (snd (add_package req m v)))" "plain_msg (fst (snd (add_redpakid req m v)))"
    "plain_msg (fst (snd (add_root req m v)))" "plain_msg (fst (snd (add_transid req m v)))"
  using assms
  by (simp_all add: add_package_def add_redpakid_def add_root_def add_transid_def add_copy_def Let_def case_prod_unfold)

lemma plain_add_line: "plain_msg req \<Longrightarrow> plain_msg (fst (snd (afmpkg_request_add_line req m line)))"
  by (simp add: afmpkg_request_add_line_def plain_keys plain_copies split: option.split)

lemma newline_decimal: "newline \<notin> set (c_decimal i)"
proof -
  have "newline \<notin> set (nat_digits n)" for n using nat_digits_digits [of newline n] by (auto simp: is_digit_def)
  then show ?thesis by (simp add: c_decimal_def)
qed

lemma plain_process:
  assumes "plain_msg req" "afmpkg_request_process ps clk req d = (rc, req', d')"
  shows "plain_msg req'"
proof -
  have "plain_msg (fst (snd (run_operation ps r dd)))" if "plain_msg r" for r :: afmpkg_request and dd
    using that by (simp add: run_operation_def Let_def case_prod_unfold)
  moreover have "plain_msg (fst (snd (record_transaction clk rc r dd)))" if "plain_msg r" for rc r and dd :: "'a daemon"
    using that by (simp add: record_transaction_def Let_def case_prod_unfold split: option.split)
  moreover have "plain_msg (fst (snd (get_status clk req d)))"
  proof -
    have "plain_msg (r\<lparr>rq_scratch := x, rq_msg := Some (transaction_text t)\<rparr>)" for r x t
      by (simp add: plain_msg_def transaction_text_def newline_decimal)
    with assms(1) show ?thesis by (simp add: get_status_def Let_def case_prod_unfold split: option.split)
  qed
  moreover have "req' = fst (snd (afmpkg_request_process ps clk req d))" using assms(2) by simp
  ultimately show ?thesis using assms(1) by (simp add: afmpkg_request_process_def Let_def case_prod_unfold)
qed

section \<open>Text of the reply\<close>

definition reply_text :: "afmpkg_request \<Rightarrow> string" where
  "reply_text req =
     (if rq_scode req \<ge> 0 then ''OK'' else ''ERROR'') @
     (case rq_msg req of Some (c # cs) \<Rightarrow> CHR '' '' # c # cs | _ \<Rightarrow> [])"

text \<open>A buffer that holds the beginning of a text, as far as it fits.\<close>

definition holds :: "string \<Rightarrow> string \<Rightarrow> bool" where
  "holds buf str \<longleftrightarrow> take (length str) buf = take (length buf) str"

lemma put_byte_holds:
  assumes "holds buf str"
  shows "\<exists>buf'. put_byte c (length str, buf) = (length (str @ [c]), buf') \<and> holds buf' (str @ [c]) \<and> length buf' = length buf"
  using assms
  by (auto simp: put_byte_def holds_def take_Suc_conv_app_nth)

lemma put_bytes_holds:
  assumes "holds buf str"
  shows "\<exists>buf'. fold put_byte cs (length str, buf) = (length (str @ cs), buf') \<and> holds buf' (str @ cs) \<and> length buf' = length buf"
  using assms
proof (induction cs arbitrary: buf str)
  case (Cons c cs)
  obtain buf1 where "put_byte c (length str, buf) = (length (str @ [c]), buf1)" "holds buf1 (str @ [c])" "length buf1 = length buf"
    using put_byte_holds [OF Cons.prems] by blast
  with Cons.IH [of buf1 "str @ [c]"] show ?case by auto
qed simp

lemma make_reply_line_holds:
  assumes "afmpkg_request_make_reply_line req buf = (len, buf')"
  shows "len = length (reply_text req @ [newline]) \<and> holds buf' (reply_text req @ [newline]) \<and> length buf' = length buf"
proof -
  let ?tag = "if rq_scode req \<ge> 0 then ''OK'' else ''ERROR''"
  let ?msg = "case rq_msg req of Some (c # cs) \<Rightarrow> CHR '' '' # c # cs | _ \<Rightarrow> []"
  have "(case rq_msg req of Some (c # cs) \<Rightarrow> fold put_byte (c # cs) (put_byte (CHR '' '') r1) | _ \<Rightarrow> r1) =
      fold put_byte ?msg r1" for r1
    by (simp split: option.split list.split)
  then have "afmpkg_request_make_reply_line req buf =
      (let (idx, line) = fold put_byte ((?tag @ ?msg) @ [newline]) (0, buf)
       in (idx, if idx < length line then line[idx := NUL] else line))"
    by (simp add: afmpkg_request_make_reply_line_def Let_def)
  moreover obtain buf1 where "fold put_byte ((?tag @ ?msg) @ [newline]) (0, buf) = (length (reply_text req @ [newline]), buf1)"
    "holds buf1 (reply_text req @ [newline])" "length buf1 = length buf"
    using put_bytes_holds [of buf "[]" "(?tag @ ?msg) @ [newline]"] by (auto simp: holds_def reply_text_def)
  ultimately show ?thesis using assms by (auto simp: holds_def)
qed

end
