(* ===== verification/AfmpkgServer.thy ===== *)
theory AfmpkgServer
  imports AfmpkgRequest AfmpkgStd
begin

text \<open>
  The service of one client of the package daemon (\<^verbatim>\<open>src/src/afmpkg/afmpkg-server.c\<close>): the
  reception of a request through a buffer, its processing, the reply.

  The socket is the list of what the kernel delivers to the successive calls of \<^verbatim>\<open>recv\<close>.
  Data that exceed the room given to a call remain for the next one. When nothing is left
  the peer has closed its side and \<^verbatim>\<open>recv\<close> returns 0; so it does when the room is 0.
\<close>

section \<open>Reception\<close>

datatype recv_event = Recv_data string | Recv_eintr | Recv_error

fun recv_size :: "recv_event \<Rightarrow> nat" where
  "recv_size (Recv_data bs) = Suc (length bs)"
| "recv_size _ = 1"

text \<open>
  The loop on the lines of the buffer. It gives the status, the request, the count of bytes
  left at the start of the buffer for the next reception, and the buffer.
\<close>

definition buffer_line :: "nat \<Rightarrow> nat \<Rightarrow> string \<Rightarrow> string" where
  "buffer_line it len buf = takeWhile (\<lambda>c. c \<noteq> newline) (drop it (take len buf))"

definition line_end :: "nat \<Rightarrow> nat \<Rightarrow> string \<Rightarrow> nat" where
  "line_end it len buf = it + length (buffer_line it len buf)"

function receive_lines ::
  "nat \<Rightarrow> nat \<Rightarrow> string \<Rightarrow> afmpkg_request \<Rightarrow> mem \<Rightarrow> int \<times> afmpkg_request \<times> mem \<times> nat \<times> string" where
  "receive_lines it len buf req m =
     (if len \<le> it then (0, req, m, len, buf)
      else if line_end it len buf \<ge> len then (0, req, m, len - it, drop it (take len buf) @ drop (len - it) buf)
      else if line_end it len buf = it then receive_lines (Suc it) len buf req m
      else case afmpkg_request_add_line req m (buffer_line it len buf) of
        (rc, req', m') \<Rightarrow>
          if rc < 0 then (rc, req', m', len, buf[line_end it len buf := NUL])
          else receive_lines (Suc (line_end it len buf)) len (buf[line_end it len buf := NUL]) req' m')"
  by pat_completeness auto

termination by (relation "measure (\<lambda>(it, len, _). len - it)") (auto simp: line_end_def)

declare receive_lines.simps [simp del]

text \<open>A call of \<^verbatim>\<open>recv\<close> at a place of the buffer, and what it leaves for the next one.\<close>

definition put_bytes :: "nat \<Rightarrow> string \<Rightarrow> string \<Rightarrow> string" where
  "put_bytes len bs buf =
     (let sz = min (length buf - len) (length bs) in take len buf @ take sz bs @ drop (len + sz) buf)"

definition unread :: "nat \<Rightarrow> string \<Rightarrow> recv_event list \<Rightarrow> recv_event list" where
  "unread sz bs es = (if sz < length bs then Recv_data (drop sz bs) # es else es)"

text \<open>
  The loop on the receptions. The length of the data is set to what the last call of \<^verbatim>\<open>recv\<close>
  gave, not increased by it: it is what the code does.
\<close>

function receive_loop ::
  "recv_event list \<Rightarrow> string \<Rightarrow> nat \<Rightarrow> afmpkg_request \<Rightarrow> mem \<Rightarrow> int \<times> afmpkg_request \<times> mem" where
  "receive_loop [] buf len req m = (0, req, m)"
| "receive_loop (Recv_eintr # es) buf len req m = receive_loop es buf len req m"
| "receive_loop (Recv_error # es) buf len req m =
     beside (afmpkg_request_error req (- 2000) ''receive error'') m"
| "receive_loop (Recv_data bs # es) buf len req m =
     (if min (length buf - len) (length bs) = 0 then (0, req, m)
      else case receive_lines 0 (min (length buf - len) (length bs)) (put_bytes len bs buf) req m of
        (rc, req', m', len', buf') \<Rightarrow>
          if rc < 0 then (rc, req', m')
          else receive_loop (unread (min (length buf - len) (length bs)) bs es) buf' len' req' m')"
  by pat_completeness auto

termination by (relation "measure (\<lambda>(es, _). sum_list (map recv_size es))") (auto simp: unread_def)

definition receive_buffer_size :: nat where
  "receive_buffer_size = 32768"

text \<open>\<open>buf\<close> is the content of the buffer of the stack before the reception.\<close>

definition receive :: "recv_event list \<Rightarrow> string \<Rightarrow> afmpkg_request \<Rightarrow> mem \<Rightarrow> int \<times> afmpkg_request \<times> mem" where
  "receive es buf req m = receive_loop es buf 0 req m"

section \<open>Reply and service\<close>

text \<open>The bytes given to \<^verbatim>\<open>send\<close>, whose result is not used.\<close>

definition reply_buffer_size :: nat where
  "reply_buffer_size = 512"

definition reply :: "afmpkg_request \<Rightarrow> string \<Rightarrow> string" where
  "reply req buf =
     (let (len, buf1) = afmpkg_request_make_reply_line req buf in
      if len \<ge> length buf then buf1[length buf - 1 := newline] else take len buf1)"

record 'w served =
  sv_rc :: int
  sv_sent :: string
  sv_sighup :: bool
  sv_request :: afmpkg_request
  sv_daemon :: "'w daemon"

definition sighup_needed :: "afmpkg_request \<Rightarrow> bool" where
  "sighup_needed req \<longleftrightarrow> rq_kind req \<in> {Request_Add_Package, Request_Remove_Package}"

definition afmpkg_serve ::
  "'w package_service \<Rightarrow> int \<times> int \<Rightarrow> recv_event list \<Rightarrow> string \<Rightarrow> string \<Rightarrow> 'w daemon \<Rightarrow> 'w served" where
  "afmpkg_serve ps clk es rbuf sbuf d =
     (let (rc, req, m) = afmpkg_request_init (dm_mem d);
          (rc, req, m) = (if rc \<ge> 0 then receive es rbuf req m else (rc, req, m));
          d = d\<lparr>dm_mem := m\<rparr>;
          (rc, req, d, hup) = (if rc \<ge> 0
             then (let (rc, req, d) = afmpkg_request_process ps clk req d in (rc, req, d, sighup_needed req))
             else (rc, req, d, False))
      in \<lparr>sv_rc = rc, sv_sent = reply req sbuf, sv_sighup = hup,
          sv_request = afmpkg_request_deinit req, sv_daemon = d\<rparr>)"

text \<open>The service of the usual flavour: the functions of \<^verbatim>\<open>afmpkg-std.c\<close>.\<close>

record 'h std_world =
  wd_fs :: unit_fs
  wd_handles :: nat
  wd_afid :: afid_state
  wd_template :: "string option"
  wd_slmhndl :: "'h option"

definition std_call ::
  "(afmpkg \<Rightarrow> unit_fs \<Rightarrow> nat \<Rightarrow> mem \<Rightarrow> afid_state \<Rightarrow> string option \<Rightarrow> int \<times> ('h std_state, 'j) afmpkg_state) \<Rightarrow>
   afmpkg \<Rightarrow> mem \<Rightarrow> 'h std_world \<Rightarrow> int \<times> mem \<times> 'h std_world" where
  "std_call f apkg m w =
     (let (rc, st) = f apkg (wd_fs w) (wd_handles w) m (wd_afid w) (wd_template w)
      in (rc, st_mem st, w\<lparr>wd_fs := std_fs (st_closure st), wd_handles := std_created (st_closure st),
                           wd_afid := st_afid st, wd_template := st_template st,
                           wd_slmhndl := std_slmhndl (st_closure st)\<rparr>))"

definition std_service :: "'j afmpkg_env \<Rightarrow> string \<Rightarrow> sysd \<Rightarrow> 'h slm \<Rightarrow> 'h std_world package_service" where
  "std_service env root sd slm =
     \<lparr>ps_install = std_call (afmpkg_std_install env root sd slm),
      ps_uninstall = std_call (afmpkg_std_uninstall env root sd slm)\<rparr>"

section \<open>What is received and replied\<close>

lemma reply_sent:
  assumes "buf \<noteq> []"
  shows "reply req buf = take (length buf - 1) (reply_text req) @ [newline]"
proof -
  obtain len buf' where mk: "afmpkg_request_make_reply_line req buf = (len, buf')" by fastforce
  note h = make_reply_line_holds [OF mk]
  show ?thesis
  proof (cases "len \<ge> length buf")
    case True
    with h have buf': "buf' = take (length buf) (reply_text req @ [newline])"
      unfolding holds_def by (metis take_all)
    have "length buf - 1 \<le> length (reply_text req)" using h True by simp
    moreover have "buf'[length buf - 1 := newline] = take (length buf - 1) buf' @ [newline]"
      using h assms by (metis Suc_pred' length_greater_0_conv lessI list_update_append1 take_Suc_conv_app_nth
          take_all_iff upd_conv_take_nth_drop drop_all append_Nil2 le_refl)
    moreover have "take (length buf - 1) buf' = take (length buf - 1) (reply_text req)"
      unfolding buf' using calculation(1) by (simp add: min_def) linarith
    ultimately show ?thesis using mk True by (simp add: reply_def)
  next
    case False
    with h mk show ?thesis by (simp add: reply_def holds_def)
  qed
qed

lemma length_buffer_line: "length (buffer_line it len buf) \<le> length buf"
  by (auto simp: buffer_line_def intro: le_trans [OF length_takeWhile_le])

lemma receive_lines_ok:
  assumes "request_inv req" "rq_state req \<noteq> Request_Error" "length buf < 2 ^ 32" "len \<le> length buf"
    and "receive_lines it len buf req m = (rc, req', m', len', buf')"
  shows "step_ok (rc, req', m') \<and> length buf' = length buf \<and> len' \<le> len"
  using assms
proof (induction it len buf req m arbitrary: rc req' m' len' buf' rule: receive_lines.induct)
  case (1 it len buf req m)
  have ok: "step_ok (0, req, m)" using "1.prems"(1,2) by (simp add: step_ok_def)
  consider (out) "len \<le> it" | (partial) "it < len" "line_end it len buf \<ge> len"
    | (empty) "it < len" "line_end it len buf < len" "line_end it len buf = it"
    | (line) "it < len" "line_end it len buf < len" "line_end it len buf \<noteq> it"
    by linarith
  then show ?case
  proof cases
    case line
    obtain rc1 req1 m1 where add: "afmpkg_request_add_line req m (buffer_line it len buf) = (rc1, req1, m1)"
      using prod_cases3 by blast
    have st: "step_ok (rc1, req1, m1)"
      using add_line_ok [OF "1.prems"(1), of "buffer_line it len buf" m] add
        length_buffer_line [of it len buf] "1.prems"(3) by simp
    show ?thesis
    proof (cases "rc1 < 0")
      case True
      with st line add "1.prems"(5) show ?thesis by (auto simp: receive_lines.simps [of it])
    next
      case False
      with st have "request_inv req1" "rq_state req1 \<noteq> Request_Error" by (auto simp: step_ok_def)
      with "1.IH"(2) line add False "1.prems"(3-5) show ?thesis
        by (simp add: receive_lines.simps [of it])
    qed
  next
    case empty
    with "1.IH"(1) "1.prems" show ?thesis by (simp add: receive_lines.simps [of it])
  qed (use "1.prems"(3-5) ok in \<open>auto simp: receive_lines.simps [of it]\<close>)
qed

lemma length_put_bytes [simp]: "len \<le> length buf \<Longrightarrow> length (put_bytes len bs buf) = length buf"
  by (auto simp: put_bytes_def Let_def)

lemma receive_loop_ok:
  assumes "request_inv req" "rq_state req \<noteq> Request_Error" "length buf < 2 ^ 32" "len \<le> length buf"
  shows "step_ok (receive_loop es buf len req m)"
  using assms
proof (induction es buf len req m rule: receive_loop.induct)
  case (1 buf len req m)
  then show ?case by (simp add: step_ok_def)
next
  case (3 es buf len req m)
  then show ?case using request_error_ok by simp
next
  case (4 bs es buf len req m)
  let ?sz = "min (length buf - len) (length bs)"
  obtain rc req' m' len' buf' where
    run: "receive_lines 0 ?sz (put_bytes len bs buf) req m = (rc, req', m', len', buf')"
    using prod_cases5 by blast
  have ok: "step_ok (rc, req', m') \<and> length buf' = length buf \<and> len' \<le> ?sz"
    using receive_lines_ok [OF "4.prems"(1,2) _ _ run] "4.prems"(3,4) by simp
  have step: "receive_loop (Recv_data bs # es) buf len req m =
      (if ?sz = 0 then (0, req, m) else if rc < 0 then (rc, req', m')
       else receive_loop (unread ?sz bs es) buf' len' req' m')"
    by (simp only: receive_loop.simps run prod.case)
  show ?case
  proof (cases "?sz = 0 \<or> rc < 0")
    case True
    have "step_ok (0, req, m)" using "4.prems"(1,2) by (simp add: step_ok_def)
    with True ok show ?thesis unfolding step by (cases "?sz = 0") (simp_all only: if_True if_False simp_thms)
  next
    case False
    with ok have "request_inv req'" "rq_state req' \<noteq> Request_Error" "len' \<le> length buf'" by (auto simp: step_ok_def)
    moreover have "?sz \<noteq> 0" "\<not> rc < 0" using False by (simp_all only: de_Morgan_disj not_False_eq_True)
    ultimately show ?thesis
      using "4.IH" [OF \<open>?sz \<noteq> 0\<close> run [symmetric] refl refl refl \<open>\<not> rc < 0\<close>] ok "4.prems"(3)
      unfolding step by (simp only: if_False simp_thms)
  qed
qed simp

lemma receive_lines_plain:
  "plain_msg req \<Longrightarrow> plain_msg (fst (snd (receive_lines it len buf req m)))"
proof (induction it len buf req m rule: receive_lines.induct)
  case (1 it len buf req m)
  obtain rc req' m' where add: "afmpkg_request_add_line req m (buffer_line it len buf) = (rc, req', m')"
    using prod_cases3 by blast
  have "plain_msg req'" using plain_add_line [OF "1.prems", of m "buffer_line it len buf"] add by simp
  with 1 add show ?case by (simp add: receive_lines.simps [of it])
qed

lemma receive_loop_plain:
  "plain_msg req \<Longrightarrow> plain_msg (fst (snd (receive_loop es buf len req m)))"
proof (induction es buf len req m rule: receive_loop.induct)
  case (4 bs es buf len req m)
  let ?sz = "min (length buf - len) (length bs)"
  obtain rc req' m' len' buf' where
    run: "receive_lines 0 ?sz (put_bytes len bs buf) req m = (rc, req', m', len', buf')"
    using prod_cases5 by blast
  have p: "plain_msg req'" using receive_lines_plain [OF "4.prems", of 0 ?sz "put_bytes len bs buf" m] run by simp
  have step: "receive_loop (Recv_data bs # es) buf len req m =
      (if ?sz = 0 then (0, req, m) else if rc < 0 then (rc, req', m')
       else receive_loop (unread ?sz bs es) buf' len' req' m')"
    by (simp only: receive_loop.simps run prod.case)
  show ?case
  proof (cases "?sz = 0 \<or> rc < 0")
    case True
    with p "4.prems" show ?thesis unfolding step by (cases "?sz = 0") (simp_all only: if_True if_False simp_thms fst_conv snd_conv)
  next
    case False
    then have "?sz \<noteq> 0" "\<not> rc < 0" by (simp_all only: de_Morgan_disj not_False_eq_True)
    with "4.IH" [OF \<open>?sz \<noteq> 0\<close> run [symmetric] refl refl refl \<open>\<not> rc < 0\<close>] p show ?thesis
      unfolding step by (simp only: if_False simp_thms)
  qed
qed simp_all

text \<open>
  A request received in one call: its lines are given one after the other, until one is
  refused.
\<close>

fun feed :: "string list \<Rightarrow> afmpkg_request \<Rightarrow> mem \<Rightarrow> int \<times> afmpkg_request \<times> mem" where
  "feed [] req m = (0, req, m)"
| "feed (l # ls) req m =
     (case afmpkg_request_add_line req m l of
        (rc, req', m') \<Rightarrow> if rc < 0 then (rc, req', m') else feed ls req' m')"

definition request_line :: "string \<Rightarrow> bool" where
  "request_line l \<longleftrightarrow> l \<noteq> [] \<and> newline \<notin> set l"

lemma buffer_line_next:
  assumes "newline \<notin> set l"
  shows "buffer_line (length before) (length before + length (unlines (l # ls))) (before @ unlines (l # ls) @ rest) = l"
proof -
  have "takeWhile (\<lambda>c. c \<noteq> newline) (l @ newline # r) = l" for r
    using assms by (subst takeWhile_append2) auto
  then show ?thesis by (simp add: buffer_line_def unlines_def)
qed

lemma receive_lines_feed:
  assumes "\<forall>l \<in> set ls. request_line l" "feed ls req m = (rc, req', m')"
  shows "\<exists>len' buf'. receive_lines (length before) (length before + length (unlines ls)) (before @ unlines ls @ rest) req m =
           (rc, req', m', len', buf') \<and> rc \<le> 0"
  using assms
proof (induction ls arbitrary: before req m)
  case Nil
  then show ?case by (simp add: receive_lines.simps unlines_def)
next
  case (Cons l ls)
  let ?it = "length before" and ?buf = "before @ unlines (l # ls) @ rest"
  let ?len = "length before + length (unlines (l # ls))"
  have l: "l \<noteq> []" "newline \<notin> set l" using Cons.prems(1) by (auto simp: request_line_def)
  have line: "buffer_line ?it ?len ?buf = l" using buffer_line_next [OF l(2)] .
  have eol: "line_end ?it ?len ?buf = ?it + length l" by (simp only: line_end_def line)
  have inside: "(?len \<le> ?it) = False" "(?len \<le> ?it + length l) = False" "(?it + length l = ?it) = False"
    using l(1) by (simp_all add: unlines_def)
  have len: "?len = length (before @ l @ [NUL]) + length (unlines ls)" by (simp add: unlines_def)
  have upd: "?buf[?it + length l := NUL] = (before @ l @ [NUL]) @ unlines ls @ rest"
    by (simp add: unlines_def list_update_append)
  obtain rc1 req1 m1 where add: "afmpkg_request_add_line req m l = (rc1, req1, m1)" using prod_cases3 by blast
  have step: "receive_lines ?it ?len ?buf req m =
      (if rc1 < 0 then (rc1, req1, m1, ?len, ?buf[?it + length l := NUL])
       else receive_lines (Suc (?it + length l)) ?len (?buf[?it + length l := NUL]) req1 m1)"
    by (subst receive_lines.simps) (simp only: inside line eol add if_False prod.case)
  show ?case
  proof (cases "rc1 < 0")
    case True
    with step Cons.prems(2) add show ?thesis by auto
  next
    case False
    then have "feed ls req1 m1 = (rc, req', m')" using Cons.prems(2) add by simp
    with Cons.IH [of req1 m1 "before @ l @ [NUL]"] Cons.prems(1) step False show ?thesis
      by (simp only: upd len) simp
  qed
qed

lemma receive_whole:
  assumes "\<forall>l \<in> set ls. request_line l" "ls \<noteq> []" "length (unlines ls) \<le> length buf"
  shows "receive [Recv_data (unlines ls)] buf req m = feed ls req m"
proof -
  obtain rc req' m' where f: "feed ls req m = (rc, req', m')" using prod_cases3 by blast
  have "unlines ls \<noteq> []" using assms(2) by (cases ls) (auto simp: unlines_def)
  moreover have "put_bytes 0 (unlines ls) buf = [] @ unlines ls @ drop (length (unlines ls)) buf"
    using assms(3) by (simp add: put_bytes_def Let_def)
  ultimately show ?thesis
    using receive_lines_feed [OF assms(1) f, of "[]" "drop (length (unlines ls)) buf"] assms(3) f
    by (auto simp: receive_def unread_def min_def)
qed

section \<open>Service of a client\<close>

text \<open>
  The parts of a service: the request after its reception, and after its processing.
\<close>

lemma serve_received:
  assumes "fst (c_alloc (dm_mem d))" "length rbuf < 2 ^ 32"
  shows "\<exists>rc req m. afmpkg_serve ps clk es rbuf sbuf d =
     (let d1 = d\<lparr>dm_mem := m\<rparr>;
          (rc', req', d', hup) = (if rc \<ge> 0
             then (let (rc, req, d) = afmpkg_request_process ps clk req d1 in (rc, req, d, sighup_needed req))
             else (rc, req, d1, False))
      in \<lparr>sv_rc = rc', sv_sent = reply req' sbuf, sv_sighup = hup,
          sv_request = afmpkg_request_deinit req', sv_daemon = d'\<rparr>) \<and> step_ok (rc, req, m) \<and> plain_msg req"
proof -
  obtain rc0 req0 m0 where init: "afmpkg_request_init (dm_mem d) = (rc0, req0, m0)" using prod_cases3 by blast
  with assms(1) have "0 \<le> rc0"
    by (auto simp: afmpkg_request_init_def path_entry_create_root_def Let_def split: prod.splits)
  with request_init_inv [OF init] have "step_ok (receive es rbuf req0 m0)"
    unfolding receive_def using assms(2) by (intro receive_loop_ok) auto
  moreover have "plain_msg (fst (snd (receive es rbuf req0 m0)))"
    unfolding receive_def using init by (intro receive_loop_plain) (auto simp: afmpkg_request_init_def plain_msg_def Let_def case_prod_unfold)
  moreover obtain rc req m where "receive es rbuf req0 m0 = (rc, req, m)" using prod_cases3 by blast
  ultimately show ?thesis
    using init \<open>0 \<le> rc0\<close> by (intro exI [of _ rc] exI [of _ req] exI [of _ m]) (simp add: afmpkg_serve_def Let_def)
qed

text \<open>The form of a reply: a word, or a word, a space and a text.\<close>

definition says :: "string \<Rightarrow> string \<Rightarrow> bool" where
  "says word str \<longleftrightarrow> str = word \<or> (\<exists>txt. str = word @ '' '' @ txt)"

lemma reply_says:
  assumes "5 \<le> n" shows "says (if rq_scode req < 0 then ''ERROR'' else ''OK'') (take n (reply_text req))"
proof -
  let ?word = "if rq_scode req < 0 then ''ERROR'' else ''OK''"
  have w: "length ?word \<le> n" using assms by simp
  show ?thesis
  proof (cases "rq_msg req = None \<or> rq_msg req = Some [] \<or> n = length ?word")
    case True
    then have "take n (reply_text req) = ?word" using w by (auto simp: reply_text_def split: option.split list.split)
    then show ?thesis by (simp add: says_def)
  next
    case False
    then obtain c cs where m: "rq_msg req = Some (c # cs)" by (cases "rq_msg req") (auto simp: neq_Nil_conv)
    obtain k where "n - length ?word = Suc k" using False w by (cases "n - length ?word") auto
    then have "take n (reply_text req) = ?word @ '' '' @ take k (c # cs)"
      using m w by (auto simp: reply_text_def)
    then show ?thesis unfolding says_def by blast
  qed
qed

lemma reply_text_plain: "plain_msg req \<Longrightarrow> newline \<notin> set (reply_text req)"
  by (cases "rq_msg req"; cases "the (rq_msg req)") (auto simp: plain_msg_def reply_text_def)

lemma serve_reply:
  assumes "fst (c_alloc (dm_mem d))" and "length rbuf < 2 ^ 32"
  shows "\<exists>req. sv_sent (afmpkg_serve ps clk es rbuf sbuf d) = reply req sbuf \<and> plain_msg req \<and>
    (rq_scode req < 0 \<longleftrightarrow> sv_rc (afmpkg_serve ps clk es rbuf sbuf d) < 0)"
proof -
  obtain rc req m where ok: "step_ok (rc, req, m)" "plain_msg req" and serve: "afmpkg_serve ps clk es rbuf sbuf d =
     (let d1 = d\<lparr>dm_mem := m\<rparr>;
          (rc', req', d', hup) = (if rc \<ge> 0
             then (let (rc, req, d) = afmpkg_request_process ps clk req d1 in (rc, req, d, sighup_needed req))
             else (rc, req, d1, False))
      in \<lparr>sv_rc = rc', sv_sent = reply req' sbuf, sv_sighup = hup,
          sv_request = afmpkg_request_deinit req', sv_daemon = d'\<rparr>)"
    using serve_received [OF assms] by blast
  show ?thesis
  proof (cases "0 \<le> rc")
    case True
    obtain rc1 req1 d1 where run: "afmpkg_request_process ps clk req (d\<lparr>dm_mem := m\<rparr>) = (rc1, req1, d1)"
      using prod_cases3 by blast
    have "rq_scode req = 0" using ok True by (auto simp: step_ok_def request_inv_def)
    with process_reports [OF _ run] plain_process [OF ok(2) run] True run serve show ?thesis
      by (intro exI [of _ req1]) (simp add: Let_def)
  next
    case False
    with ok have "rq_scode req < 0" by (auto simp: step_ok_def request_inv_def)
    with False serve ok(2) show ?thesis by (intro exI [of _ req]) (simp add: Let_def)
  qed
qed

text \<open>Without memory for the request itself, nothing is received and the answer is that of a request without error.\<close>

lemma serve_no_memory:
  assumes "\<not> fst (c_alloc (dm_mem d))"
  shows "\<exists>req. sv_sent (afmpkg_serve ps clk es rbuf sbuf d) = reply req sbuf \<and> rq_scode req = 0 \<and> rq_msg req = None \<and>
    sv_rc (afmpkg_serve ps clk es rbuf sbuf d) < 0"
  using assms
  by (intro exI [of _ "fst (snd (afmpkg_request_init (dm_mem d)))"])
    (simp add: afmpkg_serve_def afmpkg_request_init_def path_entry_create_root_def Let_def case_prod_unfold)

text \<open>C9: The answer to a client is one line that fits the buffer, whatever the bytes it sent and
  their division in receptions, the failures of allocations and the messages: a text
  without end of line and an end of line. The text is \<open>OK\<close>, or \<open>OK\<close>, a space and a message, when the service succeeded; it is
  \<open>ERROR\<close>, with a message or not, when it failed, with one exception: when the request itself can not be
  allocated, the service fails and the client is answered \<open>OK\<close>.\<close>

theorem serve_reply_line:
  assumes "length rbuf < 2 ^ 32" and "5 < length sbuf"
  shows "\<exists>str. sv_sent (afmpkg_serve ps clk es rbuf sbuf d) = str @ [newline] \<and> newline \<notin> set str \<and> length str < length sbuf \<and>
     (if \<not> fst (c_alloc (dm_mem d)) then sv_rc (afmpkg_serve ps clk es rbuf sbuf d) < 0 \<and> str = ''OK''
      else if 0 \<le> sv_rc (afmpkg_serve ps clk es rbuf sbuf d) then says ''OK'' str
      else says ''ERROR'' str)"
proof -
  have ne: "sbuf \<noteq> []" using assms(2) by auto
  show ?thesis
  proof (cases "fst (c_alloc (dm_mem d))")
    case True
    obtain req where r: "sv_sent (afmpkg_serve ps clk es rbuf sbuf d) = reply req sbuf" "plain_msg req"
      "rq_scode req < 0 \<longleftrightarrow> sv_rc (afmpkg_serve ps clk es rbuf sbuf d) < 0"
      using serve_reply [OF True assms(1)] by blast
    let ?str = "take (length sbuf - 1) (reply_text req)"
    have "newline \<notin> set ?str" using reply_text_plain [OF r(2)] by (auto dest: in_set_takeD)
    moreover have "says (if rq_scode req < 0 then ''ERROR'' else ''OK'') ?str" using assms(2) by (intro reply_says) simp
    ultimately show ?thesis
      using True r assms(2) reply_sent [OF ne, of req] by (intro exI [of _ ?str]) auto
  next
    case False
    obtain req where r: "sv_sent (afmpkg_serve ps clk es rbuf sbuf d) = reply req sbuf" "rq_scode req = 0" "rq_msg req = None"
      "sv_rc (afmpkg_serve ps clk es rbuf sbuf d) < 0" using serve_no_memory [OF False] by blast
    then have "reply req sbuf = ''OK'' @ [newline]" using reply_sent [OF ne, of req] assms(2) by (simp add: reply_text_def)
    with False r assms(2) show ?thesis by (intro exI [of _ "''OK''"]) simp
  qed
qed

section \<open>What the daemon keeps between its clients\<close>

text \<open>The states of a daemon that serves clients one after the other.\<close>

inductive daemon_reach :: "'w package_service \<Rightarrow> 'w daemon \<Rightarrow> 'w daemon \<Rightarrow> bool" for ps d0 where
  start: "daemon_reach ps d0 d0"
| client: "daemon_reach ps d0 d \<Longrightarrow> daemon_reach ps d0 (sv_daemon (afmpkg_serve ps clk es rbuf sbuf d))"

text \<open>
  The contract of the functions that install and remove packages: something of what they act
  on holds again when they return.
\<close>

locale package_keeper =
  fixes ps :: "'w package_service" and kept :: "'w \<Rightarrow> bool"
  assumes install_keeps: "kept w \<Longrightarrow> ps_install ps apkg m w = (rc, m', w') \<Longrightarrow> kept w'"
    and uninstall_keeps: "kept w \<Longrightarrow> ps_uninstall ps apkg m w = (rc, m', w') \<Longrightarrow> kept w'"
begin

lemma run_operation_keeps:
  assumes "kept (dm_world d)" "run_operation ps req d = (rc, req', d')"
  shows "kept (dm_world d') \<and> dm_transactions d' = dm_transactions d"
proof -
  obtain rc1 m1 w1 where op: "(if rq_kind req = Request_Add_Package then ps_install ps else ps_uninstall ps)
      (rq_apkg req) (dm_mem d) (dm_world d) = (rc1, m1, w1)"
    using prod_cases3 by blast
  have "kept w1"
  proof (cases "rq_kind req = Request_Add_Package")
    case True
    with op have "ps_install ps (rq_apkg req) (dm_mem d) (dm_world d) = (rc1, m1, w1)" by simp
    then show ?thesis by (rule install_keeps [OF assms(1)])
  next
    case False
    with op have "ps_uninstall ps (rq_apkg req) (dm_mem d) (dm_world d) = (rc1, m1, w1)" by simp
    then show ?thesis by (rule uninstall_keeps [OF assms(1)])
  qed
  with assms(2) op show ?thesis by (auto simp: run_operation_def Let_def)
qed

lemma record_keeps:
  assumes "trans_inv (dm_transactions d)" "record_transaction clk rc req d = (rc', req', d')"
  shows "dm_world d' = dm_world d \<and> trans_inv (dm_transactions d')"
proof (cases "rq_transid req")
  case (Some k)
  with record_transaction_account [OF assms(1) Some assms(2)] assms(2) show ?thesis
    by (auto simp: record_transaction_def beside_def Let_def split: option.splits prod.splits)
qed (use assms in \<open>simp add: record_transaction_def\<close>)

lemma status_keeps:
  assumes "trans_inv (dm_transactions d)" "get_status clk req d = (rc, req', d')"
  shows "dm_world d' = dm_world d \<and> trans_inv (dm_transactions d')"
proof (cases "rq_transid req")
  case (Some k)
  obtain r ts m where get: "get_transaction clk k 0 (dm_transactions d) (dm_mem d) = (r, ts, m)"
    using prod_cases3 by blast
  have c: "trans_inv ts" "\<And>i. r = Some i \<Longrightarrow> i < length ts"
    using get_transaction_cases [OF assms(1) get] by (auto split: option.splits)
  show ?thesis
  proof (cases r)
    case None
    with assms(2) Some get c show ?thesis by (auto simp: get_status_def beside_def)
  next
    case (Some i)
    obtain ok m' where "c_alloc m = (ok, m')" by fastforce
    with assms(2) \<open>rq_transid req = Some k\<close> get Some c as_map_remove [of ts i] show ?thesis
      by (auto simp: get_status_def beside_def Let_def split: if_splits)
  qed
qed (use assms in \<open>simp add: get_status_def beside_def\<close>)

lemma process_keeps:
  assumes "kept (dm_world d)" "trans_inv (dm_transactions d)" "afmpkg_request_process ps clk req d = (rc, req', d')"
  shows "kept (dm_world d') \<and> trans_inv (dm_transactions d')"
proof -
  obtain rc1 req1 d1 where op: "run_operation ps req d = (rc1, req1, d1)" using prod_cases3 by blast
  have one: "kept (dm_world d1)" "trans_inv (dm_transactions d1)"
    using run_operation_keeps [OF assms(1) op] assms(2) by auto
  show ?thesis
    using assms op one record_keeps [OF one(2), of clk rc1 req1] status_keeps [OF assms(2), of clk req]
    by (auto simp: afmpkg_request_process_def beside_def split: if_splits)
qed

lemma serve_keeps:
  assumes "kept (dm_world d)" "trans_inv (dm_transactions d)"
  shows "kept (dm_world (sv_daemon (afmpkg_serve ps clk es rbuf sbuf d))) \<and>
         trans_inv (dm_transactions (sv_daemon (afmpkg_serve ps clk es rbuf sbuf d)))"
proof -
  obtain rc0 req0 m0 where i: "afmpkg_request_init (dm_mem d) = (rc0, req0, m0)" using prod_cases3 by blast
  obtain rc1 req1 m1 where r: "(if rc0 \<ge> 0 then receive es rbuf req0 m0 else (rc0, req0, m0)) = (rc1, req1, m1)"
    using prod_cases3 by blast
  obtain rc2 req2 d2 where p: "afmpkg_request_process ps clk req1 (d\<lparr>dm_mem := m1\<rparr>) = (rc2, req2, d2)"
    using prod_cases3 by blast
  show ?thesis
    using process_keeps [OF _ _ p] assms by (simp add: afmpkg_serve_def i r p Let_def)
qed

lemma reached_keeps:
  assumes "daemon_reach ps d0 d" "kept (dm_world d0)" "trans_inv (dm_transactions d0)"
  shows "kept (dm_world d) \<and> trans_inv (dm_transactions d)"
  using assms by (induction rule: daemon_reach.induct) (auto simp: serve_keeps)

end

lemma std_service_keeper:
  assumes "slm_manager slm"
  shows "package_keeper (std_service env root sd slm) (\<lambda>w. wd_slmhndl w = None)"
proof -
  have "\<And>n. fst (slm_create slm n) < 0 \<longleftrightarrow> snd (slm_create slm n) = None"
    using slm_manager.create_law [OF assms] by (metis prod.collapse)
  note closes = std_sessions_closed [OF this, where env = env and root = root and sd = sd]
  show ?thesis
    by unfold_locales (use closes in \<open>auto simp: std_service_def std_call_def Let_def case_prod_unfold\<close>)
qed

interpretation std_daemon: package_keeper "std_service env root sd simulated_slm" "\<lambda>w. wd_slmhndl w = None"
  for env root sd
  by (rule std_service_keeper) (rule simulated.slm_manager_axioms)

text \<open>C3: However many clients the daemon serves, whatever they send and whatever fails, it has no
  session of the security manager open between two of them, and its list of transactions
  holds each identifier once.\<close>

theorem daemon_between_clients:
  assumes "\<And>n. fst (slm_create slm n) < 0 \<longleftrightarrow> snd (slm_create slm n) = None"
    and "daemon_reach (std_service env root sd slm) d0 d"
    and "wd_slmhndl (dm_world d0) = None" and "trans_inv (dm_transactions d0)"
  shows "wd_slmhndl (dm_world d) = None \<and> trans_inv (dm_transactions d)"
proof -
  have "slm_manager slm" using assms(1) by (rule slm_managerI)
  then show ?thesis
    by (rule package_keeper.reached_keeps [OF std_service_keeper assms(2-4)])
qed

text \<open>C10: Whatever bytes a client sends and however they are cut in receptions, the request that
  results is well formed: it is in error exactly when the reception reports one, its index
  is within its count, nothing is set before its kind is known, and its files are a well
  formed tree.\<close>

theorem received_request_well_formed:
  assumes "afmpkg_request_init m0 = (rc0, req0, m1)" and "0 \<le> rc0" and "length buf < 2 ^ 32"
    and "receive es buf req0 m1 = (rc, req, m)"
  shows "request_inv req \<and> rc \<le> 0 \<and> (rc < 0 \<longleftrightarrow> rq_state req = Request_Error)"
  using receive_loop_ok [OF _ _ assms(3), of req0 0 es m1] request_init_inv [OF assms(1,2)] assms(4)
  by (simp add: receive_def step_ok_def)

text \<open>
  A request in two parts: the bytes of the second one are put after those of the first one,
  which are read again instead of them. The request stays without its end, and the daemon
  processes it nevertheless.
\<close>

definition two_parts :: "recv_event list" where
  "two_parts = [Recv_data (unlines [''BEGIN ADD'']), Recv_data (unlines [''END ADD''])]"

lemma two_parts_lost:
  "case receive two_parts (replicate 64 NUL) (fst (snd (afmpkg_request_init []))) [] of
     (rc, req, m) \<Rightarrow> rc = 0 \<and> rq_state req = Request_Pending \<and> rq_kind req = Request_Add_Package"
  by (simp add: two_parts_def receive_def receive_lines.simps unlines_def buffer_line_def line_end_def put_bytes_def unread_def
      afmpkg_request_init_def path_entry_create_root_def afmpkg_request_add_line_def key_value_def add_begin_def beside_def
      get_operation_kind_def c_string_def numeral_eq_Suc)

definition working_service :: "nat package_service" where
  "working_service = \<lparr>ps_install = (\<lambda>_ m w. (0, m, Suc w)), ps_uninstall = (\<lambda>_ m w. (0, m, w))\<rparr>"

lemma demo_daemon_memory: "fst (c_alloc (dm_mem demo_daemon))"
  by (simp add: demo_daemon_def)

lemma receive_begin:
  assumes "10 \<le> length buf"
  shows "receive [Recv_data (unlines [''BEGIN ADD''])] buf (fst (snd (afmpkg_request_init []))) [] =
     (0, (fst (snd (afmpkg_request_init [])))\<lparr>rq_kind := Request_Add_Package\<rparr>, [])"
proof -
  have "receive [Recv_data (unlines [''BEGIN ADD''])] buf req [] = feed [''BEGIN ADD''] req []" for req
    using assms by (intro receive_whole) (simp_all add: request_line_def unlines_def)
  then show ?thesis
    by (simp add: afmpkg_request_init_def path_entry_create_root_def afmpkg_request_add_line_def key_value_def add_begin_def
        beside_def get_operation_kind_def c_string_def)
qed

lemma unended_request_processed:
  assumes "10 \<le> length rbuf"
  shows "sv_rc (afmpkg_serve working_service clk [Recv_data (unlines [''BEGIN ADD''])] rbuf sbuf demo_daemon) = 0 \<and>
    dm_world (sv_daemon (afmpkg_serve working_service clk [Recv_data (unlines [''BEGIN ADD''])] rbuf sbuf demo_daemon)) = 1"
  using receive_begin [OF assms]
  by (simp add: afmpkg_serve_def demo_daemon_def afmpkg_request_init_def path_entry_create_root_def
      afmpkg_request_process_def run_operation_def record_transaction_def working_service_def)

theorem serve_reply_line_witness:
  "(\<exists>str. sv_sent (afmpkg_serve working_service (0, 0) [Recv_data (unlines [''BEGIN ADD''])] (replicate 64 NUL)
      (replicate 512 NUL) demo_daemon) = str @ [newline] \<and> newline \<notin> set str \<and> length str < 512 \<and> says ''OK'' str) \<and>
   sv_sent (afmpkg_serve working_service (0, 0) [] (replicate 64 NUL) (replicate 512 NUL) (demo_daemon\<lparr>dm_mem := [False]\<rparr>)) =
     ''OK'' @ [newline]"
  using serve_reply_line [of "replicate 64 NUL" "replicate 512 NUL" working_service "(0, 0)"
      "[Recv_data (unlines [''BEGIN ADD''])]" demo_daemon]
    serve_reply_line [of "replicate 64 NUL" "replicate 512 NUL" working_service "(0, 0)" "[]" "demo_daemon\<lparr>dm_mem := [False]\<rparr>"]
    unended_request_processed [of "replicate 64 NUL" "(0, 0)" "replicate 512 NUL"] demo_daemon_memory
  by auto

definition demo_world :: "nat std_world" where
  "demo_world = \<lparr>wd_fs = demo_fs [], wd_handles = 0, wd_afid = afid_initial, wd_template = None, wd_slmhndl = None\<rparr>"

theorem daemon_between_clients_witness:
  "wd_slmhndl (dm_world (sv_daemon (afmpkg_serve (std_service demo_env ''/r'' demo_sysd simulated_slm) (0, 0)
     [Recv_data (unlines [''BEGIN ADD''])] (replicate 64 NUL) (replicate 512 NUL)
     \<lparr>dm_transactions = [], dm_mem = [], dm_world = demo_world\<rparr>))) = None"
proof -
  have "fst (slm_create simulated_slm n) < 0 \<longleftrightarrow> snd (slm_create simulated_slm n) = None" for n
    by (simp add: simulated_slm_def)
  then show ?thesis
    by (rule daemon_between_clients [OF _ daemon_reach.client [OF daemon_reach.start], THEN conjunct1])
      (simp_all add: demo_world_def trans_inv_def)
qed

theorem received_request_well_formed_witness:
  "request_inv (fst (snd (receive two_parts (replicate 64 NUL) (fst (snd (afmpkg_request_init []))) [])))"
proof -
  obtain rc0 req0 m1 where init: "afmpkg_request_init [] = (rc0, req0, m1)" using prod_cases3 by blast
  then have "0 \<le> rc0" "m1 = []" by (auto simp: afmpkg_request_init_def path_entry_create_root_def)
  moreover obtain rc req m where "receive two_parts (replicate 64 NUL) req0 m1 = (rc, req, m)" using prod_cases3 by blast
  ultimately show ?thesis using received_request_well_formed [OF init, of "replicate 64 NUL" two_parts] init by simp
qed

end
