(* ===== verification/AfmpkgClient.thy ===== *)
theory AfmpkgClient
  imports AfmpkgServer
begin

text \<open>
  The client side of the protocol of the package daemon: the composition of requests and
  the reading of replies (\<^verbatim>\<open>src/src/afmpkg/afmpkg-client.c\<close>), and the part of the plugin of rpm
  that fills a request from a transaction element (\<^verbatim>\<open>make_message\<close> and \<^verbatim>\<open>get_operation\<close> of
  \<^verbatim>\<open>src/src/rpm-plugin/redpesk.c\<close>); then the round trip of a request from the client to the
  daemon, and of a reply back.

  A byte of the client's buffer is \<open>None\<close> when it was never written: what \<^verbatim>\<open>malloc\<close> gives, and
  the array of the structure before its first use.
\<close>

section \<open>Composition of requests\<close>

datatype afmpkg_operation =
    afmpkg_operation_Add | afmpkg_operation_Remove | afmpkg_operation_Check_Add | afmpkg_operation_Check_Remove

datatype afmpkg_client_state =
    afmpkg_client_state_None | afmpkg_client_state_Started | afmpkg_client_state_Ready

fun operations :: "afmpkg_operation \<Rightarrow> string" where
  "operations afmpkg_operation_Add = ''ADD''"
| "operations afmpkg_operation_Remove = ''REMOVE''"
| "operations afmpkg_operation_Check_Add = ''CHECK-ADD''"
| "operations afmpkg_operation_Check_Remove = ''CHECK-REMOVE''"

definition AFMPKG_CLIENT_BUFFER0_SIZE :: nat where "AFMPKG_CLIENT_BUFFER0_SIZE = 4050"

definition MEMO_ROOTDIR :: "8 word" where "MEMO_ROOTDIR = 1"
definition MEMO_TRANSID :: "8 word" where "MEMO_TRANSID = 2"
definition MEMO_REDPAKID :: "8 word" where "MEMO_REDPAKID = 4"

text \<open>\<open>cl_own\<close> tells that the buffer is the array \<^verbatim>\<open>buffer0\<close> of the structure.\<close>

record afmpkg_client =
  cl_buffer :: "char option list"
  cl_own :: bool
  cl_length :: nat
  cl_size :: nat
  cl_operation :: afmpkg_operation
  cl_state :: afmpkg_client_state
  cl_memo :: "8 word"

definition afmpkg_client_init :: "afmpkg_client \<Rightarrow> afmpkg_client" where
  "afmpkg_client_init c =
     c\<lparr>cl_buffer := replicate AFMPKG_CLIENT_BUFFER0_SIZE None, cl_own := True, cl_length := 0,
       cl_size := AFMPKG_CLIENT_BUFFER0_SIZE, cl_state := afmpkg_client_state_None\<rparr>"

definition afmpkg_client_release :: "afmpkg_client \<Rightarrow> afmpkg_client" where
  "afmpkg_client_release c = afmpkg_client_init c"

text \<open>
  The doubling of the size; \<open>None\<close> when the doubled value overflows a \<^verbatim>\<open>size_t\<close>. The size is
  never zero: it starts at 4050.
\<close>

function grow_size :: "nat \<Rightarrow> nat \<Rightarrow> nat option" where
  "grow_size fpos sz =
     (if fpos < sz then Some sz
      else if sz = 0 \<or> 2 * sz \<ge> 2 ^ 64 then None
      else grow_size fpos (2 * sz))"
  by pat_completeness auto

termination by (relation "measure (\<lambda>(fpos, sz). 2 ^ 64 - sz)") auto

declare grow_size.simps [simp del]

definition write_at :: "nat \<Rightarrow> string \<Rightarrow> char option list \<Rightarrow> char option list" where
  "write_at pos str buf = take pos buf @ map Some str @ drop (pos + length str) buf"

definition client_put :: "string \<Rightarrow> afmpkg_client \<Rightarrow> afmpkg_client" where
  "client_put str c = c\<lparr>cl_buffer := write_at (cl_length c) str (cl_buffer c), cl_length := cl_length c + length str\<rparr>"

definition key_line :: "string \<Rightarrow> string \<Rightarrow> string" where
  "key_line key val = key @ CHR '' '' # val"

definition put_key_val_nl :: "afmpkg_client \<Rightarrow> mem \<Rightarrow> string \<Rightarrow> string \<Rightarrow> int \<times> afmpkg_client \<times> mem" where
  "put_key_val_nl c m key val =
     (if cl_state c \<noteq> afmpkg_client_state_Started then (- EINVAL, c, m)
      else let fpos = cl_length c + 2 + length val + length key in
        if fpos \<ge> cl_size c then
          (case grow_size fpos (cl_size c) of
             None \<Rightarrow> (- EINVAL, c, m)
           | Some sz \<Rightarrow>
               let (ok, m') = c_alloc m in
               if \<not> ok then (- ENOMEM, c, m')
               else (0, client_put (key_line key val @ [newline])
                      (c\<lparr>cl_buffer := (if cl_own c then replicate sz None
                                       else cl_buffer c @ replicate (sz - cl_size c) None),
                        cl_own := False, cl_size := sz\<rparr>), m'))
        else (0, client_put (key_line key val @ [newline]) c, m))"

definition put_key_val_nl_memo ::
  "afmpkg_client \<Rightarrow> mem \<Rightarrow> string \<Rightarrow> string \<Rightarrow> 8 word \<Rightarrow> int \<times> afmpkg_client \<times> mem" where
  "put_key_val_nl_memo c m key val memo =
     (if and (cl_memo c) memo \<noteq> 0 then (- EINVAL, c, m)
      else let (rc, c', m') = put_key_val_nl c m key val
           in (rc, if rc = 0 then c'\<lparr>cl_memo := or (cl_memo c') memo\<rparr> else c', m'))"

text \<open>The remainder and the quotient of C have the sign of the dividend.\<close>

function itoa_loop :: "int \<Rightarrow> string \<Rightarrow> string" where
  "itoa_loop v p =
     (if sgn v * (\<bar>v\<bar> div 10) = 0 then char_of (48 + sgn v * (\<bar>v\<bar> mod 10)) # p
      else itoa_loop (sgn v * (\<bar>v\<bar> div 10)) (char_of (48 + sgn v * (\<bar>v\<bar> mod 10)) # p))"
  by pat_completeness auto

termination
  by (relation "measure (\<lambda>(v, p). nat \<bar>v\<bar>)") (auto simp: abs_mult sgn_if nat_less_iff)

declare itoa_loop.simps [simp del]

definition itoa :: "int \<Rightarrow> string" where
  "itoa value = itoa_loop value []"

text \<open>The operator \<^verbatim>\<open>?:\<close> of the code: the first status that is not zero.\<close>

definition then_do :: "int \<times> afmpkg_client \<times> mem \<Rightarrow> (afmpkg_client \<Rightarrow> mem \<Rightarrow> int \<times> afmpkg_client \<times> mem) \<Rightarrow>
    int \<times> afmpkg_client \<times> mem" where
  "then_do r f = (case r of (rc, c, m) \<Rightarrow> if rc \<noteq> 0 then r else f c m)"

definition afmpkg_client_begin ::
  "afmpkg_client \<Rightarrow> mem \<Rightarrow> afmpkg_operation option \<Rightarrow> string \<Rightarrow> int \<Rightarrow> int \<Rightarrow> int \<times> afmpkg_client \<times> mem" where
  "afmpkg_client_begin c m operation package_name index count =
     (case operation of
        None \<Rightarrow> (- EINVAL, c, m)
      | Some op \<Rightarrow>
          then_do (then_do (then_do
            (put_key_val_nl (c\<lparr>cl_length := 0, cl_operation := op, cl_state := afmpkg_client_state_Started, cl_memo := 0\<rparr>) m
               ''BEGIN'' (operations op))
            (\<lambda>c m. put_key_val_nl c m ''PACKAGE'' package_name))
            (\<lambda>c m. put_key_val_nl c m ''INDEX'' (itoa index)))
            (\<lambda>c m. put_key_val_nl c m ''COUNT'' (itoa count)))"

definition afmpkg_client_end :: "afmpkg_client \<Rightarrow> mem \<Rightarrow> int \<times> afmpkg_client \<times> mem" where
  "afmpkg_client_end c m =
     (let (rc, c1, m') = put_key_val_nl c m ''END'' (operations (cl_operation c));
          c2 = c1\<lparr>cl_state := afmpkg_client_state_Ready\<rparr>
      in (rc, if rc = 0 then c2\<lparr>cl_buffer := (cl_buffer c2)[cl_length c2 := Some NUL]\<rparr> else c2, m'))"

definition afmpkg_client_put_file :: "afmpkg_client \<Rightarrow> mem \<Rightarrow> string \<Rightarrow> int \<times> afmpkg_client \<times> mem" where
  "afmpkg_client_put_file c m val = put_key_val_nl c m ''FILE'' val"

definition afmpkg_client_put_rootdir :: "afmpkg_client \<Rightarrow> mem \<Rightarrow> string \<Rightarrow> int \<times> afmpkg_client \<times> mem" where
  "afmpkg_client_put_rootdir c m val = put_key_val_nl_memo c m ''ROOT'' val MEMO_ROOTDIR"

definition afmpkg_client_put_transid :: "afmpkg_client \<Rightarrow> mem \<Rightarrow> string \<Rightarrow> int \<times> afmpkg_client \<times> mem" where
  "afmpkg_client_put_transid c m val = put_key_val_nl_memo c m ''TRANSID'' val MEMO_TRANSID"

definition afmpkg_client_put_redpakid :: "afmpkg_client \<Rightarrow> mem \<Rightarrow> string \<Rightarrow> int \<times> afmpkg_client \<times> mem" where
  "afmpkg_client_put_redpakid c m val = put_key_val_nl_memo c m ''REDPAKID'' val MEMO_REDPAKID"

section \<open>Replies\<close>

definition strip_newlines :: "string \<Rightarrow> string" where
  "strip_newlines s = rev (dropWhile (\<lambda>c. c = newline) (rev s))"

text \<open>
  The interpretation of the bytes received, at most 999: the status is 1 for a success, 0
  for an error; the second component is the text that follows, when there is one.
\<close>

definition reply_argument :: "int \<Rightarrow> string \<Rightarrow> mem \<Rightarrow> int \<times> string option \<times> mem" where
  "reply_argument rc rest m =
     (if c_string rest \<noteq> [] \<and> hd rest \<noteq> CHR '' '' then (- EBADMSG, None, m)
      else let arg = c_string (dropWhile (\<lambda>c. c = CHR '' '') rest) in
        if arg = [] then (rc, None, m)
        else let (ok, m') = c_alloc m in (rc, if ok then Some arg else None, m'))"

definition parse_reply :: "string \<Rightarrow> mem \<Rightarrow> int \<times> string option \<times> mem" where
  "parse_reply bytes m =
     (let input = strip_newlines bytes in
      if take 2 input = ''OK'' then reply_argument 1 (drop 2 input) m
      else if take 5 input = ''ERROR'' then reply_argument 0 (drop 5 input) m
      else (- EBADMSG, None, m))"

definition recv_framework :: "int + string \<Rightarrow> mem \<Rightarrow> int \<times> string option \<times> mem" where
  "recv_framework received m =
     (case received of
        Inl errno \<Rightarrow> (- errno, None, m)
      | Inr bytes \<Rightarrow> parse_reply (take 999 bytes) m)"

text \<open>
  A dialog: the results of the connection, of the emission (a negated error number or 0), and
  what the daemon answers to the bytes sent.
\<close>

definition afmpkg_client_dial ::
  "int \<Rightarrow> int \<Rightarrow> (char option list \<Rightarrow> int + string) \<Rightarrow> afmpkg_client \<Rightarrow> mem \<Rightarrow> int \<times> string option \<times> mem" where
  "afmpkg_client_dial connected sent framework c m =
     (if connected < 0 then (connected, None, m)
      else if sent < 0 then (sent, None, m)
      else recv_framework (framework (take (cl_length c) (cl_buffer c))) m)"

section \<open>Requests of the plugin of rpm\<close>

text \<open>What rpm and the environment give for an element of a transaction.\<close>

record rpm_record =
  rr_index :: int
  rr_count :: int
  rr_name :: string
  rr_rootdir :: "string option"
  rr_transid :: "string option"
  rr_redpakid :: "string option"
  rr_files :: "string list"

datatype rpmElementType = TR_ADDED | TR_REMOVED | TR_other

fun get_operation :: "rpmElementType \<Rightarrow> bool \<Rightarrow> afmpkg_operation option" where
  "get_operation TR_ADDED onlycheck = Some (if onlycheck then afmpkg_operation_Check_Add else afmpkg_operation_Add)"
| "get_operation TR_REMOVED onlycheck = Some (if onlycheck then afmpkg_operation_Check_Remove else afmpkg_operation_Remove)"
| "get_operation TR_other onlycheck = None"

definition put_optional ::
  "(afmpkg_client \<Rightarrow> mem \<Rightarrow> string \<Rightarrow> int \<times> afmpkg_client \<times> mem) \<Rightarrow> string option \<Rightarrow>
   afmpkg_client \<Rightarrow> mem \<Rightarrow> int \<times> afmpkg_client \<times> mem" where
  "put_optional put val c m = (case val of None \<Rightarrow> (0, c, m) | Some v \<Rightarrow> put c m v)"

fun put_files :: "string list \<Rightarrow> afmpkg_client \<Rightarrow> mem \<Rightarrow> int \<times> afmpkg_client \<times> mem" where
  "put_files [] c m = (0, c, m)"
| "put_files (f # fs) c m = then_do (afmpkg_client_put_file c m f) (put_files fs)"

definition make_message ::
  "afmpkg_client \<Rightarrow> mem \<Rightarrow> rpm_record \<Rightarrow> afmpkg_operation option \<Rightarrow> int \<times> afmpkg_client \<times> mem" where
  "make_message c m r operation =
     then_do (then_do (then_do (then_do (then_do
       (afmpkg_client_begin c m operation (rr_name r) (rr_index r) (rr_count r))
       (put_optional afmpkg_client_put_rootdir (rr_rootdir r)))
       (put_optional afmpkg_client_put_transid (rr_transid r)))
       (put_optional afmpkg_client_put_redpakid (rr_redpakid r)))
       (put_files (rr_files r)))
       afmpkg_client_end"

section \<open>The message that is composed\<close>

definition opt_line :: "string \<Rightarrow> string option \<Rightarrow> string list" where
  "opt_line key val = (case val of None \<Rightarrow> [] | Some v \<Rightarrow> [key_line key v])"

definition message_lines :: "rpm_record \<Rightarrow> afmpkg_operation \<Rightarrow> string list" where
  "message_lines r op =
     [key_line ''BEGIN'' (operations op), key_line ''PACKAGE'' (rr_name r), key_line ''INDEX'' (itoa (rr_index r)),
      key_line ''COUNT'' (itoa (rr_count r))] @
     opt_line ''ROOT'' (rr_rootdir r) @ opt_line ''TRANSID'' (rr_transid r) @ opt_line ''REDPAKID'' (rr_redpakid r) @
     map (key_line ''FILE'') (rr_files r) @ [key_line ''END'' (operations op)]"

text \<open>A client whose array holds some bytes, and the successful steps that add lines to it.\<close>

definition client_holds :: "afmpkg_client \<Rightarrow> string \<Rightarrow> bool" where
  "client_holds c str \<longleftrightarrow> cl_own c \<and> cl_state c = afmpkg_client_state_Started \<and>
     cl_size c = AFMPKG_CLIENT_BUFFER0_SIZE \<and> length (cl_buffer c) = AFMPKG_CLIENT_BUFFER0_SIZE \<and>
     cl_length c = length str \<and> take (length str) (cl_buffer c) = map Some str"

definition composed :: "afmpkg_operation \<Rightarrow> 8 word \<Rightarrow> string \<Rightarrow> int \<times> afmpkg_client \<times> mem \<Rightarrow> bool" where
  "composed op memo str r \<longleftrightarrow>
     (\<exists>c. r = (0, c, []) \<and> client_holds c str \<and> cl_operation c = op \<and> cl_memo c = memo)"

lemma unlines_append [simp]: "unlines (xs @ ys) = unlines xs @ unlines ys"
  by (simp add: unlines_def)

lemma composed_then:
  assumes "composed op memo str r"
    and "\<And>c. client_holds c str \<Longrightarrow> cl_operation c = op \<Longrightarrow> cl_memo c = memo \<Longrightarrow> composed op memo' str' (f c [])"
  shows "composed op memo' str' (then_do r f)"
  using assms by (auto simp: composed_def then_do_def)

lemma put_key_val_nl_composed:
  assumes "client_holds c str" "length str + length (key_line key val) + 1 < AFMPKG_CLIENT_BUFFER0_SIZE"
  shows "composed (cl_operation c) (cl_memo c) (str @ key_line key val @ [newline]) (put_key_val_nl c [] key val)"
proof -
  have put: "put_key_val_nl c [] key val = (0, client_put (key_line key val @ [newline]) c, [])"
    using assms by (simp add: put_key_val_nl_def client_holds_def key_line_def)
  have "client_holds (client_put (key_line key val @ [newline]) c) (str @ key_line key val @ [newline])"
    using assms by (simp add: client_holds_def client_put_def write_at_def)
  with put show ?thesis by (simp add: composed_def client_put_def)
qed

lemma composed_line:
  assumes "composed op m str r" "length str + length (unlines [key_line key val]) < AFMPKG_CLIENT_BUFFER0_SIZE"
  shows "composed op m (str @ unlines [key_line key val]) (then_do r (\<lambda>c m. put_key_val_nl c m key val))"
  using assms(2)
  by (intro composed_then [OF assms(1)])
    (use put_key_val_nl_composed [where key = key and val = val] in \<open>auto simp: unlines_def\<close>)

lemma put_memo_composed:
  assumes "client_holds c str" "length str + length (key_line key val) + 1 < AFMPKG_CLIENT_BUFFER0_SIZE"
    "and (cl_memo c) memo = 0"
  shows "composed (cl_operation c) (or (cl_memo c) memo) (str @ unlines [key_line key val]) (put_key_val_nl_memo c [] key val memo)"
  using put_key_val_nl_composed [OF assms(1,2)] assms(3)
  by (auto simp: composed_def put_key_val_nl_memo_def client_holds_def unlines_def)

lemma put_optional_composed:
  assumes "composed op m str r" "length str + length (unlines (opt_line key val)) < AFMPKG_CLIENT_BUFFER0_SIZE" "and m memo = 0"
    and "put = (\<lambda>c m v. put_key_val_nl_memo c m key v memo)"
  shows "composed op (if val = None then m else or m memo) (str @ unlines (opt_line key val)) (then_do r (put_optional put val))"
proof (rule composed_then [OF assms(1)])
  fix c assume c: "client_holds c str" "cl_operation c = op" "cl_memo c = m"
  show "composed op (if val = None then m else or m memo) (str @ unlines (opt_line key val)) (put_optional put val c [])"
  proof (cases val)
    case None
    with c show ?thesis by (simp add: put_optional_def opt_line_def composed_def unlines_def)
  next
    case (Some v)
    have "length str + length (key_line key v) + 1 < AFMPKG_CLIENT_BUFFER0_SIZE"
      using assms(2) Some by (simp add: opt_line_def unlines_def)
    with put_memo_composed [OF c(1) this, of memo] c Some assms(3,4) show ?thesis
      by (simp add: put_optional_def opt_line_def)
  qed
qed

lemma put_files_composed:
  assumes "composed op m str r" "length str + length (unlines (map (key_line ''FILE'') fs)) < AFMPKG_CLIENT_BUFFER0_SIZE"
  shows "composed op m (str @ unlines (map (key_line ''FILE'') fs)) (then_do r (put_files fs))"
  using assms
proof (induction fs arbitrary: str r)
  case Nil
  then show ?case by (auto simp: composed_def then_do_def unlines_def)
next
  case (Cons f fs)
  from Cons.prems(1) obtain c where c: "r = (0, c, [])" "client_holds c str" "cl_operation c = op" "cl_memo c = m"
    by (auto simp: composed_def)
  have "composed op m (str @ key_line ''FILE'' f @ [newline]) (afmpkg_client_put_file c [] f)"
    using put_key_val_nl_composed [OF c(2), of "''FILE''" f] c Cons.prems(2)
    by (simp add: afmpkg_client_put_file_def unlines_def)
  from Cons.IH [OF this] Cons.prems(2) c show ?case
    by (simp add: then_do_def unlines_def)
qed

lemma client_begin_composed:
  assumes "length (unlines (take 4 (message_lines r op))) < AFMPKG_CLIENT_BUFFER0_SIZE"
  shows "composed op 0 (unlines (take 4 (message_lines r op)))
     (afmpkg_client_begin (afmpkg_client_init c) [] (Some op) (rr_name r) (rr_index r) (rr_count r))"
proof -
  let ?c = "(afmpkg_client_init c)\<lparr>cl_length := 0, cl_operation := op, cl_state := afmpkg_client_state_Started, cl_memo := 0\<rparr>"
  have len: "length (unlines [key_line ''BEGIN'' (operations op)]) + length (unlines [key_line ''PACKAGE'' (rr_name r)]) +
      length (unlines [key_line ''INDEX'' (itoa (rr_index r))]) + length (unlines [key_line ''COUNT'' (itoa (rr_count r))])
      < AFMPKG_CLIENT_BUFFER0_SIZE"
    using assms by (simp add: message_lines_def unlines_def)
  have "client_holds ?c []" by (simp add: client_holds_def afmpkg_client_init_def)
  then have "composed op 0 [] (0, ?c, [])" by (simp add: composed_def)
  from composed_line [OF this, of "''BEGIN''" "operations op"] len
  have one: "composed op 0 (unlines [key_line ''BEGIN'' (operations op)]) (put_key_val_nl ?c [] ''BEGIN'' (operations op))"
    by (simp add: then_do_def)
  note two = composed_line [OF one, of "''PACKAGE''" "rr_name r"]
  note three = composed_line [OF two, of "''INDEX''" "itoa (rr_index r)"]
  note four = composed_line [OF three, of "''COUNT''" "itoa (rr_count r)"]
  from four len show ?thesis
    by (simp add: afmpkg_client_begin_def message_lines_def unlines_def)
qed

lemma make_message_bytes:
  assumes "length (unlines (message_lines r op)) < AFMPKG_CLIENT_BUFFER0_SIZE"
  shows "\<exists>c'. make_message (afmpkg_client_init c) [] r (Some op) = (0, c', []) \<and>
           take (cl_length c') (cl_buffer c') = map Some (unlines (message_lines r op))"
proof -
  let ?root = "opt_line ''ROOT'' (rr_rootdir r)" and ?trans = "opt_line ''TRANSID'' (rr_transid r)"
    and ?redpak = "opt_line ''REDPAKID'' (rr_redpakid r)" and ?files = "map (key_line ''FILE'') (rr_files r)"
    and ?head = "take 4 (message_lines r op)" and ?last = "[key_line ''END'' (operations op)]"
  have lines: "message_lines r op = ?head @ ?root @ ?trans @ ?redpak @ ?files @ ?last"
    by (simp add: message_lines_def)
  have len: "length (unlines ?head) + length (unlines ?root) + length (unlines ?trans) + length (unlines ?redpak) +
      length (unlines ?files) + length (unlines ?last) < AFMPKG_CLIENT_BUFFER0_SIZE"
    using assms by (subst (asm) lines) simp
  have memos: "and 0 MEMO_ROOTDIR = 0" "and (if rr_rootdir r = None then 0 else or 0 MEMO_ROOTDIR) MEMO_TRANSID = 0"
    "and (if rr_transid r = None then if rr_rootdir r = None then 0 else or 0 MEMO_ROOTDIR
          else or (if rr_rootdir r = None then 0 else or 0 MEMO_ROOTDIR) MEMO_TRANSID) MEMO_REDPAKID = 0"
    by (simp_all add: MEMO_ROOTDIR_def MEMO_TRANSID_def MEMO_REDPAKID_def)
  have puts: "afmpkg_client_put_rootdir = (\<lambda>c m v. put_key_val_nl_memo c m ''ROOT'' v MEMO_ROOTDIR)"
    "afmpkg_client_put_transid = (\<lambda>c m v. put_key_val_nl_memo c m ''TRANSID'' v MEMO_TRANSID)"
    "afmpkg_client_put_redpakid = (\<lambda>c m v. put_key_val_nl_memo c m ''REDPAKID'' v MEMO_REDPAKID)"
    by (simp_all add: fun_eq_iff afmpkg_client_put_rootdir_def afmpkg_client_put_transid_def afmpkg_client_put_redpakid_def)
  have "composed op 0 (unlines ?head) (afmpkg_client_begin (afmpkg_client_init c) [] (Some op) (rr_name r) (rr_index r) (rr_count r))"
    using len by (intro client_begin_composed) simp
  note a = put_optional_composed [OF this _ memos(1) puts(1), of "rr_rootdir r"]
  note b = put_optional_composed [OF a _ memos(2) puts(2), of "rr_transid r"]
  note d = put_optional_composed [OF b _ memos(3) puts(3), of "rr_redpakid r"]
  note e = put_files_composed [OF d, of "rr_files r"]
  obtain c1 where c1: "client_holds c1 (unlines (?head @ ?root @ ?trans @ ?redpak @ ?files))" "cl_operation c1 = op"
    "make_message (afmpkg_client_init c) [] r (Some op) = afmpkg_client_end c1 []"
    using e len by (auto simp: composed_def make_message_def then_do_def)
  have "composed op (cl_memo c1) (unlines (message_lines r op)) (put_key_val_nl c1 [] ''END'' (operations op))"
    using put_key_val_nl_composed [OF c1(1), of "''END''" "operations op"] len c1(2)
    by (subst lines) (simp add: unlines_def)
  then show ?thesis
    using c1(2,3) by (auto simp: composed_def afmpkg_client_end_def client_holds_def)
qed

section \<open>The request that the daemon reads\<close>

lemma add_line_keys:
  assumes "rq_state req = Request_Pending"
  shows "afmpkg_request_add_line req m (key_line ''BEGIN'' v) = beside (add_begin req v) m"
    "afmpkg_request_add_line req m (key_line ''COUNT'' v) = beside (add_count req v) m"
    "afmpkg_request_add_line req m (key_line ''END'' v) = beside (add_end req v) m"
    "afmpkg_request_add_line req m (key_line ''FILE'' v) = add_file req m v"
    "afmpkg_request_add_line req m (key_line ''INDEX'' v) = beside (add_index req v) m"
    "afmpkg_request_add_line req m (key_line ''PACKAGE'' v) = add_package req m v"
    "afmpkg_request_add_line req m (key_line ''REDPAKID'' v) = add_redpakid req m v"
    "afmpkg_request_add_line req m (key_line ''ROOT'' v) = add_root req m v"
    "afmpkg_request_add_line req m (key_line ''TRANSID'' v) = add_transid req m v"
  using assms by (simp_all add: afmpkg_request_add_line_def key_value_def key_line_def)

lemma feed_append:
  "feed (xs @ ys) req m = (case feed xs req m of (rc, req', m') \<Rightarrow> if rc < 0 then (rc, req', m') else feed ys req' m')"
  by (induction xs arbitrary: req m) (auto split: prod.splits)

definition clean :: "string \<Rightarrow> bool" where
  "clean s \<longleftrightarrow> newline \<notin> set s \<and> NUL \<notin> set s"

lemma c_string_clean: "clean s \<Longrightarrow> c_string s = s"
  unfolding clean_def c_string_def by (auto simp: takeWhile_eq_all_conv)

lemma char_of_digit:
  assumes "d < 10"
  shows "char_of (48 + int d) = digit_char d"
proof -
  have "(of_char (char_of (48 + int d)) :: int) = 48 + int d"
    using assms by (simp add: take_bit_int_eq_self)
  then have "(of_char (char_of (48 + int d)) :: int) = of_char (digit_char d)"
    using of_digit_char [OF assms] by simp
  then show ?thesis by (simp only: of_char_eq_iff)
qed

lemma itoa_digits: "itoa (int n) = nat_digits n"
proof -
  have "itoa_loop (int n) p = nat_digits n @ p" for p
  proof (induction n arbitrary: p rule: nat_digits.induct)
    case (1 n)
    have c: "char_of (48 + int (n mod 10)) = digit_char (n mod 10)" by (rule char_of_digit) simp
    show ?case
    proof (cases "n < 10")
      case True
      then show ?thesis using c
        by (subst itoa_loop.simps, subst nat_digits.simps) (auto simp: sgn_if zdiv_int zmod_int)
    next
      case False
      then have "itoa_loop (int n) p = itoa_loop (int (n div 10)) (digit_char (n mod 10) # p)"
        using c by (subst itoa_loop.simps) (auto simp: sgn_if zdiv_int zmod_int)
      with 1 [OF False] False show ?thesis by (simp add: nat_digits.simps [of n])
    qed
  qed
  then show ?thesis by (simp add: itoa_def)
qed

lemma nat_digits_clean: "clean (nat_digits n)"
  using nat_digits_digits [of newline n] nat_digits_digits [of NUL n]
  by (auto simp: clean_def is_digit_def)

definition operation_kind :: "afmpkg_operation \<Rightarrow> afmpkg_request_kind" where
  "operation_kind op = get_operation_kind (operations op)"

lemma operation_kind_set: "operation_kind op \<noteq> Request_Unset" "clean (operations op)"
  by (cases op; simp add: operation_kind_def get_operation_kind_def clean_def)+

lemma add_number:
  assumes "1 \<le> n" "n < 2 ^ 32" "rq_kind req \<noteq> Request_Unset"
  shows "rq_index req = 0 \<Longrightarrow> rq_count req = 0 \<Longrightarrow> add_index req (nat_digits n) = (0, req\<lparr>rq_index := of_nat n\<rparr>)"
    "rq_count req = 0 \<Longrightarrow> unat (rq_index req) \<le> n \<Longrightarrow> add_count req (nat_digits n) = (0, req\<lparr>rq_count := of_nat n\<rparr>)"
proof -
  have num: "c_strtol (nat_digits n) = (int n, [], False)"
    using assms(2) by (intro c_strtol_nat_digits) (simp add: LONG_MAX_def)
  have range: "\<not> out_of_range (int n) False"
    using assms(1,2) by (simp add: out_of_range_def UINT_MAX_def)
  note [simp] = num range c_string_clean [OF nat_digits_clean]
  show "rq_index req = 0 \<Longrightarrow> rq_count req = 0 \<Longrightarrow> add_index req (nat_digits n) = (0, req\<lparr>rq_index := of_nat n\<rparr>)"
    using assms(3) by (simp add: add_index_def)
  have "unat (of_nat n :: 32 word) = n" using assms(2) by (simp add: unat_of_nat)
  then show "rq_count req = 0 \<Longrightarrow> unat (rq_index req) \<le> n \<Longrightarrow> add_count req (nat_digits n) = (0, req\<lparr>rq_count := of_nat n\<rparr>)"
    using assms(3) by (simp add: add_count_def word_less_nat_alt)
qed

lemma feed_optional:
  assumes "rq_state req = Request_Pending" "rq_kind req \<noteq> Request_Unset" "pred_option clean val" "get req = None"
    and "\<And>v. afmpkg_request_add_line req [] (key_line key v) = add_copy get put code msg req [] v"
  shows "feed (opt_line key val) req [] = (0, case val of None \<Rightarrow> req | Some v \<Rightarrow> put v req, [])"
  using assms by (cases val) (simp_all add: opt_line_def add_copy_def c_string_clean)

lemma feed_files:
  assumes "rq_state req = Request_Pending" "rq_kind req \<noteq> Request_Unset" "pk_files (rq_apkg req) = Some t" "wf_entry t"
    and "\<forall>f \<in> set fs. length f < 2 ^ 32"
  shows "\<exists>t'. feed (map (key_line ''FILE'') fs) req [] = (0, req\<lparr>rq_apkg := (rq_apkg req)\<lparr>pk_files := Some t'\<rparr>\<rparr>, []) \<and>
     wf_entry t' \<and> entry_view t' = fold (\<lambda>f v. view_add v [] f) fs (entry_view t)"
  using assms
proof (induction fs arbitrary: req t)
  case Nil
  then show ?case by (intro exI [of _ t]) simp
next
  case (Cons f fs)
  obtain rc r t1 m1 where add: "path_entry_add_length t [] [] f (length f) = (rc, r, t1, m1)" using prod_cases4 by blast
  have t1: "wf_entry t1" "m1 = []" "rc = 0" "entry_view t1 = view_add (entry_view t) [] f"
    using path_entry_add_length_refines [OF Cons.prems(4) _ _ _ add, of f] Cons.prems(5)
    by (auto simp: path_entry_exists_def)
  let ?req = "req\<lparr>rq_apkg := (rq_apkg req)\<lparr>pk_files := Some t1\<rparr>\<rparr>"
  have "afmpkg_request_add_line req [] (key_line ''FILE'' f) = (0, ?req, [])"
    using Cons.prems t1 add by (simp add: add_line_keys add_file_def)
  with Cons.IH [of ?req t1] Cons.prems t1 show ?case by simp
qed

text \<open>What the daemon has of a request when it has read the message of the client.\<close>

definition requested :: "rpm_record \<Rightarrow> afmpkg_operation \<Rightarrow> files \<Rightarrow> afmpkg_request" where
  "requested r op t =
     \<lparr>rq_state = Request_Ready, rq_kind = operation_kind op, rq_scode = 0,
      rq_index = of_int (rr_index r), rq_count = of_int (rr_count r), rq_transid = rr_transid r,
      rq_scratch = None, rq_msg = None,
      rq_apkg = \<lparr>pk_package = Some (rr_name r), pk_files = Some t, pk_root = rr_rootdir r,
                 pk_redpakid = rr_redpakid r, pk_redpak_auto = None\<rparr>\<rparr>"

definition record_ok :: "rpm_record \<Rightarrow> bool" where
  "record_ok r \<longleftrightarrow> 1 \<le> rr_index r \<and> rr_index r \<le> rr_count r \<and> rr_count r < 2 ^ 31 \<and> clean (rr_name r) \<and>
     pred_option clean (rr_rootdir r) \<and> pred_option clean (rr_transid r) \<and> pred_option clean (rr_redpakid r) \<and>
     list_all (\<lambda>f. clean f \<and> length f < 2 ^ 32) (rr_files r)"

lemma feed_head:
  assumes "record_ok r"
  shows "feed (take 4 (message_lines r op)) (fst (snd (afmpkg_request_init []))) [] =
     (0, (fst (snd (afmpkg_request_init [])))\<lparr>rq_kind := operation_kind op, rq_index := of_int (rr_index r),
        rq_count := of_int (rr_count r), rq_apkg := no_package\<lparr>pk_files := Some (Entry [] 0 [] []), pk_package := Some (rr_name r)\<rparr>\<rparr>, [])"
proof -
  obtain i n where n: "rr_index r = int i" "rr_count r = int n" "1 \<le> i" "i \<le> n" "n < 2 ^ 31"
    using assms that [of "nat (rr_index r)" "nat (rr_count r)"] by (auto simp: record_ok_def nat_less_iff nat_le_iff)
  have "unat (of_nat i :: 32 word) = i" using n by (simp add: unat_of_nat)
  with n assms operation_kind_set [of op] show ?thesis
    by (simp add: message_lines_def afmpkg_request_init_def path_entry_create_root_def add_line_keys add_begin_def beside_def
        c_string_clean operation_kind_def [symmetric] itoa_digits add_number add_package_def add_copy_def record_ok_def no_package_def)
qed

lemma key_line_request:
  assumes "clean val" "key \<noteq> []" "newline \<notin> set key"
  shows "request_line (key_line key val)"
  using assms by (simp add: request_line_def key_line_def clean_def)

lemma message_lines_ok:
  assumes "record_ok r"
  shows "\<forall>l \<in> set (message_lines r op). request_line l"
proof -
  have "clean (itoa (rr_index r))" "clean (itoa (rr_count r))"
    using assms nat_digits_clean itoa_digits [of "nat (rr_index r)"] itoa_digits [of "nat (rr_count r)"]
    by (auto simp: record_ok_def)
  with assms operation_kind_set(2) [of op] show ?thesis
    by (auto simp: message_lines_def record_ok_def opt_line_def list_all_iff pred_option_def
        intro!: key_line_request split: option.splits)
qed

lemma feed_message:
  assumes "record_ok r"
  shows "\<exists>t. feed (message_lines r op) (fst (snd (afmpkg_request_init []))) [] = (0, requested r op t, []) \<and> wf_entry t \<and>
     entry_view t = fold (\<lambda>f v. view_add v [] f) (rr_files r) (entry_view (Entry [] 0 [] []))"
proof -
  define req1 where "req1 = (fst (snd (afmpkg_request_init [])))\<lparr>rq_kind := operation_kind op, rq_index := of_int (rr_index r),
    rq_count := of_int (rr_count r), rq_apkg := no_package\<lparr>pk_files := Some (Entry [] 0 [] []), pk_package := Some (rr_name r)\<rparr>\<rparr>"
  define req2 where "req2 = (case rr_rootdir r of None \<Rightarrow> req1 | Some v \<Rightarrow> req1\<lparr>rq_apkg := (rq_apkg req1)\<lparr>pk_root := Some v\<rparr>\<rparr>)"
  define req3 where "req3 = (case rr_transid r of None \<Rightarrow> req2 | Some v \<Rightarrow> req2\<lparr>rq_transid := Some v\<rparr>)"
  define req4 where "req4 = (case rr_redpakid r of None \<Rightarrow> req3 | Some v \<Rightarrow> req3\<lparr>rq_apkg := (rq_apkg req3)\<lparr>pk_redpakid := Some v\<rparr>\<rparr>)"
  note init = afmpkg_request_init_def path_entry_create_root_def no_package_def
  have k: "operation_kind op \<noteq> Request_Unset" by (rule operation_kind_set)
  have a: "feed (opt_line ''ROOT'' (rr_rootdir r)) req1 [] = (0, req2, [])"
    using assms k unfolding req2_def
    by (intro feed_optional) (auto simp: req1_def init record_ok_def add_line_keys add_root_def)
  have b: "feed (opt_line ''TRANSID'' (rr_transid r)) req2 [] = (0, req3, [])"
    using assms k unfolding req3_def
    by (intro feed_optional) (auto simp: req2_def req1_def init record_ok_def add_line_keys add_transid_def split: option.splits)
  have d: "feed (opt_line ''REDPAKID'' (rr_redpakid r)) req3 [] = (0, req4, [])"
    using assms k unfolding req4_def
    by (intro feed_optional) (auto simp: req3_def req2_def req1_def init record_ok_def add_line_keys add_redpakid_def split: option.splits)
  have r4: "rq_state req4 = Request_Pending" "rq_kind req4 = operation_kind op" "pk_files (rq_apkg req4) = Some (Entry [] 0 [] [])"
    by (auto simp: req4_def req3_def req2_def req1_def init split: option.splits)
  obtain t where t: "feed (map (key_line ''FILE'') (rr_files r)) req4 [] = (0, req4\<lparr>rq_apkg := (rq_apkg req4)\<lparr>pk_files := Some t\<rparr>\<rparr>, [])"
    "wf_entry t" "entry_view t = fold (\<lambda>f v. view_add v [] f) (rr_files r) (entry_view (Entry [] 0 [] []))"
    using feed_files [OF r4(1) _ r4(3), of "rr_files r"] r4(2) k assms by (auto simp: record_ok_def list_all_iff)
  have e: "feed [key_line ''END'' (operations op)] (req4\<lparr>rq_apkg := (rq_apkg req4)\<lparr>pk_files := Some t\<rparr>\<rparr>) [] = (0, requested r op t, [])"
    using r4 operation_kind_set [of op]
    by (auto simp: add_line_keys add_end_def beside_def c_string_clean operation_kind_def [symmetric] requested_def
        req4_def req3_def req2_def req1_def init split: option.splits)
  have lines: "message_lines r op = take 4 (message_lines r op) @ opt_line ''ROOT'' (rr_rootdir r) @ opt_line ''TRANSID'' (rr_transid r) @
      opt_line ''REDPAKID'' (rr_redpakid r) @ map (key_line ''FILE'') (rr_files r) @ [key_line ''END'' (operations op)]"
    by (simp add: message_lines_def)
  have "feed (message_lines r op) (fst (snd (afmpkg_request_init []))) [] = (0, requested r op t, [])"
    by (subst lines) (simp only: feed_append feed_head [OF assms] req1_def [symmetric] a b d t(1) e prod.case less_irrefl if_False)
  with t show ?thesis by blast
qed

section \<open>An exchange\<close>

lemma strip_newlines_append:
  "y \<noteq> newline \<Longrightarrow> strip_newlines (xs @ y # ys) = xs @ y # strip_newlines ys"
  "strip_newlines (xs @ [newline]) = strip_newlines xs"
  by (simp_all add: strip_newlines_def dropWhile_append)

lemma parse_reply_sent:
  assumes "5 < length sbuf" "length sbuf \<le> 999"
  shows "fst (parse_reply (reply req sbuf) m) = (if rq_scode req \<ge> 0 then 1 else 0)"
proof -
  let ?msg = "case rq_msg req of Some (c # cs) \<Rightarrow> CHR '' '' # c # cs | _ \<Rightarrow> []"
  let ?tag = "if rq_scode req \<ge> 0 then ''OK'' else ''ERROR''"
  have "sbuf \<noteq> []" using assms(1) by auto
  then have sent: "reply req sbuf = ?tag @ take (length sbuf - 1 - length ?tag) ?msg @ [newline]"
    using assms(1) by (auto simp: reply_sent reply_text_def)
  have rest: "fst (reply_argument rc [] m) = rc" "fst (reply_argument rc (CHR '' '' # s) m) = rc" for rc s
    by (auto simp: reply_argument_def c_string_def Let_def split: prod.splits)
  have "take k ?msg = [] \<or> (\<exists>s. take k ?msg = CHR '' '' # s)" for k
    by (cases k) (auto split: option.splits list.splits)
  then consider "reply req sbuf = ?tag @ [newline]" | s where "reply req sbuf = ?tag @ CHR '' '' # s @ [newline]"
    using sent by (metis append_Cons append_Nil)
  then have "strip_newlines (reply req sbuf) = ?tag \<or> (\<exists>s. strip_newlines (reply req sbuf) = ?tag @ CHR '' '' # s)"
  proof cases
    case 1
    then show ?thesis by (simp add: strip_newlines_def)
  next
    case 2
    then have "strip_newlines (reply req sbuf) = ?tag @ CHR '' '' # strip_newlines (s @ [newline])"
      using strip_newlines_append(1) [of "CHR '' ''" ?tag "s @ [newline]"] by simp
    then show ?thesis by blast
  qed
  with rest show ?thesis by (cases "rq_scode req \<ge> 0") (auto simp: parse_reply_def Let_def)
qed


text \<open>
  The content of the array is not copied when the client changes for an allocated buffer:
  what was put before is lost.
\<close>

lemma grow_size_fits:
  "0 < sz \<Longrightarrow> fpos < 2 ^ 63 \<Longrightarrow> \<exists>sz'. grow_size fpos sz = Some sz' \<and> fpos < sz'"
proof (induction fpos sz rule: grow_size.induct)
  case (1 fpos sz)
  show ?case
  proof (cases "fpos < sz")
    case True
    then show ?thesis by (simp add: grow_size.simps [of fpos sz])
  next
    case False
    then have "\<not> (sz = 0 \<or> 2 * sz \<ge> 2 ^ 64)" using "1.prems" by simp
    with 1 False show ?thesis by (simp add: grow_size.simps [of fpos sz])
  qed
qed

lemma client_growth_loses:
  assumes "client_holds c str" "AFMPKG_CLIENT_BUFFER0_SIZE \<le> length str + length (key_line key val) + 1"
    and "length str + length (key_line key val) + 1 < 2 ^ 63"
  shows "\<exists>c'. put_key_val_nl c [] key val = (0, c', []) \<and> cl_length c' > length str \<and>
           take (length str) (cl_buffer c') = replicate (length str) None"
proof -
  let ?fpos = "cl_length c + 2 + length val + length key"
  have c: "cl_state c = afmpkg_client_state_Started" "cl_size c = AFMPKG_CLIENT_BUFFER0_SIZE" "cl_own c" "cl_length c = length str"
    using assms(1) by (simp_all add: client_holds_def)
  have fpos: "?fpos = length str + length (key_line key val) + 1" using c by (simp add: key_line_def)
  obtain sz where sz: "grow_size ?fpos (cl_size c) = Some sz" "?fpos < sz"
    using grow_size_fits [of "cl_size c" ?fpos] assms(3) fpos c(2) by (auto simp: AFMPKG_CLIENT_BUFFER0_SIZE_def)
  have "put_key_val_nl c [] key val = (0, client_put (key_line key val @ [newline])
      (c\<lparr>cl_buffer := replicate sz None, cl_own := False, cl_size := sz\<rparr>), [])"
    unfolding put_key_val_nl_def Let_def using sz(1) c assms(2) fpos by simp
  then show ?thesis using sz(2) c by (simp add: client_put_def write_at_def)
qed

definition demo_record :: rpm_record where
  "demo_record = \<lparr>rr_index = 1, rr_count = 2, rr_name = ''pkg'', rr_rootdir = None, rr_transid = Some ''t'',
     rr_redpakid = None, rr_files = [''/usr/a'']\<rparr>"

lemma demo_record_ok: "record_ok demo_record"
  by (simp add: record_ok_def demo_record_def clean_def)

lemma demo_record_itoa: "itoa 1 = ''1''" "itoa 2 = ''2''"
  by (simp_all add: itoa_def itoa_loop.simps char_of_def)

definition demo_client :: afmpkg_client where
  "demo_client = \<lparr>cl_buffer = [], cl_own = False, cl_length = 0, cl_size = 0, cl_operation = afmpkg_operation_Add,
     cl_state = afmpkg_client_state_None, cl_memo = 0\<rparr>"


end
