(* ===== verification/AfmpkgPlugin.thy ===== *)
theory AfmpkgPlugin
  imports AfmpkgClient
begin

text \<open>
  The hooks of the plugin of rpm (\<^verbatim>\<open>src/src/rpm-plugin/redpesk.c\<close>, in its flavour that asks the
  daemon): before a transaction its elements are recorded and numbered and the removals are
  asked; after it the additions are asked and the records of the transaction are dropped.

  The dialog with the daemon is an argument, from the client's buffer to the status of
  \<^verbatim>\<open>afmpkg_client_dial\<close>. What rpm gives of a transaction set is a record.
\<close>

section \<open>Records\<close>

record rpm_element =
  te_type :: rpmElementType
  te_name :: string
  te_files :: "string list"

record plugin_record =
  pr_ts :: nat
  pr_type :: rpmElementType
  pr_index :: int
  pr_count :: int
  pr_te :: rpm_element

record plugin_env =
  pe_rootdir :: "nat \<Rightarrow> string option"
  pe_transid :: "string option"
  pe_redpakid :: "string option"
  pe_dial :: "afmpkg_client \<Rightarrow> int"

text \<open>
  What the hooks leave: the requests in their order, with the answer of the daemon for those
  whose message could be composed; the status; the allocation script.
\<close>

record plugin_state =
  ps_asked :: "(afmpkg_operation option \<times> plugin_record \<times> int option) list"
  ps_failed :: bool
  ps_memory :: mem

definition rpm_record_of :: "plugin_env \<Rightarrow> plugin_record \<Rightarrow> rpm_record" where
  "rpm_record_of env r =
     \<lparr>rr_index = pr_index r, rr_count = pr_count r, rr_name = te_name (pr_te r), rr_rootdir = pe_rootdir env (pr_ts r),
      rr_transid = pe_transid env, rr_redpakid = pe_redpakid env, rr_files = te_files (pr_te r)\<rparr>"

text \<open>A client structure of the stack, before its initialisation.\<close>

definition stack_client :: afmpkg_client where
  "stack_client = \<lparr>cl_buffer = [], cl_own = False, cl_length = 0, cl_size = 0, cl_operation = afmpkg_operation_Add,
     cl_state = afmpkg_client_state_None, cl_memo = 0\<rparr>"

text \<open>The callbacks tell whether the record is to be dropped.\<close>

definition perform ::
  "plugin_env \<Rightarrow> rpmElementType \<Rightarrow> bool \<Rightarrow> plugin_record \<Rightarrow> plugin_state \<Rightarrow> bool \<times> plugin_record \<times> plugin_state" where
  "perform env type onlycheck r st =
     (if pr_type r \<noteq> type then (False, r, st)
      else let op = get_operation type onlycheck;
               (rc, c, m) = make_message (afmpkg_client_init stack_client) (ps_memory st) (rpm_record_of env r) op
           in if rc < 0 then (True, r, st\<lparr>ps_asked := ps_asked st @ [(op, r, None)], ps_failed := True, ps_memory := m\<rparr>)
              else (True, r, st\<lparr>ps_asked := ps_asked st @ [(op, r, Some (pe_dial env c))],
                                ps_failed := (ps_failed st \<or> pe_dial env c \<le> 0), ps_memory := m\<rparr>))"

definition perform_remove :: "plugin_env \<Rightarrow> plugin_record \<Rightarrow> plugin_state \<Rightarrow> bool \<times> plugin_record \<times> plugin_state" where
  "perform_remove env = perform env TR_REMOVED False"

definition perform_add :: "plugin_env \<Rightarrow> plugin_record \<Rightarrow> plugin_state \<Rightarrow> bool \<times> plugin_record \<times> plugin_state" where
  "perform_add env = perform env TR_ADDED False"

definition perform_check_remove :: "plugin_env \<Rightarrow> plugin_record \<Rightarrow> plugin_state \<Rightarrow> bool \<times> plugin_record \<times> plugin_state" where
  "perform_check_remove env = perform env TR_REMOVED True"

definition perform_check_add :: "plugin_env \<Rightarrow> plugin_record \<Rightarrow> plugin_state \<Rightarrow> bool \<times> plugin_record \<times> plugin_state" where
  "perform_check_add env = perform env TR_ADDED True"

fun for_each_record ::
  "nat \<Rightarrow> (plugin_record \<Rightarrow> 's \<Rightarrow> bool \<times> plugin_record \<times> 's) \<Rightarrow> plugin_record list \<Rightarrow> 's \<Rightarrow> plugin_record list \<times> 's" where
  "for_each_record ts f [] s = ([], s)"
| "for_each_record ts f (r # rs) s =
     (let (drop, r', s') = (if pr_ts r \<noteq> ts then (False, r, s) else f r s);
          (rs', s'') = for_each_record ts f rs s'
      in (if drop then rs' else r' # rs', s''))"

text \<open>The call with a null function: the records of the set are dropped.\<close>

definition drop_all :: "plugin_record \<Rightarrow> 's \<Rightarrow> bool \<times> plugin_record \<times> 's" where
  "drop_all r s = (True, r, s)"

definition number_count :: "plugin_record \<Rightarrow> int \<Rightarrow> bool \<times> plugin_record \<times> int" where
  "number_count r n = (False, r\<lparr>pr_count := n\<rparr>, n)"

definition number_removes :: "plugin_record \<Rightarrow> int \<Rightarrow> bool \<times> plugin_record \<times> int" where
  "number_removes r i =
     (if pr_type r = TR_REMOVED then (False, r\<lparr>pr_index := i + 1\<rparr>, i + 1) else (False, r, i))"

definition number_adds :: "plugin_record \<Rightarrow> int \<Rightarrow> bool \<times> plugin_record \<times> int" where
  "number_adds r i =
     (if pr_type r = TR_ADDED then (False, r\<lparr>pr_index := i + 1\<rparr>, i + 1) else (False, r, i))"

section \<open>Hooks\<close>

text \<open>
  The loop that records the elements; \<open>None\<close> when an allocation fails. The index and the count
  of a record are not set yet: any value stands there.
\<close>

fun record_elements ::
  "nat \<Rightarrow> rpm_element list \<Rightarrow> plugin_record list \<Rightarrow> int \<Rightarrow> mem \<Rightarrow> bool \<times> plugin_record list \<times> int \<times> mem" where
  "record_elements ts [] records n m = (True, records, n, m)"
| "record_elements ts (te # tes) records n m =
     (if te_type te = TR_ADDED \<or> te_type te = TR_REMOVED then
        (let (ok, m') = c_alloc m in
         if ok then record_elements ts tes
             (\<lparr>pr_ts = ts, pr_type = te_type te, pr_index = 0, pr_count = 0, pr_te = te\<rparr> # records) (n + 1) m'
         else (False, records, n, m'))
      else record_elements ts tes records n m)"

definition number_records :: "nat \<Rightarrow> int \<Rightarrow> plugin_record list \<Rightarrow> plugin_record list" where
  "number_records ts n records =
     (let (rs1, _) = for_each_record ts number_count records n;
          (rs2, idx) = for_each_record ts number_removes rs1 0;
          (rs3, _) = for_each_record ts number_adds rs2 idx
      in rs3)"

record rpm_flags =
  flag_test :: bool
  flag_nopreun :: bool
  flag_nopost :: bool

text \<open>The hooks answer \<^verbatim>\<open>RPMRC_OK\<close> (true) whatever the daemon answered.\<close>

definition tsm_pre_cb ::
  "plugin_env \<Rightarrow> rpm_flags \<Rightarrow> nat \<Rightarrow> rpm_element list \<Rightarrow> plugin_record list \<Rightarrow> plugin_state \<Rightarrow>
   bool \<times> plugin_record list \<times> plugin_state" where
  "tsm_pre_cb env flags ts tes records st =
     (let (ok, rs1, n, m) = record_elements ts tes records 0 (ps_memory st);
          st1 = st\<lparr>ps_memory := m\<rparr>
      in if \<not> ok then (False, fst (for_each_record ts drop_all rs1 ()), st1)
         else let rs2 = number_records ts n rs1;
                  (rs3, st2) =
                    (if flag_test flags then for_each_record ts (perform_check_remove env) rs2 st1
                     else if flag_nopreun flags then (rs2, st1)
                     else for_each_record ts (perform_remove env) rs2 st1)
              in (True, rs3, st2))"

definition tsm_post_cb ::
  "plugin_env \<Rightarrow> rpm_flags \<Rightarrow> nat \<Rightarrow> bool \<Rightarrow> plugin_record list \<Rightarrow> plugin_state \<Rightarrow>
   bool \<times> plugin_record list \<times> plugin_state" where
  "tsm_post_cb env flags ts res_ok records st =
     (let (rs1, st1) =
        (if \<not> res_ok then (records, st)
         else if flag_test flags then for_each_record ts (perform_check_add env) records st
         else if flag_nopost flags then (records, st)
         else for_each_record ts (perform_add env) records st)
      in (True, fst (for_each_record ts drop_all rs1 ()), st1))"

section \<open>Order of the requests\<close>

text \<open>The records of a set, and the numbers given to those of one type in their order.\<close>

definition of_set :: "nat \<Rightarrow> plugin_record list \<Rightarrow> plugin_record list" where
  "of_set ts = filter (\<lambda>r. pr_ts r = ts)"

definition others :: "nat \<Rightarrow> plugin_record list \<Rightarrow> plugin_record list" where
  "others ts = filter (\<lambda>r. pr_ts r \<noteq> ts)"

fun renumber :: "rpmElementType \<Rightarrow> int \<Rightarrow> plugin_record list \<Rightarrow> plugin_record list" where
  "renumber ty i [] = []"
| "renumber ty i (r # rs) =
     (if pr_type r = ty then r\<lparr>pr_index := i + 1\<rparr> # renumber ty (i + 1) rs else r # renumber ty i rs)"

definition requests :: "plugin_state \<Rightarrow> (afmpkg_operation option \<times> plugin_record) list" where
  "requests st = map (\<lambda>(op, r, _). (op, r)) (ps_asked st)"

lemma of_set_simps [simp]:
  "of_set ts [] = []"
  "of_set ts (r # rs) = (if pr_ts r = ts then r # of_set ts rs else of_set ts rs)"
  "others ts [] = []"
  "others ts (r # rs) = (if pr_ts r = ts then others ts rs else r # others ts rs)"
  by (simp_all add: of_set_def others_def)

lemma for_each_count:
  "of_set ts (fst (for_each_record ts number_count rs n)) = map (\<lambda>r. r\<lparr>pr_count := n\<rparr>) (of_set ts rs) \<and>
   others ts (fst (for_each_record ts number_count rs n)) = others ts rs"
  by (induction rs) (auto simp: number_count_def case_prod_unfold Let_def)

lemma for_each_removes:
  "of_set ts (fst (for_each_record ts number_removes rs i)) = renumber TR_REMOVED i (of_set ts rs) \<and>
   others ts (fst (for_each_record ts number_removes rs i)) = others ts rs \<and>
   snd (for_each_record ts number_removes rs i) = i + int (length (filter (\<lambda>r. pr_type r = TR_REMOVED) (of_set ts rs)))"
  by (induction rs arbitrary: i) (auto simp: number_removes_def case_prod_unfold Let_def)

lemma for_each_adds:
  "of_set ts (fst (for_each_record ts number_adds rs i)) = renumber TR_ADDED i (of_set ts rs) \<and>
   others ts (fst (for_each_record ts number_adds rs i)) = others ts rs"
  by (induction rs arbitrary: i) (auto simp: number_adds_def case_prod_unfold Let_def)

lemma perform_request:
  "perform env ty chk r st = (dr, r', st') \<Longrightarrow>
     r' = r \<and> dr = (pr_type r = ty) \<and>
     requests st' = requests st @ (if pr_type r = ty then [(get_operation ty chk, r)] else [])"
  by (auto simp: perform_def requests_def Let_def split: if_splits prod.splits)

lemma for_each_perform:
  assumes "for_each_record ts (perform env ty chk) rs st = (rs', st')"
  shows "of_set ts rs' = filter (\<lambda>r. pr_type r \<noteq> ty) (of_set ts rs) \<and> others ts rs' = others ts rs \<and>
    requests st' = requests st @ map (Pair (get_operation ty chk)) (filter (\<lambda>r. pr_type r = ty) (of_set ts rs))"
  using assms
proof (induction rs arbitrary: rs' st st')
  case (Cons r rs)
  obtain dr r1 st1 where p: "perform env ty chk r st = (dr, r1, st1)" using prod_cases3 by blast
  obtain rs2 st2 where f: "for_each_record ts (perform env ty chk) rs (if pr_ts r = ts then st1 else st) = (rs2, st2)" by fastforce
  from Cons.IH [OF f] perform_request [OF p] Cons.prems p f show ?case
    by (auto split: if_splits)
qed simp

lemma for_each_drop_all: "fst (for_each_record ts drop_all rs s) = others ts rs"
  by (induction rs arbitrary: s) (auto simp: drop_all_def case_prod_unfold Let_def)

lemma renumber_keeps:
  "map pr_te (renumber ty i rs) = map pr_te rs" "map pr_type (renumber ty i rs) = map pr_type rs"
  "map pr_count (renumber ty i rs) = map pr_count rs"
  by (induction rs arbitrary: i) auto

lemma renumber_same:
  "map pr_index (filter (\<lambda>r. pr_type r = ty) (renumber ty i rs)) =
     [i + 1 .. i + int (length (filter (\<lambda>r. pr_type r = ty) rs))]"
  "map pr_te (filter (\<lambda>r. pr_type r = ty) (renumber ty i rs)) = map pr_te (filter (\<lambda>r. pr_type r = ty) rs)"
  by (induction rs arbitrary: i) (auto simp: upto_rec1 ac_simps)

lemma renumber_other:
  "ty' \<noteq> ty \<Longrightarrow> filter (\<lambda>r. pr_type r = ty') (renumber ty i rs) = filter (\<lambda>r. pr_type r = ty') rs"
  by (induction rs arbitrary: i) auto

lemma record_elements_records:
  assumes "record_elements ts tes records n m = (True, rs, n', m')"
  shows "\<exists>new. rs = new @ records \<and> n' = n + int (length new) \<and> (\<forall>r \<in> set new. pr_ts r = ts \<and> pr_type r = te_type (pr_te r)) \<and>
     map pr_te new = rev (filter (\<lambda>te. te_type te \<in> {TR_ADDED, TR_REMOVED}) tes)"
  using assms
proof (induction tes arbitrary: records n m)
  case (Cons te tes)
  show ?case
  proof (cases "te_type te = TR_ADDED \<or> te_type te = TR_REMOVED")
    case True
    obtain ok m1 where al: "c_alloc m = (ok, m1)" by fastforce
    with True Cons.prems have "record_elements ts tes
        (\<lparr>pr_ts = ts, pr_type = te_type te, pr_index = 0, pr_count = 0, pr_te = te\<rparr> # records) (n + 1) m1 = (True, rs, n', m')"
      by (simp split: if_splits)
    from Cons.IH [OF this] obtain new where
      "rs = new @ \<lparr>pr_ts = ts, pr_type = te_type te, pr_index = 0, pr_count = 0, pr_te = te\<rparr> # records"
      "n' = n + 1 + int (length new)" "\<forall>r \<in> set new. pr_ts r = ts \<and> pr_type r = te_type (pr_te r)"
      "map pr_te new = rev (filter (\<lambda>te. te_type te \<in> {TR_ADDED, TR_REMOVED}) tes)" by blast
    with True show ?thesis
      by (intro exI [of _ "new @ [\<lparr>pr_ts = ts, pr_type = te_type te, pr_index = 0, pr_count = 0, pr_te = te\<rparr>]"]) auto
  next
    case False
    with Cons show ?thesis by auto
  qed
qed simp

lemma filter_type_te:
  assumes "\<forall>r \<in> set rs. pr_type r = te_type (pr_te r)"
  shows "map pr_te (filter (\<lambda>r. pr_type r = ty) rs) = filter (\<lambda>te. te_type te = ty) (map pr_te rs)"
  using assms by (induction rs) auto

lemma number_records_effect:
  assumes "\<forall>r \<in> set (of_set ts rs). pr_type r \<in> {TR_ADDED, TR_REMOVED}"
  shows "others ts (number_records ts n rs) = others ts rs"
    "of_set ts (number_records ts n rs) =
       renumber TR_ADDED (int (length (filter (\<lambda>r. pr_type r = TR_REMOVED) (of_set ts rs))))
         (renumber TR_REMOVED 0 (map (\<lambda>r. r\<lparr>pr_count := n\<rparr>) (of_set ts rs)))"
  using for_each_count [of ts rs n] for_each_removes [of ts "fst (for_each_record ts number_count rs n)" 0]
    for_each_adds [of ts "fst (for_each_record ts number_removes (fst (for_each_record ts number_count rs n)) 0)"]
  by (auto simp: number_records_def case_prod_unfold Let_def filter_map comp_def)

lemma numbered_records:
  fixes new n
  defines "k \<equiv> int (length (filter (\<lambda>r. pr_type r = TR_REMOVED) new))"
  defines "L \<equiv> renumber TR_ADDED k (renumber TR_REMOVED 0 (map (\<lambda>r. r\<lparr>pr_count := n\<rparr>) new))"
  shows "map pr_te (filter (\<lambda>r. pr_type r = TR_REMOVED) L) = map pr_te (filter (\<lambda>r. pr_type r = TR_REMOVED) new)"
    "map pr_te (filter (\<lambda>r. pr_type r = TR_ADDED) L) = map pr_te (filter (\<lambda>r. pr_type r = TR_ADDED) new)"
    "map pr_index (filter (\<lambda>r. pr_type r = TR_REMOVED) L) = [1 .. k]"
    "map pr_index (filter (\<lambda>r. pr_type r = TR_ADDED) L) = [k + 1 .. k + int (length (filter (\<lambda>r. pr_type r = TR_ADDED) new))]"
    "\<forall>r \<in> set L. pr_count r = n"
proof -
  have "map pr_count L = map (\<lambda>_. n) new" by (simp add: L_def renumber_keeps)
  then have "set (map pr_count L) \<subseteq> {n}" by auto
  then show "\<forall>r \<in> set L. pr_count r = n" by auto
qed (simp_all add: L_def k_def renumber_other renumber_same filter_map comp_def)

text \<open>C11: A transaction of rpm without special flags asks the daemon for every element it removes,
  then for every element it adds, each once; the requests are numbered 1, 2, \<open>\<dots>\<close> in the order
  of their emission, they all carry their count, and afterwards the records of other
  transactions are as before and those of this one are gone.\<close>

theorem rpm_transaction_requests:
  assumes "of_set ts records = []" and "requests st = []"
    and "tsm_pre_cb env \<lparr>flag_test = False, flag_nopreun = False, flag_nopost = False\<rparr> ts tes records st = (True, rs1, st1)"
    and "tsm_post_cb env \<lparr>flag_test = False, flag_nopreun = False, flag_nopost = False\<rparr> ts True rs1 st1 = (ok, rs2, st2)"
  shows "let removed = filter (\<lambda>te. te_type te = TR_REMOVED) tes; added = filter (\<lambda>te. te_type te = TR_ADDED) tes;
             n = int (length removed + length added)
         in map (\<lambda>(op, r). (op, pr_te r)) (requests st2) =
              map (Pair (Some afmpkg_operation_Remove)) (rev removed) @ map (Pair (Some afmpkg_operation_Add)) (rev added) \<and>
            map (\<lambda>(op, r). pr_index r) (requests st2) = [1 .. n] \<and>
            list_all (\<lambda>(op, r). pr_count r = n) (requests st2) \<and> rs2 = records"
proof -
  obtain rs0 n m where rec: "record_elements ts tes records 0 (ps_memory st) = (True, rs0, n, m)"
    using assms(3) by (auto simp: tsm_pre_cb_def Let_def split: prod.splits if_splits)
  obtain new where new: "rs0 = new @ records" "n = int (length new)"
    "\<forall>r \<in> set new. pr_ts r = ts \<and> pr_type r = te_type (pr_te r)"
    "map pr_te new = rev (filter (\<lambda>te. te_type te \<in> {TR_ADDED, TR_REMOVED}) tes)"
    using record_elements_records [OF rec] by auto
  have set0: "of_set ts rs0 = new" "others ts rs0 = records"
    using new(1,3) assms(1) by (auto simp: of_set_def others_def filter_empty_conv intro!: filter_True)
  have types: "\<forall>r \<in> set new. pr_type r \<in> {TR_ADDED, TR_REMOVED}"
    using new(3,4) by (metis (mono_tags, lifting) in_set_conv_nth length_map nth_map nth_mem set_rev mem_Collect_eq set_filter)
  define rs where "rs = number_records ts n rs0"
  have rs: "others ts rs = records"
    "of_set ts rs = renumber TR_ADDED (int (length (filter (\<lambda>r. pr_type r = TR_REMOVED) new)))
       (renumber TR_REMOVED 0 (map (\<lambda>r. r\<lparr>pr_count := n\<rparr>) new))"
    unfolding rs_def using number_records_effect [of ts rs0 n] set0 types by simp_all
  note num = numbered_records [of new n, folded rs(2)]
  let ?of = "\<lambda>ty. filter (\<lambda>r. pr_type r = ty)" and ?te = "\<lambda>ty. filter (\<lambda>te. te_type te = ty) tes"
  have "for_each_record ts (perform env TR_REMOVED False) rs (st\<lparr>ps_memory := m\<rparr>) = (rs1, st1)"
    using assms(3) rec unfolding rs_def by (simp add: tsm_pre_cb_def perform_remove_def case_prod_unfold Let_def)
  note pre = for_each_perform [OF this]
  obtain rs' where post: "for_each_record ts (perform env TR_ADDED False) rs1 st1 = (rs', st2)" "rs2 = others ts rs'"
    using assms(4) by (auto simp: tsm_post_cb_def perform_add_def for_each_drop_all case_prod_unfold Let_def prod_eq_iff)
  have both: "filter (\<lambda>r. pr_type r \<noteq> TR_REMOVED \<and> pr_type r = TR_ADDED) L = ?of TR_ADDED L" for L
    by (auto intro: filter_cong)
  have asked: "requests st2 = map (Pair (Some afmpkg_operation_Remove)) (?of TR_REMOVED (of_set ts rs)) @
      map (Pair (Some afmpkg_operation_Add)) (?of TR_ADDED (of_set ts rs))" "rs2 = records"
    using pre for_each_perform [OF post(1)] post(2) assms(2) rs(1) by (simp_all add: requests_def both)
  have te: "map pr_te (?of ty new) = rev (?te ty)" if "ty \<in> {TR_ADDED, TR_REMOVED}" for ty
    using filter_type_te [of new ty] new(3,4) that by (auto simp: rev_filter intro: filter_cong)
  then have len: "length (?of ty new) = length (?te ty)" if "ty \<in> {TR_ADDED, TR_REMOVED}" for ty
    using that by (metis length_map length_rev)
  have "filter (\<lambda>r. pr_type r \<noteq> TR_REMOVED) new = ?of TR_ADDED new"
    using types by (auto intro: filter_cong)
  then have n: "n = int (length (?te TR_REMOVED) + length (?te TR_ADDED))"
    using sum_length_filter_compl [of "\<lambda>r. pr_type r = TR_REMOVED" new] len new(2) by simp
  have upto: "[1 .. int a] @ [int a + 1 .. int a + int b] = [1 .. int a + int b]" for a b
    using upto_split2 [of 1 "int a" "int a + int b"] by (cases "a = 0") auto
  have "map (\<lambda>(op, r). (op, pr_te r)) (requests st2) =
      map (Pair (Some afmpkg_operation_Remove)) (map pr_te (?of TR_REMOVED (of_set ts rs))) @
      map (Pair (Some afmpkg_operation_Add)) (map pr_te (?of TR_ADDED (of_set ts rs)))"
    by (simp add: asked)
  then have elements: "map (\<lambda>(op, r). (op, pr_te r)) (requests st2) =
      map (Pair (Some afmpkg_operation_Remove)) (rev (?te TR_REMOVED)) @ map (Pair (Some afmpkg_operation_Add)) (rev (?te TR_ADDED))"
    by (simp only: num te insert_iff simp_thms)
  have "map (\<lambda>(op, r). pr_index r) (requests st2) =
      map pr_index (?of TR_REMOVED (of_set ts rs)) @ map pr_index (?of TR_ADDED (of_set ts rs))"
    by (simp add: asked comp_def)
  then have indexes: "map (\<lambda>(op, r). pr_index r) (requests st2) = [1 .. int (length (?te TR_REMOVED) + length (?te TR_ADDED))]"
    using upto num len by simp
  show ?thesis
    using elements indexes num(5) n asked by (auto simp: list_all_iff Let_def)
qed

definition demo_elements :: "rpm_element list" where
  "demo_elements = [\<lparr>te_type = TR_ADDED, te_name = ''a'', te_files = [''/a'']\<rparr>,
                    \<lparr>te_type = TR_REMOVED, te_name = ''b'', te_files = [''/b'']\<rparr>]"

definition demo_plugin_env :: plugin_env where
  "demo_plugin_env = \<lparr>pe_rootdir = (\<lambda>_. None), pe_transid = None, pe_redpakid = None, pe_dial = (\<lambda>_. 1)\<rparr>"

definition no_flags :: rpm_flags where
  "no_flags = \<lparr>flag_test = False, flag_nopreun = False, flag_nopost = False\<rparr>"

theorem rpm_transaction_requests_witness:
  "case tsm_pre_cb demo_plugin_env no_flags 7 demo_elements [] \<lparr>ps_asked = [], ps_failed = False, ps_memory = []\<rparr> of
     (ok1, rs1, st1) \<Rightarrow>
       (case tsm_post_cb demo_plugin_env no_flags 7 True rs1 st1 of
          (ok2, rs2, st2) \<Rightarrow> map (\<lambda>(op, r). pr_index r) (requests st2) = [1, 2] \<and> rs2 = [])"
proof -
  obtain ok1 rs1 st1 where pre: "tsm_pre_cb demo_plugin_env no_flags 7 demo_elements []
      \<lparr>ps_asked = [], ps_failed = False, ps_memory = []\<rparr> = (ok1, rs1, st1)" using prod_cases3 by blast
  obtain ok2 rs2 st2 where post: "tsm_post_cb demo_plugin_env no_flags 7 True rs1 st1 = (ok2, rs2, st2)"
    using prod_cases3 by blast
  have "ok1 = True"
    using pre by (simp add: tsm_pre_cb_def demo_elements_def case_prod_unfold Let_def)
  with rpm_transaction_requests [of 7 "[]" "\<lparr>ps_asked = [], ps_failed = False, ps_memory = []\<rparr>"] pre post show ?thesis
    by (simp add: no_flags_def requests_def demo_elements_def Let_def upto_rec1 [of 1] upto_rec1 [of 2])
qed

end
