(* ===== verification/Installerd.thy ===== *)
theory Installerd
  imports AfmpkgServer
begin

text \<open>
  The main loop of the package daemon (\<^verbatim>\<open>src/src/main/main-afmpkg-installerd.c\<close>): clients are
  waited for, each is served by a thread of its own, and the daemon stops when nothing is
  going on any more.

  The threads run interleaved with the loop. A step of the relation below is a turn of the
  loop, the service of its client by a thread, or the end of a thread. What is shared between
  the threads, the counter and the transactions, is accessed under mutexes.
\<close>

section \<open>State\<close>

text \<open>A thread is known by its socket; it has served its client or not yet.\<close>

record 'w installerd =
  in_living :: int
  in_threads :: "(nat \<times> bool) list"
  in_daemon :: "'w daemon"

definition living_init :: "'w daemon \<Rightarrow> 'w installerd" where
  "living_init d = \<lparr>in_living = 0, in_threads = [], in_daemon = d\<rparr>"

section \<open>Operations\<close>

text \<open>\<open>created\<close> is the result of \<^verbatim>\<open>pthread_create\<close>.\<close>

definition launch_serve_thread :: "int \<Rightarrow> nat \<Rightarrow> 'w installerd \<Rightarrow> 'w installerd" where
  "launch_serve_thread created socli s =
     (if created \<noteq> 0 then s
      else s\<lparr>in_living := in_living s + 1, in_threads := (socli, False) # in_threads s\<rparr>)"

definition thread_serves ::
  "'w package_service \<Rightarrow> int \<times> int \<Rightarrow> recv_event list \<Rightarrow> string \<Rightarrow> string \<Rightarrow> nat \<Rightarrow> 'w installerd \<Rightarrow> 'w installerd" where
  "thread_serves ps clk es rbuf sbuf i s =
     s\<lparr>in_threads := (in_threads s)[i := (fst (in_threads s ! i), True)],
       in_daemon := sv_daemon (afmpkg_serve ps clk es rbuf sbuf (in_daemon s))\<rparr>"

definition thread_ends :: "nat \<Rightarrow> 'w installerd \<Rightarrow> 'w installerd" where
  "thread_ends i s =
     s\<lparr>in_living := in_living s - 1, in_threads := take i (in_threads s) @ drop (Suc i) (in_threads s)\<rparr>"

definition can_stop :: "int \<Rightarrow> 'w installerd \<Rightarrow> bool \<times> 'w installerd" where
  "can_stop now s =
     (if in_living s = 0
      then let (r, ts) = afmpkg_request_can_stop now (dm_transactions (in_daemon s))
           in (r, s\<lparr>in_daemon := (in_daemon s)\<lparr>dm_transactions := ts\<rparr>\<rparr>)
      else (False, s))"

text \<open>What \<^verbatim>\<open>getsockopt\<close> gives for the peer: its status and the user identifier.\<close>

definition check_strict :: "int \<times> nat \<Rightarrow> int \<Rightarrow> int" where
  "check_strict peer fd = (if fst peer < 0 \<or> snd peer \<noteq> 0 then - 1 else fd)"

text \<open>
  What a turn of the loop meets: the result of \<^verbatim>\<open>poll\<close>, that of \<^verbatim>\<open>accept\<close>, the peer, the result
  of the creation of the thread, the value of \<^verbatim>\<open>errno\<close> at the test and the time.
\<close>

record turn =
  tn_poll :: int
  tn_accept :: int
  tn_peer :: "int \<times> nat"
  tn_created :: int
  tn_errno :: int
  tn_now :: int

definition EINTR :: int where [simp]: "EINTR = 4"

definition turn_client :: "bool \<Rightarrow> turn \<Rightarrow> int" where
  "turn_client strict t =
     (if tn_poll t = 1
      then if tn_accept t \<ge> 0 \<and> strict then check_strict (tn_peer t) (tn_accept t) else tn_accept t
      else tn_poll t)"

text \<open>The value is the code that \<^verbatim>\<open>run\<close> returns, \<open>None\<close> when the loop goes on.\<close>

definition run_turn :: "bool \<Rightarrow> bool \<Rightarrow> turn \<Rightarrow> 'w installerd \<Rightarrow> int option \<times> 'w installerd" where
  "run_turn strict run_forever t s =
     (let rc = turn_client strict t;
          s1 = (if tn_poll t = 1 \<and> rc \<ge> 0 then launch_serve_thread (tn_created t) (nat rc) s else s)
      in if rc < 0 \<and> tn_errno t \<noteq> EINTR then (Some 2, s1)
         else let (stop, s2) = can_stop (tn_now t) s1
              in (if stop \<and> \<not> run_forever then Some 0 else None, s2))"

section \<open>Executions\<close>

inductive installerd_reach ::
  "'w package_service \<Rightarrow> bool \<Rightarrow> bool \<Rightarrow> 'w daemon \<Rightarrow> 'w installerd \<Rightarrow> bool" for ps strict forever d0 where
  started: "installerd_reach ps strict forever d0 (living_init d0)"
| turn: "installerd_reach ps strict forever d0 s \<Longrightarrow> run_turn strict forever t s = (None, s') \<Longrightarrow>
    installerd_reach ps strict forever d0 s'"
| serve: "installerd_reach ps strict forever d0 s \<Longrightarrow> i < length (in_threads s) \<Longrightarrow> \<not> snd (in_threads s ! i) \<Longrightarrow>
    installerd_reach ps strict forever d0 (thread_serves ps clk es rbuf sbuf i s)"
| ends: "installerd_reach ps strict forever d0 s \<Longrightarrow> i < length (in_threads s) \<Longrightarrow> snd (in_threads s ! i) \<Longrightarrow>
    installerd_reach ps strict forever d0 (thread_ends i s)"

definition living_ok :: "'w installerd \<Rightarrow> bool" where
  "living_ok s \<longleftrightarrow> in_living s = int (length (in_threads s))"

lemma run_turn_living:
  assumes "living_ok s" "run_turn strict forever t s = (r, s')"
  shows "living_ok s'"
  using assms
  by (auto simp: run_turn_def launch_serve_thread_def can_stop_def living_ok_def Let_def split: if_splits prod.splits)

lemma thread_steps_living:
  assumes "living_ok s" "i < length (in_threads s)"
  shows "living_ok (thread_serves ps clk es rbuf sbuf i s)" "living_ok (thread_ends i s)"
  using assms by (simp_all add: living_ok_def thread_serves_def thread_ends_def min_def)

lemma living_init_living: "living_ok (living_init d)"
  by (simp add: living_ok_def living_init_def)

lemma reach_living: "installerd_reach ps strict forever d0 s \<Longrightarrow> living_ok s"
  by (induction rule: installerd_reach.induct)
    (simp_all add: living_init_living run_turn_living thread_steps_living)


definition quiet_turn :: turn where
  "quiet_turn = \<lparr>tn_poll = 0, tn_accept = 0, tn_peer = (0, 0), tn_created = 0, tn_errno = 0, tn_now = 0\<rparr>"


text \<open>A client that the strict mode rejects ends the daemon.\<close>

lemma strict_reject_stops:
  assumes "tn_poll t = 1" "tn_accept t \<ge> 0" "snd (tn_peer t) \<noteq> 0" "tn_errno t \<noteq> EINTR"
  shows "fst (run_turn True forever t s) = Some 2"
  using assms by (simp add: run_turn_def turn_client_def check_strict_def)

end
