(* ===== verification/AfmUrun.thy ===== *)
theory AfmUrun
  imports UtilsJson Systemd
begin

text \<open>
  The running applications (\<^verbatim>\<open>src/src/binding/afm-urun.c\<close>): the unit of an application for a
  user, its start, the wait of a stable state, the list and the state of runners.

  The private description of an application is one object, that the lists and the index of
  the database share and in which the path of the unit is recorded: the database is here the
  sequence of its units, as the theory of the database relates them (\<open>apps_hold\<close>), and an
  application is its position in this sequence. Failed assertions are not modelled: the
  code is taken without them.
\<close>

definition key_unit_d_path :: string where "key_unit_d_path = ''-unit-dpath-''"

abbreviation set_errno :: "int \<Rightarrow> ('b, 's) sd_state \<Rightarrow> ('b, 's) sd_state" where
  "set_errno e st \<equiv> st\<lparr>ss_errno := e\<rparr>"

section \<open>The unit of an application\<close>

text \<open>The name of the unit for a user, when the unit is parametric: its name has \<open>@.\<close>\<close>

definition parametric_name :: "string \<Rightarrow> string \<Rightarrow> string option" where
  "parametric_name uname userid =
     (case dropWhile (\<lambda>c. c \<noteq> CHR ''@'') uname of
        a # d # rest \<Rightarrow> if d = CHR ''.'' then Some (takeWhile (\<lambda>c. c \<noteq> CHR ''@'') uname @ [a] @ userid @ d # rest) else None
      | _ \<Rightarrow> None)"

text \<open>The result is the scope and the path of the unit, \<open>None\<close> for an error; the description may be completed.\<close>

type_synonym ('j, 'b, 's) basis = "(bool \<times> string) option \<times> 'j \<times> ('b, 's) sd_state"

definition record_dpath ::
  "'j value_lib \<Rightarrow> bool \<Rightarrow> string \<Rightarrow> 'j \<Rightarrow> string \<Rightarrow> ('j \<Rightarrow> 'j) \<Rightarrow> ('b, 's) sd_state \<Rightarrow> ('j, 'b, 's) basis" where
  "record_dpath vl isuser dp holder key put st =
     (let (ok, holder', m) = j_add_string vl (ss_mem st) holder (Some key) (Some dp); st' = st\<lparr>ss_mem := m\<rparr>
      in if ok then (Some (isuser, dp), put holder', st') else (None, put holder, set_errno ENOMEM st'))"

definition basis_of_user ::
  "'j value_lib \<Rightarrow> ('b, 's) sd_lib \<Rightarrow> bool \<Rightarrow> string \<Rightarrow> string \<Rightarrow> 'j \<Rightarrow> 'j \<Rightarrow> ('b, 's) sd_state \<Rightarrow> ('j, 'b, 's) basis" where
  "basis_of_user vl sb isuser nun userid appli odp st =
     (case systemd_unit_dpath_by_name sb isuser nun True st of
        (None, st') \<Rightarrow> (None, appli, st')
      | (Some dp, st') \<Rightarrow> record_dpath vl isuser dp odp userid (jl_add (vjson vl) appli key_unit_d_path) st')"

definition basis_of_unit ::
  "'j value_lib \<Rightarrow> ('b, 's) sd_lib \<Rightarrow> int \<Rightarrow> bool \<Rightarrow> 'j \<Rightarrow> 'j option \<Rightarrow> ('b, 's) sd_state \<Rightarrow> ('j, 'b, 's) basis" where
  "basis_of_unit vl sb uid isuser appli odp st =
     (case j_read_string_at vl appli ''unit-name'' of
        None \<Rightarrow> (None, appli, set_errno EINVAL st)
      | Some uname \<Rightarrow>
          (case parametric_name uname (c_decimal uid) of
             Some nun \<Rightarrow>
               (case odp of
                  Some o' \<Rightarrow> basis_of_user vl sb isuser nun (c_decimal uid) appli o' st
                | None \<Rightarrow>
                    if uid < 0 then (None, appli, set_errno EINVAL st)
                    else let (ok, m) = c_alloc (ss_mem st); st' = st\<lparr>ss_mem := m\<rparr> in
                      if \<not> ok then (None, appli, set_errno ENOMEM st')
                      else basis_of_user vl sb isuser nun (c_decimal uid)
                             (jl_add (vjson vl) appli key_unit_d_path (jl_new_object (vjson vl))) (jl_new_object (vjson vl)) st')
           | None \<Rightarrow>
               (case systemd_unit_dpath_by_name sb isuser uname True st of
                  (None, st') \<Rightarrow> (None, appli, st')
                | (Some dp, st') \<Rightarrow> record_dpath vl isuser dp appli key_unit_d_path (\<lambda>a. a) st')))"

definition get_basis ::
  "'j value_lib \<Rightarrow> ('b, 's) sd_lib \<Rightarrow> int \<Rightarrow> 'j \<Rightarrow> ('b, 's) sd_state \<Rightarrow> ('j, 'b, 's) basis" where
  "get_basis vl sb uid appli st =
     (case j_read_string_at vl appli ''unit-scope'' of
        None \<Rightarrow> (None, appli, set_errno EINVAL st)
      | Some uscope \<Rightarrow>
          let isuser = uscope \<noteq> ''system'' in
          case jl_get (vjson vl) appli key_unit_d_path of
            None \<Rightarrow> basis_of_unit vl sb uid isuser appli None st
          | Some odp \<Rightarrow>
              if jl_type (vjson vl) odp = jtype_string then (Some (isuser, the (jl_string (vjson vl) odp)), appli, st)
              else if uid < 0 then (None, appli, set_errno EINVAL st)
              else case j_read_string_at vl odp (c_decimal uid) of
                     Some dpath \<Rightarrow> (Some (isuser, dpath), appli, st)
                   | None \<Rightarrow> basis_of_unit vl sb uid isuser appli (Some odp) st)"

section \<open>Waiting\<close>

definition WAIT_JOB_SECONDS :: nat where "WAIT_JOB_SECONDS = 300"
definition trial_count :: nat where "trial_count = (WAIT_JOB_SECONDS * 1000) div 10"

text \<open>A failure of the bus counts as a pending job.\<close>

definition pending_job :: "('b, 's) sd_lib \<Rightarrow> bool \<Rightarrow> string option \<Rightarrow> ('b, 's) sd_state \<Rightarrow> string option \<times> ('b, 's) sd_state" where
  "pending_job sb isuser job st =
     (case job of
        None \<Rightarrow> (None, st)
      | Some j \<Rightarrow> let (p, st') = systemd_job_is_pending sb isuser j st in (if p = 0 then None else job, st'))"

fun wait_trials ::
  "('b, 's) sd_lib \<Rightarrow> bool \<Rightarrow> string \<Rightarrow> nat \<Rightarrow> string option \<Rightarrow> SysD_State \<Rightarrow> ('b, 's) sd_state \<Rightarrow> SysD_State \<times> ('b, 's) sd_state" where
  "wait_trials sb isuser dpath 0 job state st = (state, st)"
| "wait_trials sb isuser dpath (Suc n) job state st =
     (case pending_job sb isuser job st of
        (Some j, st1) \<Rightarrow> wait_trials sb isuser dpath n (Some j) state st1
      | (None, st1) \<Rightarrow>
          let (s, st2) = systemd_unit_state_of_dpath sb isuser dpath st1 in
          if s \<in> {SysD_State_Active, SysD_State_Failed, SysD_State_Inactive} then (s, st2)
          else wait_trials sb isuser dpath n None s st2)"

definition wait_state_stable ::
  "('b, 's) sd_lib \<Rightarrow> bool \<Rightarrow> string \<Rightarrow> string option \<Rightarrow> ('b, 's) sd_state \<Rightarrow> SysD_State \<times> ('b, 's) sd_state" where
  "wait_state_stable sb isuser dpath job st = wait_trials sb isuser dpath trial_count job SysD_State_INVALID st"

section \<open>Descriptions of runners\<close>

definition mkstate :: "'j value_lib \<Rightarrow> mem \<Rightarrow> string \<Rightarrow> int \<Rightarrow> int \<Rightarrow> SysD_State \<Rightarrow> 'j option \<times> mem" where
  "mkstate vl m idt runid pid state =
     (let (ok0, m0) = c_alloc m in
      if \<not> ok0 then (None, m0)
      else let (ok1, r1, m1) = j_add_integer vl m0 (jl_new_object (vjson vl)) (Some ''runid'') runid in
        if \<not> ok1 then (None, m1)
        else let (ok2, r2, m2) =
               (if pid > 0 then
                  (let (oka, a, ma) = j_add_new_array vl m1 r1 (Some ''pids'') in
                   if \<not> oka then (False, a, ma)
                   else let (okb, pids, mb) = j_add_integer vl ma (al_new_array (vl_array vl)) None pid
                        in (okb, jl_add (vjson vl) a ''pids'' pids, mb))
                else (True, r1, m1)) in
          if \<not> ok2 then (None, m2)
          else let (ok3, r3, m3) = j_add_string vl m2 r2 (Some ''state'')
                     (Some (if state = SysD_State_Active then ''running'' else ''terminated'')) in
            if \<not> ok3 then (None, m3)
            else let (ok4, r4, m4) = j_add_string vl m3 r3 (Some ''id'') (Some idt)
                 in (if ok4 then Some r4 else None, m4))"

section \<open>Operations\<close>

definition afm_urun_once :: "'j value_lib \<Rightarrow> ('b, 's) sd_lib \<Rightarrow> 'j \<Rightarrow> int \<Rightarrow> ('b, 's) sd_state \<Rightarrow> int \<times> 'j \<times> ('b, 's) sd_state" where
  "afm_urun_once vl sb appli uid st =
     (case get_basis vl sb uid appli st of
        (None, appli', st1) \<Rightarrow> (- 1, appli', st1)
      | (Some (isuser, dpath), appli', st1) \<Rightarrow>
          let ((rc, job), st2) = systemd_unit_start_dpath sb isuser dpath True st1 in
          if rc < 0 then (- 1, appli', st2)
          else let (state, st3) = wait_state_stable sb isuser dpath job st2 in
            if state \<notin> {SysD_State_Active, SysD_State_Inactive} then (- 1, appli', st3)
            else let (pid, st4) = systemd_unit_pid_of_dpath sb isuser dpath st3
                 in (if pid < 0 then - 1 else pid, appli', st4))"

definition afm_urun_start :: "'j value_lib \<Rightarrow> ('b, 's) sd_lib \<Rightarrow> 'j \<Rightarrow> int \<Rightarrow> ('b, 's) sd_state \<Rightarrow> int \<times> 'j \<times> ('b, 's) sd_state" where
  "afm_urun_start vl sb appli uid st = afm_urun_once vl sb appli uid st"

definition not_yet_implemented :: "('b, 's) sd_state \<Rightarrow> int \<times> ('b, 's) sd_state" where
  "not_yet_implemented st = (- 1, set_errno ENOTSUP st)"

definition afm_urun_terminate :: "('b, 's) sd_lib \<Rightarrow> int \<Rightarrow> int \<Rightarrow> ('b, 's) sd_state \<Rightarrow> int \<times> ('b, 's) sd_state" where
  "afm_urun_terminate sb runid uid st =
     (let ((rc, _), st1) = systemd_unit_stop_pid sb True (word_of_int runid) False st in
      if rc < 0 then (let ((rc', _), st2) = systemd_unit_stop_pid sb False (word_of_int runid) False st1
                      in (if rc' < 0 then rc' else 0, st2))
      else (0, st1))"

definition afm_urun_pause :: "int \<Rightarrow> int \<Rightarrow> ('b, 's) sd_state \<Rightarrow> int \<times> ('b, 's) sd_state" where
  "afm_urun_pause runid uid st = not_yet_implemented st"

definition afm_urun_resume :: "int \<Rightarrow> int \<Rightarrow> ('b, 's) sd_state \<Rightarrow> int \<times> ('b, 's) sd_state" where
  "afm_urun_resume runid uid st = not_yet_implemented st"

text \<open>The applications that a query visits, and the record of a completed description.\<close>

definition queried :: "bool \<Rightarrow> 'j udb_unit list \<Rightarrow> nat list" where
  "queried all us = filter (\<lambda>i. all \<or> uu_visible (us ! i)) [0..<length us]"

definition put_priv :: "'j udb_unit list \<Rightarrow> nat \<Rightarrow> 'j \<Rightarrow> 'j udb_unit list" where
  "put_priv us i j = us[i := (us ! i)\<lparr>uu_priv := j\<rparr>]"

definition runner_of ::
  "'j value_lib \<Rightarrow> ('b, 's) sd_lib \<Rightarrow> int \<Rightarrow> 'j \<Rightarrow> ('b, 's) sd_state \<Rightarrow> 'j option \<times> 'j \<times> ('b, 's) sd_state" where
  "runner_of vl sb uid appli st =
     (case get_basis vl sb uid appli st of
        (None, appli', st1) \<Rightarrow> (None, appli', st1)
      | (Some (isuser, dpath), appli', st1) \<Rightarrow>
          let (pid, st2) = systemd_unit_pid_of_dpath sb isuser dpath st1 in
          (case (if pid > 0 then j_read_string_at vl appli' ''id'' else None) of
             Some idt \<Rightarrow>
               let (state, st3) = systemd_unit_state_of_dpath sb isuser dpath st2 in
               if state = SysD_State_Active
               then let (d, m) = mkstate vl (ss_mem st3) idt pid pid state in (d, appli', st3\<lparr>ss_mem := m\<rparr>)
               else (None, appli', st3)
           | None \<Rightarrow> (None, appli', st2)))"

fun urun_list_loop ::
  "'j value_lib \<Rightarrow> ('b, 's) sd_lib \<Rightarrow> int \<Rightarrow> nat list \<Rightarrow> 'j udb_unit list \<Rightarrow> 'j \<Rightarrow> ('b, 's) sd_state \<Rightarrow>
   'j \<times> 'j udb_unit list \<times> ('b, 's) sd_state" where
  "urun_list_loop vl sb uid [] us result st = (result, us, st)"
| "urun_list_loop vl sb uid (i # is) us result st =
     (let (d, appli', st') = runner_of vl sb uid (uu_priv (us ! i)) st
      in urun_list_loop vl sb uid is (put_priv us i appli')
           (case d of None \<Rightarrow> result | Some desc \<Rightarrow> al_array_add (vl_array vl) result desc) st')"

definition afm_urun_list ::
  "'j value_lib \<Rightarrow> ('b, 's) sd_lib \<Rightarrow> 'j udb_unit list \<Rightarrow> bool \<Rightarrow> int \<Rightarrow> ('b, 's) sd_state \<Rightarrow>
   'j option \<times> 'j udb_unit list \<times> ('b, 's) sd_state" where
  "afm_urun_list vl sb us all uid st =
     (let (ok, m) = c_alloc (ss_mem st); st' = st\<lparr>ss_mem := m\<rparr> in
      if \<not> ok then (None, us, st')
      else let (r, us', st'') = urun_list_loop vl sb uid (queried all us) us (al_new_array (vl_array vl)) st'
           in (Some r, us', st''))"

fun urun_state_loop ::
  "'j value_lib \<Rightarrow> ('b, 's) sd_lib \<Rightarrow> int \<Rightarrow> int \<Rightarrow> string \<Rightarrow> nat list \<Rightarrow> 'j udb_unit list \<Rightarrow> ('b, 's) sd_state \<Rightarrow>
   'j option \<times> 'j udb_unit list \<times> ('b, 's) sd_state" where
  "urun_state_loop vl sb uid runid dpath [] us st = (None, us, set_errno ENOENT st)"
| "urun_state_loop vl sb uid runid dpath (i # is) us st =
     (let (b, appli', st1) = get_basis vl sb uid (uu_priv (us ! i)) st; us' = put_priv us i appli' in
      case (b, j_read_string_at vl appli' ''id'') of
        (Some (isuser, udpath), Some idt) \<Rightarrow>
          if dpath = udpath then
            (let (pid, st2) = systemd_unit_pid_of_dpath sb isuser udpath st1;
                 (state, st3) = systemd_unit_state_of_dpath sb isuser dpath st2
             in if pid > 0 \<and> state = SysD_State_Active
                then let (d, m) = mkstate vl (ss_mem st3) idt runid pid state in (d, us', st3\<lparr>ss_mem := m\<rparr>)
                else (None, us', st3))
          else urun_state_loop vl sb uid runid dpath is us' st1
      | _ \<Rightarrow> urun_state_loop vl sb uid runid dpath is us' st1)"

definition afm_urun_state ::
  "'j value_lib \<Rightarrow> ('b, 's) sd_lib \<Rightarrow> 'j udb_unit list \<Rightarrow> int \<Rightarrow> int \<Rightarrow> ('b, 's) sd_state \<Rightarrow>
   'j option \<times> 'j udb_unit list \<times> ('b, 's) sd_state" where
  "afm_urun_state vl sb us runid uid st =
     (let (d1, st1) = systemd_unit_dpath_by_pid sb True (word_of_int runid) st;
          (d2, st2) = (if d1 = None then systemd_unit_dpath_by_pid sb False (word_of_int runid) st1 else (d1, st1))
      in case d2 of
           None \<Rightarrow> (None, us, set_errno EINVAL st2)
         | Some dpath \<Rightarrow> urun_state_loop vl sb uid runid dpath (queried True us) us st2)"

text \<open>
  The look up of an application by its identifier, as a position: the last that has it,
  otherwise the first key, in the order of the first insertions, that is equal but for the
  case.
\<close>

definition last_with :: "'j udb_unit list \<Rightarrow> string \<Rightarrow> nat option" where
  "last_with us idt = List.find (\<lambda>i. uu_id (us ! i) = idt) (rev [0..<length us])"

definition key_order :: "'j udb_unit list \<Rightarrow> string list" where
  "key_order us = rev (remdups (rev (map uu_id us)))"

definition find_app :: "'j udb_unit list \<Rightarrow> string \<Rightarrow> nat option" where
  "find_app us idt =
     (case last_with us idt of
        Some i \<Rightarrow> Some i
      | None \<Rightarrow> Option.bind (List.find (\<lambda>k. c_strcasecmp_eq k idt) (key_order us)) (last_with us))"

definition afm_urun_search_runid ::
  "'j value_lib \<Rightarrow> ('b, 's) sd_lib \<Rightarrow> 'j udb_unit list \<Rightarrow> string \<Rightarrow> int \<Rightarrow> ('b, 's) sd_state \<Rightarrow>
   int \<times> 'j udb_unit list \<times> ('b, 's) sd_state" where
  "afm_urun_search_runid vl sb us idt uid st =
     (case find_app us idt of
        None \<Rightarrow> (- 1, us, set_errno ENOENT st)
      | Some i \<Rightarrow>
          (case get_basis vl sb uid (uu_priv (us ! i)) st of
             (None, appli', st1) \<Rightarrow> (- 1, put_priv us i appli', st1)
           | (Some (isuser, dpath), appli', st1) \<Rightarrow>
               let (pid, st2) = systemd_unit_pid_of_dpath sb isuser dpath st1
               in if pid = 0 then (- 1, put_priv us i appli', set_errno ESRCH st2)
                  else (pid, put_priv us i appli', st2)))"

section \<open>The paths of units are asked once\<close>

text \<open>What the assertion of the code tells of the recorded paths.\<close>

definition dpath_recorded_well :: "'j value_lib \<Rightarrow> 'j \<Rightarrow> bool" where
  "dpath_recorded_well vl appli \<longleftrightarrow>
     (case jl_get (vjson vl) appli key_unit_d_path of
        None \<Rightarrow> True
      | Some odp \<Rightarrow> jl_type (vjson vl) odp = jtype_string \<and> jl_string (vjson vl) odp \<noteq> None \<or> jl_type (vjson vl) odp = jtype_object)"

definition same_but_dpath :: "'j value_lib \<Rightarrow> 'j \<Rightarrow> 'j \<Rightarrow> bool" where
  "same_but_dpath vl a b \<longleftrightarrow> (\<forall>k. k \<noteq> key_unit_d_path \<longrightarrow> jl_get (vjson vl) b k = jl_get (vjson vl) a k)"

lemma other_keys [simp]: "''unit-scope'' \<noteq> key_unit_d_path" "''unit-name'' \<noteq> key_unit_d_path" "''id'' \<noteq> key_unit_d_path"
  by (simp_all add: key_unit_d_path_def)

lemma same_but_dpath_refl [simp]: "same_but_dpath vl a a"
  by (simp add: same_but_dpath_def)

lemma same_but_dpath_read:
  "same_but_dpath vl a b \<Longrightarrow> k \<noteq> key_unit_d_path \<Longrightarrow> j_read_string_at vl b k = j_read_string_at vl a k"
  by (simp add: same_but_dpath_def j_read_string_at_def j_read_object_at_def)

text \<open>What a description has once the path of the unit for a user is found.\<close>

definition dpath_known :: "'j value_lib \<Rightarrow> int \<Rightarrow> 'j \<Rightarrow> bool \<Rightarrow> string \<Rightarrow> bool" where
  "dpath_known vl uid a isuser dpath \<longleftrightarrow>
     (\<exists>uscope odp. j_read_string_at vl a ''unit-scope'' = Some uscope \<and> isuser = (uscope \<noteq> ''system'') \<and>
        jl_get (vjson vl) a key_unit_d_path = Some odp \<and>
        (jl_type (vjson vl) odp = jtype_string \<and> jl_string (vjson vl) odp = Some dpath \<or>
         jl_type (vjson vl) odp \<noteq> jtype_string \<and> uid \<ge> 0 \<and> j_read_string_at vl odp (c_decimal uid) = Some dpath))"

context value_laws
begin

lemma read_string_new: "j_read_string vl (jl_new_string (vjson vl) s) = Some s"
  by (simp add: j_read_string_def new_string)

lemma read_string_object: "j_read_string_at vl j k = Some s \<Longrightarrow> jl_type (vjson vl) j = jtype_object"
  by (auto simp: j_read_string_at_def j_read_object_at_def bind_eq_Some_conv intro: get_object)

lemma record_dpath_effect:
  assumes "record_dpath vl isuser dp holder key put st = (r, a, st')"
  shows "r = None \<and> a = put holder \<or>
    r = Some (isuser, dp) \<and> a = put (jl_add (vjson vl) holder key (jl_new_string (vjson vl) dp))"
  using assms
  by (auto simp: record_dpath_def j_add_string_def j_add_created_def j_add_def or_default_def split: prod.splits if_splits)

lemma get_basis_known: "dpath_known vl uid a isuser dpath \<Longrightarrow> get_basis vl sb uid a st = (Some (isuser, dpath), a, st)"
  by (auto simp: dpath_known_def get_basis_def Let_def)

lemma basis_of_user_effect:
  assumes "basis_of_user vl sb isuser nun userid appli odp st = (r, a, st')"
    and "jl_type (vjson vl) appli = jtype_object" "jl_type (vjson vl) odp = jtype_object"
  shows "same_but_dpath vl appli a \<and>
    (\<forall>b d. r = Some (b, d) \<longrightarrow> b = isuser \<and>
       (\<exists>o'. jl_get (vjson vl) a key_unit_d_path = Some o' \<and> jl_type (vjson vl) o' = jtype_object \<and> j_read_string_at vl o' userid = Some d))"
  using assms
  by (auto simp: basis_of_user_def same_but_dpath_def get_add type_add j_read_string_at_def j_read_object_at_def read_string_new
           split: prod.splits option.splits dest!: record_dpath_effect)

lemma basis_of_unit_effect:
  assumes "basis_of_unit vl sb uid isuser appli odp st = (r, a, st')"
    and "jl_type (vjson vl) appli = jtype_object" "\<And>o'. odp = Some o' \<Longrightarrow> jl_type (vjson vl) o' = jtype_object \<and> uid \<ge> 0"
  shows "same_but_dpath vl appli a \<and>
    (\<forall>b d. r = Some (b, d) \<longrightarrow> b = isuser \<and>
       (\<exists>o'. jl_get (vjson vl) a key_unit_d_path = Some o' \<and>
          (jl_type (vjson vl) o' = jtype_string \<and> jl_string (vjson vl) o' = Some d \<or>
           jl_type (vjson vl) o' \<noteq> jtype_string \<and> uid \<ge> 0 \<and> j_read_string_at vl o' (c_decimal uid) = Some d)))"
proof (cases "j_read_string_at vl appli ''unit-name''")
  case None
  with assms(1) show ?thesis by (auto simp: basis_of_unit_def)
next
  case (Some uname)
  show ?thesis
  proof (cases "parametric_name uname (c_decimal uid)")
    case None
    show ?thesis
      using assms(1,2) Some None
      by (auto simp: basis_of_unit_def same_but_dpath_def get_add new_string split: prod.splits option.splits dest!: record_dpath_effect)
  next
    case p: (Some nun)
    show ?thesis
    proof (cases odp)
      case (Some o')
      with assms p \<open>j_read_string_at vl appli ''unit-name'' = Some uname\<close>
      have "basis_of_user vl sb isuser nun (c_decimal uid) appli o' st = (r, a, st')" by (simp add: basis_of_unit_def)
      from basis_of_user_effect [OF this assms(2)] assms(3) [OF Some] show ?thesis by force
    next
      case None
      obtain ok m where m: "c_alloc (ss_mem st) = (ok, m)" by fastforce
      show ?thesis
      proof (cases "uid < 0 \<or> \<not> ok")
        case True
        with assms(1) p Some None m show ?thesis by (auto simp: basis_of_unit_def split: if_splits)
      next
        case False
        let ?a = "jl_add (vjson vl) appli key_unit_d_path (jl_new_object (vjson vl))"
        have b: "basis_of_user vl sb isuser nun (c_decimal uid) ?a (jl_new_object (vjson vl)) (st\<lparr>ss_mem := m\<rparr>) = (r, a, st')"
          using assms(1) p Some None m False by (simp add: basis_of_unit_def)
        have "same_but_dpath vl appli a" if "same_but_dpath vl ?a a"
          using that assms(2) by (simp add: same_but_dpath_def get_add)
        then show ?thesis
          using basis_of_user_effect [OF b] assms(2) new_object(1) False by (force simp: type_add)
      qed
    qed
  qed
qed

lemma get_basis_effect:
  assumes "get_basis vl sb uid appli st = (r, a, st')" "dpath_recorded_well vl appli"
  shows "same_but_dpath vl appli a \<and> (\<forall>isuser dpath. r = Some (isuser, dpath) \<longrightarrow> dpath_known vl uid a isuser dpath)"
proof (cases "j_read_string_at vl appli ''unit-scope''")
  case None
  with assms show ?thesis by (auto simp: get_basis_def)
next
  case (Some uscope)
  have ob: "jl_type (vjson vl) appli = jtype_object" by (rule read_string_object [OF Some])
  let ?isuser = "uscope \<noteq> ''system''"
  have scope: "j_read_string_at vl a ''unit-scope'' = Some uscope" if "same_but_dpath vl appli a"
    using same_but_dpath_read [OF that, of "''unit-scope''"] Some by simp
  show ?thesis
  proof (cases "jl_get (vjson vl) appli key_unit_d_path")
    case None
    then have b: "basis_of_unit vl sb uid ?isuser appli None st = (r, a, st')"
      using assms(1) Some by (simp add: get_basis_def)
    show ?thesis using basis_of_unit_effect [OF b ob] scope by (auto simp: dpath_known_def)
  next
    case odp: (Some odp)
    show ?thesis
    proof (cases "jl_type (vjson vl) odp = jtype_string \<or> uid < 0 \<or> j_read_string_at vl odp (c_decimal uid) \<noteq> None")
      case True
      then show ?thesis using assms Some odp
        by (auto simp: get_basis_def dpath_known_def dpath_recorded_well_def Let_def split: if_splits option.splits)
    next
      case False
      then have b: "basis_of_unit vl sb uid ?isuser appli (Some odp) st = (r, a, st')"
        using assms(1) Some odp by (simp add: get_basis_def)
      have "jl_type (vjson vl) odp = jtype_object" using False assms(2) odp by (simp add: dpath_recorded_well_def)
      with False show ?thesis using basis_of_unit_effect [OF b ob] scope by (auto simp: dpath_known_def)
    qed
  qed
qed

lemma get_basis_again:
  assumes "get_basis vl sb uid appli st = (Some (isuser, dpath), a, st')" "dpath_recorded_well vl appli"
  shows "same_but_dpath vl appli a \<and> get_basis vl sb' uid a st2 = (Some (isuser, dpath), a, st2)"
  using get_basis_effect [OF assms] by (simp add: get_basis_known)

end

section \<open>Runners as systemd knows them\<close>

text \<open>
  The unit of an application for a user, told without following the search of its name: a
  name \<open>pre@.post\<close> is instantiated for the user as \<open>pre@uid.post\<close>, where \<open>@\<close> is the first one.
\<close>

definition instance_name :: "string \<Rightarrow> string \<Rightarrow> string \<Rightarrow> bool" where
  "instance_name uname userid nun \<longleftrightarrow>
     (\<exists>pre post. CHR ''@'' \<notin> set pre \<and> uname = pre @ ''@.'' @ post \<and> nun = pre @ ''@'' @ userid @ ''.'' @ post) \<or>
     (\<nexists>pre post. CHR ''@'' \<notin> set pre \<and> uname = pre @ ''@.'' @ post) \<and> nun = uname"

definition unit_of :: "'j value_lib \<Rightarrow> int \<Rightarrow> 'j \<Rightarrow> bool \<Rightarrow> string \<Rightarrow> bool" where
  "unit_of vl uid appli isuser nun \<longleftrightarrow>
     (\<exists>uscope uname. j_read_string_at vl appli ''unit-scope'' = Some uscope \<and> (isuser \<longleftrightarrow> uscope \<noteq> ''system'') \<and>
        j_read_string_at vl appli ''unit-name'' = Some uname \<and> instance_name uname (c_decimal uid) nun)"

text \<open>
  An application runs for a user, under an identifier and a process: systemd has its unit,
  whose main process is this one and which is active.
\<close>

definition runs ::
  "'j value_lib \<Rightarrow> (bool \<Rightarrow> string \<Rightarrow> string option) \<Rightarrow> (bool \<Rightarrow> string \<Rightarrow> 32 word) \<Rightarrow> (bool \<Rightarrow> string \<Rightarrow> string) \<Rightarrow> int \<Rightarrow> 'j \<Rightarrow>
   string \<times> int \<Rightarrow> bool" where
  "runs vl paths main_pid active_state uid appli run \<longleftrightarrow>
     (\<exists>isuser nun dpath. unit_of vl uid appli isuser nun \<and> paths isuser nun = Some dpath \<and>
        snd run = sint (main_pid isuser dpath) \<and> snd run > 0 \<and> active_state isuser dpath = ''active'' \<and>
        j_read_string_at vl appli ''id'' = Some (fst run))"

text \<open>The description of a runner, and the paths that were recorded are still those that systemd gives.\<close>

definition runner_described :: "'j value_lib \<Rightarrow> string \<times> int \<Rightarrow> 'j \<Rightarrow> bool" where
  "runner_described vl run d \<longleftrightarrow>
     jl_get (vjson vl) d ''id'' = Some (jl_new_string (vjson vl) (fst run)) \<and>
     jl_get (vjson vl) d ''runid'' = Some (vl_new_int vl (snd run)) \<and>
     (\<exists>ps. jl_get (vjson vl) d ''pids'' = Some ps \<and> jl_items (vjson vl) ps = [vl_new_int vl (snd run)]) \<and>
     jl_get (vjson vl) d ''state'' = Some (jl_new_string (vjson vl) ''running'')"

definition dpath_current :: "'j value_lib \<Rightarrow> (bool \<Rightarrow> string \<Rightarrow> string option) \<Rightarrow> int \<Rightarrow> 'j \<Rightarrow> bool" where
  "dpath_current vl paths uid appli \<longleftrightarrow> dpath_recorded_well vl appli \<and>
     (\<forall>isuser dpath. dpath_known vl uid appli isuser dpath \<longrightarrow>
        (\<exists>nun. unit_of vl uid appli isuser nun \<and> paths isuser nun = Some dpath))"

text \<open>No allocation fails and the buses that are open are the ones of systemd.\<close>

definition calm :: "(bool \<Rightarrow> 'b) \<Rightarrow> ('b, 's) sd_state \<Rightarrow> bool" where
  "calm bus st \<longleftrightarrow> ss_mem st = [] \<and> ss_usrbus st \<in> {None, Some (bus True)} \<and> ss_sysbus st \<in> {None, Some (bus False)}"

lemma calm_updates [simp]:
  "calm bus (st\<lparr>ss_errno := e\<rparr>) = calm bus st" "calm bus (st\<lparr>ss_world := w\<rparr>) = calm bus st"
  "calm bus st \<Longrightarrow> calm bus (st\<lparr>ss_mem := []\<rparr>)"
  by (simp_all add: calm_def)

lemma calm_mem: "calm bus st \<Longrightarrow> ss_mem st = []"
  by (simp add: calm_def)

lemma parametric_name_iff:
  "parametric_name uname userid = Some nun \<longleftrightarrow>
     (\<exists>pre post. CHR ''@'' \<notin> set pre \<and> uname = pre @ ''@.'' @ post \<and> nun = pre @ ''@'' @ userid @ ''.'' @ post)"
proof -
  let ?pre = "takeWhile (\<lambda>c. c \<noteq> CHR ''@'') uname" and ?rest = "dropWhile (\<lambda>c. c \<noteq> CHR ''@'') uname"
  have u: "uname = ?pre @ ?rest" by simp
  have at: "hd ?rest = CHR ''@''" if "?rest \<noteq> []" using hd_dropWhile [OF that] by simp
  have no: "CHR ''@'' \<notin> set ?pre" by (auto dest: set_takeWhileD)
  have split: "takeWhile (\<lambda>c. c \<noteq> CHR ''@'') (pre @ CHR ''@'' # q) = pre" "dropWhile (\<lambda>c. c \<noteq> CHR ''@'') (pre @ CHR ''@'' # q) = CHR ''@'' # q"
    if "CHR ''@'' \<notin> set pre" for pre q
    using that by (induction pre) auto
  show ?thesis
  proof
    assume p: "parametric_name uname userid = Some nun"
    then obtain a rest where r: "?rest = a # CHR ''.'' # rest" "nun = ?pre @ [a] @ userid @ CHR ''.'' # rest"
      by (auto simp: parametric_name_def split: list.splits if_splits)
    then have "a = CHR ''@''" using at by simp
    with r u no show "\<exists>pre post. CHR ''@'' \<notin> set pre \<and> uname = pre @ ''@.'' @ post \<and> nun = pre @ ''@'' @ userid @ ''.'' @ post"
      by (intro exI [of _ ?pre] exI [of _ rest]) simp
  next
    assume "\<exists>pre post. CHR ''@'' \<notin> set pre \<and> uname = pre @ ''@.'' @ post \<and> nun = pre @ ''@'' @ userid @ ''.'' @ post"
    then show "parametric_name uname userid = Some nun" by (auto simp: parametric_name_def split)
  qed
qed

lemma instance_name_iff:
  "instance_name uname userid nun \<longleftrightarrow> nun = (case parametric_name uname userid of Some n \<Rightarrow> n | None \<Rightarrow> uname)"
proof (cases "parametric_name uname userid")
  case None
  then have "\<nexists>pre post. CHR ''@'' \<notin> set pre \<and> uname = pre @ ''@.'' @ post"
    using parametric_name_iff [of uname userid] by (metis option.distinct(1))
  with None show ?thesis by (auto simp: instance_name_def)
next
  case (Some n)
  have "(\<exists>pre post. CHR ''@'' \<notin> set pre \<and> uname = pre @ ''@.'' @ post \<and> x = pre @ ''@'' @ userid @ ''.'' @ post) \<longleftrightarrow> x = n" for x
    using Some unfolding parametric_name_iff [symmetric] by auto
  then show ?thesis unfolding instance_name_def Some option.case by blast
qed

text \<open>
  What is relied on of systemd during a query: the buses can be opened; a unit is loaded under
  the path that systemd gives to its name, if it has one; the main process and the active
  state of a unit are properties that can be read. The answers do not change while the query
  goes on.
\<close>

locale steady_systemd =
  fixes sb :: "('b, 's) sd_lib" and bus :: "bool \<Rightarrow> 'b" and paths :: "bool \<Rightarrow> string \<Rightarrow> string option"
    and main_pid :: "bool \<Rightarrow> string \<Rightarrow> 32 word" and active_state :: "bool \<Rightarrow> string \<Rightarrow> string"
  assumes bus_law: "fst (sb_default sb isuser w) = Inr (bus isuser)"
    and load_law: "fst (sb_call sb (bus isuser) sdb_path sdbi_manager ''LoadUnit'' [Arg_s name] w) = (rc, rd, p) \<Longrightarrow>
      (case paths isuser name of None \<Rightarrow> rc < 0 | Some q \<Rightarrow> 0 \<le> rc \<and> 0 \<le> rd \<and> p = q)"
    and pid_law: "fst (sb_get_u sb (bus isuser) dpath sdbi_service ''ExecMainPID'' w) = (rc, u) \<Longrightarrow> 0 \<le> rc \<and> u = main_pid isuser dpath"
    and state_law: "fst (sb_get_string sb (bus isuser) dpath sdbi_unit ''ActiveState'' w) = (rc, s) \<Longrightarrow>
      0 \<le> rc \<and> s = active_state isuser dpath"
begin

lemma get_bus_calm:
  assumes "calm bus st" "systemd_get_bus sb isuser st = (rc, b, st')"
  shows "b = Some (bus isuser) \<and> calm bus st'"
proof -
  obtain w where "sb_default sb isuser (ss_world st) = (Inr (bus isuser), w)" using bus_law by (metis prod.collapse)
  with assms show ?thesis
    by (cases isuser; cases "bus_of isuser st") (auto simp: systemd_get_bus_def calm_def bus_of_def systemd_set_bus_def)
qed

lemma with_bus_calm:
  assumes "calm bus st" "with_bus sb isuser st failed f = (r, st')"
    and "\<And>st1 r st'. calm bus st1 \<Longrightarrow> f (bus isuser) st1 = (r, st') \<Longrightarrow> r = x \<and> calm bus st'"
  shows "r = x \<and> calm bus st'"
proof -
  obtain rc b st1 where g: "systemd_get_bus sb isuser st = (rc, b, st1)" by (metis prod_cases3)
  note c = get_bus_calm [OF assms(1) g]
  have "f (bus isuser) st1 = (r, st')" using assms(2) g c by (simp add: with_bus_def)
  with assms(3) c show ?thesis by blast
qed

lemma get_unit_dpath_calm:
  assumes "calm bus st" "get_unit_dpath sb (bus isuser) name True st = (r, st')"
  shows "r = paths isuser name \<and> calm bus st'"
proof -
  obtain rc rd p w where c: "sb_call sb (bus isuser) sdb_path sdbi_manager ''LoadUnit'' [Arg_s name] (ss_world st) = ((rc, rd, p), w)"
    by (metis prod_cases4 prod.collapse)
  with load_law [of isuser name "ss_world st" rc rd p] assms show ?thesis
    by (auto simp: get_unit_dpath_def sd_call_def get_dpath_def sderr2errno_def sd_strdup_def calm_mem split: option.splits)
qed

lemma dpath_by_name_calm:
  assumes "calm bus st" "systemd_unit_dpath_by_name sb isuser name True st = (r, st')"
  shows "r = paths isuser name \<and> calm bus st'"
  using assms unfolding systemd_unit_dpath_by_name_def by (rule with_bus_calm) (rule get_unit_dpath_calm)

lemma pid_calm:
  assumes "calm bus st" "systemd_unit_pid_of_dpath sb isuser dpath st = (r, st')"
  shows "r = sint (main_pid isuser dpath) \<and> calm bus st'"
  using assms unfolding systemd_unit_pid_of_dpath_def
proof (rule with_bus_calm)
  fix st1 r st' assume "calm bus st1" "unit_pid sb (bus isuser) dpath st1 = (r, st')"
  then show "r = sint (main_pid isuser dpath) \<and> calm bus st'"
    using pid_law [of isuser dpath "ss_world st1"]
    by (cases "sb_get_u sb (bus isuser) dpath sdbi_service ''ExecMainPID'' (ss_world st1)") (auto simp: unit_pid_def split: if_splits)
qed

lemma state_calm:
  assumes "calm bus st" "systemd_unit_state_of_dpath sb isuser dpath st = (r, st')"
  shows "r = systemd_state_of_name (active_state isuser dpath) \<and> calm bus st'"
  using assms unfolding systemd_unit_state_of_dpath_def
proof (rule with_bus_calm)
  fix st1 r st' assume "calm bus st1" "unit_state sb (bus isuser) dpath st1 = (r, st')"
  then show "r = systemd_state_of_name (active_state isuser dpath) \<and> calm bus st'"
    using state_law [of isuser dpath "ss_world st1"]
    by (cases "sb_get_string sb (bus isuser) dpath sdbi_unit ''ActiveState'' (ss_world st1)") (auto simp: unit_state_def Let_def split: if_splits)
qed

end

lemma state_active: "systemd_state_of_name s = SysD_State_Active \<longleftrightarrow> s = ''active''"
  by (auto simp: systemd_state_of_name_def)

locale runners = value_laws vl + steady_systemd sb bus paths main_pid active_state
  for vl :: "'j value_lib" and sb :: "('b, 's) sd_lib" and bus paths main_pid active_state
begin

lemma record_dpath_calm:
  assumes "calm bus st" "record_dpath vl isuser dp holder key put st = (r, a, st')"
  shows "r = Some (isuser, dp) \<and> calm bus st'"
  using assms by (auto simp: record_dpath_def j_add_string_def j_add_created_def calm_mem)

lemma basis_of_user_calm:
  assumes "calm bus st" "basis_of_user vl sb isuser nun userid appli odp st = (r, a, st')"
  shows "r = map_option (Pair isuser) (paths isuser nun) \<and> calm bus st'"
proof -
  obtain d st1 where d: "systemd_unit_dpath_by_name sb isuser nun True st = (d, st1)" by fastforce
  from dpath_by_name_calm [OF assms(1) d] assms(2) d show ?thesis
    by (cases "paths isuser nun") (auto simp: basis_of_user_def dest: record_dpath_calm)
qed

lemma basis_of_unit_calm:
  assumes "calm bus st" "basis_of_unit vl sb uid isuser appli odp st = (r, a, st')" "uid \<ge> 0"
  shows "(\<forall>b d. r = Some (b, d) \<longleftrightarrow>
      (\<exists>uname nun. b = isuser \<and> j_read_string_at vl appli ''unit-name'' = Some uname \<and> instance_name uname (c_decimal uid) nun \<and>
         paths isuser nun = Some d)) \<and> calm bus st'"
proof (cases "j_read_string_at vl appli ''unit-name''")
  case None
  with assms show ?thesis by (auto simp: basis_of_unit_def)
next
  case u: (Some uname)
  show ?thesis
  proof (cases "parametric_name uname (c_decimal uid)")
    case None
    obtain d st1 where d: "systemd_unit_dpath_by_name sb isuser uname True st = (d, st1)" by fastforce
    from dpath_by_name_calm [OF assms(1) d] assms(2) d u None show ?thesis
      by (cases "paths isuser uname") (auto simp: basis_of_unit_def instance_name_iff dest: record_dpath_calm)
  next
    case (Some nun)
    then obtain ap o' st1 where "basis_of_user vl sb isuser nun (c_decimal uid) ap o' st1 = (r, a, st')" "calm bus st1"
      using assms u by (cases odp) (auto simp: basis_of_unit_def calm_mem)
    from basis_of_user_calm [OF this(2,1)] u Some show ?thesis by (auto simp: instance_name_iff)
  qed
qed

lemma get_basis_calm:
  assumes "calm bus st" "get_basis vl sb uid appli st = (r, a, st')" "uid \<ge> 0" "dpath_current vl paths uid appli"
  shows "(\<forall>isuser dpath. r = Some (isuser, dpath) \<longleftrightarrow> (\<exists>nun. unit_of vl uid appli isuser nun \<and> paths isuser nun = Some dpath)) \<and>
    calm bus st'"
proof (cases "\<exists>isuser dpath. dpath_known vl uid appli isuser dpath")
  case True
  then obtain isuser dpath where k: "dpath_known vl uid appli isuser dpath" by blast
  from k get_basis_known [of uid appli isuser dpath sb st] assms(2) have r: "r = Some (isuser, dpath)" "st' = st" by auto
  from k assms(4) obtain nun where "unit_of vl uid appli isuser nun" "paths isuser nun = Some dpath"
    by (auto simp: dpath_current_def)
  with r assms(1) show ?thesis by (auto simp: unit_of_def instance_name_iff)
next
  case False
  show ?thesis
  proof (cases "j_read_string_at vl appli ''unit-scope''")
    case None
    with assms(1,2) show ?thesis by (auto simp: get_basis_def unit_of_def)
  next
    case (Some uscope)
    then obtain odp where "basis_of_unit vl sb uid (uscope \<noteq> ''system'') appli odp st = (r, a, st')"
      using assms(2-4) False
      by (auto simp: get_basis_def dpath_known_def dpath_current_def dpath_recorded_well_def Let_def split: option.splits if_splits)
    from basis_of_unit_calm [OF assms(1) this assms(3)] Some show ?thesis by (auto simp: unit_of_def)
  qed
qed

lemma mkstate_calm:
  assumes "pid > 0"
  shows "\<exists>d. mkstate vl [] idt pid pid SysD_State_Active = (Some d, []) \<and> runner_described vl (idt, pid) d"
  using assms
  by (auto simp: mkstate_def j_add_string_def j_add_integer_def j_add_new_array_def j_add_created_def j_add_def or_default_def
        get_add type_add new_object array_add new_array runner_described_def)

lemma runner_of_calm:
  assumes "calm bus st" "runner_of vl sb uid appli st = (r, a, st')" "uid \<ge> 0" "dpath_current vl paths uid appli"
  shows "(case r of None \<Rightarrow> \<nexists>run. runs vl paths main_pid active_state uid appli run
    | Some d \<Rightarrow> \<exists>run. runs vl paths main_pid active_state uid appli run \<and> runner_described vl run d) \<and> calm bus st'"
proof -
  obtain b a1 st1 where g: "get_basis vl sb uid appli st = (b, a1, st1)" by (metis prod_cases3)
  note gc = get_basis_calm [OF assms(1) g assms(3,4)]
  show ?thesis
  proof (cases b)
    case None
    with g gc assms(2) show ?thesis by (auto simp: runner_of_def runs_def)
  next
    case (Some bd)
    then obtain isuser dpath where b: "b = Some (isuser, dpath)" by (cases bd) auto
    obtain pid st2 where p: "systemd_unit_pid_of_dpath sb isuser dpath st1 = (pid, st2)" by fastforce
    note pc = pid_calm [OF conjunct2 [OF gc] p]
    obtain state st3 where s: "systemd_unit_state_of_dpath sb isuser dpath st2 = (state, st3)" by fastforce
    note sc = state_calm [OF conjunct2 [OF pc] s]
    have "same_but_dpath vl appli a1" using get_basis_effect [OF g] assms(4) by (simp add: dpath_current_def)
    then have idt: "j_read_string_at vl a1 ''id'' = j_read_string_at vl appli ''id''" by (simp add: same_but_dpath_read)
    have runs: "runs vl paths main_pid active_state uid appli (i, q) \<longleftrightarrow>
        q = pid \<and> pid > 0 \<and> state = SysD_State_Active \<and> j_read_string_at vl appli ''id'' = Some i" for i q
      using gc b pc sc unfolding runs_def fst_conv snd_conv by (metis option.inject prod.inject state_active)
    show ?thesis
    proof (cases "pid > 0 \<and> state = SysD_State_Active \<and> j_read_string_at vl appli ''id'' \<noteq> None")
      case True
      then obtain i where i: "j_read_string_at vl appli ''id'' = Some i" by auto
      with True obtain d where d: "mkstate vl [] i pid pid SysD_State_Active = (Some d, [])" "runner_described vl (i, pid) d"
        using mkstate_calm by blast
      from True i have "runs vl paths main_pid active_state uid appli (i, pid)" by (simp add: runs)
      with d(2) have "\<exists>run. runs vl paths main_pid active_state uid appli run \<and> runner_described vl run d" by blast
      moreover from True i d(1) g b p s idt sc assms(2) have "r = Some d \<and> calm bus st'" by (auto simp: runner_of_def calm_mem)
      ultimately show ?thesis by simp
    next
      case False
      with g b p s idt pc sc assms(2) runs show ?thesis by (auto simp: runner_of_def split: option.splits if_splits)
    qed
  qed
qed

lemma list_loop_calm:
  assumes "calm bus st" "urun_list_loop vl sb uid is us r st = (r', us', st')" "distinct is" "uid \<ge> 0"
    and "list_all (\<lambda>i. dpath_current vl paths uid (uu_priv (us ! i))) is" "jl_type (vjson vl) r = jtype_array"
  shows "\<exists>ds. jl_items (vjson vl) r' = jl_items (vjson vl) r @ ds \<and>
    list_all2 (\<lambda>i d. \<exists>run. runs vl paths main_pid active_state uid (uu_priv (us ! i)) run \<and> runner_described vl run d)
      (filter (\<lambda>i. \<exists>run. runs vl paths main_pid active_state uid (uu_priv (us ! i)) run) is) ds"
  using assms
proof (induction "is" arbitrary: us r st)
  case (Cons i "is")
  obtain d a st1 where g: "runner_of vl sb uid (uu_priv (us ! i)) st = (d, a, st1)" by (metis prod_cases3)
  have "dpath_current vl paths uid (uu_priv (us ! i))" using Cons.prems(5) by simp
  note rc = runner_of_calm [OF Cons.prems(1) g Cons.prems(4) this]
  let ?us = "put_priv us i a" and ?r = "case d of None \<Rightarrow> r | Some desc \<Rightarrow> al_array_add (vl_array vl) r desc"
  have l: "urun_list_loop vl sb uid is ?us ?r st1 = (r', us', st')" using Cons.prems(2) g by simp
  have same: "?us ! j = us ! j" if "j \<in> set is" for j
    using that Cons.prems(3) by (cases "j = i") (auto simp: put_priv_def)
  have w: "list_all (\<lambda>j. dpath_current vl paths uid (uu_priv (?us ! j))) is" using Cons.prems(5) same by (simp add: list_all_iff)
  have ty: "jl_type (vjson vl) ?r = jtype_array" using Cons.prems(6) by (auto simp: array_add split: option.splits)
  have dis: "distinct is" using Cons.prems(3) by simp
  let ?R = "\<lambda>us i d. \<exists>run. runs vl paths main_pid active_state uid (uu_priv (us ! i)) run \<and> runner_described vl run d"
  let ?P = "\<lambda>us i. \<exists>run. runs vl paths main_pid active_state uid (uu_priv (us ! i)) run"
  from Cons.IH [OF conjunct2 [OF rc] l dis Cons.prems(4) w ty] obtain ds where
    ds: "jl_items (vjson vl) r' = jl_items (vjson vl) ?r @ ds" "list_all2 (?R ?us) (filter (?P ?us) is) ds" by blast
  have "filter (?P ?us) is = filter (?P us) is" using same by (intro filter_cong) auto
  with ds(2) have ds2: "list_all2 (?R us) (filter (?P us) is) ds"
    using same by (intro list.rel_mono_strong [OF ds(2) [unfolded \<open>filter (?P ?us) is = _\<close>]]) auto
  show ?case
  proof (cases d)
    case None
    with rc ds(1) ds2 show ?thesis by (intro exI [of _ ds]) auto
  next
    case (Some desc)
    with rc ds(1) ds2 Cons.prems(6) show ?thesis by (intro exI [of _ "desc # ds"]) (auto simp: array_add)
  qed
qed simp

lemma urun_list_calm:
  assumes "calm bus st" "uid \<ge> 0" "list_all (\<lambda>u. dpath_current vl paths uid (uu_priv u)) us"
  shows "\<exists>r us' st'. afm_urun_list vl sb us all uid st = (Some r, us', st') \<and>
    list_all2 (\<lambda>i d. \<exists>run. runs vl paths main_pid active_state uid (uu_priv (us ! i)) run \<and> runner_described vl run d)
      (filter (\<lambda>i. (all \<or> uu_visible (us ! i)) \<and> (\<exists>run. runs vl paths main_pid active_state uid (uu_priv (us ! i)) run)) [0..<length us])
      (jl_items (vjson vl) r)"
proof -
  obtain r us' st' where l: "urun_list_loop vl sb uid (queried all us) us (al_new_array (vl_array vl)) (st\<lparr>ss_mem := []\<rparr>) = (r, us', st')"
    by (metis prod_cases3)
  have q: "distinct (queried all us)" "list_all (\<lambda>i. dpath_current vl paths uid (uu_priv (us ! i))) (queried all us)"
    using assms(3) by (auto simp: queried_def list_all_iff)
  have "calm bus (st\<lparr>ss_mem := []\<rparr>)" using assms(1) by simp
  from list_loop_calm [OF this l q(1) assms(2) q(2)] new_array
  have "list_all2 (\<lambda>i d. \<exists>run. runs vl paths main_pid active_state uid (uu_priv (us ! i)) run \<and> runner_described vl run d)
      (filter (\<lambda>i. \<exists>run. runs vl paths main_pid active_state uid (uu_priv (us ! i)) run) (queried all us)) (jl_items (vjson vl) r)"
    by auto
  with l assms(1) show ?thesis by (auto simp: afm_urun_list_def calm_mem queried_def conj_commute)
qed

end

section \<open>Waiting ends\<close>

text \<open>
  Enough answers: after at most as many turns as trials, the state is stable or is the last
  one that was read, and when the job is done and the state is stable at some trial the wait
  ends with this state.
\<close>

fun turns :: "('b, 's) sd_lib \<Rightarrow> bool \<Rightarrow> string \<Rightarrow> nat \<Rightarrow> string option \<times> ('b, 's) sd_state \<Rightarrow> string option \<times> ('b, 's) sd_state" where
  "turns sb isuser dpath 0 x = x"
| "turns sb isuser dpath (Suc n) (job, st) =
     (case pending_job sb isuser job st of
        (Some j, st1) \<Rightarrow> turns sb isuser dpath n (Some j, st1)
      | (None, st1) \<Rightarrow> turns sb isuser dpath n (None, snd (systemd_unit_state_of_dpath sb isuser dpath st1)))"

definition stable_turn :: "('b, 's) sd_lib \<Rightarrow> bool \<Rightarrow> string \<Rightarrow> string option \<times> ('b, 's) sd_state \<Rightarrow> SysD_State option" where
  "stable_turn sb isuser dpath x =
     (case pending_job sb isuser (fst x) (snd x) of
        (Some j, st1) \<Rightarrow> None
      | (None, st1) \<Rightarrow>
          let s = fst (systemd_unit_state_of_dpath sb isuser dpath st1)
          in if s \<in> {SysD_State_Active, SysD_State_Failed, SysD_State_Inactive} then Some s else None)"

lemma wait_trials_stable:
  assumes "k < n" "stable_turn sb isuser dpath (turns sb isuser dpath k (job, st)) = Some s"
    and "\<And>j. j < k \<Longrightarrow> stable_turn sb isuser dpath (turns sb isuser dpath j (job, st)) = None"
  shows "fst (wait_trials sb isuser dpath n job state st) = s"
  using assms
proof (induction n arbitrary: k job st state)
  case (Suc n)
  obtain pj st1 where p: "pending_job sb isuser job st = (pj, st1)" by fastforce
  obtain s2 st2 where s2: "systemd_unit_state_of_dpath sb isuser dpath st1 = (s2, st2)" by fastforce
  show ?case
  proof (cases k)
    case 0
    with Suc.prems(2) p s2 show ?thesis by (auto simp: stable_turn_def Let_def split: option.splits if_splits)
  next
    case k: (Suc k')
    have first: "stable_turn sb isuser dpath (job, st) = None" using Suc.prems(3) [of 0] k by simp
    let ?x = "(pj, if pj = None then st2 else st1)"
    have t: "turns sb isuser dpath (Suc j) (job, st) = turns sb isuser dpath j ?x" for j
      using p s2 by (auto split: option.splits)
    have later: "stable_turn sb isuser dpath (turns sb isuser dpath j ?x) = None" if "j < k'" for j
      using Suc.prems(3) [of "Suc j"] that k unfolding t by simp
    have here: "stable_turn sb isuser dpath (turns sb isuser dpath k' ?x) = Some s" using Suc.prems(2) unfolding k t .
    have "fst (wait_trials sb isuser dpath (Suc n) job state st) =
        fst (wait_trials sb isuser dpath n pj (if pj = None then s2 else state) (if pj = None then st2 else st1))"
      using first p s2 by (auto simp: stable_turn_def Let_def split: option.splits if_splits)
    with Suc.IH [of k' pj "if pj = None then st2 else st1"] here later Suc.prems(1) k show ?thesis by simp
  qed
qed simp

lemma wait_trials_all:
  assumes "\<And>j. j < n \<Longrightarrow> stable_turn sb isuser dpath (turns sb isuser dpath j (job, st)) = None"
    and "state \<notin> {SysD_State_Active, SysD_State_Failed, SysD_State_Inactive}"
  shows "fst (wait_trials sb isuser dpath n job state st) \<notin> {SysD_State_Active, SysD_State_Failed, SysD_State_Inactive}"
  using assms
proof (induction n arbitrary: job st state)
  case (Suc n)
  obtain pj st1 where p: "pending_job sb isuser job st = (pj, st1)" by fastforce
  obtain s2 st2 where s2: "systemd_unit_state_of_dpath sb isuser dpath st1 = (s2, st2)" by fastforce
  have first: "stable_turn sb isuser dpath (job, st) = None" using Suc.prems(1) [of 0] by simp
  let ?x = "(pj, if pj = None then st2 else st1)"
  have t: "turns sb isuser dpath (Suc j) (job, st) = turns sb isuser dpath j ?x" for j
    using p s2 by (auto split: option.splits)
  have later: "stable_turn sb isuser dpath (turns sb isuser dpath j ?x) = None" if "j < n" for j
    using Suc.prems(1) [of "Suc j"] that unfolding t by simp
  have "fst (wait_trials sb isuser dpath (Suc n) job state st) =
      fst (wait_trials sb isuser dpath n pj (if pj = None then s2 else state) (if pj = None then st2 else st1))"
    using first p s2 by (auto simp: stable_turn_def Let_def split: option.splits if_splits)
  moreover have "(if pj = None then s2 else state) \<notin> {SysD_State_Active, SysD_State_Failed, SysD_State_Inactive}"
    using first p s2 Suc.prems(2) by (auto simp: stable_turn_def Let_def split: option.splits if_splits)
  ultimately show ?case using Suc.IH [of pj "if pj = None then st2 else st1"] later by simp
qed simp

section \<open>Look up of applications\<close>

text \<open>Objects of json-c keep the order of the insertions.\<close>

locale ordered_laws = array_laws +
  assumes fields_get: "jl_type (al_json al) j = jtype_object \<Longrightarrow> distinct (map fst (jl_fields (al_json al) j)) \<Longrightarrow>
      map_of (jl_fields (al_json al) j) = jl_get (al_json al) j"
    and fields_order: "jl_type (al_json al) j = jtype_object \<Longrightarrow>
      map fst (jl_fields (al_json al) (jl_add (al_json al) j k v)) =
        (if k \<in> fst ` set (jl_fields (al_json al) j) then map fst (jl_fields (al_json al) j)
         else map fst (jl_fields (al_json al) j) @ [k])"
begin

text \<open>The index of the identifiers, as the records of applications build it.\<close>

definition index_of :: "(string \<times> 'a) list \<Rightarrow> 'a" where
  "index_of kvs = fold (\<lambda>(k, v) j. obj_add al j k v) kvs (jl_new_object (al_json al))"

lemma index_of_snoc: "index_of (kvs @ [(k, v)]) = obj_add al (index_of kvs) k v"
  by (simp add: index_of_def)

lemma index_of_fields:
  "jl_type (al_json al) (index_of kvs) = jtype_object \<and> obj_get al (index_of kvs) = map_of (rev kvs) \<and>
   map fst (jl_fields (al_json al) (index_of kvs)) = rev (remdups (rev (map fst kvs)))"
proof (induction kvs rule: rev_induct)
  case Nil
  show ?case by (simp add: index_of_def new_object fields_new fun_eq_iff)
next
  case (snoc kv kvs)
  obtain k v where kv: "kv = (k, v)" by (cases kv)
  have "fst ` set (jl_fields (al_json al) (index_of kvs)) = fst ` set kvs"
    using arg_cong [OF conjunct2 [OF conjunct2 [OF snoc]], of set] by simp
  with snoc show ?case
    by (auto simp: kv index_of_snoc type_add get_add fields_order fun_eq_iff)
qed

lemma get_no_case_index:
  "get_no_case al (index_of kvs) idt =
     (case map_of (rev kvs) idt of
        Some j \<Rightarrow> Some j
      | None \<Rightarrow> Option.bind (List.find (\<lambda>k. c_strcasecmp_eq k idt) (rev (remdups (rev (map fst kvs))))) (map_of (rev kvs)))"
proof -
  let ?F = "jl_fields (al_json al) (index_of kvs)"
  note f = index_of_fields [of kvs]
  have d: "distinct (map fst ?F)" using f by simp
  then have m: "map_of ?F = map_of (rev kvs)" using f fields_get [of "index_of kvs"] by simp
  have find: "map_option snd (List.find (\<lambda>(k, j). P k) xs) = Option.bind (List.find P (map fst xs)) (map_of xs)"
    if "distinct (map fst xs)" for P :: "string \<Rightarrow> bool" and xs :: "(string \<times> 'a) list"
    using that
  proof (induction xs)
    case (Cons x xs)
    obtain k v where x: "x = (k, v)" by (cases x)
    have "Option.bind (List.find P (map fst xs)) (map_of ((k, v) # xs)) = Option.bind (List.find P (map fst xs)) (map_of xs)"
    proof (cases "List.find P (map fst xs)")
      case (Some q)
      then have "q \<in> set (map fst xs)" by (auto simp: find_Some_iff)
      with Cons.prems x Some show ?thesis by auto
    qed simp
    with Cons x show ?case by (auto simp: fun_upd_def)
  qed simp
  show ?thesis using f find [OF d, of "\<lambda>k. c_strcasecmp_eq k idt"] m by (auto simp: get_no_case_def split: option.splits)
qed

end

interpretation ordered_data: ordered_laws json_array_data
proof
  have obj: "jl_type json_data j = jtype_object \<longleftrightarrow> (\<exists>fs. j = JObj fs)" for j by (cases j) (auto simp: json_data_def)
  have keys: "map fst (set_field k v fs) = (if k \<in> fst ` set fs then map fst fs else map fst fs @ [k])"
    for k and v :: json and fs
  proof (induction fs)
    case (Cons f fs)
    then show ?case by (cases f; cases "fst f = k") auto
  qed simp
  fix j
  assume "jl_type (al_json json_array_data) j = jtype_object"
  then obtain fs where j: "j = JObj fs" using obj by auto
  show "map_of (jl_fields (al_json json_array_data) j) = obj_get json_array_data j"
    by (simp add: j json_data_def fun_eq_iff)
  show "map fst (jl_fields (al_json json_array_data) (obj_add json_array_data j k v)) =
      (if k \<in> fst ` set (jl_fields (al_json json_array_data) j) then map fst (jl_fields (al_json json_array_data) j)
       else map fst (jl_fields (al_json json_array_data) j) @ [k])" for k v
    using keys [of k v fs] by (simp add: j json_data_def)
qed

lemma last_with_map_of:
  "map_option (\<lambda>i. uu_priv (us ! i)) (last_with us idt) = map_of (rev (map (\<lambda>u. (uu_id u, uu_priv u)) us)) idt"
proof (induction us rule: rev_induct)
  case (snoc u us)
  have "List.find (\<lambda>i. uu_id ((us @ [u]) ! i) = idt) (rev [0..<length us]) = List.find (\<lambda>i. uu_id (us ! i) = idt) (rev [0..<length us])"
    by (rule find_cong) (auto simp: nth_append)
  moreover have "i < length us" if "List.find (\<lambda>i. uu_id (us ! i) = idt) (rev [0..<length us]) = Some i" for i
    using that by (auto simp: find_Some_iff dest: nth_mem) (metis atLeastLessThan_iff length_rev nth_mem set_rev set_upt length_upt diff_zero)
  ultimately show ?case using snoc
    by (cases "List.find (\<lambda>i. uu_id (us ! i) = idt) (rev [0..<length us])") (auto simp: last_with_def nth_append)
qed (simp add: last_with_def)

text \<open>The position that is found designates what the database gives.\<close>

lemma find_app_index:
  assumes "ordered_laws al"
  shows "map_option (\<lambda>i. uu_priv (us ! i)) (find_app us idt) =
    get_no_case al (ordered_laws.index_of al (map (\<lambda>u. (uu_id u, uu_priv u)) us)) idt"
proof -
  let ?kvs = "map (\<lambda>u. (uu_id u, uu_priv u)) us"
  have k: "rev (remdups (rev (map fst ?kvs))) = key_order us" by (simp add: key_order_def comp_def)
  note l = last_with_map_of [of us]
  show ?thesis
  proof (cases "last_with us idt")
    case (Some i)
    then show ?thesis
      using l [of idt] unfolding ordered_laws.get_no_case_index [OF assms] k by (auto simp: find_app_def split: option.splits)
  next
    case None
    then have "map_of (rev ?kvs) idt = None" using l [of idt] by simp
    then show ?thesis
      using None l unfolding ordered_laws.get_no_case_index [OF assms] k
      by (cases "List.find (\<lambda>k. c_strcasecmp_eq k idt) (key_order us)") (simp_all add: find_app_def)
  qed
qed

section \<open>Runners\<close>

text \<open>A systemd that knows every unit, with all of them active.\<close>

definition demo_sd :: "(bool, nat) sd_lib" where
  "demo_sd =
     \<lparr>sb_default = (\<lambda>isuser w. (Inr isuser, w)),
      sb_call = (\<lambda>b path iface mth args w. ((0, 0, ''/unit''), Suc w)),
      sb_get_string = (\<lambda>b path iface prop w. ((0, ''active''), Suc w)),
      sb_get_u = (\<lambda>b path iface prop w. ((0, 42), Suc w)),
      sb_list = (\<lambda>b pattern w. ((0, 0, []), w))\<rparr>"

definition demo_sd_state :: "(bool, nat) sd_state" where
  "demo_sd_state = \<lparr>ss_usrbus = None, ss_sysbus = None, ss_errno = 0, ss_mem = [], ss_world = 0\<rparr>"

definition demo_appli :: json where
  "demo_appli = JObj [(''id'', JStr ''app''), (''unit-scope'', JStr ''system''), (''unit-name'', JStr ''a@.service'')]"

definition demo_appli_known :: json where
  "demo_appli_known = JObj [(''id'', JStr ''app''), (''unit-scope'', JStr ''system''), (''unit-name'', JStr ''a@.service''),
     (key_unit_d_path, JObj [(''7'', JStr ''/unit'')])]"

definition demo_uu :: "json udb_unit" where
  "demo_uu = \<lparr>uu_file = (''a@.service'', ''/a@.service'', False), uu_priv = demo_appli, uu_pub = JObj [], uu_id = ''app'', uu_visible = True\<rparr>"

text \<open>C15: The path of the unit of an application for a user is asked to systemd at most once: when it
  was obtained, asking it again gives the same scope and path without any exchange, whatever
  systemd became, and nothing but the record of the paths changed in the description.\<close>

theorem get_basis_once:
  assumes "value_laws vl" and "get_basis vl sb uid appli st = (Some (isuser, dpath), a, st')" and "dpath_recorded_well vl appli"
  shows "same_but_dpath vl appli a \<and> get_basis vl sb' uid a st2 = (Some (isuser, dpath), a, st2)"
  by (rule value_laws.get_basis_again [OF assms])

theorem get_basis_once_witness:
  "get_basis json_value_data demo_sd 7 demo_appli_known demo_sd_state = (Some (False, ''/unit''), demo_appli_known, demo_sd_state)"
proof -
  have "get_basis json_value_data demo_sd 7 demo_appli demo_sd_state =
      (Some (False, ''/unit''), demo_appli_known, demo_sd_state\<lparr>ss_sysbus := Some False, ss_world := 1\<rparr>)" by code_simp
  moreover have "dpath_recorded_well json_value_data demo_appli" by code_simp
  ultimately show ?thesis using get_basis_once [OF value_data.value_laws_axioms] by blast
qed

text \<open>A systemd where the unit of the user 7 runs, another unit is stopped, and the others do not exist.\<close>

definition some_paths :: "bool \<Rightarrow> string \<Rightarrow> string option" where
  "some_paths isuser = [''a@7.service'' \<mapsto> ''/a'', ''b.service'' \<mapsto> ''/b'']"

definition some_pid :: "bool \<Rightarrow> string \<Rightarrow> 32 word" where
  "some_pid isuser dpath = (if dpath = ''/a'' then 42 else 0)"

definition some_state :: "bool \<Rightarrow> string \<Rightarrow> string" where
  "some_state isuser dpath = (if dpath = ''/a'' then ''active'' else ''inactive'')"

definition some_sd :: "(bool, nat) sd_lib" where
  "some_sd =
     \<lparr>sb_default = (\<lambda>isuser w. (Inr isuser, w)),
      sb_call = (\<lambda>b path iface mth args w.
        (case args of [Arg_s name] \<Rightarrow> (case some_paths b name of Some p \<Rightarrow> (0, 0, p) | None \<Rightarrow> (- 2, 0, [])) | _ \<Rightarrow> (- 2, 0, []), Suc w)),
      sb_get_string = (\<lambda>b path iface prop w. ((0, some_state b path), Suc w)),
      sb_get_u = (\<lambda>b path iface prop w. ((0, some_pid b path), Suc w)),
      sb_list = (\<lambda>b pattern w. ((0, 0, []), w))\<rparr>"

interpretation some_sd: runners json_value_data some_sd "\<lambda>isuser. isuser" some_paths some_pid some_state
  by unfold_locales (auto simp: some_sd_def split: option.splits)

definition some_unit :: "string \<Rightarrow> string \<Rightarrow> bool \<Rightarrow> json udb_unit" where
  "some_unit idt uname visible =
     \<lparr>uu_file = (uname, uname, False), uu_priv = JObj [(''id'', JStr idt), (''unit-scope'', JStr ''system''), (''unit-name'', JStr uname)],
      uu_pub = JObj [], uu_id = idt, uu_visible = visible\<rparr>"

definition some_units :: "json udb_unit list" where
  "some_units = [some_unit ''stopped'' ''b.service'' True, some_unit ''app'' ''a@.service'' True, some_unit ''hidden'' ''a@.service'' False,
     some_unit ''lost'' ''c.service'' True]"

text \<open>C17: The list of runners is given, and has exactly one description for each of the queried
  applications that run for the user, in their order: those whose unit, of the scope and of
  the name that the description tells, instantiated for the user when it is parametric, is
  known by systemd, has a main process and is active. The description has the identifier of
  the application, the process that systemd gives as runid and as single process, and the
  state running; hidden applications appear only when all are asked. The memory is available,
  systemd is steady while it is queried and the paths that were recorded are the ones it
  gives.\<close>

theorem afm_urun_list_runners:
  assumes "runners vl sb bus paths main_pid active_state" and "calm bus st" and "uid \<ge> 0"
    and "list_all (\<lambda>u. dpath_current vl paths uid (uu_priv u)) us"
  shows "\<exists>r us' st'. afm_urun_list vl sb us all uid st = (Some r, us', st') \<and>
    list_all2 (\<lambda>i d. \<exists>run. runs vl paths main_pid active_state uid (uu_priv (us ! i)) run \<and> runner_described vl run d)
      (filter (\<lambda>i. (all \<or> uu_visible (us ! i)) \<and> (\<exists>run. runs vl paths main_pid active_state uid (uu_priv (us ! i)) run)) [0..<length us])
      (jl_items (vjson vl) r)"
  by (rule runners.urun_list_calm [OF assms])

theorem afm_urun_list_runners_witness:
  "\<exists>d. fst (afm_urun_list json_value_data some_sd some_units False 7 demo_sd_state) = Some (JArr [d]) \<and>
     runner_described json_value_data (''app'', 42) d"
proof -
  let ?runs = "runs json_value_data some_paths some_pid some_state 7"
  have units: "unit_of json_value_data 7 (uu_priv (some_unit i n v)) b nun \<longleftrightarrow>
      \<not> b \<and> nun = (case parametric_name n ''7'' of Some x \<Rightarrow> x | None \<Rightarrow> n)" for i n v b nun
  proof -
    have "j_read_string_at json_value_data (uu_priv (some_unit i n v)) ''unit-scope'' = Some ''system''"
      "j_read_string_at json_value_data (uu_priv (some_unit i n v)) ''unit-name'' = Some n" "c_decimal 7 = ''7''"
      unfolding some_unit_def by code_simp+
    then show ?thesis by (auto simp: unit_of_def instance_name_iff)
  qed
  have ids: "j_read_string_at json_value_data (uu_priv (some_unit i n v)) ''id'' = Some i" for i n v
    unfolding some_unit_def by code_simp
  have names: "parametric_name ''a@.service'' ''7'' = Some ''a@7.service''" "parametric_name ''b.service'' ''7'' = None"
    "parametric_name ''c.service'' ''7'' = None" by code_simp+
  have pid: "sint (42 :: 32 word) = 42" by simp
  have runs: "?runs (uu_priv (some_unit i ''a@.service'' v)) run \<longleftrightarrow> run = (i, 42)" "\<not> ?runs (uu_priv (some_unit i ''b.service'' v)) run"
    "\<not> ?runs (uu_priv (some_unit i ''c.service'' v)) run" for i v run
    using pid by (auto simp: runs_def units ids names some_paths_def some_pid_def some_state_def prod_eq_iff)
  have "calm (\<lambda>isuser. isuser) demo_sd_state" by (simp add: calm_def demo_sd_state_def)
  moreover have "dpath_current json_value_data some_paths 7 (uu_priv (some_unit i n v))" for i n v
  proof -
    have "jl_get (vjson json_value_data) (uu_priv (some_unit i n v)) key_unit_d_path = None" unfolding some_unit_def by code_simp
    then show ?thesis by (simp add: dpath_current_def dpath_recorded_well_def dpath_known_def)
  qed
  then have "list_all (\<lambda>u. dpath_current json_value_data some_paths 7 (uu_priv u)) some_units" by (simp add: some_units_def)
  ultimately obtain r us' st' where r: "afm_urun_list json_value_data some_sd some_units False 7 demo_sd_state = (Some r, us', st')"
    and l: "list_all2 (\<lambda>i d. \<exists>run. ?runs (uu_priv (some_units ! i)) run \<and> runner_described json_value_data run d)
      (filter (\<lambda>i. (False \<or> uu_visible (some_units ! i)) \<and> (\<exists>run. ?runs (uu_priv (some_units ! i)) run)) [0..<length some_units])
      (jl_items (vjson json_value_data) r)"
    using afm_urun_list_runners [OF some_sd.runners_axioms, of demo_sd_state 7 some_units False] by auto
  have f: "filter (\<lambda>i. (False \<or> uu_visible (some_units ! i)) \<and> (\<exists>run. ?runs (uu_priv (some_units ! i)) run)) [0..<length some_units] = [1]"
  proof -
    have "[0..<length some_units] = [0, 1, 2, 3]" by (simp add: some_units_def upt_rec)
    moreover have "uu_visible (some_unit i n v) = v" for i n v by (simp add: some_unit_def)
    ultimately show ?thesis by (simp add: some_units_def runs)
  qed
  obtain d where d: "jl_items (vjson json_value_data) r = [d]" "runner_described json_value_data (''app'', 42) d"
    using l unfolding f by (auto simp: list_all2_Cons1 some_units_def runs)
  from d(1) have "r = JArr [d]" by (cases r) (auto simp: json_value_data_def json_data_def)
  with r d(2) show ?thesis by simp
qed

text \<open>C16: The wait of a start ends with the first stable state that is seen once the job is done,
  provided that it comes within the 30000 trials; otherwise it ends with a state that is not
  stable, which the start takes as an error.\<close>

theorem wait_state_stable_ends:
  shows "(\<exists>k < trial_count. \<exists>s. stable_turn sb isuser dpath (turns sb isuser dpath k (job, st)) = Some s \<and>
      fst (wait_state_stable sb isuser dpath job st) = s \<and>
      (\<forall>j < k. stable_turn sb isuser dpath (turns sb isuser dpath j (job, st)) = None)) \<or>
    (\<forall>k < trial_count. stable_turn sb isuser dpath (turns sb isuser dpath k (job, st)) = None) \<and>
      fst (wait_state_stable sb isuser dpath job st) \<notin> {SysD_State_Active, SysD_State_Failed, SysD_State_Inactive}"
proof -
  let ?P = "\<lambda>k. stable_turn sb isuser dpath (turns sb isuser dpath k (job, st)) \<noteq> None"
  show ?thesis
  proof (cases "\<exists>k < trial_count. ?P k")
    case True
    then obtain k where k: "k < trial_count" "?P k" by blast
    have least: "?P (LEAST k. ?P k)" by (rule LeastI [of ?P, OF k(2)])
    have "(LEAST k. ?P k) \<le> k" by (rule Least_le [of ?P, OF k(2)])
    with k(1) have bound: "(LEAST k. ?P k) < trial_count" by simp
    from least obtain s where s: "stable_turn sb isuser dpath (turns sb isuser dpath (LEAST k. ?P k) (job, st)) = Some s" by blast
    have before: "stable_turn sb isuser dpath (turns sb isuser dpath j (job, st)) = None" if "j < (LEAST k. ?P k)" for j
      using not_less_Least [OF that] by simp
    have "fst (wait_state_stable sb isuser dpath job st) = s"
      unfolding wait_state_stable_def by (rule wait_trials_stable [OF bound s before])
    with bound s before show ?thesis by blast
  next
    case False
    then have none: "stable_turn sb isuser dpath (turns sb isuser dpath k (job, st)) = None" if "k < trial_count" for k
      using that by blast
    show ?thesis
      unfolding wait_state_stable_def using wait_trials_all [OF none, where state = SysD_State_INVALID] none by simp
  qed
qed

theorem wait_state_stable_ends_witness:
  "fst (wait_state_stable demo_sd False ''/unit'' None demo_sd_state) = SysD_State_Active"
proof -
  have "stable_turn demo_sd False ''/unit'' (turns demo_sd False ''/unit'' 0 (None, demo_sd_state)) = Some SysD_State_Active"
    by code_simp
  moreover have "0 < trial_count" by (simp add: trial_count_def WAIT_JOB_SECONDS_def)
  ultimately show ?thesis
    using wait_state_stable_ends [of demo_sd False "''/unit''" None demo_sd_state] by (metis gr0I option.distinct(1) option.sel)
qed

end
