(* ===== verification/AfmBinding.thy ===== *)
theory AfmBinding
  imports AfmUrun Auth
begin

unbundle bit_operations_syntax

text \<open>
  The API of the framework (\<^verbatim>\<open>src/src/binding/afm-binding.c\<close>): the verbs, the reading and the
  checks of their parameters, the authorisations that the parameters need.

  The binder is a parameter: a request gives the description of its client, its first
  argument as JSON and the answer of the binder for a permission. A verb gives one reply.
  \<open>Reply_undefined\<close> stands for the behaviour of json-c when a null pointer is given as key.
\<close>

section \<open>Requests and replies\<close>

record 'j binding_lib =
  bl_value :: "'j value_lib"
  bl_truth :: "'j \<Rightarrow> bool"

record 'j afb_req =
  ar_client :: "'j option"
  ar_json :: "'j option"
  ar_perm :: "string \<Rightarrow> int"

datatype afb_errno =
    AFB_ERRNO_INTERNAL_ERROR | AFB_ERRNO_INVALID_REQUEST | AFB_ERRNO_FORBIDDEN
  | AFB_ERRNO_OUT_OF_MEMORY | AFB_ERRNO_NO_ITEM | AFB_ERRNO_BAD_STATE

datatype 'j afb_reply = Reply_json "'j option" | Reply_error afb_errno | Reply_undefined

text \<open>
  The state of the binding: the database, the sequence of its units whose private
  descriptions are completed by the starts, the exchanges with systemd, and the number of
  events that were broadcast.
\<close>

record ('j, 'b, 's) binding =
  bd_udb :: "'j afm_udb"
  bd_units :: "'j udb_unit list"
  bd_sd :: "('b, 's) sd_state"
  bd_events :: nat

section \<open>Permissions\<close>

definition REDPESK_PREFIX :: string where "REDPESK_PREFIX = ''urn:redpesk:permission:afm:system:''"
definition AGL_PREFIX :: string where "AGL_PREFIX = ''urn:AGL:permission:afm:system:''"

text \<open>The option of the build \<^verbatim>\<open>ADD_AGL_PERMISSIONS\<close> is set by default.\<close>

definition DEF_PERM :: "string \<Rightarrow> afb_auth" where
  "DEF_PERM suf = afb_auth_Or (afb_auth_Permission (REDPESK_PREFIX @ suf)) (afb_auth_Permission (AGL_PREFIX @ suf))"

definition auth_perm_view_all :: afb_auth where "auth_perm_view_all = DEF_PERM ''view-all''"
definition auth_perm_set_uid :: afb_auth where "auth_perm_set_uid = DEF_PERM ''set-uid''"
definition auth_detail :: afb_auth where "auth_detail = afb_auth_Or (DEF_PERM ''widget'') (DEF_PERM ''widget:detail'')"
definition auth_start :: afb_auth where "auth_start = afb_auth_Or (DEF_PERM ''widget'') (DEF_PERM ''widget:start'')"
definition auth_state :: afb_auth where "auth_state = afb_auth_Or (DEF_PERM ''runner'') (DEF_PERM ''runner:state'')"
definition auth_kill :: afb_auth where "auth_kill = afb_auth_Or (DEF_PERM ''runner'') (DEF_PERM ''runner:kill'')"

section \<open>Parameters\<close>

definition Param_UID :: "32 word" where "Param_UID = 1"
definition Param_All :: "32 word" where "Param_All = 2"
definition Param_Id :: "32 word" where "Param_Id = 4"
definition Param_RunId :: "32 word" where "Param_RunId = 8"

datatype param_status =
    no_error | error_bad_request | error_not_found | error_not_running | error_forbidden | error_out_of_memory

record params =
  pa_status :: param_status
  pa_required :: "32 word"
  pa_found :: "32 word"
  pa_uid :: int
  pa_runid :: int
  pa_id :: "string option"

definition NOBODY :: int where "NOBODY = 99"

definition get_req_uid :: "'j binding_lib \<Rightarrow> 'j afb_req \<Rightarrow> int" where
  "get_req_uid bl req =
     (case Option.bind (ar_client req) (\<lambda>c. jl_get (vjson (bl_value bl)) c ''uid'') of
        None \<Rightarrow> NOBODY
      | Some juid \<Rightarrow>
          (case vl_int (bl_value bl) juid of
             None \<Rightarrow> NOBODY
           | Some val \<Rightarrow> if val \<ge> 0 \<and> val \<le> 65534 then val else NOBODY))"

text \<open>The parts of \<^verbatim>\<open>extract_params\<close> for an object, in their order.\<close>

definition extract_uid :: "'j binding_lib \<Rightarrow> 'j \<Rightarrow> params \<Rightarrow> params" where
  "extract_uid bl args p =
     (case jl_get (vjson (bl_value bl)) args ''uid'' of
        None \<Rightarrow> p
      | Some obj \<Rightarrow>
          (case vl_int (bl_value bl) obj of
             None \<Rightarrow> p\<lparr>pa_status := error_bad_request\<rparr>
           | Some i \<Rightarrow>
               if i < 0 then p\<lparr>pa_status := error_bad_request\<rparr>
               else if pa_uid p \<noteq> i then p\<lparr>pa_uid := i, pa_found := pa_found p OR Param_UID\<rparr>
               else p))"

definition extract_all :: "'j binding_lib \<Rightarrow> 32 word \<Rightarrow> 'j \<Rightarrow> params \<Rightarrow> params" where
  "extract_all bl expected args p =
     (if expected AND Param_All = 0 then p
      else case jl_get (vjson (bl_value bl)) args ''all'' of
             None \<Rightarrow> p
           | Some obj \<Rightarrow> if bl_truth bl obj then p\<lparr>pa_found := pa_found p OR Param_All\<rparr> else p)"

definition extract_id :: "'j binding_lib \<Rightarrow> 32 word \<Rightarrow> 'j \<Rightarrow> params \<Rightarrow> params" where
  "extract_id bl expected args p =
     (if expected AND (Param_Id OR Param_RunId) = 0 then p
      else case jl_get (vjson (bl_value bl)) args ''id'' of
             None \<Rightarrow> p
           | Some obj \<Rightarrow> p\<lparr>pa_id := jl_string (vjson (bl_value bl)) obj, pa_found := pa_found p OR Param_Id\<rparr>)"

definition extract_runid :: "'j binding_lib \<Rightarrow> 32 word \<Rightarrow> 'j \<Rightarrow> params \<Rightarrow> params" where
  "extract_runid bl expected args p =
     (if expected AND Param_RunId = 0 then p
      else case jl_get (vjson (bl_value bl)) args ''runid'' of
             None \<Rightarrow> p
           | Some obj \<Rightarrow>
               (case vl_int (bl_value bl) obj of
                  None \<Rightarrow> p\<lparr>pa_status := error_bad_request\<rparr>
                | Some i \<Rightarrow> p\<lparr>pa_runid := i, pa_found := pa_found p OR Param_RunId\<rparr>))"

definition extract_params :: "'j binding_lib \<Rightarrow> 'j afb_req \<Rightarrow> 32 word \<Rightarrow> 32 word \<Rightarrow> params" where
  "extract_params bl req required optional =
     (let expected = optional OR required;
          p = \<lparr>pa_status = no_error, pa_required = required, pa_found = 0, pa_uid = get_req_uid bl req, pa_runid = 0, pa_id = None\<rparr>
      in case ar_json req of
           None \<Rightarrow> p
         | Some args \<Rightarrow>
             (case vl_int (bl_value bl) args of
                Some i \<Rightarrow> if expected AND Param_RunId \<noteq> 0 then p\<lparr>pa_runid := i, pa_found := Param_RunId\<rparr> else p
              | None \<Rightarrow>
                  if jl_type (vjson (bl_value bl)) args = jtype_string then
                    (if expected AND (Param_Id OR Param_RunId) \<noteq> 0
                     then p\<lparr>pa_id := jl_string (vjson (bl_value bl)) args, pa_found := Param_Id\<rparr> else p)
                  else if jl_type (vjson (bl_value bl)) args = jtype_object then
                    extract_runid bl expected args (extract_id bl expected args (extract_all bl expected args (extract_uid bl args p)))
                  else p))"

section \<open>Checks\<close>

type_synonym ('j, 'b, 's) action = "params \<Rightarrow> ('j, 'b, 's) binding \<Rightarrow> 'j afb_reply \<times> ('j, 'b, 's) binding"

definition status_reply :: "param_status \<Rightarrow> 'j afb_reply" where
  "status_reply s = Reply_error
     (case s of
        error_not_found \<Rightarrow> AFB_ERRNO_NO_ITEM
      | error_not_running \<Rightarrow> AFB_ERRNO_BAD_STATE
      | error_forbidden \<Rightarrow> AFB_ERRNO_FORBIDDEN
      | error_out_of_memory \<Rightarrow> AFB_ERRNO_OUT_OF_MEMORY
      | _ \<Rightarrow> AFB_ERRNO_INVALID_REQUEST)"

definition check_final :: "('j, 'b, 's) action \<Rightarrow> params \<Rightarrow> ('j, 'b, 's) binding \<Rightarrow> 'j afb_reply \<times> ('j, 'b, 's) binding" where
  "check_final action p bd =
     (if pa_status p = no_error \<and> pa_required p AND pa_found p = pa_required p then action p bd
      else (status_reply (pa_status p), bd))"

definition check_runid ::
  "'j binding_lib \<Rightarrow> ('b, 's) sd_lib \<Rightarrow> ('j, 'b, 's) action \<Rightarrow> params \<Rightarrow> ('j, 'b, 's) binding \<Rightarrow> 'j afb_reply \<times> ('j, 'b, 's) binding" where
  "check_runid bl sb action p bd =
     (if pa_status p = no_error \<and> pa_required p AND Param_RunId \<noteq> 0 \<and>
         pa_found p AND (Param_RunId OR Param_Id) = Param_Id
      then case pa_id p of
             None \<Rightarrow> (Reply_undefined, bd)
           | Some idt \<Rightarrow>
               let (i, us, sd) = afm_urun_search_runid (bl_value bl) sb (bd_units bd) idt (pa_uid p) (bd_sd bd);
                   bd' = bd\<lparr>bd_units := us, bd_sd := sd\<rparr>
               in check_final action
                    (if i < 0 then p\<lparr>pa_status := if ss_errno sd = ESRCH then error_not_running else error_not_found\<rparr>
                     else p\<lparr>pa_runid := i, pa_found := pa_found p OR Param_RunId\<rparr>) bd'
      else check_final action p bd)"

text \<open>The callback of the check is called with the status that the check gives.\<close>

definition has_auth_cb :: "int \<Rightarrow> params \<Rightarrow> params" where
  "has_auth_cb status p =
     (if status = - ENOMEM then p\<lparr>pa_status := error_out_of_memory\<rparr>
      else if status \<le> 0 then p\<lparr>pa_status := error_forbidden\<rparr> else p)"

definition has_auth :: "'j afb_req \<Rightarrow> afb_auth \<Rightarrow> params \<Rightarrow> ('j, 'b, 's) binding \<Rightarrow> params \<times> ('j, 'b, 's) binding" where
  "has_auth req auth p bd =
     (let (status, m) = auth_check (ss_mem (bd_sd bd)) (ar_perm req) auth
      in (has_auth_cb status p, bd\<lparr>bd_sd := (bd_sd bd)\<lparr>ss_mem := m\<rparr>\<rparr>))"

definition check_permission_all ::
  "'j binding_lib \<Rightarrow> ('b, 's) sd_lib \<Rightarrow> 'j afb_req \<Rightarrow> ('j, 'b, 's) action \<Rightarrow> params \<Rightarrow> ('j, 'b, 's) binding \<Rightarrow> 'j afb_reply \<times> ('j, 'b, 's) binding" where
  "check_permission_all bl sb req action p bd =
     (if pa_status p \<noteq> no_error \<or> pa_found p AND Param_All = 0 then check_runid bl sb action p bd
      else let (p', bd') = has_auth req auth_perm_view_all p bd in check_runid bl sb action p' bd')"

definition check_permission_uid ::
  "'j binding_lib \<Rightarrow> ('b, 's) sd_lib \<Rightarrow> 'j afb_req \<Rightarrow> ('j, 'b, 's) action \<Rightarrow> params \<Rightarrow> ('j, 'b, 's) binding \<Rightarrow> 'j afb_reply \<times> ('j, 'b, 's) binding" where
  "check_permission_uid bl sb req action p bd =
     (if pa_status p \<noteq> no_error \<or> pa_found p AND Param_UID = 0 then check_permission_all bl sb req action p bd
      else let (p', bd') = has_auth req auth_perm_set_uid p bd in check_permission_all bl sb req action p' bd')"

definition with_params ::
  "'j binding_lib \<Rightarrow> ('b, 's) sd_lib \<Rightarrow> 'j afb_req \<Rightarrow> 32 word \<Rightarrow> 32 word \<Rightarrow> ('j, 'b, 's) action \<Rightarrow> ('j, 'b, 's) binding \<Rightarrow>
   'j afb_reply \<times> ('j, 'b, 's) binding" where
  "with_params bl sb req required optional action bd =
     (let (ok, m) = c_alloc (ss_mem (bd_sd bd)); bd' = bd\<lparr>bd_sd := (bd_sd bd)\<lparr>ss_mem := m\<rparr>\<rparr> in
      if \<not> ok then (Reply_error AFB_ERRNO_OUT_OF_MEMORY, bd')
      else check_permission_uid bl sb req action (extract_params bl req required optional) bd')"

section \<open>Verbs\<close>

definition a_runnables :: "('j, 'b, 's) action" where
  "a_runnables p bd = (Reply_json (afm_udb_applications_public (bd_udb bd) (pa_found p AND Param_All \<noteq> 0)), bd)"

definition a_detail :: "'j binding_lib \<Rightarrow> ('j, 'b, 's) action" where
  "a_detail bl p bd =
     (case pa_id p of
        None \<Rightarrow> (Reply_undefined, bd)
      | Some idt \<Rightarrow>
          (case afm_udb_get_application_public (vl_array (bl_value bl)) (bd_udb bd) idt of
             Some resp \<Rightarrow> (Reply_json (Some resp), bd)
           | None \<Rightarrow> (Reply_error AFB_ERRNO_NO_ITEM, bd)))"

text \<open>The start of an application, and what is done with its runid.\<close>

definition start_app ::
  "'j binding_lib \<Rightarrow> ('j \<Rightarrow> int \<Rightarrow> ('b, 's) sd_state \<Rightarrow> int \<times> 'j \<times> ('b, 's) sd_state) \<Rightarrow>
   (int \<Rightarrow> ('j, 'b, 's) binding \<Rightarrow> 'j afb_reply \<times> ('j, 'b, 's) binding) \<Rightarrow> ('j, 'b, 's) action" where
  "start_app bl start done p bd =
     (case pa_id p of
        None \<Rightarrow> (Reply_undefined, bd)
      | Some idt \<Rightarrow>
          (case find_app (bd_units bd) idt of
             None \<Rightarrow> (Reply_error AFB_ERRNO_NO_ITEM, bd)
           | Some i \<Rightarrow>
               let (runid, appli, sd) = start (uu_priv (bd_units bd ! i)) (pa_uid p) (bd_sd bd);
                   bd' = bd\<lparr>bd_units := put_priv (bd_units bd) i appli, bd_sd := sd\<rparr>
               in if runid < 0 then (Reply_error AFB_ERRNO_INTERNAL_ERROR, bd') else done runid bd'))"

definition a_start :: "'j binding_lib \<Rightarrow> ('b, 's) sd_lib \<Rightarrow> ('j, 'b, 's) action" where
  "a_start bl sb p bd =
     start_app bl (afm_urun_start (bl_value bl) sb)
       (\<lambda>runid bd. if runid = 0 then (Reply_json None, bd)
          else let (ok, m) = c_alloc (ss_mem (bd_sd bd))
               in (Reply_json (if ok then Some (vl_new_int (bl_value bl) runid) else None), bd\<lparr>bd_sd := (bd_sd bd)\<lparr>ss_mem := m\<rparr>\<rparr>))
       p bd"

definition a_once :: "'j binding_lib \<Rightarrow> ('b, 's) sd_lib \<Rightarrow> ('j, 'b, 's) action" where
  "a_once bl sb p bd =
     start_app bl (afm_urun_once (bl_value bl) sb)
       (\<lambda>runid bd. if runid = 0 then (Reply_json None, bd)
          else let (d, us, sd) = afm_urun_state (bl_value bl) sb (bd_units bd) runid (pa_uid p) (bd_sd bd)
               in (Reply_json d, bd\<lparr>bd_units := us, bd_sd := sd\<rparr>))
       p bd"

definition reply_status :: "'j binding_lib \<Rightarrow> int \<Rightarrow> ('b, 's) sd_state \<Rightarrow> ('j, 'b, 's) binding \<Rightarrow> 'j afb_reply \<times> ('j, 'b, 's) binding" where
  "reply_status bl status sd bd =
     (if status \<ge> 0
      then let (ok, m) = c_alloc (ss_mem sd)
           in (Reply_json (if ok then Some (vl_new_bool (bl_value bl) True) else None), bd\<lparr>bd_sd := sd\<lparr>ss_mem := m\<rparr>\<rparr>)
      else (Reply_error AFB_ERRNO_INTERNAL_ERROR, bd\<lparr>bd_sd := sd\<rparr>))"

definition a_pause :: "'j binding_lib \<Rightarrow> ('j, 'b, 's) action" where
  "a_pause bl p bd = (let (status, sd) = afm_urun_pause (pa_runid p) (pa_uid p) (bd_sd bd) in reply_status bl status sd bd)"

definition a_resume :: "'j binding_lib \<Rightarrow> ('j, 'b, 's) action" where
  "a_resume bl p bd = (let (status, sd) = afm_urun_resume (pa_runid p) (pa_uid p) (bd_sd bd) in reply_status bl status sd bd)"

definition a_terminate :: "'j binding_lib \<Rightarrow> ('b, 's) sd_lib \<Rightarrow> ('j, 'b, 's) action" where
  "a_terminate bl sb p bd =
     (let (status, sd) = afm_urun_terminate sb (pa_runid p) (pa_uid p) (bd_sd bd) in reply_status bl status sd bd)"

definition a_runners :: "'j binding_lib \<Rightarrow> ('b, 's) sd_lib \<Rightarrow> ('j, 'b, 's) action" where
  "a_runners bl sb p bd =
     (let (r, us, sd) = afm_urun_list (bl_value bl) sb (bd_units bd) (pa_found p AND Param_All \<noteq> 0) (pa_uid p) (bd_sd bd)
      in (Reply_json r, bd\<lparr>bd_units := us, bd_sd := sd\<rparr>))"

definition a_state :: "'j binding_lib \<Rightarrow> ('b, 's) sd_lib \<Rightarrow> ('j, 'b, 's) action" where
  "a_state bl sb p bd =
     (let (r, us, sd) = afm_urun_state (bl_value bl) sb (bd_units bd) (pa_runid p) (pa_uid p) (bd_sd bd);
          bd' = bd\<lparr>bd_units := us, bd_sd := sd\<rparr>
      in case r of Some d \<Rightarrow> (Reply_json (Some d), bd') | None \<Rightarrow> (Reply_error AFB_ERRNO_INTERNAL_ERROR, bd'))"

datatype verb = v_runnables | v_detail | v_start | v_once | v_terminate | v_pause | v_resume | v_runners | v_state

text \<open>The table of verbs: what the binder requires before it calls the verb, and the callbacks.\<close>

fun verb_auth :: "verb \<Rightarrow> afb_auth" where
  "verb_auth v_runnables = auth_detail"
| "verb_auth v_detail = auth_detail"
| "verb_auth v_start = auth_start"
| "verb_auth v_once = auth_start"
| "verb_auth v_terminate = auth_kill"
| "verb_auth v_pause = auth_kill"
| "verb_auth v_resume = auth_kill"
| "verb_auth v_runners = auth_state"
| "verb_auth v_state = auth_state"

fun verb_params :: "verb \<Rightarrow> 32 word \<times> 32 word" where
  "verb_params v_runnables = (0, Param_All)"
| "verb_params v_detail = (Param_Id, 0)"
| "verb_params v_start = (Param_Id, 0)"
| "verb_params v_once = (Param_Id, 0)"
| "verb_params v_terminate = (Param_RunId, 0)"
| "verb_params v_pause = (Param_RunId, 0)"
| "verb_params v_resume = (Param_RunId, 0)"
| "verb_params v_runners = (0, Param_All)"
| "verb_params v_state = (Param_RunId, 0)"

fun verb_action :: "'j binding_lib \<Rightarrow> ('b, 's) sd_lib \<Rightarrow> verb \<Rightarrow> ('j, 'b, 's) action" where
  "verb_action bl sb v_runnables = a_runnables"
| "verb_action bl sb v_detail = a_detail bl"
| "verb_action bl sb v_start = a_start bl sb"
| "verb_action bl sb v_once = a_once bl sb"
| "verb_action bl sb v_terminate = a_terminate bl sb"
| "verb_action bl sb v_pause = a_pause bl"
| "verb_action bl sb v_resume = a_resume bl"
| "verb_action bl sb v_runners = a_runners bl sb"
| "verb_action bl sb v_state = a_state bl sb"

definition call_verb ::
  "'j binding_lib \<Rightarrow> ('b, 's) sd_lib \<Rightarrow> 'j afb_req \<Rightarrow> verb \<Rightarrow> ('j, 'b, 's) binding \<Rightarrow> 'j afb_reply \<times> ('j, 'b, 's) binding" where
  "call_verb bl sb req v bd = with_params bl sb req (fst (verb_params v)) (snd (verb_params v)) (verb_action bl sb v) bd"

section \<open>Initialisation and updates\<close>

text \<open>The units of a database, from the lists of its descriptions.\<close>

definition unit_of :: "'j value_lib \<Rightarrow> 'j \<Rightarrow> 'j \<Rightarrow> 'j udb_unit" where
  "unit_of vl priv pub =
     \<lparr>uu_file = (or_default (j_read_string_at vl priv ''unit-name'') [], or_default (j_read_string_at vl priv ''unit-path'') [],
                 j_read_string_at vl priv ''unit-scope'' = Some ''user''),
      uu_priv = priv, uu_pub = pub,
      uu_id = (case jl_get (vjson vl) pub ''id'' of None \<Rightarrow> [] | Some jid \<Rightarrow> the (jl_string (vjson vl) jid)),
      uu_visible = is_visible (vl_array vl) priv\<rparr>"

definition units_of :: "'j value_lib \<Rightarrow> 'j afm_udb \<Rightarrow> 'j udb_unit list" where
  "units_of vl db =
     (case applications db of
        None \<Rightarrow> []
      | Some a \<Rightarrow> map2 (unit_of vl) (jl_items (vjson vl) (as_all (privates a))) (jl_items (vjson vl) (as_all (publics a))))"

text \<open>The signal SIGHUP: the status of the update is not looked at.\<close>

definition onsighup :: "'j binding_lib \<Rightarrow> udb_env \<Rightarrow> ('j, 'b, 's) binding \<Rightarrow> ('j, 'b, 's) binding" where
  "onsighup bl env bd =
     (let (rc, db, m) = afm_udb_update (vl_array (bl_value bl)) env (ss_mem (bd_sd bd)) (bd_udb bd);
          sd = (bd_sd bd)\<lparr>ss_mem := m\<rparr>
      in if rc < 0 then bd\<lparr>bd_sd := sd, bd_events := Suc (bd_events bd)\<rparr>
         else bd\<lparr>bd_udb := db, bd_units := units_of (bl_value bl) db, bd_sd := sd, bd_events := Suc (bd_events bd)\<rparr>)"

text \<open>The creation of the event is left to the binder.\<close>

definition binding_init :: "'j binding_lib \<Rightarrow> udb_env \<Rightarrow> ('b, 's) sd_state \<Rightarrow> ('j, 'b, 's) binding option" where
  "binding_init bl env sd =
     (case afm_udb_create (vl_array (bl_value bl)) env (ss_mem sd) True False (Some ''afm-'') of
        (None, m) \<Rightarrow> None
      | (Some db, m) \<Rightarrow>
          Some \<lparr>bd_udb = db, bd_units = units_of (bl_value bl) db, bd_sd = sd\<lparr>ss_mem := m\<rparr>, bd_events = 0\<rparr>)"

section \<open>Authorisations of the actions\<close>

definition granted :: "'j afb_req \<Rightarrow> afb_auth \<Rightarrow> bool" where
  "granted req auth \<longleftrightarrow> auth_holds (\<lambda>p. ar_perm req p > 0) auth"

text \<open>The parameters that a client may use: its own user, or any with set-uid; the flag \<open>all\<close> with view-all.\<close>

definition permitted :: "'j binding_lib \<Rightarrow> 'j afb_req \<Rightarrow> params \<Rightarrow> bool" where
  "permitted bl req p \<longleftrightarrow>
     (pa_uid p = get_req_uid bl req \<or> granted req auth_perm_set_uid) \<and>
     (pa_found p AND Param_All = 0 \<or> granted req auth_perm_view_all)"

text \<open>What the checks of the permissions keep: the parameters but their status, the process and the marks of them.\<close>

definition uid_marked :: "'j binding_lib \<Rightarrow> 'j afb_req \<Rightarrow> params \<Rightarrow> bool" where
  "uid_marked bl req p \<longleftrightarrow> pa_found p AND Param_UID \<noteq> 0 \<or> pa_uid p = get_req_uid bl req"

lemmas param_defs = Param_UID_def Param_All_def Param_Id_def Param_RunId_def

lemma extract_params_marked:
  "uid_marked bl req (extract_params bl req required optional) \<and> pa_required (extract_params bl req required optional) = required"
  by (auto simp: extract_params_def extract_runid_def extract_id_def extract_all_def extract_uid_def uid_marked_def param_defs Let_def
           word_ao_dist split: option.splits if_splits)

lemma has_auth_sound:
  assumes "has_auth req auth p bd = (p', bd')" "pa_status p' = no_error"
  shows "p' = p \<and> granted req auth"
proof -
  obtain status m where c: "auth_check (ss_mem (bd_sd bd)) (ar_perm req) auth = (status, m)" by fastforce
  have "status > 0" "p' = p" using assms c by (auto simp: has_auth_def has_auth_cb_def split: if_splits)
  then show ?thesis using auth_check_sound [of "ss_mem (bd_sd bd)" "ar_perm req" auth] c by (simp add: granted_def)
qed

text \<open>
  What may happen before an action: only memory is used, or the runner of an application is also searched, for the user of the
  parameters.
\<close>

definition mem_only :: "('j, 'b, 's) binding \<Rightarrow> ('j, 'b, 's) binding \<Rightarrow> bool" where
  "mem_only bd bd' \<longleftrightarrow> (\<exists>m. bd' = bd\<lparr>bd_sd := (bd_sd bd)\<lparr>ss_mem := m\<rparr>\<rparr>)"

definition searched ::
  "'j binding_lib \<Rightarrow> ('b, 's) sd_lib \<Rightarrow> params \<Rightarrow> ('j, 'b, 's) binding \<Rightarrow> int \<Rightarrow> ('j, 'b, 's) binding \<Rightarrow> bool" where
  "searched bl sb p bd i bd' \<longleftrightarrow>
     (\<exists>bd0 idt us sd. mem_only bd bd0 \<and> pa_id p = Some idt \<and>
        afm_urun_search_runid (bl_value bl) sb (bd_units bd0) idt (pa_uid p) (bd_sd bd0) = (i, us, sd) \<and>
        bd' = bd0\<lparr>bd_units := us, bd_sd := sd\<rparr>)"

text \<open>
  The action is performed, on the parameters of the request, that are permitted and complete, with the runner that was
  searched; or the reply is an error, or undefined, and nothing more was done.
\<close>

definition performed ::
  "'j binding_lib \<Rightarrow> ('b, 's) sd_lib \<Rightarrow> 'j afb_req \<Rightarrow> params \<Rightarrow> ('j, 'b, 's) action \<Rightarrow> ('j, 'b, 's) binding \<Rightarrow>
   'j afb_reply \<times> ('j, 'b, 's) binding \<Rightarrow> bool" where
  "performed bl sb req x action bd out \<longleftrightarrow>
     (\<exists>p bd'. permitted bl req x \<and> pa_status p = no_error \<and> pa_required x AND pa_found p = pa_required x \<and> out = action p bd' \<and>
        (p = x \<and> mem_only bd bd' \<or>
         (\<exists>i. searched bl sb x bd i bd' \<and> p = x\<lparr>pa_runid := i, pa_found := pa_found x OR Param_RunId\<rparr>)))"

definition refused ::
  "'j binding_lib \<Rightarrow> ('b, 's) sd_lib \<Rightarrow> 'j afb_req \<Rightarrow> params \<Rightarrow> ('j, 'b, 's) binding \<Rightarrow> 'j afb_reply \<times> ('j, 'b, 's) binding \<Rightarrow> bool" where
  "refused bl sb req x bd out \<longleftrightarrow>
     ((\<exists>e. fst out = Reply_error e) \<or> fst out = Reply_undefined) \<and>
     (mem_only bd (snd out) \<or> permitted bl req x \<and> (\<exists>i. searched bl sb x bd i (snd out)))"

lemma mem_only_refl [simp]: "mem_only bd bd"
  unfolding mem_only_def by (rule exI [of _ "ss_mem (bd_sd bd)"]) simp

lemma mem_only_step: "mem_only bd0 bd \<Longrightarrow> mem_only bd0 (bd\<lparr>bd_sd := (bd_sd bd)\<lparr>ss_mem := m\<rparr>\<rparr>)"
  unfolding mem_only_def by auto

lemma has_auth_effect: "has_auth req auth p bd = (p', bd') \<Longrightarrow> mem_only bd0 bd \<Longrightarrow> mem_only bd0 bd'"
  by (auto simp: has_auth_def mem_only_step split: prod.splits)

lemma check_final_refused:
  "mem_only bd0 bd \<Longrightarrow> pa_status p \<noteq> no_error \<Longrightarrow> refused bl sb req x bd0 (check_final action p bd)"
  by (simp add: check_final_def refused_def status_reply_def)

lemma check_final_outcome:
  assumes "permitted bl req x" and "p = x \<and> mem_only bd0 bd \<or>
      searched bl sb x bd0 i bd \<and> p = x\<lparr>pa_runid := i, pa_found := pa_found x OR Param_RunId\<rparr>"
  shows "performed bl sb req x action bd0 (check_final action p bd) \<or> refused bl sb req x bd0 (check_final action p bd)"
proof (cases "pa_status p = no_error \<and> pa_required p AND pa_found p = pa_required p")
  case True
  moreover have "pa_required p = pa_required x" using assms(2) by auto
  ultimately have "performed bl sb req x action bd0 (check_final action p bd)"
    using assms unfolding performed_def by (intro exI [of _ p] exI [of _ bd]) (auto simp: check_final_def)
  then show ?thesis ..
next
  case False
  then have "refused bl sb req x bd0 (check_final action p bd)"
    using assms by (auto simp: check_final_def refused_def status_reply_def)
  then show ?thesis ..
qed

lemma check_runid_refused:
  "mem_only bd0 bd \<Longrightarrow> pa_status p \<noteq> no_error \<Longrightarrow> refused bl sb req x bd0 (check_runid bl sb action p bd)"
  by (simp add: check_runid_def check_final_refused)

lemma check_runid_outcome:
  assumes "permitted bl req x" "mem_only bd0 bd"
  shows "performed bl sb req x action bd0 (check_runid bl sb action x bd) \<or> refused bl sb req x bd0 (check_runid bl sb action x bd)"
proof (cases "pa_status x = no_error \<and> pa_required x AND Param_RunId \<noteq> 0 \<and> pa_found x AND (Param_RunId OR Param_Id) = Param_Id")
  case False
  then have "check_runid bl sb action x bd = check_final action x bd" by (auto simp: check_runid_def)
  with check_final_outcome [OF assms(1) disjI1 [OF conjI [OF refl assms(2)]], of sb action] show ?thesis by simp
next
  case True
  show ?thesis
  proof (cases "pa_id x")
    case None
    with True assms(2) show ?thesis by (simp add: check_runid_def refused_def)
  next
    case (Some idt)
    obtain i us sd where r: "afm_urun_search_runid (bl_value bl) sb (bd_units bd) idt (pa_uid x) (bd_sd bd) = (i, us, sd)"
      by (metis prod_cases3)
    let ?bd = "bd\<lparr>bd_units := us, bd_sd := sd\<rparr>"
    have s: "searched bl sb x bd0 i ?bd" using assms(2) Some r by (auto simp: searched_def)
    show ?thesis
    proof (cases "i < 0")
      case True
      with s assms(1) \<open>pa_status x = no_error \<and> _\<close> Some r show ?thesis
        by (auto simp: check_runid_def check_final_def refused_def status_reply_def)
    next
      case False
      with \<open>pa_status x = no_error \<and> _\<close> Some r
      have "check_runid bl sb action x bd = check_final action (x\<lparr>pa_runid := i, pa_found := pa_found x OR Param_RunId\<rparr>) ?bd"
        by (simp add: check_runid_def)
      with check_final_outcome [OF assms(1), of "x\<lparr>pa_runid := i, pa_found := pa_found x OR Param_RunId\<rparr>" bd0 ?bd sb i action] s
      show ?thesis by simp
    qed
  qed
qed

lemma check_permission_all_outcome:
  assumes "p = x \<and> (pa_uid x = get_req_uid bl req \<or> granted req auth_perm_set_uid) \<or> pa_status p \<noteq> no_error" "mem_only bd0 bd"
  shows "performed bl sb req x action bd0 (check_permission_all bl sb req action p bd) \<or>
    refused bl sb req x bd0 (check_permission_all bl sb req action p bd)"
proof (cases "pa_status p = no_error \<and> pa_found p AND Param_All \<noteq> 0")
  case False
  then have e: "check_permission_all bl sb req action p bd = check_runid bl sb action p bd" by (auto simp: check_permission_all_def)
  show ?thesis
  proof (cases "pa_status p = no_error")
    case True
    with False assms(1) have "p = x" "permitted bl req x" by (auto simp: permitted_def)
    with check_runid_outcome [OF this(2) assms(2)] e show ?thesis by simp
  next
    case False
    with check_runid_refused [OF assms(2) False] e show ?thesis by simp
  qed
next
  case True
  obtain p' bd' where h: "has_auth req auth_perm_view_all p bd = (p', bd')" by fastforce
  then have e: "check_permission_all bl sb req action p bd = check_runid bl sb action p' bd'"
    using True by (simp add: check_permission_all_def)
  note m = has_auth_effect [OF h assms(2)]
  show ?thesis
  proof (cases "pa_status p' = no_error")
    case True
    with has_auth_sound [OF h] assms(1) have "p' = x" "permitted bl req x" by (auto simp: permitted_def)
    with check_runid_outcome [OF this(2) m] e show ?thesis by simp
  next
    case False
    with check_runid_refused [OF m False] e show ?thesis by simp
  qed
qed

lemma with_params_outcome:
  assumes "x = extract_params bl req required optional"
  shows "performed bl sb req x action bd (with_params bl sb req required optional action bd) \<or>
    refused bl sb req x bd (with_params bl sb req required optional action bd)"
proof -
  obtain ok m where m: "c_alloc (ss_mem (bd_sd bd)) = (ok, m)" by fastforce
  let ?bd = "bd\<lparr>bd_sd := (bd_sd bd)\<lparr>ss_mem := m\<rparr>\<rparr>"
  have same: "mem_only bd ?bd" by (simp add: mem_only_step)
  have "performed bl sb req x action bd (check_permission_uid bl sb req action x ?bd) \<or>
    refused bl sb req x bd (check_permission_uid bl sb req action x ?bd)"
  proof (cases "pa_status x \<noteq> no_error \<or> pa_found x AND Param_UID = 0")
    case True
    then have "check_permission_uid bl sb req action x ?bd = check_permission_all bl sb req action x ?bd"
      by (simp add: check_permission_uid_def)
    with check_permission_all_outcome [OF _ same, of x x] True extract_params_marked [of bl req required optional]
    show ?thesis by (auto simp: uid_marked_def assms)
  next
    case False
    obtain p' bd' where h: "has_auth req auth_perm_set_uid x ?bd = (p', bd')" by fastforce
    then have "check_permission_uid bl sb req action x ?bd = check_permission_all bl sb req action p' bd'"
      using False by (simp add: check_permission_uid_def)
    with check_permission_all_outcome [OF _ has_auth_effect [OF h same], of p' x] has_auth_sound [OF h]
    show ?thesis by auto
  qed
  with m same show ?thesis by (cases ok) (auto simp: with_params_def Let_def assms refused_def)
qed

section \<open>Verbs and their callers\<close>

text \<open>C13: Whatever the verb, the request and the state, either the action of the verb is performed, on the parameters of
  the request and with all those that it requires, or the reply is an error or undefined. The action is only performed
  for the user of the client, or when the permission set-uid is granted, and with the flag \<open>all\<close> only when the
  permission view-all is granted. Before the action, and when it is not performed, memory is used and nothing else is done,
  but for the search of the runner of the application that the request names, which is made for permitted
  parameters only: a request that is not permitted has no other effect than its error. The
  flag \<open>all\<close> is all that view-all guards: a verb that gets the identifier of a hidden application acts on it without that permission.\<close>

theorem call_verb_allowed:
  "performed bl sb req (extract_params bl req (fst (verb_params v)) (snd (verb_params v))) (verb_action bl sb v) bd (call_verb bl sb req v bd) \<or>
   refused bl sb req (extract_params bl req (fst (verb_params v)) (snd (verb_params v))) bd (call_verb bl sb req v bd)"
  unfolding call_verb_def by (rule with_params_outcome [OF refl])

lemma mem_only_database: "mem_only bd bd' \<Longrightarrow> bd_udb bd' = bd_udb bd"
  by (auto simp: mem_only_def)

lemma public_reply:
  assumes "fst (call_verb bl sb req v bd) = Reply_json (Some r)"
  shows "(v = v_runnables \<longrightarrow> (\<exists>all. (all \<longrightarrow> granted req auth_perm_view_all) \<and> afm_udb_applications_public (bd_udb bd) all = Some r)) \<and>
    (v = v_detail \<longrightarrow> (\<exists>idt. pa_id (extract_params bl req Param_Id 0) = Some idt \<and>
       afm_udb_get_application_public (vl_array (bl_value bl)) (bd_udb bd) idt = Some r))"
proof -
  let ?x = "extract_params bl req (fst (verb_params v)) (snd (verb_params v))"
  have "performed bl sb req ?x (verb_action bl sb v) bd (call_verb bl sb req v bd) \<or> refused bl sb req ?x bd (call_verb bl sb req v bd)"
    unfolding call_verb_def by (rule with_params_outcome [OF refl])
  then have "performed bl sb req ?x (verb_action bl sb v) bd (call_verb bl sb req v bd)"
    using assms by (auto simp: refused_def)
  then obtain p bd' where p: "permitted bl req ?x" "call_verb bl sb req v bd = verb_action bl sb v p bd'"
      "p = ?x \<and> mem_only bd bd' \<or> (\<exists>i. searched bl sb ?x bd i bd' \<and> p = ?x\<lparr>pa_runid := i, pa_found := pa_found ?x OR Param_RunId\<rparr>)"
    by (auto simp: performed_def)
  have db: "bd_udb bd' = bd_udb bd" using p(3) by (auto simp: searched_def dest: mem_only_database)
  have all: "(f OR Param_RunId) AND Param_All = f AND Param_All" for f :: "32 word"
    by (simp add: word_ao_dist param_defs)
  have "pa_found p AND Param_All = 0 \<or> granted req auth_perm_view_all"
    using p(1,3) by (auto simp: permitted_def all)
  then show ?thesis
  proof (intro conjI impI)
    assume "v = v_runnables"
    with p(2) db assms \<open>pa_found p AND Param_All = 0 \<or> _\<close>
    show "\<exists>all. (all \<longrightarrow> granted req auth_perm_view_all) \<and> afm_udb_applications_public (bd_udb bd) all = Some r"
      by (intro exI [of _ "pa_found p AND Param_All \<noteq> 0"]) (auto simp: a_runnables_def)
  next
    assume "v = v_detail"
    moreover have "pa_id p = pa_id ?x" using p(3) by auto
    ultimately show "\<exists>idt. pa_id (extract_params bl req Param_Id 0) = Some idt \<and>
        afm_udb_get_application_public (vl_array (bl_value bl)) (bd_udb bd) idt = Some r"
      using p(2) db assms by (auto simp: a_detail_def split: option.splits)
  qed
qed

text \<open>What the lists and the look up of a database give of the units that it holds.\<close>

lemma public_lists:
  assumes "array_laws al" "apps_hold al us a" "applications db = Some a"
  shows "afm_udb_applications_public db all = Some l \<Longrightarrow>
      jl_items (al_json al) l = map uu_pub (if all then us else filter uu_visible us)"
    and "afm_udb_get_application_public al db idt = Some r \<Longrightarrow> \<exists>u \<in> set us. r = uu_pub u \<and> c_strcasecmp_eq (uu_id u) idt"
proof -
  have s: "sets_hold al (map (\<lambda>u. (uu_id u, uu_visible u, uu_pub u)) us) (publics a)" using assms(2) by (simp add: apps_hold_def)
  have v: "[j. (_, v, j) \<leftarrow> map (\<lambda>u. (uu_id u, uu_visible u, uu_pub u)) us, v] = map uu_pub (filter uu_visible us)"
    by (induction us) auto
  show "afm_udb_applications_public db all = Some l \<Longrightarrow> jl_items (al_json al) l = map uu_pub (if all then us else filter uu_visible us)"
    using s v assms(3) by (cases all) (auto simp: afm_udb_applications_public_def sets_hold_def comp_def)
  show "\<exists>u \<in> set us. r = uu_pub u \<and> c_strcasecmp_eq (uu_id u) idt" if "afm_udb_get_application_public al db idt = Some r"
    using array_laws.get_no_case_member [OF assms(1) s, of idt r] that assms(3)
    by (auto simp: afm_udb_get_application_public_def)
qed

text \<open>C14: What the verbs runnables and detail reply, on a database that was updated, for the applications of the files that were
  scanned: the verb runnables replies the public descriptions of the visible applications, in their order, or of all of
  them to a client that has the permission view-all; the verb detail replies the public
  description of an application that has the requested identifier, but for the case of letters, be it visible or
  hidden. A public description only has fields that the file of the application declares as public.\<close>

theorem public_verbs_safe:
  assumes "array_laws (vl_array (bl_value bl))"
    and "afm_udb_update (vl_array (bl_value bl)) env m db = (rc, bd_udb bd, m')" and "rc \<ge> 0"
    and "fst (call_verb bl sb req v bd) = Reply_json (Some r)"
  shows "\<exists>us. list_all (unit_described (vl_array (bl_value bl)) (list_all id m) env) us \<and>
    subseq (map uu_file us) (app_files env db) \<and> (list_all id m \<longrightarrow> map uu_file us = app_files env db) \<and>
    (v = v_runnables \<longrightarrow>
       jl_items (vjson (bl_value bl)) r = map uu_pub (filter uu_visible us) \<or>
       granted req auth_perm_view_all \<and> jl_items (vjson (bl_value bl)) r = map uu_pub us) \<and>
    (v = v_detail \<longrightarrow>
       (\<exists>idt u. pa_id (extract_params bl req Param_Id 0) = Some idt \<and> u \<in> set us \<and> c_strcasecmp_eq (uu_id u) idt \<and> r = uu_pub u)) \<and>
    (\<forall>u \<in> set us. \<forall>k. obj_get (vl_array (bl_value bl)) (uu_pub u) k \<noteq> None \<longrightarrow>
       \<not> is_private k \<and> k \<in> fst ` set (content_fields (unit_content env (fst (snd (uu_file u))))))"
proof -
  let ?al = "vl_array (bl_value bl)"
  obtain a us where a: "bd_udb bd = db\<lparr>applications := Some a\<rparr>" "apps_hold ?al us a" "list_all (unit_described ?al (list_all id m) env) us"
    "subseq (map uu_file us) (app_files env db)" "list_all id m \<longrightarrow> map uu_file us = app_files env db"
    using array_laws.update_holds [OF assms(1,2)] assms(3) by auto
  have app: "applications (bd_udb bd) = Some a" by (simp add: a(1))
  note r = public_reply [OF assms(4)] and l = public_lists [OF assms(1) a(2) app]
  have "jl_items (vjson (bl_value bl)) r = map uu_pub (filter uu_visible us) \<or>
       granted req auth_perm_view_all \<and> jl_items (vjson (bl_value bl)) r = map uu_pub us" if run: "v = v_runnables"
  proof -
    obtain all where "all \<longrightarrow> granted req auth_perm_view_all" "afm_udb_applications_public (bd_udb bd) all = Some r"
      using r run by blast
    with l(1) [of all r] show ?thesis by (cases all) simp_all
  qed
  moreover have "\<exists>idt u. pa_id (extract_params bl req Param_Id 0) = Some idt \<and> u \<in> set us \<and> c_strcasecmp_eq (uu_id u) idt \<and> r = uu_pub u"
    if "v = v_detail" using r l(2) that by blast
  moreover have "\<not> is_private k \<and> k \<in> fst ` set (content_fields (unit_content env (fst (snd (uu_file u)))))"
    if "u \<in> set us" "obj_get ?al (uu_pub u) k \<noteq> None" for u k
    using array_laws.public_fields_declared [OF assms(1) _ that(2)] a(3) that(1) by (auto simp: list_all_iff)
  ultimately show ?thesis using a(3-5) by (intro exI [of _ us]) blast
qed

definition json_binding_data :: "json binding_lib" where
  "json_binding_data = \<lparr>bl_value = json_value_data, bl_truth = (\<lambda>j. j = JBool True)\<rparr>"

definition demo_bd :: "(json, bool, nat) binding" where
  "demo_bd =
     \<lparr>bd_udb = demo_udb\<lparr>applications := Some \<lparr>privates = demo_sets demo_priv, publics = demo_sets demo_pub\<rparr>\<rparr>,
      bd_units = [demo_uu], bd_sd = demo_sd_state, bd_events = 0\<rparr>"

definition demo_req :: "json \<Rightarrow> json afb_req" where
  "demo_req j = \<lparr>ar_client = Some (JObj [(''uid'', JNum ''7'')]), ar_json = Some j, ar_perm = (\<lambda>p. 0)\<rparr>"

theorem public_verbs_safe_witness:
  "\<exists>us. map uu_file us = app_files demo_udb_env demo_udb \<and>
     list_all (unit_described json_array_data True demo_udb_env) us \<and> [demo_pub] = map uu_pub (filter uu_visible us)"
proof -
  have c: "fst (call_verb json_binding_data demo_sd (demo_req (JObj [])) v_runnables demo_bd) = Reply_json (Some (JArr [demo_pub]))"
    by code_simp
  have u: "afm_udb_update (vl_array (bl_value json_binding_data)) demo_udb_env [] demo_udb = (0, bd_udb demo_bd, [])"
    using demo_udb_update by (simp add: demo_bd_def json_binding_data_def json_value_data_def)
  have al: "vl_array (bl_value json_binding_data) = json_array_data" by (simp add: json_binding_data_def json_value_data_def)
  have "\<not> granted (demo_req (JObj [])) auth_perm_view_all" by code_simp
  moreover have "jl_items (vjson (bl_value json_binding_data)) (JArr [demo_pub]) = [demo_pub]"
    by (simp add: json_binding_data_def json_value_data_def json_data_def)
  ultimately show ?thesis
    using public_verbs_safe [OF _ u _ c] array_data.array_laws_axioms by (auto simp: al)
qed

text \<open>A null identifier makes the look up use a null pointer.\<close>

lemma null_id_undefined:
  "fst (call_verb json_binding_data demo_sd (demo_req (JObj [(''id'', JNull)])) v_detail demo_bd) = Reply_undefined"
  by code_simp

text \<open>Another user is refused without the permission.\<close>

lemma other_user_forbidden:
  "fst (call_verb json_binding_data demo_sd (demo_req (JObj [(''id'', JStr ''app''), (''uid'', JNum ''0'')])) v_start demo_bd) =
     Reply_error AFB_ERRNO_FORBIDDEN"
  by code_simp

section \<open>Updates\<close>

text \<open>The units that the binding uses are those of the database.\<close>

lemma units_of_holds:
  assumes "apps_hold (vl_array vl) us a" "applications db = Some a" "list_all (unit_described (vl_array vl) full env) us"
  shows "map (\<lambda>u. (uu_priv u, uu_pub u, uu_id u, uu_visible u)) (units_of vl db) =
    map (\<lambda>u. (uu_priv u, uu_pub u, uu_id u, uu_visible u)) us"
proof -
  have i: "jl_items (vjson vl) (as_all (privates a)) = map uu_priv us" "jl_items (vjson vl) (as_all (publics a)) = map uu_pub us"
    using assms(1) by (simp_all add: apps_hold_def sets_hold_def comp_def)
  have "units_of vl db = map (\<lambda>u. unit_of vl (uu_priv u) (uu_pub u)) us"
    by (simp add: units_of_def assms(2) i zip_map_map zip_same_conv_map comp_def)
  then show ?thesis using assms(3)
    by (auto simp: unit_of_def unit_described_def list_all_iff)
qed

end
