(* ===== verification/Spec2Isabelle.thy ===== *)
theory Spec2Isabelle
  imports SignedDigest UtilsDir UnitGenerator Auth WgtJson SecmgrWrap Sighup AfmpkgRoots AfmpkgPerms AfmpkgPlugin Installerd AfmBinding
begin

text \<open>
  Verification of the application framework afb-app-manager: the program that installs the
  packages of applications of a redpesk system, declares them to systemd and to the security
  manager, and lists, starts and stops them for the users. Paths below are under
  \<^verbatim>\<open>src/src\<close>.

  \<^bold>\<open>The program.\<close> The plugin of rpm sends to the package daemon, over a socket, one
  request per package of a transaction. The daemon reads the request line by line, collects the
  files of the package in a tree of path entries, finds the roots of the packages in the tree,
  reads their manifests, computes the permissions, the types of the files and the units, and
  drives the security manager and the installation of units. The units are the instances of a
  mustache template, split in files. The binding of the framework reads the installed
  unit files in a database of applications and offers verbs to list, start, stop and inspect
  applications through systemd. Packages can hold signed digests of their files,
  signed by certificates that carry levels for domains.

  \<^bold>\<open>The theories\<close>, each with the component of the code it models:

  \<^item> \<open>AFM_Prelude\<close>: what the components share. The allocation of memory is a script of
    booleans, one per allocation, true after its end: \<open>list_all id m\<close> says that memory suffices. C
    strings are lists of characters without null; error numbers; \<^verbatim>\<open>snprintf\<close> and decimal texts;
    the collections of rewrite rules.
  \<^item> \<open>Permset\<close> (\<^verbatim>\<open>utils/permset.c\<close>): the set of permissions with its cursor, as the
    record \<open>permset\<close>; refinement to the map of marks of each name, enumeration of the selections.
  \<^item> \<open>PathType\<close> (\<^verbatim>\<open>utils/path-type.c\<close>, \<^verbatim>\<open>utils/mime-type.c\<close>): the tables of types.
  \<^item> \<open>PathEntry\<close>, \<open>PathWalk\<close> (\<^verbatim>\<open>utils/path-entry.c\<close>): the tree of entries as a datatype, its
    positions as lists of names; additions, searches, prepending, destruction; paths in buffers, walks with a callback,
    variables. Refinement to a map of paths, order and completeness of walks, bounds of buffers.
  \<^item> \<open>DomainSpec\<close> (\<^verbatim>\<open>utils/domain-spec.c\<close>): levels of domains, their text, the rule of
    signature; along a chain of certificates no level grows.
  \<^item> \<open>SignatureName\<close>, \<open>Digest\<close> (\<^verbatim>\<open>cert/signature-name.c\<close>, \<^verbatim>\<open>cert/digest.c\<close>): digests of the
    files of a package, made and checked over the tree; an accepted digest vouches for each file.
  \<^item> \<open>Cert\<close>, \<open>SignedDigest\<close> (\<^verbatim>\<open>cert/common-cert.c\<close>, \<^verbatim>\<open>cert/check-signature.c\<close>, \<^verbatim>\<open>cert/make-signature.c\<close>,
    \<^verbatim>\<open>cert/signed-digest.c\<close>): chains of certificates, their order, signatures, and the check of the signatures of a package;
    what is accepted leads to a trusted certificate by a path each link of which is able to sign the next (the first link, from the trusted
    certificate, is the only one whose domains the code does not check), when the recursion over issuers returns, and which of
    several signatures decides of the status of a package.
  \<^item> \<open>UtilsDir\<close> (\<^verbatim>\<open>utils/utils-dir.c\<close>): removal of directories with their content, over a tree of files, and creation with
    the missing parents.
  \<^item> \<open>UnitGenerator\<close> (\<^verbatim>\<open>utils/unit-generator.c\<close>): from a manifest to its installed units, over the template engine, the split of the corpus, the
    installation of units and the allocation of identifiers.
  \<^item> \<open>Auth\<close> (\<^verbatim>\<open>binding/auth.c\<close>): the evaluation of an authorisation with its stack.
  \<^item> \<open>Wgt\<close>, \<open>WgtInfo\<close>, \<open>WgtJson\<close> (\<^verbatim>\<open>wgtpkg/wgt.c\<close>, \<^verbatim>\<open>wgtpkg/wgt-config.c\<close>, \<^verbatim>\<open>wgtpkg/wgt-info.c\<close>,
    \<^verbatim>\<open>wgtpkg/wgt-json.c\<close>): the access to unpacked widgets and the search by locales, the description read from an XML document,
    equivalent to a reference on lists, and its translation to JSON with its targets and permissions.
  \<^item> \<open>SecmgrWrap\<close> (\<^verbatim>\<open>secmgr/secmgr-wrap.c\<close>): the wrapper of the security manager, a step relation whose
    reachable states have at most one handle.
  \<^item> \<open>Sighup\<close> (\<^verbatim>\<open>utils/sighup-framework.c\<close>): the search of the daemon to signal, through a buffer that is shared by paths and contents.
  \<^item> \<open>UnitFs\<close>, \<open>UnitOper\<close> (\<^verbatim>\<open>units/unit-fs.c\<close>, \<^verbatim>\<open>units/unit-desc.c\<close>, \<^verbatim>\<open>units/normalize-unit-file.c\<close>,
    \<^verbatim>\<open>utils/unit-oper.c\<close>): paths of units, their installation in a file system that is a map of paths, with the links of
    wanted units; rollback of failures, round trip with the removal.
  \<^item> \<open>Afid\<close> (\<^verbatim>\<open>utils/manage-afid.c\<close>): the allocation of identifiers in an array of bits kept at
    the width of its words.
  \<^item> \<open>UnitProcess\<close> (\<^verbatim>\<open>units/unit-process.c\<close>): packing of texts and split of the corpus of units.
  \<^item> \<open>Mustach\<close>, \<open>ApplyMustach\<close>, \<open>MustachRender\<close> (\<^verbatim>\<open>mustach/mustach.c\<close>,
    \<^verbatim>\<open>units/apply-mustach.c\<close>): the template engine with its loop over tags, the callbacks on JSON
    contexts, and a recursive definition of what a template gives, to which the engine is equivalent.
  \<^item> \<open>Manifest\<close>, \<open>UtilsJson\<close> (\<^verbatim>\<open>utils/manifest.c\<close>, \<^verbatim>\<open>utils/utils-json.c\<close>): checks and normal
    form of manifests, helpers on JSON values.
  \<^item> \<open>Afmpkg\<close>, \<open>AfmpkgRoots\<close>, \<open>AfmpkgStd\<close>, \<open>AfmpkgSession\<close>, \<open>AfmpkgPerms\<close> (\<^verbatim>\<open>afmpkg/afmpkg.c\<close>,
    \<^verbatim>\<open>afmpkg/afmpkg-std.c\<close>): the processing of a package over the operations of an
    interface, the search of roots, the sessions with the security manager: nothing is committed for a package that fails,
    and what is committed for a package has the permissions that its manifest asks for and the default one.
  \<^item> \<open>AfmpkgRequest\<close>, \<open>AfmpkgServer\<close>, \<open>AfmpkgClient\<close> (\<^verbatim>\<open>afmpkg/afmpkg-request.c\<close>,
    \<^verbatim>\<open>afmpkg/afmpkg-server.c\<close>, \<^verbatim>\<open>afmpkg/afmpkg-client.c\<close>): the line protocol on both sides, the
    accounting of transactions, which refines a ledger of outcomes, the buffers; a request sent is the request processed, and its answer is one
    line.
  \<^item> \<open>AfmpkgPlugin\<close>, \<open>Installerd\<close> (\<^verbatim>\<open>rpm-plugin/redpesk.c\<close>,
    \<^verbatim>\<open>main/main-afmpkg-installerd.c\<close>): the hooks of rpm and the loop of the daemon as a
    step relation with its threads.
  \<^item> \<open>Systemd\<close>, \<open>AfmUdb\<close>, \<open>AfmUrun\<close>, \<open>AfmBinding\<close> (\<^verbatim>\<open>utils/utils-systemd.c\<close>,
    \<^verbatim>\<open>binding/afm-udb.c\<close>, \<^verbatim>\<open>binding/afm-urun.c\<close>, \<^verbatim>\<open>binding/afm-binding.c\<close>): the exchanges with systemd, the database
    of applications, the runners, the verbs with their parameters and permissions. The runners that are listed are those that a
    steady systemd has; a verb acts with the permissions that its parameters need, or has no effect.

  \<^bold>\<open>Conventions.\<close> A function that changes a structure gives it back changed, with the status that
  the code returns, negative for an error. Undefined behaviours, as null pointers given to the C library, are the
  value \<open>None\<close> or a constructor of their own. Code that is not in the repository is a parameter, a
  record of functions: json-c, libxml2, rp-utils, sec-lsm-manager, gnutls, sd-bus, the binder, rpm and the system calls.
  What is relied on is stated by locales, that are interpreted on concrete instances.
  The daemon is taken as serving its clients one after the other, and the service of a client is one step of the
  loop of threads. The differences of sizes of icons and the depth of a path of a widget are unbounded integers, where
  the code has the type \<open>int\<close>.

  \<^bold>\<open>Bounds.\<close> The sizes of buffers are those of the code: 32768 bytes for a request received by the daemon, 512 for
  its replies, 4050 for the first buffer of the client, the stack of 8 of authorisations, the limits 256, 4096
  and 8 of the template engine, the 30000 trials of a wait. The template engine is bounded by fuel,
  since a section or a partial may be endless; the theorem on rendering shows that enough fuel exists. The
  check of a chain of certificates and their sort are bounded by fuel too, and theorems tell when enough fuel exists, since
  both may be endless in the code. The
  times, the bytes that a socket delivers and the answers of systemd are given as scripts, of any length.

  \<^bold>\<open>Not modelled.\<close> The legacy tools of widgets, the draft of signatures, the former versions of
  the installer and of the plugin, which are not built by default; the
  main programs, which parse options around the libraries; the setup of directories at boot, made of system calls; messages to the log.
\<close>

end
